(* ===== verification/Prelude.thy ===== *)
theory Prelude
  imports Complex_Main "HOL-Library.AList" "HOL-Library.Multiset"
begin

text \<open>
  Shared vocabulary of the development: Python dictionaries and sets, JSON payloads,
  exceptions as values, stable sorting and the small list lemmas that the component
  theories use.  Python values are read as follows.

  \<^item> \<open>float\<close> is \<open>real\<close> (rounding is not modelled), \<open>int\<close> is \<open>int\<close>,
    \<open>str\<close> is \<open>string\<close>; wall-clock time is a \<open>real\<close> passed to the operation that
    calls \<open>time.time()\<close>.
  \<^item> A \<open>dict\<close> is an association list in insertion order: \<open>d[k] = v\<close> keeps the position
    of a key that is present and appends a new one, exactly what \<open>AList.update\<close> does.
  \<^item> A \<open>set\<close> that the code iterates or counts is a list without duplicates.
\<close>

named_theorems dict_simps \<open>lookup, keys and well-formedness of dictionaries\<close>

type_synonym time = real
type_synonym ('k, 'v) dict = "('k \<times> 'v) list"

abbreviation dget :: "('k, 'v) dict \<Rightarrow> 'k \<Rightarrow> 'v option" where
  "dget d k \<equiv> map_of d k"

abbreviation dset :: "('k, 'v) dict \<Rightarrow> 'k \<Rightarrow> 'v \<Rightarrow> ('k, 'v) dict" where
  "dset d k v \<equiv> AList.update k v d"

abbreviation dpop :: "('k, 'v) dict \<Rightarrow> 'k \<Rightarrow> ('k, 'v) dict" where
  "dpop d k \<equiv> AList.delete k d"

abbreviation dkeys :: "('k, 'v) dict \<Rightarrow> 'k list" where
  "dkeys d \<equiv> map fst d"

abbreviation dvals :: "('k, 'v) dict \<Rightarrow> 'v list" where
  "dvals d \<equiv> map snd d"

definition dwf :: "('k, 'v) dict \<Rightarrow> bool" where
  "dwf d \<longleftrightarrow> distinct (dkeys d)"

definition dget_or :: "('k, 'v) dict \<Rightarrow> 'k \<Rightarrow> 'v \<Rightarrow> 'v" where
  "dget_or d k v = (case dget d k of None \<Rightarrow> v | Some x \<Rightarrow> x)"

lemma dget_dset [simp, dict_simps]:
  "dget (dset d k v) k' = (if k' = k then Some v else dget d k')"
  by (simp add: update_conv')

lemma dget_dpop [simp, dict_simps]:
  "dget (dpop d k) k' = (if k' = k then None else dget d k')"
  by (simp add: delete_conv')

lemma dwf_Nil [simp, dict_simps]: "dwf []"
  by (simp add: dwf_def)

lemma dwf_dset [simp, intro, dict_simps]: "dwf d \<Longrightarrow> dwf (dset d k v)"
  by (simp add: dwf_def distinct_update)

lemma dwf_dpop [simp, intro, dict_simps]: "dwf d \<Longrightarrow> dwf (dpop d k)"
  by (simp add: dwf_def distinct_delete)

lemma dwf_filter [intro]: "dwf d \<Longrightarrow> dwf (filter P d)"
  by (simp add: dwf_def distinct_map_filter)

lemma dwf_tl [intro]: "dwf d \<Longrightarrow> dwf (tl d)"
  by (cases d) (simp_all add: dwf_def)

lemma dget_dwf_iff: "dwf d \<Longrightarrow> dget d k = Some v \<longleftrightarrow> (k, v) \<in> set d"
  by (simp add: dwf_def)

lemma dget_SomeD: "dget d k = Some v \<Longrightarrow> (k, v) \<in> set d"
  by (rule map_of_SomeD)

lemma dkeys_dset: "set (dkeys (dset d k v)) = insert k (set (dkeys d))"
  by (simp add: update_keys image_iff) auto

lemma dkeys_dpop: "set (dkeys (dpop d k)) = set (dkeys d) - {k}"
  by (simp add: delete_keys)

lemma dget_None_iff: "dget d k = None \<longleftrightarrow> k \<notin> set (dkeys d)"
  by (simp add: map_of_eq_None_iff)

lemma length_dset:
  "length (dset d k v) = (if k \<in> set (dkeys d) then length d else Suc (length d))"
  by (induction d) auto

lemma length_dpop_le: "length (dpop d k) \<le> length d"
  by (simp add: AList.delete_eq)

lemma length_dpop:
  "dwf d \<Longrightarrow> length (dpop d k) = (if k \<in> set (dkeys d) then length d - 1 else length d)"
proof (induction d)
  case Nil
  then show ?case by simp
next
  case (Cons p d)
  have wf: "dwf d" and np: "fst p \<notin> set (dkeys d)"
    using Cons.prems by (auto simp: dwf_def)
  show ?case
  proof (cases "fst p = k")
    case True
    with np have "dpop d k = d" by simp
    with True show ?thesis by simp
  next
    case False
    then show ?thesis
      using Cons.IH [OF wf] by (cases d) auto
  qed
qed

text \<open>Python sets as duplicate-free lists.\<close>

definition sadd :: "'a \<Rightarrow> 'a list \<Rightarrow> 'a list" where
  "sadd x xs = (if x \<in> set xs then xs else xs @ [x])"

definition sdiscard :: "'a \<Rightarrow> 'a list \<Rightarrow> 'a list" where
  "sdiscard x xs = removeAll x xs"

lemma set_sadd [simp]: "set (sadd x xs) = insert x (set xs)"
  by (auto simp: sadd_def)

lemma distinct_sadd [simp, intro]: "distinct xs \<Longrightarrow> distinct (sadd x xs)"
  by (simp add: sadd_def)

lemma set_sdiscard [simp]: "set (sdiscard x xs) = set xs - {x}"
  by (simp add: sdiscard_def)

lemma distinct_sdiscard [simp, intro]: "distinct xs \<Longrightarrow> distinct (sdiscard x xs)"
  by (simp add: sdiscard_def distinct_removeAll)

text \<open>\<open>seen = set(xs); for y in ys: if y not in seen: xs.append(y); seen.add(y)\<close>.\<close>

definition extend_new :: "'a list \<Rightarrow> 'a list \<Rightarrow> 'a list" where
  "extend_new xs ys = fold sadd ys xs"

lemma set_extend_new [simp]: "set (extend_new xs ys) = set xs \<union> set ys"
  unfolding extend_new_def by (induction ys arbitrary: xs) auto

lemma distinct_extend_new [simp, intro]: "distinct xs \<Longrightarrow> distinct (extend_new xs ys)"
  unfolding extend_new_def by (induction ys arbitrary: xs) auto

lemma extend_new_Nil [simp]: "extend_new xs [] = xs"
  by (simp add: extend_new_def)

text \<open>JSON values, as \<open>json.loads\<close> returns them.\<close>

datatype json =
    JNull
  | JBool bool
  | JInt int
  | JReal real
  | JStr string
  | JList "json list"
  | JObj "(string \<times> json) list"

text \<open>Exceptions that operations raise, with the reason as data.\<close>

datatype py_error =
    ValueError string
  | KeyError string
  | RuntimeError string
  | PermissionError string
  | TypeErrorPy string

text \<open>Python's \<open>a or b\<close> on strings.\<close>

definition str_or :: "string \<Rightarrow> string \<Rightarrow> string" where
  "str_or a b = (if a = [] then b else a)"

lemma str_or_simps [simp]: "str_or [] b = b" "a \<noteq> [] \<Longrightarrow> str_or a b = a"
  by (simp_all add: str_or_def)

text \<open>\<open>sorted(xs, key=f, reverse=True)\<close>: descending and stable.\<close>

definition sort_desc :: "('a \<Rightarrow> 'b::linordered_ab_group_add) \<Rightarrow> 'a list \<Rightarrow> 'a list" where
  "sort_desc f xs = sort_key (\<lambda>x. - f x) xs"

lemma mset_sort_desc [simp]: "mset (sort_desc f xs) = mset xs"
  by (simp add: sort_desc_def)

lemma set_sort_desc [simp]: "set (sort_desc f xs) = set xs"
  by (simp add: sort_desc_def)

lemma length_sort_desc [simp]: "length (sort_desc f xs) = length xs"
  by (simp add: sort_desc_def)

lemma distinct_sort_desc [simp]: "distinct (sort_desc f xs) = distinct xs"
  by (simp add: sort_desc_def)

lemma sorted_sort_desc: "sorted (map (\<lambda>x. - f x) (sort_desc f xs))"
  by (simp add: sort_desc_def)

text \<open>\<open>min(xs, key=f)\<close>: the first element with the least key.\<close>

fun first_min :: "('a \<Rightarrow> 'b::linorder) \<Rightarrow> 'a list \<Rightarrow> 'a option" where
  "first_min f [] = None"
| "first_min f (x # xs) =
     (case first_min f xs of
        None \<Rightarrow> Some x
      | Some y \<Rightarrow> if f x \<le> f y then Some x else Some y)"

lemma first_min_None [simp]: "first_min f xs = None \<longleftrightarrow> xs = []"
  by (cases xs) (auto split: option.splits)

lemma first_min_mem: "first_min f xs = Some y \<Longrightarrow> y \<in> set xs"
  by (induction xs arbitrary: y) (auto split: option.splits if_splits)

lemma first_min_le: "first_min f xs = Some y \<Longrightarrow> x \<in> set xs \<Longrightarrow> f y \<le> f x"
proof (induction xs arbitrary: y)
  case Nil
  then show ?case by simp
next
  case (Cons a xs)
  show ?case
  proof (cases "first_min f xs")
    case None
    with Cons.prems show ?thesis by auto
  next
    case (Some z)
    with Cons.prems Cons.IH [OF Some] show ?thesis
      by (auto split: if_splits)
  qed
qed

text \<open>Counting with a list comprehension: \<open>sum(1 for x in xs if P x)\<close>.\<close>

definition count_if :: "('a \<Rightarrow> bool) \<Rightarrow> 'a list \<Rightarrow> nat" where
  "count_if P xs = length (filter P xs)"

lemma count_if_simps [simp]:
  "count_if P [] = 0"
  "count_if P (x # xs) = (if P x then Suc (count_if P xs) else count_if P xs)"
  by (simp_all add: count_if_def)

lemma count_if_append [simp]: "count_if P (xs @ ys) = count_if P xs + count_if P ys"
  by (simp add: count_if_def)

lemma count_if_le: "count_if P xs \<le> length xs"
  by (simp add: count_if_def)

subsection \<open>Registers that only grow\<close>

text \<open>
  A value that every event replaces by the larger of itself and what the event carries: election
  terms, rule epochs and the ends of bans all work this way.  What such a register holds in the end
  depends only on the set of events, not on their order or number.
\<close>

locale join_log =
  fixes read :: "'s \<Rightarrow> 'a::linorder" and val :: "'e \<Rightarrow> 'a" and step :: "'e \<Rightarrow> 's \<Rightarrow> 's"
  assumes read_step: "read (step e s) = max (read s) (val e)"
begin

lemma read_steps_Max: "read (fold step es s) = Max (insert (read s) (val ` set es))"
proof (induction es rule: rev_induct)
  case (snoc e es)
  have "insert (read s) (val ` set (es @ [e])) = insert (val e) (insert (read s) (val ` set es))" by auto
  moreover have "Max (insert (val e) (insert (read s) (val ` set es)))
      = max (val e) (Max (insert (read s) (val ` set es)))" by (rule Max_insert) auto
  ultimately show ?case using snoc by (simp add: read_step max.commute)
qed simp

lemma read_steps_ge: "read s \<le> read (fold step es s)"
  by (simp add: read_steps_Max)

lemma read_steps_ge_each: "e \<in> set es \<Longrightarrow> val e \<le> read (fold step es s)"
  by (simp add: read_steps_Max)

lemma read_steps_order: "set es = set es' \<Longrightarrow> read (fold step es s) = read (fold step es' s)"
  by (simp add: read_steps_Max)

end

text \<open>
  The contract of a value that is replaced only by a larger one: \<open>offer\<close> presents a value, \<open>read\<close>
  gets the stored one.
\<close>

locale max_register =
  fixes read :: "'s \<Rightarrow> 'a::linorder" and offer :: "'a \<Rightarrow> 's \<Rightarrow> 's"
  assumes read_offer: "read (offer x s) = max (read s) x"

sublocale max_register \<subseteq> join_log read "\<lambda>x. x" offer
  by unfold_locales (rule read_offer)

context max_register
begin

lemma read_offers_Max: "read (fold offer xs s) = Max (insert (read s) (set xs))"
  using read_steps_Max [of xs s] by simp

lemmas read_offers_ge = read_steps_ge

lemmas read_offers_ge_each = read_steps_ge_each

lemma read_offers_order: "mset xs = mset ys \<Longrightarrow> read (fold offer xs s) = read (fold offer ys s)"
  by (rule read_steps_order) (metis set_mset_mset)

end

text \<open>
  The contract of a dictionary format: what was written is read back, up to the fields the format does
  not carry.  A receiver that folds over the dictionaries of a list of objects then sees those objects.
\<close>

locale wire_format =
  fixes enc :: "'a \<Rightarrow> 'w" and dec :: "'w \<Rightarrow> 'a option" and carried :: "'a \<Rightarrow> 'a"
  assumes dec_enc: "dec (enc x) = Some (carried x)"
begin

lemma fold_dec:
  "fold (\<lambda>d acc. case dec d of None \<Rightarrow> acc | Some x \<Rightarrow> f x acc) (map enc xs) acc = fold (\<lambda>x. f (carried x)) xs acc"
  by (induction xs arbitrary: acc) (simp_all add: dec_enc)

lemma enc_inj: "enc x = enc y \<Longrightarrow> carried x = carried y"
  using dec_enc [of x] dec_enc [of y] by simp

end

subsection \<open>Results with errors\<close>

text \<open>Sequencing of operations that may raise, and the value of a result.\<close>

definition and_then :: "'e + 'a \<Rightarrow> ('a \<Rightarrow> 'e + 'b) \<Rightarrow> 'e + 'b" where
  "and_then r f = (case r of Inl e \<Rightarrow> Inl e | Inr x \<Rightarrow> f x)"

definition value_of :: "'e + 'a \<Rightarrow> 'a option" where
  "value_of r = (case r of Inl _ \<Rightarrow> None | Inr x \<Rightarrow> Some x)"

lemma and_then_simps [simp]: "and_then (Inl e) f = Inl e" "and_then (Inr x) f = f x"
  by (simp_all add: and_then_def)

lemma value_of_simps [simp]: "value_of (Inl e) = None" "value_of (Inr x) = Some x"
  by (simp_all add: value_of_def)

lemma and_then_Inr: "and_then r f = Inr y \<longleftrightarrow> (\<exists>x. r = Inr x \<and> f x = Inr y)"
  by (cases r) simp_all

end
