(* ===== verification/CircuitBreaker.thy ===== *)
theory CircuitBreaker
  imports Prelude
begin

text \<open>
  \<open>protocol/circuit_breaker.py\<close>: the breaker that keeps a failing peer from being called.
  The record holds every attribute of \<open>CircuitBreaker\<close>; each method is one definition that
  takes the clock reading and returns the new state, and the property \<open>state\<close>, which
  performs the OPEN to HALF_OPEN transition as a side effect, is \<open>cb_observe\<close>.
\<close>

datatype circuit_state = CLOSED | OPEN | HALF_OPEN

record breaker =
  cb_name :: string
  failure_threshold :: int
  recovery_timeout :: time
  half_open_max :: int
  cb_state :: circuit_state
  failure_count :: int
  success_count :: int
  last_failure_time :: time
  half_open_count :: int
  total_calls :: int
  total_failures :: int

definition breaker_init :: "string \<Rightarrow> int \<Rightarrow> time \<Rightarrow> int \<Rightarrow> breaker" where
  "breaker_init nm thr rec hom =
     \<lparr>cb_name = nm, failure_threshold = thr, recovery_timeout = rec, half_open_max = hom,
      cb_state = CLOSED, failure_count = 0, success_count = 0, last_failure_time = 0,
      half_open_count = 0, total_calls = 0, total_failures = 0\<rparr>"

definition cb_observe :: "time \<Rightarrow> breaker \<Rightarrow> breaker" where
  "cb_observe now b =
     (if cb_state b = OPEN \<and> now - last_failure_time b \<ge> recovery_timeout b
      then b\<lparr>cb_state := HALF_OPEN, half_open_count := 0\<rparr>
      else b)"

definition cb_is_open :: "time \<Rightarrow> breaker \<Rightarrow> breaker \<times> bool" where
  "cb_is_open now b = (let b' = cb_observe now b in (b', cb_state b' = OPEN))"

definition cb_is_closed :: "time \<Rightarrow> breaker \<Rightarrow> breaker \<times> bool" where
  "cb_is_closed now b = (let b' = cb_observe now b in (b', cb_state b' = CLOSED))"

definition allow_request :: "time \<Rightarrow> breaker \<Rightarrow> breaker \<times> bool" where
  "allow_request now b0 =
     (let b = cb_observe now (b0\<lparr>total_calls := total_calls b0 + 1\<rparr>)
      in case cb_state b of
           CLOSED \<Rightarrow> (b, True)
         | HALF_OPEN \<Rightarrow>
             (if half_open_count b < half_open_max b
              then (b\<lparr>half_open_count := half_open_count b + 1\<rparr>, True)
              else (b, False))
         | OPEN \<Rightarrow> (b, False))"

definition record_success :: "breaker \<Rightarrow> breaker" where
  "record_success b0 =
     (let b = b0\<lparr>success_count := success_count b0 + 1\<rparr>
      in case cb_state b of
           HALF_OPEN \<Rightarrow> b\<lparr>cb_state := CLOSED, failure_count := 0\<rparr>
         | CLOSED \<Rightarrow> b\<lparr>failure_count := 0\<rparr>
         | OPEN \<Rightarrow> b)"

definition record_failure :: "time \<Rightarrow> breaker \<Rightarrow> breaker" where
  "record_failure now b0 =
     (let b = b0\<lparr>failure_count := failure_count b0 + 1,
                 total_failures := total_failures b0 + 1,
                 last_failure_time := now\<rparr>
      in case cb_state b of
           HALF_OPEN \<Rightarrow> b\<lparr>cb_state := OPEN\<rparr>
         | CLOSED \<Rightarrow>
             (if failure_count b \<ge> failure_threshold b then b\<lparr>cb_state := OPEN\<rparr> else b)
         | OPEN \<Rightarrow> b)"

definition cb_reset :: "breaker \<Rightarrow> breaker" where
  "cb_reset b =
     b\<lparr>cb_state := CLOSED, failure_count := 0, success_count := 0, half_open_count := 0\<rparr>"

definition cb_get_stats :: "time \<Rightarrow> breaker \<Rightarrow> breaker \<times> (string \<times> circuit_state \<times> int \<times> int \<times> int \<times> int \<times> time)" where
  "cb_get_stats now b =
     (let b' = cb_observe now b
      in (b', (cb_name b', cb_state b', failure_count b', total_calls b', total_failures b',
               failure_threshold b', recovery_timeout b')))"

text \<open>A caller's use of the breaker as a sequence of calls with the clock of each.\<close>

datatype breaker_call = Ask time | Succeeded | Failed time | ResetCall

fun breaker_step :: "breaker_call \<Rightarrow> breaker \<Rightarrow> breaker" where
  "breaker_step (Ask t) b = fst (allow_request t b)"
| "breaker_step Succeeded b = record_success b"
| "breaker_step (Failed t) b = record_failure t b"
| "breaker_step ResetCall b = cb_reset b"

definition breaker_run :: "breaker_call list \<Rightarrow> breaker \<Rightarrow> breaker" where
  "breaker_run cs b = fold breaker_step cs b"

lemmas breaker_op_defs =
  cb_observe_def allow_request_def record_success_def record_failure_def cb_reset_def Let_def

subsection \<open>Invariant\<close>

text \<open>
  While CLOSED the failures since the last success stay below the threshold; the probes
  admitted in one HALF_OPEN period never exceed \<open>half_open_max\<close>.
\<close>

definition breaker_inv :: "breaker \<Rightarrow> bool" where
  "breaker_inv b \<longleftrightarrow>
     0 \<le> failure_count b \<and> 0 \<le> half_open_count b \<and> half_open_count b \<le> half_open_max b \<and>
     (cb_state b = CLOSED \<longrightarrow> failure_count b < failure_threshold b) \<and>
     0 < failure_threshold b"

lemma breaker_inv_init: "0 < thr \<Longrightarrow> 0 \<le> hom \<Longrightarrow> breaker_inv (breaker_init nm thr rec hom)"
  by (simp add: breaker_inv_def breaker_init_def)

lemma breaker_step_inv: "breaker_inv b \<Longrightarrow> breaker_inv (breaker_step c b)"
  by (cases c)
     (auto simp: breaker_inv_def breaker_op_defs split: circuit_state.splits)

lemma breaker_step_config [simp]:
  "failure_threshold (breaker_step c b) = failure_threshold b"
  "half_open_max (breaker_step c b) = half_open_max b"
  "recovery_timeout (breaker_step c b) = recovery_timeout b"
  by (cases c; simp add: breaker_op_defs split: circuit_state.splits)+

lemma breaker_run_inv: "breaker_inv b \<Longrightarrow> breaker_inv (breaker_run cs b)"
  unfolding breaker_run_def
  by (induction cs arbitrary: b) (auto intro: breaker_step_inv)

subsection \<open>Opening, rejecting, probing\<close>

lemma record_failure_closed_iff:
  assumes "cb_state b = CLOSED"
  shows "cb_state (record_failure t b) =
           (if failure_count b + 1 \<ge> failure_threshold b then OPEN else CLOSED)"
  using assms by (simp add: breaker_op_defs)

lemma open_rejects:
  assumes "cb_state b = OPEN" and "now < last_failure_time b + recovery_timeout b"
  shows "snd (allow_request now b) = False \<and> cb_state (fst (allow_request now b)) = OPEN"
  using assms by (simp add: breaker_op_defs)

lemma failures_below_threshold_stay_closed:
  assumes "cb_state b = CLOSED" and "failure_count b + int (length ts) < failure_threshold b"
  shows "cb_state (breaker_run (map Failed ts) b) = CLOSED \<and>
         failure_count (breaker_run (map Failed ts) b) = failure_count b + int (length ts)"
  using assms
proof (induction ts arbitrary: b)
  case Nil
  then show ?case by (simp add: breaker_run_def)
next
  case (Cons t ts)
  let ?b = "record_failure t b"
  have b: "cb_state ?b = CLOSED" "failure_count ?b = failure_count b + 1"
    "failure_threshold ?b = failure_threshold b"
    using Cons.prems by (simp_all add: breaker_op_defs)
  with Cons.prems Cons.IH [of ?b] show ?case
    by (simp add: breaker_run_def)
qed

text \<open>The answers a caller gets from a run of requests.\<close>

fun ask_all :: "time list \<Rightarrow> breaker \<Rightarrow> bool list" where
  "ask_all [] b = []"
| "ask_all (t # ts) b = (let (b', ok) = allow_request t b in ok # ask_all ts b')"

lemma ask_all_half_open:
  assumes "cb_state b = HALF_OPEN" and "half_open_count b \<le> half_open_max b"
  shows "int (count_if (\<lambda>x. x) (ask_all ts b)) \<le> half_open_max b - half_open_count b"
  using assms
proof (induction ts arbitrary: b)
  case Nil
  then show ?case by simp
next
  case (Cons t ts)
  show ?case
  proof (cases "half_open_count b < half_open_max b")
    case True
    let ?b = "b\<lparr>total_calls := total_calls b + 1, half_open_count := half_open_count b + 1\<rparr>"
    have "allow_request t b = (?b, True)"
      using True Cons.prems by (simp add: breaker_op_defs)
    moreover have "int (count_if (\<lambda>x. x) (ask_all ts ?b)) \<le> half_open_max ?b - half_open_count ?b"
      by (rule Cons.IH) (use True Cons.prems in simp_all)
    ultimately show ?thesis by simp
  next
    case False
    let ?b = "b\<lparr>total_calls := total_calls b + 1\<rparr>"
    have "allow_request t b = (?b, False)"
      using False Cons.prems by (simp add: breaker_op_defs)
    moreover have "int (count_if (\<lambda>x. x) (ask_all ts ?b)) \<le> half_open_max ?b - half_open_count ?b"
      by (rule Cons.IH) (use Cons.prems in simp_all)
    ultimately show ?thesis by simp
  qed
qed

lemma breaker_run_config: "half_open_max (breaker_run cs b) = half_open_max b"
    "failure_threshold (breaker_run cs b) = failure_threshold b"
  unfolding breaker_run_def by (induction cs arbitrary: b) simp_all

lemma breaker_init_config [simp]:
  "half_open_max (breaker_init nm thr rec hom) = hom" "failure_threshold (breaker_init nm thr rec hom) = thr"
  by (simp_all add: breaker_init_def)

text \<open>C10: After any sequence of requests, successes, failures and resets a closed breaker has seen fewer
  failures than its threshold since the last success, and a half-open breaker lets at most
  \<open>half_open_max\<close> probes through in all, those already admitted included.\<close>

theorem breaker_bounds:
  assumes "0 < thr" and "0 \<le> hom" and "b = breaker_run cs (breaker_init nm thr rec hom)"
  shows "(cb_state b = CLOSED \<longrightarrow> failure_count b < thr) \<and>
         (cb_state b = HALF_OPEN \<longrightarrow>
            half_open_count b + int (count_if (\<lambda>ok. ok) (ask_all ts b)) \<le> hom)"
proof -
  have inv: "breaker_inv b" unfolding assms(3) by (intro breaker_run_inv breaker_inv_init assms)
  have cfg: "half_open_max b = hom" "failure_threshold b = thr"
    by (simp_all add: assms(3) breaker_run_config)
  show ?thesis
    using inv cfg ask_all_half_open [of b ts] by (auto simp: breaker_inv_def)
qed

lemma breaker_bounds_witness:
  "let b = breaker_run [Failed 1, Failed 2, Ask 40] (breaker_init ''n1'' 2 30 1)
   in cb_state b = HALF_OPEN \<and> half_open_count b + int (count_if (\<lambda>ok. ok) (ask_all [41, 42] b)) \<le> 1"
proof -
  let ?b = "breaker_run [Failed 1, Failed 2, Ask 40] (breaker_init ''n1'' 2 30 1)"
  have "cb_state ?b = HALF_OPEN"
    by (simp add: breaker_run_def breaker_init_def breaker_op_defs)
  moreover have "(cb_state ?b = CLOSED \<longrightarrow> failure_count ?b < 2) \<and>
      (cb_state ?b = HALF_OPEN \<longrightarrow> half_open_count ?b + int (count_if (\<lambda>ok. ok) (ask_all [41, 42] ?b)) \<le> 1)"
    by (rule breaker_bounds [OF _ _ refl]) simp_all
  ultimately show ?thesis by (simp add: Let_def)
qed

text \<open>A half-open breaker can stick: once its probes are used up and none of them is confirmed or
  refuted, it refuses every later request, however long the caller waits, because only the OPEN state
  looks at the clock.\<close>

theorem half_open_breaker_sticks:
  assumes "cb_state b = HALF_OPEN" and "half_open_count b \<ge> half_open_max b"
  shows "ask_all ts b = replicate (length ts) False"
  using assms
proof (induction ts arbitrary: b)
  case Nil
  then show ?case by simp
next
  case (Cons t ts)
  have "allow_request t b = (b\<lparr>total_calls := total_calls b + 1\<rparr>, False)"
    using Cons.prems by (simp add: breaker_op_defs)
  with Cons show ?case by simp
qed

lemma half_open_breaker_sticks_witness:
  "ask_all [1000, 100000, 10000000] (breaker_run [Failed 1, Ask 40] (breaker_init ''n1'' 1 30 1)) = [False, False, False]"
proof -
  have "cb_state (breaker_run [Failed 1, Ask 40] (breaker_init ''n1'' 1 30 1)) = HALF_OPEN"
    "half_open_count (breaker_run [Failed 1, Ask 40] (breaker_init ''n1'' 1 30 1)) \<ge>
       half_open_max (breaker_run [Failed 1, Ask 40] (breaker_init ''n1'' 1 30 1))"
    by (simp_all add: breaker_run_def breaker_init_def breaker_op_defs)
  from half_open_breaker_sticks [OF this] show ?thesis by simp
qed

end
