(* ===== verification/Election.thy ===== *)
theory Election
  imports Prelude
begin

text \<open>
  \<open>master/election.py\<close>: one node's election manager.  The record holds the attributes of
  \<open>MasterElection\<close>; the callbacks are the flags saying whether the constructor received
  them and the log \<open>el_calls\<close> of the invocations made.  Every coroutine is one definition over
  this record, taking the clock (\<open>now\<close>) and the random draw in \<open>[0, 1)\<close> it uses; the parts
  of \<open>_handle_vote_response\<close> before and after its \<open>await\<close> are definitions of their own,
  because other handlers may run between them.  The state file is a field of the record, with a
  flag that says whether writes to it succeed (a failing write is only logged by the code).
\<close>

datatype election_state = FOLLOWER | CANDIDATE | LEADER

record election_candidate =
  ec_node_id :: string
  ec_priority :: int
  ec_hostname :: string
  ec_ip_address :: string
  ec_port :: int
  ec_term :: int
  ec_voted_for :: string
  ec_last_heartbeat :: time

record vote_request =
  vr_term :: int
  vr_candidate_id :: string
  vr_candidate_priority :: int
  vr_last_log_index :: int
  vr_last_log_term :: int

record vote_response =
  vp_term :: int
  vp_vote_granted :: bool
  vp_voter_id :: string

text \<open>The JSON object of the state file; a key that is missing is \<open>None\<close>.\<close>

record election_file =
  f_current_term :: "int option"
  f_voted_for :: "string option"
  f_fencing_token :: "int option"

datatype election_call = OnElected int | OnDemoted

record election =
  el_node_id :: string
  el_priority :: int
  known_nodes :: "string list"
  candidates :: "(string, election_candidate) dict"
  timeout_lo :: time
  timeout_hi :: time
  heartbeat_interval :: time
  has_on_elected :: bool
  has_on_demoted :: bool
  has_send_vote :: bool
  has_send_heartbeat :: bool
  has_state_path :: bool
  disk :: "election_file option"
  disk_ok :: bool
  el_state :: election_state
  current_term :: int
  voted_for :: "string option"
  fencing_token :: int
  votes_received :: "string list"
  last_heartbeat :: time
  last_broadcast :: time
  election_timeout :: time
  leader_id :: "string option"
  el_calls :: "election_call list"

definition random_timeout :: "real \<Rightarrow> election \<Rightarrow> time" where
  "random_timeout rnd e = timeout_lo e + rnd * (timeout_hi e - timeout_lo e)"

text \<open>\<open>_load_state\<close>: the fields the file has, defaults for those it has not.\<close>

definition load_state :: "election \<Rightarrow> election" where
  "load_state e =
     (if \<not> has_state_path e then e
      else case disk e of
        None \<Rightarrow> e
      | Some f \<Rightarrow>
          e\<lparr>current_term := (case f_current_term f of None \<Rightarrow> 0 | Some t \<Rightarrow> t),
            voted_for := f_voted_for f,
            fencing_token := (case f_fencing_token f of None \<Rightarrow> 0 | Some t \<Rightarrow> t)\<rparr>)"

definition election_init ::
  "string \<Rightarrow> int \<Rightarrow> string list \<Rightarrow> bool \<Rightarrow> bool \<Rightarrow> bool \<Rightarrow> bool \<Rightarrow> bool \<Rightarrow> election_file option \<Rightarrow> bool
     \<Rightarrow> time \<Rightarrow> real \<Rightarrow> election" where
  "election_init nid prio known onel onde sv sh sp file ok now rnd =
     (let e = load_state
        \<lparr>el_node_id = nid, el_priority = prio, known_nodes = remdups known, candidates = [],
         timeout_lo = 5, timeout_hi = 10, heartbeat_interval = 3,
         has_on_elected = onel, has_on_demoted = onde, has_send_vote = sv,
         has_send_heartbeat = sh, has_state_path = sp, disk = file, disk_ok = ok,
         el_state = FOLLOWER, current_term = 0, voted_for = None, fencing_token = 0,
         votes_received = [], last_heartbeat = now, last_broadcast = 0,
         election_timeout = 0, leader_id = None, el_calls = []\<rparr>
      in e\<lparr>election_timeout := random_timeout rnd e\<rparr>)"

text \<open>A process restart on the same state file: a new object with the configuration of the old.\<close>

definition restart :: "time \<Rightarrow> real \<Rightarrow> election \<Rightarrow> election" where
  "restart now rnd e =
     (let e0 = load_state (e\<lparr>el_state := FOLLOWER, current_term := 0, voted_for := None,
                 fencing_token := 0, votes_received := [], last_heartbeat := now,
                 last_broadcast := 0, leader_id := None, el_calls := []\<rparr>)
      in e0\<lparr>election_timeout := random_timeout rnd e0\<rparr>)"

definition add_known_node :: "string + election_candidate \<Rightarrow> election \<Rightarrow> election" where
  "add_known_node x e =
     (case x of
        Inr cand \<Rightarrow>
          e\<lparr>known_nodes := sadd (ec_node_id cand) (known_nodes e),
            candidates := dset (candidates e) (ec_node_id cand) cand\<rparr>
      | Inl nid \<Rightarrow> e\<lparr>known_nodes := sadd nid (known_nodes e)\<rparr>)"

definition get_candidate :: "string \<Rightarrow> election \<Rightarrow> election_candidate option" where
  "get_candidate nid e = dget (candidates e) nid"

definition leader_known :: "election \<Rightarrow> bool" where
  "leader_known e \<longleftrightarrow> leader_id e \<noteq> None"

definition remove_known_node :: "string \<Rightarrow> election \<Rightarrow> election" where
  "remove_known_node nid e =
     e\<lparr>known_nodes := sdiscard nid (known_nodes e), candidates := dpop (candidates e) nid\<rparr>"

text \<open>\<open>_save_state_snapshot\<close>: atomic replacement of the file by the snapshot.\<close>

definition save_state_snapshot :: "int \<Rightarrow> string option \<Rightarrow> int \<Rightarrow> election \<Rightarrow> election" where
  "save_state_snapshot t v f e =
     (if has_state_path e \<and> disk_ok e
      then e\<lparr>disk := Some \<lparr>f_current_term = Some t, f_voted_for = v, f_fencing_token = Some f\<rparr>\<rparr>
      else e)"

definition persist_state :: "election \<Rightarrow> election" where
  "persist_state e = save_state_snapshot (current_term e) (voted_for e) (fencing_token e) e"

definition become_leader :: "election \<Rightarrow> election" where
  "become_leader e0 =
     (let e = persist_state (e0\<lparr>el_state := LEADER, leader_id := Some (el_node_id e0),
                                fencing_token := fencing_token e0 + 1\<rparr>)
      in if has_on_elected e then e\<lparr>el_calls := el_calls e @ [OnElected (fencing_token e)]\<rparr> else e)"

definition become_follower :: "election \<Rightarrow> election" where
  "become_follower e0 =
     (let e = e0\<lparr>el_state := FOLLOWER, voted_for := None, votes_received := []\<rparr>
      in if el_state e0 = LEADER \<and> has_on_demoted e
         then e\<lparr>el_calls := el_calls e @ [OnDemoted]\<rparr> else e)"

definition majority :: "election \<Rightarrow> nat" where
  "majority e = (length (known_nodes e) + 1) div 2 + 1"

text \<open>The locked part of \<open>_start_election\<close> and the write that follows it.\<close>

definition start_election_begin ::
  "real \<Rightarrow> election \<Rightarrow> election \<times> vote_request \<times> string list \<times> nat" where
  "start_election_begin rnd e0 =
     (let e = e0\<lparr>current_term := current_term e0 + 1, el_state := CANDIDATE,
                 voted_for := Some (el_node_id e0), votes_received := [el_node_id e0],
                 election_timeout := random_timeout rnd e0\<rparr>
      in (persist_state e,
          \<lparr>vr_term = current_term e, vr_candidate_id = el_node_id e,
           vr_candidate_priority = el_priority e, vr_last_log_index = 0, vr_last_log_term = 0\<rparr>,
          filter (\<lambda>n. n \<noteq> el_node_id e) (known_nodes e),
          majority e))"

text \<open>\<open>_handle_vote_response\<close> up to its \<open>await\<close> in the branch that sees a higher term.\<close>

definition vote_response_raise_term :: "vote_response \<Rightarrow> election \<Rightarrow> election" where
  "vote_response_raise_term r e = persist_state (e\<lparr>current_term := vp_term r\<rparr>)"

definition handle_vote_response :: "vote_response \<Rightarrow> election \<Rightarrow> election" where
  "handle_vote_response r e =
     (if vp_term r > current_term e then become_follower (vote_response_raise_term r e)
      else if el_state e \<noteq> CANDIDATE then e
      else if vp_vote_granted r then
        (let e' = e\<lparr>votes_received := sadd (vp_voter_id r) (votes_received e)\<rparr>
         in if length (votes_received e') \<ge> majority e' then become_leader e' else e')
      else e)"

text \<open>The whole of \<open>_start_election\<close> when no other handler runs meanwhile: the peers are
  asked in turn; \<open>None\<close> is a callback that raised or returned something else.\<close>

definition finish_election :: "nat \<Rightarrow> election \<Rightarrow> election" where
  "finish_election m e = (if length (votes_received e) \<ge> m then become_leader e else e)"

definition start_election ::
  "real \<Rightarrow> (vote_request \<Rightarrow> string \<Rightarrow> vote_response option) \<Rightarrow> election \<Rightarrow> election" where
  "start_election rnd ask e0 =
     (let (e1, req, peers, m) = start_election_begin rnd e0;
          e2 = fold (\<lambda>p e. if has_send_vote e
                           then (case ask req p of None \<Rightarrow> e | Some r \<Rightarrow> handle_vote_response r e)
                           else e) peers e1
      in finish_election m e2)"

definition handle_vote_request ::
  "time \<Rightarrow> real \<Rightarrow> vote_request \<Rightarrow> election \<Rightarrow> election \<times> vote_response" where
  "handle_vote_request now rnd req e0 =
     (let newer = vr_term req > current_term e0;
          e1 = (if newer then become_follower (e0\<lparr>current_term := vr_term req\<rparr>) else e0);
          granted = (vr_term req \<ge> current_term e1 \<and>
                     (voted_for e1 = None \<or> voted_for e1 = Some (vr_candidate_id req)) \<and>
                     (vr_candidate_priority req \<ge> el_priority e1 \<or> vr_term req > current_term e1));
          e2 = (if granted
                then e1\<lparr>voted_for := Some (vr_candidate_id req), last_heartbeat := now,
                        election_timeout := random_timeout rnd e1\<rparr>
                else e1);
          resp = \<lparr>vp_term = current_term e2, vp_vote_granted = granted, vp_voter_id = el_node_id e2\<rparr>
      in (if newer \<or> granted then persist_state e2 else e2, resp))"

definition receive_heartbeat :: "time \<Rightarrow> real \<Rightarrow> string \<Rightarrow> int \<Rightarrow> election \<Rightarrow> election" where
  "receive_heartbeat now rnd lid term e0 =
     (if term \<ge> current_term e0 then
        (let e1 = e0\<lparr>current_term := term, leader_id := Some lid, last_heartbeat := now,
                     election_timeout := random_timeout rnd e0\<rparr>;
             e2 = (if el_state e1 \<noteq> FOLLOWER then become_follower e1 else e1)
         in persist_state e2)
      else e0)"

text \<open>One pass of \<open>_election_loop\<close>: the decision under the lock.  The result says whether an
  election is started and to whom a heartbeat is pushed.\<close>

definition election_tick :: "time \<Rightarrow> election \<Rightarrow> election \<times> bool \<times> string list option" where
  "election_tick now e =
     (case el_state e of
        FOLLOWER \<Rightarrow> (e, now - last_heartbeat e > election_timeout e, None)
      | CANDIDATE \<Rightarrow> (e, False, None)
      | LEADER \<Rightarrow>
          (let e1 = e\<lparr>last_heartbeat := now\<rparr>
           in if now - last_broadcast e1 \<ge> heartbeat_interval e1
              then (e1\<lparr>last_broadcast := now\<rparr>, False,
                    Some (filter (\<lambda>n. n \<noteq> el_node_id e1) (known_nodes e1)))
              else (e1, False, None)))"

text \<open>\<open>_broadcast_heartbeat\<close> with \<open>_send_heartbeat_cb\<close>: the payload each peer is sent is
  built from the attributes at the time of the call.\<close>

definition broadcast_heartbeat :: "string list \<Rightarrow> election \<Rightarrow> (string \<times> string \<times> int) list" where
  "broadcast_heartbeat peers e =
     (if has_send_heartbeat e then map (\<lambda>p. (p, el_node_id e, current_term e)) peers else [])"

definition current_fencing_token :: "election \<Rightarrow> int" where
  "current_fencing_token e = fencing_token e"

definition election_get_state ::
  "election \<Rightarrow> string \<times> election_state \<times> int \<times> string option \<times> string option \<times> int \<times> string list \<times> string list \<times> int"
  where
  "election_get_state e =
     (el_node_id e, el_state e, current_term e, voted_for e, leader_id e, el_priority e,
      known_nodes e, votes_received e, fencing_token e)"

subsection \<open>Facts about single handlers\<close>

named_theorems election_defs \<open>definitions of the election handlers\<close>

lemmas [election_defs] =
  random_timeout_def persist_state_def save_state_snapshot_def become_leader_def
  become_follower_def start_election_begin_def vote_response_raise_term_def
  handle_vote_response_def finish_election_def handle_vote_request_def receive_heartbeat_def
  Let_def

text \<open>What no handler changes: the configuration of the node.\<close>

definition el_config ::
  "election \<Rightarrow> string \<times> int \<times> string list \<times> (string, election_candidate) dict \<times> bool \<times> bool \<times> bool \<times> bool \<times> bool"
  where
  "el_config e =
     (el_node_id e, el_priority e, known_nodes e, candidates e, has_state_path e, disk_ok e,
      has_on_elected e, has_on_demoted e, has_send_vote e)"

lemma el_config_eqD:
  assumes "el_config e' = el_config e"
  shows "el_node_id e' = el_node_id e" "el_priority e' = el_priority e"
    "known_nodes e' = known_nodes e" "candidates e' = candidates e"
    "has_state_path e' = has_state_path e" "disk_ok e' = disk_ok e"
    "has_on_elected e' = has_on_elected e" "has_on_demoted e' = has_on_demoted e"
    "has_send_vote e' = has_send_vote e" "majority e' = majority e"
  using assms by (simp_all add: el_config_def majority_def)

lemma el_config_updates [simp]:
  "el_config (e\<lparr>el_state := st\<rparr>) = el_config e"
  "el_config (e\<lparr>current_term := t\<rparr>) = el_config e"
  "el_config (e\<lparr>voted_for := v\<rparr>) = el_config e"
  "el_config (e\<lparr>fencing_token := t\<rparr>) = el_config e"
  "el_config (e\<lparr>votes_received := vs\<rparr>) = el_config e"
  "el_config (e\<lparr>last_heartbeat := x\<rparr>) = el_config e"
  "el_config (e\<lparr>last_broadcast := x\<rparr>) = el_config e"
  "el_config (e\<lparr>election_timeout := x\<rparr>) = el_config e"
  "el_config (e\<lparr>leader_id := l\<rparr>) = el_config e"
  "el_config (e\<lparr>el_calls := c\<rparr>) = el_config e"
  "el_config (e\<lparr>disk := d\<rparr>) = el_config e"
  by (simp_all add: el_config_def)

lemma persist_state_simps [simp]:
  "el_state (persist_state e) = el_state e"
  "current_term (persist_state e) = current_term e"
  "voted_for (persist_state e) = voted_for e"
  "fencing_token (persist_state e) = fencing_token e"
  "votes_received (persist_state e) = votes_received e"
  "el_calls (persist_state e) = el_calls e"
  "leader_id (persist_state e) = leader_id e"
  "last_heartbeat (persist_state e) = last_heartbeat e"
  "election_timeout (persist_state e) = election_timeout e"
  "el_config (persist_state e) = el_config e"
  by (simp_all add: persist_state_def save_state_snapshot_def)

lemma disk_persist_state:
  "disk (persist_state e) =
     (if has_state_path e \<and> disk_ok e
      then Some \<lparr>f_current_term = Some (current_term e), f_voted_for = voted_for e,
                 f_fencing_token = Some (fencing_token e)\<rparr>
      else disk e)"
  by (simp add: persist_state_def save_state_snapshot_def)

lemma become_leader_simps [simp]:
  "el_state (become_leader e) = LEADER"
  "current_term (become_leader e) = current_term e"
  "voted_for (become_leader e) = voted_for e"
  "fencing_token (become_leader e) = fencing_token e + 1"
  "votes_received (become_leader e) = votes_received e"
  "el_config (become_leader e) = el_config e"
  by (simp_all add: become_leader_def Let_def)

lemma become_follower_simps [simp]:
  "el_state (become_follower e) = FOLLOWER"
  "current_term (become_follower e) = current_term e"
  "voted_for (become_follower e) = None"
  "fencing_token (become_follower e) = fencing_token e"
  "votes_received (become_follower e) = []"
  "disk (become_follower e) = disk e"
  "el_config (become_follower e) = el_config e"
  by (simp_all add: become_follower_def Let_def)

lemmas config_fields [simp] =
  el_config_eqD [OF persist_state_simps(10)]
  el_config_eqD [OF become_leader_simps(6)]
  el_config_eqD [OF become_follower_simps(7)]

lemma config_start [simp]: "el_config (fst (start_election_begin rnd e)) = el_config e"
  by (simp add: start_election_begin_def Let_def)

lemma config_vote_request [simp]:
  "el_config (fst (handle_vote_request now rnd r e)) = el_config e"
  by (simp add: handle_vote_request_def Let_def)

lemma config_vote_response [simp]: "el_config (handle_vote_response r e) = el_config e"
  by (simp add: handle_vote_response_def vote_response_raise_term_def Let_def)

lemma config_heartbeat [simp]: "el_config (receive_heartbeat now rnd l t e) = el_config e"
  by (simp add: receive_heartbeat_def Let_def)

lemma config_finish [simp]: "el_config (finish_election m e) = el_config e"
  by (simp add: finish_election_def)

lemma config_restart [simp]: "el_config (restart now rnd e) = el_config e"
  by (simp add: restart_def load_state_def Let_def split: option.splits)

lemmas handler_config_fields [simp] =
  el_config_eqD [OF config_start] el_config_eqD [OF config_vote_request]
  el_config_eqD [OF config_vote_response] el_config_eqD [OF config_heartbeat]
  el_config_eqD [OF config_finish] el_config_eqD [OF config_restart]

subsection \<open>Terms and fencing tokens\<close>

lemma term_start [simp]: "current_term (fst (start_election_begin rnd e)) = current_term e + 1"
  by (simp add: start_election_begin_def Let_def)

lemma term_vote_request [simp]:
  "current_term (fst (handle_vote_request now rnd r e)) = max (current_term e) (vr_term r)"
  by (simp add: handle_vote_request_def Let_def)

lemma term_vote_response [simp]:
  "current_term (handle_vote_response r e) = max (current_term e) (vp_term r)"
  by (simp add: handle_vote_response_def vote_response_raise_term_def Let_def)

lemma term_heartbeat [simp]:
  "current_term (receive_heartbeat now rnd l t e) = max (current_term e) t"
  by (simp add: receive_heartbeat_def Let_def)

lemma term_finish [simp]: "current_term (finish_election m e) = current_term e"
  by (simp add: finish_election_def)

lemma granted_response:
  assumes "handle_vote_request now rnd r e = (e', p)" and "vp_vote_granted p"
  shows "current_term e' = vr_term r" "vp_term p = vr_term r" "vp_voter_id p = el_node_id e"
    "voted_for e' = Some (vr_candidate_id r)"
    "el_priority e \<le> vr_candidate_priority r"
    "vr_term r = current_term e \<Longrightarrow>
       voted_for e = None \<or> voted_for e = Some (vr_candidate_id r)"
  using assms by (auto simp: handle_vote_request_def Let_def split: if_splits)

lemma fencing_mono:
  "fencing_token e \<le> fencing_token (fst (start_election_begin rnd e))"
  "fencing_token e \<le> fencing_token (fst (handle_vote_request now rnd r e))"
  "fencing_token e \<le> fencing_token (handle_vote_response p e)"
  "fencing_token e \<le> fencing_token (receive_heartbeat now rnd l t e)"
  "fencing_token e \<le> fencing_token (finish_election m e)"
  by (simp_all add: start_election_begin_def handle_vote_request_def handle_vote_response_def
        vote_response_raise_term_def receive_heartbeat_def finish_election_def Let_def)

text \<open>Terms are a register that only grows, whichever message carries them.\<close>

interpretation heartbeat_term: max_register current_term
  "\<lambda>t e. receive_heartbeat now rnd lid t e"
  by unfold_locales simp

interpretation response_term: max_register current_term
  "\<lambda>t e. handle_vote_response \<lparr>vp_term = t, vp_vote_granted = g, vp_voter_id = w\<rparr> e"
  by unfold_locales simp

subsection \<open>One node's life\<close>

datatype node_event =
    EvStart real
  | EvVote time real vote_request
  | EvResponse vote_response
  | EvFinish nat
  | EvHeartbeat time real string int
  | EvTick time
  | EvRestart time real

fun node_event_step :: "node_event \<Rightarrow> election \<Rightarrow> election" where
  "node_event_step (EvStart rnd) e = fst (start_election_begin rnd e)"
| "node_event_step (EvVote now rnd req) e = fst (handle_vote_request now rnd req e)"
| "node_event_step (EvResponse r) e = handle_vote_response r e"
| "node_event_step (EvFinish m) e = finish_election m e"
| "node_event_step (EvHeartbeat now rnd l t) e = receive_heartbeat now rnd l t e"
| "node_event_step (EvTick now) e = fst (election_tick now e)"
| "node_event_step (EvRestart now rnd) e = restart now rnd e"

text \<open>The state file holds the node's term and fencing token, and its vote if it has one.\<close>

definition disk_sync :: "election \<Rightarrow> bool" where
  "disk_sync e =
     (case disk e of
        None \<Rightarrow> current_term e = 0 \<and> voted_for e = None
      | Some f \<Rightarrow> f_current_term f = Some (current_term e) \<and>
                  (voted_for e \<noteq> None \<longrightarrow> f_voted_for f = voted_for e))"

definition fence_sync :: "election \<Rightarrow> bool" where
  "fence_sync e \<longleftrightarrow>
     has_state_path e \<and> disk_ok e \<and> disk_sync e \<and>
     (case disk e of
        None \<Rightarrow> fencing_token e = 0
      | Some f \<Rightarrow> fencing_token e = (case f_fencing_token f of None \<Rightarrow> 0 | Some t \<Rightarrow> t))"

lemma fence_sync_persist [simp]:
  "fence_sync (persist_state e) \<longleftrightarrow> has_state_path e \<and> disk_ok e"
  by (auto simp: fence_sync_def disk_sync_def disk_persist_state)

lemma fence_sync_cong:
  assumes "disk e' = disk e" "current_term e' = current_term e" "fencing_token e' = fencing_token e"
    and "voted_for e' = voted_for e \<or> voted_for e' = None" "el_config e' = el_config e"
  shows "fence_sync e \<Longrightarrow> fence_sync e'"
  using assms el_config_eqD [OF assms(5)]
  by (auto simp: fence_sync_def disk_sync_def split: option.splits)

lemma fence_sync_follower: "fence_sync e \<Longrightarrow> fence_sync (become_follower e)"
  by (rule fence_sync_cong [of _ e]) simp_all

lemma fence_sync_leader:
  assumes "has_state_path e" "disk_ok e"
  shows "fence_sync (become_leader e)"
proof -
  let ?e = "persist_state (e\<lparr>el_state := LEADER, leader_id := Some (el_node_id e),
      fencing_token := fencing_token e + 1\<rparr>)"
  have "fence_sync ?e" using assms by simp
  moreover have "fence_sync (?e\<lparr>el_calls := cs\<rparr>)" if "fence_sync ?e" for cs
    by (rule fence_sync_cong [OF _ _ _ _ _ that]) simp_all
  ultimately show ?thesis by (simp add: become_leader_def Let_def)
qed

lemma fence_sync_paths: "fence_sync e \<Longrightarrow> has_state_path e \<and> disk_ok e"
  by (simp add: fence_sync_def)

lemma fence_sync_step:
  assumes "fence_sync e"
  shows "fence_sync (node_event_step ev e)"
proof (cases ev)
  case (EvVote now rnd req)
  then show ?thesis
    using assms fence_sync_paths [OF assms] by (auto simp: handle_vote_request_def Let_def)
next
  case (EvResponse r)
  have "fence_sync (e\<lparr>votes_received := vs\<rparr>)" for vs
    by (rule fence_sync_cong [OF _ _ _ _ _ assms]) simp_all
  with EvResponse show ?thesis
    using assms fence_sync_paths [OF assms]
    by (simp add: handle_vote_response_def vote_response_raise_term_def Let_def
        fence_sync_leader fence_sync_follower)
next
  case (EvTick now)
  have "fence_sync (e\<lparr>last_heartbeat := now\<rparr>)" "fence_sync (e\<lparr>last_heartbeat := now, last_broadcast := now\<rparr>)"
    by (rule fence_sync_cong [OF _ _ _ _ _ assms]; simp)+
  with EvTick assms show ?thesis
    by (simp add: election_tick_def Let_def split: election_state.split)
next
  case (EvRestart now rnd)
  then show ?thesis
    using assms
    by (auto simp: restart_def load_state_def fence_sync_def disk_sync_def Let_def
        split: option.splits)
qed (use assms fence_sync_paths [OF assms] in
      \<open>simp_all add: start_election_begin_def finish_election_def receive_heartbeat_def Let_def
        fence_sync_leader\<close>)

lemma node_event_step_mono:
  assumes "fence_sync e"
  shows "current_term e \<le> current_term (node_event_step ev e) \<and>
         fencing_token e \<le> fencing_token (node_event_step ev e)"
proof (cases ev)
  case (EvTick now)
  then show ?thesis
    by (simp add: election_tick_def Let_def split: election_state.split)
next
  case (EvRestart now rnd)
  then show ?thesis
    using assms
    by (auto simp: restart_def load_state_def fence_sync_def disk_sync_def Let_def
        split: option.splits)
qed (simp_all add: fencing_mono)

lemma node_event_elected:
  assumes "el_state e \<noteq> LEADER" and "el_state (node_event_step ev e) = LEADER"
  shows "fencing_token (node_event_step ev e) = fencing_token e + 1"
  using assms
  by (cases ev)
     (auto simp: start_election_begin_def handle_vote_request_def handle_vote_response_def
        vote_response_raise_term_def finish_election_def receive_heartbeat_def election_tick_def
        restart_def load_state_def Let_def
        split: if_splits election_state.splits option.splits)

subsection \<open>Properties\<close>

lemma node_events_mono:
  assumes "fence_sync e"
  shows "fence_sync (fold node_event_step evs e) \<and>
         current_term e \<le> current_term (fold node_event_step evs e) \<and>
         fencing_token e \<le> fencing_token (fold node_event_step evs e)"
  using assms
proof (induction evs arbitrary: e)
  case Nil
  then show ?case by simp
next
  case (Cons ev evs)
  have "fence_sync (node_event_step ev e)" by (rule fence_sync_step [OF Cons.prems])
  from Cons.IH [OF this] node_event_step_mono [OF Cons.prems, of ev] show ?case
    by auto
qed

text \<open>Terms and fencing tokens never go back at one node, whatever handlers run and however
  often the process restarts from its state file, and every event that turns the node into a
  leader hands it a token larger than any it had before.\<close>

theorem fencing_never_goes_back:
  assumes "fence_sync e0"
    and "el_state (fold node_event_step evs e0) \<noteq> LEADER"
    and "el_state (node_event_step ev (fold node_event_step evs e0)) = LEADER"
  shows "current_term e0 \<le> current_term (fold node_event_step evs e0) \<and>
         fencing_token (fold node_event_step evs e0)
           < fencing_token (node_event_step ev (fold node_event_step evs e0)) \<and>
         fencing_token e0 < fencing_token (node_event_step ev (fold node_event_step evs e0))"
  using node_events_mono [OF assms(1)] node_event_elected [OF assms(2,3)] by auto

definition demo_node :: election where
  "demo_node = election_init ''a'' 1 [''b''] False False True True True None True 0 0"

definition demo_events :: "node_event list" where
  "demo_events =
     [EvStart 0, EvResponse \<lparr>vp_term = 1, vp_vote_granted = True, vp_voter_id = ''b''\<rparr>,
      EvRestart 7 0, EvHeartbeat 8 0 ''b'' 4, EvStart 0]"

lemmas election_eval =
  election_init_def load_state_def start_election_begin_def majority_def persist_state_def
  save_state_snapshot_def handle_vote_request_def handle_vote_response_def random_timeout_def
  vote_response_raise_term_def become_follower_def become_leader_def receive_heartbeat_def
  finish_election_def restart_def sadd_def Let_def

lemma fencing_never_goes_back_witness:
  "fencing_token demo_node = 0 \<and>
   fencing_token demo_node
     < fencing_token (node_event_step
         (EvResponse \<lparr>vp_term = 5, vp_vote_granted = True, vp_voter_id = ''b''\<rparr>)
         (fold node_event_step demo_events demo_node))"
  using fencing_never_goes_back [of demo_node demo_events
      "EvResponse \<lparr>vp_term = 5, vp_vote_granted = True, vp_voter_id = ''b''\<rparr>"]
  by (simp add: demo_node_def demo_events_def fence_sync_def disk_sync_def election_eval)

text \<open>A vote, once given, binds: in one term a node answers every vote request with a grant
  only when it named no other candidate before, the grant is recorded in memory and in the state
  file before the answer leaves, and a candidate of lower priority than the voter's is refused.\<close>

theorem vote_request_binds:
  assumes "handle_vote_request now rnd req e = (e', r)" and "vp_vote_granted r"
    and "has_state_path e" and "disk_ok e"
  shows "current_term e \<le> vr_term req \<and> el_priority e \<le> vr_candidate_priority req \<and>
         (current_term e = vr_term req \<longrightarrow>
            voted_for e = None \<or> voted_for e = Some (vr_candidate_id req)) \<and>
         voted_for e' = Some (vr_candidate_id req) \<and> current_term e' = vr_term req \<and>
         (\<exists>f. disk e' = Some f \<and> f_current_term f = Some (vr_term req) \<and>
              f_voted_for f = Some (vr_candidate_id req)) \<and>
         (\<forall>now' rnd' req' e'' r'.
            handle_vote_request now' rnd' req' e' = (e'', r') \<longrightarrow> vr_term req' = vr_term req \<longrightarrow>
            vr_candidate_id req' \<noteq> vr_candidate_id req \<longrightarrow> \<not> vp_vote_granted r')"
proof -
  note g = granted_response [OF assms(1,2)]
  have "current_term e \<le> vr_term req"
    using term_vote_request [of now rnd req e] assms(1) g(1) by simp
  moreover have "disk e' = Some \<lparr>f_current_term = Some (vr_term req),
      f_voted_for = Some (vr_candidate_id req), f_fencing_token = Some (fencing_token e')\<rparr>"
  proof -
    have "\<exists>e2. e' = persist_state e2 \<and> has_state_path e2 \<and> disk_ok e2"
      using assms by (auto simp: handle_vote_request_def Let_def split: if_splits)
    then show ?thesis using g by (auto simp: disk_persist_state)
  qed
  moreover have "\<not> vp_vote_granted r'"
    if "handle_vote_request now' rnd' req' e' = (e'', r')" "vr_term req' = vr_term req"
      "vr_candidate_id req' \<noteq> vr_candidate_id req" for now' rnd' req' e'' r'
    using granted_response(6) [OF that(1)] that(2,3) g by auto
  ultimately show ?thesis using g by auto
qed

lemma vote_request_binds_witness:
  "vp_vote_granted (snd (handle_vote_request 1 0 \<lparr>vr_term = 3, vr_candidate_id = ''b'',
     vr_candidate_priority = 1, vr_last_log_index = 0, vr_last_log_term = 0\<rparr> demo_node)) \<and>
   voted_for (fst (handle_vote_request 1 0 \<lparr>vr_term = 3, vr_candidate_id = ''b'',
     vr_candidate_priority = 1, vr_last_log_index = 0, vr_last_log_term = 0\<rparr> demo_node)) = Some ''b''"
  using vote_request_binds [of 1 0 "\<lparr>vr_term = 3, vr_candidate_id = ''b'',
     vr_candidate_priority = 1, vr_last_log_index = 0, vr_last_log_term = 0\<rparr>" demo_node, OF prod.collapse [symmetric]]
  by (simp add: demo_node_def election_eval)

subsection \<open>A whole election\<close>

text \<open>The state of a candidate while its peers grant one after the other: the votes so far, and
  whether they already made it leader.\<close>

definition collecting :: "election \<Rightarrow> int \<Rightarrow> int \<Rightarrow> nat \<Rightarrow> bool" where
  "collecting e t f k \<longleftrightarrow>
     current_term e = t \<and>
     (if k < majority e
      then el_state e = CANDIDATE \<and> fencing_token e = f \<and> length (votes_received e) = k
      else el_state e = LEADER \<and> fencing_token e = f + 1 \<and> length (votes_received e) = majority e \<and>
           leader_id e = Some (el_node_id e))"

lemma collecting_grant:
  assumes "collecting e t f k" and "p \<notin> set (votes_received e)" and "0 < k"
  shows "collecting (handle_vote_response \<lparr>vp_term = t, vp_vote_granted = True, vp_voter_id = p\<rparr> e) t f (Suc k)"
proof -
  have [simp]: "majority (e\<lparr>votes_received := vs\<rparr>) = majority e" for vs
    by (simp add: majority_def)
  have [simp]: "leader_id (become_leader x) = Some (el_node_id x)" for x
    by (simp add: become_leader_def Let_def)
  show ?thesis
  proof (cases "k < majority e")
    case True
    then show ?thesis
      using assms
      by (auto simp: collecting_def handle_vote_response_def Let_def sadd_def)
  next
    case False
    then show ?thesis
      using assms by (simp add: collecting_def handle_vote_response_def)
  qed
qed

lemma votes_after_response:
  "set (votes_received (handle_vote_response r e)) \<subseteq> insert (vp_voter_id r) (set (votes_received e))"
  by (auto simp: handle_vote_response_def Let_def vote_response_raise_term_def)

lemma collecting_fold:
  assumes "collecting e t f k" and "0 < k" and "distinct ps"
    and "set ps \<inter> set (votes_received e) = {}"
  shows "collecting
           (fold (\<lambda>p e. handle_vote_response \<lparr>vp_term = t, vp_vote_granted = True, vp_voter_id = p\<rparr> e) ps e)
           t f (k + length ps)"
  using assms
proof (induction ps arbitrary: e k)
  case Nil
  then show ?case by simp
next
  case (Cons p ps)
  let ?e = "handle_vote_response \<lparr>vp_term = t, vp_vote_granted = True, vp_voter_id = p\<rparr> e"
  have "collecting ?e t f (Suc k)"
    using Cons.prems by (intro collecting_grant) auto
  moreover have "set ps \<inter> set (votes_received ?e) = {}"
    using Cons.prems votes_after_response [of "\<lparr>vp_term = t, vp_vote_granted = True, vp_voter_id = p\<rparr>" e]
    by auto
  ultimately have "collecting
      (fold (\<lambda>p e. handle_vote_response \<lparr>vp_term = t, vp_vote_granted = True, vp_voter_id = p\<rparr> e) ps ?e)
      t f (Suc k + length ps)"
    using Cons.prems by (intro Cons.IH) auto
  then show ?case by simp
qed

lemma start_begin_parts:
  assumes "start_election_begin rnd e = (e1, req, ps, m)"
  shows "vr_term req = current_term e + 1" "vr_candidate_id req = el_node_id e"
    "ps = filter (\<lambda>n. n \<noteq> el_node_id e) (known_nodes e)" "m = majority e"
    "el_state e1 = CANDIDATE" "current_term e1 = current_term e + 1"
    "votes_received e1 = [el_node_id e]" "fencing_token e1 = fencing_token e"
  using assms by (auto simp: start_election_begin_def Let_def majority_def)

lemma has_send_vote_config: "el_config e' = el_config e \<Longrightarrow> has_send_vote e' = has_send_vote e"
  by (rule el_config_eqD)

lemma ask_all_granting:
  assumes "has_send_vote e"
    and "\<And>p. p \<in> set ps \<Longrightarrow>
           ask req p = Some \<lparr>vp_term = t, vp_vote_granted = True, vp_voter_id = p\<rparr>"
  shows "fold (\<lambda>p e. if has_send_vote e
                     then (case ask req p of None \<Rightarrow> e | Some r \<Rightarrow> handle_vote_response r e)
                     else e) ps e =
         fold (\<lambda>p e. handle_vote_response \<lparr>vp_term = t, vp_vote_granted = True, vp_voter_id = p\<rparr> e) ps e"
  using assms by (induction ps arbitrary: e) simp_all

lemma majority_config: "el_config e' = el_config e \<Longrightarrow> majority e' = majority e"
  by (rule el_config_eqD)

text \<open>C11: An uncontested election ends with a leader: when every known peer grants the vote, the
  candidate leads the next term.  With at least one peer its fencing token has then grown by two:
  the majority is detected once when the deciding response arrives and once more after the loop
  over the peers, and the promotion runs both times.\<close>

theorem uncontested_election:
  assumes "has_send_vote e" and "distinct (known_nodes e)" and "el_node_id e \<notin> set (known_nodes e)"
    and "\<And>req p. p \<in> set (known_nodes e) \<Longrightarrow>
           ask req p = Some \<lparr>vp_term = vr_term req, vp_vote_granted = True, vp_voter_id = p\<rparr>"
  shows "el_state (start_election rnd ask e) = LEADER \<and>
         current_term (start_election rnd ask e) = current_term e + 1 \<and>
         fencing_token (start_election rnd ask e) =
           fencing_token e + (if known_nodes e = [] then 1 else 2)"
proof -
  obtain e1 req ps m where b: "start_election_begin rnd e = (e1, req, ps, m)"
    by (metis prod_cases4)
  have cfg: "el_config e1 = el_config e"
    using b config_start [of rnd e] by simp
  have f: "vr_term req = current_term e + 1" "ps = known_nodes e" "m = majority e"
    "el_state e1 = CANDIDATE" "current_term e1 = current_term e + 1"
    "votes_received e1 = [el_node_id e]" "fencing_token e1 = fencing_token e"
    "majority e1 = majority e" "has_send_vote e1"
    using start_begin_parts [OF b] assms(1,3) majority_config [OF cfg] has_send_vote_config [OF cfg]
    by (auto simp: filter_id_conv)
  let ?t = "current_term e + 1"
  let ?g = "\<lambda>p. handle_vote_response \<lparr>vp_term = ?t, vp_vote_granted = True, vp_voter_id = p\<rparr>"
  have run: "start_election rnd ask e = finish_election m (fold ?g ps e1)"
    using ask_all_granting [of e1 ps ask req ?t] assms(4) f
    by (simp add: start_election_def b)
  show ?thesis
  proof (cases "known_nodes e = []")
    case True
    then show ?thesis
      using f by (simp add: run finish_election_def majority_def)
  next
    case False
    then have len: "0 < length (known_nodes e)" by simp
    have maj: "1 < majority e" "majority e \<le> 1 + length (known_nodes e)"
      using len unfolding majority_def by (simp, presburger)
    have "collecting e1 ?t (fencing_token e) 1"
      using f maj by (simp add: collecting_def)
    then have c: "collecting (fold ?g ps e1) ?t (fencing_token e) (1 + length ps)"
      using f assms(2,3) by (intro collecting_fold) auto
    have "el_config (fold ?g ps x) = el_config x" for x
      by (induction ps arbitrary: x) simp_all
    then have "majority (fold ?g ps e1) = majority e"
      using majority_config cfg by metis
    with c maj f False show ?thesis
      by (simp add: run finish_election_def collecting_def)
  qed
qed

lemma uncontested_election_witness:
  "known_nodes demo_node = [''b''] \<and>
   fencing_token (start_election 0
     (\<lambda>req p. Some \<lparr>vp_term = vr_term req, vp_vote_granted = True, vp_voter_id = p\<rparr>) demo_node) = 2"
  using uncontested_election [of demo_node
      "\<lambda>req p. Some \<lparr>vp_term = vr_term req, vp_vote_granted = True, vp_voter_id = p\<rparr>" 0]
  by (simp add: demo_node_def election_init_def load_state_def Let_def)

lemma vote_request_granted:
  assumes "el_priority e \<le> vr_candidate_priority req"
    and "current_term e < vr_term req \<or> current_term e = vr_term req \<and> voted_for e = None"
  shows "snd (handle_vote_request now rnd req e) =
           \<lparr>vp_term = vr_term req, vp_vote_granted = True, vp_voter_id = el_node_id e\<rparr>"
  using assms by (auto simp: handle_vote_request_def Let_def)

text \<open>The price of the await in the higher-term branch: between the write of the new term and
  the demotion that follows it, the handler of a still newer vote request may run; the demotion
  then forgets the vote that request was just granted, and the node grants its vote a second time
  in the same term, to another candidate.\<close>

theorem interrupted_response_votes_twice:
  assumes "current_term e < vp_term r" and "vp_term r < vr_term q1" and "vr_term q2 = vr_term q1"
    and "el_priority e \<le> vr_candidate_priority q1" and "el_priority e \<le> vr_candidate_priority q2"
  shows "let e1 = vote_response_raise_term r e;
             e2 = fst (handle_vote_request now1 rnd1 q1 e1);
             e3 = become_follower e2
         in snd (handle_vote_request now1 rnd1 q1 e1) =
              \<lparr>vp_term = vr_term q1, vp_vote_granted = True, vp_voter_id = el_node_id e\<rparr> \<and>
            snd (handle_vote_request now2 rnd2 q2 e3) =
              \<lparr>vp_term = vr_term q1, vp_vote_granted = True, vp_voter_id = el_node_id e\<rparr> \<and>
            handle_vote_response r e = become_follower e1"
proof -
  define e1 where "e1 = vote_response_raise_term r e"
  define e3 where "e3 = become_follower (fst (handle_vote_request now1 rnd1 q1 e1))"
  have cfg: "el_config e1 = el_config e"
    by (simp add: e1_def vote_response_raise_term_def)
  have e1: "current_term e1 = vp_term r" "el_priority e1 = el_priority e"
    "el_node_id e1 = el_node_id e"
    using el_config_eqD [OF cfg] by (simp_all add: e1_def vote_response_raise_term_def)
  have e3: "current_term e3 = vr_term q1" "voted_for e3 = None"
    "el_priority e3 = el_priority e" "el_node_id e3 = el_node_id e"
    using e1 assms by (simp_all add: e3_def)
  have "handle_vote_response r e = become_follower e1"
    using assms(1) by (simp add: handle_vote_response_def e1_def)
  moreover have "snd (handle_vote_request now1 rnd1 q1 e1) =
      \<lparr>vp_term = vr_term q1, vp_vote_granted = True, vp_voter_id = el_node_id e\<rparr>"
    using vote_request_granted [of e1 q1] e1 assms by simp
  moreover have "snd (handle_vote_request now2 rnd2 q2 e3) =
      \<lparr>vp_term = vr_term q1, vp_vote_granted = True, vp_voter_id = el_node_id e\<rparr>"
    using vote_request_granted [of e3 q2] e3 assms by simp
  ultimately show ?thesis by (simp add: e1_def e3_def Let_def)
qed

definition demo_vote :: "string \<Rightarrow> vote_request" where
  "demo_vote c = \<lparr>vr_term = 7, vr_candidate_id = c, vr_candidate_priority = 1,
                  vr_last_log_index = 0, vr_last_log_term = 0\<rparr>"

lemma interrupted_response_votes_twice_witness:
  "let e1 = vote_response_raise_term \<lparr>vp_term = 5, vp_vote_granted = False, vp_voter_id = ''b''\<rparr> demo_node;
       e2 = fst (handle_vote_request 0 0 (demo_vote ''b'') e1);
       e3 = become_follower e2
   in vp_vote_granted (snd (handle_vote_request 0 0 (demo_vote ''b'') e1)) \<and>
      vp_vote_granted (snd (handle_vote_request 0 0 (demo_vote ''c'') e3))"
  using interrupted_response_votes_twice [of demo_node
      "\<lparr>vp_term = 5, vp_vote_granted = False, vp_voter_id = ''b''\<rparr>"
      "demo_vote ''b''" "demo_vote ''c''" 0 0 0 0]
  by (simp add: demo_node_def demo_vote_def election_init_def load_state_def Let_def)

end
