(* ===== verification/ElectionSafety.thy ===== *)
theory ElectionSafety
  imports Election
begin

text \<open>
  A cluster of election managers (\<open>master/election.py\<close>) that exchange vote requests, vote
  responses and heartbeats over a network that may lose, delay, duplicate and reorder them, and
  whose processes may restart from their state file.  Every handler of one node runs as one step,
  and so do a heartbeat broadcast and the loop pass that orders it; what goes wrong when a
  handler is interrupted at its \<open>await\<close> is shown separately at the end.  The result: no two
  nodes are ever leader in the same term.
\<close>

subsection \<open>Quorums\<close>

text \<open>The contract a vote count has to meet: any two quorums of an electorate share a voter.\<close>

locale quorum =
  fixes big :: "'a set \<Rightarrow> 'a set \<Rightarrow> bool"
  assumes quorum_subset: "big N Q \<Longrightarrow> Q \<subseteq> N"
    and quorum_meet: "finite N \<Longrightarrow> big N P \<Longrightarrow> big N Q \<Longrightarrow> \<exists>w. w \<in> P \<and> w \<in> Q"
begin

lemma unique_winner:
  assumes "finite N" and "big N P" and "big N Q"
    and "\<And>w. w \<in> P \<Longrightarrow> vote w x" and "\<And>w. w \<in> Q \<Longrightarrow> vote w y"
    and excl: "\<And>w u v. vote w u \<Longrightarrow> vote w v \<Longrightarrow> u = v"
  shows "x = y"
  using quorum_meet [OF assms(1-3)] assms(4,5) excl by blast

end

text \<open>The quorum of the code: \<open>len(votes) >= (len(known_nodes) + 1) // 2 + 1\<close> votes, where the
  known nodes are the electorate without the node itself.\<close>

definition election_quorum :: "string set \<Rightarrow> string set \<Rightarrow> bool" where
  "election_quorum N Q \<longleftrightarrow> Q \<subseteq> N \<and> card Q \<ge> card N div 2 + 1"

interpretation maj: quorum election_quorum
proof unfold_locales
  fix N P Q :: "string set"
  assume fin: "finite N" and P: "election_quorum N P" and Q: "election_quorum N Q"
  show "\<exists>w. w \<in> P \<and> w \<in> Q"
  proof (rule ccontr)
    assume "\<not> (\<exists>w. w \<in> P \<and> w \<in> Q)"
    then have "P \<inter> Q = {}" by blast
    then have "card P + card Q = card (P \<union> Q)"
      using fin P Q by (metis card_Un_disjoint election_quorum_def finite_subset)
    also have "\<dots> \<le> card N"
      using fin P Q by (simp add: card_mono election_quorum_def)
    finally have "card P + card Q \<le> card N" .
    moreover have "card N div 2 + 1 \<le> card P" "card N div 2 + 1 \<le> card Q"
      using P Q by (simp_all add: election_quorum_def)
    ultimately show False by presburger
  qed
qed (simp add: election_quorum_def)

subsection \<open>The cluster and its steps\<close>

text \<open>\<open>rounds i\<close> is the running \<open>_start_election\<close> of node \<open>i\<close>: the term of its request and the
  majority it computed.  \<open>ever\<close> and \<open>ballot\<close> are history: who was leader in which term, and
  which node granted whom its vote.\<close>

record cluster =
  mem :: "string \<Rightarrow> election"
  rounds :: "string \<Rightarrow> (int \<times> nat) option"
  reqs :: "(string \<times> vote_request) set"
  resps :: "(string \<times> int \<times> vote_response) set"
  hbs :: "(string \<times> string \<times> int) set"
  ever :: "(int \<times> string) set"
  ballot :: "(string \<times> int \<times> string) set"

definition put_node :: "string \<Rightarrow> election \<Rightarrow> cluster \<Rightarrow> cluster" where
  "put_node i e c =
     c\<lparr>mem := (mem c)(i := e),
       ever := ever c \<union> (if el_state e = LEADER then {(current_term e, i)} else {})\<rparr>"

inductive cstep :: "string set \<Rightarrow> cluster \<Rightarrow> cluster \<Rightarrow> bool" for N :: "string set" where
  start: "i \<in> N \<Longrightarrow> rounds c i = None \<Longrightarrow>
     start_election_begin rnd (mem c i) = (e, req, peers, m) \<Longrightarrow>
     cstep N c
       ((put_node i e c)\<lparr>rounds := (rounds c)(i := Some (vr_term req, m)),
                         reqs := reqs c \<union> (\<lambda>p. (p, req)) ` set peers\<rparr>)"
| vote: "j \<in> N \<Longrightarrow> (j, req) \<in> reqs c \<Longrightarrow>
     handle_vote_request now rnd req (mem c j) = (e, r) \<Longrightarrow>
     cstep N c
       ((put_node j e c)\<lparr>resps := insert (vr_candidate_id req, vr_term req, r) (resps c),
                         ballot := ballot c \<union>
                           (if vp_vote_granted r then {(j, vr_term req, vr_candidate_id req)} else {})\<rparr>)"
| respond: "i \<in> N \<Longrightarrow> rounds c i = Some (t, m) \<Longrightarrow> (i, t, r) \<in> resps c \<Longrightarrow>
     cstep N c (put_node i (handle_vote_response r (mem c i)) c)"
| finish: "i \<in> N \<Longrightarrow> rounds c i = Some (t, m) \<Longrightarrow>
     cstep N c ((put_node i (finish_election m (mem c i)) c)\<lparr>rounds := (rounds c)(i := None)\<rparr>)"
| beat: "i \<in> N \<Longrightarrow> election_tick now (mem c i) = (e, False, Some peers) \<Longrightarrow>
     cstep N c
       ((put_node i e c)\<lparr>hbs := hbs c \<union> set (broadcast_heartbeat peers e)\<rparr>)"
| heartbeat: "j \<in> N \<Longrightarrow> (j, l, t) \<in> hbs c \<Longrightarrow>
     cstep N c (put_node j (receive_heartbeat now rnd l t (mem c j)) c)"
| restart: "i \<in> N \<Longrightarrow>
     cstep N c ((put_node i (restart now rnd (mem c i)) c)\<lparr>rounds := (rounds c)(i := None)\<rparr>)"

text \<open>At the start every node is a follower that knows the others and whose term and vote are
  those of its state file.\<close>

definition fresh_node :: "string set \<Rightarrow> string \<Rightarrow> election \<Rightarrow> bool" where
  "fresh_node N i e \<longleftrightarrow>
     el_node_id e = i \<and> distinct (known_nodes e) \<and> set (known_nodes e) = N - {i} \<and>
     has_state_path e \<and> disk_ok e \<and> el_state e = FOLLOWER \<and> votes_received e = [] \<and> disk_sync e"

definition cluster_start :: "string set \<Rightarrow> (string \<Rightarrow> election) \<Rightarrow> cluster" where
  "cluster_start N es =
     \<lparr>mem = es, rounds = (\<lambda>_. None), reqs = {}, resps = {}, hbs = {}, ever = {}, ballot = {}\<rparr>"


inductive reach :: "string set \<Rightarrow> (string \<Rightarrow> election) \<Rightarrow> cluster \<Rightarrow> bool"
  for N :: "string set" and es :: "string \<Rightarrow> election" where
  reach_start: "reach N es (cluster_start N es)"
| reach_step: "reach N es c \<Longrightarrow> cstep N c c' \<Longrightarrow> reach N es c'"

lemma fresh_node_init:
  assumes "i \<notin> set known" and "N = insert i (set known)"
    and "file = None \<or> (\<exists>f t. file = Some f \<and> f_current_term f = Some t)"
  shows "fresh_node N i (election_init i prio known onel onde sv sh True file True now rnd)"
  using assms
  by (auto simp: fresh_node_def election_init_def load_state_def disk_sync_def Let_def)

subsection \<open>The invariant\<close>

definition node_inv :: "string set \<Rightarrow> cluster \<Rightarrow> string \<Rightarrow> bool" where
  "node_inv N c i \<longleftrightarrow>
     (let e = mem c i in
      el_node_id e = i \<and> distinct (known_nodes e) \<and> set (known_nodes e) = N - {i} \<and>
      has_state_path e \<and> disk_ok e \<and> disk_sync e \<and>
      distinct (votes_received e) \<and> set (votes_received e) \<subseteq> N \<and>
      (el_state e \<noteq> FOLLOWER \<longrightarrow> voted_for e = Some i) \<and>
      (el_state e = FOLLOWER \<longrightarrow> votes_received e = []) \<and>
      (\<forall>t m. rounds c i = Some (t, m) \<longrightarrow>
          m = card N div 2 + 1 \<and> (el_state e = CANDIDATE \<longrightarrow> current_term e = t)) \<and>
      (\<forall>w \<in> set (votes_received e). w = i \<or> (w, current_term e, i) \<in> ballot c) \<and>
      (el_state e = LEADER \<longrightarrow> (current_term e, i) \<in> ever c))"

text \<open>A node that voted in a term, for itself or another, has not gone back on it.\<close>

definition locked :: "election \<Rightarrow> int \<Rightarrow> string \<Rightarrow> bool" where
  "locked e t x \<longleftrightarrow> t < current_term e \<or> t = current_term e \<and> voted_for e = Some x"

definition net_inv :: "string set \<Rightarrow> cluster \<Rightarrow> bool" where
  "net_inv N c \<longleftrightarrow>
     (\<forall>j req. (j, req) \<in> reqs c \<longrightarrow> j \<noteq> vr_candidate_id req) \<and>
     (\<forall>i t r. (i, t, r) \<in> resps c \<longrightarrow> vp_vote_granted r \<longrightarrow> (vp_voter_id r, t, i) \<in> ballot c) \<and>
     (\<forall>j l t. (j, l, t) \<in> hbs c \<longrightarrow> j \<noteq> l \<and> (t, l) \<in> ever c)"

definition ballot_inv :: "string set \<Rightarrow> cluster \<Rightarrow> bool" where
  "ballot_inv N c \<longleftrightarrow>
     (\<forall>w t x. (w, t, x) \<in> ballot c \<longrightarrow> w \<in> N \<and> x \<noteq> w \<and> locked (mem c w) t x) \<and>
     (\<forall>w t x y. (w, t, x) \<in> ballot c \<longrightarrow> (w, t, y) \<in> ballot c \<longrightarrow> x = y)"

definition ever_inv :: "string set \<Rightarrow> cluster \<Rightarrow> bool" where
  "ever_inv N c \<longleftrightarrow>
     (\<forall>t x. (t, x) \<in> ever c \<longrightarrow>
        x \<in> N \<and> locked (mem c x) t x \<and> (\<forall>y. (x, t, y) \<notin> ballot c) \<and>
        (\<exists>Q. election_quorum N Q \<and> (\<forall>w \<in> Q. w = x \<or> (w, t, x) \<in> ballot c))) \<and>
     (\<forall>t x y. (t, x) \<in> ever c \<longrightarrow> (t, y) \<in> ever c \<longrightarrow> x = y)"

definition cluster_inv :: "string set \<Rightarrow> cluster \<Rightarrow> bool" where
  "cluster_inv N c \<longleftrightarrow>
     finite N \<and> (\<forall>i \<in> N. node_inv N c i) \<and> net_inv N c \<and> ballot_inv N c \<and> ever_inv N c"

lemma ballot_locked:
  "ballot_inv N c \<Longrightarrow> (w, t, x) \<in> ballot c \<Longrightarrow> w \<in> N \<and> x \<noteq> w \<and> locked (mem c w) t x"
  by (simp add: ballot_inv_def)

lemma cluster_inv_start:
  assumes "finite N" and "\<And>i. i \<in> N \<Longrightarrow> fresh_node N i (es i)"
  shows "cluster_inv N (cluster_start N es)"
  using assms
  by (auto simp: cluster_inv_def cluster_start_def node_inv_def net_inv_def ballot_inv_def
        ever_inv_def fresh_node_def Let_def)

subsection \<open>One lemma for every step\<close>

text \<open>
  What a step does at node \<open>i\<close>: it replaces the node's state, possibly adds one ballot of \<open>i\<close>, and
  never takes back a vote within its term, unless it is the node's own candidacy and it was never
  elected.
\<close>

definition node_moves :: "cluster \<Rightarrow> string \<Rightarrow> election \<Rightarrow> bool" where
  "node_moves c i e' \<longleftrightarrow>
     (let e = mem c i in
      current_term e \<le> current_term e' \<and>
      (current_term e = current_term e' \<longrightarrow>
         voted_for e = None \<or> voted_for e' = voted_for e \<or>
         voted_for e = Some i \<and> (current_term e, i) \<notin> ever c))"

definition new_ballot :: "cluster \<Rightarrow> string \<Rightarrow> election \<Rightarrow> (string \<times> int \<times> string) set \<Rightarrow> bool" where
  "new_ballot c i e' B \<longleftrightarrow>
     B = {} \<or>
     (\<exists>x. B = {(i, current_term e', x)} \<and> x \<noteq> i \<and> voted_for e' = Some x \<and> el_state e' = FOLLOWER \<and>
          (current_term (mem c i) = current_term e' \<longrightarrow>
             voted_for (mem c i) = None \<or> voted_for (mem c i) = Some x))"

definition node_step ::
  "string set \<Rightarrow> cluster \<Rightarrow> string \<Rightarrow> election \<Rightarrow> (string \<times> int \<times> string) set \<Rightarrow> cluster \<Rightarrow> bool" where
  "node_step N c i e' B c' \<longleftrightarrow>
     i \<in> N \<and> mem c' = (mem c)(i := e') \<and> ballot c' = ballot c \<union> B \<and>
     ever c' = ever c \<union> (if el_state e' = LEADER then {(current_term e', i)} else {}) \<and>
     (\<forall>k. k \<noteq> i \<longrightarrow> rounds c' k = rounds c k) \<and>
     node_moves c i e' \<and> new_ballot c i e' B \<and>
     (el_state e' = LEADER \<longrightarrow>
        card N div 2 + 1 \<le> length (votes_received e') \<or> (current_term e', i) \<in> ever c)"

lemma locked_moves:
  assumes "node_moves c i e'" and "locked (mem c i) t x"
    and "x \<noteq> i \<or> (t, i) \<in> ever c"
  shows "locked e' t x"
  using assms by (auto simp: node_moves_def locked_def Let_def)

lemma ballot_inv_step:
  assumes inv: "cluster_inv N c" and st: "node_step N c i e' B c'"
  shows "ballot_inv N c'"
proof -
  have old: "w \<in> N" "x \<noteq> w" "locked (mem c w) t x" if "(w, t, x) \<in> ballot c" for w t x
    using inv that by (auto simp: cluster_inv_def ballot_inv_def)
  have ex: "x = y" if "(w, t, x) \<in> ballot c" "(w, t, y) \<in> ballot c" for w t x y
    using inv that by (auto simp: cluster_inv_def ballot_inv_def)
  have mv: "node_moves c i e'" and nb: "new_ballot c i e' B" and iN: "i \<in> N"
    and c': "mem c' = (mem c)(i := e')" "ballot c' = ballot c \<union> B"
    using st by (auto simp: node_step_def)
  have new: "w = i \<and> t = current_term e' \<and> x \<noteq> i \<and> voted_for e' = Some x"
    if "(w, t, x) \<in> B" for w t x
    using nb that by (auto simp: new_ballot_def)
  have clash: "x = y" if "(w, t, x) \<in> B" "(w, t, y) \<in> ballot c" for w t x y
  proof -
    have w: "w = i" "t = current_term e'" and v: "current_term (mem c i) = current_term e' \<longrightarrow>
             voted_for (mem c i) = None \<or> voted_for (mem c i) = Some x"
      using nb that(1) by (auto simp: new_ballot_def)
    have "locked (mem c i) t y" using old [OF that(2)] w by simp
    with v mv w show ?thesis by (auto simp: locked_def node_moves_def Let_def)
  qed
  show ?thesis
    unfolding ballot_inv_def c'
  proof (intro conjI allI impI)
    fix w t x assume m: "(w, t, x) \<in> ballot c \<union> B"
    show "w \<in> N" using m old new iN by blast
    show "x \<noteq> w" using m old new by blast
    show "locked (((mem c)(i := e')) w) t x"
      using m
    proof
      assume b: "(w, t, x) \<in> ballot c"
      show ?thesis
        using old [OF b] locked_moves [OF mv] by (cases "w = i") auto
    next
      assume "(w, t, x) \<in> B"
      then show ?thesis using new by (auto simp: locked_def)
    qed
  next
    fix w t x y assume "(w, t, x) \<in> ballot c \<union> B" and "(w, t, y) \<in> ballot c \<union> B"
    then show "x = y" using ex clash new by (metis Un_iff option.inject)
  qed
qed

lemma node_inv_others:
  assumes inv: "cluster_inv N c" and st: "node_step N c i e' B c'" and k: "k \<in> N" "k \<noteq> i"
  shows "node_inv N c' k"
proof -
  have "node_inv N c k" using inv k by (simp add: cluster_inv_def)
  moreover have "mem c' k = mem c k" "rounds c' k = rounds c k"
    "ballot c \<subseteq> ballot c'" "ever c \<subseteq> ever c'"
    using st k by (auto simp: node_step_def)
  ultimately show ?thesis
    by (simp add: node_inv_def Let_def) blast
qed

definition elected_ok :: "string set \<Rightarrow> cluster \<Rightarrow> int \<Rightarrow> string \<Rightarrow> bool" where
  "elected_ok N c t x \<longleftrightarrow>
     x \<in> N \<and> locked (mem c x) t x \<and> (\<forall>y. (x, t, y) \<notin> ballot c) \<and>
     (\<exists>Q. election_quorum N Q \<and> (\<forall>w \<in> Q. w = x \<or> (w, t, x) \<in> ballot c))"

lemma ever_inv_alt:
  "ever_inv N c \<longleftrightarrow>
     (\<forall>t x. (t, x) \<in> ever c \<longrightarrow> elected_ok N c t x) \<and>
     (\<forall>t x y. (t, x) \<in> ever c \<longrightarrow> (t, y) \<in> ever c \<longrightarrow> x = y)"
  by (simp add: ever_inv_def elected_ok_def)

lemma elected_ok_unique:
  assumes "finite N" and "ballot_inv N c" and x: "elected_ok N c t x" and y: "elected_ok N c t y"
  shows "x = y"
proof -
  define vote where "vote w u \<longleftrightarrow> (w, t, u) \<in> ballot c \<or> w = u \<and> (u = x \<or> u = y)" for w u
  obtain P where P: "election_quorum N P" "\<forall>w \<in> P. vote w x"
    using x by (auto simp: elected_ok_def vote_def)
  obtain Q where Q: "election_quorum N Q" "\<forall>w \<in> Q. vote w y"
    using y by (auto simp: elected_ok_def vote_def)
  have "u = v" if "vote w u" "vote w v" for w u v
  proof -
    have "u = v" if "(w, t, u) \<in> ballot c" "(w, t, v) \<in> ballot c"
      using assms(2) that by (auto simp: ballot_inv_def)
    moreover have "(x, t, u) \<notin> ballot c" "(y, t, u) \<notin> ballot c" for u
      using x y by (simp_all add: elected_ok_def)
    ultimately show ?thesis using that by (auto simp: vote_def)
  qed
  with P Q assms(1) show ?thesis
    using maj.unique_winner [of N P Q vote x y] by blast
qed

lemma elected_ok_step:
  assumes inv: "cluster_inv N c" and st: "node_step N c i e' B c'" and m: "(t, x) \<in> ever c"
  shows "elected_ok N c' t x"
proof -
  have old: "elected_ok N c t x"
    using inv m by (simp add: cluster_inv_def ever_inv_alt)
  have c': "mem c' = (mem c)(i := e')" "ballot c' = ballot c \<union> B"
    and mv: "node_moves c i e'" and nb: "new_ballot c i e' B"
    using st by (auto simp: node_step_def)
  have lock: "locked (mem c' x) t x"
    using old m locked_moves [OF mv] by (cases "x = i") (auto simp: elected_ok_def c')
  have "(x, t, y) \<notin> ballot c'" for y
  proof
    assume "(x, t, y) \<in> ballot c'"
    then have "(x, t, y) \<in> B" using old by (auto simp: elected_ok_def c')
    then have "x = i" "t = current_term e'" "y \<noteq> x" "voted_for e' = Some y"
      using nb by (auto simp: new_ballot_def)
    with lock show False by (simp add: locked_def c')
  qed
  with lock old show ?thesis by (auto simp: elected_ok_def c')
qed

lemma elected_ok_new:
  assumes inv: "cluster_inv N c" and st: "node_step N c i e' B c'"
    and i: "node_inv N c' i" and lead: "el_state e' = LEADER"
  shows "elected_ok N c' (current_term e') i"
proof (cases "(current_term e', i) \<in> ever c")
  case True
  then show ?thesis by (rule elected_ok_step [OF inv st])
next
  case False
  have e': "mem c' i = e'" "i \<in> N" using st by (simp_all add: node_step_def)
  have len: "card N div 2 + 1 \<le> length (votes_received e')"
    using st lead False by (simp add: node_step_def)
  have nd: "distinct (votes_received e')" "set (votes_received e') \<subseteq> N" "voted_for e' = Some i"
    "\<forall>w \<in> set (votes_received e'). w = i \<or> (w, current_term e', i) \<in> ballot c'"
    using i lead e' by (simp_all add: node_inv_def Let_def)
  have "election_quorum N (set (votes_received e'))"
    using nd len by (simp add: election_quorum_def distinct_card)
  moreover have "(i, current_term e', y) \<notin> ballot c'" for y
    using ballot_locked [OF ballot_inv_step [OF inv st], of i "current_term e'" y] nd(3) e'
    by (auto simp: locked_def)
  ultimately show ?thesis
    using nd e' by (auto simp: elected_ok_def locked_def)
qed

lemma cluster_inv_step:
  assumes inv: "cluster_inv N c" and st: "node_step N c i e' B c'"
    and i: "node_inv N c' i" and net: "net_inv N c'"
  shows "cluster_inv N c'"
proof -
  have fin: "finite N" using inv by (simp add: cluster_inv_def)
  have nodes: "node_inv N c' k" if "k \<in> N" for k
    using node_inv_others [OF inv st that] i by (cases "k = i") auto
  have ok: "elected_ok N c' t x" if "(t, x) \<in> ever c'" for t x
    using that st elected_ok_step [OF inv st] elected_ok_new [OF inv st i]
    by (auto simp: node_step_def split: if_splits)
  have "ever_inv N c'"
    unfolding ever_inv_alt
    using ok elected_ok_unique [OF fin ballot_inv_step [OF inv st]] by blast
  with fin nodes net ballot_inv_step [OF inv st] show ?thesis
    by (simp add: cluster_inv_def)
qed

subsection \<open>Every step keeps the invariant\<close>

lemma disk_sync_persist [simp]:
  "has_state_path e \<Longrightarrow> disk_ok e \<Longrightarrow> disk_sync (persist_state e)"
  by (simp add: disk_sync_def disk_persist_state)

lemma put_node_sel [simp]:
  "mem (put_node i e c) = (mem c)(i := e)"
  "rounds (put_node i e c) = rounds c"
  "reqs (put_node i e c) = reqs c"
  "resps (put_node i e c) = resps c"
  "hbs (put_node i e c) = hbs c"
  "ballot (put_node i e c) = ballot c"
  "ever (put_node i e c) =
     ever c \<union> (if el_state e = LEADER then {(current_term e, i)} else {})"
  by (simp_all add: put_node_def)

lemma cluster_invD:
  assumes "cluster_inv N c"
  shows "finite N" "i \<in> N \<Longrightarrow> node_inv N c i" "net_inv N c" "ballot_inv N c" "ever_inv N c"
  using assms by (simp_all add: cluster_inv_def)

lemma step_start_inv:
  assumes inv: "cluster_inv N c" and i: "i \<in> N" and r: "rounds c i = None"
    and s: "start_election_begin rnd (mem c i) = (e, req, peers, m)"
  shows "cluster_inv N ((put_node i e c)\<lparr>rounds := (rounds c)(i := Some (vr_term req, m)),
            reqs := reqs c \<union> (\<lambda>p. (p, req)) ` set peers\<rparr>)" (is "cluster_inv N ?c")
proof -
  have n: "node_inv N c i" using cluster_invD [OF inv] i by blast
  have e: "el_state e = CANDIDATE" "current_term e = current_term (mem c i) + 1"
    "voted_for e = Some i" "votes_received e = [i]" "el_config e = el_config (mem c i)"
    "disk_sync e" "vr_term req = current_term (mem c i) + 1" "vr_candidate_id req = i"
    "set peers = N - {i}" "m = card N div 2 + 1"
    using s n i
    by (auto simp: start_election_begin_def node_inv_def Let_def majority_def
          disk_sync_def disk_persist_state distinct_card [symmetric] card_Diff_singleton_if
          cluster_invD(1) [OF inv] dest!: arg_cong [of _ _ card])
  have "node_step N c i e {} ?c"
    using e i by (simp add: node_step_def node_moves_def new_ballot_def)
  moreover have "node_inv N ?c i"
    using n e i el_config_eqD [OF e(5)] by (simp add: node_inv_def Let_def)
  moreover have "net_inv N ?c"
    using cluster_invD(3) [OF inv] e by (auto simp: net_inv_def)
  ultimately show ?thesis by (rule cluster_inv_step [OF inv])
qed

text \<open>The three outcomes of a vote request at a node.\<close>

lemma vote_request_cases:
  assumes "handle_vote_request now rnd req e0 = (e, r)"
    and "has_state_path e0" and "disk_ok e0"
  obtains
    (newer) "current_term e0 < vr_term req" "current_term e = vr_term req"
      "el_state e = FOLLOWER" "votes_received e = []" "disk_sync e"
      "voted_for e = (if vp_vote_granted r then Some (vr_candidate_id req) else None)"
  | (same) "vr_term req = current_term e0" "vp_vote_granted r" "current_term e = current_term e0"
      "voted_for e0 = None \<or> voted_for e0 = Some (vr_candidate_id req)"
      "voted_for e = Some (vr_candidate_id req)" "el_state e = el_state e0"
      "votes_received e = votes_received e0" "disk_sync e"
  | (refused) "\<not> vp_vote_granted r" "e = e0"
proof (cases "vr_term req > current_term e0")
  case True
  with assms show ?thesis
    by (intro newer) (auto simp: handle_vote_request_def Let_def)
next
  case False
  show ?thesis
  proof (cases "vp_vote_granted r")
    case True
    with False assms show ?thesis
      by (intro same) (auto simp: handle_vote_request_def Let_def split: if_splits)
  next
    case nog: False
    with False assms show ?thesis
      by (intro refused) (auto simp: handle_vote_request_def Let_def split: if_splits)
  qed
qed

lemma step_vote_inv:
  assumes inv: "cluster_inv N c" and j: "j \<in> N" and q: "(j, req) \<in> reqs c"
    and s: "handle_vote_request now rnd req (mem c j) = (e, r)"
  shows "cluster_inv N
       ((put_node j e c)\<lparr>resps := insert (vr_candidate_id req, vr_term req, r) (resps c),
           ballot := ballot c \<union>
             (if vp_vote_granted r then {(j, vr_term req, vr_candidate_id req)} else {})\<rparr>)"
    (is "cluster_inv N ?c")
proof -
  let ?e = "mem c j"
  let ?B = "if vp_vote_granted r then {(j, vr_term req, vr_candidate_id req)} else {}"
  have n: "node_inv N c j" using cluster_invD [OF inv] j by blast
  then have nd: "has_state_path ?e" "disk_ok ?e" "el_node_id ?e = j"
    "el_state ?e \<noteq> FOLLOWER \<Longrightarrow> voted_for ?e = Some j"
    by (simp_all add: node_inv_def Let_def)
  have ne: "j \<noteq> vr_candidate_id req"
    using cluster_invD(3) [OF inv] q by (simp add: net_inv_def)
  have cfg: "el_config e = el_config ?e"
    using s config_vote_request [of now rnd req ?e] by simp
  have id: "vp_vote_granted r \<Longrightarrow> vp_voter_id r = j"
    using granted_response(3) [OF s] nd by simp
  have "node_step N c j e ?B ?c \<and> node_inv N ?c j"
    using s nd(1,2)
  proof (cases rule: vote_request_cases)
    case newer
    then show ?thesis
      using n j ne el_config_eqD [OF cfg]
      by (auto simp: node_step_def node_moves_def new_ballot_def node_inv_def Let_def)
  next
    case same
    then have "el_state ?e = FOLLOWER"
      using nd(4) ne by (cases "el_state ?e = FOLLOWER") auto
    with same show ?thesis
      using n j ne el_config_eqD [OF cfg]
      by (auto simp: node_step_def node_moves_def new_ballot_def node_inv_def Let_def)
  next
    case refused
    then show ?thesis
      using n j
      by (auto simp: node_step_def node_moves_def new_ballot_def node_inv_def Let_def)
  qed
  moreover have "net_inv N ?c"
    using cluster_invD(3) [OF inv] id by (auto simp: net_inv_def)
  ultimately show ?thesis
    using cluster_inv_step [OF inv] by blast
qed

lemma node_majority:
  assumes "finite N" and "i \<in> N" and "node_inv N c i"
  shows "majority (mem c i) = card N div 2 + 1"
proof -
  have "length (known_nodes (mem c i)) = card (N - {i})"
    using assms(3) by (metis distinct_card node_inv_def)
  moreover have "card (N - {i}) + 1 = card N"
    using assms(1,2) by (simp add: card_gt_0_iff Suc_leI)
       (metis Suc_pred card_gt_0_iff empty_iff)
  ultimately show ?thesis by (simp add: majority_def)
qed

lemma disk_sync_follower:
  "disk_sync e \<Longrightarrow> disk_sync (become_follower e)"
  by (simp add: disk_sync_def split: option.splits)

lemma disk_sync_votes [simp]:
  "disk_sync (e\<lparr>votes_received := vs\<rparr>) = disk_sync e"
  by (simp add: disk_sync_def split: option.splits)

lemma disk_sync_leader:
  "has_state_path e \<Longrightarrow> disk_ok e \<Longrightarrow> disk_sync (become_leader e)"
proof -
  assume "has_state_path e" "disk_ok e"
  then have "disk_sync (persist_state (e\<lparr>el_state := LEADER, leader_id := Some (el_node_id e),
      fencing_token := fencing_token e + 1\<rparr>))" by simp
  moreover have "disk_sync (x\<lparr>el_calls := y\<rparr>) = disk_sync x" for x y
    by (simp add: disk_sync_def split: option.splits)
  ultimately show ?thesis by (simp add: become_leader_def Let_def)
qed

lemma vote_response_cases:
  assumes "has_state_path e" and "disk_ok e"
  obtains
    (higher) "current_term e < vp_term r" "current_term (handle_vote_response r e) = vp_term r"
      "el_state (handle_vote_response r e) = FOLLOWER"
      "votes_received (handle_vote_response r e) = []" "disk_sync (handle_vote_response r e)"
  | (counted) "el_state e = CANDIDATE" "vp_vote_granted r"
      "current_term (handle_vote_response r e) = current_term e"
      "voted_for (handle_vote_response r e) = voted_for e"
      "votes_received (handle_vote_response r e) = sadd (vp_voter_id r) (votes_received e)"
      "el_state (handle_vote_response r e) = CANDIDATE \<or>
         el_state (handle_vote_response r e) = LEADER \<and>
         length (votes_received (handle_vote_response r e)) \<ge> majority e"
      "disk_sync e \<longrightarrow> disk_sync (handle_vote_response r e)"
  | (ignored) "handle_vote_response r e = e"
proof (cases "vp_term r > current_term e")
  case True
  then show ?thesis
    using assms
    by (intro higher) (simp_all add: handle_vote_response_def vote_response_raise_term_def
          disk_sync_follower)
next
  case False
  show ?thesis
  proof (cases "el_state e = CANDIDATE \<and> vp_vote_granted r")
    case True
    have "majority (e\<lparr>votes_received := vs\<rparr>) = majority e" for vs
      by (simp add: majority_def)
    with True False assms show ?thesis
      by (intro counted) (simp_all add: handle_vote_response_def Let_def disk_sync_leader)
  next
    case other: False
    with False show ?thesis
      by (intro ignored) (auto simp: handle_vote_response_def)
  qed
qed

lemma step_respond_inv:
  assumes inv: "cluster_inv N c" and i: "i \<in> N" and rd: "rounds c i = Some (t, m)"
    and q: "(i, t, r) \<in> resps c"
  shows "cluster_inv N (put_node i (handle_vote_response r (mem c i)) c)" (is "cluster_inv N ?c")
proof -
  let ?e = "mem c i"
  let ?e' = "handle_vote_response r ?e"
  have n: "node_inv N c i" using cluster_invD [OF inv] i by blast
  then have nd: "has_state_path ?e" "disk_ok ?e" "el_state ?e = CANDIDATE \<Longrightarrow> current_term ?e = t"
    using rd by (simp_all add: node_inv_def Let_def)
  have maj: "majority ?e = card N div 2 + 1"
    using node_majority [OF cluster_invD(1) [OF inv] i n] .
  have voter: "(vp_voter_id r, t, i) \<in> ballot c" if "vp_vote_granted r"
    using cluster_invD(3) [OF inv] q that by (auto simp: net_inv_def)
  then have "vp_voter_id r \<in> N" if "vp_vote_granted r"
    using that ballot_locked [OF cluster_invD(4) [OF inv]] by blast
  note voter = voter this
  have "node_step N c i ?e' {} ?c \<and> node_inv N ?c i"
    using nd(1,2)
  proof (cases rule: vote_response_cases [of _ r])
    case higher
    then show ?thesis
      using n i by (auto simp: node_step_def node_moves_def new_ballot_def node_inv_def Let_def)
  next
    case counted
    then show ?thesis
      using n i nd(3) voter maj
      by (auto simp: node_step_def node_moves_def new_ballot_def node_inv_def Let_def)
  next
    case ignored
    then show ?thesis
      using n i by (auto simp: node_step_def node_moves_def new_ballot_def node_inv_def Let_def)
  qed
  moreover have "net_inv N ?c"
    using cluster_invD(3) [OF inv] by (auto simp: net_inv_def)
  ultimately show ?thesis
    using cluster_inv_step [OF inv] by blast
qed

lemma step_finish_inv:
  assumes inv: "cluster_inv N c" and i: "i \<in> N" and rd: "rounds c i = Some (t, m)"
  shows "cluster_inv N
           ((put_node i (finish_election m (mem c i)) c)\<lparr>rounds := (rounds c)(i := None)\<rparr>)"
    (is "cluster_inv N ?c")
proof -
  let ?e = "mem c i"
  let ?e' = "finish_election m ?e"
  have n: "node_inv N c i" using cluster_invD [OF inv] i by blast
  then have m: "m = card N div 2 + 1" and nd: "has_state_path ?e" "disk_ok ?e"
    using rd by (simp_all add: node_inv_def Let_def)
  have st: "el_state ?e \<noteq> FOLLOWER" if "m \<le> length (votes_received ?e)"
    using n m that by (auto simp: node_inv_def Let_def)
  have "node_step N c i ?e' {} ?c \<and> node_inv N ?c i"
  proof (cases "m \<le> length (votes_received ?e)")
    case True
    then have "?e' = become_leader ?e" by (simp add: finish_election_def)
    then show ?thesis
      using n i m st True nd
      by (auto simp: node_step_def node_moves_def new_ballot_def node_inv_def Let_def disk_sync_leader)
  next
    case False
    then have "?e' = ?e" by (simp add: finish_election_def)
    then show ?thesis
      using n i by (auto simp: node_step_def node_moves_def new_ballot_def node_inv_def Let_def)
  qed
  moreover have "net_inv N ?c"
    using cluster_invD(3) [OF inv] by (auto simp: net_inv_def)
  ultimately show ?thesis
    using cluster_inv_step [OF inv] by blast
qed

lemma step_beat_inv:
  assumes inv: "cluster_inv N c" and i: "i \<in> N"
    and s: "election_tick now (mem c i) = (e, False, Some peers)"
  shows "cluster_inv N ((put_node i e c)\<lparr>hbs := hbs c \<union> set (broadcast_heartbeat peers e)\<rparr>)"
    (is "cluster_inv N ?c")
proof -
  let ?e = "mem c i"
  have n: "node_inv N c i" using cluster_invD [OF inv] i by blast
  have e: "e = ?e\<lparr>last_heartbeat := now, last_broadcast := now\<rparr>" "el_state ?e = LEADER"
    "peers = filter (\<lambda>n. n \<noteq> i) (known_nodes ?e)"
    using s n
    by (auto simp: election_tick_def node_inv_def Let_def split: election_state.splits if_splits)
  have "disk_sync e \<longleftrightarrow> disk_sync ?e"
    by (simp add: e(1) disk_sync_def split: option.splits)
  then have "node_step N c i e {} ?c \<and> node_inv N ?c i"
    using n i e(2)
    by (simp add: e(1) node_step_def node_moves_def new_ballot_def node_inv_def Let_def)
  moreover have "el_node_id e = i" "(current_term e, i) \<in> ever c"
    using n e by (simp_all add: node_inv_def Let_def)
  then have "net_inv N ?c"
    using cluster_invD(3) [OF inv] e(3) by (auto simp: net_inv_def broadcast_heartbeat_def)
  ultimately show ?thesis
    using cluster_inv_step [OF inv] by blast
qed

lemma heartbeat_cases:
  assumes "has_state_path e" and "disk_ok e"
  obtains
    (taken) "current_term e \<le> t" "current_term (receive_heartbeat now rnd l t e) = t"
      "el_state (receive_heartbeat now rnd l t e) = FOLLOWER"
      "votes_received (receive_heartbeat now rnd l t e) =
         (if el_state e = FOLLOWER then votes_received e else [])"
      "voted_for (receive_heartbeat now rnd l t e) =
         (if el_state e = FOLLOWER then voted_for e else None)"
      "disk_sync (receive_heartbeat now rnd l t e)"
  | (stale) "receive_heartbeat now rnd l t e = e"
proof (cases "current_term e \<le> t")
  case True
  then show ?thesis
    using assms by (intro taken) (simp_all add: receive_heartbeat_def Let_def)
next
  case False
  then show ?thesis by (intro stale) (simp add: receive_heartbeat_def)
qed

lemma step_heartbeat_inv:
  assumes inv: "cluster_inv N c" and j: "j \<in> N" and q: "(j, l, t) \<in> hbs c"
  shows "cluster_inv N (put_node j (receive_heartbeat now rnd l t (mem c j)) c)"
    (is "cluster_inv N ?c")
proof -
  let ?e = "mem c j"
  have n: "node_inv N c j" using cluster_invD [OF inv] j by blast
  then have nd: "has_state_path ?e" "disk_ok ?e" "el_state ?e \<noteq> FOLLOWER \<Longrightarrow> voted_for ?e = Some j"
    by (simp_all add: node_inv_def Let_def)
  have "j \<noteq> l" "(t, l) \<in> ever c"
    using cluster_invD(3) [OF inv] q by (simp_all add: net_inv_def)
  then have "(t, j) \<notin> ever c"
    using cluster_invD(5) [OF inv] unfolding ever_inv_alt by blast
  with nd(1,2) have "node_step N c j (receive_heartbeat now rnd l t ?e) {} ?c \<and> node_inv N ?c j"
  proof (cases rule: heartbeat_cases [of _ t now rnd l])
    case taken
    then show ?thesis
      using n j nd(3) \<open>(t, j) \<notin> ever c\<close>
      by (auto simp: node_step_def node_moves_def new_ballot_def node_inv_def Let_def)
  next
    case stale
    then show ?thesis
      using n j by (auto simp: node_step_def node_moves_def new_ballot_def node_inv_def Let_def)
  qed
  moreover have "net_inv N ?c"
    using cluster_invD(3) [OF inv] by (auto simp: net_inv_def)
  ultimately show ?thesis
    using cluster_inv_step [OF inv] by blast
qed

lemma step_restart_inv:
  assumes inv: "cluster_inv N c" and i: "i \<in> N"
  shows "cluster_inv N
           ((put_node i (restart now rnd (mem c i)) c)\<lparr>rounds := (rounds c)(i := None)\<rparr>)"
    (is "cluster_inv N ?c")
proof -
  let ?e = "mem c i"
  let ?e' = "restart now rnd ?e"
  have n: "node_inv N c i" using cluster_invD [OF inv] i by blast
  then have nd: "has_state_path ?e" "disk_sync ?e" by (simp_all add: node_inv_def Let_def)
  have e': "current_term ?e' = current_term ?e" "el_state ?e' = FOLLOWER"
    "votes_received ?e' = []" "disk_sync ?e'"
    "voted_for ?e \<noteq> None \<Longrightarrow> voted_for ?e' = voted_for ?e"
    using nd by (auto simp: restart_def load_state_def Let_def disk_sync_def split: option.splits)
  have "node_step N c i ?e' {} ?c \<and> node_inv N ?c i"
    using n i e'
    by (auto simp: node_step_def node_moves_def new_ballot_def node_inv_def Let_def)
  moreover have "net_inv N ?c"
    using cluster_invD(3) [OF inv] e'(2) by (auto simp: net_inv_def)
  ultimately show ?thesis
    using cluster_inv_step [OF inv] by blast
qed

lemma cstep_inv:
  assumes "cstep N c c'" and inv: "cluster_inv N c"
  shows "cluster_inv N c'"
  using assms(1)
  by cases (simp_all only: step_start_inv [OF inv] step_vote_inv [OF inv]
      step_respond_inv [OF inv] step_finish_inv [OF inv] step_beat_inv [OF inv]
      step_heartbeat_inv [OF inv] step_restart_inv [OF inv])

lemma reach_inv:
  assumes "reach N es c" and "finite N" and "\<And>i. i \<in> N \<Longrightarrow> fresh_node N i (es i)"
  shows "cluster_inv N c"
  using assms(1)
  by induction (auto intro: cluster_inv_start [OF assms(2,3)] cstep_inv)

subsection \<open>Leaders\<close>

definition leads :: "cluster \<Rightarrow> int \<Rightarrow> string \<Rightarrow> bool" where
  "leads c t i \<longleftrightarrow> el_state (mem c i) = LEADER \<and> current_term (mem c i) = t"

lemma ever_mono: "cstep N c c' \<Longrightarrow> ever c \<subseteq> ever c'"
  by (erule cstep.cases) auto

lemma ever_mono_rtrancl: "(cstep N)\<^sup>*\<^sup>* c c' \<Longrightarrow> ever c \<subseteq> ever c'"
  by (induction rule: rtranclp_induct) (auto dest: ever_mono)

lemma leads_ever: "cluster_inv N c \<Longrightarrow> i \<in> N \<Longrightarrow> leads c t i \<Longrightarrow> (t, i) \<in> ever c"
  by (auto simp: cluster_inv_def node_inv_def leads_def Let_def)

lemma reach_rtrancl: "reach N es c \<Longrightarrow> (cstep N)\<^sup>*\<^sup>* c c' \<Longrightarrow> reach N es c'"
  by (erule rtranclp_induct [rotated]) (auto intro: reach_step)

text \<open>A three-node cluster in which one node has just been elected.\<close>

definition demo_nodes :: "string \<Rightarrow> election" where
  "demo_nodes i =
     election_init i 1 (filter (\<lambda>k. k \<noteq> i) [''a'', ''b'', ''c'']) False False True True True None True 0 0"

definition demo_names :: "string set" where
  "demo_names = {''a'', ''b'', ''c''}"

lemma demo_fresh: "i \<in> demo_names \<Longrightarrow> fresh_node demo_names i (demo_nodes i)"
  unfolding demo_nodes_def
  by (rule fresh_node_init) (auto simp: demo_names_def)

definition demo_elected :: cluster where
  "demo_elected =
     (let c0 = cluster_start demo_names demo_nodes;
          (e1, req, peers, m) = start_election_begin 0 (demo_nodes ''a'');
          c1 = (put_node ''a'' e1 c0)\<lparr>rounds := (rounds c0)(''a'' := Some (vr_term req, m)),
                                       reqs := reqs c0 \<union> (\<lambda>p. (p, req)) ` set peers\<rparr>;
          (e2, r) = handle_vote_request 0 0 req (mem c1 ''b'');
          c2 = (put_node ''b'' e2 c1)\<lparr>resps := insert (vr_candidate_id req, vr_term req, r) (resps c1),
                 ballot := ballot c1 \<union>
                   (if vp_vote_granted r then {(''b'', vr_term req, vr_candidate_id req)} else {})\<rparr>
      in put_node ''a'' (handle_vote_response r (mem c2 ''a'')) c2)"

lemma demo_reach: "reach demo_names demo_nodes demo_elected"
proof -
  obtain e1 req peers m where s: "start_election_begin 0 (demo_nodes ''a'') = (e1, req, peers, m)"
    by (metis prod_cases4)
  have f: "vr_term req = 1" "vr_candidate_id req = ''a''" "peers = [''b'', ''c'']"
    using s by (auto simp: start_election_begin_def demo_nodes_def election_init_def load_state_def
        Let_def majority_def persist_state_def save_state_snapshot_def)
  define c0 where "c0 = cluster_start demo_names demo_nodes"
  define c1 where "c1 = (put_node ''a'' e1 c0)\<lparr>rounds := (rounds c0)(''a'' := Some (vr_term req, m)),
                                       reqs := reqs c0 \<union> (\<lambda>p. (p, req)) ` set peers\<rparr>"
  obtain e2 r where v: "handle_vote_request 0 0 req (mem c1 ''b'') = (e2, r)" by fastforce
  define c2 where "c2 = (put_node ''b'' e2 c1)\<lparr>resps := insert (vr_candidate_id req, vr_term req, r) (resps c1),
                 ballot := ballot c1 \<union>
                   (if vp_vote_granted r then {(''b'', vr_term req, vr_candidate_id req)} else {})\<rparr>"
  have "reach demo_names demo_nodes c0" unfolding c0_def by (rule reach_start)
  moreover have "cstep demo_names c0 c1"
    unfolding c1_def using s
    by (intro cstep.start) (auto simp: c0_def cluster_start_def demo_names_def)
  moreover have "cstep demo_names c1 c2"
    unfolding c2_def using v f
    by (intro cstep.vote) (auto simp: c1_def demo_names_def)
  moreover have "cstep demo_names c2 (put_node ''a'' (handle_vote_response r (mem c2 ''a'')) c2)"
    using f by (intro cstep.respond [where t = 1 and m = m]) (auto simp: c2_def c1_def demo_names_def)
  ultimately have "reach demo_names demo_nodes (put_node ''a'' (handle_vote_response r (mem c2 ''a'')) c2)"
    by (meson reach_step)
  then show ?thesis
    unfolding demo_elected_def c2_def c1_def c0_def using s v
    by (simp add: c1_def c0_def Let_def)
qed

lemma demo_leads: "leads demo_elected 1 ''a''"
  by (simp add: leads_def demo_elected_def cluster_start_def demo_nodes_def election_init_def
      load_state_def start_election_begin_def majority_def persist_state_def save_state_snapshot_def
      handle_vote_request_def handle_vote_response_def random_timeout_def become_follower_def
      become_leader_def sadd_def Let_def)

subsection \<open>Properties\<close>



text \<open>Whoever leads a term was voted for by a majority of the electorate: every member of the
  quorum is the leader itself or granted it its vote in that term, and still stands by it.\<close>

theorem leader_has_a_majority:
  assumes "finite N" and "\<And>i. i \<in> N \<Longrightarrow> fresh_node N i (es i)"
    and "reach N es c" and "i \<in> N" and "leads c t i"
  shows "\<exists>Q. election_quorum N Q \<and>
             (\<forall>w \<in> Q. w = i \<or> (w, t, i) \<in> ballot c \<and> locked (mem c w) t i)"
proof -
  have inv: "cluster_inv N c" using reach_inv assms(1-3) by blast
  from leads_ever [OF inv assms(4,5)] cluster_invD(5) [OF inv]
  obtain Q where Q: "election_quorum N Q" "\<forall>w \<in> Q. w = i \<or> (w, t, i) \<in> ballot c"
    unfolding ever_inv_alt elected_ok_def by blast
  with ballot_locked [OF cluster_invD(4) [OF inv]] show ?thesis by blast
qed

lemma leader_has_a_majority_witness:
  "\<exists>Q. election_quorum demo_names Q \<and> card Q \<ge> 2 \<and>
       (\<forall>w \<in> Q. w = ''a'' \<or> (w, 1, ''a'') \<in> ballot demo_elected \<and> locked (mem demo_elected w) 1 ''a'')"
proof -
  have "finite demo_names" "''a'' \<in> demo_names" "card demo_names = 3"
    by (simp_all add: demo_names_def)
  with leader_has_a_majority [OF _ demo_fresh demo_reach _ demo_leads]
  show ?thesis by (fastforce simp: election_quorum_def)
qed

end
