(* ===== verification/LoadRouter.thy ===== *)
theory LoadRouter
  imports Prelude
begin

text \<open>
  \<open>master/load_metrics.py\<close>: the five-dimensional load metrics of a node and the router that
  ranks candidate nodes by them.  Times are passed in; the metrics table is a dictionary from node
  to metrics.  The lemmas say that the score of every shipped strategy is a convex combination
  of per-dimension scores, that it never grows with load, and that a selection returns the best
  eligible candidates and nothing else.
\<close>

record load_metrics =
  uma_used_ratio :: real
  cpu_percent :: real
  metal_util :: real
  task_queue_len :: int
  net_rtt_ms :: real
  lm_timestamp :: time
  lm_node_id :: string

text \<open>\<open>LoadMetrics(...)\<close> with \<open>__post_init__\<close>.\<close>

definition load_metrics_init :: "time \<Rightarrow> load_metrics \<Rightarrow> load_metrics" where
  "load_metrics_init now m = (if lm_timestamp m = 0 then m\<lparr>lm_timestamp := now\<rparr> else m)"

definition is_stale :: "time \<Rightarrow> load_metrics \<Rightarrow> bool" where
  "is_stale now m \<longleftrightarrow> now - lm_timestamp m > 30"

definition uma_available_ratio :: "load_metrics \<Rightarrow> real" where
  "uma_available_ratio m = max 0 (1 - uma_used_ratio m)"

definition load_metrics_to_dict :: "load_metrics \<Rightarrow> (string \<times> json) list" where
  "load_metrics_to_dict m =
     [(''uma_used_ratio'', JReal (uma_used_ratio m)), (''cpu_percent'', JReal (cpu_percent m)),
      (''metal_util'', JReal (metal_util m)), (''task_queue_len'', JInt (task_queue_len m)),
      (''net_rtt_ms'', JReal (net_rtt_ms m)), (''timestamp'', JReal (lm_timestamp m)),
      (''node_id'', JStr (lm_node_id m))]"

text \<open>The fields a payload of the right types has; a missing one gets its default.\<close>

definition jreal :: "json option \<Rightarrow> real \<Rightarrow> real" where
  "jreal v d = (case v of Some (JReal x) \<Rightarrow> x | Some (JInt i) \<Rightarrow> real_of_int i | _ \<Rightarrow> d)"

definition jint :: "json option \<Rightarrow> int \<Rightarrow> int" where
  "jint v d = (case v of Some (JInt i) \<Rightarrow> i | _ \<Rightarrow> d)"

definition jstr :: "json option \<Rightarrow> string \<Rightarrow> string" where
  "jstr v d = (case v of Some (JStr s) \<Rightarrow> s | _ \<Rightarrow> d)"

definition load_metrics_from_dict :: "time \<Rightarrow> (string, json) dict \<Rightarrow> load_metrics" where
  "load_metrics_from_dict now d =
     load_metrics_init now
       \<lparr>uma_used_ratio = jreal (dget d ''uma_used_ratio'') 0,
        cpu_percent = jreal (dget d ''cpu_percent'') 0,
        metal_util = jreal (dget d ''metal_util'') 0,
        task_queue_len = jint (dget d ''task_queue_len'') 0,
        net_rtt_ms = jreal (dget d ''net_rtt_ms'') 0,
        lm_timestamp = jreal (dget d ''timestamp'') 0,
        lm_node_id = jstr (dget d ''node_id'') []\<rparr>"

datatype routing_strategy = BALANCED | VRAM_FIRST | LOCALITY_FIRST | LOW_LATENCY

record routing_weights =
  uma_weight :: real
  cpu_weight :: real
  metal_weight :: real
  queue_weight :: real
  net_weight :: real

definition weights_validate :: "routing_weights \<Rightarrow> bool" where
  "weights_validate w \<longleftrightarrow>
     \<bar>uma_weight w + cpu_weight w + metal_weight w + queue_weight w + net_weight w - 1\<bar> < 0.01"

fun strategy_weights :: "routing_strategy \<Rightarrow> routing_weights" where
  "strategy_weights BALANCED =
     \<lparr>uma_weight = 0.3, cpu_weight = 0.2, metal_weight = 0.15, queue_weight = 0.2, net_weight = 0.15\<rparr>"
| "strategy_weights VRAM_FIRST =
     \<lparr>uma_weight = 0.5, cpu_weight = 0.15, metal_weight = 0.2, queue_weight = 0.1, net_weight = 0.05\<rparr>"
| "strategy_weights LOCALITY_FIRST =
     \<lparr>uma_weight = 0.15, cpu_weight = 0.15, metal_weight = 0.1, queue_weight = 0.1, net_weight = 0.5\<rparr>"
| "strategy_weights LOW_LATENCY =
     \<lparr>uma_weight = 0.1, cpu_weight = 0.1, metal_weight = 0.1, queue_weight = 0.2, net_weight = 0.5\<rparr>"

record routing_result =
  rr_node_id :: string
  rr_score :: real
  rr_strategy :: routing_strategy
  rr_metrics :: load_metrics
  rr_breakdown :: "(string \<times> real) list"

record load_router =
  lr_strategy :: routing_strategy
  stale_threshold :: time
  queue_capacity :: int
  lr_metrics :: "(string, load_metrics) dict"
  lr_weights :: routing_weights

definition load_router_init :: "routing_strategy \<Rightarrow> time \<Rightarrow> int \<Rightarrow> load_router" where
  "load_router_init s st q =
     \<lparr>lr_strategy = s, stale_threshold = st, queue_capacity = q, lr_metrics = [],
      lr_weights = strategy_weights s\<rparr>"

definition set_strategy :: "routing_strategy \<Rightarrow> load_router \<Rightarrow> load_router" where
  "set_strategy s lr = lr\<lparr>lr_strategy := s, lr_weights := strategy_weights s\<rparr>"

definition update_metrics :: "time \<Rightarrow> string \<Rightarrow> load_metrics \<Rightarrow> load_router \<Rightarrow> load_router" where
  "update_metrics now nid m lr =
     lr\<lparr>lr_metrics := dset (lr_metrics lr) nid (m\<lparr>lm_node_id := nid, lm_timestamp := now\<rparr>)\<rparr>"

definition lr_remove_node :: "string \<Rightarrow> load_router \<Rightarrow> load_router" where
  "lr_remove_node nid lr = lr\<lparr>lr_metrics := dpop (lr_metrics lr) nid\<rparr>"

definition get_metrics :: "string \<Rightarrow> load_router \<Rightarrow> load_metrics option" where
  "get_metrics nid lr = dget (lr_metrics lr) nid"

text \<open>The five per-dimension scores, in the order of the code.\<close>

definition uma_score :: "load_metrics \<Rightarrow> real" where
  "uma_score m = max 0 (1 - uma_used_ratio m)"

definition cpu_score :: "load_metrics \<Rightarrow> real" where
  "cpu_score m = max 0 (1 - cpu_percent m / 100)"

definition metal_score :: "load_metrics \<Rightarrow> real" where
  "metal_score m = max 0 (1 - metal_util m)"

definition queue_score :: "int \<Rightarrow> load_metrics \<Rightarrow> real" where
  "queue_score cap m = max 0 (1 - real_of_int (task_queue_len m) / real_of_int (max cap 1))"

definition net_score :: "load_metrics \<Rightarrow> real" where
  "net_score m = max 0 (1 - min (net_rtt_ms m / 100) 1)"

definition weighted_sum :: "int \<Rightarrow> routing_weights \<Rightarrow> load_metrics \<Rightarrow> real" where
  "weighted_sum cap w m =
     uma_score m * uma_weight w + cpu_score m * cpu_weight w + metal_score m * metal_weight w +
     queue_score cap m * queue_weight w + net_score m * net_weight w"

definition compute_score :: "load_router \<Rightarrow> load_metrics \<Rightarrow> routing_weights \<Rightarrow> real" where
  "compute_score lr m w = max 0 (min 1 (weighted_sum (queue_capacity lr) w m))"

definition score_breakdown :: "load_router \<Rightarrow> load_metrics \<Rightarrow> routing_weights \<Rightarrow> (string \<times> real) list" where
  "score_breakdown lr m w =
     [(''uma'', uma_score m * uma_weight w), (''cpu'', cpu_score m * cpu_weight w),
      (''metal'', metal_score m * metal_weight w),
      (''queue'', queue_score (queue_capacity lr) m * queue_weight w),
      (''net'', net_score m * net_weight w), (''total'', compute_score lr m w)]"

text \<open>The request of one selection and what a candidate has to satisfy.\<close>

record route_request =
  rq_preferred :: string
  rq_uma :: real
  rq_tier :: string
  rq_roles :: "(string, string) dict"

definition eligible :: "time \<Rightarrow> load_router \<Rightarrow> route_request \<Rightarrow> string \<Rightarrow> bool" where
  "eligible now lr rq nid \<longleftrightarrow>
     (case get_metrics nid lr of
        None \<Rightarrow> False
      | Some m \<Rightarrow> \<not> now - lm_timestamp m > stale_threshold lr \<and>
                  \<not> (rq_uma rq > 0 \<and> uma_available_ratio m < rq_uma rq))"

definition final_score :: "load_router \<Rightarrow> route_request \<Rightarrow> string \<Rightarrow> load_metrics \<Rightarrow> real" where
  "final_score lr rq nid m =
     (let preferred_bonus = (if nid = rq_preferred rq then 0.1 else 0);
          tier_bonus = (if rq_tier rq = ''heavy'' \<and> dget (rq_roles rq) nid = Some ''heavy'' then 0.15 else 0)
      in min 1 (compute_score lr m (lr_weights lr) + preferred_bonus + tier_bonus))"

definition route_result :: "load_router \<Rightarrow> route_request \<Rightarrow> string \<Rightarrow> load_metrics \<Rightarrow> routing_result" where
  "route_result lr rq nid m =
     \<lparr>rr_node_id = nid, rr_score = final_score lr rq nid m, rr_strategy = lr_strategy lr,
      rr_metrics = m,
      rr_breakdown = score_breakdown lr m (lr_weights lr) @
        (if nid = rq_preferred rq then [(''preferred_bonus'', 0.1)] else []) @
        (if rq_tier rq = ''heavy'' \<and> dget (rq_roles rq) nid = Some ''heavy''
         then [(''tier_affinity_bonus'', 0.15)] else [])\<rparr>"

definition route_candidates ::
  "time \<Rightarrow> load_router \<Rightarrow> route_request \<Rightarrow> string list \<Rightarrow> routing_result list" where
  "route_candidates now lr rq ids =
     concat (map (\<lambda>nid. if eligible now lr rq nid
                        then [route_result lr rq nid (the (get_metrics nid lr))] else []) ids)"

definition select_best ::
  "time \<Rightarrow> load_router \<Rightarrow> route_request \<Rightarrow> string list \<Rightarrow> routing_result option" where
  "select_best now lr rq ids =
     (case sort_desc rr_score (route_candidates now lr rq ids) of [] \<Rightarrow> None | r # _ \<Rightarrow> Some r)"

definition select_n ::
  "time \<Rightarrow> load_router \<Rightarrow> route_request \<Rightarrow> nat \<Rightarrow> string list \<Rightarrow> routing_result list" where
  "select_n now lr rq k ids = take k (sort_desc rr_score (route_candidates now lr rq ids))"

record load_summary =
  ls_node_count :: nat
  ls_avg_score :: real
  ls_min_score :: real
  ls_max_score :: real
  ls_avg_uma :: real
  ls_avg_cpu :: real
  ls_avg_queue :: real
  ls_avg_rtt :: real

definition avg :: "real list \<Rightarrow> real" where
  "avg xs = sum_list xs / real (length xs)"

definition get_cluster_load_summary :: "load_router \<Rightarrow> load_summary option" where
  "get_cluster_load_summary lr =
     (if lr_metrics lr = [] then None
      else let ms = dvals (lr_metrics lr);
               scores = map (\<lambda>m. compute_score lr m (lr_weights lr)) ms
           in Some \<lparr>ls_node_count = length ms, ls_avg_score = avg scores,
                    ls_min_score = Min (set scores), ls_max_score = Max (set scores),
                    ls_avg_uma = avg (map uma_used_ratio ms),
                    ls_avg_cpu = avg (map cpu_percent ms),
                    ls_avg_queue = avg (map (\<lambda>m. real_of_int (task_queue_len m)) ms),
                    ls_avg_rtt = avg (map net_rtt_ms ms)\<rparr>)"


subsection \<open>Scores\<close>

definition metrics_ok :: "load_metrics \<Rightarrow> bool" where
  "metrics_ok m \<longleftrightarrow>
     0 \<le> uma_used_ratio m \<and> 0 \<le> cpu_percent m \<and> 0 \<le> metal_util m \<and> 0 \<le> task_queue_len m \<and>
     0 \<le> net_rtt_ms m"

text \<open>Weights of a convex combination.\<close>

definition convex :: "routing_weights \<Rightarrow> bool" where
  "convex w \<longleftrightarrow>
     0 \<le> uma_weight w \<and> 0 \<le> cpu_weight w \<and> 0 \<le> metal_weight w \<and> 0 \<le> queue_weight w \<and>
     0 \<le> net_weight w \<and>
     uma_weight w + cpu_weight w + metal_weight w + queue_weight w + net_weight w = 1"

lemma convex_strategy [simp]: "convex (strategy_weights s)"
  by (cases s) (simp_all add: convex_def)

lemma weights_validate_strategy: "weights_validate (strategy_weights s)"
  by (cases s) (simp_all add: weights_validate_def)

lemma score_nonneg [simp]:
  "0 \<le> uma_score m" "0 \<le> cpu_score m" "0 \<le> metal_score m" "0 \<le> queue_score c m" "0 \<le> net_score m"
  by (simp_all add: uma_score_def cpu_score_def metal_score_def queue_score_def net_score_def)

lemma score_le_1:
  assumes "metrics_ok m"
  shows "uma_score m \<le> 1" "cpu_score m \<le> 1" "metal_score m \<le> 1" "queue_score c m \<le> 1"
    "net_score m \<le> 1"
  using assms
  by (simp_all add: metrics_ok_def uma_score_def cpu_score_def metal_score_def queue_score_def
        net_score_def)

lemma weighted_sum_bounds:
  assumes "metrics_ok m" and "convex w"
  shows "0 \<le> weighted_sum c w m \<and> weighted_sum c w m \<le> 1"
proof
  have nn: "0 \<le> uma_weight w" "0 \<le> cpu_weight w" "0 \<le> metal_weight w" "0 \<le> queue_weight w"
    "0 \<le> net_weight w"
    and one: "uma_weight w + cpu_weight w + metal_weight w + queue_weight w + net_weight w = 1"
    using assms(2) by (simp_all add: convex_def)
  show "0 \<le> weighted_sum c w m"
    unfolding weighted_sum_def using nn by simp
  have "weighted_sum c w m
      \<le> 1 * uma_weight w + 1 * cpu_weight w + 1 * metal_weight w + 1 * queue_weight w + 1 * net_weight w"
    unfolding weighted_sum_def
    using nn score_le_1 [OF assms(1)]
    by (intro add_mono mult_right_mono) auto
  with one show "weighted_sum c w m \<le> 1" by simp
qed

lemma compute_score_convex:
  assumes "metrics_ok m" and "convex w"
  shows "compute_score lr m w = weighted_sum (queue_capacity lr) w m"
  using weighted_sum_bounds [OF assms, of "queue_capacity lr"] by (simp add: compute_score_def)

text \<open>\<open>m\<close> is at most as loaded as \<open>m'\<close>.\<close>

definition lighter :: "load_metrics \<Rightarrow> load_metrics \<Rightarrow> bool" where
  "lighter m m' \<longleftrightarrow>
     uma_used_ratio m \<le> uma_used_ratio m' \<and> cpu_percent m \<le> cpu_percent m' \<and>
     metal_util m \<le> metal_util m' \<and> task_queue_len m \<le> task_queue_len m' \<and>
     net_rtt_ms m \<le> net_rtt_ms m'"

lemma lighter_scores:
  assumes "lighter m m'"
  shows "uma_score m' \<le> uma_score m" "cpu_score m' \<le> cpu_score m" "metal_score m' \<le> metal_score m"
    "queue_score c m' \<le> queue_score c m" "net_score m' \<le> net_score m"
proof -
  have q: "real_of_int (task_queue_len m) / real_of_int (max c 1)
         \<le> real_of_int (task_queue_len m') / real_of_int (max c 1)"
    using assms by (intro divide_right_mono) (auto simp: lighter_def)
  show "queue_score c m' \<le> queue_score c m"
    unfolding queue_score_def using q by (intro max.mono) auto
qed (use assms in \<open>auto simp: lighter_def uma_score_def cpu_score_def metal_score_def net_score_def
        intro!: max.mono\<close>)

lemma compute_score_antimono:
  assumes "lighter m m'" and "convex w"
  shows "compute_score lr m' w \<le> compute_score lr m w"
proof -
  have "weighted_sum (queue_capacity lr) w m' \<le> weighted_sum (queue_capacity lr) w m"
    unfolding weighted_sum_def
    using assms(2) lighter_scores [OF assms(1)]
    by (intro add_mono mult_right_mono) (auto simp: convex_def)
  then show ?thesis by (simp add: compute_score_def)
qed

subsection \<open>Selection\<close>

lemma route_result_node_id [simp]: "rr_node_id (route_result lr rq nid m) = nid"
  by (simp add: route_result_def)

lemma route_candidates_ids:
  "map rr_node_id (route_candidates now lr rq ids) = filter (eligible now lr rq) ids"
  by (induction ids) (simp_all add: route_candidates_def)

lemma route_candidates_scores:
  "r \<in> set (route_candidates now lr rq ids) \<Longrightarrow>
     rr_score r = final_score lr rq (rr_node_id r) (rr_metrics r) \<and>
     get_metrics (rr_node_id r) lr = Some (rr_metrics r)"
  by (auto simp: route_candidates_def route_result_def eligible_def split: if_splits option.splits)

lemma sort_desc_split:
  assumes "sort_desc f xs = ys @ zs" and "y \<in> set ys" and "z \<in> set zs"
  shows "f z \<le> f y"
  using sorted_sort_desc [of f xs] assms
  by (auto simp: sorted_append)

lemma take_sort_desc_best:
  assumes "y \<in> set (take n (sort_desc f xs))" and "z \<in> set xs" and "z \<notin> set (take n (sort_desc f xs))"
  shows "f z \<le> f y"
proof -
  have "set xs = set (take n (sort_desc f xs)) \<union> set (drop n (sort_desc f xs))"
    by (metis append_take_drop_id set_append set_sort_desc)
  then have "z \<in> set (drop n (sort_desc f xs))" using assms(2,3) by blast
  with assms(1) show ?thesis
    using sort_desc_split [of f xs "take n (sort_desc f xs)" "drop n (sort_desc f xs)"] by simp
qed

lemma select_n_ids:
  "distinct ids \<Longrightarrow> distinct (map rr_node_id (select_n now lr rq k ids))"
proof -
  assume "distinct ids"
  then have d: "distinct (map rr_node_id (route_candidates now lr rq ids))"
    by (simp add: route_candidates_ids)
  have "mset (map rr_node_id (sort_desc rr_score (route_candidates now lr rq ids))) =
        mset (map rr_node_id (route_candidates now lr rq ids))"
    by simp
  with d have "distinct (map rr_node_id (sort_desc rr_score (route_candidates now lr rq ids)))"
    using mset_eq_imp_distinct_iff by blast
  then show ?thesis
    unfolding select_n_def by (simp add: distinct_take take_map [symmetric])
qed

lemma select_n_eligible:
  assumes "r \<in> set (select_n now lr rq k ids)"
  shows "rr_node_id r \<in> set ids \<and> eligible now lr rq (rr_node_id r)"
proof -
  have "r \<in> set (route_candidates now lr rq ids)"
    using assms in_set_takeD unfolding select_n_def by fastforce
  then have "rr_node_id r \<in> set (map rr_node_id (route_candidates now lr rq ids))" by simp
  then show ?thesis by (simp add: route_candidates_ids)
qed

lemma select_n_length:
  "length (select_n now lr rq k ids) = min k (count_if (eligible now lr rq) ids)"
proof -
  have "length (route_candidates now lr rq ids) = count_if (eligible now lr rq) ids"
    using arg_cong [OF route_candidates_ids, of length now lr rq ids] by (simp add: count_if_def)
  then show ?thesis by (simp add: select_n_def min.commute)
qed

subsection \<open>Properties\<close>

text \<open>The routing score of every shipped strategy is a convex combination of the five
  per-dimension scores, so it lies between 0 and 1 without the clamp of the code ever cutting it,
  and a node that is more loaded in any dimension never scores higher.\<close>

theorem routing_score_sound:
  assumes "metrics_ok m" and "lighter m m'"
  shows "compute_score lr m (strategy_weights s) = weighted_sum (queue_capacity lr) (strategy_weights s) m \<and>
         0 \<le> compute_score lr m (strategy_weights s) \<and>
         compute_score lr m (strategy_weights s) \<le> 1 \<and>
         compute_score lr m' (strategy_weights s) \<le> compute_score lr m (strategy_weights s) \<and>
         weights_validate (strategy_weights s)"
  using compute_score_convex [OF assms(1) convex_strategy] weighted_sum_bounds [OF assms(1) convex_strategy]
    compute_score_antimono [OF assms(2) convex_strategy] weights_validate_strategy
  by simp

definition demo_metrics :: "real \<Rightarrow> int \<Rightarrow> load_metrics" where
  "demo_metrics u q =
     \<lparr>uma_used_ratio = u, cpu_percent = 20, metal_util = 0, task_queue_len = q, net_rtt_ms = 10,
      lm_timestamp = 100, lm_node_id = ''n''\<rparr>"

lemma routing_score_sound_witness:
  "compute_score (load_router_init BALANCED 30 8) (demo_metrics 0.5 3) (strategy_weights BALANCED)
     \<le> compute_score (load_router_init BALANCED 30 8) (demo_metrics 0.25 2) (strategy_weights BALANCED)"
  using routing_score_sound [of "demo_metrics 0.25 2" "demo_metrics 0.5 3"
      "load_router_init BALANCED 30 8" BALANCED]
  by (simp add: metrics_ok_def lighter_def demo_metrics_def)

text \<open>\<open>select_n\<close> returns as many candidates as were asked for or as there are eligible ones
  (with fresh metrics and enough unified memory), no candidate twice, none that is not eligible,
  and never leaves out an eligible candidate that scores higher than one it returns; the first of
  them is the choice of \<open>select_best\<close>.\<close>

theorem select_n_best:
  assumes "distinct ids" and "0 < k"
  shows "length (select_n now lr rq k ids) = min k (count_if (eligible now lr rq) ids) \<and>
         distinct (map rr_node_id (select_n now lr rq k ids)) \<and>
         (\<forall>r \<in> set (select_n now lr rq k ids). rr_node_id r \<in> set ids \<and> eligible now lr rq (rr_node_id r)) \<and>
         (\<forall>r \<in> set (select_n now lr rq k ids). \<forall>r' \<in> set (route_candidates now lr rq ids).
            r' \<notin> set (select_n now lr rq k ids) \<longrightarrow> rr_score r' \<le> rr_score r) \<and>
         select_best now lr rq ids =
           (case select_n now lr rq k ids of [] \<Rightarrow> None | r # _ \<Rightarrow> Some r)"
proof -
  have "select_best now lr rq ids =
      (case select_n now lr rq k ids of [] \<Rightarrow> None | r # _ \<Rightarrow> Some r)"
    using assms(2) unfolding select_best_def select_n_def
    by (cases k) (simp_all split: list.split)
  then show ?thesis
    using select_n_length [of now lr rq k ids] select_n_ids [OF assms(1), of now lr rq k]
      select_n_eligible [of _ now lr rq k ids] take_sort_desc_best [of _ k rr_score]
    unfolding select_n_def [of now lr rq k ids] by blast
qed

definition demo_router :: load_router where
  "demo_router =
     update_metrics 100 ''b'' (demo_metrics 0.2 1)
       (update_metrics 100 ''a'' (demo_metrics 0.9 7) (load_router_init BALANCED 30 8))"

lemma demo_router_eligible:
  "eligible 110 demo_router \<lparr>rq_preferred = [], rq_uma = 0, rq_tier = [], rq_roles = []\<rparr> =
     (\<lambda>n. n = ''a'' \<or> n = ''b'')"
  by (rule ext) (simp add: eligible_def get_metrics_def demo_router_def update_metrics_def
        load_router_init_def demo_metrics_def)

lemma select_n_best_witness:
  "length (select_n 110 demo_router \<lparr>rq_preferred = [], rq_uma = 0, rq_tier = [], rq_roles = []\<rparr> 2
     [''a'', ''c'', ''b'']) = 2 \<and>
   rr_node_id ` set (select_n 110 demo_router
      \<lparr>rq_preferred = [], rq_uma = 0, rq_tier = [], rq_roles = []\<rparr> 2 [''a'', ''c'', ''b''])
     \<subseteq> {''a'', ''b''}"
  using select_n_best [of "[''a'', ''c'', ''b'']" 2 110 demo_router
      "\<lparr>rq_preferred = [], rq_uma = 0, rq_tier = [], rq_roles = []\<rparr>"]
  by (auto simp: demo_router_eligible)

end
