(* ===== verification/NodeRegistry.thy ===== *)
theory NodeRegistry
  imports LoadRouter "HOL-Library.Product_Lexorder"
begin

text \<open>
  The nodes domain of \<open>ClusterMaster\<close> (\<open>master/cluster_master.py\<close>): the attributes guarded by
  \<open>_nodes_lock\<close> and the operations on them, registration, heartbeats, fault counting and bans,
  draining, and the choice of nodes for a task.  Nodes are reached through the node table only and
  are kept there by value.  The clock reading of an operation is its argument \<open>now\<close>; the host
  check of registration, which asks the resolver, is the argument \<open>registerable\<close>.
\<close>

datatype node_status = ONLINE | OFFLINE | BUSY | FAULT | ERROR

datatype parallel_mode = PIPELINE | DATA

record node_info =
  nd_id :: string
  nd_hostname :: string
  nd_ip_address :: string
  nd_port :: int
  nd_arch :: string
  total_memory_gb :: real
  available_memory_gb :: real
  cpu_cores :: int
  mlx_version :: string
  gpu_cores :: int
  device_model :: string
  uma_size_gb :: real
  nd_role :: string
  nd_status :: node_status
  nd_last_heartbeat :: time
  nd_tags :: "string list"
  active_tasks :: int
  max_tasks :: int
  network_rtt_ms :: real
  gpu_memory_used_gb :: real
  gpu_memory_total_gb :: real
  nd_draining :: bool
  supervisor_available :: bool
  nd_drivers :: "string list"
  nd_resident :: bool

text \<open>\<open>NodeInfo.score\<close>.\<close>

definition nd_score :: "node_info \<Rightarrow> real" where
  "nd_score n =
     (let mem_score = available_memory_gb n / max (total_memory_gb n) 1;
          task_score = 1 - real_of_int (active_tasks n) / real_of_int (max (max_tasks n) 1);
          net_penalty = min (network_rtt_ms n / 100) 1
      in (mem_score * 0.4 + task_score * 0.4) * (1 - net_penalty * 0.2))"

record registry =
  rg_nodes :: "(string, node_info) dict"
  rg_router :: load_router
  rg_heartbeat_timeout :: time
  rg_banned :: "(string, time) dict"
  rg_faults :: "(string, time list) dict"

definition FAULT_WINDOW_S :: time where "FAULT_WINDOW_S = 60"
definition FAULT_THRESHOLD :: nat where "FAULT_THRESHOLD = 3"
definition BAN_DURATION_S :: time where "BAN_DURATION_S = 300"

definition registry_init :: "time \<Rightarrow> registry" where
  "registry_init hb =
     \<lparr>rg_nodes = [], rg_router = load_router_init BALANCED 30 8, rg_heartbeat_timeout = hb,
      rg_banned = [], rg_faults = []\<rparr>"

text \<open>In-place change of the node with a key, if there is one.\<close>

definition upd_node :: "string \<Rightarrow> (node_info \<Rightarrow> node_info) \<Rightarrow> registry \<Rightarrow> registry" where
  "upd_node nid f rg =
     (case dget (rg_nodes rg) nid of
        None \<Rightarrow> rg
      | Some n \<Rightarrow> rg\<lparr>rg_nodes := dset (rg_nodes rg) nid (f n)\<rparr>)"

text \<open>\<open>_is_node_banned_locked\<close> drops an expired entry; \<open>is_node_banned\<close> only looks.\<close>

definition is_node_banned_locked :: "time \<Rightarrow> string \<Rightarrow> registry \<Rightarrow> registry \<times> bool" where
  "is_node_banned_locked now nid rg =
     (case dget (rg_banned rg) nid of
        None \<Rightarrow> (rg, False)
      | Some unban_at \<Rightarrow>
          if now \<ge> unban_at
          then (rg\<lparr>rg_banned := dpop (rg_banned rg) nid, rg_faults := dpop (rg_faults rg) nid\<rparr>, False)
          else (rg, True))"

definition is_node_banned :: "time \<Rightarrow> string \<Rightarrow> registry \<Rightarrow> bool" where
  "is_node_banned now nid rg =
     (case dget (rg_banned rg) nid of None \<Rightarrow> False | Some unban_at \<Rightarrow> now < unban_at)"

definition unban_node :: "string \<Rightarrow> registry \<Rightarrow> registry \<times> bool" where
  "unban_node nid rg =
     (rg\<lparr>rg_banned := dpop (rg_banned rg) nid, rg_faults := dpop (rg_faults rg) nid\<rparr>,
      dget (rg_banned rg) nid \<noteq> None)"

text \<open>\<open>_sync_node_metrics\<close>: \<open>round(x, 3)\<close> is to the nearest, ties to even.\<close>

definition round3 :: "real \<Rightarrow> real" where
  "round3 x =
     (let y = x * 1000; f = \<lfloor>y\<rfloor>; d = y - real_of_int f
      in real_of_int (if d < 1/2 then f else if d > 1/2 then f + 1
                      else if even f then f else f + 1) / 1000)"

definition sync_node_metrics :: "time \<Rightarrow> node_info \<Rightarrow> registry \<Rightarrow> registry" where
  "sync_node_metrics now info rg =
     (let uma_ratio = 1 - available_memory_gb info / max (total_memory_gb info) 1;
          metal = (if gpu_memory_total_gb info > 0
                   then round3 (min 1 (gpu_memory_used_gb info / max (gpu_memory_total_gb info) 0.001))
                   else 0)
      in rg\<lparr>rg_router := update_metrics now (nd_id info)
              \<lparr>uma_used_ratio = uma_ratio, cpu_percent = 0, metal_util = metal,
               task_queue_len = active_tasks info, net_rtt_ms = network_rtt_ms info,
               lm_timestamp = now, lm_node_id = nd_id info\<rparr> (rg_router rg)\<rparr>)"

text \<open>\<open>register_node\<close> without the drain of the queue that follows it (see \<open>Scheduling\<close>).\<close>

definition merge_registration :: "time \<Rightarrow> node_info option \<Rightarrow> node_info \<Rightarrow> node_info" where
  "merge_registration now existing info =
     (case existing of
        Some old \<Rightarrow>
          info\<lparr>nd_status := (if nd_status old \<noteq> OFFLINE then nd_status old else ONLINE),
               nd_last_heartbeat := now, active_tasks := active_tasks old,
               max_tasks := max_tasks old, network_rtt_ms := network_rtt_ms old\<rparr>
      | None \<Rightarrow> info\<lparr>nd_status := ONLINE, nd_last_heartbeat := now\<rparr>)"

definition register_node ::
  "(string \<Rightarrow> bool) \<Rightarrow> time \<Rightarrow> node_info \<Rightarrow> registry \<Rightarrow> registry \<times> bool" where
  "register_node registerable now info0 rg0 =
     (if \<not> registerable (nd_ip_address info0) then (rg0, False)
      else
        let (rg, banned) = is_node_banned_locked now (nd_id info0) rg0
        in if banned then (rg, False)
           else
             let info = merge_registration now (dget (rg_nodes rg) (nd_id info0)) info0
             in (sync_node_metrics now info (rg\<lparr>rg_nodes := dset (rg_nodes rg) (nd_id info) info\<rparr>), True))"

definition unregister_node :: "time \<Rightarrow> string \<Rightarrow> string \<Rightarrow> registry \<Rightarrow> registry" where
  "unregister_node now nid reason rg =
     (let rg1 = rg\<lparr>rg_nodes := dpop (rg_nodes rg) nid, rg_router := lr_remove_node nid (rg_router rg)\<rparr>
      in if reason = ''banned'' then rg1\<lparr>rg_banned := dset (rg_banned rg1) nid (now + BAN_DURATION_S)\<rparr>
         else rg1)"

text \<open>\<open>_probe_banned_nodes\<close>: the expired bans as of the lock section, then one probe per node; the
  answer of the health endpoint is the argument \<open>probe\<close>.\<close>

definition probe_collect_step ::
  "time \<Rightarrow> string \<times> time \<Rightarrow> registry \<times> string list \<Rightarrow> registry \<times> string list" where
  "probe_collect_step now ban acc =
     (if now < snd ban then acc
      else case dget (rg_nodes (fst acc)) (fst ban) of
             None \<Rightarrow> ((fst acc)\<lparr>rg_banned := dpop (rg_banned (fst acc)) (fst ban),
                               rg_faults := dpop (rg_faults (fst acc)) (fst ban)\<rparr>, snd acc)
           | Some _ \<Rightarrow> (fst acc, snd acc @ [fst ban]))"

definition probe_collect :: "time \<Rightarrow> registry \<Rightarrow> registry \<times> string list" where
  "probe_collect now rg = fold (probe_collect_step now) (rg_banned rg) (rg, [])"

definition probe_banned_nodes :: "time \<Rightarrow> (node_info \<Rightarrow> bool) \<Rightarrow> registry \<Rightarrow> registry" where
  "probe_banned_nodes now probe rg =
     (let (rg1, ps) = probe_collect now rg
      in fold (\<lambda>nid r.
            if (case dget (rg_nodes rg1) nid of None \<Rightarrow> False | Some n \<Rightarrow> probe n)
            then fst (unban_node nid r)
            else r\<lparr>rg_banned := dset (rg_banned r) nid (now + BAN_DURATION_S),
                   rg_faults := dpop (rg_faults r) nid\<rparr>) ps rg1)"

text \<open>An optional field of a heartbeat: \<open>if x is not None: node.f = x\<close>.\<close>

definition given :: "'a option \<Rightarrow> ('a \<Rightarrow> 'n \<Rightarrow> 'n) \<Rightarrow> 'n \<Rightarrow> 'n" where
  "given x f n = (case x of None \<Rightarrow> n | Some v \<Rightarrow> f v n)"

definition heartbeat_fields ::
  "time \<Rightarrow> real option \<Rightarrow> real option \<Rightarrow> int option \<Rightarrow> bool option \<Rightarrow> node_info \<Rightarrow> node_info" where
  "heartbeat_fields now tot avail active spv n =
     (let n1 = given spv (\<lambda>v n. n\<lparr>supervisor_available := v\<rparr>)
                (given active (\<lambda>v n. n\<lparr>active_tasks := v\<rparr>)
                  (given avail (\<lambda>v n. n\<lparr>available_memory_gb := v\<rparr>)
                    (given tot (\<lambda>v n. n\<lparr>total_memory_gb := v\<rparr>)
                      (n\<lparr>nd_last_heartbeat := now\<rparr>))))
      in if nd_status n1 = OFFLINE then n1\<lparr>nd_status := ONLINE\<rparr> else n1)"

definition update_heartbeat ::
  "time \<Rightarrow> string \<Rightarrow> real option \<Rightarrow> real option \<Rightarrow> int option \<Rightarrow> bool option \<Rightarrow> registry \<Rightarrow> registry \<times> bool"
  where
  "update_heartbeat now nid tot avail active spv rg =
     (case dget (rg_nodes rg) nid of
        None \<Rightarrow> (rg, False)
      | Some _ \<Rightarrow> (upd_node nid (heartbeat_fields now tot avail active spv) rg, True))"

definition report_fault :: "time \<Rightarrow> string \<Rightarrow> registry \<Rightarrow> registry \<times> bool" where
  "report_fault now nid rg =
     (case dget (rg_nodes rg) nid of
        None \<Rightarrow> (rg, False)
      | Some _ \<Rightarrow>
          (let rg1 = upd_node nid (\<lambda>n. n\<lparr>nd_status := FAULT\<rparr>) rg;
               windowed = filter (\<lambda>t. now - t \<le> FAULT_WINDOW_S) (dget_or (rg_faults rg1) nid [] @ [now]);
               rg2 = rg1\<lparr>rg_faults := dset (rg_faults rg1) nid windowed\<rparr>
           in (if length windowed \<ge> FAULT_THRESHOLD
               then rg2\<lparr>rg_banned := dset (rg_banned rg2) nid (now + BAN_DURATION_S)\<rparr>
               else rg2, True)))"

definition get_online_nodes :: "time \<Rightarrow> registry \<Rightarrow> node_info list" where
  "get_online_nodes now rg =
     filter (\<lambda>n. (nd_status n = ONLINE \<or> nd_status n = BUSY) \<and>
                 now - nd_last_heartbeat n < rg_heartbeat_timeout rg) (dvals (rg_nodes rg))"

text \<open>The status transition \<open>_refresh_node_statuses\<close> applies to each node, and the nodes that went
  offline in this round.\<close>

definition refresh_status :: "time \<Rightarrow> time \<Rightarrow> node_info \<Rightarrow> node_info" where
  "refresh_status now timeout n =
     (case nd_status n of
        ONLINE \<Rightarrow>
          if now - nd_last_heartbeat n \<ge> timeout then n\<lparr>nd_status := OFFLINE\<rparr>
          else if active_tasks n \<ge> max_tasks n then n\<lparr>nd_status := BUSY\<rparr> else n
      | BUSY \<Rightarrow>
          if now - nd_last_heartbeat n \<ge> timeout then n\<lparr>nd_status := OFFLINE\<rparr>
          else if active_tasks n < max_tasks n then n\<lparr>nd_status := ONLINE\<rparr> else n
      | _ \<Rightarrow> n)"

definition refresh_nodes :: "time \<Rightarrow> registry \<Rightarrow> registry \<times> string list" where
  "refresh_nodes now rg =
     (let f = refresh_status now (rg_heartbeat_timeout rg)
      in (rg\<lparr>rg_nodes := map (\<lambda>(k, n). (k, f n)) (rg_nodes rg)\<rparr>,
          map (\<lambda>n. nd_id n)
            (filter (\<lambda>n. nd_status n \<noteq> OFFLINE \<and> nd_status (f n) = OFFLINE) (dvals (rg_nodes rg)))))"

definition check_heartbeat :: "time \<Rightarrow> string \<Rightarrow> registry \<Rightarrow> registry \<times> bool" where
  "check_heartbeat now nid rg =
     (case dget (rg_nodes rg) nid of
        None \<Rightarrow> (rg, False)
      | Some n \<Rightarrow>
          if now - nd_last_heartbeat n > rg_heartbeat_timeout rg
          then (upd_node nid (\<lambda>n. n\<lparr>nd_status := OFFLINE\<rparr>) rg, False)
          else (rg, True))"

definition update_node_load ::
  "time \<Rightarrow> string \<Rightarrow> load_metrics \<Rightarrow> real option \<Rightarrow> real option \<Rightarrow> bool option \<Rightarrow> registry \<Rightarrow> registry" where
  "update_node_load now nid m used tot spv rg =
     (case dget (rg_nodes rg) nid of
        None \<Rightarrow> rg
      | Some _ \<Rightarrow>
          (let rg1 = rg\<lparr>rg_router := update_metrics now nid m (rg_router rg)\<rparr>
           in upd_node nid (\<lambda>n.
                given spv (\<lambda>v n. n\<lparr>supervisor_available := v\<rparr>)
                  (given tot (\<lambda>v n. n\<lparr>gpu_memory_total_gb := v\<rparr>)
                    (given used (\<lambda>v n. n\<lparr>gpu_memory_used_gb := v\<rparr>)
                      (n\<lparr>available_memory_gb := total_memory_gb n * (1 - uma_used_ratio m),
                         active_tasks := task_queue_len m, network_rtt_ms := net_rtt_ms m\<rparr>)))) rg1))"

definition set_node_draining :: "string \<Rightarrow> bool \<Rightarrow> registry \<Rightarrow> registry \<times> bool" where
  "set_node_draining nid d rg =
     (case dget (rg_nodes rg) nid of
        None \<Rightarrow> (rg, False)
      | Some _ \<Rightarrow> (upd_node nid (\<lambda>n. n\<lparr>nd_draining := d\<rparr>) rg, True))"

definition cleanup_offline_nodes :: "time \<Rightarrow> registry \<Rightarrow> registry" where
  "cleanup_offline_nodes now rg =
     rg\<lparr>rg_nodes := filter (\<lambda>(k, n). \<not> (nd_status n = OFFLINE \<and> now - nd_last_heartbeat n > 3600))
                      (rg_nodes rg)\<rparr>"

subsection \<open>Choosing nodes\<close>

record select_request =
  sq_mode :: parallel_mode
  sq_memory :: real
  sq_count :: nat
  sq_capability :: string
  sq_preferred :: string
  sq_exclude :: "string list"
  sq_tier :: string
  sq_shard_roles :: "string list"
  sq_pinned :: string

definition has_capability :: "string \<Rightarrow> node_info \<Rightarrow> bool" where
  "has_capability cap n \<longleftrightarrow> cap \<in> set (nd_tags n) \<or> cap \<in> set (nd_drivers n)"

text \<open>The filters of \<open>select_nodes\<close> in their order; the two early returns of an empty list are the
  same as filtering on.\<close>

definition select_candidates :: "time \<Rightarrow> select_request \<Rightarrow> registry \<Rightarrow> node_info list" where
  "select_candidates now q rg =
     (let c1 = get_online_nodes now rg;
          c2 = filter (\<lambda>n. \<not> is_node_banned now (nd_id n) rg) c1;
          c3 = filter (\<lambda>n. \<not> nd_draining n) c2;
          c4 = (if sq_mode q = PIPELINE \<and> sq_shard_roles q \<noteq> []
                then filter (\<lambda>n. nd_role n \<in> set (sq_shard_roles q)) c3 else c3);
          c5 = (if sq_exclude q \<noteq> [] then filter (\<lambda>n. nd_id n \<notin> set (sq_exclude q)) c4 else c4);
          c6 = (if sq_pinned q \<noteq> [] then filter (\<lambda>n. nd_id n = sq_pinned q) c5 else c5);
          c7 = (if sq_capability q \<noteq> [] then filter (has_capability (sq_capability q)) c6 else c6)
      in if sq_memory q > 0 then filter (\<lambda>n. available_memory_gb n \<ge> sq_memory q) c7 else c7)"

definition fallback_order :: "select_request \<Rightarrow> node_info list \<Rightarrow> node_info list" where
  "fallback_order q cs =
     (let c1 = (if sq_preferred q \<noteq> []
                then filter (\<lambda>n. nd_id n = sq_preferred q) cs @ filter (\<lambda>n. nd_id n \<noteq> sq_preferred q) cs
                else cs)
      in case sq_mode q of
           PIPELINE \<Rightarrow> sort_desc nd_score c1
         | DATA \<Rightarrow> sort_key (\<lambda>n. (active_tasks n, - nd_score n)) c1)"

text \<open>\<open>id_to_node\<close> and the list comprehension over the router's results.\<close>

definition find_node :: "string \<Rightarrow> node_info list \<Rightarrow> node_info option" where
  "find_node k cs = find (\<lambda>n. nd_id n = k) cs"

definition ranked :: "node_info list \<Rightarrow> routing_result list \<Rightarrow> node_info list" where
  "ranked cs rs =
     concat (map (\<lambda>r. case find_node (rr_node_id r) cs of None \<Rightarrow> [] | Some n \<Rightarrow> [n]) rs)"

definition select_nodes :: "time \<Rightarrow> select_request \<Rightarrow> registry \<Rightarrow> node_info list" where
  "select_nodes now q rg =
     (let cs = select_candidates now q rg;
          tot = sum_list (map total_memory_gb cs);
          rq = \<lparr>rq_preferred = sq_preferred q,
                rq_uma = sq_memory q / max (if tot = 0 then 1 else tot) 1,
                rq_tier = sq_tier q, rq_roles = map (\<lambda>n. (nd_id n, nd_role n)) cs\<rparr>;
          results = select_n now (rg_router rg) rq (sq_count q) (map nd_id cs);
          selected = ranked cs results
      in if selected \<noteq> [] then selected else take (sq_count q) (fallback_order q cs))"

text \<open>\<open>_select_free_nodes_locked\<close>: the filter stops at the first failing test, so an expired ban is
  dropped only for a node that passes the tests before it.\<close>

definition free_filter :: "time \<Rightarrow> string list \<Rightarrow> node_info list \<Rightarrow> registry \<Rightarrow> registry \<times> node_info list" where
  "free_filter now excl ns rg =
     fold (\<lambda>n (r, acc).
        if nd_status n = ONLINE \<and> nd_id n \<notin> set excl \<and> active_tasks n < max_tasks n
        then (let (r', banned) = is_node_banned_locked now (nd_id n) r
              in (r', if \<not> banned \<and> \<not> nd_draining n then acc @ [n] else acc))
        else (r, acc)) ns (rg, [])"

definition select_free_nodes ::
  "time \<Rightarrow> parallel_mode \<Rightarrow> real \<Rightarrow> string \<Rightarrow> string list \<Rightarrow> nat \<Rightarrow> registry \<Rightarrow> registry \<times> node_info list"
  where
  "select_free_nodes now mode mem cap excl k rg =
     (if k = 0 then (rg, [])
      else
        let (rg', c1) = free_filter now excl (dvals (rg_nodes rg)) rg;
            c2 = (if cap \<noteq> [] then filter (has_capability cap) c1 else c1);
            c3 = (if mem > 0 then filter (\<lambda>n. available_memory_gb n \<ge> mem) c2 else c2)
        in (rg', take k (case mode of PIPELINE \<Rightarrow> sort_desc nd_score c3
                                    | DATA \<Rightarrow> sort_key (\<lambda>n. (active_tasks n, - nd_score n)) c3)))"

subsection \<open>Well-formed registries\<close>

text \<open>Every node is filed under its own id, and the table has no key twice.\<close>

definition reg_wf :: "registry \<Rightarrow> bool" where
  "reg_wf rg \<longleftrightarrow> dwf (rg_nodes rg) \<and> (\<forall>k n. dget (rg_nodes rg) k = Some n \<longrightarrow> nd_id n = k)"

lemma reg_wf_vals:
  assumes "reg_wf rg"
  shows "n \<in> set (dvals (rg_nodes rg)) \<longleftrightarrow> dget (rg_nodes rg) (nd_id n) = Some n"
proof
  note wf = assms
  assume "n \<in> set (dvals (rg_nodes rg))"
  then obtain k where "(k, n) \<in> set (rg_nodes rg)" by auto
  with wf have "dget (rg_nodes rg) k = Some n" by (simp add: reg_wf_def dget_dwf_iff)
  with wf show "dget (rg_nodes rg) (nd_id n) = Some n" by (simp add: reg_wf_def)
next
  assume "dget (rg_nodes rg) (nd_id n) = Some n"
  from dget_SomeD [OF this] show "n \<in> set (dvals (rg_nodes rg))" by force
qed

lemma reg_wf_cong: "rg_nodes rg' = rg_nodes rg \<Longrightarrow> reg_wf rg' = reg_wf rg"
  by (simp add: reg_wf_def)

lemma reg_wf_updates [simp]:
  "reg_wf (rg\<lparr>rg_router := x\<rparr>) = reg_wf rg"
  "reg_wf (rg\<lparr>rg_banned := b\<rparr>) = reg_wf rg"
  "reg_wf (rg\<lparr>rg_faults := f\<rparr>) = reg_wf rg"
  by (simp_all add: reg_wf_def)

lemma reg_wf_upd_node [intro]:
  assumes "reg_wf rg" and "\<And>n. nd_id (f n) = nd_id n"
  shows "reg_wf (upd_node nid f rg)"
  using assms by (auto simp: upd_node_def reg_wf_def split: option.split)

lemma upd_node_sel [simp]:
  "dget (rg_nodes (upd_node nid f rg)) k =
     (if k = nid then map_option f (dget (rg_nodes rg) nid) else dget (rg_nodes rg) k)"
  "rg_router (upd_node nid f rg) = rg_router rg"
  "rg_heartbeat_timeout (upd_node nid f rg) = rg_heartbeat_timeout rg"
  "rg_banned (upd_node nid f rg) = rg_banned rg"
  "rg_faults (upd_node nid f rg) = rg_faults rg"
  by (auto simp: upd_node_def split: option.split)

lemma banned_locked_simps [simp]:
  "rg_nodes (fst (is_node_banned_locked now nid rg)) = rg_nodes rg"
  "rg_router (fst (is_node_banned_locked now nid rg)) = rg_router rg"
  "rg_heartbeat_timeout (fst (is_node_banned_locked now nid rg)) = rg_heartbeat_timeout rg"
  "snd (is_node_banned_locked now nid rg) = is_node_banned now nid rg"
  by (auto simp: is_node_banned_locked_def is_node_banned_def split: option.split)

lemma banned_locked_keeps [simp]:
  "is_node_banned now k (fst (is_node_banned_locked now nid rg)) = is_node_banned now k rg"
  by (auto simp: is_node_banned_locked_def is_node_banned_def split: option.split)

lemma unban_node_nodes [simp]: "rg_nodes (fst (unban_node nid rg)) = rg_nodes rg"
  by (simp add: unban_node_def)

lemma sync_node_metrics_nodes [simp]:
  "rg_nodes (sync_node_metrics now n rg) = rg_nodes rg"
  "rg_banned (sync_node_metrics now n rg) = rg_banned rg"
  "rg_faults (sync_node_metrics now n rg) = rg_faults rg"
  "rg_heartbeat_timeout (sync_node_metrics now n rg) = rg_heartbeat_timeout rg"
  by (simp_all add: sync_node_metrics_def Let_def)

lemma probe_collect_nodes [simp]: "rg_nodes (fst (probe_collect now rg)) = rg_nodes rg"
proof -
  have "rg_nodes (fst (fold (probe_collect_step now) bs a)) = rg_nodes (fst a)" for bs a
    by (induction bs arbitrary: a) (simp_all add: probe_collect_step_def split: option.split)
  then show ?thesis by (simp add: probe_collect_def)
qed

lemma probe_banned_nodes_nodes [simp]: "rg_nodes (probe_banned_nodes now probe rg) = rg_nodes rg"
proof -
  have "rg_nodes (fold (\<lambda>nid r. if Q nid then fst (unban_node nid r)
            else r\<lparr>rg_banned := dset (rg_banned r) nid t, rg_faults := dpop (rg_faults r) nid\<rparr>) ps r0)
        = rg_nodes r0" for Q t ps r0
    by (induction ps arbitrary: r0) simp_all
  then show ?thesis
    by (simp add: probe_banned_nodes_def split_beta Let_def)
qed

subsection \<open>A run of the registry\<close>

datatype registry_event =
    RgRegister time node_info
  | RgHeartbeat time string "real option" "real option" "int option" "bool option"
  | RgLoad time string load_metrics "real option" "real option" "bool option"
  | RgFault time string
  | RgDrain string bool
  | RgRefresh time
  | RgUnban string
  | RgProbe time "string list"
  | RgCleanup time
  | RgUnregister time string string

fun registry_step :: "(string \<Rightarrow> bool) \<Rightarrow> registry_event \<Rightarrow> registry \<Rightarrow> registry" where
  "registry_step ok (RgRegister now n) rg = fst (register_node ok now n rg)"
| "registry_step ok (RgHeartbeat now nid a b c d) rg = fst (update_heartbeat now nid a b c d rg)"
| "registry_step ok (RgLoad now nid m a b c) rg = update_node_load now nid m a b c rg"
| "registry_step ok (RgFault now nid) rg = fst (report_fault now nid rg)"
| "registry_step ok (RgDrain nid d) rg = fst (set_node_draining nid d rg)"
| "registry_step ok (RgRefresh now) rg = fst (refresh_nodes now rg)"
| "registry_step ok (RgUnban nid) rg = fst (unban_node nid rg)"
| "registry_step ok (RgProbe now good) rg = probe_banned_nodes now (\<lambda>n. nd_id n \<in> set good) rg"
| "registry_step ok (RgCleanup now) rg = cleanup_offline_nodes now rg"
| "registry_step ok (RgUnregister now nid reason) rg = unregister_node now nid reason rg"

lemma given_id [simp]:
  "(\<And>v n. nd_id (f v n) = nd_id n) \<Longrightarrow> nd_id (given x f n) = nd_id n"
  "(\<And>v n. nd_status (f v n) = nd_status n) \<Longrightarrow> nd_status (given x f n) = nd_status n"
  by (simp_all add: given_def split: option.split)

lemma heartbeat_fields_simps [simp]:
  "nd_id (heartbeat_fields now tot avail active spv n) = nd_id n"
  "nd_status (heartbeat_fields now tot avail active spv n) =
     (if nd_status n = OFFLINE then ONLINE else nd_status n)"
  by (simp_all add: heartbeat_fields_def Let_def)

lemma refresh_status_id [simp]: "nd_id (refresh_status now t n) = nd_id n"
  by (simp add: refresh_status_def split: node_status.split)

lemma dget_map_val: "dget (map (\<lambda>(k, n). (k, f n)) d) k = map_option f (dget d k)"
  by (induction d) auto

lemma dwf_map_val [simp]: "dwf (map (\<lambda>(k, n). (k, f n)) d) = dwf d"
  by (simp add: dwf_def case_prod_beta' comp_def)

lemma dget_filter_val:
  "dwf d \<Longrightarrow> dget (filter (\<lambda>(k, n). P n) d) k =
     (case dget d k of None \<Rightarrow> None | Some n \<Rightarrow> if P n then Some n else None)"
proof (induction d)
  case Nil
  then show ?case by simp
next
  case (Cons p d)
  obtain k' n where p: "p = (k', n)" by (cases p)
  have "dget d k = None" if "k = k'"
    using Cons.prems that by (simp add: p dwf_def dget_None_iff)
  with Cons show ?case by (auto simp: p dwf_def split: option.splits)
qed

lemma merge_registration_id [simp]: "nd_id (merge_registration now old info) = nd_id info"
  by (simp add: merge_registration_def split: option.split)

lemma merge_registration_status [simp]:
  "nd_status (merge_registration now (Some old) info) =
     (if nd_status old \<noteq> OFFLINE then nd_status old else ONLINE)"
  by (simp add: merge_registration_def)

lemma reg_wf_register: "reg_wf rg \<Longrightarrow> reg_wf (fst (register_node ok now n rg))"
  by (auto simp: register_node_def split_beta Let_def reg_wf_def split: option.splits)

lemma reg_wf_step: "reg_wf rg \<Longrightarrow> reg_wf (registry_step ok ev rg)"
proof (cases ev)
  case (RgRegister now n)
  then show "reg_wf rg \<Longrightarrow> ?thesis" by (simp add: reg_wf_register)
next
  case (RgRefresh now)
  then show "reg_wf rg \<Longrightarrow> ?thesis"
    by (auto simp: refresh_nodes_def Let_def reg_wf_def dget_map_val)
next
  case (RgCleanup now)
  then show "reg_wf rg \<Longrightarrow> ?thesis"
    by (auto simp: cleanup_offline_nodes_def reg_wf_def dget_filter_val dwf_filter split: option.splits)
next
  case (RgUnregister now nid reason)
  then show "reg_wf rg \<Longrightarrow> ?thesis"
    by (auto simp: unregister_node_def Let_def reg_wf_def)
next
  case (RgUnban nid)
  then show "reg_wf rg \<Longrightarrow> ?thesis" by (simp add: unban_node_def)
next
  case (RgProbe now good)
  then show "reg_wf rg \<Longrightarrow> ?thesis"
    using reg_wf_cong [of "probe_banned_nodes now (\<lambda>n. nd_id n \<in> set good) rg" rg] by simp
qed (auto simp: update_heartbeat_def update_node_load_def report_fault_def set_node_draining_def
        Let_def split: option.splits)

lemma reg_wf_run: "reg_wf rg \<Longrightarrow> reg_wf (fold (registry_step ok) evs rg)"
  by (induction evs arbitrary: rg) (auto simp: reg_wf_step)

subsection \<open>Selection\<close>

lemma get_online_subset: "n \<in> set (get_online_nodes now rg) \<Longrightarrow> n \<in> set (dvals (rg_nodes rg))"
  unfolding get_online_nodes_def by (simp only: set_filter) blast

definition selectable :: "time \<Rightarrow> select_request \<Rightarrow> registry \<Rightarrow> node_info \<Rightarrow> bool" where
  "selectable now q rg n \<longleftrightarrow>
     (nd_status n = ONLINE \<or> nd_status n = BUSY) \<and>
     now - nd_last_heartbeat n < rg_heartbeat_timeout rg \<and>
     \<not> is_node_banned now (nd_id n) rg \<and> \<not> nd_draining n \<and>
     nd_id n \<notin> set (sq_exclude q) \<and>
     (sq_pinned q \<noteq> [] \<longrightarrow> nd_id n = sq_pinned q) \<and>
     (sq_capability q \<noteq> [] \<longrightarrow> has_capability (sq_capability q) n) \<and>
     (sq_memory q > 0 \<longrightarrow> sq_memory q \<le> available_memory_gb n) \<and>
     (sq_mode q = PIPELINE \<and> sq_shard_roles q \<noteq> [] \<longrightarrow> nd_role n \<in> set (sq_shard_roles q))"

lemma filter_if: "(if P then filter f xs else xs) = filter (\<lambda>x. P \<longrightarrow> f x) xs"
  by simp

lemma select_candidates_eq:
  "select_candidates now q rg = filter (selectable now q rg) (dvals (rg_nodes rg))"
  unfolding select_candidates_def get_online_nodes_def Let_def filter_if filter_filter
  by (rule filter_cong [OF refl], unfold selectable_def) auto

lemma fallback_order_set: "set (fallback_order q cs) = set cs"
  by (auto simp: fallback_order_def Let_def split: parallel_mode.split)

lemma fallback_order_distinct: "distinct (map nd_id cs) \<Longrightarrow> distinct (map nd_id (fallback_order q cs))"
proof -
  assume d: "distinct (map nd_id cs)"
  have m: "mset (fallback_order q cs) = mset cs"
    by (auto simp: fallback_order_def Let_def multiset_partition [symmetric]
        split: parallel_mode.split)
  then have "mset (map nd_id (fallback_order q cs)) = mset (map nd_id cs)"
    by (simp add: m)
  with d show ?thesis using mset_eq_imp_distinct_iff by blast
qed

lemma dvals_ids: "reg_wf rg \<Longrightarrow> map nd_id (dvals (rg_nodes rg)) = dkeys (rg_nodes rg)"
  by (auto simp: reg_wf_def dget_dwf_iff)

lemma candidates_distinct: "reg_wf rg \<Longrightarrow> distinct (map nd_id (select_candidates now q rg))"
proof -
  assume wf: "reg_wf rg"
  then have "distinct (map nd_id (dvals (rg_nodes rg)))"
    by (simp only: dvals_ids) (simp add: reg_wf_def dwf_def)
  then show ?thesis by (simp only: select_candidates_eq distinct_map_filter)
qed

lemma ranked_simps [simp]:
  "ranked cs [] = []"
  "ranked cs (r # rs) =
     (case find_node (rr_node_id r) cs of None \<Rightarrow> [] | Some n \<Rightarrow> [n]) @ ranked cs rs"
  by (simp_all add: ranked_def)

lemma find_nodeD: "find_node k cs = Some n \<Longrightarrow> n \<in> set cs \<and> nd_id n = k"
  by (auto simp: find_node_def find_Some_iff)

lemma ranked_set: "set (ranked cs rs) \<subseteq> set cs"
proof (induction rs)
  case (Cons r rs)
  then show ?case by (cases "find_node (rr_node_id r) cs") (auto dest: find_nodeD)
qed simp

lemma ranked_ids: "set (map nd_id (ranked cs rs)) \<subseteq> set (map rr_node_id rs)"
proof (induction rs)
  case (Cons r rs)
  then show ?case by (cases "find_node (rr_node_id r) cs") (auto dest: find_nodeD)
qed simp

lemma ranked_length: "length (ranked cs rs) \<le> length rs"
  by (induction rs) (auto split: option.splits)

lemma ranked_distinct:
  "distinct (map rr_node_id rs) \<Longrightarrow> distinct (map nd_id (ranked cs rs))"
proof (induction rs)
  case (Cons r rs)
  have sub: "nd_id ` set (ranked cs rs) \<subseteq> rr_node_id ` set rs"
    using ranked_ids [of cs rs] by simp
  show ?case
  proof (cases "find_node (rr_node_id r) cs")
    case (Some n)
    then have "nd_id n = rr_node_id r" by (simp add: find_nodeD)
    with Some Cons sub show ?thesis by auto
  qed (use Cons in simp)
qed simp

lemma select_nodes_cases:
  obtains rs where "select_nodes now q rg = ranked (select_candidates now q rg) rs"
    "length rs \<le> sq_count q"
    "distinct (map nd_id (select_candidates now q rg)) \<Longrightarrow> distinct (map rr_node_id rs)"
  | "select_nodes now q rg = take (sq_count q) (fallback_order q (select_candidates now q rg))"
proof -
  define cs where "cs = select_candidates now q rg"
  define tot where "tot = sum_list (map total_memory_gb cs)"
  define rq where "rq = \<lparr>rq_preferred = sq_preferred q,
                rq_uma = sq_memory q / max (if tot = 0 then 1 else tot) 1,
                rq_tier = sq_tier q, rq_roles = map (\<lambda>n. (nd_id n, nd_role n)) cs\<rparr>"
  define rs where "rs = select_n now (rg_router rg) rq (sq_count q) (map nd_id cs)"
  have sel: "select_nodes now q rg =
      (if ranked cs rs \<noteq> [] then ranked cs rs else take (sq_count q) (fallback_order q cs))"
    unfolding select_nodes_def Let_def cs_def tot_def rq_def rs_def by (rule refl)
  have len: "length rs \<le> sq_count q" by (simp add: rs_def select_n_def)
  have dist: "distinct (map nd_id cs) \<Longrightarrow> distinct (map rr_node_id rs)"
    unfolding rs_def by (rule select_n_ids)
  show ?thesis
  proof (cases "ranked cs rs = []")
    case True
    then show ?thesis using that(2) sel unfolding cs_def [symmetric] by simp
  next
    case False
    then show ?thesis using that(1) [of rs] sel len dist unfolding cs_def [symmetric] by simp
  qed
qed

lemma select_nodes_set: "set (select_nodes now q rg) \<subseteq> set (select_candidates now q rg)"
  by (rule select_nodes_cases [of now q rg])
     (use ranked_set in_set_takeD fallback_order_set in \<open>fastforce+\<close>)

lemma select_nodes_length: "length (select_nodes now q rg) \<le> sq_count q"
  by (rule select_nodes_cases [of now q rg])
     (use ranked_length le_trans in \<open>fastforce+\<close>)

lemma select_nodes_distinct: "reg_wf rg \<Longrightarrow> distinct (map nd_id (select_nodes now q rg))"
proof -
  assume "reg_wf rg"
  then have d: "distinct (map nd_id (select_candidates now q rg))" by (rule candidates_distinct)
  show ?thesis
  proof (rule select_nodes_cases [of now q rg])
    assume "select_nodes now q rg = take (sq_count q) (fallback_order q (select_candidates now q rg))"
    then show ?thesis
      using fallback_order_distinct [OF d] by (simp add: take_map [symmetric] distinct_take)
  qed (simp add: d ranked_distinct)
qed

subsection \<open>Free nodes\<close>

lemma free_filter_spec:
  assumes "free_filter now excl ns rg = (rg', out)"
  shows "rg_nodes rg' = rg_nodes rg \<and> (\<forall>k. is_node_banned now k rg' = is_node_banned now k rg) \<and>
         out = filter (\<lambda>n. nd_status n = ONLINE \<and> nd_id n \<notin> set excl \<and> active_tasks n < max_tasks n \<and>
                           \<not> is_node_banned now (nd_id n) rg \<and> \<not> nd_draining n) ns"
proof -
  let ?step = "\<lambda>n (r, acc).
        if nd_status n = ONLINE \<and> nd_id n \<notin> set excl \<and> active_tasks n < max_tasks n
        then (let (r', banned) = is_node_banned_locked now (nd_id n) r
              in (r', if \<not> banned \<and> \<not> nd_draining n then acc @ [n] else acc))
        else (r, acc)"
  let ?P = "\<lambda>n. nd_status n = ONLINE \<and> nd_id n \<notin> set excl \<and> active_tasks n < max_tasks n \<and>
                \<not> is_node_banned now (nd_id n) rg \<and> \<not> nd_draining n"
  have "rg_nodes (fst (fold ?step ns (r, acc))) = rg_nodes r \<and>
        (\<forall>k. is_node_banned now k (fst (fold ?step ns (r, acc))) = is_node_banned now k r) \<and>
        snd (fold ?step ns (r, acc)) = acc @ filter ?P ns"
    if "\<forall>k. is_node_banned now k r = is_node_banned now k rg" for r acc
    using that
  proof (induction ns arbitrary: r acc)
    case (Cons n ns)
    show ?case
    proof (cases "nd_status n = ONLINE \<and> nd_id n \<notin> set excl \<and> active_tasks n < max_tasks n")
      case True
      then show ?thesis
        using Cons by (simp add: split_beta Let_def)
    qed (use Cons in auto)
  qed simp
  from this [of rg "[]"] show ?thesis
    using assms by (simp add: free_filter_def)
qed

lemma select_free_nodes_spec:
  assumes "select_free_nodes now mode mem cap excl k rg = (rg', out)"
  shows "rg_nodes rg' = rg_nodes rg" "length out \<le> k"
    "n \<in> set out \<Longrightarrow> n \<in> set (dvals (rg_nodes rg)) \<and> nd_status n = ONLINE \<and> nd_id n \<notin> set excl \<and>
        active_tasks n < max_tasks n \<and> \<not> is_node_banned now (nd_id n) rg \<and> \<not> nd_draining n \<and>
        (cap \<noteq> [] \<longrightarrow> has_capability cap n) \<and> (mem > 0 \<longrightarrow> mem \<le> available_memory_gb n)"
    "reg_wf rg \<Longrightarrow> distinct (map nd_id out)"
proof -
  obtain r c1 where f: "free_filter now excl (dvals (rg_nodes rg)) rg = (r, c1)" by fastforce
  note ff = free_filter_spec [OF f]
  define c2 where "c2 = (if cap \<noteq> [] then filter (has_capability cap) c1 else c1)"
  define c3 where "c3 = (if mem > 0 then filter (\<lambda>n. available_memory_gb n \<ge> mem) c2 else c2)"
  define c4 where "c4 = (case mode of PIPELINE \<Rightarrow> sort_desc nd_score c3
                                   | DATA \<Rightarrow> sort_key (\<lambda>n. (active_tasks n, - nd_score n)) c3)"
  have eq: "(rg', out) = (if k = 0 then (rg, []) else (r, take k c4))"
    using assms unfolding select_free_nodes_def f Let_def prod.case c4_def c3_def c2_def by simp
  have c4: "set c4 = set c3" by (simp add: c4_def split: parallel_mode.split)
  show "rg_nodes rg' = rg_nodes rg" using eq ff by (simp split: if_splits)
  show "length out \<le> k" using eq by (simp split: if_splits)
  show "n \<in> set out \<Longrightarrow> n \<in> set (dvals (rg_nodes rg)) \<and> nd_status n = ONLINE \<and> nd_id n \<notin> set excl \<and>
        active_tasks n < max_tasks n \<and> \<not> is_node_banned now (nd_id n) rg \<and> \<not> nd_draining n \<and>
        (cap \<noteq> [] \<longrightarrow> has_capability cap n) \<and> (mem > 0 \<longrightarrow> mem \<le> available_memory_gb n)"
  proof -
    assume "n \<in> set out"
    then have "n \<in> set c3" using eq c4 by (auto split: if_splits dest: in_set_takeD)
    then show ?thesis
      using ff unfolding c3_def c2_def by (auto split: if_splits)
  qed
  assume wf: "reg_wf rg"
  have "distinct (map nd_id (dvals (rg_nodes rg)))"
    using wf by (simp only: dvals_ids) (simp add: reg_wf_def dwf_def)
  then have "distinct (map nd_id c3)"
    unfolding c3_def c2_def using ff by (simp add: distinct_map_filter)
  moreover have "mset (map nd_id c4) = mset (map nd_id c3)"
    by (simp add: c4_def split: parallel_mode.split)
  ultimately have "distinct (map nd_id c4)" using mset_eq_imp_distinct_iff by blast
  then show "distinct (map nd_id out)"
    using eq by (auto split: if_splits simp: take_map [symmetric] distinct_take)
qed

subsection \<open>Faults and bans\<close>

lemma fault_status:
  assumes "dget (rg_nodes rg) nid = Some n"
  shows "dget (rg_nodes (fst (report_fault now nid rg))) nid = Some (n\<lparr>nd_status := FAULT\<rparr>)"
  using assms by (simp add: report_fault_def Let_def)

lemma fault_times:
  assumes "dget (rg_nodes rg) nid = Some n"
  shows "dget_or (rg_faults (fst (report_fault now nid rg))) nid [] =
           filter (\<lambda>t. now - t \<le> FAULT_WINDOW_S) (dget_or (rg_faults rg) nid []) @ [now]"
  using assms by (simp add: report_fault_def Let_def dget_or_def FAULT_WINDOW_S_def)

lemma fault_banned:
  assumes "dget (rg_nodes rg) nid = Some n"
    and "FAULT_THRESHOLD \<le> length (dget_or (rg_faults (fst (report_fault now nid rg))) nid [])"
  shows "dget (rg_banned (fst (report_fault now nid rg))) nid = Some (now + BAN_DURATION_S)"
  using assms by (simp add: report_fault_def Let_def dget_or_def split: if_splits)

text \<open>The status a node is left with by an event that does not remove it.\<close>

lemma fault_step:
  assumes "dget (rg_nodes rg) nid = Some n" and "nd_status n = FAULT"
    and "\<And>now reason. ev \<noteq> RgUnregister now nid reason" and "reg_wf rg"
  shows "\<exists>n'. dget (rg_nodes (registry_step ok ev rg)) nid = Some n' \<and> nd_status n' = FAULT"
proof (cases ev)
  case (RgRegister now info)
  then show ?thesis
    using assms(1,2) by (auto simp: register_node_def split_beta Let_def)
next
  case (RgHeartbeat now k a b c d)
  then show ?thesis
    using assms(1,2) by (auto simp: update_heartbeat_def Let_def split: option.splits)
next
  case (RgLoad now k m a b c)
  then show ?thesis
    using assms(1,2) by (auto simp: update_node_load_def Let_def split: option.splits)
next
  case (RgFault now k)
  then show ?thesis
    using assms(1,2) by (auto simp: report_fault_def Let_def split: option.splits)
next
  case (RgDrain k d)
  then show ?thesis
    using assms(1,2) by (auto simp: set_node_draining_def split: option.splits)
next
  case (RgRefresh now)
  then show ?thesis
    using assms(1,2) by (auto simp: refresh_nodes_def Let_def dget_map_val refresh_status_def)
next
  case (RgCleanup now)
  then show ?thesis
    using assms by (auto simp: cleanup_offline_nodes_def dget_filter_val reg_wf_def)
next
  case (RgUnregister now k reason)
  with assms(3) [of now reason] have "k \<noteq> nid" by auto
  with RgUnregister assms(1,2) show ?thesis by (auto simp: unregister_node_def Let_def)
qed (use assms(1,2) in simp_all)

lemma fault_run:
  assumes "dget (rg_nodes rg) nid = Some n" and "nd_status n = FAULT" and "reg_wf rg"
    and "\<And>now reason. RgUnregister now nid reason \<notin> set evs"
  shows "\<exists>n'. dget (rg_nodes (fold (registry_step ok) evs rg)) nid = Some n' \<and> nd_status n' = FAULT"
  using assms
proof (induction evs arbitrary: rg n)
  case (Cons ev evs)
  have "ev \<noteq> RgUnregister now nid reason" for now reason
    using Cons.prems(4) [of now reason] by auto
  from fault_step [OF Cons.prems(1,2) this Cons.prems(3)]
  obtain n' where "dget (rg_nodes (registry_step ok ev rg)) nid = Some n'" "nd_status n' = FAULT"
    by blast
  from Cons.IH [OF this reg_wf_step [OF Cons.prems(3)]] Cons.prems(4) show ?case by simp
qed auto

subsection \<open>Properties\<close>

text \<open>C4: Whatever the load and whatever ranking applies, \<open>select_nodes\<close> returns at most the number of
  nodes asked for, none twice, and only registered nodes that are online or busy with a fresh
  heartbeat, not banned, not draining, not excluded, that are the pinned node when one is pinned,
  have the required capability, memory and, for a pipeline, one of the shard roles.\<close>

theorem select_nodes_sound:
  assumes "reg_wf rg"
  shows "length (select_nodes now q rg) \<le> sq_count q \<and> distinct (map nd_id (select_nodes now q rg)) \<and>
         set (select_nodes now q rg)
           \<subseteq> {n. dget (rg_nodes rg) (nd_id n) = Some n \<and> selectable now q rg n}"
  using select_nodes_length [of now q rg] select_nodes_distinct [OF assms, of now q]
    select_nodes_set [of now q rg] reg_wf_vals [OF assms]
  by (auto simp: select_candidates_eq)

definition demo_info :: "string \<Rightarrow> node_info" where
  "demo_info k =
     \<lparr>nd_id = k, nd_hostname = k, nd_ip_address = ''10.0.0.1'', nd_port = 11453, nd_arch = ''arm64'',
      total_memory_gb = 64, available_memory_gb = 48, cpu_cores = 10, mlx_version = [], gpu_cores = 16,
      device_model = [], uma_size_gb = 64, nd_role = ''worker'', nd_status = OFFLINE,
      nd_last_heartbeat = 0, nd_tags = [], active_tasks = 0, max_tasks = 4, network_rtt_ms = 1,
      gpu_memory_used_gb = 0, gpu_memory_total_gb = 0, nd_draining = False,
      supervisor_available = False, nd_drivers = [], nd_resident = False\<rparr>"

definition demo_registry :: registry where
  "demo_registry =
     fst (set_node_draining ''b'' True
       (fst (register_node (\<lambda>_. True) 100 (demo_info ''b'')
         (fst (register_node (\<lambda>_. True) 100 (demo_info ''a'') (registry_init 15))))))"

definition demo_request :: select_request where
  "demo_request =
     \<lparr>sq_mode = DATA, sq_memory = 6, sq_count = 2, sq_capability = [], sq_preferred = [],
      sq_exclude = [], sq_tier = ''general'', sq_shard_roles = [], sq_pinned = []\<rparr>"

lemma demo_registry_wf: "reg_wf demo_registry"
proof -
  have "reg_wf (registry_init 15)" by (simp add: reg_wf_def registry_init_def)
  from reg_wf_run [OF this, of "\<lambda>_. True" "[RgRegister 100 (demo_info ''a''),
      RgRegister 100 (demo_info ''b''), RgDrain ''b'' True]"]
  show ?thesis by (simp add: demo_registry_def)
qed

lemma demo_registry_nodes:
  "\<exists>n. dget (rg_nodes demo_registry) ''a'' = Some n"
  "\<exists>n. dget (rg_nodes demo_registry) ''b'' = Some n \<and> nd_draining n"
  by (simp_all add: demo_registry_def set_node_draining_def register_node_def registry_init_def
        is_node_banned_locked_def Let_def demo_info_def)

lemma select_nodes_sound_witness:
  "length (select_nodes 101 demo_request demo_registry) \<le> 2 \<and>
   ''b'' \<notin> nd_id ` set (select_nodes 101 demo_request demo_registry)"
proof -
  have "nd_draining n" if "dget (rg_nodes demo_registry) ''b'' = Some n" for n
    using demo_registry_nodes(2) that by auto
  then show ?thesis
    using select_nodes_sound [OF demo_registry_wf, of 101 demo_request]
    by (auto simp: selectable_def demo_request_def)
qed

text \<open>Three faults of a node within a minute ban it for five minutes: from the third fault on, and
  until the ban runs out, \<open>register_node\<close> refuses the node and \<open>select_nodes\<close> never returns it.\<close>

theorem three_faults_ban:
  assumes "dget (rg_nodes rg) nid = Some n"
    and "t1 \<le> t2" and "t2 \<le> t3" and "t3 - t1 \<le> FAULT_WINDOW_S"
    and "t3 \<le> now" and "now < t3 + BAN_DURATION_S"
    and "rg3 = fst (report_fault t3 nid (fst (report_fault t2 nid (fst (report_fault t1 nid rg)))))"
  shows "is_node_banned now nid rg3 \<and>
         (\<forall>info. nd_id info = nid \<longrightarrow> snd (register_node ok now info rg3) = False) \<and>
         (\<forall>q. nid \<notin> nd_id ` set (select_nodes now q rg3))"
proof -
  define rg1 where "rg1 = fst (report_fault t1 nid rg)"
  define rg2 where "rg2 = fst (report_fault t2 nid rg1)"
  have n1: "dget (rg_nodes rg1) nid = Some (n\<lparr>nd_status := FAULT\<rparr>)"
    unfolding rg1_def by (rule fault_status [OF assms(1)])
  have n2: "dget (rg_nodes rg2) nid = Some (n\<lparr>nd_status := FAULT\<rparr>)"
    using fault_status [OF n1, of t2] by (simp add: rg2_def)
  have rg3: "rg3 = fst (report_fault t3 nid rg2)"
    using assms(7) by (simp add: rg1_def rg2_def)
  have "t1 \<in> set (dget_or (rg_faults rg1) nid [])"
    unfolding rg1_def fault_times [OF assms(1)] by simp
  then obtain us vs where "dget_or (rg_faults rg1) nid [] = us @ t1 # vs"
    by (meson split_list)
  then have "3 \<le> length (dget_or (rg_faults rg3) nid [])"
    unfolding rg3 rg2_def fault_times [OF n2 [unfolded rg2_def]] fault_times [OF n1]
    using assms(2-4) by (simp add: FAULT_WINDOW_S_def)
  then have ban: "dget (rg_banned rg3) nid = Some (t3 + BAN_DURATION_S)"
    unfolding rg3 by (intro fault_banned [OF n2]) (simp add: FAULT_THRESHOLD_def)
  then have banned: "is_node_banned now nid rg3"
    using assms(6) by (simp add: is_node_banned_def)
  have "snd (register_node ok now info rg3) = False" if "nd_id info = nid" for info
    using banned that by (simp add: register_node_def split_beta Let_def)
  moreover have "nid \<notin> nd_id ` set (select_nodes now q rg3)" for q
    using banned select_nodes_set [of now q rg3]
    by (auto simp: select_candidates_eq selectable_def)
  ultimately show ?thesis using banned by blast
qed

lemma three_faults_ban_witness:
  "is_node_banned 400 ''a''
     (fst (report_fault 130 ''a'' (fst (report_fault 120 ''a'' (fst (report_fault 110 ''a'' demo_registry))))))"
proof -
  obtain n where "dget (rg_nodes demo_registry) ''a'' = Some n"
    using demo_registry_nodes by blast
  from three_faults_ban [OF this, of 110 120 130 400]
  show ?thesis by (simp add: FAULT_WINDOW_S_def BAN_DURATION_S_def)
qed

text \<open>One fault is for ever: once a fault is reported for a node, its status stays FAULT through any
  sequence of heartbeats, load reports, registrations, drains, status refreshes, expired bans,
  successful health probes and manual unbans, so it is never again among the nodes a task can be
  given to; only unregistering it clears the mark.\<close>

theorem fault_is_permanent:
  assumes "reg_wf rg" and "dget (rg_nodes rg) nid = Some n"
    and "\<And>t reason. RgUnregister t nid reason \<notin> set evs"
  shows "(let rg' = fold (registry_step ok) evs (fst (report_fault t0 nid rg))
          in (\<exists>n'. dget (rg_nodes rg') nid = Some n' \<and> nd_status n' = FAULT) \<and>
             (\<forall>now q. nid \<notin> nd_id ` set (select_nodes now q rg')))"
proof -
  let ?rg1 = "fst (report_fault t0 nid rg)"
  let ?rg' = "fold (registry_step ok) evs ?rg1"
  have wf1: "reg_wf ?rg1" using reg_wf_step [OF assms(1), of ok "RgFault t0 nid"] by simp
  have "nd_status (n\<lparr>nd_status := FAULT\<rparr>) = FAULT" by simp
  from fault_run [OF fault_status [OF assms(2)] this wf1 assms(3)]
  obtain n' where n': "dget (rg_nodes ?rg') nid = Some n'" "nd_status n' = FAULT" by blast
  have wf': "reg_wf ?rg'" by (rule reg_wf_run [OF wf1])
  have "nid \<notin> nd_id ` set (select_nodes now q ?rg')" for now q
  proof
    assume "nid \<in> nd_id ` set (select_nodes now q ?rg')"
    then obtain m where "m \<in> set (select_candidates now q ?rg')" "nd_id m = nid"
      using select_nodes_set [of now q ?rg'] by blast
    then have "dget (rg_nodes ?rg') nid = Some m" "nd_status m \<noteq> FAULT"
      using reg_wf_vals [OF wf', of m] by (auto simp: select_candidates_eq selectable_def)
    with n' show False by simp
  qed
  with n' show ?thesis by (auto simp: Let_def)
qed

lemma fault_is_permanent_witness:
  "let rg' = fold (registry_step (\<lambda>_. True))
         [RgHeartbeat 120 ''a'' None None (Some 0) None, RgRegister 130 (demo_info ''a''),
          RgUnban ''a'', RgRefresh 140] (fst (report_fault 110 ''a'' demo_registry))
   in \<exists>n'. dget (rg_nodes rg') ''a'' = Some n' \<and> nd_status n' = FAULT"
proof -
  obtain n where "dget (rg_nodes demo_registry) ''a'' = Some n"
    using demo_registry_nodes by blast
  from fault_is_permanent [OF demo_registry_wf this, of "[RgHeartbeat 120 ''a'' None None (Some 0) None,
      RgRegister 130 (demo_info ''a''), RgUnban ''a'', RgRefresh 140]" "\<lambda>_. True" 110]
  show ?thesis unfolding Let_def by simp
qed

end
