(* ===== verification/ModelSize.thy ===== *)
theory ModelSize
  imports Prelude "HOL-Library.Sublist"
begin

text \<open>
  Model sizes in model names (\<open>master/cluster_master.py\<close>): \<open>_match_model_size\<close> and the decisions
  that rest on it, the memory estimate, the local-force and VRAM-first rules and the chain of
  automatic degradation.  The code's regular expression \<open>(?<!\d)KEY(?!\d)\<close> is written out as a scan
  that remembers whether the previous character was a digit; names are ASCII.
\<close>

definition is_digit :: "char \<Rightarrow> bool" where
  "is_digit c \<longleftrightarrow> c \<in> set ''0123456789''"

definition lower_char :: "char \<Rightarrow> char" where
  "lower_char c =
     (if 65 \<le> (of_char c :: nat) \<and> (of_char c :: nat) \<le> 90 then char_of ((of_char c :: nat) + 32) else c)"

definition lower :: "string \<Rightarrow> string" where
  "lower s = map lower_char s"

definition digit_first :: "string \<Rightarrow> bool" where
  "digit_first s = (case s of [] \<Rightarrow> False | c # _ \<Rightarrow> is_digit c)"

text \<open>\<open>re.search\<close> of \<open>(?<!\d)key(?!\d)\<close>; the flag says whether the character before is a digit.\<close>

fun find_bounded :: "string \<Rightarrow> bool \<Rightarrow> string \<Rightarrow> bool" where
  "find_bounded key prev [] = False"
| "find_bounded key prev (c # cs) =
     ((\<not> prev \<and> prefix key (c # cs) \<and> \<not> digit_first (drop (length key) (c # cs))) \<or>
      find_bounded key (is_digit c) cs)"

text \<open>\<open>re.sub\<close> of the same pattern, ignoring case.\<close>

function sub_bounded :: "string \<Rightarrow> string \<Rightarrow> bool \<Rightarrow> string \<Rightarrow> string" where
  "sub_bounded key new prev [] = []"
| "sub_bounded key new prev (c # cs) =
     (if key \<noteq> [] \<and> \<not> prev \<and> prefix (lower key) (lower (c # cs)) \<and>
         \<not> digit_first (drop (length key) (c # cs))
      then new @ sub_bounded key new (is_digit (last key)) (drop (length key) (c # cs))
      else c # sub_bounded key new (is_digit c) cs)"
  by pat_completeness auto
termination
  by (relation "measure (\<lambda>(key, new, prev, s). length s)") auto

text \<open>\<open>_match_model_size\<close>: the keys are tried from the largest size to the smallest; the tables
  below list them in that order.\<close>

definition match_model_size :: "string \<Rightarrow> string list \<Rightarrow> string option" where
  "match_model_size name keys =
     (if lower name = [] then None else find (\<lambda>k. find_bounded k False (lower name)) keys)"

definition MODEL_DEGRADATION_CHAIN :: "(string, string) dict" where
  "MODEL_DEGRADATION_CHAIN =
     [(''70b'', ''32b''), (''32b'', ''13b''), (''13b'', ''8b''), (''8b'', ''3b''), (''3b'', ''1b'')]"

definition MODEL_MEMORY_PROFILE :: "(string, real) dict" where
  "MODEL_MEMORY_PROFILE =
     [(''70b'', 34), (''32b'', 18), (''13b'', 12), (''8b'', 8), (''3b'', 6), (''1b'', 4), (''0.5b'', 2)]"

definition LOCAL_FORCE_MODEL_SIZES :: "string list" where
  "LOCAL_FORCE_MODEL_SIZES = [''0.5b'']"

definition VRAM_FIRST_MODEL_SIZES :: "string list" where
  "VRAM_FIRST_MODEL_SIZES = [''70b'', ''32b'', ''13b'']"

definition extract_model_size :: "string \<Rightarrow> string" where
  "extract_model_size name =
     (case match_model_size name (dkeys MODEL_DEGRADATION_CHAIN) of None \<Rightarrow> [] | Some k \<Rightarrow> k)"

definition estimate_memory :: "string \<Rightarrow> real" where
  "estimate_memory name =
     (if name \<noteq> [] then
        (case match_model_size name (dkeys MODEL_MEMORY_PROFILE) of
           None \<Rightarrow> 2 + 4
         | Some k \<Rightarrow> 2 + 4 + (dget_or MODEL_MEMORY_PROFILE k 0 - 4))
      else 2)"

definition is_local_force :: "string \<Rightarrow> real \<Rightarrow> bool" where
  "is_local_force name required =
     (if name = [] then required \<le> 4
      else if match_model_size name LOCAL_FORCE_MODEL_SIZES \<noteq> None then True
      else required \<le> 4)"

definition is_vram_first :: "string \<Rightarrow> bool" where
  "is_vram_first name =
     (if name = [] then False else match_model_size name VRAM_FIRST_MODEL_SIZES \<noteq> None)"

text \<open>The name of the next smaller model, as \<open>degrade_task\<close> computes it.\<close>

definition degrade_name :: "string \<Rightarrow> string option" where
  "degrade_name name =
     (let current = extract_model_size name
      in case dget MODEL_DEGRADATION_CHAIN current of
           None \<Rightarrow> None
         | Some next \<Rightarrow> Some (sub_bounded current next False name))"

subsection \<open>Matching\<close>

lemma match_model_size_Some:
  "match_model_size name keys = Some k \<Longrightarrow> k \<in> set keys \<and> find_bounded k False (lower name)"
  by (auto simp: match_model_size_def find_Some_iff split: if_splits)

text \<open>A bounded match is an occurrence with no digit on either side, and conversely.\<close>

lemma find_bounded_iff:
  assumes "key \<noteq> []"
  shows "find_bounded key prev s \<longleftrightarrow>
    (\<exists>u v. s = u @ key @ v \<and> \<not> digit_first v \<and>
           (case u of [] \<Rightarrow> \<not> prev | _ \<Rightarrow> \<not> is_digit (last u)))"
proof (induction s arbitrary: prev)
  case Nil
  then show ?case using assms by simp
next
  case (Cons c cs)
  let ?P = "\<lambda>u v prev. \<not> digit_first v \<and> (case u of [] \<Rightarrow> \<not> prev | _ \<Rightarrow> \<not> is_digit (last u))"
  have here: "(\<not> prev \<and> prefix key (c # cs) \<and> \<not> digit_first (drop (length key) (c # cs))) \<longleftrightarrow>
        (\<exists>v. c # cs = key @ v \<and> ?P [] v prev)"
    by (auto simp: prefix_def)
  have later: "(\<exists>u v. cs = u @ key @ v \<and> ?P u v (is_digit c)) \<longleftrightarrow>
        (\<exists>u v. u \<noteq> [] \<and> c # cs = u @ key @ v \<and> ?P u v prev)"
  proof
    assume "\<exists>u v. cs = u @ key @ v \<and> ?P u v (is_digit c)"
    then obtain u v where "cs = u @ key @ v" "?P u v (is_digit c)" by blast
    then have "c # cs = (c # u) @ key @ v \<and> ?P (c # u) v prev"
      by (auto split: list.splits)
    then show "\<exists>u v. u \<noteq> [] \<and> c # cs = u @ key @ v \<and> ?P u v prev" by blast
  next
    assume "\<exists>u v. u \<noteq> [] \<and> c # cs = u @ key @ v \<and> ?P u v prev"
    then obtain d u v where "c # cs = (d # u) @ key @ v" "?P (d # u) v prev"
      by (metis neq_Nil_conv)
    then have "cs = u @ key @ v \<and> ?P u v (is_digit c)"
      by (auto split: list.splits if_splits)
    then show "\<exists>u v. cs = u @ key @ v \<and> ?P u v (is_digit c)" by blast
  qed
  have "find_bounded key prev (c # cs) \<longleftrightarrow>
      (\<exists>v. c # cs = key @ v \<and> ?P [] v prev) \<or> (\<exists>u v. u \<noteq> [] \<and> c # cs = u @ key @ v \<and> ?P u v prev)"
    unfolding find_bounded.simps(2) here Cons.IH later by simp
  also have "\<dots> \<longleftrightarrow> (\<exists>u v. c # cs = u @ key @ v \<and> ?P u v prev)"
  proof -
    have "(\<exists>v. c # cs = key @ v \<and> ?P [] v prev) \<longleftrightarrow> (\<exists>u v. u = [] \<and> c # cs = u @ key @ v \<and> ?P u v prev)"
      by simp
    then show ?thesis by blast
  qed
  finally show ?case .
qed

lemma degradation_chain_ends:
  "dget MODEL_DEGRADATION_CHAIN k = Some k' \<Longrightarrow>
     dget_or MODEL_MEMORY_PROFILE k' 0 < dget_or MODEL_MEMORY_PROFILE k 0"
  by (auto simp: MODEL_DEGRADATION_CHAIN_def MODEL_MEMORY_PROFILE_def dget_or_def split: if_splits)

subsection \<open>Degradation\<close>

text \<open>The size keys: digits and a \<open>b\<close>.\<close>

definition size_key :: "string \<Rightarrow> bool" where
  "size_key k \<longleftrightarrow> (\<exists>ds. ds \<noteq> [] \<and> (\<forall>c \<in> set ds. is_digit c) \<and> k = ds @ ''b'')"

lemma not_digit_b [simp]: "\<not> is_digit CHR ''b''"
  by (simp add: is_digit_def)

lemma size_key_digit_first [simp]: "size_key k \<Longrightarrow> digit_first (k @ x)"
  by (auto simp: size_key_def digit_first_def neq_Nil_conv)

lemma size_key_last [simp]: "size_key k \<Longrightarrow> last k = CHR ''b''" "size_key k \<Longrightarrow> k \<noteq> []"
  by (auto simp: size_key_def)

lemma digits_b_eq:
  "\<forall>c \<in> set ds. is_digit c \<Longrightarrow> \<forall>c \<in> set es. is_digit c \<Longrightarrow> prefix (ds @ ''b'') (es @ CHR ''b'' # x) \<longleftrightarrow> ds = es"
proof (induction ds arbitrary: es)
  case Nil
  then show ?case by (cases es) auto
next
  case (Cons d ds)
  then show ?case by (cases es) auto
qed

lemma size_key_prefix: "size_key k \<Longrightarrow> size_key n \<Longrightarrow> prefix k (n @ x) \<longleftrightarrow> k = n"
  using digits_b_eq by (fastforce simp: size_key_def)

lemma find_bounded_key:
  assumes "size_key k" and "size_key n"
  shows "find_bounded k prev (n @ x) \<longleftrightarrow> (\<not> prev \<and> k = n \<and> \<not> digit_first x) \<or> find_bounded k False x"
proof -
  obtain ds where ds: "n = ds @ ''b''" "ds \<noteq> []" "\<forall>c \<in> set ds. is_digit c" using assms(2) by (auto simp: size_key_def)
  obtain k0 ks where k: "k = k0 # ks" "is_digit k0"
    using assms(1) by (auto simp: size_key_def neq_Nil_conv)
  have run: "find_bounded k True (es @ CHR ''b'' # x) \<longleftrightarrow> find_bounded k False x" if "\<forall>c \<in> set es. is_digit c" for es
    using that k by (induction es) auto
  obtain e es where e: "ds = e # es" using ds(2) by (cases ds) auto
  have "find_bounded k prev (n @ x) \<longleftrightarrow> (\<not> prev \<and> prefix k (n @ x) \<and> \<not> digit_first (drop (length k) (n @ x))) \<or>
      find_bounded k True (es @ CHR ''b'' # x)"
    using ds e by simp
  also have "\<dots> \<longleftrightarrow> (\<not> prev \<and> k = n \<and> \<not> digit_first x) \<or> find_bounded k False x"
    using run [of es] ds e size_key_prefix [OF assms, of x] by auto
  finally show ?thesis .
qed

lemma prefix_run:
  "\<forall>c \<in> set ds. is_digit c \<Longrightarrow> \<forall>c \<in> set es. is_digit c \<Longrightarrow> \<not> is_digit r \<Longrightarrow>
     prefix (ds @ ''b'') (es @ r # x) \<longleftrightarrow> ds = es \<and> r = CHR ''b''"
proof (induction ds arbitrary: es)
  case Nil
  then show ?case by (cases es) auto
next
  case (Cons d ds)
  then show ?case by (cases es) auto
qed

lemma prefix_all_digits:
  "\<forall>c \<in> set es. is_digit c \<Longrightarrow> \<not> prefix (ds @ ''b'') es"
  by (auto simp: prefix_def)

lemma sub_bounded_key:
  assumes "size_key key" and "lower key = key" and "lower (c # cs) = c # cs"
  shows "sub_bounded key new prev (c # cs) =
     (if \<not> prev \<and> prefix key (c # cs) \<and> \<not> digit_first (drop (length key) (c # cs))
      then new @ sub_bounded key new False (drop (length key) (c # cs))
      else c # sub_bounded key new (is_digit c) cs)"
  using assms by simp

lemma lower_Cons: "lower (c # cs) = c # cs \<Longrightarrow> lower cs = cs"
  by (simp add: lower_def)

lemma lower_append: "lower (xs @ ys) = lower xs @ lower ys"
  by (simp add: lower_def)

lemma lower_drop: "lower s = s \<Longrightarrow> lower (drop n s) = drop n s"
  by (metis drop_map lower_def)

lemma prefix_size_key_digit: "size_key k \<Longrightarrow> prefix k s \<Longrightarrow> digit_first s"
  by (auto simp: prefix_def)

lemma digit_first_sub:
  assumes "size_key key" "size_key new" "lower key = key" "lower s = s"
  shows "digit_first (sub_bounded key new prev s) = digit_first s"
proof (cases s)
  case (Cons c cs)
  note unf = sub_bounded_key [OF assms(1,3) assms(4) [unfolded Cons], of new prev]
  show ?thesis
  proof (cases "\<not> prev \<and> prefix key (c # cs) \<and> \<not> digit_first (drop (length key) (c # cs))")
    case True
    then have "digit_first (c # cs)" by (intro prefix_size_key_digit [OF assms(1)]) simp
    then show ?thesis unfolding Cons unf if_P [OF True] using assms(2) by simp
  next
    case False
    show ?thesis unfolding Cons unf if_not_P [OF False] by (simp add: digit_first_def)
  qed
qed simp

lemma copy_run:
  assumes "size_key key" "lower key = key" "\<forall>c \<in> set es. is_digit c" "lower (es @ rest) = es @ rest"
  shows "sub_bounded key new True (es @ rest) = es @ sub_bounded key new True rest"
  using assms(3,4)
proof (induction es)
  case (Cons e es)
  then show ?case
    using sub_bounded_key [OF assms(1,2), of e "es @ rest" new True] lower_Cons [of e "es @ rest"] by simp
qed simp

lemma copied_match:
  assumes k: "size_key k" and key: "size_key key" "size_key new" "lower key = key" "lower (c # cs) = c # cs"
  shows "prefix k (c # sub_bounded key new (is_digit c) cs) \<and>
           \<not> digit_first (drop (length k) (c # sub_bounded key new (is_digit c) cs)) \<longleftrightarrow>
         prefix k (c # cs) \<and> \<not> digit_first (drop (length k) (c # cs))"
proof (cases "is_digit c")
  case False
  then have "\<not> prefix k (c # x)" for x using prefix_size_key_digit [OF k, of "c # x"] by (auto simp: digit_first_def)
  then show ?thesis by simp
next
  case True
  define es where "es = takeWhile is_digit cs"
  define rest where "rest = dropWhile is_digit cs"
  have es: "\<forall>c \<in> set es. is_digit c" "cs = es @ rest"
    by (auto simp: es_def rest_def dest: set_takeWhileD)
  have low: "lower (es @ rest) = es @ rest" using lower_Cons [OF key(4)] es(2) by simp
  have sub: "sub_bounded key new (is_digit c) cs = es @ sub_bounded key new True rest"
    using copy_run [OF key(1,3) es(1) low] True es(2) by simp
  obtain ds where ds: "k = ds @ ''b''" "\<forall>c \<in> set ds. is_digit c" using k by (auto simp: size_key_def)
  show ?thesis
  proof (cases rest)
    case Nil
    then have s: "c # sub_bounded key new (is_digit c) cs = c # es" "c # cs = c # es" using sub es(2) by simp_all
    show ?thesis unfolding s by (rule refl)
  next
    case (Cons r x)
    have r: "\<not> is_digit r" using Cons hd_dropWhile [of is_digit cs] by (auto simp: rest_def)
    have lowr: "lower (r # x) = r # x" using lower_drop [OF low, of "length es"] Cons by simp
    let ?y = "sub_bounded key new False x"
    have "sub_bounded key new True rest = r # ?y"
      using sub_bounded_key [OF key(1,3) lowr, of new True] r Cons by simp
    then have s: "c # sub_bounded key new (is_digit c) cs = (c # es) @ r # ?y" "c # cs = (c # es) @ r # x"
      using sub es(2) Cons by simp_all
    have p: "prefix k ((c # es) @ r # z) \<longleftrightarrow> ds = c # es \<and> r = CHR ''b''" for z
      unfolding ds(1) by (rule prefix_run) (use ds es True r in auto)
    have d: "digit_first ?y = digit_first x" by (rule digit_first_sub [OF key(1,2,3) lower_Cons [OF lowr]])
    show ?thesis unfolding s p using d by (auto simp: ds(1))
  qed
qed

text \<open>What sizes a name carries after a substitution: the new one instead of the old one.\<close>

lemma find_sub_bounded:
  assumes "size_key k" and "size_key key" "size_key new" "lower key = key" and "lower s = s"
  shows "find_bounded k prev (sub_bounded key new prev s) \<longleftrightarrow>
     (k \<noteq> key \<and> find_bounded k prev s) \<or> (k = new \<and> find_bounded key prev s)"
  using assms(5)
proof (induction "length s" arbitrary: s prev rule: less_induct)
  case less
  show ?case
  proof (cases s)
    case (Cons c cs)
    have lcs: "lower cs = cs" using less.prems Cons lower_Cons by simp
    note unf = sub_bounded_key [OF assms(2,4) less.prems [unfolded Cons], of new prev]
    show ?thesis
    proof (cases "\<not> prev \<and> prefix key (c # cs) \<and> \<not> digit_first (drop (length key) (c # cs))")
      case True
      then obtain x where x: "c # cs = key @ x" by (auto simp: prefix_def)
      have nd: "\<not> digit_first x" "\<not> prev" using True x by simp_all
      have lx: "lower x = x" using less.prems Cons x lower_drop [of s "length key"] by simp
      have len: "length x < length s" using x Cons assms(2) size_key_last(2) [OF assms(2)]
        by (metis length_append less_add_same_cancel2 length_greater_0_conv)
      have "sub_bounded key new prev s = new @ sub_bounded key new False x"
        using unf True x Cons by simp
      then have "find_bounded k prev (sub_bounded key new prev s) \<longleftrightarrow>
          (k = new \<and> \<not> digit_first (sub_bounded key new False x)) \<or> find_bounded k False (sub_bounded key new False x)"
        using find_bounded_key [OF assms(1,3)] nd by simp
      also have "\<dots> \<longleftrightarrow> k = new \<or> (k \<noteq> key \<and> find_bounded k False x) \<or> (k = new \<and> find_bounded key False x)"
        using less.hyps [OF len lx] digit_first_sub [OF assms(2,3,4) lx] nd by simp
      also have "\<dots> \<longleftrightarrow> (k \<noteq> key \<and> find_bounded k prev s) \<or> (k = new \<and> find_bounded key prev s)"
        using find_bounded_key [OF assms(1,2), of prev x] find_bounded_key [OF assms(2,2), of prev x] nd x Cons by auto
      finally show ?thesis .
    next
      case False
      have "sub_bounded key new prev s = c # sub_bounded key new (is_digit c) cs"
        unfolding Cons unf if_not_P [OF False] ..
      then have "find_bounded k prev (sub_bounded key new prev s) \<longleftrightarrow>
          (\<not> prev \<and> prefix k (c # cs) \<and> \<not> digit_first (drop (length k) (c # cs))) \<or>
          find_bounded k (is_digit c) (sub_bounded key new (is_digit c) cs)"
        using copied_match [OF assms(1-4) less.prems [unfolded Cons]] by simp
      moreover have "find_bounded k (is_digit c) (sub_bounded key new (is_digit c) cs) \<longleftrightarrow>
          (k \<noteq> key \<and> find_bounded k (is_digit c) cs) \<or> (k = new \<and> find_bounded key (is_digit c) cs)"
        using less.hyps [of cs "is_digit c"] lcs Cons by simp
      ultimately show ?thesis using False Cons by auto
    qed
  qed simp
qed


lemma lower_char_idem [simp]: "lower_char (lower_char c) = lower_char c"
  by (auto simp: lower_char_def)

lemma lower_idem [simp]: "lower (lower s) = lower s"
  by (simp add: lower_def)

lemma is_digit_code: "is_digit c \<longleftrightarrow> 48 \<le> (of_char c :: nat) \<and> (of_char c :: nat) \<le> 57"
proof
  assume "is_digit c"
  then show "48 \<le> (of_char c :: nat) \<and> (of_char c :: nat) \<le> 57" by (auto simp: is_digit_def)
next
  assume a: "48 \<le> (of_char c :: nat) \<and> (of_char c :: nat) \<le> 57"
  obtain n :: nat where n: "c = char_of n" "n = of_char c" by simp
  then have "n = 48 \<or> n = 49 \<or> n = 50 \<or> n = 51 \<or> n = 52 \<or> n = 53 \<or> n = 54 \<or> n = 55 \<or> n = 56 \<or> n = 57"
    using a by arith
  then show "is_digit c" unfolding n(1) by (elim disjE) (simp_all add: is_digit_def char_of_def bit_Suc_0_iff)
qed

lemma is_digit_lower [simp]: "is_digit (lower_char c) = is_digit c"
  by (auto simp: is_digit_code lower_char_def)

lemma digit_first_lower [simp]: "digit_first (lower s) = digit_first s"
  by (cases s) (simp_all add: digit_first_def lower_def)

lemma length_lower [simp]: "length (lower s) = length s"
  by (simp add: lower_def)

lemma lower_sub_bounded:
  assumes "lower key = key" and "lower new = new"
  shows "lower (sub_bounded key new prev s) = sub_bounded key new prev (lower s)"
proof (induction "length s" arbitrary: s prev rule: less_induct)
  case less
  show ?case
  proof (cases s)
    case (Cons c cs)
    let ?m = "key \<noteq> [] \<and> \<not> prev \<and> prefix key (lower (c # cs)) \<and> \<not> digit_first (drop (length key) (c # cs))"
    have d: "lower (drop n (c # cs)) = drop n (lower (c # cs))" for n unfolding lower_def by (rule drop_map [symmetric])
    have l: "lower (c # cs) = lower_char c # lower cs" by (simp add: lower_def)
    have step: "sub_bounded key new prev (c # cs) =
        (if ?m then new @ sub_bounded key new (is_digit (last key)) (drop (length key) (c # cs))
         else c # sub_bounded key new (is_digit c) cs)" using assms(1) by simp
    have dl: "digit_first (drop (length key) (lower_char c # lower cs)) = digit_first (drop (length key) (c # cs))"
      using digit_first_lower [of "drop (length key) (c # cs)"] unfolding d l .
    have step': "sub_bounded key new prev (lower_char c # lower cs) =
        (if ?m then new @ sub_bounded key new (is_digit (last key)) (drop (length key) (lower_char c # lower cs))
         else lower_char c # sub_bounded key new (is_digit c) (lower cs))"
      unfolding sub_bounded.simps dl is_digit_lower using assms(1) l lower_idem [of "c # cs"] by simp
    show ?thesis
    proof (cases ?m)
      case True
      then have "length (drop (length key) (c # cs)) < length s" using Cons by simp
      from less.hyps [OF this, of "is_digit (last key)"]
      have "lower (sub_bounded key new (is_digit (last key)) (drop (length key) (c # cs))) =
          sub_bounded key new (is_digit (last key)) (drop (length key) (lower_char c # lower cs))"
        unfolding d l .
      moreover note step [unfolded if_P [OF True]] step' [unfolded if_P [OF True]]
      ultimately show ?thesis unfolding Cons l by (simp add: lower_append assms(2))
    next
      case False
      have "length cs < length s" using Cons by simp
      moreover note step [unfolded if_not_P [OF False]] step' [unfolded if_not_P [OF False]]
      ultimately show ?thesis using less.hyps [of cs "is_digit c"] unfolding Cons l by (simp add: lower_def)
    qed
  qed (simp add: lower_def)
qed

text \<open>The keys of the tables are size keys, except the half billion.\<close>

lemma size_keys:
  "size_key ''70b''" "size_key ''32b''" "size_key ''13b''" "size_key ''8b''" "size_key ''3b''" "size_key ''1b''"
proof -
  have "size_key (c # ''b'')" if "is_digit c" for c unfolding size_key_def using that by (intro exI [of _ "[c]"]) simp
  moreover have "size_key (c # d # ''b'')" if "is_digit c" "is_digit d" for c d
    unfolding size_key_def using that by (intro exI [of _ "[c, d]"]) simp
  ultimately show "size_key ''70b''" "size_key ''32b''" "size_key ''13b''" "size_key ''8b''" "size_key ''3b''" "size_key ''1b''"
    by (simp_all add: is_digit_def)
qed

lemma lower_keys: "lower ''70b'' = ''70b''" "lower ''32b'' = ''32b''" "lower ''13b'' = ''13b''"
  "lower ''8b'' = ''8b''" "lower ''3b'' = ''3b''" "lower ''1b'' = ''1b''"
  by code_simp+

lemma degraded_sizes:
  assumes "size_key key" "size_key new" "lower key = key" "lower new = new" "size_key k"
  shows "find_bounded k False (lower (sub_bounded key new False name)) \<longleftrightarrow>
     (k \<noteq> key \<and> find_bounded k False (lower name)) \<or> (k = new \<and> find_bounded key False (lower name))"
  unfolding lower_sub_bounded [OF assms(3,4)]
  by (rule find_sub_bounded [OF assms(5,1,2,3) lower_idem])

text \<open>Automatic degradation always makes the task smaller and therefore ends: whatever the name, if
  \<open>degrade_task\<close> finds a size to replace, the new name is matched at exactly the next smaller size of
  the chain and its memory estimate is strictly lower.\<close>

theorem degradation_lowers_memory:
  assumes "degrade_name name = Some name'"
  shows "dget MODEL_DEGRADATION_CHAIN (extract_model_size name) = match_model_size name' (dkeys MODEL_MEMORY_PROFILE) \<and>
         estimate_memory name' < estimate_memory name"
proof -
  define f where "f k = find_bounded k False (lower name)" for k
  define g where "g k = find_bounded k False (lower name')" for k
  obtain nxt where nxt: "dget MODEL_DEGRADATION_CHAIN (extract_model_size name) = Some nxt"
    "name' = sub_bounded (extract_model_size name) nxt False name"
    using assms by (auto simp: degrade_name_def Let_def split: option.splits)
  have ne: "name \<noteq> []" using nxt by (auto simp: extract_model_size_def match_model_size_def lower_def MODEL_DEGRADATION_CHAIN_def)
  have g: "g k = ((k \<noteq> key \<and> f k) \<or> (k = nxt \<and> f key))"
    if "extract_model_size name = key" "size_key key" "size_key nxt" "lower key = key" "lower nxt = nxt" "size_key k" for k key
    using degraded_sizes [OF that(2-6), of name] nxt(2) that(1) by (simp add: f_def g_def)
  have e: "extract_model_size name = (if f ''70b'' then ''70b'' else if f ''32b'' then ''32b'' else if f ''13b'' then ''13b''
      else if f ''8b'' then ''8b'' else if f ''3b'' then ''3b'' else [])"
    using ne by (simp add: extract_model_size_def match_model_size_def MODEL_DEGRADATION_CHAIN_def f_def lower_def)
  have m: "match_model_size nm (dkeys MODEL_MEMORY_PROFILE) = (if lower nm = [] then None else
      if find_bounded ''70b'' False (lower nm) then Some ''70b'' else if find_bounded ''32b'' False (lower nm) then Some ''32b''
      else if find_bounded ''13b'' False (lower nm) then Some ''13b''
      else if find_bounded ''8b'' False (lower nm) then Some ''8b'' else if find_bounded ''3b'' False (lower nm) then Some ''3b''
      else if find_bounded ''1b'' False (lower nm) then Some ''1b''
      else if find_bounded ''0.5b'' False (lower nm) then Some ''0.5b'' else None)" for nm
    by (simp add: match_model_size_def MODEL_MEMORY_PROFILE_def)
  have g0: "lower name' \<noteq> []" if "g k" for k using that by (auto simp: g_def)
  have ne': "name' \<noteq> []" if "g k" for k using g0 [OF that] by (auto simp: lower_def)
  have est: "estimate_memory nm = 2 + dget_or MODEL_MEMORY_PROFILE k 0"
    if "nm \<noteq> []" "match_model_size nm (dkeys MODEL_MEMORY_PROFILE) = Some k" for nm k
    using that by (simp add: estimate_memory_def)
  consider "extract_model_size name = ''70b''" "f ''70b''"
    | "extract_model_size name = ''32b''" "\<not> f ''70b''" "f ''32b''"
    | "extract_model_size name = ''13b''" "\<not> f ''70b''" "\<not> f ''32b''" "f ''13b''"
    | "extract_model_size name = ''8b''" "\<not> f ''70b''" "\<not> f ''32b''" "\<not> f ''13b''" "f ''8b''"
    | "extract_model_size name = ''3b''" "\<not> f ''70b''" "\<not> f ''32b''" "\<not> f ''13b''" "\<not> f ''8b''" "f ''3b''"
    using nxt(1) unfolding e by (auto simp: MODEL_DEGRADATION_CHAIN_def split: if_splits)
  then have res: "match_model_size name (dkeys MODEL_MEMORY_PROFILE) = Some (extract_model_size name) \<and>
      match_model_size name' (dkeys MODEL_MEMORY_PROFILE) = Some nxt \<and> name' \<noteq> []"
  proof cases
    case 1
    then have n: "nxt = ''32b''" using nxt(1) by (simp add: MODEL_DEGRADATION_CHAIN_def)
    note gs = g [OF 1(1), unfolded n, OF size_keys(1) size_keys(2) lower_keys(1) lower_keys(2)]
    have "g ''32b''" using gs [OF size_keys(2)] 1 by simp
    then show ?thesis
      using gs [OF size_keys(1)] gs [OF size_keys(2)] gs [OF size_keys(3)] gs [OF size_keys(4)] gs [OF size_keys(5)]
        1 n ne g0 ne' unfolding m f_def [symmetric] g_def [symmetric] by (simp add: lower_def)
  next
    case 2
    then have n: "nxt = ''13b''" using nxt(1) by (simp add: MODEL_DEGRADATION_CHAIN_def)
    note gs = g [OF 2(1), unfolded n, OF size_keys(2) size_keys(3) lower_keys(2) lower_keys(3)]
    have "g ''13b''" using gs [OF size_keys(3)] 2 by simp
    then show ?thesis
      using gs [OF size_keys(1)] gs [OF size_keys(2)] gs [OF size_keys(3)] gs [OF size_keys(4)] gs [OF size_keys(5)]
        2 n ne g0 ne' unfolding m f_def [symmetric] g_def [symmetric] by (simp add: lower_def)
  next
    case 3
    then have n: "nxt = ''8b''" using nxt(1) by (simp add: MODEL_DEGRADATION_CHAIN_def)
    note gs = g [OF 3(1), unfolded n, OF size_keys(3) size_keys(4) lower_keys(3) lower_keys(4)]
    have "g ''8b''" using gs [OF size_keys(4)] 3 by simp
    then show ?thesis
      using gs [OF size_keys(1)] gs [OF size_keys(2)] gs [OF size_keys(3)] gs [OF size_keys(4)] gs [OF size_keys(5)]
        3 n ne g0 ne' unfolding m f_def [symmetric] g_def [symmetric] by (simp add: lower_def)
  next
    case 4
    then have n: "nxt = ''3b''" using nxt(1) by (simp add: MODEL_DEGRADATION_CHAIN_def)
    note gs = g [OF 4(1), unfolded n, OF size_keys(4) size_keys(5) lower_keys(4) lower_keys(5)]
    have "g ''3b''" using gs [OF size_keys(5)] 4 by simp
    then show ?thesis
      using gs [OF size_keys(1)] gs [OF size_keys(2)] gs [OF size_keys(3)] gs [OF size_keys(4)] gs [OF size_keys(5)]
        4 n ne g0 ne' unfolding m f_def [symmetric] g_def [symmetric] by (simp add: lower_def)
  next
    case 5
    then have n: "nxt = ''1b''" using nxt(1) by (simp add: MODEL_DEGRADATION_CHAIN_def)
    note gs = g [OF 5(1), unfolded n, OF size_keys(5) size_keys(6) lower_keys(5) lower_keys(6)]
    have "g ''1b''" using gs [OF size_keys(6)] 5 by simp
    then show ?thesis
      using gs [OF size_keys(1)] gs [OF size_keys(2)] gs [OF size_keys(3)] gs [OF size_keys(4)] gs [OF size_keys(5)]
        5 n ne g0 ne' unfolding m f_def [symmetric] g_def [symmetric] by (simp add: lower_def)
  qed
  have "dget_or MODEL_MEMORY_PROFILE nxt 0 < dget_or MODEL_MEMORY_PROFILE (extract_model_size name) 0"
    by (rule degradation_chain_ends [OF nxt(1)])
  then show ?thesis using nxt(1) res est ne by simp
qed

lemma degradation_lowers_memory_witness:
  "degrade_name ''Qwen-70B-chat'' = Some ''Qwen-32b-chat'' \<and>
   estimate_memory ''Qwen-32b-chat'' < estimate_memory ''Qwen-70B-chat''"
proof -
  have "degrade_name ''Qwen-70B-chat'' = Some ''Qwen-32b-chat''" by code_simp
  with degradation_lowers_memory [OF this] show ?thesis by simp
qed

end
