(* ===== verification/TaskStore.thy ===== *)
theory TaskStore
  imports NodeRegistry ModelSize
begin

text \<open>
  The tasks domain of \<open>ClusterMaster\<close> (\<open>master/cluster_master.py\<close>): the attributes guarded by
  \<open>_tasks_lock\<close>, the bounded priority queue, the retry list, tenant quotas, events and the task file
  with its recovery.  Task objects live in a store addressed by references, because one object is
  shared between the task table, the queue and the retry list and is mutated through each of them.
  Error texts, Chinese in the source, are replaced by ASCII ones.
\<close>

datatype task_status =
  PENDING | RUNNING | COMPLETED | FAILED | CANCELLED | MIGRATED | TIMEOUT | PARTIAL

record cluster_task =
  tk_id :: string
  tk_name :: string
  tk_mode :: parallel_mode
  tk_model_name :: string
  tk_model_id :: "string option"
  tk_shards :: "json list"
  tk_assigned :: "string list"
  tk_status :: task_status
  tk_created :: time
  tk_started :: time
  tk_completed :: time
  tk_timeout :: time
  tk_error :: string
  tk_user :: string
  tk_capability :: string
  tk_preferred :: string
  tk_exclude :: "string list"
  tk_owner :: string
  tk_pinned :: string
  tk_batch :: string
  tk_tier :: string
  tk_priority :: int
  tk_degraded_from :: string
  tk_degradation_count :: int
  tk_max_degradations :: int
  tk_sub_tasks :: "string list"
  tk_cancel_reason :: string
  tk_type :: string
  tk_params :: "(string, json) dict"
  tk_result :: "(string, json) dict"
  tk_retry_count :: nat
  tk_next_retry_at :: time
  tk_prev_outputs :: "json list"

text \<open>What a subscriber of task events is sent.\<close>

record task_event =
  ev_task_id :: string
  ev_name :: string
  ev_model_name :: string
  ev_status :: task_status
  ev_event :: string
  ev_error :: string
  ev_retry_count :: nat

record tasks =
  td_tasks :: "(string, nat) dict"
  td_obj :: "nat \<Rightarrow> cluster_task"
  td_queue :: "nat list"
  td_retry :: "nat list"
  td_max_retry :: nat
  td_max_pending :: nat
  td_tenant_max :: int
  td_quotas :: "(string, int) dict"
  td_dispatching :: "string list"
  td_events :: "task_event list"
  td_partial_recovery :: bool
  td_file :: "cluster_task list"
  td_file_ok :: bool
  td_last_persist :: time
  td_dirty :: bool
  td_max_completed :: nat

definition RETRY_BACKOFF_BASE_S :: time where "RETRY_BACKOFF_BASE_S = 30"
definition RETRY_BACKOFF_MAX_S :: time where "RETRY_BACKOFF_MAX_S = 600"
definition MAX_RETRY_LOOP_ATTEMPTS :: nat where "MAX_RETRY_LOOP_ATTEMPTS = 10"
definition PERSIST_THROTTLE_S :: time where "PERSIST_THROTTLE_S = 5"

definition tasks_init :: "cluster_task list \<Rightarrow> bool \<Rightarrow> bool \<Rightarrow> tasks" where
  "tasks_init file ok partial =
     \<lparr>td_tasks = [], td_obj = (\<lambda>_. undefined), td_queue = [], td_retry = [], td_max_retry = 1,
      td_max_pending = 1000, td_tenant_max = 4, td_quotas = [], td_dispatching = [], td_events = [],
      td_partial_recovery = partial, td_file = file, td_file_ok = ok, td_last_persist = 0,
      td_dirty = False, td_max_completed = 1000\<rparr>"

definition upd_task :: "nat \<Rightarrow> (cluster_task \<Rightarrow> cluster_task) \<Rightarrow> tasks \<Rightarrow> tasks" where
  "upd_task r f td = td\<lparr>td_obj := (td_obj td)(r := f (td_obj td r))\<rparr>"

definition get_task :: "string \<Rightarrow> tasks \<Rightarrow> cluster_task option" where
  "get_task tid td = map_option (td_obj td) (dget (td_tasks td) tid)"

definition task_list :: "tasks \<Rightarrow> cluster_task list" where
  "task_list td = map (td_obj td) (dvals (td_tasks td))"

definition queue_ids :: "tasks \<Rightarrow> string list" where
  "queue_ids td = map (\<lambda>r. tk_id (td_obj td r)) (td_queue td)"

definition emit_task_event :: "nat \<Rightarrow> string \<Rightarrow> string \<Rightarrow> tasks \<Rightarrow> tasks" where
  "emit_task_event r ev err td =
     (let t = td_obj td r
      in td\<lparr>td_events := td_events td @
              [\<lparr>ev_task_id = tk_id t, ev_name = tk_name t, ev_model_name = tk_model_name t, ev_status = tk_status t, ev_event = ev, ev_error = err,
                ev_retry_count = tk_retry_count t\<rparr>]\<rparr>)"

subsection \<open>The task file\<close>

text \<open>\<open>_task_to_dict\<close> writes every field and the two retry attributes; the outputs kept for the
  completion of a partial task are not among them.\<close>

definition task_to_dict :: "cluster_task \<Rightarrow> cluster_task" where
  "task_to_dict t = t\<lparr>tk_prev_outputs := []\<rparr>"

definition output_node_ids :: "json list \<Rightarrow> string list" where
  "output_node_ids outs =
     remdups (concat (map (\<lambda>o'. case o' of
                JObj d \<Rightarrow> (case map_of d ''node_id'' of Some (JStr s) \<Rightarrow> if s = [] then [] else [s] | _ \<Rightarrow> [])
              | _ \<Rightarrow> []) outs))"

definition result_outputs :: "(string, json) dict \<Rightarrow> json list" where
  "result_outputs d = (case dget d ''outputs'' of Some (JList xs) \<Rightarrow> xs | _ \<Rightarrow> [])"

text \<open>\<open>_task_from_dict\<close>; the flag is the environment switch for partial tasks.\<close>

definition task_from_dict :: "bool \<Rightarrow> cluster_task \<Rightarrow> cluster_task" where
  "task_from_dict partial_recovery d =
     (let was_running = (tk_status d = RUNNING \<or> tk_status d = MIGRATED);
          exclude = (if was_running
                     then extend_new (tk_exclude d) (filter (\<lambda>n. n \<noteq> tk_pinned d) (tk_assigned d))
                     else tk_exclude d);
          t = d\<lparr>tk_status := (if was_running then PENDING else tk_status d),
                tk_exclude := exclude,
                tk_assigned := (if was_running then [] else tk_assigned d),
                tk_started := (if was_running then 0 else tk_started d),
                tk_completed := 0, tk_prev_outputs := []\<rparr>
      in if tk_status d = PARTIAL \<and> partial_recovery
         then (let outs = result_outputs (tk_result d);
                   done = output_node_ids outs;
                   t1 = (if done \<noteq> [] then t\<lparr>tk_exclude := extend_new exclude done, tk_prev_outputs := outs\<rparr>
                         else t)
               in t1\<lparr>tk_status := PENDING, tk_assigned := [], tk_started := 0\<rparr>)
         else t)"

definition persist_terminal :: "bool \<Rightarrow> task_status \<Rightarrow> bool" where
  "persist_terminal partial_recovery st \<longleftrightarrow>
     st \<in> {COMPLETED, FAILED, CANCELLED, TIMEOUT} \<or> (st = PARTIAL \<and> \<not> partial_recovery)"

definition persist_snapshot :: "tasks \<Rightarrow> cluster_task list" where
  "persist_snapshot td =
     map task_to_dict
       (filter (\<lambda>t. \<not> persist_terminal (td_partial_recovery td) (tk_status t)) (task_list td))"

definition write_task_store :: "time \<Rightarrow> cluster_task list \<Rightarrow> tasks \<Rightarrow> tasks" where
  "write_task_store now snap td =
     (if td_file_ok td then td\<lparr>td_file := snap, td_last_persist := now, td_dirty := False\<rparr> else td)"

definition persist_tasks :: "time \<Rightarrow> tasks \<Rightarrow> tasks" where
  "persist_tasks now td = write_task_store now (persist_snapshot td) td"

text \<open>\<open>_restore_tasks\<close> on a new process: every dictionary of the file becomes a new object.\<close>

definition insert_task :: "nat \<Rightarrow> cluster_task \<Rightarrow> tasks \<Rightarrow> tasks" where
  "insert_task r t td =
     td\<lparr>td_obj := (td_obj td)(r := t), td_tasks := dset (td_tasks td) (tk_id t) r\<rparr>"

definition restore_tasks :: "tasks \<Rightarrow> tasks \<times> nat" where
  "restore_tasks td =
     (fold (\<lambda>(r, d). insert_task r (task_from_dict (td_partial_recovery td) d))
        (enumerate 0 (td_file td)) td,
      length (td_file td))"

subsection \<open>The priority queue\<close>

text \<open>The position \<open>_enqueue_pending\<close> finds: before the first task of lower priority.\<close>

fun insert_prio :: "('a \<Rightarrow> int) \<Rightarrow> 'a \<Rightarrow> 'a list \<Rightarrow> 'a list" where
  "insert_prio p x [] = [x]"
| "insert_prio p x (y # ys) = (if p x > p y then x # y # ys else y # insert_prio p x ys)"

definition task_prio :: "tasks \<Rightarrow> nat \<Rightarrow> int" where
  "task_prio td r = tk_priority (td_obj td r)"

definition enqueue_pending :: "bool \<Rightarrow> nat \<Rightarrow> tasks \<Rightarrow> tasks \<times> bool" where
  "enqueue_pending force r td =
     (if \<not> force \<and> length (td_queue td) \<ge> td_max_pending td then (td, False)
      else
        let td1 = upd_task r (\<lambda>t. t\<lparr>tk_status := PENDING, tk_assigned := []\<rparr>) td;
            td2 = td1\<lparr>td_tasks := dset (td_tasks td1) (tk_id (td_obj td1 r)) r\<rparr>
        in (td2\<lparr>td_queue := insert_prio (task_prio td2) r (td_queue td2)\<rparr>, True))"

subsection \<open>Quotas, retries, dispatch\<close>

definition running_count_for_user :: "string \<Rightarrow> tasks \<Rightarrow> nat" where
  "running_count_for_user u td =
     count_if (\<lambda>t. tk_status t = RUNNING \<and> tk_user t = u) (task_list td)"

definition set_tenant_quota :: "string \<Rightarrow> int \<Rightarrow> tasks \<Rightarrow> tasks" where
  "set_tenant_quota tid k td =
     (if k \<le> 0 then td\<lparr>td_quotas := dpop (td_quotas td) tid\<rparr>
      else td\<lparr>td_quotas := dset (td_quotas td) tid k\<rparr>)"

definition tenant_limit_for :: "string \<Rightarrow> tasks \<Rightarrow> int" where
  "tenant_limit_for u td =
     (if u \<noteq> [] \<and> dget (td_quotas td) u \<noteq> None then the (dget (td_quotas td) u) else td_tenant_max td)"

definition configure_scheduling :: "int \<Rightarrow> int option \<Rightarrow> tasks \<Rightarrow> tasks" where
  "configure_scheduling tmax maxq td =
     (let td1 = td\<lparr>td_tenant_max := max 0 tmax\<rparr>
      in case maxq of None \<Rightarrow> td1 | Some q \<Rightarrow> td1\<lparr>td_max_pending := nat (max 0 q)\<rparr>)"

definition retry_backoff :: "nat \<Rightarrow> time" where
  "retry_backoff k = min (RETRY_BACKOFF_BASE_S * 2 ^ (k - 1)) RETRY_BACKOFF_MAX_S"

definition enqueue_retry :: "time \<Rightarrow> nat \<Rightarrow> tasks \<Rightarrow> tasks" where
  "enqueue_retry now r td =
     (let t = td_obj td r
      in if tk_retry_count t \<ge> td_max_retry td then
           emit_task_event r ''failed'' ''retry limit''
             (upd_task r (\<lambda>t. t\<lparr>tk_status := FAILED, tk_error := ''retry limit''\<rparr>) td)
         else
           let excl = extend_new (tk_exclude t) (filter (\<lambda>n. n \<noteq> tk_pinned t) (tk_assigned t));
               td1 = upd_task r (\<lambda>t. t\<lparr>tk_exclude := excl, tk_retry_count := tk_retry_count t + 1,
                                      tk_status := PENDING, tk_assigned := [],
                                      tk_next_retry_at := now + retry_backoff (tk_retry_count t + 1)\<rparr>) td
           in emit_task_event r ''retry'' [] (td1\<lparr>td_retry := td_retry td1 @ [r]\<rparr>))"

definition trigger_dispatch :: "nat \<Rightarrow> tasks \<Rightarrow> tasks" where
  "trigger_dispatch r td =
     (let t = td_obj td r
      in if tk_assigned t = [] then td
         else if tk_id t \<in> set (td_dispatching td) then td
         else td\<lparr>td_dispatching := td_dispatching td @ [tk_id t]\<rparr>)"

definition dispatch_done :: "string \<Rightarrow> tasks \<Rightarrow> tasks" where
  "dispatch_done tid td = td\<lparr>td_dispatching := removeAll tid (td_dispatching td)\<rparr>"

text \<open>\<open>check_timeouts\<close>: only tasks, no node is touched.\<close>

definition check_timeouts :: "time \<Rightarrow> tasks \<Rightarrow> tasks \<times> string list" where
  "check_timeouts now td0 =
     fold (\<lambda>(tid, r) (td, out).
        let t = td_obj td r
        in if tk_status t = RUNNING \<and> tk_started t > 0 \<and> now - tk_started t > tk_timeout t
           then (enqueue_retry now r
                   (upd_task r (\<lambda>t. t\<lparr>tk_status := TIMEOUT, tk_error := ''timeout''\<rparr>) td), out @ [tid])
           else (td, out)) (td_tasks td0) (td0, [])"

definition cleanup_completed_tasks :: "tasks \<Rightarrow> tasks" where
  "cleanup_completed_tasks td =
     (let terminal = map fst (filter (\<lambda>(tid, r). tk_status (td_obj td r)
                        \<in> {COMPLETED, FAILED, TIMEOUT, MIGRATED, PARTIAL}) (td_tasks td));
          rmv = take (length terminal - td_max_completed td) terminal
      in td\<lparr>td_tasks := fold (\<lambda>tid d. dpop d tid) rmv (td_tasks td)\<rparr>)"

definition inflight_count_for_node :: "string \<Rightarrow> tasks \<Rightarrow> nat" where
  "inflight_count_for_node nid td =
     count_if (\<lambda>t. tk_status t = RUNNING \<and> nid \<in> set (tk_assigned t)) (task_list td)"

subsection \<open>Stable priority insertion\<close>

text \<open>
  What the scheduler relies on in its queue: an insertion loses and duplicates nothing, keeps the
  queue sorted by falling priority, and puts a task behind those of its own priority.
\<close>

locale stable_queue =
  fixes ins :: "('a \<Rightarrow> int) \<Rightarrow> 'a \<Rightarrow> 'a list \<Rightarrow> 'a list"
  assumes ins_mset: "mset (ins p x ys) = add_mset x (mset ys)"
    and ins_sorted: "sorted (map (\<lambda>x. - p x) ys) \<Longrightarrow> sorted (map (\<lambda>x. - p x) (ins p x ys))"
    and ins_fifo: "sorted (map (\<lambda>x. - p x) ys) \<Longrightarrow>
      filter (\<lambda>y. p y = k) (ins p x ys) = filter (\<lambda>y. p y = k) ys @ (if p x = k then [x] else [])"
begin

lemma ins_all:
  "sorted (map (\<lambda>x. - p x) ys) \<Longrightarrow>
     mset (fold (ins p) xs ys) = mset ys + mset xs \<and>
     sorted (map (\<lambda>x. - p x) (fold (ins p) xs ys)) \<and>
     filter (\<lambda>y. p y = k) (fold (ins p) xs ys) = filter (\<lambda>y. p y = k) ys @ filter (\<lambda>y. p y = k) xs"
  by (induction xs arbitrary: ys) (simp_all add: ins_mset ins_sorted ins_fifo)

text \<open>Hence a queue filled from empty is the stable sort of the arrivals.\<close>

lemma ins_all_sort: "fold (ins p) xs [] = sort_desc p xs"
proof -
  have a: "mset (fold (ins p) xs []) = mset xs \<and> sorted (map (\<lambda>x. - p x) (fold (ins p) xs [])) \<and>
      filter (\<lambda>y. p y = k) (fold (ins p) xs []) = filter (\<lambda>y. p y = k) xs" for k
    using ins_all [of p "[]" xs k] by simp
  have "sort_key (\<lambda>x. - p x) xs = fold (ins p) xs []"
  proof (rule properties_for_sort_key)
    show "mset (fold (ins p) xs []) = mset xs" using a by blast
    show "sorted (map (\<lambda>x. - p x) (fold (ins p) xs []))" using a by blast
    fix k
    have "(\<lambda>x. - p k = - p x) = (\<lambda>y. p y = p k)" by auto
    then show "filter (\<lambda>x. - p k = - p x) (fold (ins p) xs []) = filter (\<lambda>x. - p k = - p x) xs"
      using a [of "p k"] by simp
  qed
  then show ?thesis by (simp add: sort_desc_def)
qed

end

lemma insert_prio_mset [simp]: "mset (insert_prio p x ys) = add_mset x (mset ys)"
  by (induction ys) auto

lemma insert_prio_set [simp]: "set (insert_prio p x ys) = insert x (set ys)"
  by (induction ys) auto

lemma insert_prio_length [simp]: "length (insert_prio p x ys) = Suc (length ys)"
  by (induction ys) auto

interpretation prio: stable_queue insert_prio
proof unfold_locales
  fix p :: "'a \<Rightarrow> int" and x ys k
  show "mset (insert_prio p x ys) = add_mset x (mset ys)" by simp
  assume s: "sorted (map (\<lambda>x. - p x) ys)"
  then show "sorted (map (\<lambda>x. - p x) (insert_prio p x ys))"
    by (induction ys) fastforce+
  show "filter (\<lambda>y. p y = k) (insert_prio p x ys) =
      filter (\<lambda>y. p y = k) ys @ (if p x = k then [x] else [])"
    using s
  proof (induction ys)
    case (Cons y ys)
    show ?case
    proof (cases "p x > p y")
      case True
      then have "filter (\<lambda>y. p y = k) (y # ys) = []" if "p x = k"
        using Cons.prems that by (fastforce simp: filter_empty_conv)
      with True show ?thesis by simp
    qed (use Cons in simp)
  qed simp
qed

lemma insert_prio_cong: "(\<And>y. y \<in> insert x (set ys) \<Longrightarrow> p y = q y) \<Longrightarrow> insert_prio p x ys = insert_prio q x ys"
  by (induction ys) auto

subsection \<open>Well-formed task tables\<close>

definition tasks_wf :: "tasks \<Rightarrow> bool" where
  "tasks_wf td \<longleftrightarrow>
     dwf (td_tasks td) \<and> (\<forall>k r. dget (td_tasks td) k = Some r \<longrightarrow> tk_id (td_obj td r) = k)"

lemma tasks_wf_init [simp]: "tasks_wf (tasks_init f ok partial)"
  by (simp add: tasks_wf_def tasks_init_def)

lemma tasks_wf_ids: "tasks_wf td \<Longrightarrow> map tk_id (task_list td) = dkeys (td_tasks td)"
  by (auto simp: task_list_def tasks_wf_def dget_dwf_iff)

lemma tasks_wf_distinct: "tasks_wf td \<Longrightarrow> distinct (map tk_id (task_list td))"
  by (simp only: tasks_wf_ids) (simp add: tasks_wf_def dwf_def)

lemma task_list_iff:
  assumes "tasks_wf td"
  shows "t \<in> set (task_list td) \<longleftrightarrow> get_task (tk_id t) td = Some t"
proof
  assume "t \<in> set (task_list td)"
  then obtain k r where "(k, r) \<in> set (td_tasks td)" "t = td_obj td r"
    by (auto simp: task_list_def)
  with assms show "get_task (tk_id t) td = Some t"
    by (auto simp: tasks_wf_def get_task_def dget_dwf_iff)
next
  assume "get_task (tk_id t) td = Some t"
  then obtain r where "dget (td_tasks td) (tk_id t) = Some r" "t = td_obj td r"
    by (auto simp: get_task_def)
  then show "t \<in> set (task_list td)"
    using dget_SomeD by (force simp: task_list_def)
qed

lemma upd_task_sel [simp]:
  "td_obj (upd_task r f td) = (td_obj td)(r := f (td_obj td r))"
  "td_tasks (upd_task r f td) = td_tasks td"
  "td_queue (upd_task r f td) = td_queue td"
  "td_retry (upd_task r f td) = td_retry td"
  "td_max_retry (upd_task r f td) = td_max_retry td"
  "td_max_pending (upd_task r f td) = td_max_pending td"
  "td_tenant_max (upd_task r f td) = td_tenant_max td"
  "td_quotas (upd_task r f td) = td_quotas td"
  "td_dispatching (upd_task r f td) = td_dispatching td"
  "td_events (upd_task r f td) = td_events td"
  "td_file (upd_task r f td) = td_file td"
  "td_partial_recovery (upd_task r f td) = td_partial_recovery td"
  by (simp_all add: upd_task_def)

lemma emit_sel [simp]:
  "td_obj (emit_task_event r ev err td) = td_obj td"
  "td_tasks (emit_task_event r ev err td) = td_tasks td"
  "td_queue (emit_task_event r ev err td) = td_queue td"
  "td_retry (emit_task_event r ev err td) = td_retry td"
  "td_max_retry (emit_task_event r ev err td) = td_max_retry td"
  "td_max_pending (emit_task_event r ev err td) = td_max_pending td"
  "td_tenant_max (emit_task_event r ev err td) = td_tenant_max td"
  "td_quotas (emit_task_event r ev err td) = td_quotas td"
  "td_dispatching (emit_task_event r ev err td) = td_dispatching td"
  by (simp_all add: emit_task_event_def Let_def)

lemma tasks_wf_upd [intro]:
  assumes "tasks_wf td" and "\<And>t. tk_id (f t) = tk_id t"
  shows "tasks_wf (upd_task r f td)"
  using assms by (simp add: tasks_wf_def)

lemma tasks_wf_emit [simp]: "tasks_wf (emit_task_event r ev err td) = tasks_wf td"
  by (simp add: tasks_wf_def)

lemma tasks_wf_cong:
  "td_tasks td' = td_tasks td \<Longrightarrow> td_obj td' = td_obj td \<Longrightarrow> tasks_wf td' = tasks_wf td"
  by (simp add: tasks_wf_def)

subsection \<open>Queue and recovery\<close>

lemma enqueue_pending_sel:
  "snd (enqueue_pending force r td) \<longleftrightarrow> force \<or> length (td_queue td) < td_max_pending td"
  "td_queue (fst (enqueue_pending force r td)) =
     (if force \<or> length (td_queue td) < td_max_pending td
      then insert_prio (task_prio td) r (td_queue td) else td_queue td)"
  "td_obj (fst (enqueue_pending force r td)) =
     (if force \<or> length (td_queue td) < td_max_pending td
      then (td_obj td)(r := (td_obj td r)\<lparr>tk_status := PENDING, tk_assigned := []\<rparr>) else td_obj td)"
  "td_tasks (fst (enqueue_pending force r td)) =
     (if force \<or> length (td_queue td) < td_max_pending td
      then dset (td_tasks td) (tk_id (td_obj td r)) r else td_tasks td)"
  "td_max_pending (fst (enqueue_pending force r td)) = td_max_pending td"
  "task_prio (fst (enqueue_pending force r td)) = task_prio td"
  by (auto simp: enqueue_pending_def Let_def task_prio_def fun_eq_iff intro!: insert_prio_cong)

lemma tasks_wf_enqueue_pending:
  "tasks_wf td \<Longrightarrow> tasks_wf (fst (enqueue_pending force r td))"
  by (auto simp: tasks_wf_def enqueue_pending_sel)

lemma enqueue_all:
  "length (td_queue td) + length rs \<le> td_max_pending td \<Longrightarrow>
     td_queue (fold (\<lambda>r td. fst (enqueue_pending False r td)) rs td) =
       fold (insert_prio (task_prio td)) rs (td_queue td)"
  by (induction rs arbitrary: td) (simp_all add: enqueue_pending_sel)

text \<open>With the limit 0, which \<open>configure_scheduling\<close> documents as no limit, every unforced arrival is refused.\<close>

lemma zero_limit_refuses: "td_max_pending td = 0 \<Longrightarrow> enqueue_pending False r td = (td, False)"
  by (simp add: enqueue_pending_def)

text \<open>C9: With a limit above zero the pending queue is a bounded stable priority queue: tasks that arrive while
  there is room stand in it in exactly the order a stable sort by falling priority gives, and a full queue refuses an
  unforced arrival without changing anything.\<close>

theorem pending_queue_is_stable_sort:
  assumes "0 < td_max_pending td" and "td_queue td = []" and "length rs \<le> td_max_pending td"
  shows "td_queue (fold (\<lambda>r td. fst (enqueue_pending False r td)) rs td) = sort_desc (task_prio td) rs \<and>
         (length rs = td_max_pending td \<longrightarrow>
            (let td' = fold (\<lambda>r td. fst (enqueue_pending False r td)) rs td
             in \<forall>r. enqueue_pending False r td' = (td', False)))"
proof -
  have q: "td_queue (fold (\<lambda>r td. fst (enqueue_pending False r td)) rs td) = sort_desc (task_prio td) rs"
    using enqueue_all [of td rs] assms(2,3) prio.ins_all_sort by simp
  have "td_max_pending (fold (\<lambda>r td. fst (enqueue_pending False r td)) rs td) = td_max_pending td"
    by (induction rs arbitrary: td) (simp_all add: enqueue_pending_sel)
  then show ?thesis
    using q by (simp add: enqueue_pending_def Let_def)
qed

definition demo_task :: "string \<Rightarrow> int \<Rightarrow> cluster_task" where
  "demo_task k p =
     \<lparr>tk_id = k, tk_name = k, tk_mode = DATA, tk_model_name = ''qwen-8b'', tk_model_id = None,
      tk_shards = [], tk_assigned = [], tk_status = PENDING, tk_created = 0, tk_started = 0,
      tk_completed = 0, tk_timeout = 300, tk_error = [], tk_user = ''u'', tk_capability = [],
      tk_preferred = [], tk_exclude = [], tk_owner = [], tk_pinned = [], tk_batch = [],
      tk_tier = ''general'', tk_priority = p, tk_degraded_from = [], tk_degradation_count = 0,
      tk_max_degradations = 2, tk_sub_tasks = [], tk_cancel_reason = [], tk_type = ''inference'',
      tk_params = [], tk_result = [], tk_retry_count = 0, tk_next_retry_at = 0, tk_prev_outputs = []\<rparr>"

definition demo_tasks :: tasks where
  "demo_tasks = (tasks_init [] True False)
     \<lparr>td_obj := (\<lambda>r. demo_task (if r = 0 then ''t0'' else if r = 1 then ''t1'' else ''t2'')
                               (if r = 1 then 5 else 1))\<rparr>"

lemma pending_queue_is_stable_sort_witness:
  "td_queue (fold (\<lambda>r td. fst (enqueue_pending False r td)) [0, 1, 2] demo_tasks) = [1, 0, 2]"
  using pending_queue_is_stable_sort [of demo_tasks "[0, 1, 2]"]
  by (simp add: demo_tasks_def tasks_init_def task_prio_def demo_task_def sort_desc_def)

lemma find_id_None: "k \<notin> tk_id ` set ds \<Longrightarrow> find (\<lambda>d. tk_id d = k) ds = None"
  by (induction ds) auto

lemma insert_task_sel [simp]:
  "td_obj (insert_task r t td) = (td_obj td)(r := t)"
  "td_tasks (insert_task r t td) = dset (td_tasks td) (tk_id t) r"
  by (simp_all add: insert_task_def)

lemma restore_obj:
  assumes "distinct (map tk_id ds)" and that: "\<And>d. tk_id (g d) = tk_id d"
  shows "get_task k (fold (\<lambda>(r, d). insert_task r (g d)) (enumerate n ds) td) =
           (case find (\<lambda>d. tk_id (g d) = k) ds of
              Some d \<Rightarrow> Some (g d)
            | None \<Rightarrow> map_option (td_obj (fold (\<lambda>(r, d). insert_task r (g d)) (enumerate n ds) td))
                        (dget (td_tasks td) k))"
  using assms(1)
proof (induction ds arbitrary: n td)
  case Nil
  then show ?case by (simp add: get_task_def)
next
  case (Cons d ds)
  have notin: "find (\<lambda>d'. tk_id (g d') = tk_id d) ds = None"
    using Cons.prems find_id_None [of "tk_id d" ds] by (simp add: that)
  have keep: "td_obj (fold (\<lambda>(r, d). insert_task r (g d)) (enumerate m es) td') r = td_obj td' r"
    if "r < m" for m es td' and r :: nat
    using that by (induction es arbitrary: m td') auto
  show ?case
    using Cons notin that keep [of n "Suc n" ds "insert_task n (g d) td"]
    by (auto split: option.splits)
qed

lemma task_from_dict_id [simp]: "tk_id (task_from_dict pr d) = tk_id d"
  by (simp add: task_from_dict_def Let_def)

lemma task_to_dict_simps [simp]:
  "tk_id (task_to_dict t) = tk_id t" "tk_status (task_to_dict t) = tk_status t"
  by (simp_all add: task_to_dict_def)

lemma find_snapshot:
  assumes "tasks_wf td"
  shows "find (\<lambda>d. tk_id d = k) (persist_snapshot td) =
           (case get_task k td of
              None \<Rightarrow> None
            | Some t \<Rightarrow> if persist_terminal (td_partial_recovery td) (tk_status t) then None
                        else Some (task_to_dict t))"
proof -
  let ?P = "\<lambda>t. \<not> persist_terminal (td_partial_recovery td) (tk_status t)"
  have one: "find (\<lambda>d. tk_id d = k) (map task_to_dict (filter ?P ts)) =
      (case find (\<lambda>t. tk_id t = k) ts of None \<Rightarrow> None
       | Some t \<Rightarrow> if ?P t then Some (task_to_dict t) else None)"
    if "distinct (map tk_id ts)" for ts
    using that
  proof (induction ts)
    case (Cons t ts)
    have "find (\<lambda>t. tk_id t = k) ts = None" if "tk_id t = k"
      using Cons.prems that find_id_None [of k ts] by auto
    with Cons show ?case by (auto split: option.splits)
  qed simp
  have "find (\<lambda>t. tk_id t = k) (task_list td) = get_task k td"
  proof (cases "get_task k td")
    case None
    then have "find (\<lambda>t. tk_id t = k) (task_list td) = None"
      using task_list_iff [OF assms] by (fastforce simp: find_None_iff)
    with None show ?thesis by simp
  next
    case (Some t)
    have id: "tk_id t = k"
      using Some assms by (auto simp: get_task_def tasks_wf_def)
    then have mem: "t \<in> set (task_list td)" using Some task_list_iff [OF assms] by simp
    obtain t' where f: "find (\<lambda>t. tk_id t = k) (task_list td) = Some t'"
      using mem id by (cases "find (\<lambda>t. tk_id t = k) (task_list td)") (auto simp: find_None_iff)
    then have "t' \<in> set (task_list td)" "tk_id t' = k" by (auto simp: find_Some_iff)
    then have "get_task k td = Some t'" using task_list_iff [OF assms] by auto
    with f Some show ?thesis by simp
  qed
  then show ?thesis
    unfolding persist_snapshot_def one [OF tasks_wf_distinct [OF assms]]
    by (simp split: option.split)
qed

text \<open>C3: Crash recovery: restoring from the task file on a new process brings back exactly the tasks that
  were not finished when the file was written, each once and under its own id; a task that was
  running or migrating comes back pending and unassigned, with the nodes it ran on (except the one
  it is pinned to) excluded, and keeps its retry count, its back-off and its priority.\<close>

theorem crash_recovery:
  assumes "tasks_wf td" and "td_file_ok td"
  shows "(let td' = fst (restore_tasks (tasks_init (td_file (persist_tasks now td)) True (td_partial_recovery td)))
          in get_task k td' =
               (case get_task k td of
                  None \<Rightarrow> None
                | Some t \<Rightarrow>
                    if persist_terminal (td_partial_recovery td) (tk_status t) then None
                    else Some (task_from_dict (td_partial_recovery td) (task_to_dict t))) \<and>
             (\<forall>t. get_task k td = Some t \<and> (tk_status t = RUNNING \<or> tk_status t = MIGRATED) \<longrightarrow>
                (\<exists>t'. get_task k td' = Some t' \<and> tk_status t' = PENDING \<and> tk_assigned t' = [] \<and>
                      tk_started t' = 0 \<and>
                      set (tk_exclude t') = set (tk_exclude t) \<union> (set (tk_assigned t) - {tk_pinned t}) \<and>
                      tk_retry_count t' = tk_retry_count t \<and> tk_next_retry_at t' = tk_next_retry_at t \<and>
                      tk_priority t' = tk_priority t)))"
proof -
  let ?pr = "td_partial_recovery td"
  let ?td' = "fst (restore_tasks (tasks_init (td_file (persist_tasks now td)) True ?pr))"
  have fl: "td_file (persist_tasks now td) = persist_snapshot td"
    using assms(2) by (simp add: persist_tasks_def write_task_store_def)
  have "map tk_id (persist_snapshot td) =
      map tk_id (filter (\<lambda>t. \<not> persist_terminal ?pr (tk_status t)) (task_list td))"
    by (simp add: persist_snapshot_def)
  then have dist: "distinct (map tk_id (persist_snapshot td))"
    using tasks_wf_distinct [OF assms(1)] by (simp add: distinct_map_filter)
  have main: "get_task k ?td' =
       (case get_task k td of None \<Rightarrow> None
        | Some t \<Rightarrow> if persist_terminal ?pr (tk_status t) then None
                    else Some (task_from_dict ?pr (task_to_dict t)))"
    using restore_obj [OF dist, of "task_from_dict ?pr" k 0 "tasks_init (persist_snapshot td) True ?pr"]
    by (simp add: restore_tasks_def fl find_snapshot [OF assms(1)] tasks_init_def split: option.split)
  moreover have "\<exists>t'. get_task k ?td' = Some t' \<and> tk_status t' = PENDING \<and> tk_assigned t' = [] \<and>
        tk_started t' = 0 \<and>
        set (tk_exclude t') = set (tk_exclude t) \<union> (set (tk_assigned t) - {tk_pinned t}) \<and>
        tk_retry_count t' = tk_retry_count t \<and> tk_next_retry_at t' = tk_next_retry_at t \<and>
        tk_priority t' = tk_priority t"
    if "get_task k td = Some t" "tk_status t = RUNNING \<or> tk_status t = MIGRATED" for t
    using that main
    by (auto simp: persist_terminal_def task_from_dict_def task_to_dict_def Let_def)
  ultimately show ?thesis by (simp add: Let_def)
qed

definition demo_running :: tasks where
  "demo_running = insert_task 7 ((demo_task ''t'' 3)\<lparr>tk_status := RUNNING, tk_assigned := [''a'']\<rparr>)
     (tasks_init [] True False)"

lemma crash_recovery_witness:
  "\<exists>t'. get_task ''t'' (fst (restore_tasks (tasks_init (td_file (persist_tasks 9 demo_running)) True False))) = Some t' \<and>
        tk_status t' = PENDING \<and> tk_exclude t' = [''a'']"
proof -
  have wf: "tasks_wf demo_running"
    by (simp add: demo_running_def tasks_wf_def tasks_init_def demo_task_def dwf_def)
  have f: "td_file_ok demo_running" "td_partial_recovery demo_running = False"
    by (simp_all add: demo_running_def insert_task_def tasks_init_def)
  have t: "get_task ''t'' demo_running =
      Some ((demo_task ''t'' 3)\<lparr>tk_status := RUNNING, tk_assigned := [''a'']\<rparr>)"
    by (simp add: demo_running_def insert_task_def tasks_init_def get_task_def demo_task_def)
  show ?thesis
    using crash_recovery [OF wf f(1), of 9 "''t''"]
    by (simp add: Let_def t f(2) persist_terminal_def task_from_dict_def task_to_dict_def
        demo_task_def extend_new_def sadd_def)
qed

end
