(* ===== verification/Scheduling.thy ===== *)
theory Scheduling
  imports TaskStore Election
begin

text \<open>
  Task scheduling in \<open>ClusterMaster\<close> (\<open>master/cluster_master.py\<close>): \<open>assign_task\<close> with its guards, the
  tenant quota, the local-force shortcut, the selection under a strategy and the commit under both
  locks; the drain of the pending queue; completion, cancellation, migration, degradation,
  timeouts and retries.  \<open>assign_task\<close> reads the node table again when it commits, because other
  coroutines may have run since the selection; \<open>commit_assign\<close> is that part on its own, for any
  selection.  The state joins the nodes domain, the tasks domain and the high-availability
  attributes.
\<close>

record ha_state =
  ha_election :: "election option"
  ha_is_leader :: bool
  ha_active_active :: bool
  ha_node_id :: string
  ha_fencing :: int
  ha_last_leader_sync :: time
  ha_sync_interval :: time

record master =
  ms_reg :: registry
  ms_td :: tasks
  ms_ha :: ha_state
  ms_shard_roles :: "string list option"

definition ha_single :: ha_state where
  "ha_single = \<lparr>ha_election = None, ha_is_leader = True, ha_active_active = False, ha_node_id = [],
                ha_fencing = 0, ha_last_leader_sync = 0, ha_sync_interval = 2\<rparr>"

definition the_task :: "nat \<Rightarrow> master \<Rightarrow> cluster_task" where
  "the_task r c = td_obj (ms_td c) r"

definition on_td :: "(tasks \<Rightarrow> tasks) \<Rightarrow> master \<Rightarrow> master" where
  "on_td f c = c\<lparr>ms_td := f (ms_td c)\<rparr>"

definition on_reg :: "(registry \<Rightarrow> registry) \<Rightarrow> master \<Rightarrow> master" where
  "on_reg f c = c\<lparr>ms_reg := f (ms_reg c)\<rparr>"

text \<open>\<open>node.active_tasks += 1\<close> and \<open>node.active_tasks = max(0, node.active_tasks - 1)\<close>.\<close>

definition take_slot :: "string \<Rightarrow> registry \<Rightarrow> registry" where
  "take_slot nid = upd_node nid (\<lambda>n. n\<lparr>active_tasks := active_tasks n + 1\<rparr>)"

definition free_slot :: "string \<Rightarrow> registry \<Rightarrow> registry" where
  "free_slot nid = upd_node nid (\<lambda>n. n\<lparr>active_tasks := max 0 (active_tasks n - 1)\<rparr>)"

definition free_slots :: "string list \<Rightarrow> registry \<Rightarrow> registry" where
  "free_slots nids rg = fold free_slot nids rg"

definition task_need :: "cluster_task \<Rightarrow> nat" where
  "task_need t = (if length (tk_shards t) = 0 then 1 else length (tk_shards t))"

text \<open>\<open>existing and existing.status == RUNNING\<close>.\<close>

definition already_running :: "string \<Rightarrow> master \<Rightarrow> bool" where
  "already_running tid c =
     (case get_task tid (ms_td c) of None \<Rightarrow> False | Some t \<Rightarrow> tk_status t = RUNNING)"

definition enqueue :: "bool \<Rightarrow> nat \<Rightarrow> master \<Rightarrow> master \<times> bool" where
  "enqueue force r c =
     (let (td, ok) = enqueue_pending force r (ms_td c) in (c\<lparr>ms_td := td\<rparr>, ok))"

text \<open>The first guards of \<open>assign_task\<close>: standby, mirror of another owner, election in progress.\<close>

definition assign_refused :: "nat \<Rightarrow> master \<Rightarrow> bool" where
  "assign_refused r c \<longleftrightarrow>
     (let h = ms_ha c; t = the_task r c
      in (ha_election h \<noteq> None \<and> \<not> ha_is_leader h) \<or>
         (ha_active_active h \<and> tk_owner t \<noteq> [] \<and> tk_owner t \<noteq> ha_node_id h) \<or>
         (case ha_election h of Some e \<Rightarrow> \<not> ha_is_leader h \<and> \<not> leader_known e | None \<Rightarrow> False))"

definition mark_running :: "time \<Rightarrow> string list \<Rightarrow> nat \<Rightarrow> tasks \<Rightarrow> tasks" where
  "mark_running now nids r td =
     (let td1 = upd_task r (\<lambda>t. t\<lparr>tk_assigned := nids, tk_status := RUNNING, tk_started := now\<rparr>) td
      in td1\<lparr>td_tasks := dset (td_tasks td1) (tk_id (td_obj td1 r)) r\<rparr>)"

text \<open>The local-force shortcut: \<open>None\<close> when the code falls through to the ordinary path.\<close>

definition local_force :: "time \<Rightarrow> real \<Rightarrow> nat \<Rightarrow> master \<Rightarrow> master option" where
  "local_force now required r c =
     (let t = the_task r c
      in if \<not> is_local_force (tk_model_name t) required then None
         else if tk_preferred t = [] then None
         else case dget (rg_nodes (ms_reg c)) (tk_preferred t) of
             None \<Rightarrow> None
           | Some n \<Rightarrow>
               if \<not> (nd_status n = ONLINE \<and> available_memory_gb n \<ge> required) then None
               else if already_running (tk_id t) c then Some c
               else if active_tasks n \<ge> max_tasks n then None
               else
                 let td1 = mark_running now [tk_preferred t] r (ms_td c);
                     td2 = emit_task_event r ''running'' [] td1
                 in Some (c\<lparr>ms_reg := take_slot (tk_preferred t) (ms_reg c),
                            ms_td := trigger_dispatch r td2\<rparr>))"

definition shard_roles_for :: "cluster_task \<Rightarrow> master \<Rightarrow> string list" where
  "shard_roles_for t c =
     (if tk_mode t = PIPELINE
      then (case ms_shard_roles c of None \<Rightarrow> [] | Some rs \<Rightarrow> if rs = [] then [''heavy''] else rs)
      else [])"

definition task_request :: "real \<Rightarrow> cluster_task \<Rightarrow> master \<Rightarrow> select_request" where
  "task_request required t c =
     \<lparr>sq_mode = tk_mode t, sq_memory = required, sq_count = task_need t,
      sq_capability = tk_capability t, sq_preferred = tk_preferred t, sq_exclude = tk_exclude t,
      sq_tier = tk_tier t, sq_shard_roles = shard_roles_for t c, sq_pinned = tk_pinned t\<rparr>"

text \<open>The selection with the router switched to VRAM-first and back.\<close>

definition select_for :: "time \<Rightarrow> real \<Rightarrow> cluster_task \<Rightarrow> master \<Rightarrow> registry \<times> node_info list" where
  "select_for now required t c =
     (let rg = ms_reg c;
          original = lr_strategy (rg_router rg);
          vram = is_vram_first (tk_model_name t);
          rg1 = (if vram then rg\<lparr>rg_router := set_strategy VRAM_FIRST (rg_router rg)\<rparr> else rg);
          nodes = select_nodes now (task_request required t c) rg1
      in (if vram \<and> lr_strategy (rg_router rg1) \<noteq> original
          then rg1\<lparr>rg_router := set_strategy original (rg_router rg1)\<rparr> else rg1, nodes))"

text \<open>The commit under both locks, for a selection \<open>nodes\<close> that may be out of date.\<close>

definition confirm_nodes :: "node_info list \<Rightarrow> registry \<Rightarrow> node_info list" where
  "confirm_nodes nodes rg =
     concat (map (\<lambda>n. case dget (rg_nodes rg) (nd_id n) of
                        Some m \<Rightarrow> if nd_status m = ONLINE \<and> active_tasks m < max_tasks m then [m] else []
                      | None \<Rightarrow> []) nodes)"

text \<open>The confirmed nodes, and free ones to make up what is missing.\<close>

definition chosen_nodes :: "time \<Rightarrow> real \<Rightarrow> node_info list \<Rightarrow> nat \<Rightarrow> master \<Rightarrow> registry \<times> node_info list" where
  "chosen_nodes now required nodes r c =
     (let t = the_task r c; confirmed = confirm_nodes nodes (ms_reg c); need = task_need t
      in if length confirmed < need
         then (let (rg1, extra) =
                     select_free_nodes now (tk_mode t) required (tk_capability t)
                       (map nd_id confirmed @ tk_exclude t) (need - length confirmed) (ms_reg c)
               in (rg1, confirmed @ extra))
         else (ms_reg c, confirmed))"

definition persist_throttled :: "time \<Rightarrow> cluster_task list \<Rightarrow> tasks \<Rightarrow> tasks" where
  "persist_throttled now snap td =
     (if now - td_last_persist td \<ge> PERSIST_THROTTLE_S then write_task_store now snap td
      else td\<lparr>td_dirty := True\<rparr>)"

definition start_on :: "time \<Rightarrow> string list \<Rightarrow> nat \<Rightarrow> master \<Rightarrow> master" where
  "start_on now ids r c =
     (let td1 = mark_running now ids r (ms_td c);
          td2 = emit_task_event r ''running'' [] td1;
          td3 = persist_throttled now (persist_snapshot td1) td2
      in c\<lparr>ms_reg := fold take_slot ids (ms_reg c), ms_td := trigger_dispatch r td3\<rparr>)"

definition commit_assign :: "time \<Rightarrow> real \<Rightarrow> node_info list \<Rightarrow> nat \<Rightarrow> master \<Rightarrow> master \<times> bool" where
  "commit_assign now required nodes r c =
     (let t = the_task r c
      in if already_running (tk_id t) c then (c, True)
         else if length (confirm_nodes nodes (ms_reg c)) < task_need t \<and> tk_pinned t \<noteq> []
         then enqueue False r c
         else
           let (rg1, chosen) = chosen_nodes now required nodes r c;
               c1 = c\<lparr>ms_reg := rg1\<rparr>
           in if length chosen < task_need t then enqueue False r c1
              else (start_on now (map nd_id chosen) r c1, True))"

definition assign_task :: "time \<Rightarrow> nat \<Rightarrow> master \<Rightarrow> master \<times> bool" where
  "assign_task now r c =
     (let t = the_task r c; td = ms_td c; limit = tenant_limit_for (tk_user t) td
      in if assign_refused r c then (c, False)
         else if already_running (tk_id t) c then (c, True)
         else if limit > 0 \<and> int (running_count_for_user (tk_user t) td) \<ge> limit
         then (if tk_id t \<in> set (queue_ids td) then (c, True) else enqueue False r c)
         else
           let required = estimate_memory (tk_model_name t)
           in case local_force now required r c of
                Some c1 \<Rightarrow> (c1, True)
              | None \<Rightarrow>
                  let (rg1, nodes) = select_for now required t c;
                      c1 = c\<lparr>ms_reg := rg1\<rparr>
                  in if length nodes < task_need t
                     then (if tk_id t \<in> set (queue_ids (ms_td c1)) then (c1, True) else enqueue False r c1)
                     else commit_assign now required nodes r c1)"

text \<open>\<open>_drain_pending_locked\<close>: the queue is emptied first; what cannot be placed goes back.\<close>

definition drain_one :: "time \<Rightarrow> nat \<Rightarrow> master \<Rightarrow> master" where
  "drain_one now r c =
     (let (c1, ok) = assign_task now r c in if ok then c1 else fst (enqueue True r c1))"

definition drain_pending :: "time \<Rightarrow> master \<Rightarrow> master" where
  "drain_pending now c =
     (if td_queue (ms_td c) = [] then c
      else fold (drain_one now) (td_queue (ms_td c)) (on_td (\<lambda>td. td\<lparr>td_queue := []\<rparr>) c))"

definition register_and_drain ::
  "(string \<Rightarrow> bool) \<Rightarrow> time \<Rightarrow> node_info \<Rightarrow> master \<Rightarrow> master \<times> bool" where
  "register_and_drain registerable now info c =
     (let (rg, ok) = register_node registerable now info (ms_reg c); c1 = c\<lparr>ms_reg := rg\<rparr>
      in if ok then (drain_pending now c1, True) else (c1, False))"

subsection \<open>The end of a task\<close>

definition set_task :: "nat \<Rightarrow> (cluster_task \<Rightarrow> cluster_task) \<Rightarrow> master \<Rightarrow> master" where
  "set_task r f = on_td (upd_task r f)"

definition release :: "string list \<Rightarrow> master \<Rightarrow> master" where
  "release nids = on_reg (free_slots nids)"

text \<open>\<open>_finalize_task\<close>: the snapshot it takes is written as the last step.\<close>

definition finalize_task ::
  "time \<Rightarrow> nat \<Rightarrow> bool \<Rightarrow> bool \<Rightarrow> bool \<Rightarrow> string \<Rightarrow> (string, json) dict option \<Rightarrow> master \<Rightarrow> master" where
  "finalize_task now r0 success partial retryable err res c0 =
     (case dget (td_tasks (ms_td c0)) (tk_id (the_task r0 c0)) of
        None \<Rightarrow> c0
      | Some r \<Rightarrow>
          if tk_status (the_task r c0) \<noteq> RUNNING then c0
          else
            let c = release (tk_assigned (the_task r c0)) c0;
                fill = (\<lambda>t. case res of None \<Rightarrow> t | Some d \<Rightarrow> t\<lparr>tk_result := d\<rparr>);
                c1 = (if success then
                        on_td (emit_task_event r ''completed'' [])
                          (set_task r (\<lambda>t. fill (t\<lparr>tk_status := COMPLETED, tk_completed := now, tk_error := []\<rparr>)) c)
                      else if partial then
                        on_td (emit_task_event r ''partial'' err)
                          (set_task r (\<lambda>t. fill (t\<lparr>tk_status := PARTIAL, tk_completed := now, tk_error := err\<rparr>)) c)
                      else if retryable then
                        on_td (enqueue_retry now r) (set_task r (\<lambda>t. t\<lparr>tk_error := err\<rparr>) c)
                      else
                        on_td (emit_task_event r ''failed'' err)
                          (set_task r (\<lambda>t. fill (t\<lparr>tk_status := FAILED, tk_completed := now, tk_error := err\<rparr>)) c))
            in on_td (persist_tasks now) c1)"

definition complete_task :: "time \<Rightarrow> string \<Rightarrow> string \<Rightarrow> master \<Rightarrow> master" where
  "complete_task now tid err c =
     (case dget (td_tasks (ms_td c)) tid of
        None \<Rightarrow> c
      | Some r \<Rightarrow>
          drain_pending now
            (release (tk_assigned (the_task r c))
              (set_task r (\<lambda>t. t\<lparr>tk_status := (if err = [] then COMPLETED else FAILED),
                                 tk_completed := now, tk_error := err\<rparr>) c)))"

subsection \<open>Cancellation\<close>

definition live :: "cluster_task \<Rightarrow> bool" where
  "live t \<longleftrightarrow> tk_status t = PENDING \<or> tk_status t = RUNNING"

definition drop_queued :: "string \<Rightarrow> tasks \<Rightarrow> tasks" where
  "drop_queued tid td = td\<lparr>td_queue := filter (\<lambda>r. tk_id (td_obj td r) \<noteq> tid) (td_queue td)\<rparr>"

definition live_count :: "master \<Rightarrow> nat" where
  "live_count c = count_if live (task_list (ms_td c))"

definition cancel_sub :: "string \<Rightarrow> string \<Rightarrow> nat \<Rightarrow> master \<Rightarrow> master" where
  "cancel_sub parent sub r c =
     on_td (drop_queued sub)
       (set_task r (\<lambda>t. t\<lparr>tk_assigned := [], tk_status := CANCELLED,
                          tk_cancel_reason := ''parent cancelled: '' @ parent,
                          tk_error := ''parent cancelled: '' @ parent\<rparr>)
         (release (tk_assigned (the_task r c)) c))"

lemma release_td [simp]: "ms_td (release nids c) = ms_td c"
  by (simp add: release_def on_reg_def)

lemma count_if_fun_upd_less:
  assumes "r \<in> set rs" and "P (f r)" and "\<not> P x"
  shows "count_if P (map (f(r := x)) rs) < count_if P (map f rs)"
proof -
  have le: "count_if P (map (f(r := x)) xs) \<le> count_if P (map f xs)" for xs
    using assms(3) by (induction xs) auto
  show ?thesis
    using assms(1)
  proof (induction rs)
    case (Cons y ys)
    then show ?case
      using assms(2,3) le [of ys] by (cases "y = r") (auto simp: fun_upd_def)
  qed simp
qed

lemma cancel_sub_live:
  assumes "dget (td_tasks (ms_td c)) sub = Some r" and "live (the_task r c)"
  shows "live_count (cancel_sub p sub r c) < live_count c"
proof -
  let ?f = "\<lambda>t. t\<lparr>tk_assigned := [], tk_status := CANCELLED,
                   tk_cancel_reason := ''parent cancelled: '' @ p,
                   tk_error := ''parent cancelled: '' @ p\<rparr>"
  have dead: "\<not> live (?f t)" for t by (simp add: live_def)
  have "r \<in> set (dvals (td_tasks (ms_td c)))"
    using dget_SomeD [OF assms(1)] by force
  from count_if_fun_upd_less [of r _ live "td_obj (ms_td c)", OF this _ dead] assms(2)
  show ?thesis
    by (simp add: live_count_def cancel_sub_def on_td_def set_task_def drop_queued_def task_list_def
        the_task_def)
qed

text \<open>The stack of sub-task ids, popped from the end; the ids cancelled are collected in order.\<close>

function cancel_subs ::
  "string \<Rightarrow> string list \<Rightarrow> master \<Rightarrow> string list \<Rightarrow> master \<times> string list" where
  "cancel_subs parent stack c out =
     (if stack = [] then (c, out)
      else
        let sub = last stack; rest = butlast stack
        in case dget (td_tasks (ms_td c)) sub of
             None \<Rightarrow> cancel_subs parent rest c out
           | Some r \<Rightarrow>
               if live (the_task r c)
               then cancel_subs parent (rest @ tk_sub_tasks (the_task r c)) (cancel_sub parent sub r c) (out @ [sub])
               else cancel_subs parent rest c out)"
  by pat_completeness auto
termination
  by (relation "(\<lambda>(p, stack, c, out). live_count c) <*mlex*> measure (\<lambda>(p, stack, c, out). length stack)")
     (auto simp: mlex_prod_def wf_mlex intro: cancel_sub_live)

definition cancel_task :: "time \<Rightarrow> string \<Rightarrow> string \<Rightarrow> bool \<Rightarrow> master \<Rightarrow> master \<times> bool" where
  "cancel_task now tid reason subs c0 =
     (case dget (td_tasks (ms_td c0)) tid of
        None \<Rightarrow> (c0, False)
      | Some r \<Rightarrow>
          if \<not> live (the_task r c0) then (c0, False)
          else
            let why = str_or reason ''user cancelled'';
                c1 = on_td (drop_queued tid)
                      (set_task r (\<lambda>t. t\<lparr>tk_cancel_reason := why, tk_assigned := []\<rparr>)
                        (release (tk_assigned (the_task r c0)) c0));
                (c2, out) = (if subs then cancel_subs tid (tk_sub_tasks (the_task r c1)) c1 [] else (c1, []));
                c3 = set_task r (\<lambda>t. t\<lparr>tk_status := CANCELLED, tk_error := tk_cancel_reason t\<rparr>) c2;
                snap = persist_snapshot (ms_td c3);
                c4 = on_td (emit_task_event r ''cancelled'' []) c3;
                c5 = fold (\<lambda>sid c. case dget (td_tasks (ms_td c)) sid of
                                     None \<Rightarrow> c
                                   | Some s \<Rightarrow> on_td (emit_task_event s ''cancelled''
                                                       (tk_cancel_reason (the_task s c))) c) out c4
            in (drain_pending now (on_td (write_task_store now snap) c5), True))"

subsection \<open>Migration, degradation, offline nodes, retries\<close>

definition assign_or_retry :: "time \<Rightarrow> nat \<Rightarrow> master \<Rightarrow> master \<times> bool" where
  "assign_or_retry now r c =
     (let (c1, ok) = assign_task now r c
      in (if ok then c1 else on_td (enqueue_retry now r) c1, ok))"

definition migrate_task :: "time \<Rightarrow> string \<Rightarrow> master \<Rightarrow> master \<times> bool" where
  "migrate_task now tid c =
     (case dget (td_tasks (ms_td c)) tid of
        None \<Rightarrow> (c, False)
      | Some r \<Rightarrow>
          if tk_status (the_task r c) \<noteq> RUNNING then (c, False)
          else
            let nids = tk_assigned (the_task r c);
                c1 = set_task r (\<lambda>t. t\<lparr>tk_exclude := extend_new (tk_exclude t) nids,
                                       tk_assigned := [], tk_status := PENDING\<rparr>) (release nids c)
            in assign_or_retry now r c1)"

definition degrade_task :: "time \<Rightarrow> string \<Rightarrow> master \<Rightarrow> master \<times> bool" where
  "degrade_task now tid c =
     (case dget (td_tasks (ms_td c)) tid of
        None \<Rightarrow> (c, False)
      | Some r \<Rightarrow>
          let t = the_task r c
          in if tk_status t \<notin> {RUNNING, PENDING, FAILED} then (c, False)
             else if tk_degradation_count t \<ge> tk_max_degradations t then (c, False)
             else case degrade_name (tk_model_name t) of
                    None \<Rightarrow> (c, False)
                  | Some name \<Rightarrow>
                      assign_or_retry now r
                        (set_task r (\<lambda>t. t\<lparr>tk_assigned := [], tk_model_name := name,
                              tk_degraded_from := tk_model_name t,
                              tk_degradation_count := tk_degradation_count t + 1,
                              tk_status := PENDING, tk_error := []\<rparr>)
                          (release (tk_assigned t) c)))"

text \<open>\<open>_refresh_node_statuses\<close>: the nodes, then the running tasks of those that went offline.\<close>

definition requeue_offline :: "time \<Rightarrow> string list \<Rightarrow> nat \<Rightarrow> tasks \<Rightarrow> tasks" where
  "requeue_offline now offline r td =
     enqueue_retry now r
       (upd_task r (\<lambda>t. t\<lparr>tk_exclude := extend_new (tk_exclude t)
                             (filter (\<lambda>n. n \<in> set offline) (tk_assigned t)),
                          tk_assigned := [], tk_status := MIGRATED\<rparr>) td)"

definition refresh_node_statuses :: "time \<Rightarrow> master \<Rightarrow> master" where
  "refresh_node_statuses now c =
     (let (rg, offline) = refresh_nodes now (ms_reg c);
          c1 = c\<lparr>ms_reg := rg\<rparr>;
          td = ms_td c1;
          affected = filter (\<lambda>r. tk_status (td_obj td r) = RUNNING \<and>
                                 (\<exists>n \<in> set (tk_assigned (td_obj td r)). n \<in> set offline)) (dvals (td_tasks td))
      in if offline = [] \<or> affected = [] then c1
         else on_td (persist_tasks now) (on_td (fold (requeue_offline now offline) affected) c1))"

text \<open>One round of \<open>_retry_loop\<close>.\<close>

definition retry_one :: "time \<Rightarrow> nat \<Rightarrow> master \<Rightarrow> master" where
  "retry_one now r c =
     (let t = the_task r c
      in if tk_next_retry_at t > now then on_td (\<lambda>td. td\<lparr>td_retry := td_retry td @ [r]\<rparr>) c
         else if tk_retry_count t \<ge> MAX_RETRY_LOOP_ATTEMPTS
         then on_td (emit_task_event r ''failed'' ''retry loop limit'')
                (set_task r (\<lambda>t. t\<lparr>tk_status := FAILED, tk_error := ''retry loop limit''\<rparr>) c)
         else fst (assign_or_retry now r c))"

definition retry_round :: "time \<Rightarrow> master \<Rightarrow> master" where
  "retry_round now c =
     (if td_retry (ms_td c) = [] then c
      else fold (retry_one now) (td_retry (ms_td c)) (on_td (\<lambda>td. td\<lparr>td_retry := []\<rparr>) c))"

text \<open>\<open>drain_status\<close>: draining, in flight, ready, a long task among them.\<close>

definition drain_status :: "time \<Rightarrow> string \<Rightarrow> master \<Rightarrow> (bool \<times> nat \<times> bool \<times> bool) option" where
  "drain_status threshold nid c =
     (case dget (rg_nodes (ms_reg c)) nid of
        None \<Rightarrow> None
      | Some n \<Rightarrow>
          let k = inflight_count_for_node nid (ms_td c);
              long = (\<exists>t \<in> set (task_list (ms_td c)).
                        tk_status t = RUNNING \<and> nid \<in> set (tk_assigned t) \<and> tk_timeout t > threshold)
          in Some (nd_draining n, k, nd_draining n \<and> k = 0, long))"

text \<open>The start of a master on an existing task file: recover, queue what is pending, drain.\<close>

definition start_recovery :: "time \<Rightarrow> master \<Rightarrow> master" where
  "start_recovery now c =
     (let (td, restored) = restore_tasks (ms_td c); c1 = c\<lparr>ms_td := td\<rparr>
      in if restored = 0 then c1
         else drain_pending now
                (fold (\<lambda>r c. if tk_status (the_task r c) = PENDING \<and>
                                tk_id (the_task r c) \<notin> set (queue_ids (ms_td c))
                             then fst (enqueue True r c) else c)
                   (dvals (td_tasks td)) c1))"

end
