(* ===== verification/SlotLedger.thy ===== *)
theory SlotLedger
  imports Scheduling
begin

text \<open>
  Slot accounting of the scheduler (\<open>master/cluster_master.py\<close>): every handler that starts or ends
  a task keeps \<open>active_tasks\<close> of a node equal to the number of running tasks assigned to it, and no
  assignment ever takes a node beyond \<open>max_tasks\<close>.  The handlers that do not, the timeout check and
  the recovery from offline nodes, are shown to leak slots.
\<close>

definition ledger :: "registry \<Rightarrow> tasks \<Rightarrow> bool" where
  "ledger rg td \<longleftrightarrow>
     (\<forall>nid n. dget (rg_nodes rg) nid = Some n \<longrightarrow>
        active_tasks n = int (inflight_count_for_node nid td))"

definition assigned_ok :: "cluster_task \<Rightarrow> bool" where
  "assigned_ok t \<longleftrightarrow>
     distinct (tk_assigned t) \<and> (tk_status t = PENDING \<longrightarrow> tk_assigned t = [])"

definition sched_inv :: "master \<Rightarrow> bool" where
  "sched_inv c \<longleftrightarrow>
     reg_wf (ms_reg c) \<and> tasks_wf (ms_td c) \<and> ledger (ms_reg c) (ms_td c) \<and>
     (\<forall>k t. get_task k (ms_td c) = Some t \<longrightarrow> assigned_ok t)"

lemma sched_inv_cong:
  assumes "rg_nodes (ms_reg c') = rg_nodes (ms_reg c)" and "td_tasks (ms_td c') = td_tasks (ms_td c)"
    and "td_obj (ms_td c') = td_obj (ms_td c)"
  shows "sched_inv c' = sched_inv c"
  using assms
  by (simp add: sched_inv_def reg_wf_def tasks_wf_def ledger_def inflight_count_for_node_def
      task_list_def get_task_def)

subsection \<open>Counting running tasks\<close>

definition runs_on :: "string \<Rightarrow> cluster_task \<Rightarrow> bool" where
  "runs_on nid t \<longleftrightarrow> tk_status t = RUNNING \<and> nid \<in> set (tk_assigned t)"

lemma inflight_runs_on: "inflight_count_for_node nid td = count_if (runs_on nid) (task_list td)"
  by (simp add: inflight_count_for_node_def runs_on_def [abs_def])

lemma count_put:
  assumes "dwf d" and "\<And>k' r'. (k', r') \<in> set d \<Longrightarrow> k' \<noteq> k \<Longrightarrow> r' \<noteq> r"
  shows "count_if P (map (f(r := t)) (dvals (dset d k r))) +
           (case dget d k of None \<Rightarrow> 0 | Some w \<Rightarrow> if P (f w) then 1 else 0) =
         count_if P (map f (dvals d)) + (if P t then 1 else 0)"
  using assms
proof (induction d)
  case Nil
  then show ?case by simp
next
  case (Cons p d)
  obtain k' r' where p: "p = (k', r')" by (cases p)
  have wf: "dwf d" using Cons.prems(1) by (simp add: dwf_def)
  show ?case
  proof (cases "k' = k")
    case True
    have "r'' \<noteq> r" if "r'' \<in> set (dvals d)" for r''
    proof -
      from that obtain k'' where "(k'', r'') \<in> set d" by auto
      moreover from this have "k'' \<noteq> k"
        using Cons.prems(1) True by (force simp: p dwf_def)
      ultimately show ?thesis using Cons.prems(2) [of k'' r''] by simp
    qed
    then have "map (f(r := t)) (dvals d) = map f (dvals d)" by (auto simp: fun_upd_def)
    then have "count_if P (map (f(r := t)) (dvals d)) = count_if P (map f (dvals d))" by (rule arg_cong)
    then show ?thesis using True by (simp add: p fun_upd_def del: map_map)
  next
    case False
    then have "r' \<noteq> r" using Cons.prems(2) [of k' r'] by (simp add: p)
    moreover have "count_if P (map (f(r := t)) (dvals (dset d k r))) +
        (case dget d k of None \<Rightarrow> 0 | Some w \<Rightarrow> if P (f w) then 1 else 0) =
        count_if P (map f (dvals d)) + (if P t then 1 else 0)"
      using Cons.prems(2) by (intro Cons.IH [OF wf]) auto
    ultimately show ?thesis using False by (simp add: p fun_upd_def)
  qed
qed

lemma wf_ref_key:
  assumes "tasks_wf td" and "(k', r) \<in> set (td_tasks td)"
  shows "k' = tk_id (td_obj td r)"
  using assms by (auto simp: tasks_wf_def dget_dwf_iff)

text \<open>Putting object \<open>r\<close>, changed to \<open>t'\<close>, under its own id.\<close>

lemma inflight_put:
  assumes wf: "tasks_wf td" and id: "tk_id t' = tk_id (td_obj td r)"
    and td': "td_obj td' = (td_obj td)(r := t')" "td_tasks td' = dset (td_tasks td) (tk_id t') r"
  shows "inflight_count_for_node nid td' +
           (case get_task (tk_id t') td of None \<Rightarrow> 0 | Some t \<Rightarrow> if runs_on nid t then 1 else 0) =
         inflight_count_for_node nid td + (if runs_on nid t' then 1 else 0)"
proof -
  have "r' \<noteq> r" if "(k', r') \<in> set (td_tasks td)" "k' \<noteq> tk_id t'" for k' r'
    using wf_ref_key [OF wf that(1)] that(2) id by auto
  then have "count_if (runs_on nid) (map ((td_obj td)(r := t')) (dvals (dset (td_tasks td) (tk_id t') r))) +
      (case dget (td_tasks td) (tk_id t') of None \<Rightarrow> 0
       | Some w \<Rightarrow> if runs_on nid (td_obj td w) then 1 else 0) =
      count_if (runs_on nid) (map (td_obj td) (dvals (td_tasks td))) + (if runs_on nid t' then 1 else 0)"
    using wf by (intro count_put) (auto simp: tasks_wf_def)
  then show ?thesis
    by (cases "dget (td_tasks td) (tk_id t')")
       (simp_all add: inflight_runs_on task_list_def td' get_task_def)
qed

lemma tasks_wf_put:
  assumes "tasks_wf td" and "tk_id t' = tk_id (td_obj td r)"
    and "td_obj td' = (td_obj td)(r := t')" "td_tasks td' = dset (td_tasks td) (tk_id t') r"
  shows "tasks_wf td'"
  using assms by (auto simp: tasks_wf_def)

lemma get_task_put:
  assumes "tasks_wf td" and "tk_id t' = tk_id (td_obj td r)"
    and "td_obj td' = (td_obj td)(r := t')" "td_tasks td' = dset (td_tasks td) (tk_id t') r"
  shows "get_task k td' = (if k = tk_id t' then Some t' else get_task k td)"
  using assms by (cases "dget (td_tasks td) k") (auto simp: get_task_def tasks_wf_def)

text \<open>The same for an object that is already in the table: the put changes nothing else.\<close>

lemma put_in_place:
  assumes "tasks_wf td" and "dget (td_tasks td) k = Some r"
  shows "dset (td_tasks td) (tk_id (td_obj td r)) r = td_tasks td"
proof -
  have "tk_id (td_obj td r) = k" using assms by (simp add: tasks_wf_def)
  moreover have "dset d k r = d" if "dget d k = Some r" for d :: "(string, nat) dict"
    using that by (induction d) (auto split: if_splits)
  ultimately show ?thesis using assms(2) by simp
qed

subsection \<open>Taking and freeing slots\<close>

lemma take_slots_nodes:
  assumes "distinct ids"
  shows "dget (rg_nodes (fold take_slot ids rg)) nid =
    map_option (\<lambda>n. if nid \<in> set ids then n\<lparr>active_tasks := active_tasks n + 1\<rparr> else n)
      (dget (rg_nodes rg) nid)"
  using assms
proof (induction ids arbitrary: rg)
  case (Cons i ids)
  then show ?case by (cases "dget (rg_nodes rg) nid") (auto simp: take_slot_def)
qed (simp add: option.map_ident)

lemma free_slots_nodes:
  assumes "distinct ids"
  shows "dget (rg_nodes (free_slots ids rg)) nid =
    map_option (\<lambda>n. if nid \<in> set ids then n\<lparr>active_tasks := max 0 (active_tasks n - 1)\<rparr> else n)
      (dget (rg_nodes rg) nid)"
  using assms unfolding free_slots_def
proof (induction ids arbitrary: rg)
  case (Cons i ids)
  then show ?case by (cases "dget (rg_nodes rg) nid") (auto simp: free_slot_def)
qed (simp add: option.map_ident)

lemma reg_wf_take [intro]: "reg_wf rg \<Longrightarrow> reg_wf (fold take_slot ids rg)"
  by (induction ids arbitrary: rg) (simp_all add: take_slot_def reg_wf_upd_node)

lemma reg_wf_free [intro]: "reg_wf rg \<Longrightarrow> reg_wf (free_slots ids rg)"
  unfolding free_slots_def by (induction ids arbitrary: rg) (simp_all add: free_slot_def reg_wf_upd_node)

subsection \<open>Moves that keep the ledger\<close>

lemma sched_invD:
  assumes "sched_inv c"
  shows "reg_wf (ms_reg c)" "tasks_wf (ms_td c)" "ledger (ms_reg c) (ms_td c)"
    "get_task k (ms_td c) = Some t \<Longrightarrow> assigned_ok t"
  using assms by (auto simp: sched_inv_def)

lemma ledgerD: "ledger rg td \<Longrightarrow> dget (rg_nodes rg) nid = Some n \<Longrightarrow>
    active_tasks n = int (inflight_count_for_node nid td)"
  by (simp add: ledger_def)

text \<open>Starting a task that is not running, on distinct nodes.\<close>

lemma sched_inv_start:
  assumes inv: "sched_inv c" and idle: "\<not> already_running (tk_id (the_task r c)) c"
    and ids: "distinct ids" and st: "tk_id t' = tk_id (the_task r c)" "tk_status t' = RUNNING" "tk_assigned t' = ids"
    and reg: "rg_nodes (ms_reg c') = rg_nodes (fold take_slot ids (ms_reg c))"
    and td: "td_obj (ms_td c') = (td_obj (ms_td c))(r := t')"
      "td_tasks (ms_td c') = dset (td_tasks (ms_td c)) (tk_id t') r"
  shows "sched_inv c'"
proof -
  have id: "tk_id t' = tk_id (td_obj (ms_td c) r)" using st by (simp add: the_task_def)
  note wf = sched_invD(2) [OF inv]
  have old: "(case get_task (tk_id t') (ms_td c) of None \<Rightarrow> 0 | Some t \<Rightarrow> if runs_on nid t then 1 else 0) = (0 :: nat)" for nid
    using idle st(1) by (auto simp: already_running_def runs_on_def split: option.splits)
  have cnt: "inflight_count_for_node nid (ms_td c') =
      inflight_count_for_node nid (ms_td c) + (if nid \<in> set ids then 1 else 0)" for nid
    using inflight_put [OF wf id td, of nid] st old [of nid] by (simp add: runs_on_def)
  have "reg_wf (ms_reg c')"
    using reg_wf_take [OF sched_invD(1) [OF inv], of ids] reg by (simp add: reg_wf_def)
  moreover have "ledger (ms_reg c') (ms_td c')"
    using sched_invD(3) [OF inv] by (auto simp: ledger_def reg take_slots_nodes [OF ids] cnt)
  moreover have "assigned_ok t" if "get_task k (ms_td c') = Some t" for k t
    using that get_task_put [OF wf id td, of k] sched_invD(4) [OF inv] st ids
    by (auto simp: assigned_ok_def split: if_splits)
  ultimately show ?thesis
    using tasks_wf_put [OF wf id td] by (simp add: sched_inv_def)
qed

text \<open>Ending a task, or taking its nodes from it: the slots of its nodes are freed.\<close>

lemma sched_inv_retire:
  assumes inv: "sched_inv c" and r: "dget (td_tasks (ms_td c)) k = Some r"
    and old: "tk_status (the_task r c) = RUNNING \<or> tk_assigned (the_task r c) = []"
    and st: "tk_id t' = tk_id (the_task r c)" "tk_status t' \<noteq> RUNNING \<or> tk_assigned t' = []" "assigned_ok t'"
    and reg: "rg_nodes (ms_reg c') = rg_nodes (free_slots (tk_assigned (the_task r c)) (ms_reg c))"
    and td: "td_obj (ms_td c') = (td_obj (ms_td c))(r := t')" "td_tasks (ms_td c') = td_tasks (ms_td c)"
  shows "sched_inv c'"
proof -
  let ?t = "the_task r c"
  note wf = sched_invD(2) [OF inv]
  have id: "tk_id t' = tk_id (td_obj (ms_td c) r)" using st(1) by (simp add: the_task_def)
  have td2: "td_tasks (ms_td c') = dset (td_tasks (ms_td c)) (tk_id t') r"
    using put_in_place [OF wf r] id td(2) by simp
  have k: "k = tk_id t'" using wf r id by (simp add: tasks_wf_def)
  have get: "get_task (tk_id t') (ms_td c) = Some ?t"
    using r k by (simp add: get_task_def the_task_def)
  have dist: "distinct (tk_assigned ?t)"
    using sched_invD(4) [OF inv get] by (simp add: assigned_ok_def)
  have cnt: "inflight_count_for_node nid (ms_td c') + (if nid \<in> set (tk_assigned ?t) then 1 else 0) =
      inflight_count_for_node nid (ms_td c)" for nid
    using inflight_put [OF wf id td(1) td2, of nid] get old st(2) by (auto simp: runs_on_def)
  have "reg_wf (ms_reg c')"
    using reg_wf_free [OF sched_invD(1) [OF inv], of "tk_assigned ?t"] reg by (simp add: reg_wf_def)
  moreover have "ledger (ms_reg c') (ms_td c')"
    unfolding ledger_def
  proof (intro allI impI)
    fix nid n assume "dget (rg_nodes (ms_reg c')) nid = Some n"
    then obtain m where m: "dget (rg_nodes (ms_reg c)) nid = Some m"
      "n = (if nid \<in> set (tk_assigned ?t) then m\<lparr>active_tasks := max 0 (active_tasks m - 1)\<rparr> else m)"
      by (auto simp: reg free_slots_nodes [OF dist])
    with ledgerD [OF sched_invD(3) [OF inv] m(1)] cnt [of nid]
    show "active_tasks n = int (inflight_count_for_node nid (ms_td c'))"
      by (auto split: if_splits)
  qed
  moreover have "assigned_ok t" if "get_task k' (ms_td c') = Some t" for k' t
    using that get_task_put [OF wf id td(1) td2, of k'] sched_invD(4) [OF inv] st
    by (auto split: if_splits)
  ultimately show ?thesis
    using tasks_wf_put [OF wf id td(1) td2] by (simp add: sched_inv_def)
qed

text \<open>Putting a task that is not running into the table, pending.\<close>

lemma sched_inv_park:
  assumes inv: "sched_inv c" and idle: "\<not> already_running (tk_id (the_task r c)) c"
    and st: "tk_id t' = tk_id (the_task r c)" "tk_status t' \<noteq> RUNNING" "assigned_ok t'"
    and reg: "rg_nodes (ms_reg c') = rg_nodes (ms_reg c)"
    and td: "td_obj (ms_td c') = (td_obj (ms_td c))(r := t')"
      "td_tasks (ms_td c') = dset (td_tasks (ms_td c)) (tk_id t') r"
  shows "sched_inv c'"
proof -
  have id: "tk_id t' = tk_id (td_obj (ms_td c) r)" using st by (simp add: the_task_def)
  note wf = sched_invD(2) [OF inv]
  have old: "(case get_task (tk_id t') (ms_td c) of None \<Rightarrow> 0 | Some t \<Rightarrow> if runs_on nid t then 1 else 0) = (0 :: nat)" for nid
    using idle st(1) by (auto simp: already_running_def runs_on_def split: option.splits)
  have cnt: "inflight_count_for_node nid (ms_td c') = inflight_count_for_node nid (ms_td c)" for nid
    using inflight_put [OF wf id td, of nid] st old [of nid] by (simp add: runs_on_def)
  have "ledger (ms_reg c') (ms_td c')" "reg_wf (ms_reg c')"
    using sched_invD(1,3) [OF inv] by (simp_all add: ledger_def reg_wf_def reg cnt)
  moreover have "assigned_ok t" if "get_task k (ms_td c') = Some t" for k t
    using that get_task_put [OF wf id td, of k] sched_invD(4) [OF inv] st
    by (auto split: if_splits)
  ultimately show ?thesis
    using tasks_wf_put [OF wf id td] by (simp add: sched_inv_def)
qed

subsection \<open>The handlers\<close>

lemma quiet_sel [simp]:
  "td_obj (trigger_dispatch r td) = td_obj td" "td_tasks (trigger_dispatch r td) = td_tasks td"
  "td_obj (write_task_store now snap td) = td_obj td" "td_tasks (write_task_store now snap td) = td_tasks td"
  "td_obj (persist_tasks now td) = td_obj td" "td_tasks (persist_tasks now td) = td_tasks td"
  "td_obj (persist_throttled now snap td) = td_obj td" "td_tasks (persist_throttled now snap td) = td_tasks td"
  "td_obj (drop_queued k td) = td_obj td" "td_tasks (drop_queued k td) = td_tasks td"
  by (simp_all add: trigger_dispatch_def write_task_store_def persist_tasks_def persist_throttled_def
        drop_queued_def Let_def)

lemma mark_running_sel [simp]:
  "td_obj (mark_running now ids r td) =
     (td_obj td)(r := (td_obj td r)\<lparr>tk_assigned := ids, tk_status := RUNNING, tk_started := now\<rparr>)"
  "td_tasks (mark_running now ids r td) = dset (td_tasks td) (tk_id (td_obj td r)) r"
  by (simp_all add: mark_running_def Let_def)

lemma on_td_sel [simp]: "ms_td (on_td f c) = f (ms_td c)" "ms_reg (on_td f c) = ms_reg c" "ms_ha (on_td f c) = ms_ha c"
  by (simp_all add: on_td_def)

lemma set_task_sel [simp]:
  "ms_td (set_task r f c) = upd_task r f (ms_td c)" "ms_reg (set_task r f c) = ms_reg c"
  "the_task k (set_task r f c) = (if k = r then f (the_task r c) else the_task k c)"
  by (simp_all add: set_task_def the_task_def)

lemma release_sel [simp]:
  "ms_reg (release nids c) = free_slots nids (ms_reg c)" "the_task r (release nids c) = the_task r c"
  by (simp_all add: release_def on_reg_def the_task_def)

lemma sched_inv_enqueue:
  assumes "sched_inv c" and "\<not> already_running (tk_id (the_task r c)) c"
  shows "sched_inv (fst (enqueue force r c))"
proof (cases "snd (enqueue force r c)")
  case True
  then have room: "force \<or> length (td_queue (ms_td c)) < td_max_pending (ms_td c)"
    by (simp add: enqueue_def split_beta enqueue_pending_sel)
  show ?thesis
    by (rule sched_inv_park [OF assms, of "(the_task r c)\<lparr>tk_status := PENDING, tk_assigned := []\<rparr>"])
       (use room in \<open>simp_all add: enqueue_def split_beta enqueue_pending_sel the_task_def assigned_ok_def\<close>)
next
  case False
  then have "\<not> force" "td_max_pending (ms_td c) \<le> length (td_queue (ms_td c))"
    by (simp_all add: enqueue_def split_beta enqueue_pending_sel)
  then have "enqueue force r c = (c, False)"
    by (simp add: enqueue_def enqueue_pending_def)
  then show ?thesis using assms(1) by simp
qed

lemma confirm_ids:
  assumes "reg_wf rg"
  shows "map nd_id (confirm_nodes nodes rg) =
    filter (\<lambda>k. case dget (rg_nodes rg) k of
                  Some m \<Rightarrow> nd_status m = ONLINE \<and> active_tasks m < max_tasks m | None \<Rightarrow> False)
      (map nd_id nodes)"
proof (induction nodes)
  case (Cons n nodes)
  show ?case
  proof (cases "dget (rg_nodes rg) (nd_id n)")
    case None
    with Cons show ?thesis by (simp add: confirm_nodes_def)
  next
    case (Some m)
    then have "nd_id m = nd_id n" using assms by (simp add: reg_wf_def)
    with Cons Some show ?thesis by (simp add: confirm_nodes_def)
  qed
qed (simp add: confirm_nodes_def)

lemma confirm_mem:
  assumes "m \<in> set (confirm_nodes nodes rg)"
  shows "\<exists>k. dget (rg_nodes rg) k = Some m \<and> nd_status m = ONLINE \<and> active_tasks m < max_tasks m"
  using assms by (auto simp: confirm_nodes_def split: option.splits if_splits)

lemma chosen_nodes_spec:
  assumes wf: "reg_wf (ms_reg c)" and d: "distinct (map nd_id nodes)"
    and ch: "chosen_nodes now required nodes r c = (rg1, chosen)"
  shows "rg_nodes rg1 = rg_nodes (ms_reg c)" "distinct (map nd_id chosen)"
    "\<And>m. m \<in> set chosen \<Longrightarrow> dget (rg_nodes (ms_reg c)) (nd_id m) = Some m \<and>
       nd_status m = ONLINE \<and> active_tasks m < max_tasks m"
proof -
  let ?t = "the_task r c"
  define cf where "cf = confirm_nodes nodes (ms_reg c)"
  have cfd: "distinct (map nd_id cf)" unfolding cf_def confirm_ids [OF wf] using d by simp
  have cfm: "dget (rg_nodes (ms_reg c)) (nd_id x) = Some x \<and> nd_status x = ONLINE \<and> active_tasks x < max_tasks x"
    if "x \<in> set cf" for x
    using confirm_mem [of x nodes "ms_reg c"] that wf unfolding cf_def reg_wf_def by auto
  have "rg_nodes rg1 = rg_nodes (ms_reg c) \<and> distinct (map nd_id chosen) \<and>
    (\<forall>m \<in> set chosen. dget (rg_nodes (ms_reg c)) (nd_id m) = Some m \<and>
       nd_status m = ONLINE \<and> active_tasks m < max_tasks m)"
  proof (cases "length cf < task_need ?t")
    case False
    then have "rg1 = ms_reg c" "chosen = cf"
      using ch by (auto simp: chosen_nodes_def cf_def)
    then show ?thesis using cfd cfm by blast
  next
    case True
    obtain rg' extra where s: "select_free_nodes now (tk_mode ?t) required (tk_capability ?t)
        (map nd_id cf @ tk_exclude ?t) (task_need ?t - length cf) (ms_reg c) = (rg', extra)"
      by fastforce
    have res: "rg1 = rg'" "chosen = cf @ extra"
      using ch True s unfolding cf_def by (simp_all add: chosen_nodes_def)
    have exm: "dget (rg_nodes (ms_reg c)) (nd_id x) = Some x \<and> nd_status x = ONLINE \<and>
        active_tasks x < max_tasks x \<and> nd_id x \<notin> nd_id ` set cf" if "x \<in> set extra" for x
    proof -
      note f = select_free_nodes_spec(3) [OF s that]
      have "x \<in> set (dvals (rg_nodes (ms_reg c)))" using f by (rule conjunct1)
      then have "dget (rg_nodes (ms_reg c)) (nd_id x) = Some x"
        by (rule reg_wf_vals [OF wf, THEN iffD1])
      moreover have "nd_id x \<notin> set (map nd_id cf @ tk_exclude ?t)"
        by (rule f [THEN conjunct2, THEN conjunct2, THEN conjunct1])
      moreover have "nd_status x = ONLINE" "active_tasks x < max_tasks x"
        by (rule f [THEN conjunct2, THEN conjunct1],
            rule f [THEN conjunct2, THEN conjunct2, THEN conjunct2, THEN conjunct1])
      ultimately show ?thesis by simp
    qed
    then have notin: "nd_id x \<notin> nd_id ` set cf" if "x \<in> set extra" for x
      using that by simp
    have "nd_id ` set cf \<inter> nd_id ` set extra = {}"
      unfolding disjoint_iff using notin by (metis imageE)
    then have "distinct (map nd_id chosen)"
      using res cfd select_free_nodes_spec(4) [OF s wf] by simp
    moreover have "rg_nodes rg1 = rg_nodes (ms_reg c)"
      using res select_free_nodes_spec(1) [OF s] by simp
    moreover have "\<forall>m \<in> set chosen. dget (rg_nodes (ms_reg c)) (nd_id m) = Some m \<and>
       nd_status m = ONLINE \<and> active_tasks m < max_tasks m"
      unfolding res set_append ball_Un using cfm exm by simp
    ultimately show ?thesis by blast
  qed
  then show "rg_nodes rg1 = rg_nodes (ms_reg c)" "distinct (map nd_id chosen)"
    "\<And>m. m \<in> set chosen \<Longrightarrow> dget (rg_nodes (ms_reg c)) (nd_id m) = Some m \<and>
       nd_status m = ONLINE \<and> active_tasks m < max_tasks m" by blast+
qed

lemma sched_inv_reg:
  "rg_nodes rg = rg_nodes (ms_reg c) \<Longrightarrow> sched_inv (c\<lparr>ms_reg := rg\<rparr>) = sched_inv c"
  by (rule sched_inv_cong) simp_all

lemma with_reg_sel [simp]:
  "ms_td (c\<lparr>ms_reg := rg\<rparr>) = ms_td c" "the_task r (c\<lparr>ms_reg := rg\<rparr>) = the_task r c"
  "already_running k (c\<lparr>ms_reg := rg\<rparr>) = already_running k c"
  by (simp_all add: the_task_def already_running_def)

lemma start_on_sel [simp]:
  "td_obj (ms_td (start_on now ids r c)) = (td_obj (ms_td c))(r :=
     (the_task r c)\<lparr>tk_assigned := ids, tk_status := RUNNING, tk_started := now\<rparr>)"
  "td_tasks (ms_td (start_on now ids r c)) = dset (td_tasks (ms_td c)) (tk_id (the_task r c)) r"
  "ms_reg (start_on now ids r c) = fold take_slot ids (ms_reg c)"
  "ms_ha (start_on now ids r c) = ms_ha c"
  by (simp_all add: start_on_def Let_def the_task_def)

lemma sched_inv_start_on:
  assumes "sched_inv c" and "\<not> already_running (tk_id (the_task r c)) c" and "distinct ids"
  shows "sched_inv (start_on now ids r c)"
  by (rule sched_inv_start [OF assms, of "(the_task r c)\<lparr>tk_assigned := ids, tk_status := RUNNING, tk_started := now\<rparr>"])
     simp_all

lemma sched_inv_commit:
  assumes inv: "sched_inv c" and d: "distinct (map nd_id nodes)"
  shows "sched_inv (fst (commit_assign now required nodes r c))"
proof (cases "already_running (tk_id (the_task r c)) c")
  case True
  then show ?thesis using inv by (simp add: commit_assign_def)
next
  case idle: False
  obtain rg1 chosen where ch: "chosen_nodes now required nodes r c = (rg1, chosen)" by fastforce
  note spec = chosen_nodes_spec [OF sched_invD(1) [OF inv] d ch]
  have inv1: "sched_inv (c\<lparr>ms_reg := rg1\<rparr>)" using sched_inv_reg [OF spec(1)] inv by simp
  have "sched_inv (fst (enqueue False r c))" "sched_inv (fst (enqueue False r (c\<lparr>ms_reg := rg1\<rparr>)))"
    "sched_inv (start_on now (map nd_id chosen) r (c\<lparr>ms_reg := rg1\<rparr>))"
    using sched_inv_enqueue inv inv1 idle sched_inv_start_on [OF inv1 _ spec(2)] by simp_all
  then show ?thesis using idle by (simp add: commit_assign_def ch Let_def)
qed

lemma select_for_spec:
  assumes "select_for now required t c = (rg1, nodes)"
  shows "rg_nodes rg1 = rg_nodes (ms_reg c)"
    "reg_wf (ms_reg c) \<Longrightarrow> distinct (map nd_id nodes)"
proof -
  let ?rg = "if is_vram_first (tk_model_name t)
      then (ms_reg c)\<lparr>rg_router := set_strategy VRAM_FIRST (rg_router (ms_reg c))\<rparr> else ms_reg c"
  have n: "nodes = select_nodes now (task_request required t c) ?rg"
    and r: "rg_nodes rg1 = rg_nodes (ms_reg c)"
    using assms by (auto simp: select_for_def Let_def split: if_splits)
  show "rg_nodes rg1 = rg_nodes (ms_reg c)" by (rule r)
  assume "reg_wf (ms_reg c)"
  then have "reg_wf ?rg" by simp
  then show "distinct (map nd_id nodes)" unfolding n by (rule select_nodes_distinct)
qed

lemma local_force_cases:
  assumes "local_force now required r c = Some c'"
  obtains (same) "c' = c"
  | (forced) n where "\<not> already_running (tk_id (the_task r c)) c"
      "dget (rg_nodes (ms_reg c)) (tk_preferred (the_task r c)) = Some n"
      "nd_status n = ONLINE" "active_tasks n < max_tasks n"
      "c' = c\<lparr>ms_reg := take_slot (tk_preferred (the_task r c)) (ms_reg c),
              ms_td := trigger_dispatch r (emit_task_event r ''running'' []
                 (mark_running now [tk_preferred (the_task r c)] r (ms_td c)))\<rparr>"
proof -
  let ?t = "the_task r c"
  obtain n where n: "dget (rg_nodes (ms_reg c)) (tk_preferred ?t) = Some n"
    using assms by (cases "dget (rg_nodes (ms_reg c)) (tk_preferred ?t)")
      (auto simp: local_force_def Let_def split: if_splits)
  show ?thesis
    using assms n that
    by (simp add: local_force_def Let_def not_le split: if_splits)
qed

lemma sched_inv_local_force:
  assumes inv: "sched_inv c" and f: "local_force now required r c = Some c'"
  shows "sched_inv c'"
  using f
proof (cases rule: local_force_cases)
  case same
  then show ?thesis using inv by simp
next
  case (forced n)
  show ?thesis
    by (rule sched_inv_start [OF inv forced(1), of "[tk_preferred (the_task r c)]"
          "(the_task r c)\<lparr>tk_assigned := [tk_preferred (the_task r c)], tk_status := RUNNING, tk_started := now\<rparr>"])
       (simp_all add: forced(5) the_task_def)
qed

lemma sched_inv_assign:
  assumes inv: "sched_inv c"
  shows "sched_inv (fst (assign_task now r c))"
proof -
  let ?t = "the_task r c"
  obtain rg1 nodes where s: "select_for now (estimate_memory (tk_model_name ?t)) ?t c = (rg1, nodes)"
    by fastforce
  note sp = select_for_spec [OF s]
  have inv1: "sched_inv (c\<lparr>ms_reg := rg1\<rparr>)" using sched_inv_reg [OF sp(1)] inv by simp
  have commit: "sched_inv (fst (commit_assign now req nodes r (c\<lparr>ms_reg := rg1\<rparr>)))" for req
    by (rule sched_inv_commit [OF inv1 sp(2) [OF sched_invD(1) [OF inv]]])
  have enq: "sched_inv (fst (enqueue False r c))" "sched_inv (fst (enqueue False r (c\<lparr>ms_reg := rg1\<rparr>)))"
    if "\<not> already_running (tk_id ?t) c"
    using that sched_inv_enqueue inv inv1 by simp_all
  show ?thesis
    using inv inv1 commit enq sched_inv_local_force [OF inv]
    by (simp add: assign_task_def Let_def s split: option.split)
qed

text \<open>A refused or full-queue assignment leaves the task's table entry not running.\<close>

definition serving :: "master \<Rightarrow> bool" where
  "serving c \<longleftrightarrow>
     (ha_election (ms_ha c) = None \<or> ha_is_leader (ms_ha c)) \<and> \<not> ha_active_active (ms_ha c)"

lemma enqueue_false: "snd (enqueue f r c) = False \<Longrightarrow> fst (enqueue f r c) = c"
proof -
  assume "snd (enqueue f r c) = False"
  then have "\<not> f" "td_max_pending (ms_td c) \<le> length (td_queue (ms_td c))"
    by (simp_all add: enqueue_def split_beta enqueue_pending_sel)
  then show ?thesis by (simp add: enqueue_def enqueue_pending_def)
qed

lemma commit_false:
  assumes "snd (commit_assign now req nodes r c) = False"
  shows "\<not> already_running (tk_id (the_task r c)) c \<and> ms_td (fst (commit_assign now req nodes r c)) = ms_td c"
proof -
  obtain rg1 chosen where ch: "chosen_nodes now req nodes r c = (rg1, chosen)" by fastforce
  show ?thesis
    using assms enqueue_false [of False r c] enqueue_false [of False r "c\<lparr>ms_reg := rg1\<rparr>"]
    by (auto simp: commit_assign_def ch Let_def split: if_splits)
qed

lemma assign_false:
  assumes "snd (assign_task now r c) = False" and "serving c"
  shows "\<not> already_running (tk_id (the_task r c)) c \<and> ms_td (fst (assign_task now r c)) = ms_td c"
proof -
  let ?t = "the_task r c"
  obtain rg1 nodes where s: "select_for now (estimate_memory (tk_model_name ?t)) ?t c = (rg1, nodes)"
    by fastforce
  have "\<not> assign_refused r c"
    using assms(2) by (auto simp: serving_def assign_refused_def Let_def split: option.split)
  then show ?thesis
    using assms(1) enqueue_false [of False r c] enqueue_false [of False r "c\<lparr>ms_reg := rg1\<rparr>"]
      commit_false [of now _ nodes r "c\<lparr>ms_reg := rg1\<rparr>"]
    by (auto simp: assign_task_def Let_def s split: if_splits option.splits)
qed

lemma ha_enqueue [simp]: "ms_ha (fst (enqueue f r c)) = ms_ha c"
  by (simp add: enqueue_def split_beta)

lemma ha_assign [simp]: "ms_ha (fst (assign_task now r c)) = ms_ha c"
proof -
  let ?t = "the_task r c"
  obtain rg1 nodes where s: "select_for now (estimate_memory (tk_model_name ?t)) ?t c = (rg1, nodes)"
    by fastforce
  have f: "ms_ha c' = ms_ha c" if "local_force now q r c = Some c'" for q c'
    using that by (cases rule: local_force_cases) auto
  have "ms_ha (fst (commit_assign now q nodes r (c\<lparr>ms_reg := rg1\<rparr>))) = ms_ha c" for q
    by (simp add: commit_assign_def Let_def split_beta)
  then show ?thesis
    using f by (simp add: assign_task_def Let_def s split: option.split)
qed

lemma the_task_cong: "ms_td c = ms_td c' \<Longrightarrow> the_task r c = the_task r c'"
  by (simp add: the_task_def)

lemma already_running_cong: "ms_td c = ms_td c' \<Longrightarrow> already_running k c = already_running k c'"
  by (simp add: already_running_def)

lemma sched_inv_drain_one:
  assumes inv: "sched_inv c" and srv: "serving c"
  shows "sched_inv (drain_one now r c) \<and> serving (drain_one now r c)"
proof -
  let ?c1 = "fst (assign_task now r c)"
  have inv1: "sched_inv ?c1" by (rule sched_inv_assign [OF inv])
  have "serving ?c1" using srv by (simp add: serving_def)
  moreover have "sched_inv (fst (enqueue True r ?c1))" if "snd (assign_task now r c) = False"
    using assign_false [OF that srv] inv1
    by (intro sched_inv_enqueue) (simp_all add: the_task_cong [of ?c1 c] already_running_cong [of ?c1 c])
  moreover have "serving (fst (enqueue True r ?c1))" using srv by (simp add: serving_def)
  ultimately show ?thesis using inv1 by (simp add: drain_one_def split_beta)
qed

lemma sched_inv_queue [simp]: "sched_inv (on_td (\<lambda>td. td\<lparr>td_queue := q\<rparr>) c) = sched_inv c"
  by (rule sched_inv_cong) simp_all

lemma sched_inv_retries [simp]: "sched_inv (on_td (\<lambda>td. td\<lparr>td_retry := q\<rparr>) c) = sched_inv c"
  by (rule sched_inv_cong) simp_all

lemma serving_on_td [simp]: "serving (on_td f c) = serving c"
  by (simp add: serving_def)

lemma sched_inv_drain:
  assumes "sched_inv c" and "serving c"
  shows "sched_inv (drain_pending now c) \<and> serving (drain_pending now c)"
proof -
  have "sched_inv (fold (drain_one now) rs c') \<and> serving (fold (drain_one now) rs c')"
    if "sched_inv c'" "serving c'" for rs c'
    using that by (induction rs arbitrary: c') (simp_all add: sched_inv_drain_one)
  then show ?thesis using assms by (simp add: drain_pending_def)
qed

lemma upd_as_put:
  "td_obj (upd_task r f td) = (td_obj td)(r := f (td_obj td r))" "td_tasks (upd_task r f td) = td_tasks td"
  by simp_all

lemma enqueue_retry_sel:
  "td_tasks (enqueue_retry now r td) = td_tasks td"
  "\<exists>t'. td_obj (enqueue_retry now r td) = (td_obj td)(r := t') \<and> tk_id t' = tk_id (td_obj td r) \<and>
        (tk_status t' = PENDING \<and> tk_assigned t' = [] \<or>
         tk_status t' = FAILED \<and> tk_assigned t' = tk_assigned (td_obj td r))"
  by (auto simp: enqueue_retry_def Let_def intro!: exI)

lemma sched_inv_retry:
  assumes inv: "sched_inv c" and "\<not> already_running (tk_id (the_task r c)) c"
    and "dget (td_tasks (ms_td c)) k = Some r"
  shows "sched_inv (on_td (enqueue_retry now r) c)"
proof -
  let ?t = "the_task r c"
  note wf = sched_invD(2) [OF inv]
  have k: "k = tk_id ?t" using wf assms(3) by (simp add: tasks_wf_def the_task_def)
  then have get: "get_task (tk_id ?t) (ms_td c) = Some ?t"
    using assms(3) by (simp add: get_task_def the_task_def)
  have ok: "assigned_ok ?t" by (rule sched_invD(4) [OF inv get])
  obtain t' where t': "td_obj (enqueue_retry now r (ms_td c)) = (td_obj (ms_td c))(r := t')"
    "tk_id t' = tk_id ?t" "tk_status t' = PENDING \<and> tk_assigned t' = [] \<or>
       tk_status t' = FAILED \<and> tk_assigned t' = tk_assigned ?t"
    using enqueue_retry_sel(2) [of now r "ms_td c"] by (auto simp: the_task_def)
  show ?thesis
    by (rule sched_inv_park [OF inv assms(2), of t'])
       (use t' ok put_in_place [OF wf assms(3)] in
         \<open>auto simp: assigned_ok_def enqueue_retry_sel(1) the_task_def\<close>)
qed

lemma table_task:
  assumes "sched_inv c" and "dget (td_tasks (ms_td c)) k = Some r"
  shows "tk_id (the_task r c) = k" "assigned_ok (the_task r c)"
    "already_running k c \<longleftrightarrow> tk_status (the_task r c) = RUNNING"
  using sched_invD(2) [OF assms(1)] sched_invD(4) [OF assms(1), of k "the_task r c"] assms(2)
  by (auto simp: tasks_wf_def the_task_def get_task_def already_running_def)

text \<open>A running or unassigned task that is released and changed to a state that holds no node.\<close>

lemma sched_inv_end:
  assumes inv: "sched_inv c" and r: "dget (td_tasks (ms_td c)) k = Some r"
    and old: "tk_status (the_task r c) = RUNNING \<or> tk_assigned (the_task r c) = []"
    and f: "tk_id (f (the_task r c)) = tk_id (the_task r c)"
      "tk_status (f (the_task r c)) \<noteq> RUNNING \<or> tk_assigned (f (the_task r c)) = []"
      "assigned_ok (f (the_task r c))"
  shows "sched_inv (set_task r f (release (tk_assigned (the_task r c)) c))"
  by (rule sched_inv_retire [OF inv r old, of "f (the_task r c)"])
     (use f in \<open>simp_all add: the_task_def\<close>)

lemma sched_inv_quiet:
  "td_obj (f (ms_td c)) = td_obj (ms_td c) \<Longrightarrow> td_tasks (f (ms_td c)) = td_tasks (ms_td c) \<Longrightarrow>
     sched_inv (on_td f c) = sched_inv c"
  by (rule sched_inv_cong) simp_all

lemma sched_inv_finalize:
  assumes inv: "sched_inv c"
  shows "sched_inv (finalize_task now r0 success partial retryable err res c)"
proof (cases "dget (td_tasks (ms_td c)) (tk_id (the_task r0 c))")
  case None
  then show ?thesis using inv by (simp add: finalize_task_def)
next
  case (Some r)
  show ?thesis
  proof (cases "tk_status (the_task r c) = RUNNING")
    case False
    then show ?thesis using inv Some by (simp add: finalize_task_def)
  next
    case run: True
    let ?rel = "release (tk_assigned (the_task r c)) c"
    define fill :: "cluster_task \<Rightarrow> cluster_task" where "fill = (\<lambda>t. case res of None \<Rightarrow> t | Some d \<Rightarrow> t\<lparr>tk_result := d\<rparr>)"
    have ok: "assigned_ok (the_task r c)" by (rule table_task(2) [OF inv Some])
    have fill: "tk_id (fill t) = tk_id t" "tk_status (fill t) = tk_status t" "tk_assigned (fill t) = tk_assigned t" for t
      by (simp_all add: fill_def split: option.split)
    have fin: "sched_inv (set_task r (\<lambda>t. fill (t\<lparr>tk_status := st, tk_completed := now, tk_error := e\<rparr>)) ?rel)"
      if "st \<noteq> RUNNING" "st \<noteq> PENDING" for st e
      by (rule sched_inv_end [OF inv Some]) (use run ok that in \<open>simp_all add: fill assigned_ok_def\<close>)
    have ret: "sched_inv (on_td (enqueue_retry now r) (set_task r (\<lambda>t. t\<lparr>tk_error := err\<rparr>) ?rel))"
    proof -
      let ?td = "upd_task r (\<lambda>t. t\<lparr>tk_error := err\<rparr>) (ms_td c)"
      obtain t' where t': "td_obj (enqueue_retry now r ?td) = (td_obj ?td)(r := t')"
        "tk_id t' = tk_id (the_task r c)" "tk_status t' = PENDING \<and> tk_assigned t' = [] \<or>
           tk_status t' = FAILED \<and> tk_assigned t' = tk_assigned (the_task r c)"
        using enqueue_retry_sel(2) [of now r ?td] by (auto simp: the_task_def)
      have run': "tk_status (the_task r c) = RUNNING \<or> tk_assigned (the_task r c) = []" using run by simp
      show ?thesis
        by (rule sched_inv_retire [OF inv Some run', of t'])
           (use t' ok in \<open>auto simp: assigned_ok_def enqueue_retry_sel(1)\<close>)
    qed
    show ?thesis
      using Some run fin ret
      by (simp add: finalize_task_def Let_def fill_def [symmetric] sched_inv_quiet)
  qed
qed

lemma sched_inv_cancel_sub:
  assumes inv: "sched_inv c" and r: "dget (td_tasks (ms_td c)) sub = Some r" and l: "live (the_task r c)"
  shows "sched_inv (cancel_sub p sub r c)"
proof -
  have "tk_status (the_task r c) = RUNNING \<or> tk_assigned (the_task r c) = []"
    using l table_task(2) [OF inv r] by (auto simp: live_def assigned_ok_def)
  then show ?thesis
    unfolding cancel_sub_def
    by (subst sched_inv_quiet) (auto intro!: sched_inv_end [OF inv r] simp: assigned_ok_def)
qed

lemma cancel_sub_tasks [simp]: "td_tasks (ms_td (cancel_sub p sub r c)) = td_tasks (ms_td c)"
  by (simp add: cancel_sub_def)

lemma cancel_sub_ha [simp]: "ms_ha (cancel_sub p sub r c) = ms_ha c"
  by (simp add: cancel_sub_def set_task_def release_def on_reg_def)

declare cancel_subs.simps [simp del]

lemma cancel_subs_inv:
  "sched_inv c \<Longrightarrow> sched_inv (fst (cancel_subs p stack c out)) \<and>
     td_tasks (ms_td (fst (cancel_subs p stack c out))) = td_tasks (ms_td c) \<and>
     ms_ha (fst (cancel_subs p stack c out)) = ms_ha c"
proof (induction p stack c out rule: cancel_subs.induct)
  case (1 parent stack c out)
  show ?case
  proof (cases "stack = []")
    case True
    then show ?thesis using 1(4) by (subst (1 2 3) cancel_subs.simps) simp
  next
    case ne: False
    show ?thesis
    proof (cases "dget (td_tasks (ms_td c)) (last stack)")
      case None
      then show ?thesis
        using 1(1) [OF ne refl refl None] 1(4) ne by (subst (1 2 3) cancel_subs.simps) (simp add: Let_def)
    next
      case (Some r)
      show ?thesis
      proof (cases "live (the_task r c)")
        case True
        then show ?thesis
          using 1(2) [OF ne refl refl Some True] sched_inv_cancel_sub [OF 1(4) Some True] ne Some
          by (subst (1 2 3) cancel_subs.simps) (simp add: Let_def)
      next
        case False
        then show ?thesis
          using 1(3) [OF ne refl refl Some False] 1(4) ne Some
          by (subst (1 2 3) cancel_subs.simps) (simp add: Let_def)
      qed
    qed
  qed
qed

lemma cancel_subs_unassigned:
  "tk_assigned (the_task s c) = [] \<Longrightarrow> tk_assigned (the_task s (fst (cancel_subs p stack c out))) = []"
proof (induction p stack c out rule: cancel_subs.induct)
  case (1 parent stack c out)
  show ?case
  proof (cases "stack = []")
    case True
    then show ?thesis using 1(4) by (simp add: cancel_subs.simps)
  next
    case ne: False
    show ?thesis
    proof (cases "dget (td_tasks (ms_td c)) (last stack)")
      case None
      then show ?thesis
        using 1(1) [OF ne refl refl None] 1(4) ne by (subst cancel_subs.simps) (simp add: Let_def)
    next
      case (Some r)
      have "tk_assigned (the_task s (cancel_sub parent (last stack) r c)) = []"
        using 1(4) by (simp add: cancel_sub_def the_task_def)
      then show ?thesis
        using 1(2,3) [OF ne refl refl Some] 1(4) ne Some by (subst cancel_subs.simps) (simp add: Let_def)
    qed
  qed
qed

lemma serving_ha: "ms_ha c' = ms_ha c \<Longrightarrow> serving c' = serving c"
  by (simp add: serving_def)

lemma ha_set_release [simp]: "ms_ha (set_task r f c) = ms_ha c" "ms_ha (release ids c) = ms_ha c"
  by (simp_all add: set_task_def release_def on_reg_def)

lemma release_nil [simp]: "release [] c = c"
  by (simp add: release_def on_reg_def free_slots_def)

lemma sched_inv_cancel:
  assumes inv: "sched_inv c" and srv: "serving c"
  shows "sched_inv (fst (cancel_task now tid reason subs c)) \<and> serving (fst (cancel_task now tid reason subs c))"
proof (cases "dget (td_tasks (ms_td c)) tid")
  case None
  then show ?thesis using inv srv by (simp add: cancel_task_def)
next
  case (Some r)
  show ?thesis
  proof (cases "live (the_task r c)")
    case False
    then show ?thesis using inv srv Some by (simp add: cancel_task_def)
  next
    case True
    define c1 where "c1 = on_td (drop_queued tid)
      (set_task r (\<lambda>t. t\<lparr>tk_cancel_reason := str_or reason ''user cancelled'', tk_assigned := []\<rparr>)
        (release (tk_assigned (the_task r c)) c))"
    define p where "p = (if subs then cancel_subs tid (tk_sub_tasks (the_task r c1)) c1 [] else (c1, []))"
    define c3 where "c3 = set_task r (\<lambda>t. t\<lparr>tk_status := CANCELLED, tk_error := tk_cancel_reason t\<rparr>) (fst p)"
    define c5 where "c5 = fold (\<lambda>sid c. case dget (td_tasks (ms_td c)) sid of
         None \<Rightarrow> c | Some s \<Rightarrow> on_td (emit_task_event s ''cancelled'' (tk_cancel_reason (the_task s c))) c)
         (snd p) (on_td (emit_task_event r ''cancelled'' []) c3)"
    have def: "fst (cancel_task now tid reason subs c) =
        drain_pending now (on_td (write_task_store now (persist_snapshot (ms_td c3))) c5)"
      using Some True by (simp add: cancel_task_def Let_def split_beta c1_def p_def c3_def c5_def)
    have ok: "assigned_ok (the_task r c)" by (rule table_task(2) [OF inv Some])
    have old: "tk_status (the_task r c) = RUNNING \<or> tk_assigned (the_task r c) = []"
      using True ok by (auto simp: live_def assigned_ok_def)
    have i1: "sched_inv c1"
      unfolding c1_def
      by (subst sched_inv_quiet) (auto intro!: sched_inv_end [OF inv Some old] simp: assigned_ok_def)
    have h1: "ms_ha c1 = ms_ha c" and t1: "td_tasks (ms_td c1) = td_tasks (ms_td c)"
      and a1: "tk_assigned (the_task r c1) = []"
      by (simp_all add: c1_def the_task_def)
    have i2: "sched_inv (fst p)" and h2: "ms_ha (fst p) = ms_ha c"
      and t2: "td_tasks (ms_td (fst p)) = td_tasks (ms_td c)" and a2: "tk_assigned (the_task r (fst p)) = []"
      using cancel_subs_inv [OF i1] i1 h1 t1 a1 cancel_subs_unassigned [OF a1] by (simp_all add: p_def)
    have "sched_inv (set_task r (\<lambda>t. t\<lparr>tk_status := CANCELLED, tk_error := tk_cancel_reason t\<rparr>)
        (release (tk_assigned (the_task r (fst p))) (fst p)))"
      by (rule sched_inv_end [OF i2]) (use Some t2 a2 in \<open>auto simp: assigned_ok_def\<close>)
    then have i3: "sched_inv c3" by (simp add: c3_def a2)
    have emit: "sched_inv (fold (\<lambda>sid c. case dget (td_tasks (ms_td c)) sid of
         None \<Rightarrow> c | Some s \<Rightarrow> on_td (emit_task_event s ''cancelled'' (tk_cancel_reason (the_task s c))) c) ids d)
         = sched_inv d \<and> ms_ha (fold (\<lambda>sid c. case dget (td_tasks (ms_td c)) sid of
         None \<Rightarrow> c | Some s \<Rightarrow> on_td (emit_task_event s ''cancelled'' (tk_cancel_reason (the_task s c))) c) ids d)
         = ms_ha d" for ids d
      by (induction ids arbitrary: d) (simp_all add: sched_inv_quiet split: option.split)
    have i5: "sched_inv c5" "ms_ha c5 = ms_ha c"
      using emit i3 h2 by (simp_all add: c5_def c3_def sched_inv_quiet)
    show ?thesis
      unfolding def
      by (rule sched_inv_drain) (use i5 srv in \<open>simp_all add: sched_inv_quiet serving_def\<close>)
  qed
qed

lemma sched_inv_assign_or_retry:
  assumes inv: "sched_inv c" and srv: "serving c" and r: "dget (td_tasks (ms_td c)) k = Some r"
  shows "sched_inv (fst (assign_or_retry now r c)) \<and> serving (fst (assign_or_retry now r c))"
proof -
  let ?c1 = "fst (assign_task now r c)"
  have inv1: "sched_inv ?c1" by (rule sched_inv_assign [OF inv])
  have "sched_inv (on_td (enqueue_retry now r) ?c1)" if "snd (assign_task now r c) = False"
    by (rule sched_inv_retry [OF inv1, of _ k])
       (use assign_false [OF that srv] r in
         \<open>simp_all add: the_task_cong [of ?c1 c] already_running_cong [of ?c1 c]\<close>)
  then show ?thesis using inv1 srv by (simp add: assign_or_retry_def split_beta serving_def)
qed

lemma sched_inv_migrate:
  assumes inv: "sched_inv c" and srv: "serving c"
  shows "sched_inv (fst (migrate_task now tid c)) \<and> serving (fst (migrate_task now tid c))"
proof (cases "dget (td_tasks (ms_td c)) tid")
  case None
  then show ?thesis using inv srv by (simp add: migrate_task_def)
next
  case (Some r)
  let ?f = "\<lambda>t. t\<lparr>tk_exclude := extend_new (tk_exclude t) (tk_assigned (the_task r c)),
                   tk_assigned := [], tk_status := PENDING\<rparr>"
  have "sched_inv (fst (assign_or_retry now r (set_task r ?f (release (tk_assigned (the_task r c)) c)))) \<and>
    serving (fst (assign_or_retry now r (set_task r ?f (release (tk_assigned (the_task r c)) c))))"
    if "tk_status (the_task r c) = RUNNING"
    by (rule sched_inv_assign_or_retry [of _ tid])
       (use that Some srv in \<open>auto intro!: sched_inv_end [OF inv Some] simp: assigned_ok_def serving_def\<close>)
  then show ?thesis using Some inv srv by (simp add: migrate_task_def Let_def)
qed

end
