(* ===== verification/SlotClaims.thy ===== *)
theory SlotClaims
  imports SlotLedger
begin

text \<open>
  Properties of the scheduler over sequences of its operations (\<open>master/cluster_master.py\<close>): the slot
  ledger, node capacity, the second look of \<open>assign_task\<close> at the nodes it selected, the drain of the
  pending queue, and the operations that leave the ledger or the exclusion list behind.
\<close>

subsection \<open>Sequences of operations\<close>

datatype sched_event =
  Submit time nat
| Finish time nat bool bool bool string "(string, json) dict option"
| Cancel time string string bool
| Migrate time string
| Drain time

definition sched_step :: "sched_event \<Rightarrow> master \<Rightarrow> master" where
  "sched_step ev c =
     (case ev of
        Submit now r \<Rightarrow> fst (assign_task now r c)
      | Finish now r success partial retryable err res \<Rightarrow> finalize_task now r success partial retryable err res c
      | Cancel now tid reason subs \<Rightarrow> fst (cancel_task now tid reason subs c)
      | Migrate now tid \<Rightarrow> fst (migrate_task now tid c)
      | Drain now \<Rightarrow> drain_pending now c)"

lemma ha_finalize [simp]: "ms_ha (finalize_task now r s p q e res c) = ms_ha c"
  by (simp add: finalize_task_def Let_def split: option.split)

lemma sched_inv_step:
  "sched_inv c \<Longrightarrow> serving c \<Longrightarrow> sched_inv (sched_step ev c) \<and> serving (sched_step ev c)"
  using serving_ha [of "fst (assign_task now r c)" c for now r, OF ha_assign]
    serving_ha [of "finalize_task now r s p q e res c" c for now r s p q e res, OF ha_finalize]
  by (cases ev)
     (simp_all add: sched_step_def sched_inv_assign sched_inv_finalize sched_inv_cancel sched_inv_migrate
        sched_inv_drain)

lemma sched_inv_run:
  "sched_inv c \<Longrightarrow> serving c \<Longrightarrow> sched_inv (fold sched_step evs c) \<and> serving (fold sched_step evs c)"
  by (induction evs arbitrary: c) (simp_all add: sched_inv_step)


definition slot_node :: "string \<Rightarrow> node_info" where
  "slot_node k = (demo_info k)\<lparr>nd_status := ONLINE, nd_last_heartbeat := 100\<rparr>"

definition demo_master :: "(nat \<Rightarrow> cluster_task) \<Rightarrow> master" where
  "demo_master obj =
     \<lparr>ms_reg = (registry_init 15)\<lparr>rg_nodes := [(''a'', slot_node ''a''), (''b'', slot_node ''b'')]\<rparr>,
      ms_td = (tasks_init [] True True)\<lparr>td_obj := obj\<rparr>,
      ms_ha = ha_single, ms_shard_roles = None\<rparr>"

lemma demo_master_ok: "sched_inv (demo_master obj)" "serving (demo_master obj)"
  by (auto simp: sched_inv_def demo_master_def reg_wf_def tasks_wf_def ledger_def get_task_def
      inflight_count_for_node_def task_list_def tasks_init_def slot_node_def demo_info_def
      serving_def ha_single_def dwf_def registry_init_def split: if_splits)


subsection \<open>Capacity\<close>

definition cap_ok :: "registry \<Rightarrow> bool" where
  "cap_ok rg \<longleftrightarrow> (\<forall>nid n. dget (rg_nodes rg) nid = Some n \<longrightarrow> 0 \<le> max_tasks n \<and> active_tasks n \<le> max_tasks n)"

lemma cap_ok_cong: "cap_ok rg \<Longrightarrow> rg_nodes rg' = rg_nodes rg \<Longrightarrow> cap_ok rg'"
  by (simp add: cap_ok_def)

lemma cap_ok_free: "cap_ok rg \<Longrightarrow> cap_ok (free_slots ids rg)"
proof (induction ids arbitrary: rg)
  case (Cons k ids)
  have "cap_ok (free_slot k rg)"
    unfolding cap_ok_def
  proof (intro allI impI)
    fix nid n assume "dget (rg_nodes (free_slot k rg)) nid = Some n"
    then obtain m where "dget (rg_nodes rg) nid = Some m" "max_tasks n = max_tasks m"
      "active_tasks n = active_tasks m \<or> active_tasks n = max 0 (active_tasks m - 1)"
      using free_slots_nodes [of "[k]" rg nid] by (cases "dget (rg_nodes rg) nid") (auto simp: free_slots_def)
    moreover from this have "0 \<le> max_tasks m" "active_tasks m \<le> max_tasks m"
      using Cons.prems by (simp_all add: cap_ok_def)
    ultimately show "0 \<le> max_tasks n \<and> active_tasks n \<le> max_tasks n" by auto
  qed
  from Cons.IH [OF this] show ?case by (simp add: free_slots_def)
qed (simp add: free_slots_def)

lemma cap_ok_take:
  assumes "cap_ok rg" and "distinct ids"
    and "\<And>k. k \<in> set ids \<Longrightarrow> \<exists>m. dget (rg_nodes rg) k = Some m \<and> active_tasks m < max_tasks m"
  shows "cap_ok (fold take_slot ids rg)"
  unfolding cap_ok_def
proof (intro allI impI)
  fix nid n assume "dget (rg_nodes (fold take_slot ids rg)) nid = Some n"
  then obtain m where m: "dget (rg_nodes rg) nid = Some m"
    "n = (if nid \<in> set ids then m\<lparr>active_tasks := active_tasks m + 1\<rparr> else m)"
    by (auto simp: take_slots_nodes [OF assms(2)])
  have "0 \<le> max_tasks m \<and> active_tasks m \<le> max_tasks m" using assms(1) m(1) by (simp add: cap_ok_def)
  moreover have "active_tasks m < max_tasks m" if "nid \<in> set ids" using assms(3) [OF that] m(1) by auto
  ultimately show "0 \<le> max_tasks n \<and> active_tasks n \<le> max_tasks n" using m(2) by auto
qed

text \<open>A well-formed node table within capacity.\<close>

definition room :: "registry \<Rightarrow> bool" where
  "room rg \<longleftrightarrow> reg_wf rg \<and> cap_ok rg"

lemma room_cong: "room rg \<Longrightarrow> rg_nodes rg' = rg_nodes rg \<Longrightarrow> room rg'"
  by (simp add: room_def cap_ok_def reg_wf_def)

lemma room_free: "room rg \<Longrightarrow> room (free_slots ids rg)"
  by (auto simp: room_def cap_ok_free)

lemma reg_enqueue [simp]: "ms_reg (fst (enqueue f r c)) = ms_reg c"
  by (simp add: enqueue_def split_beta)

lemma room_commit:
  assumes rm: "room (ms_reg c)" and d: "distinct (map nd_id nodes)"
  shows "room (ms_reg (fst (commit_assign now required nodes r c)))"
proof -
  obtain rg1 chosen where ch: "chosen_nodes now required nodes r c = (rg1, chosen)" by fastforce
  have wf: "reg_wf (ms_reg c)" using rm by (simp add: room_def)
  note spec = chosen_nodes_spec [OF wf d ch]
  have rm1: "room rg1" by (rule room_cong [OF rm spec(1)])
  have "cap_ok (fold take_slot (map nd_id chosen) rg1)"
    by (rule cap_ok_take [OF _ spec(2)]) (use spec(1,3) rm1 in \<open>auto simp: room_def\<close>)
  then show ?thesis
    using rm rm1 by (auto simp: room_def commit_assign_def ch Let_def)
qed

lemma room_assign:
  assumes rm: "room (ms_reg c)"
  shows "room (ms_reg (fst (assign_task now r c)))"
proof -
  let ?t = "the_task r c"
  obtain rg1 nodes where s: "select_for now (estimate_memory (tk_model_name ?t)) ?t c = (rg1, nodes)"
    by fastforce
  note sp = select_for_spec [OF s]
  have rm1: "room rg1" by (rule room_cong [OF rm sp(1)])
  have "room (ms_reg (fst (commit_assign now q nodes r (c\<lparr>ms_reg := rg1\<rparr>))))" for q
    by (rule room_commit) (use rm rm1 sp(2) in \<open>simp_all add: room_def\<close>)
  moreover have "room (ms_reg c')" if "local_force now q r c = Some c'" for q c'
    using that
  proof (cases rule: local_force_cases)
    case (forced n)
    then show ?thesis
      using cap_ok_take [of "ms_reg c" "[tk_preferred ?t]"] reg_wf_take [of "ms_reg c" "[tk_preferred ?t]"] rm
      by (simp add: room_def)
  qed (simp add: rm)
  ultimately show ?thesis
    using rm rm1 by (simp add: assign_task_def Let_def s split: option.split)
qed

lemma room_drain: "room (ms_reg c) \<Longrightarrow> room (ms_reg (drain_pending now c))"
proof -
  have "room (ms_reg (fold (drain_one now) rs c'))" if "room (ms_reg c')" for rs c'
    using that by (induction rs arbitrary: c') (simp_all add: drain_one_def split_beta room_assign)
  then show "room (ms_reg c) \<Longrightarrow> room (ms_reg (drain_pending now c))" by (simp add: drain_pending_def)
qed

lemma room_cancel_subs:
  "room (ms_reg c) \<Longrightarrow> room (ms_reg (fst (cancel_subs p stack c out)))"
proof (induction p stack c out rule: cancel_subs.induct)
  case (1 parent stack c out)
  show ?case
  proof (cases "stack = []")
    case True
    then show ?thesis using 1(4) by (simp add: cancel_subs.simps)
  next
    case ne: False
    show ?thesis
    proof (cases "dget (td_tasks (ms_td c)) (last stack)")
      case None
      then show ?thesis
        using 1(1) [OF ne refl refl None] 1(4) ne by (subst cancel_subs.simps) (simp add: Let_def)
    next
      case (Some r)
      have "room (ms_reg (cancel_sub parent (last stack) r c))"
        using 1(4) by (simp add: cancel_sub_def room_free)
      then show ?thesis
        using 1(2,3) [OF ne refl refl Some] 1(4) ne Some by (subst cancel_subs.simps) (simp add: Let_def)
    qed
  qed
qed

lemma reg_emits: "ms_reg (fold (\<lambda>sid c. case dget (td_tasks (ms_td c)) sid of
         None \<Rightarrow> c | Some s \<Rightarrow> on_td (emit_task_event s ''cancelled'' (tk_cancel_reason (the_task s c))) c) ids d)
       = ms_reg d"
  by (induction ids arbitrary: d) (simp_all split: option.split)

lemma room_cancel:
  assumes "room (ms_reg c)"
  shows "room (ms_reg (fst (cancel_task now tid reason subs c)))"
proof -
  have "room (ms_reg (drain_pending now c'))" if "room (ms_reg c')" for c' using room_drain [OF that] .
  then show ?thesis
    using assms room_cancel_subs
    by (simp add: cancel_task_def Let_def split_beta reg_emits room_free room_drain split: option.split)
qed

lemma room_migrate: "room (ms_reg c) \<Longrightarrow> room (ms_reg (fst (migrate_task now tid c)))"
  by (simp add: migrate_task_def assign_or_retry_def Let_def split_beta room_assign room_free
      split: option.split)

lemma room_finalize: "room (ms_reg c) \<Longrightarrow> room (ms_reg (finalize_task now r s p q e res c))"
  by (simp add: finalize_task_def Let_def room_free split: option.split)

lemma room_run: "room (ms_reg c) \<Longrightarrow> room (ms_reg (fold sched_step evs c))"
proof (induction evs arbitrary: c)
  case (Cons ev evs)
  then show ?case
    by (cases ev) (simp_all add: sched_step_def room_assign room_finalize room_cancel room_migrate room_drain)
qed simp



text \<open>The second look of \<open>assign_task\<close>: however stale the selection made before the locks were
  taken, a task started by the commit runs on distinct nodes that are all online and below capacity
  in the current table, at least as many as it needs, and each of them is charged one slot.\<close>

theorem commit_checks_current_nodes:
  assumes "reg_wf (ms_reg c)" and "distinct (map nd_id nodes)"
    and "\<not> already_running (tk_id (the_task r c)) c"
    and "commit_assign now required nodes r c = (c', True)" and "tk_status (the_task r c') = RUNNING"
    and "ids = tk_assigned (the_task r c')"
  shows "distinct ids \<and> task_need (the_task r c) \<le> length ids \<and>
    (\<forall>k \<in> set ids. \<exists>m. dget (rg_nodes (ms_reg c)) k = Some m \<and> nd_status m = ONLINE \<and>
        active_tasks m < max_tasks m \<and>
        dget (rg_nodes (ms_reg c')) k = Some (m\<lparr>active_tasks := active_tasks m + 1\<rparr>))"
proof -
  obtain rg1 chosen where ch: "chosen_nodes now required nodes r c = (rg1, chosen)" by fastforce
  note spec = chosen_nodes_spec [OF assms(1,2) ch]
  have parked: "tk_status (the_task r c') = PENDING" if "enqueue False r d = (c', True)" for d
  proof -
    have "c' = fst (enqueue False r d)" "snd (enqueue False r d)" using that by simp_all
    then show ?thesis by (simp add: enqueue_def split_beta enqueue_pending_sel the_task_def)
  qed
  have res: "c' = start_on now (map nd_id chosen) r (c\<lparr>ms_reg := rg1\<rparr>)"
    "task_need (the_task r c) \<le> length chosen"
    using assms(3-5) parked by (auto simp: commit_assign_def ch Let_def split: if_splits)
  then have ids: "ids = map nd_id chosen" using assms(6) by (simp add: the_task_def)
  have regs: "rg_nodes (ms_reg c') = rg_nodes (fold take_slot ids rg1)" by (simp add: res(1) ids)
  have "\<exists>m. dget (rg_nodes (ms_reg c)) k = Some m \<and> nd_status m = ONLINE \<and> active_tasks m < max_tasks m \<and>
        dget (rg_nodes (ms_reg c')) k = Some (m\<lparr>active_tasks := active_tasks m + 1\<rparr>)" if k: "k \<in> set ids" for k
  proof -
    obtain m where m: "m \<in> set chosen" "nd_id m = k" using k ids by auto
    have "distinct ids" using spec(2) ids by simp
    from take_slots_nodes [OF this, of rg1 k] spec(1) spec(3) [OF m(1)] m(2) k regs show ?thesis by auto
  qed
  then show ?thesis using spec(2) res(2) ids by simp
qed

lemma demo_registry_ab: "reg_wf (ms_reg (demo_master obj))"
  using demo_master_ok(1) by (rule sched_invD)

lemma commit_checks_current_nodes_witness:
  "let c = demo_master (\<lambda>_. demo_task ''t0'' 0); c' = fst (commit_assign 101 6 [slot_node ''a'', slot_node ''z''] 0 c)
   in \<forall>k \<in> set (tk_assigned (the_task 0 c')). \<exists>m. dget (rg_nodes (ms_reg c)) k = Some m \<and> active_tasks m < max_tasks m"
proof -
  let ?c = "demo_master (\<lambda>_. demo_task ''t0'' 0)"
  let ?ns = "[slot_node ''a'', slot_node ''z'']"
  have idle: "\<not> already_running (tk_id (the_task 0 ?c)) ?c"
    by (simp add: already_running_def get_task_def demo_master_def tasks_init_def)
  have cf: "confirm_nodes ?ns (ms_reg ?c) = [slot_node ''a'']"
    by (simp add: confirm_nodes_def demo_master_def registry_init_def slot_node_def demo_info_def)
  have need: "task_need (the_task 0 ?c) = 1"
    by (simp add: task_need_def the_task_def demo_master_def demo_task_def)
  have "chosen_nodes 101 6 ?ns 0 ?c = (ms_reg ?c, [slot_node ''a''])"
    by (simp add: chosen_nodes_def cf need)
  then have res: "commit_assign 101 6 ?ns 0 ?c = (start_on 101 [''a''] 0 ?c, True)"
    using idle cf need by (simp add: commit_assign_def slot_node_def demo_info_def)
  have "distinct (map nd_id ?ns)" by (simp add: slot_node_def demo_info_def)
  from commit_checks_current_nodes [OF demo_registry_ab this idle res] show ?thesis
    unfolding Let_def res by (auto simp: the_task_def)
qed

subsection \<open>The drain of the queue\<close>

lemma local_force_starts:
  assumes "local_force now q r c = Some c'" and "\<not> already_running (tk_id (the_task r c)) c"
  shows "td_obj (ms_td c') = (td_obj (ms_td c))(r := (the_task r c)\<lparr>tk_assigned := [tk_preferred (the_task r c)],
             tk_status := RUNNING, tk_started := now\<rparr>)"
    "td_tasks (ms_td c') = dset (td_tasks (ms_td c)) (tk_id (the_task r c)) r"
    "td_queue (ms_td c') = td_queue (ms_td c)"
proof -
  let ?t = "the_task r c"
  obtain n where "dget (rg_nodes (ms_reg c)) (tk_preferred ?t) = Some n"
    using assms by (cases "dget (rg_nodes (ms_reg c)) (tk_preferred ?t)")
      (auto simp: local_force_def Let_def split: if_splits)
  with assms have c': "c' = c\<lparr>ms_reg := take_slot (tk_preferred ?t) (ms_reg c),
              ms_td := trigger_dispatch r (emit_task_event r ''running'' []
                 (mark_running now [tk_preferred ?t] r (ms_td c)))\<rparr>"
    by (auto simp: local_force_def Let_def split: if_splits)
  show "td_obj (ms_td c') = (td_obj (ms_td c))(r := (the_task r c)\<lparr>tk_assigned := [tk_preferred (the_task r c)],
             tk_status := RUNNING, tk_started := now\<rparr>)"
    "td_tasks (ms_td c') = dset (td_tasks (ms_td c)) (tk_id (the_task r c)) r"
    by (simp_all add: c' the_task_def)
  show "td_queue (ms_td c') = td_queue (ms_td c)"
    by (simp add: c' mark_running_def trigger_dispatch_def Let_def)
qed

lemma queue_start_on [simp]: "td_queue (ms_td (start_on now ids r c)) = td_queue (ms_td c)"
  by (simp add: start_on_def Let_def mark_running_def trigger_dispatch_def persist_throttled_def write_task_store_def)

text \<open>What one assignment can do to the tasks domain.\<close>

inductive assign_effect :: "nat \<Rightarrow> master \<Rightarrow> master \<Rightarrow> bool \<Rightarrow> bool" for r c where
  unchanged: "ms_td c' = ms_td c \<Longrightarrow>
     ok \<longrightarrow> already_running (tk_id (the_task r c)) c \<or> tk_id (the_task r c) \<in> set (queue_ids (ms_td c)) \<Longrightarrow>
     assign_effect r c c' ok"
| queued: "\<not> already_running (tk_id (the_task r c)) c \<Longrightarrow>
     length (td_queue (ms_td c)) < td_max_pending (ms_td c) \<Longrightarrow>
     ms_td c' = fst (enqueue_pending False r (ms_td c)) \<Longrightarrow> assign_effect r c c' True"
| started: "\<not> already_running (tk_id (the_task r c)) c \<Longrightarrow>
     td_obj (ms_td c') = (td_obj (ms_td c))(r := (the_task r c)\<lparr>tk_assigned := ids, tk_status := RUNNING, tk_started := now\<rparr>) \<Longrightarrow>
     td_tasks (ms_td c') = dset (td_tasks (ms_td c)) (tk_id (the_task r c)) r \<Longrightarrow>
     td_queue (ms_td c') = td_queue (ms_td c) \<Longrightarrow> assign_effect r c c' True"

lemma effect_enqueue:
  assumes "\<not> already_running (tk_id (the_task r c)) c" and "ms_td d = ms_td c"
  shows "assign_effect r c (fst (enqueue False r d)) (snd (enqueue False r d))"
proof (cases "length (td_queue (ms_td c)) < td_max_pending (ms_td c)")
  case True
  then have "snd (enqueue False r d) = True" using assms(2) by (simp add: enqueue_def split_beta enqueue_pending_sel)
  then show ?thesis
    using assign_effect.queued [OF assms(1) True, of "fst (enqueue False r d)"] assms(2)
    by (simp add: enqueue_def split_beta)
next
  case False
  then have "enqueue False r d = (d, False)" using assms(2) by (simp add: enqueue_def enqueue_pending_def)
  then show ?thesis using assms(2) by (simp add: assign_effect.unchanged)
qed

lemma effect_commit:
  assumes "\<not> already_running (tk_id (the_task r c)) c" and "ms_td d = ms_td c"
  shows "assign_effect r c (fst (commit_assign now q nodes r d)) (snd (commit_assign now q nodes r d))"
proof -
  obtain rg1 chosen where ch: "chosen_nodes now q nodes r d = (rg1, chosen)" by fastforce
  have "the_task r d = the_task r c" "\<not> already_running (tk_id (the_task r c)) d"
    using assms by (simp_all add: the_task_def already_running_def)
  moreover have "assign_effect r c (start_on now ids r (d\<lparr>ms_reg := rg1\<rparr>)) True" for ids
    by (rule assign_effect.started [OF assms(1), where ids = ids and now = now]) (simp_all add: assms(2) the_task_def)
  moreover have "assign_effect r c (fst (enqueue False r d)) (snd (enqueue False r d))"
    "assign_effect r c (fst (enqueue False r (d\<lparr>ms_reg := rg1\<rparr>))) (snd (enqueue False r (d\<lparr>ms_reg := rg1\<rparr>)))"
    using effect_enqueue [OF assms(1)] assms(2) by simp_all
  ultimately show ?thesis by (simp add: commit_assign_def ch Let_def)
qed

lemma assign_task_effect: "assign_effect r c (fst (assign_task now r c)) (snd (assign_task now r c))"
proof -
  let ?t = "the_task r c"
  obtain rg1 nodes where s: "select_for now (estimate_memory (tk_model_name ?t)) ?t c = (rg1, nodes)"
    by fastforce
  let ?c1 = "c\<lparr>ms_reg := rg1\<rparr>"
  have u: "assign_effect r c d ok" if "ms_td d = ms_td c"
    "ok \<longrightarrow> already_running (tk_id ?t) c \<or> tk_id ?t \<in> set (queue_ids (ms_td c))" for d ok
    using that by (rule assign_effect.unchanged)
  have l: "assign_effect r c c' True"
    if "\<not> already_running (tk_id ?t) c" "local_force now q r c = Some c'" for q c'
    by (rule assign_effect.started [OF that(1) local_force_starts [OF that(2,1)]])
  show ?thesis
    using u [of c] u [of ?c1] l effect_enqueue [of r c c] effect_enqueue [of r c ?c1] effect_commit [of r c ?c1]
    by (simp add: assign_task_def Let_def s split: option.split)
qed

text \<open>A task id that is still queued, or whose table entry is running.\<close>

definition kept :: "string \<Rightarrow> master \<Rightarrow> bool" where
  "kept tid c \<longleftrightarrow> tid \<in> set (queue_ids (ms_td c)) \<or> already_running tid c"

lemma kept_cong: "ms_td c' = ms_td c \<Longrightarrow> kept tid c \<Longrightarrow> kept tid c'"
  by (simp add: kept_def already_running_def)

lemma queue_ids_upd:
  "tk_id t = tk_id (td_obj td r) \<Longrightarrow> map (\<lambda>q. tk_id (((td_obj td)(r := t)) q)) xs = map (\<lambda>q. tk_id (td_obj td q)) xs"
  by simp

lemma running_upd:
  assumes "tasks_wf td" and "tid \<noteq> tk_id (td_obj td r)"
    and "td_obj td' = (td_obj td)(r := t)" and "td_tasks td' = dset (td_tasks td) (tk_id (td_obj td r)) r"
  shows "get_task tid td' = get_task tid td"
  using assms by (cases "dget (td_tasks td) tid") (auto simp: get_task_def tasks_wf_def)

lemma enqueue_kept:
  assumes wf: "tasks_wf (ms_td c)" and idle: "\<not> already_running (tk_id (the_task r c)) c"
    and td: "ms_td c' = fst (enqueue_pending f r (ms_td c))" and k: "kept tid c"
  shows "kept tid c'"
proof (cases "f \<or> length (td_queue (ms_td c)) < td_max_pending (ms_td c)")
  case True
  then have q: "set (queue_ids (ms_td c')) = insert (tk_id (the_task r c)) (set (queue_ids (ms_td c)))"
    by (auto simp: td queue_ids_def enqueue_pending_sel the_task_def)
  show ?thesis
  proof (cases "tid = tk_id (the_task r c)")
    case False
    then have "get_task tid (ms_td c') = get_task tid (ms_td c)"
      using True wf by (intro running_upd [where r = r]) (simp_all add: td enqueue_pending_sel the_task_def)
    then show ?thesis using k q by (auto simp: kept_def already_running_def)
  qed (simp add: kept_def q)
next
  case False
  then have "ms_td c' = ms_td c" by (simp add: td enqueue_pending_def)
  then show ?thesis using k by (rule kept_cong)
qed

lemma effect_kept:
  assumes "assign_effect r c c' ok" and wf: "tasks_wf (ms_td c)" and k: "kept tid c"
  shows "kept tid c'"
  using assms(1)
proof cases
  case unchanged
  then show ?thesis using kept_cong [OF _ k] by simp
next
  case queued
  then show ?thesis using enqueue_kept [OF wf _ _ k] by blast
next
  case (started ids now)
  have q: "queue_ids (ms_td c') = queue_ids (ms_td c)"
    by (simp add: queue_ids_def started the_task_def)
  show ?thesis
  proof (cases "tid = tk_id (the_task r c)")
    case True
    then show ?thesis by (simp add: kept_def already_running_def get_task_def started)
  next
    case False
    then have "get_task tid (ms_td c') = get_task tid (ms_td c)"
      using wf by (intro running_upd [where r = r]) (simp_all add: started the_task_def)
    then show ?thesis using k q by (simp add: kept_def already_running_def)
  qed
qed

lemma effect_placed:
  assumes "assign_effect r c c' True"
  shows "kept (tk_id (the_task r c)) c'"
  using assms
proof cases
  case unchanged
  then show ?thesis by (auto simp: kept_def already_running_def)
next
  case queued
  then show ?thesis by (simp add: kept_def queue_ids_def enqueue_pending_sel the_task_def)
next
  case (started ids now)
  then show ?thesis by (simp add: kept_def already_running_def get_task_def)
qed

lemma effect_ids: "assign_effect r c c' ok \<Longrightarrow> tk_id (the_task q c') = tk_id (the_task q c)"
  by (erule assign_effect.cases) (auto simp: the_task_def enqueue_pending_sel)

lemma kept_drain_one:
  assumes inv: "sched_inv c" and srv: "serving c"
  shows "kept (tk_id (the_task r c)) (drain_one now r c) \<and> (kept tid c \<longrightarrow> kept tid (drain_one now r c)) \<and>
     tk_id (the_task q (drain_one now r c)) = tk_id (the_task q c)"
proof (cases "snd (assign_task now r c)")
  case True
  with assign_task_effect [of r c now] have e: "assign_effect r c (fst (assign_task now r c)) True" by simp
  show ?thesis
    using effect_placed [OF e] effect_kept [OF e sched_invD(2) [OF inv]] effect_ids [OF e] True
    by (simp add: drain_one_def split_beta)
next
  case False
  let ?c1 = "fst (assign_task now r c)"
  have idle: "\<not> already_running (tk_id (the_task r c)) c" and td: "ms_td ?c1 = ms_td c"
    using assign_false [OF _ srv] False by auto
  have d: "ms_td (drain_one now r c) = fst (enqueue_pending True r (ms_td c))"
    using False td by (simp add: drain_one_def split_beta enqueue_def)
  then show ?thesis
    using enqueue_kept [OF sched_invD(2) [OF inv] idle d]
    by (auto simp: kept_def queue_ids_def enqueue_pending_sel the_task_def)
qed

text \<open>C6: Draining the pending queue loses no task: every task that was waiting is running or waiting
  again afterwards, whether or not nodes were found, whatever the queue's limit, and also when a quota
  holds it back.\<close>

theorem drain_loses_no_task:
  assumes "sched_inv c" and "serving c" and "tid \<in> set (queue_ids (ms_td c))"
  shows "tid \<in> set (queue_ids (ms_td (drain_pending now c))) \<or>
         (\<exists>t. get_task tid (ms_td (drain_pending now c)) = Some t \<and> tk_status t = RUNNING)"
proof -
  have "kept tid (fold (drain_one now) rs c')"
    if "sched_inv c'" "serving c'" "kept tid c' \<or> tid \<in> (\<lambda>r. tk_id (the_task r c')) ` set rs" for rs c'
    using that
  proof (induction rs arbitrary: c')
    case (Cons r rs)
    note k = kept_drain_one [OF Cons.prems(1,2), where r = r and now = now]
    have "kept tid (drain_one now r c') \<or> tid \<in> (\<lambda>q. tk_id (the_task q (drain_one now r c'))) ` set rs"
      using Cons.prems(3) k by auto
    then show ?case using Cons.IH sched_inv_drain_one [OF Cons.prems(1,2)] by simp
  qed simp
  moreover have "tid \<in> (\<lambda>r. tk_id (the_task r (on_td (\<lambda>td. td\<lparr>td_queue := []\<rparr>) c))) ` set (td_queue (ms_td c))"
    using assms(3) by (simp add: queue_ids_def the_task_def)
  ultimately have "kept tid (drain_pending now c)"
    using assms by (auto simp: drain_pending_def)
  then show ?thesis by (auto simp: kept_def already_running_def split: option.splits)
qed

definition demo_queued :: master where
  "demo_queued = fst (enqueue True 0 (demo_master (\<lambda>_. demo_task ''t0'' 0)))"

lemma demo_queued_ok: "sched_inv demo_queued" "serving demo_queued" "queue_ids (ms_td demo_queued) = [''t0'']"
proof -
  show "sched_inv demo_queued"
    unfolding demo_queued_def
    by (rule sched_inv_enqueue [OF demo_master_ok(1)])
       (simp add: already_running_def get_task_def demo_master_def tasks_init_def)
  show "serving demo_queued" using demo_master_ok(2) by (simp add: demo_queued_def serving_def)
  show "queue_ids (ms_td demo_queued) = [''t0'']"
    by (simp add: demo_queued_def enqueue_def split_beta enqueue_pending_sel queue_ids_def demo_master_def
        tasks_init_def demo_task_def)
qed

lemma drain_loses_no_task_witness:
  "''t0'' \<in> set (queue_ids (ms_td (drain_pending 101 demo_queued))) \<or>
   (\<exists>t. get_task ''t0'' (ms_td (drain_pending 101 demo_queued)) = Some t \<and> tk_status t = RUNNING)"
  by (rule drain_loses_no_task [OF demo_queued_ok(1,2)]) (simp add: demo_queued_ok(3))

subsection \<open>Timeouts\<close>

lemma upd_same_sel: "td_obj (upd_task r f td) r = f (td_obj td r)" "q \<noteq> r \<Longrightarrow> td_obj (upd_task r f td) q = td_obj td q"
  by simp_all

lemma enqueue_retry_other: "q \<noteq> r \<Longrightarrow> td_obj (enqueue_retry now r td) q = td_obj td q"
  by (simp add: enqueue_retry_def Let_def)

lemma enqueue_retry_idle: "tk_status (td_obj (enqueue_retry now r td) r) \<noteq> RUNNING"
  using enqueue_retry_sel(2) [of now r td] by auto

text \<open>One step of the timeout check, and the whole of it, only takes tasks out of the running state.\<close>

definition timed_out :: "time \<Rightarrow> cluster_task \<Rightarrow> bool" where
  "timed_out now t \<longleftrightarrow> tk_status t = RUNNING \<and> tk_started t > 0 \<and> now - tk_started t > tk_timeout t"

lemma check_timeouts_obj:
  assumes "check_timeouts now td = (td', out)"
  shows "td_tasks td' = td_tasks td"
    "tk_status (td_obj td' q) = RUNNING \<Longrightarrow> td_obj td' q = td_obj td q"
    "(k, r) \<in> set (td_tasks td) \<Longrightarrow> timed_out now (td_obj td r) \<Longrightarrow> tk_status (td_obj td' r) \<noteq> RUNNING"
proof -
  define step where "step = (\<lambda>(tid, r) (td, out).
        let t = td_obj td r
        in if tk_status t = RUNNING \<and> tk_started t > 0 \<and> now - tk_started t > tk_timeout t
           then (enqueue_retry now r
                   (upd_task r (\<lambda>t. t\<lparr>tk_status := TIMEOUT, tk_error := ''timeout''\<rparr>) td), out @ [tid])
           else (td, out :: string list))"
  have step: "fst (step (k, r) (d, o')) = d \<and> \<not> timed_out now (td_obj d r) \<or>
      fst (step (k, r) (d, o')) = enqueue_retry now r (upd_task r (\<lambda>t. t\<lparr>tk_status := TIMEOUT, tk_error := ''timeout''\<rparr>) d)"
    for k r d o' by (auto simp: step_def Let_def timed_out_def)
  define P :: "tasks \<Rightarrow> bool" where "P d = (td_tasks d = td_tasks td \<and>
      (\<forall>q. tk_status (td_obj d q) \<noteq> RUNNING \<or> td_obj d q = td_obj td q))" for d
  have Pstep: "P (fst (step kr p)) \<and> (tk_status (td_obj (fst p) q) \<noteq> RUNNING \<longrightarrow>
        tk_status (td_obj (fst (step kr p)) q) \<noteq> RUNNING) \<and>
        (timed_out now (td_obj td (snd kr)) \<longrightarrow> tk_status (td_obj (fst (step kr p)) (snd kr)) \<noteq> RUNNING)"
    if "P (fst p)" for kr p q
  proof -
    obtain k r where kr: "kr = (k, r)" by (cases kr)
    obtain d o' where p: "p = (d, o')" by (cases p)
    show ?thesis
      using step [of k r d o']
    proof
      assume a: "fst (step (k, r) (d, o')) = d \<and> \<not> timed_out now (td_obj d r)"
      then show ?thesis using that by (auto simp: kr p P_def timed_out_def)
    next
      let ?d = "upd_task r (\<lambda>t. t\<lparr>tk_status := TIMEOUT, tk_error := ''timeout''\<rparr>) d"
      assume a: "fst (step (k, r) (d, o')) = enqueue_retry now r ?d"
      have o: "q' \<noteq> r \<Longrightarrow> td_obj (enqueue_retry now r ?d) q' = td_obj d q'" for q'
        by (simp add: enqueue_retry_other)
      have "P (enqueue_retry now r ?d)"
        unfolding P_def
      proof (intro conjI allI)
        show "td_tasks (enqueue_retry now r ?d) = td_tasks td" using that by (simp add: p P_def enqueue_retry_sel(1))
        show "tk_status (td_obj (enqueue_retry now r ?d) q') \<noteq> RUNNING \<or> td_obj (enqueue_retry now r ?d) q' = td_obj td q'" for q'
          using that o [of q'] enqueue_retry_idle [of now r ?d] by (cases "q' = r") (auto simp: p P_def)
      qed
      moreover have "tk_status (td_obj d q) \<noteq> RUNNING \<longrightarrow> tk_status (td_obj (enqueue_retry now r ?d) q) \<noteq> RUNNING"
        using o [of q] enqueue_retry_idle [of now r ?d] by (cases "q = r") auto
      ultimately show ?thesis using enqueue_retry_idle [of now r ?d] a by (simp add: kr p)
    qed
  qed
  have run: "P (fst (fold step xs p)) \<and>
      (tk_status (td_obj (fst p) q) \<noteq> RUNNING \<longrightarrow> tk_status (td_obj (fst (fold step xs p)) q) \<noteq> RUNNING) \<and>
      (\<forall>(k, r) \<in> set xs. timed_out now (td_obj td r) \<longrightarrow> tk_status (td_obj (fst (fold step xs p)) r) \<noteq> RUNNING)"
    if "P (fst p)" for xs p q
    using that
  proof (induction xs arbitrary: p q)
    case (Cons kr xs)
    have P1: "P (fst (step kr p))" using Pstep [OF Cons.prems] by blast
    note IH = Cons.IH [OF P1]
    have "tk_status (td_obj (fst p) q) \<noteq> RUNNING \<longrightarrow> tk_status (td_obj (fst (fold step (kr # xs) p)) q) \<noteq> RUNNING"
      using Pstep [OF Cons.prems, of kr q] IH [of q] by simp
    moreover have "timed_out now (td_obj td (snd kr)) \<longrightarrow> tk_status (td_obj (fst (fold step (kr # xs) p)) (snd kr)) \<noteq> RUNNING"
      using Pstep [OF Cons.prems, of kr q] IH [of "snd kr"] by simp
    ultimately show ?case using IH [of q] by auto
  qed simp
  have td': "td' = fst (fold step (td_tasks td) (td, []))"
    using assms by (simp add: check_timeouts_def step_def)
  have "P td" by (simp add: P_def)
  note all = run [of "(td, [])" "td_tasks td", unfolded fst_conv, folded td', OF this]
  show "td_tasks td' = td_tasks td" using all [of 0] by (simp add: P_def)
  show "tk_status (td_obj td' q) = RUNNING \<Longrightarrow> td_obj td' q = td_obj td q" using all [of 0] by (auto simp: P_def)
  show "(k, r) \<in> set (td_tasks td) \<Longrightarrow> timed_out now (td_obj td r) \<Longrightarrow> tk_status (td_obj td' r) \<noteq> RUNNING"
    using all [of 0] by auto
qed

lemma count_if_drop:
  assumes "\<And>x. x \<in> set xs \<Longrightarrow> P (g x) \<Longrightarrow> P (f x)" and "y \<in> set xs" and "P (f y)" and "\<not> P (g y)"
  shows "count_if P (map g xs) < count_if P (map f xs)"
proof -
  show ?thesis
    using assms(2) assms(1)
  proof (induction xs)
    case (Cons x xs)
    have le: "count_if P (map g ys) \<le> count_if P (map f ys)" if "set ys \<subseteq> set (x # xs)" for ys
      using that Cons.prems(2) by (induction ys) auto
    show ?case
    proof (cases "y = x")
      case True
      have "count_if P (map g xs) \<le> count_if P (map f xs)" by (rule le) auto
      then show ?thesis using True assms(3,4) by auto
    next
      case False
      then have "count_if P (map g xs) < count_if P (map f xs)" using Cons by auto
      then show ?thesis using Cons.prems(2) [of x] by auto
    qed
  qed simp
qed

text \<open>A timeout leaks a slot: the timeout check requeues a running task that is over its time without
  touching the nodes, so with exact books before it, afterwards every node the task ran on counts
  more active tasks than the table has running on it.\<close>

theorem timeout_leaks_a_slot:
  assumes "sched_inv c" and "dget (td_tasks (ms_td c)) tid = Some r"
    and "tk_status (the_task r c) = RUNNING" and "0 < tk_started (the_task r c)"
    and "tk_timeout (the_task r c) < now - tk_started (the_task r c)"
    and "nid \<in> set (tk_assigned (the_task r c))" and "dget (rg_nodes (ms_reg c)) nid = Some n"
    and "check_timeouts now (ms_td c) = (td', out)"
  shows "int (inflight_count_for_node nid td') < active_tasks n"
proof -
  note ct = check_timeouts_obj [OF assms(8)]
  have "active_tasks n = int (inflight_count_for_node nid (ms_td c))"
    by (rule ledgerD [OF sched_invD(3) [OF assms(1)] assms(7)])
  moreover have "count_if (runs_on nid) (map (td_obj td') (dvals (td_tasks (ms_td c)))) <
      count_if (runs_on nid) (map (td_obj (ms_td c)) (dvals (td_tasks (ms_td c))))"
  proof (rule count_if_drop [where y = r])
    show "runs_on nid (td_obj (ms_td c) x)" if "runs_on nid (td_obj td' x)" for x
      using that ct(2) [of x] by (simp add: runs_on_def)
    show "r \<in> set (dvals (td_tasks (ms_td c)))" using dget_SomeD [OF assms(2)] by force
    show "runs_on nid (td_obj (ms_td c) r)" using assms(3,6) by (simp add: runs_on_def the_task_def)
    show "\<not> runs_on nid (td_obj td' r)"
      using ct(3) [OF dget_SomeD [OF assms(2)]] assms(3-5) by (simp add: runs_on_def timed_out_def the_task_def)
  qed
  ultimately show ?thesis
    using ct(1) by (simp add: inflight_runs_on task_list_def)
qed

definition slot_running :: master where
  "slot_running = start_on 101 [''a''] 0 (demo_master (\<lambda>_. demo_task ''t0'' 0))"

lemma slot_running_ok:
  "sched_inv slot_running" "dget (td_tasks (ms_td slot_running)) ''t0'' = Some 0"
  "the_task 0 slot_running = (demo_task ''t0'' 0)\<lparr>tk_assigned := [''a''], tk_status := RUNNING, tk_started := 101\<rparr>"
  "\<exists>n. dget (rg_nodes (ms_reg slot_running)) ''a'' = Some n"
proof -
  show "sched_inv slot_running"
    unfolding slot_running_def
    by (rule sched_inv_start_on [OF demo_master_ok(1)])
       (simp_all add: already_running_def get_task_def demo_master_def tasks_init_def)
  show "dget (td_tasks (ms_td slot_running)) ''t0'' = Some 0"
    by (simp add: slot_running_def the_task_def demo_master_def demo_task_def)
  show "the_task 0 slot_running = (demo_task ''t0'' 0)\<lparr>tk_assigned := [''a''], tk_status := RUNNING, tk_started := 101\<rparr>"
    by (simp add: slot_running_def the_task_def demo_master_def)
  show "\<exists>n. dget (rg_nodes (ms_reg slot_running)) ''a'' = Some n"
    using take_slots_nodes [of "[''a'']" _ "''a''"]
    by (simp add: slot_running_def demo_master_def registry_init_def)
qed

lemma timeout_leaks_a_slot_witness:
  "\<exists>n. dget (rg_nodes (ms_reg slot_running)) ''a'' = Some n \<and>
     int (inflight_count_for_node ''a'' (fst (check_timeouts 1000 (ms_td slot_running)))) < active_tasks n"
proof -
  obtain n where n: "dget (rg_nodes (ms_reg slot_running)) ''a'' = Some n" using slot_running_ok(4) by blast
  obtain td' out where ct: "check_timeouts 1000 (ms_td slot_running) = (td', out)" by fastforce
  have "int (inflight_count_for_node ''a'' td') < active_tasks n"
    by (rule timeout_leaks_a_slot [OF slot_running_ok(1,2) _ _ _ _ n ct])
       (simp_all add: slot_running_ok(3) demo_task_def)
  then show ?thesis using n ct by auto
qed

subsection \<open>The local-force shortcut\<close>

text \<open>The shortcut for small models ignores the black list: a task whose model is forced to run
  locally is put on its preferred node as soon as that node is online with memory and a free slot,
  whether or not the node is excluded for the task, banned, draining, or not the pinned one.\<close>

theorem local_force_ignores_exclusion:
  assumes "\<not> assign_refused r c" and "\<not> already_running (tk_id (the_task r c)) c"
    and "tenant_limit_for (tk_user (the_task r c)) (ms_td c) \<le> 0 \<or>
         int (running_count_for_user (tk_user (the_task r c)) (ms_td c)) < tenant_limit_for (tk_user (the_task r c)) (ms_td c)"
    and "is_local_force (tk_model_name (the_task r c)) (estimate_memory (tk_model_name (the_task r c)))"
    and "tk_preferred (the_task r c) \<noteq> []"
    and "dget (rg_nodes (ms_reg c)) (tk_preferred (the_task r c)) = Some n"
    and "nd_status n = ONLINE" and "active_tasks n < max_tasks n"
    and "estimate_memory (tk_model_name (the_task r c)) \<le> available_memory_gb n"
    and "assign_task now r c = (c', ok)"
  shows "ok \<and> tk_status (the_task r c') = RUNNING \<and> tk_assigned (the_task r c') = [tk_preferred (the_task r c)]"
proof -
  obtain d where d: "local_force now (estimate_memory (tk_model_name (the_task r c))) r c = Some d"
    using assms(2,4-9) by (simp add: local_force_def Let_def)
  have "assign_task now r c = (d, True)"
    using assms(1-3) d by (auto simp: assign_task_def Let_def)
  then show ?thesis
    using assms(10) local_force_starts(1) [OF d assms(2)] by (simp add: the_task_def)
qed

definition demo_black :: master where
  "demo_black =
     (let t = (demo_task ''t0'' 0)\<lparr>tk_model_name := [], tk_preferred := ''a'', tk_exclude := [''a'']\<rparr>;
          c = demo_master (\<lambda>_. t)
      in c\<lparr>ms_reg := fst (set_node_draining ''a'' True (ms_reg c))\<rparr>)"

lemma local_force_ignores_exclusion_witness:
  "''a'' \<in> set (tk_exclude (the_task 0 demo_black)) \<and>
   tk_assigned (the_task 0 (fst (assign_task 101 0 demo_black))) = [''a'']"
proof -
  have t: "the_task 0 demo_black = (demo_task ''t0'' 0)\<lparr>tk_model_name := [], tk_preferred := ''a'', tk_exclude := [''a'']\<rparr>"
    by (simp add: demo_black_def demo_master_def the_task_def Let_def)
  have n: "\<exists>n. dget (rg_nodes (ms_reg demo_black)) ''a'' = Some n \<and> nd_status n = ONLINE \<and> active_tasks n < max_tasks n \<and>
      2 \<le> available_memory_gb n"
    by (simp add: demo_black_def demo_master_def Let_def set_node_draining_def registry_init_def slot_node_def demo_info_def)
  then obtain n where n: "dget (rg_nodes (ms_reg demo_black)) ''a'' = Some n" "nd_status n = ONLINE"
    "active_tasks n < max_tasks n" "2 \<le> available_memory_gb n" by blast
  obtain c' ok where a: "assign_task 101 0 demo_black = (c', ok)" by fastforce
  have "ok \<and> tk_status (the_task 0 c') = RUNNING \<and> tk_assigned (the_task 0 c') = [tk_preferred (the_task 0 demo_black)]"
    by (rule local_force_ignores_exclusion [OF _ _ _ _ _ _ n(2,3) _ a])
       (use n in \<open>simp_all add: t is_local_force_def estimate_memory_def demo_task_def\<close>,
        simp_all add: demo_black_def demo_master_def Let_def assign_refused_def the_task_def ha_single_def
          already_running_def get_task_def tasks_init_def running_count_for_user_def task_list_def
          tenant_limit_for_def demo_task_def)
  then show ?thesis using a t by (simp add: demo_task_def)
qed

subsection \<open>Pinned tasks\<close>

lemma assign_no_candidate:
  assumes ex: "tk_pinned (the_task r c) \<in> set (tk_exclude (the_task r c))" "tk_pinned (the_task r c) \<noteq> []"
    and idle: "tk_status (the_task r c) \<noteq> RUNNING"
    and lf: "\<not> is_local_force (tk_model_name (the_task r c)) (estimate_memory (tk_model_name (the_task r c)))"
  shows "\<exists>st ids. the_task r (fst (assign_task now r c)) = (the_task r c)\<lparr>tk_status := st, tk_assigned := ids\<rparr> \<and>
      st \<noteq> RUNNING"
proof -
  let ?t = "the_task r c"
  obtain rg1 nodes where s: "select_for now (estimate_memory (tk_model_name ?t)) ?t c = (rg1, nodes)"
    by fastforce
  have "select_nodes now (task_request q ?t c) rg = []" for q rg
    using select_nodes_set [of now "task_request q ?t c" rg] ex
    by (auto simp: select_candidates_eq selectable_def task_request_def)
  then have "nodes = []" using s by (auto simp: select_for_def Let_def split: if_splits)
  moreover have "local_force now q r c = None" if "q = estimate_memory (tk_model_name ?t)" for q
    using lf that by (simp add: local_force_def Let_def)
  moreover have "0 < task_need ?t" by (simp add: task_need_def)
  moreover have keep: "\<exists>st ids. ?t = ?t\<lparr>tk_status := st, tk_assigned := ids\<rparr> \<and> st \<noteq> RUNNING"
    using idle by (intro exI [of _ "tk_status ?t"] exI [of _ "tk_assigned ?t"]) simp
  moreover have "\<exists>st ids. the_task r (fst (enqueue False r d)) = ?t\<lparr>tk_status := st, tk_assigned := ids\<rparr> \<and> st \<noteq> RUNNING"
    if "ms_td d = ms_td c" for d
    using keep that
    by (cases "length (td_queue (ms_td c)) < td_max_pending (ms_td c)")
       (auto simp: enqueue_def split_beta the_task_def enqueue_pending_sel)
  ultimately show ?thesis by (simp add: assign_task_def Let_def s)
qed

text \<open>Migration strands a pinned task: \<open>migrate_task\<close> black-lists the node the task ran on, the
  pinned one included, so the task is not running afterwards and no later selection, in whatever
  state the nodes are, can find it a node.\<close>

theorem migrated_pinned_task_is_stranded:
  assumes "sched_inv c" and "dget (td_tasks (ms_td c)) tid = Some r"
    and "tk_status (the_task r c) = RUNNING"
    and "tk_pinned (the_task r c) \<in> set (tk_assigned (the_task r c))" and "tk_pinned (the_task r c) \<noteq> []"
    and "\<not> is_local_force (tk_model_name (the_task r c)) (estimate_memory (tk_model_name (the_task r c)))"
    and "migrate_task now tid c = (c', ok)"
  shows "tk_status (the_task r c') \<noteq> RUNNING \<and>
         (\<forall>req now' rg. select_nodes now' (task_request req (the_task r c') c') rg = [])"
proof -
  let ?t = "the_task r c"
  define c1 where "c1 = set_task r (\<lambda>t. t\<lparr>tk_exclude := extend_new (tk_exclude t) (tk_assigned ?t),
                   tk_assigned := [], tk_status := PENDING\<rparr>) (release (tk_assigned ?t) c)"
  have t1: "the_task r c1 = ?t\<lparr>tk_exclude := extend_new (tk_exclude ?t) (tk_assigned ?t), tk_assigned := [],
      tk_status := PENDING\<rparr>" by (simp add: c1_def)
  have ex1: "tk_pinned (the_task r c1) \<in> set (tk_exclude (the_task r c1))" using assms(4) by (simp add: t1)
  have c': "c' = fst (assign_or_retry now r c1)"
    using assms(2,3,7) by (simp add: migrate_task_def c1_def Let_def)
  obtain st ids where a: "the_task r (fst (assign_task now r c1)) = (the_task r c1)\<lparr>tk_status := st, tk_assigned := ids\<rparr>"
    "st \<noteq> RUNNING"
    using assign_no_candidate [OF ex1, of now] assms(5,6) by (auto simp: t1)
  define d where "d = fst (assign_task now r c1)"
  have "tk_status (the_task r c') \<noteq> RUNNING \<and> tk_pinned (the_task r c') = tk_pinned ?t \<and>
      tk_pinned ?t \<in> set (tk_exclude (the_task r c'))"
  proof (cases "snd (assign_task now r c1)")
    case True
    then have "c' = d" by (simp add: c' assign_or_retry_def split_beta d_def)
    then show ?thesis using a ex1 by (simp add: d_def t1)
  next
    case False
    then have "c' = on_td (enqueue_retry now r) d" by (simp add: c' assign_or_retry_def split_beta d_def)
    then have e: "the_task r c' = td_obj (enqueue_retry now r (ms_td d)) r" by (simp add: the_task_def)
    have "tk_pinned (the_task r c') = tk_pinned (the_task r d)"
      "set (tk_exclude (the_task r d)) \<subseteq> set (tk_exclude (the_task r c'))"
      unfolding e by (simp_all add: enqueue_retry_def Let_def the_task_def)
    moreover have "tk_pinned (the_task r d) = tk_pinned ?t" "tk_pinned ?t \<in> set (tk_exclude (the_task r d))"
      using a(1) ex1 by (simp_all add: d_def t1)
    moreover have "tk_status (the_task r c') \<noteq> RUNNING" unfolding e by (rule enqueue_retry_idle)
    ultimately show ?thesis by auto
  qed
  moreover from this have "select_nodes now' (task_request req (the_task r c') c') rg = []" for req now' rg
    using select_nodes_set [of now' "task_request req (the_task r c') c'" rg] assms(5)
    by (auto simp: select_candidates_eq selectable_def task_request_def)
  ultimately show ?thesis by blast
qed

definition demo_pinned :: cluster_task where
  "demo_pinned = (demo_task ''t0'' 0)\<lparr>tk_pinned := ''a''\<rparr>"

lemma demo_not_local:
  "find_bounded ''0.5b'' False ''qwen-8b'' = False" "lower ''qwen-8b'' = ''qwen-8b''"
  "find ((\<lambda>k. find_bounded k False ''qwen-8b'')) [''70b'', ''32b'', ''13b'', ''8b'', ''3b'', ''1b'', ''0.5b''] = Some ''8b''"
  by code_simp+

lemma demo_estimate: "estimate_memory ''qwen-8b'' = 10" "\<not> is_local_force ''qwen-8b'' 10"
  using demo_not_local
  by (simp_all add: estimate_memory_def match_model_size_def MODEL_MEMORY_PROFILE_def dget_or_def
      is_local_force_def LOCAL_FORCE_MODEL_SIZES_def)

lemma migrated_pinned_task_is_stranded_witness:
  "tk_status (the_task 0 (fst (migrate_task 200 ''t0'' (start_on 101 [''a''] 0 (demo_master (\<lambda>_. demo_pinned)))))) \<noteq> RUNNING"
proof -
  let ?m = "demo_master (\<lambda>_. demo_pinned)" let ?c = "start_on 101 [''a''] 0 ?m"
  have "sched_inv ?c"
    by (rule sched_inv_start_on [OF demo_master_ok(1)])
       (simp_all add: already_running_def get_task_def demo_master_def tasks_init_def)
  moreover have "dget (td_tasks (ms_td ?c)) ''t0'' = Some 0"
    by (simp add: the_task_def demo_master_def demo_task_def demo_pinned_def)
  moreover have t: "the_task 0 ?c = demo_pinned\<lparr>tk_assigned := [''a''], tk_status := RUNNING, tk_started := 101\<rparr>"
    by (simp add: the_task_def demo_master_def)
  moreover obtain c' ok where m: "migrate_task 200 ''t0'' ?c = (c', ok)" by fastforce
  ultimately have "tk_status (the_task 0 c') \<noteq> RUNNING \<and>
         (\<forall>req now' rg. select_nodes now' (task_request req (the_task 0 c') c') rg = [])"
    by (intro migrated_pinned_task_is_stranded [OF _ _ _ _ _ _ m])
       (simp_all add: demo_pinned_def demo_task_def demo_estimate)
  then show ?thesis using m by simp
qed

subsection \<open>Cancelled while waiting for a retry\<close>

definition demo_retrying :: master where
  "demo_retrying =
     (let t = (demo_task ''t0'' 0)\<lparr>tk_model_name := [], tk_preferred := ''a'', tk_retry_count := 1,
                                    tk_next_retry_at := 130\<rparr>;
          c = demo_master (\<lambda>_. t)
      in on_td (\<lambda>td. td\<lparr>td_tasks := [(''t0'', 0)], td_retry := [0]\<rparr>) c)"

lemma cancel_quiet:
  assumes "dget (td_tasks (ms_td c)) tid = Some r" and "live (the_task r c)" and "td_queue (ms_td c) = []"
    and "tk_sub_tasks (the_task r c) = []"
  shows "snd (cancel_task now tid reason subs c)"
    "the_task r (fst (cancel_task now tid reason subs c)) = (the_task r c)\<lparr>tk_cancel_reason := str_or reason ''user cancelled'',
        tk_assigned := [], tk_status := CANCELLED, tk_error := str_or reason ''user cancelled''\<rparr>"
    "td_retry (ms_td (fst (cancel_task now tid reason subs c))) = td_retry (ms_td c)"
    "td_tasks (ms_td (fst (cancel_task now tid reason subs c))) = td_tasks (ms_td c)"
    "ms_reg (fst (cancel_task now tid reason subs c)) = free_slots (tk_assigned (the_task r c)) (ms_reg c)"
    "ms_ha (fst (cancel_task now tid reason subs c)) = ms_ha c"
    "td_tenant_max (ms_td (fst (cancel_task now tid reason subs c))) = td_tenant_max (ms_td c)"
    "td_quotas (ms_td (fst (cancel_task now tid reason subs c))) = td_quotas (ms_td c)"
proof -
  define c3 where "c3 = set_task r (\<lambda>t. t\<lparr>tk_status := CANCELLED, tk_error := tk_cancel_reason t\<rparr>)
     (on_td (drop_queued tid)
       (set_task r (\<lambda>t. t\<lparr>tk_cancel_reason := str_or reason ''user cancelled'', tk_assigned := []\<rparr>)
         (release (tk_assigned (the_task r c)) c)))"
  define c4 where "c4 = on_td (write_task_store now (persist_snapshot (ms_td c3)))
      (on_td (emit_task_event r ''cancelled'' []) c3)"
  have q: "td_queue (ms_td c4) = []"
    using assms(3) by (simp add: c4_def c3_def drop_queued_def write_task_store_def emit_task_event_def upd_task_def Let_def)
  have "cancel_task now tid reason subs c = (drain_pending now c4, True)"
    using assms(1,2,4) by (simp add: cancel_task_def Let_def the_task_def cancel_subs.simps c4_def c3_def)
  then have eq: "cancel_task now tid reason subs c = (c4, True)" using q by (simp add: drain_pending_def)
  show "snd (cancel_task now tid reason subs c)"
    "the_task r (fst (cancel_task now tid reason subs c)) = (the_task r c)\<lparr>tk_cancel_reason := str_or reason ''user cancelled'',
        tk_assigned := [], tk_status := CANCELLED, tk_error := str_or reason ''user cancelled''\<rparr>"
    "td_retry (ms_td (fst (cancel_task now tid reason subs c))) = td_retry (ms_td c)"
    "td_tasks (ms_td (fst (cancel_task now tid reason subs c))) = td_tasks (ms_td c)"
    "ms_reg (fst (cancel_task now tid reason subs c)) = free_slots (tk_assigned (the_task r c)) (ms_reg c)"
    "ms_ha (fst (cancel_task now tid reason subs c)) = ms_ha c"
    "td_tenant_max (ms_td (fst (cancel_task now tid reason subs c))) = td_tenant_max (ms_td c)"
    "td_quotas (ms_td (fst (cancel_task now tid reason subs c))) = td_quotas (ms_td c)"
    unfolding eq
    by (simp_all add: c4_def c3_def the_task_def drop_queued_def write_task_store_def emit_task_event_def
        upd_task_def Let_def)
qed

text \<open>A cancelled task can come back: a task waiting in the retry list can be cancelled, the
  cancellation reports success and leaves the task CANCELLED, and the next round of the retry loop
  whose back-off time has passed starts it again on a node.\<close>

theorem cancelled_task_is_started_again:
  "\<exists>c c1. get_task ''t0'' (ms_td c) \<noteq> None \<and> sched_inv c \<and> serving c \<and>
      cancel_task 110 ''t0'' [] True c = (c1, True) \<and> tk_status (the_task 0 c1) = CANCELLED \<and>
      tk_status (the_task 0 (retry_round 140 c1)) = RUNNING \<and> tk_assigned (the_task 0 (retry_round 140 c1)) = [''a'']"
proof -
  let ?c = demo_retrying
  define c1 where "c1 = fst (cancel_task 110 ''t0'' [] True ?c)"
  have t: "the_task 0 ?c = (demo_task ''t0'' 0)\<lparr>tk_model_name := [], tk_preferred := ''a'', tk_retry_count := 1,
      tk_next_retry_at := 130\<rparr>"
    by (simp add: demo_retrying_def demo_master_def the_task_def Let_def)
  have tab: "td_tasks (ms_td ?c) = [(''t0'', 0)]" "td_queue (ms_td ?c) = []" "td_retry (ms_td ?c) = [0]"
    "td_tenant_max (ms_td ?c) = 4" "td_quotas (ms_td ?c) = []"
    by (simp_all add: demo_retrying_def demo_master_def tasks_init_def Let_def)
  have reg: "ms_reg ?c = ms_reg (demo_master (\<lambda>_. demo_task [] 0))" "ms_ha ?c = ha_single"
    by (simp_all add: demo_retrying_def demo_master_def Let_def)
  note q = cancel_quiet [of ?c "''t0''" 0 110 "[]" True, folded c1_def, unfolded tab t]
  have pre: "dget [(''t0'', 0)] ''t0'' = Some 0" "live (the_task 0 ?c)" "tk_sub_tasks (the_task 0 ?c) = []"
    by (simp_all add: t live_def demo_task_def)
  note sel = q [OF pre(1) pre(2) [unfolded t] refl pre(3) [unfolded t]]
  have inv: "sched_inv ?c" "serving ?c"
    using demo_master_ok [of "\<lambda>_. demo_task [] 0"]
    by (auto simp: sched_inv_def tasks_wf_def ledger_def reg tab get_task_def inflight_count_for_node_def task_list_def
        serving_def ha_single_def dwf_def demo_master_def tasks_init_def t [unfolded the_task_def] demo_task_def
        assigned_ok_def split: if_splits)
  let ?d = "on_td (\<lambda>td. td\<lparr>td_retry := []\<rparr>) c1"
  have td: "the_task 0 ?d = the_task 0 c1" by (simp add: the_task_def)
  obtain e ok where e: "assign_task 140 0 ?d = (e, ok)" by fastforce
  obtain n where n: "dget (rg_nodes (ms_reg ?d)) ''a'' = Some n" "nd_status n = ONLINE" "active_tasks n < max_tasks n"
    "2 \<le> available_memory_gb n"
    by (auto simp: sel reg demo_task_def free_slots_def demo_master_def registry_init_def slot_node_def demo_info_def)
  obtain d where d: "local_force 140 2 0 ?d = Some d"
    using n by (auto simp: local_force_def Let_def td sel is_local_force_def demo_task_def already_running_def
        get_task_def the_task_def [symmetric])
  have idle: "\<not> already_running (tk_id (the_task 0 ?d)) ?d"
    by (simp add: already_running_def get_task_def sel the_task_def [symmetric] demo_task_def)
  have "assign_task 140 0 ?d = (d, True)"
    using idle d by (simp add: assign_task_def Let_def td sel reg assign_refused_def ha_single_def demo_task_def
        estimate_memory_def tenant_limit_for_def running_count_for_user_def task_list_def the_task_def [symmetric])
  then have "retry_round 140 c1 = d"
    by (simp add: retry_round_def sel retry_one_def Let_def td demo_task_def MAX_RETRY_LOOP_ATTEMPTS_def assign_or_retry_def)
  moreover have "tk_status (the_task 0 d) = RUNNING" "tk_assigned (the_task 0 d) = [''a'']"
    using local_force_starts(1) [OF d idle] by (simp_all add: the_task_def [of 0 d] td sel demo_task_def)
  moreover have "cancel_task 110 ''t0'' [] True ?c = (c1, True)" using sel(1) by (simp add: c1_def prod_eq_iff)
  ultimately show ?thesis
    using inv sel(2) by (intro exI [of _ ?c] exI [of _ c1]) (simp add: get_task_def tab)
qed

end
