(* ===== verification/PyText.thy ===== *)
theory PyText
  imports Prelude "HOL-Library.Word" "HOL-Library.Sublist"
begin

text \<open>
  The operations of Python strings and bytes the components use, on ASCII text: \<open>strip\<close>, \<open>split\<close> at the
  first occurrence, containment, the regular expressions \<open>^[class]+$\<close>, whose \<open>$\<close> also matches before a
  newline at the end, \<open>bytes.hex\<close> and \<open>bytes.fromhex\<close>, truth of JSON values and conversions of them.
\<close>

abbreviation (input) nl :: char where "nl \<equiv> CHR 0x0A"

definition is_space :: "char \<Rightarrow> bool" where
  "is_space c \<longleftrightarrow> (of_char c :: nat) \<in> set [9, 10, 11, 12, 13, 28, 29, 30, 31, 32]"

definition py_strip :: "string \<Rightarrow> string" where
  "py_strip s = rev (dropWhile is_space (rev (dropWhile is_space s)))"

definition is_alpha :: "char \<Rightarrow> bool" where
  "is_alpha c \<longleftrightarrow> (let n = (of_char c :: nat) in (65 \<le> n \<and> n \<le> 90) \<or> (97 \<le> n \<and> n \<le> 122))"

definition is_num :: "char \<Rightarrow> bool" where
  "is_num c \<longleftrightarrow> (let n = (of_char c :: nat) in 48 \<le> n \<and> n \<le> 57)"

definition is_alnum :: "char \<Rightarrow> bool" where
  "is_alnum c \<longleftrightarrow> is_alpha c \<or> is_num c"

definition py_lower :: "string \<Rightarrow> string" where
  "py_lower s = map (\<lambda>c. let n = (of_char c :: nat) in if 65 \<le> n \<and> n \<le> 90 then char_of (n + 32) else c) s"

text \<open>\<open>needle in s\<close>, \<open>s.startswith(p)\<close>, \<open>s.endswith(p)\<close>.\<close>

fun contains :: "string \<Rightarrow> string \<Rightarrow> bool" where
  "contains needle [] = (needle = [])"
| "contains needle (c # cs) = (prefix needle (c # cs) \<or> contains needle cs)"

abbreviation starts_with :: "string \<Rightarrow> string \<Rightarrow> bool" where
  "starts_with s p \<equiv> prefix p s"

abbreviation ends_with :: "string \<Rightarrow> string \<Rightarrow> bool" where
  "ends_with s p \<equiv> suffix p s"

text \<open>\<open>s.split(sep, 1)\<close> at a character that occurs, and \<open>s.find(sep)\<close>.\<close>

definition split_first :: "char \<Rightarrow> string \<Rightarrow> (string \<times> string) option" where
  "split_first sep s =
     (if sep \<in> set s then Some (takeWhile (\<lambda>c. c \<noteq> sep) s, tl (dropWhile (\<lambda>c. c \<noteq> sep) s)) else None)"

text \<open>\<open>re.match(r"^[class]+$", s)\<close>.\<close>

definition re_class :: "(char \<Rightarrow> bool) \<Rightarrow> string \<Rightarrow> bool" where
  "re_class P s \<longleftrightarrow>
     (let t = (if s \<noteq> [] \<and> last s = nl \<and> \<not> P nl then butlast s else s) in t \<noteq> [] \<and> list_all P t)"

lemma contains_iff: "contains needle s \<longleftrightarrow> (\<exists>u v. s = u @ needle @ v)"
proof (induction s)
  case (Cons c cs)
  note IH = Cons.IH
  show ?case
  proof
    assume "contains needle (c # cs)"
    then consider v where "c # cs = needle @ v" | u v where "cs = u @ needle @ v"
      using IH by (auto simp: prefix_def)
    then show "\<exists>u v. c # cs = u @ needle @ v"
    proof cases
      case (1 v)
      then show ?thesis by (intro exI [of _ "[]"] exI [of _ v]) simp
    next
      case (2 u v)
      then show ?thesis by (intro exI [of _ "c # u"] exI [of _ v]) simp
    qed
  next
    assume "\<exists>u v. c # cs = u @ needle @ v"
    then obtain u v where uv: "c # cs = u @ needle @ v" by blast
    show "contains needle (c # cs)"
    proof (cases u)
      case Nil
      then have "prefix needle (c # cs)" using uv by (simp add: prefix_def)
      then show ?thesis by simp
    next
      case (Cons d u')
      then show ?thesis using uv IH by auto
    qed
  qed
qed auto

lemma contains_char: "contains [c] s \<longleftrightarrow> c \<in> set s"
  by (auto simp: contains_iff in_set_conv_decomp)

lemma split_first_append:
  "sep \<notin> set a \<Longrightarrow> split_first sep (a @ sep # b) = Some (a, b)"
  by (induction a) (auto simp: split_first_def)

lemma split_first_Some:
  "split_first sep s = Some (a, b) \<Longrightarrow> s = a @ sep # b \<and> sep \<notin> set a"
proof -
  assume a: "split_first sep s = Some (a, b)"
  then have m: "sep \<in> set s" and ab: "a = takeWhile (\<lambda>c. c \<noteq> sep) s" "b = tl (dropWhile (\<lambda>c. c \<noteq> sep) s)"
    by (auto simp: split_first_def split: if_splits)
  have "dropWhile (\<lambda>c. c \<noteq> sep) s \<noteq> []" using m by auto
  then have "dropWhile (\<lambda>c. c \<noteq> sep) s = sep # b"
    using hd_dropWhile [of "\<lambda>c. c \<noteq> sep" s] ab by (cases "dropWhile (\<lambda>c. c \<noteq> sep) s") auto
  then have "s = a @ sep # b" using ab takeWhile_dropWhile_id [of "\<lambda>c. c \<noteq> sep" s] by simp
  moreover have "sep \<notin> set a" using ab set_takeWhileD [of sep "\<lambda>c. c \<noteq> sep" s] by auto
  ultimately show ?thesis by simp
qed

lemma re_class_iff:
  "\<not> P nl \<Longrightarrow> re_class P s \<longleftrightarrow> (\<exists>t. t \<noteq> [] \<and> list_all P t \<and> (s = t \<or> s = t @ [nl]))"
  by (cases s rule: rev_cases) (auto simp: re_class_def)

subsection \<open>Hexadecimal\<close>

type_synonym byte = "8 word"

definition hex_digit :: "nat \<Rightarrow> char" where
  "hex_digit n = (if n < 10 then char_of (48 + n) else char_of (87 + n))"

definition hex_value :: "char \<Rightarrow> nat option" where
  "hex_value c =
     (let n = (of_char c :: nat)
      in if 48 \<le> n \<and> n \<le> 57 then Some (n - 48)
         else if 97 \<le> n \<and> n \<le> 102 then Some (n - 87)
         else if 65 \<le> n \<and> n \<le> 70 then Some (n - 55) else None)"

definition bytes_hex :: "byte list \<Rightarrow> string" where
  "bytes_hex bs = concat (map (\<lambda>b. [hex_digit (unat b div 16), hex_digit (unat b mod 16)]) bs)"

fun bytes_fromhex :: "string \<Rightarrow> byte list option" where
  "bytes_fromhex [] = Some []"
| "bytes_fromhex [c] = (if is_space c then Some [] else None)"
| "bytes_fromhex (c # d # cs) =
     (if is_space c then bytes_fromhex (d # cs)
      else case (hex_value c, hex_value d) of
             (Some x, Some y) \<Rightarrow> map_option ((#) (word_of_nat (16 * x + y))) (bytes_fromhex cs)
           | _ \<Rightarrow> None)"

lemma hex_value_digit: "n < 16 \<Longrightarrow> hex_value (hex_digit n) = Some n"
  by (auto simp: hex_value_def hex_digit_def Let_def)

lemma hex_digit_not_space: "n < 16 \<Longrightarrow> \<not> is_space (hex_digit n)"
  by (auto simp: is_space_def hex_digit_def)

lemma fromhex_hex: "bytes_fromhex (bytes_hex bs) = Some bs"
proof (induction bs)
  case (Cons b bs)
  have b: "unat b < 256" using unsigned_less [of b] by simp
  then have "unat b div 16 < 16" "unat b mod 16 < 16" by simp_all
  moreover have "16 * (unat b div 16) + unat b mod 16 = unat b" by simp
  ultimately show ?case
    using Cons by (simp add: bytes_hex_def hex_value_digit hex_digit_not_space del: mult_div_mod_eq)
qed (simp add: bytes_hex_def)

subsection \<open>JSON values\<close>

text \<open>\<open>bool(v)\<close>.\<close>

definition truthy :: "json \<Rightarrow> bool" where
  "truthy v =
     (case v of JNull \<Rightarrow> False | JBool b \<Rightarrow> b | JInt i \<Rightarrow> i \<noteq> 0 | JReal x \<Rightarrow> x \<noteq> 0
      | JStr s \<Rightarrow> s \<noteq> [] | JList xs \<Rightarrow> xs \<noteq> [] | JObj d \<Rightarrow> d \<noteq> [])"

text \<open>
  \<open>float(v)\<close>, \<open>int(v)\<close> and \<open>str(v)\<close>; the spelling of numbers in strings and the printing of values that
  are not strings are the interpreter's and stay parameters.
\<close>

record py_conv =
  pc_float :: "string \<Rightarrow> real option"
  pc_int :: "string \<Rightarrow> int option"
  pc_str :: "json \<Rightarrow> string"

definition to_float :: "py_conv \<Rightarrow> json \<Rightarrow> real option" where
  "to_float pc v =
     (case v of JReal x \<Rightarrow> Some x | JInt i \<Rightarrow> Some (real_of_int i) | JBool b \<Rightarrow> Some (if b then 1 else 0)
      | JStr s \<Rightarrow> pc_float pc s | _ \<Rightarrow> None)"

definition to_int :: "py_conv \<Rightarrow> json \<Rightarrow> int option" where
  "to_int pc v =
     (case v of JInt i \<Rightarrow> Some i | JReal x \<Rightarrow> Some (if x \<ge> 0 then \<lfloor>x\<rfloor> else \<lceil>x\<rceil>)
      | JBool b \<Rightarrow> Some (if b then 1 else 0) | JStr s \<Rightarrow> pc_int pc s | _ \<Rightarrow> None)"

definition to_str :: "py_conv \<Rightarrow> json \<Rightarrow> string" where
  "to_str pc v = (case v of JStr s \<Rightarrow> s | _ \<Rightarrow> pc_str pc v)"

text \<open>\<open>d.get(k, v)\<close> on a JSON object.\<close>

definition jget :: "(string, json) dict \<Rightarrow> string \<Rightarrow> json \<Rightarrow> json" where
  "jget d k v = (case dget d k of None \<Rightarrow> v | Some x \<Rightarrow> x)"

text \<open>\<open>list(v)\<close> of a list of strings.\<close>

fun strs :: "json list \<Rightarrow> string list option" where
  "strs [] = Some []"
| "strs (JStr s # xs) = map_option ((#) s) (strs xs)"
| "strs (_ # xs) = None"

definition to_strs :: "json \<Rightarrow> string list option" where
  "to_strs v = (case v of JList xs \<Rightarrow> strs xs | JStr s \<Rightarrow> Some (map (\<lambda>c. [c]) s) | _ \<Rightarrow> None)"

lemma strs_map [simp]: "strs (map JStr ss) = Some ss"
  by (induction ss) simp_all

lemma json_conv_simps [simp]:
  "to_float pc (JReal x) = Some x" "to_int pc (JInt i) = Some i" "to_str pc (JStr s) = s"
  "to_strs (JList (map JStr ss)) = Some ss" "truthy (JBool b) = b"
  by (simp_all add: to_float_def to_int_def to_str_def to_strs_def truthy_def)

subsection \<open>Decimal numbers and iteration\<close>

fun dec_digits :: "nat \<Rightarrow> string" where
  "dec_digits n = (if n < 10 then [char_of (48 + n)] else dec_digits (n div 10) @ [char_of (48 + n mod 10)])"

declare dec_digits.simps [simp del]

definition dec_value :: "string \<Rightarrow> nat" where
  "dec_value ds = foldl (\<lambda>a c. 10 * a + (of_char c - 48)) 0 ds"

lemma foldl_replicate_0: "foldl (\<lambda>a c. 10 * a + (of_char c - 48)) (0 :: nat) (replicate k (CHR ''0'')) = 0"
  by (induction k) simp_all

lemma dec_value_digits: "dec_value (dec_digits n) = n"
proof (induction n rule: dec_digits.induct)
  case (1 n)
  then show ?case
    by (subst dec_digits.simps) (auto simp: dec_value_def of_char_of)
qed

lemma digits_decimal: "\<forall>c \<in> set (dec_digits n). of_char c \<in> {48..<58 :: nat}"
proof (induction n rule: dec_digits.induct)
  case (1 n)
  then show ?case
    by (subst dec_digits.simps) (auto simp: of_char_of)
qed

lemma no_digit: "of_char c < (48 :: nat) \<or> 58 \<le> (of_char c :: nat) \<Longrightarrow> c \<notin> set (dec_digits n)"
  using digits_decimal [of n] by fastforce

lemma dec_digits_inj [simp]: "dec_digits n = dec_digits m \<longleftrightarrow> n = m"
  using dec_value_digits by metis

text \<open>The part of a text after its last separator is determined by the text.\<close>

lemma after_last: "c \<notin> set x \<Longrightarrow> c \<notin> set y \<Longrightarrow> a @ c # x = b @ c # y \<Longrightarrow> a = b \<and> x = y"
proof -
  assume *: "c \<notin> set x" "c \<notin> set y" "a @ c # x = b @ c # y"
  have tail: "takeWhile (\<lambda>d. d \<noteq> c) (rev (u @ c # v)) = rev v" if "c \<notin> set v" for u v
    using that by (simp add: takeWhile_append)
  have "rev x = rev y" using tail [OF *(1), of a] tail [OF *(2), of b] *(3) by simp
  then show "a = b \<and> x = y" using *(3) by simp
qed

text \<open>What iterating over a JSON value gives: the elements of a list, the characters of a text, the keys of an
  object.\<close>

definition iterated :: "json \<Rightarrow> json list option" where
  "iterated v =
     (case v of JList vs \<Rightarrow> Some vs | JStr cs \<Rightarrow> Some (map (\<lambda>c. JStr [c]) cs)
      | JObj d \<Rightarrow> Some (map (\<lambda>(k, _). JStr k) d) | _ \<Rightarrow> None)"

end
