(* ===== verification/Permission.thy ===== *)
theory Permission
  imports PyText
begin

text \<open>
  Access control (\<open>security/permission.py\<close>): the permissions of node roles with the path map of
  \<open>PermissionManager\<close>, and the user layer, the map from method and path to the permission a user's
  role must have, with its prefix rule and the rule for operations on a task.
\<close>

datatype node_role = MASTER | WORKER

datatype user_role = ADMIN | USER | VIEWER

datatype permission =
  NODE_REGISTER | NODE_LIST | NODE_DELETE | NODE_HEARTBEAT | TASK_SUBMIT | TASK_LIST | TASK_CANCEL |
  TASK_MIGRATE | TASK_EXECUTE | KV_REGISTER | KV_FIND | KV_LOOKUP | KV_TRANSFER | CLUSTER_STATS |
  APPROVAL_LIST | APPROVAL_APPROVE | HARDWARE_READ

fun ROLE_PERMISSIONS :: "node_role \<Rightarrow> permission list" where
  "ROLE_PERMISSIONS MASTER =
     [NODE_REGISTER, NODE_LIST, NODE_DELETE, NODE_HEARTBEAT, TASK_SUBMIT, TASK_LIST, TASK_CANCEL,
      TASK_MIGRATE, TASK_EXECUTE, KV_REGISTER, KV_FIND, CLUSTER_STATS, APPROVAL_LIST, APPROVAL_APPROVE]"
| "ROLE_PERMISSIONS WORKER = [NODE_HEARTBEAT, TASK_EXECUTE, KV_LOOKUP, KV_TRANSFER, HARDWARE_READ]"

definition PATH_PERMISSION_MAP :: "(string, permission) dict" where
  "PATH_PERMISSION_MAP =
     [(''/api/nodes/register'', NODE_REGISTER),
      (''/api/nodes'', NODE_LIST),
      (''/api/nodes/heartbeat'', NODE_HEARTBEAT),
      (''/api/tasks/submit'', TASK_SUBMIT),
      (''/api/tasks'', TASK_LIST),
      (''/api/tasks/cancel'', TASK_CANCEL),
      (''/api/tasks/migrate'', TASK_MIGRATE),
      (''/api/execute'', TASK_EXECUTE),
      (''/api/v1/chat/completions'', TASK_EXECUTE),
      (''/api/schedules'', TASK_EXECUTE),
      (''/api/kv/register'', KV_REGISTER),
      (''/api/kv/find'', KV_FIND),
      (''/api/kv/lookup'', KV_LOOKUP),
      (''/api/kv/transfer'', KV_TRANSFER),
      (''/api/kv/warm'', KV_TRANSFER),
      (''/api/cluster/stats'', CLUSTER_STATS),
      (''/api/approval/list'', APPROVAL_LIST),
      (''/api/approval/approve'', APPROVAL_APPROVE),
      (''/api/hardware'', HARDWARE_READ),
      (''/api/v1/audit/chain'', NODE_LIST),
      (''/api/rules/epoch'', NODE_HEARTBEAT)]"

record role_assignment =
  ra_node_id :: string
  ra_role :: node_role
  ra_assigned_at :: time
  ra_assigned_by :: string

type_synonym permission_manager = "(string, role_assignment) dict"

definition assign_role :: "time \<Rightarrow> string \<Rightarrow> node_role \<Rightarrow> string \<Rightarrow> permission_manager \<Rightarrow> permission_manager" where
  "assign_role now nid role by_whom pm =
     dset pm nid \<lparr>ra_node_id = nid, ra_role = role, ra_assigned_at = now, ra_assigned_by = by_whom\<rparr>"

definition get_role :: "string \<Rightarrow> permission_manager \<Rightarrow> node_role option" where
  "get_role nid pm = map_option ra_role (dget pm nid)"

definition has_permission :: "string \<Rightarrow> permission \<Rightarrow> permission_manager \<Rightarrow> bool" where
  "has_permission nid p pm =
     (case dget pm nid of None \<Rightarrow> False | Some a \<Rightarrow> p \<in> set (ROLE_PERMISSIONS (ra_role a)))"

definition node_exempt_paths :: "string list" where
  "node_exempt_paths = [''/api/health'', ''/docs'', ''/openapi.json'', ''/redoc'', ''/'', ''/favicon.ico'']"

text \<open>\<open>path.startswith((api_path + "/", api_path))\<close>: the second alternative makes the first redundant.\<close>

definition check_path_access :: "string \<Rightarrow> string \<Rightarrow> string \<Rightarrow> permission_manager \<Rightarrow> bool" where
  "check_path_access nid path meth pm =
     (if path \<in> set node_exempt_paths then True
      else case dget PATH_PERMISSION_MAP path of
        Some p \<Rightarrow> has_permission nid p pm
      | None \<Rightarrow>
          (case find (\<lambda>(api, p). starts_with path (api @ ''/'') \<or> starts_with path api) PATH_PERMISSION_MAP of
             Some (_, p) \<Rightarrow> has_permission nid p pm
           | None \<Rightarrow>
               if meth = ''DELETE'' \<and> contains ''/api/nodes/'' path then has_permission nid NODE_DELETE pm
               else if contains ''/cancel'' path then has_permission nid TASK_CANCEL pm
               else if contains ''/migrate'' path then has_permission nid TASK_MIGRATE pm
               else False))"

definition get_permissions :: "string \<Rightarrow> permission_manager \<Rightarrow> permission list" where
  "get_permissions nid pm = (case dget pm nid of None \<Rightarrow> [] | Some a \<Rightarrow> ROLE_PERMISSIONS (ra_role a))"

definition remove_assignment :: "string \<Rightarrow> permission_manager \<Rightarrow> permission_manager" where
  "remove_assignment nid pm = dpop pm nid"

subsection \<open>Users\<close>

fun USER_ROLE_PERMISSIONS :: "user_role \<Rightarrow> string list" where
  "USER_ROLE_PERMISSIONS ADMIN =
     [''user:manage'', ''task:submit'', ''task:cancel'', ''task:list'', ''task:migrate'', ''task:degrade'',
      ''node:list'', ''cluster:stats'', ''observability:read'', ''chat:complete'', ''kv:read'']"
| "USER_ROLE_PERMISSIONS USER =
     [''task:submit'', ''task:cancel'', ''task:list'', ''node:list'', ''cluster:stats'',
      ''observability:read'', ''chat:complete'', ''kv:read'']"
| "USER_ROLE_PERMISSIONS VIEWER = [''task:list'', ''node:list'', ''cluster:stats'', ''observability:read'']"

definition USER_PATH_PERMISSION_MAP :: "(string \<times> string, string) dict" where
  "USER_PATH_PERMISSION_MAP =
     [((''POST'', ''/api/tasks/submit''), ''task:submit''),
      ((''POST'', ''/api/v1/tasks/submit''), ''task:submit''),
      ((''POST'', ''/api/tasks/cancel''), ''task:cancel''),
      ((''POST'', ''/api/v1/tasks''), ''task:cancel''),
      ((''GET'', ''/api/tasks''), ''task:list''),
      ((''GET'', ''/api/v1/tasks''), ''task:list''),
      ((''POST'', ''/api/tasks/migrate''), ''task:migrate''),
      ((''POST'', ''/api/v1/tasks/migrate''), ''task:migrate''),
      ((''POST'', ''/api/tasks/degrade''), ''task:degrade''),
      ((''POST'', ''/api/v1/tasks/degrade''), ''task:degrade''),
      ((''GET'', ''/api/nodes''), ''node:list''),
      ((''GET'', ''/api/v1/nodes''), ''node:list''),
      ((''GET'', ''/api/cluster/stats''), ''cluster:stats''),
      ((''GET'', ''/api/v1/cluster/stats''), ''cluster:stats''),
      ((''POST'', ''/api/sessions''), ''task:submit''),
      ((''GET'', ''/api/sessions''), ''task:list''),
      ((''DELETE'', ''/api/sessions''), ''task:submit''),
      ((''GET'', ''/api/v1/session-store''), ''task:list''),
      ((''PUT'', ''/api/v1/session-store''), ''task:submit''),
      ((''DELETE'', ''/api/v1/session-store''), ''task:submit''),
      ((''POST'', ''/api/v1/session-store''), ''task:submit''),
      ((''GET'', ''/api/v1/runs''), ''task:list''),
      ((''GET'', ''/api/v1/observability/suggestions''), ''observability:read''),
      ((''GET'', ''/api/v1/observability/alerts''), ''observability:read''),
      ((''GET'', ''/api/v1/observability/logs/export''), ''observability:read''),
      ((''GET'', ''/api/v1/metrics''), ''cluster:stats''),
      ((''GET'', ''/api/v1/nodes/metrics''), ''cluster:stats''),
      ((''POST'', ''/api/v1/config/reload''), ''user:manage''),
      ((''GET'', ''/api/kv/find''), ''kv:read''),
      ((''GET'', ''/api/v1/kv/find''), ''kv:read''),
      ((''POST'', ''/v1/chat/completions''), ''chat:complete''),
      ((''POST'', ''/api/v1/users''), ''user:manage''),
      ((''GET'', ''/api/v1/users''), ''user:manage''),
      ((''DELETE'', ''/api/v1/users''), ''user:manage''),
      ((''POST'', ''/api/v1/users/tokens''), ''user:manage''),
      ((''DELETE'', ''/api/v1/users/tokens''), ''user:manage''),
      ((''POST'', ''/api/ha/vote''), ''CLUSTER_INTERNAL''),
      ((''POST'', ''/api/ha/sync-tasks''), ''CLUSTER_INTERNAL''),
      ((''POST'', ''/api/ha/sync-state''), ''CLUSTER_INTERNAL''),
      ((''POST'', ''/api/ha/heartbeat''), ''CLUSTER_INTERNAL''),
      ((''POST'', ''/api/nodes/register''), ''CLUSTER_INTERNAL''),
      ((''POST'', ''/api/v1/nodes/register''), ''CLUSTER_INTERNAL''),
      ((''POST'', ''/api/nodes/heartbeat''), ''CLUSTER_INTERNAL''),
      ((''POST'', ''/api/sync/incremental''), ''CLUSTER_INTERNAL''),
      ((''POST'', ''/api/join''), ''CLUSTER_INTERNAL''),
      ((''POST'', ''/api/nodes/approve''), ''CLUSTER_INTERNAL''),
      ((''POST'', ''/api/nodes/reject''), ''CLUSTER_INTERNAL''),
      ((''POST'', ''/api/kv/register''), ''CLUSTER_INTERNAL''),
      ((''POST'', ''/api/kv/sync''), ''CLUSTER_INTERNAL''),
      ((''GET'', ''/api/v1/audit/chain''), ''CLUSTER_INTERNAL''),
      ((''GET'', ''/api/v1/rules/epoch''), ''cluster:stats''),
      ((''POST'', ''/api/v1/rules/epoch/advance''), ''user:manage''),
      ((''POST'', ''/api/rules/epoch''), ''CLUSTER_INTERNAL''),
      ((''POST'', ''/api/confirm''), ''CLUSTER_INTERNAL''),
      ((''GET'', ''/api/v1/confirms''), ''CLUSTER_INTERNAL'')]"

definition USER_EXEMPT_PATHS :: "string list" where
  "USER_EXEMPT_PATHS =
     [''/api/health'', ''/health'', ''/docs'', ''/openapi.json'', ''/redoc'', ''/'', ''/favicon.ico'']"

text \<open>\<open>path.rsplit("/", 1)[-1]\<close>.\<close>

definition last_segment :: "string \<Rightarrow> string" where
  "last_segment s = rev (takeWhile (\<lambda>c. c \<noteq> CHR ''/'') (rev s))"

definition task_op_permission :: "string \<Rightarrow> string option" where
  "task_op_permission tail =
     (if tail = ''cancel'' then Some ''task:cancel''
      else if tail = ''migrate'' then Some ''task:migrate''
      else if tail = ''degrade'' then Some ''task:degrade'' else None)"

text \<open>The permission a request needs, in the order the code looks for it.\<close>

definition required_permission :: "string \<Rightarrow> string \<Rightarrow> string option" where
  "required_permission path meth =
     (case dget USER_PATH_PERMISSION_MAP (meth, path) of
        Some p \<Rightarrow> Some p
      | None \<Rightarrow>
          (case find (\<lambda>((m, p), pm). m = meth \<and> (path = p \<or> starts_with path (p @ ''/''))) USER_PATH_PERMISSION_MAP of
             Some (_, pm) \<Rightarrow> Some pm
           | None \<Rightarrow>
               if starts_with path ''/api/tasks/'' \<or> starts_with path ''/api/v1/tasks/''
               then (if meth \<in> {''POST'', ''PUT'', ''DELETE''} then task_op_permission (last_segment path)
                     else Some ''task:list'')
               else None))"

definition check_user_path_access :: "user_role \<Rightarrow> string \<Rightarrow> string \<Rightarrow> bool" where
  "check_user_path_access role path meth =
     (if path \<in> set USER_EXEMPT_PATHS then True
      else case required_permission path meth of
             None \<Rightarrow> False
           | Some p \<Rightarrow> if p = ''CLUSTER_INTERNAL'' then False else p \<in> set (USER_ROLE_PERMISSIONS role))"

subsection \<open>Properties\<close>

text \<open>Roles in order of power; the order is total, so that \<open>max\<close> and \<open>min\<close> of roles make sense.\<close>

fun role_rank :: "user_role \<Rightarrow> nat" where
  "role_rank VIEWER = 0" | "role_rank USER = 1" | "role_rank ADMIN = 2"

instantiation user_role :: linorder
begin

definition less_eq_user_role :: "user_role \<Rightarrow> user_role \<Rightarrow> bool" where
  "r \<le> s \<longleftrightarrow> role_rank r \<le> role_rank s"

definition less_user_role :: "user_role \<Rightarrow> user_role \<Rightarrow> bool" where
  "r < s \<longleftrightarrow> role_rank r < role_rank s"

instance
proof
  fix r s t :: user_role
  have inj: "role_rank r = role_rank s \<Longrightarrow> r = s" by (cases r; cases s) simp_all
  show "(r < s) = (r \<le> s \<and> \<not> s \<le> r)" "r \<le> r" "r \<le> s \<or> s \<le> r"
    by (auto simp: less_eq_user_role_def less_user_role_def)
  show "r \<le> s \<Longrightarrow> s \<le> t \<Longrightarrow> r \<le> t" by (simp add: less_eq_user_role_def)
  show "r \<le> s \<Longrightarrow> s \<le> r \<Longrightarrow> r = s" by (rule inj) (simp add: less_eq_user_role_def)
qed

end

lemma role_permission_chain:
  "list_all (\<lambda>p. p \<in> set (USER_ROLE_PERMISSIONS USER)) (USER_ROLE_PERMISSIONS VIEWER)"
  "list_all (\<lambda>p. p \<in> set (USER_ROLE_PERMISSIONS ADMIN)) (USER_ROLE_PERMISSIONS USER)"
  by code_simp+

lemma role_permissions_mono: "r \<le> s \<Longrightarrow> set (USER_ROLE_PERMISSIONS r) \<subseteq> set (USER_ROLE_PERMISSIONS s)"
proof -
  have "set (USER_ROLE_PERMISSIONS VIEWER) \<subseteq> set (USER_ROLE_PERMISSIONS USER)"
    "set (USER_ROLE_PERMISSIONS USER) \<subseteq> set (USER_ROLE_PERMISSIONS ADMIN)"
    using role_permission_chain unfolding list_all_iff by blast+
  moreover assume "r \<le> s"
  then have "r = s \<or> r = VIEWER \<and> s = USER \<or> r = USER \<and> s = ADMIN \<or> r = VIEWER \<and> s = ADMIN"
    by (cases r; cases s) (simp_all add: less_eq_user_role_def)
  ultimately show ?thesis by blast
qed

text \<open>A path is a route or lies below it.\<close>

definition under :: "string \<Rightarrow> string \<Rightarrow> bool" where
  "under p path \<longleftrightarrow> path = p \<or> starts_with path (p @ ''/'')"

lemma under_linear: "under p path \<Longrightarrow> under q path \<Longrightarrow> under p q \<or> under q p"
proof -
  assume "under p path" "under q path"
  then have "prefix (p @ ''/'') (path @ ''/'')" "prefix (q @ ''/'') (path @ ''/'')"
    by (auto simp: under_def intro: prefix_order.trans)
  then have "prefix (p @ ''/'') (q @ ''/'') \<or> prefix (q @ ''/'') (p @ ''/'')" by (rule prefix_same_cases)
  then show ?thesis by (auto simp: under_def prefix_snoc)
qed

text \<open>What the entries of the table that are comparable with a route say decides the requests under it.\<close>

definition decided :: "string \<Rightarrow> string \<times> string \<Rightarrow> bool" where
  "decided pm route \<longleftrightarrow>
     list_ex (\<lambda>(k, _). k = route) USER_PATH_PERMISSION_MAP \<and>
     list_all (\<lambda>((m, q), pm'). m = fst route \<and> (under (snd route) q \<or> under q (snd route)) \<longrightarrow> pm' = pm) USER_PATH_PERMISSION_MAP"

lemma find_mem: "find P xs = Some x \<Longrightarrow> x \<in> set xs \<and> P x"
  by (auto simp: find_Some_iff)

lemma decided_permission:
  assumes "decided pm (meth, p)" and "under p path"
  shows "required_permission path meth = Some pm"
proof -
  let ?M = "USER_PATH_PERMISSION_MAP"
  have all: "pm' = pm" if "((meth, q), pm') \<in> set ?M" "under p q \<or> under q p" for q pm'
    using assms(1) that by (fastforce simp: decided_def list_all_iff)
  show ?thesis
  proof (cases "dget ?M (meth, path)")
    case (Some x)
    then have "((meth, path), x) \<in> set ?M" by (rule dget_SomeD)
    then show ?thesis using all assms(2) Some by (simp add: required_permission_def)
  next
    case None
    let ?P = "\<lambda>((m, q), x). m = meth \<and> (path = q \<or> starts_with path (q @ ''/''))"
    obtain v where "((meth, p), v) \<in> set ?M" using assms(1) by (auto simp: decided_def list_ex_iff)
    moreover have "?P ((meth, p), v)" using assms(2) by (simp add: under_def)
    ultimately have "find ?P ?M \<noteq> None" unfolding find_None_iff by blast
    then obtain m q x where f: "find ?P ?M = Some ((m, q), x)" by auto
    from find_mem [OF f] have e: "((m, q), x) \<in> set ?M" "m = meth" "under q path"
      by (auto simp: under_def)
    then have "x = pm" using all [of q x] under_linear [OF assms(2)] by blast
    then show ?thesis using f None by (simp only: required_permission_def option.case prod.case)
  qed
qed

text \<open>The routes that only masters and nodes may call, and those for administrators: written out, so that the table is
  measured against them.\<close>

definition cluster_routes :: "(string \<times> string) list" where
  "cluster_routes =
     map (Pair ''POST'') [''/api/ha/vote'', ''/api/ha/sync-tasks'', ''/api/ha/sync-state'', ''/api/ha/heartbeat'',
       ''/api/nodes/register'', ''/api/v1/nodes/register'', ''/api/nodes/heartbeat'', ''/api/sync/incremental'', ''/api/join'',
       ''/api/nodes/approve'', ''/api/nodes/reject'', ''/api/kv/register'', ''/api/kv/sync'', ''/api/rules/epoch'', ''/api/confirm''] @
     map (Pair ''GET'') [''/api/v1/audit/chain'', ''/api/v1/confirms'']"

definition admin_routes :: "(string \<times> string) list" where
  "admin_routes =
     [(''GET'', ''/api/v1/users''), (''POST'', ''/api/v1/users''), (''DELETE'', ''/api/v1/users''),
      (''POST'', ''/api/v1/config/reload''), (''POST'', ''/api/v1/rules/epoch/advance'')]"

definition route_of :: "(string \<times> string) list \<Rightarrow> string \<Rightarrow> string \<Rightarrow> bool" where
  "route_of routes path meth \<longleftrightarrow> (\<exists>(m, p) \<in> set routes. m = meth \<and> under p path)"

lemma routes_decided:
  "list_all (decided ''CLUSTER_INTERNAL'') cluster_routes" "list_all (decided ''user:manage'') admin_routes"
  by code_simp+

lemma route_permission:
  "route_of cluster_routes path meth \<Longrightarrow> required_permission path meth = Some ''CLUSTER_INTERNAL''"
  "route_of admin_routes path meth \<Longrightarrow> required_permission path meth = Some ''user:manage''"
  using routes_decided decided_permission by (fastforce simp: route_of_def list_all_iff)+

lemma viewer_entries:
  "list_all (\<lambda>((m, _), pm). m \<in> {''POST'', ''PUT'', ''DELETE''} \<longrightarrow> pm \<notin> set (USER_ROLE_PERMISSIONS VIEWER)) USER_PATH_PERMISSION_MAP"
  by code_simp

lemma viewer_required:
  assumes "required_permission path meth = Some pm" and "pm \<in> set (USER_ROLE_PERMISSIONS VIEWER)"
  shows "meth \<notin> {''POST'', ''PUT'', ''DELETE''}"
proof
  assume m: "meth \<in> {''POST'', ''PUT'', ''DELETE''}"
  then have entry: "((meth, q), pm) \<notin> set USER_PATH_PERMISSION_MAP" for q
    using viewer_entries assms(2) by (fastforce simp: list_all_iff)
  then have "dget USER_PATH_PERMISSION_MAP (meth, path) \<noteq> Some pm" using dget_SomeD by fastforce
  moreover have "find (\<lambda>((m, p), x). m = meth \<and> (path = p \<or> starts_with path (p @ ''/''))) USER_PATH_PERMISSION_MAP \<noteq> Some ((m', q), pm)" for m' q
    using entry by (auto dest: find_mem)
  moreover have "task_op_permission (last_segment path) \<noteq> Some pm" using assms(2) by (auto simp: task_op_permission_def)
  ultimately show False
    using assms(1) m by (fastforce simp: required_permission_def split: option.splits if_splits)
qed

text \<open>C14: The user layer is closed by default, ordered and separated from the cluster: what a role is allowed on a path
  that is not exempt, it is allowed by a permission it holds, and stronger roles are allowed it too; it is neither one of
  the routes of masters and nodes nor below one (votes, heartbeats, synchronisation, registration, approval and joining of
  nodes, the key-value store, rule epochs, confirmations, the audit chain); on the routes for users, configuration and
  rules the role is the administrator's; and a viewer is allowed no request that writes.\<close>

theorem user_access_sound:
  assumes "check_user_path_access r path meth" and "path \<notin> set USER_EXEMPT_PATHS"
  shows "(\<exists>p. required_permission path meth = Some p \<and> p \<in> set (USER_ROLE_PERMISSIONS r)) \<and>
         (\<forall>s. r \<le> s \<longrightarrow> check_user_path_access s path meth) \<and>
         \<not> route_of cluster_routes path meth \<and>
         (route_of admin_routes path meth \<longrightarrow> r = ADMIN) \<and>
         (r = VIEWER \<longrightarrow> meth \<notin> {''POST'', ''PUT'', ''DELETE''})"
proof -
  obtain p where p: "required_permission path meth = Some p" "p \<noteq> ''CLUSTER_INTERNAL''"
    "p \<in> set (USER_ROLE_PERMISSIONS r)"
    using assms by (auto simp: check_user_path_access_def split: option.splits if_splits)
  have "check_user_path_access s path meth" if "r \<le> s" for s
    using p role_permissions_mono [OF that] by (auto simp: check_user_path_access_def)
  moreover have "\<not> route_of cluster_routes path meth" using route_permission(1) [of path meth] p(1,2) by auto
  moreover have "r = ADMIN" if "route_of admin_routes path meth"
    using route_permission(2) [OF that] p(1,3) by (cases r) auto
  moreover have "meth \<notin> {''POST'', ''PUT'', ''DELETE''}" if "r = VIEWER" using viewer_required [OF p(1)] p(3) that by blast
  ultimately show ?thesis using p by blast
qed

lemma user_access_sound_witness:
  "check_user_path_access ADMIN ''/api/tasks/t1/cancel'' ''POST'' \<and> \<not> route_of cluster_routes ''/api/tasks/t1/cancel'' ''POST''"
proof -
  have "check_user_path_access USER ''/api/tasks/t1/cancel'' ''POST''" by code_simp
  moreover have "''/api/tasks/t1/cancel'' \<notin> set USER_EXEMPT_PATHS" by code_simp
  ultimately show ?thesis using user_access_sound by (simp add: less_eq_user_role_def)
qed

lemma v1_keys:
  "list_all (\<lambda>((m, p), _). \<not> (prefix ''/api/v1/tasks/'' p \<and> length (filter (\<lambda>c. c = CHR ''/'') p) = 5)) USER_PATH_PERMISSION_MAP"
  by code_simp

lemma v1_task_path_permission:
  assumes "CHR ''/'' \<notin> set tid" and "CHR ''/'' \<notin> set op" and "tid \<noteq> ''submit''"
  shows "required_permission (''/api/v1/tasks/'' @ tid @ ''/'' @ op) ''POST'' = Some ''task:cancel''"
proof -
  let ?p = "''/api/v1/tasks/'' @ tid @ ''/'' @ op"
  have "(''POST'', ?p) \<notin> set (dkeys USER_PATH_PERMISSION_MAP)"
  proof
    assume "(''POST'', ?p) \<in> set (dkeys USER_PATH_PERMISSION_MAP)"
    then obtain v where "((''POST'', ?p), v) \<in> set USER_PATH_PERMISSION_MAP" by auto
    with v1_keys have "\<not> (prefix ''/api/v1/tasks/'' ?p \<and> length (filter (\<lambda>c. c = CHR ''/'') ?p) = 5)"
      by (fastforce simp: list_all_iff)
    moreover have "filter (\<lambda>c. c = CHR ''/'') tid = []" "filter (\<lambda>c. c = CHR ''/'') op = []"
      using assms by (auto simp: filter_empty_conv)
    ultimately show False by simp
  qed
  then have none: "dget USER_PATH_PERMISSION_MAP (''POST'', ?p) = None" by (rule iffD2 [OF dget_None_iff])
  have "\<not> prefix ''submit/'' (tid @ ''/'' @ op)"
  proof
    assume "prefix ''submit/'' (tid @ ''/'' @ op)"
    then obtain r where r: "''submit'' @ CHR ''/'' # r = tid @ CHR ''/'' # op" by (auto simp: prefix_def)
    have "split_first (CHR ''/'') (''submit'' @ CHR ''/'' # r) = Some (''submit'', r)"
      by (rule split_first_append) simp
    then show False using r split_first_append [OF assms(1), of op] assms(3) by simp
  qed
  moreover have "tid @ CHR ''/'' # op \<noteq> ''submit''"
  proof
    assume "tid @ CHR ''/'' # op = ''submit''"
    then have "CHR ''/'' \<in> set ''submit''" by (metis in_set_conv_decomp)
    then show False by simp
  qed
  ultimately have "find (\<lambda>((m, p), pm). m = ''POST'' \<and> (?p = p \<or> starts_with ?p (p @ ''/''))) USER_PATH_PERMISSION_MAP =
      Some ((''POST'', ''/api/v1/tasks''), ''task:cancel'')"
    unfolding USER_PATH_PERMISSION_MAP_def by simp
  with none show ?thesis by (simp only: required_permission_def option.case prod.case)
qed

text \<open>Operations on a task do not have the permission the rules say on every path: a \<open>USER\<close>, who may
  not migrate or degrade, is refused \<open>POST /api/tasks/t1/migrate\<close> but granted
  \<open>POST /api/v1/tasks/ID/migrate\<close> and \<open>degrade\<close> for any id, because the entry for cancelling on
  \<open>/api/v1/tasks\<close> matches as a prefix first.\<close>

theorem v1_task_operations_need_only_cancel:
  assumes "CHR ''/'' \<notin> set tid" and "tid \<noteq> ''submit''"
  shows "check_user_path_access USER (''/api/v1/tasks/'' @ tid @ ''/migrate'') ''POST'' \<and>
         check_user_path_access USER (''/api/v1/tasks/'' @ tid @ ''/degrade'') ''POST'' \<and>
         ''task:migrate'' \<notin> set (USER_ROLE_PERMISSIONS USER) \<and>
         \<not> check_user_path_access USER ''/api/tasks/t1/migrate'' ''POST''"
proof -
  have "check_user_path_access USER (''/api/v1/tasks/'' @ tid @ ''/'' @ op) ''POST''" if "CHR ''/'' \<notin> set op" for op
    using v1_task_path_permission [OF assms(1) that assms(2)] by (simp add: check_user_path_access_def)
  from this [of "''migrate''"] this [of "''degrade''"]
  have "check_user_path_access USER (''/api/v1/tasks/'' @ tid @ ''/migrate'') ''POST''"
    "check_user_path_access USER (''/api/v1/tasks/'' @ tid @ ''/degrade'') ''POST''" by simp_all
  moreover have "''task:migrate'' \<notin> set (USER_ROLE_PERMISSIONS USER)"
    "\<not> check_user_path_access USER ''/api/tasks/t1/migrate'' ''POST''" by code_simp+
  ultimately show ?thesis by blast
qed

lemma v1_task_operations_need_only_cancel_witness:
  "check_user_path_access USER ''/api/v1/tasks/t1/migrate'' ''POST''"
  using v1_task_operations_need_only_cancel [of "''t1''"] by simp

end
