(* ===== verification/UserStore.thy ===== *)
theory UserStore
  imports Permission
begin

text \<open>
  The store of users and their tokens (\<open>security/user_store.py\<close>).  \<open>scrypt secret salt\<close> stands for
  \<open>hashlib.scrypt\<close> with the parameters the code fixes, in hexadecimal; what \<open>secrets\<close> draws (token ids,
  secrets, salts) is passed in.  The file holds the JSON object the code writes.
\<close>

record user_token =
  ut_tid :: string
  ut_hash :: string
  ut_salt :: string
  ut_created :: time
  ut_label :: string

record user_record =
  ur_id :: string
  ur_role :: user_role
  ur_hash :: string
  ur_salt :: string
  ur_tokens :: "user_token list"
  ur_created :: time

text \<open>\<open>us_file\<close>: the content of the users file, \<open>None\<close> when there is none or it cannot be read.\<close>

record user_store =
  us_users :: "(string, user_record) dict"
  us_file :: "(string, json) dict option"

definition TOKEN_PREFIX :: string where "TOKEN_PREFIX = ''fmu_''"

definition role_value :: "user_role \<Rightarrow> string" where
  "role_value r = (case r of ADMIN \<Rightarrow> ''admin'' | USER \<Rightarrow> ''user'' | VIEWER \<Rightarrow> ''viewer'')"

definition role_of_value :: "string \<Rightarrow> user_role option" where
  "role_of_value s =
     (if s = ''admin'' then Some ADMIN else if s = ''user'' then Some USER
      else if s = ''viewer'' then Some VIEWER else None)"

subsection \<open>The file\<close>

definition token_to_json :: "user_token \<Rightarrow> json" where
  "token_to_json t =
     JObj [(''tid'', JStr (ut_tid t)), (''token_hash'', JStr (ut_hash t)), (''salt'', JStr (ut_salt t)),
           (''created_at'', JReal (ut_created t)), (''label'', JStr (ut_label t))]"

definition record_to_json :: "string \<Rightarrow> user_record \<Rightarrow> json" where
  "record_to_json uid u =
     JObj [(''user_id'', JStr uid), (''role'', JStr (role_value (ur_role u))), (''token_hash'', JStr (ur_hash u)),
           (''salt'', JStr (ur_salt u)), (''created_at'', JReal (ur_created u)),
           (''tokens'', JList (map token_to_json (ur_tokens u)))]"

definition users_to_json :: "(string, user_record) dict \<Rightarrow> (string, json) dict" where
  "users_to_json us = map (\<lambda>(uid, u). (uid, record_to_json uid u)) us"

definition us_save :: "user_store \<Rightarrow> user_store" where
  "us_save s = s\<lparr>us_file := Some (users_to_json (us_users s))\<rparr>"

text \<open>A missing key or a value of another type makes the code skip the record.\<close>

definition need_str :: "(string, json) dict \<Rightarrow> string \<Rightarrow> string option" where
  "need_str d k = (case dget d k of Some (JStr s) \<Rightarrow> Some s | _ \<Rightarrow> None)"

definition real_or :: "json option \<Rightarrow> real \<Rightarrow> real" where
  "real_or v d = (case v of Some (JReal x) \<Rightarrow> x | Some (JInt i) \<Rightarrow> real_of_int i | _ \<Rightarrow> d)"

definition str_or_default :: "json option \<Rightarrow> string \<Rightarrow> string" where
  "str_or_default v d = (case v of Some (JStr s) \<Rightarrow> s | _ \<Rightarrow> d)"

definition token_from_json :: "json \<Rightarrow> user_token option" where
  "token_from_json v =
     (case v of
        JObj d \<Rightarrow>
          (case (need_str d ''tid'', need_str d ''token_hash'', need_str d ''salt'') of
             (Some tid, Some h, Some salt) \<Rightarrow>
               Some \<lparr>ut_tid = tid, ut_hash = h, ut_salt = salt,
                     ut_created = real_or (dget d ''created_at'') 0,
                     ut_label = str_or_default (dget d ''label'') []\<rparr>
           | _ \<Rightarrow> None)
      | _ \<Rightarrow> None)"

fun tokens_from_json :: "json list \<Rightarrow> user_token list option" where
  "tokens_from_json [] = Some []"
| "tokens_from_json (v # vs) =
     (case (token_from_json v, tokens_from_json vs) of (Some t, Some ts) \<Rightarrow> Some (t # ts) | _ \<Rightarrow> None)"

definition record_from_json :: "string \<Rightarrow> json \<Rightarrow> user_record option" where
  "record_from_json uid v =
     (case v of
        JObj d \<Rightarrow>
          (case (Option.bind (need_str d ''role'') role_of_value, need_str d ''token_hash'', need_str d ''salt'',
                 case dget d ''tokens'' of None \<Rightarrow> Some [] | Some (JList ts) \<Rightarrow> tokens_from_json ts | Some _ \<Rightarrow> None) of
             (Some role, Some h, Some salt, Some ts) \<Rightarrow>
               Some \<lparr>ur_id = uid, ur_role = role, ur_hash = h, ur_salt = salt, ur_tokens = ts,
                     ur_created = real_or (dget d ''created_at'') 0\<rparr>
           | _ \<Rightarrow> None)
      | _ \<Rightarrow> None)"

definition us_load :: "(string, json) dict option \<Rightarrow> user_store" where
  "us_load file =
     (case file of
        None \<Rightarrow> \<lparr>us_users = [], us_file = None\<rparr>
      | Some raw \<Rightarrow>
          \<lparr>us_users = fold (\<lambda>(uid, v) us. case record_from_json uid v of None \<Rightarrow> us | Some u \<Rightarrow> dset us uid u) raw [],
           us_file = Some raw\<rparr>)"

definition load_user_store :: "bool \<Rightarrow> bool \<Rightarrow> (string, json) dict option \<Rightarrow> user_store option" where
  "load_user_store env_path default_exists file =
     (if \<not> env_path \<and> \<not> default_exists then None else Some (us_load file))"

subsection \<open>Users and tokens\<close>

definition list_users :: "user_store \<Rightarrow> (string \<times> user_role \<times> time \<times> nat) list" where
  "list_users s = map (\<lambda>(uid, u). (ur_id u, ur_role u, ur_created u, length (ur_tokens u))) (us_users s)"

definition create_user ::
  "(string \<Rightarrow> byte list \<Rightarrow> string) \<Rightarrow> time \<Rightarrow> byte list \<Rightarrow> string \<Rightarrow> string \<Rightarrow> user_role \<Rightarrow> string \<Rightarrow> user_store
     \<Rightarrow> py_error + user_store \<times> user_record" where
  "create_user scrypt now salt drawn uid role password s =
     (if uid = [] \<or> length uid > 64 then Inl (ValueError ''user_id'')
      else if \<not> list_all (\<lambda>c. is_alnum c \<or> c = CHR ''-'' \<or> c = CHR ''_'') uid then Inl (ValueError ''user_id'')
      else if dget (us_users s) uid \<noteq> None then Inl (ValueError ''exists'')
      else
        let u = \<lparr>ur_id = uid, ur_role = role, ur_hash = scrypt (str_or password drawn) salt,
                 ur_salt = bytes_hex salt, ur_tokens = [], ur_created = now\<rparr>
        in Inr (us_save (s\<lparr>us_users := dset (us_users s) uid u\<rparr>), u))"

definition delete_user :: "string \<Rightarrow> user_store \<Rightarrow> user_store \<times> bool" where
  "delete_user uid s =
     (if dget (us_users s) uid = None then (s, False)
      else (us_save (s\<lparr>us_users := dpop (us_users s) uid\<rparr>), True))"

definition upd_user :: "string \<Rightarrow> (user_record \<Rightarrow> user_record) \<Rightarrow> user_store \<Rightarrow> user_store" where
  "upd_user uid f s =
     (case dget (us_users s) uid of
        None \<Rightarrow> s
      | Some u \<Rightarrow> us_save (s\<lparr>us_users := dset (us_users s) uid (f u)\<rparr>))"

definition set_role :: "string \<Rightarrow> user_role \<Rightarrow> user_store \<Rightarrow> user_store \<times> bool" where
  "set_role uid role s = (upd_user uid (\<lambda>u. u\<lparr>ur_role := role\<rparr>) s, dget (us_users s) uid \<noteq> None)"

definition issue_token ::
  "(string \<Rightarrow> byte list \<Rightarrow> string) \<Rightarrow> time \<Rightarrow> string \<Rightarrow> string \<Rightarrow> byte list \<Rightarrow> string \<Rightarrow> string \<Rightarrow> user_store
     \<Rightarrow> py_error + user_store \<times> string" where
  "issue_token scrypt now tid secret salt uid label s =
     (case dget (us_users s) uid of
        None \<Rightarrow> Inl (KeyError uid)
      | Some _ \<Rightarrow>
          Inr (upd_user uid (\<lambda>u. u\<lparr>ur_tokens := ur_tokens u @
                 [\<lparr>ut_tid = tid, ut_hash = scrypt secret salt, ut_salt = bytes_hex salt, ut_created = now,
                   ut_label = label\<rparr>]\<rparr>) s,
               TOKEN_PREFIX @ uid @ ''_'' @ secret))"

definition rotate_user_token ::
  "(string \<Rightarrow> byte list \<Rightarrow> string) \<Rightarrow> time \<Rightarrow> string \<Rightarrow> string \<Rightarrow> byte list \<Rightarrow> string \<Rightarrow> string \<Rightarrow> user_store
     \<Rightarrow> py_error + user_store \<times> string" where
  "rotate_user_token scrypt now tid secret salt uid label s =
     issue_token scrypt now tid secret salt uid (str_or label ''rotated'') s"

definition revoke_token :: "string \<Rightarrow> string \<Rightarrow> user_store \<Rightarrow> user_store \<times> bool" where
  "revoke_token uid tid s =
     (case dget (us_users s) uid of
        None \<Rightarrow> (s, False)
      | Some u \<Rightarrow>
          let ts = filter (\<lambda>t. ut_tid t \<noteq> tid) (ur_tokens u)
          in if length ts = length (ur_tokens u) then (s, False)
             else (upd_user uid (\<lambda>u. u\<lparr>ur_tokens := ts\<rparr>) s, True))"

definition revoke_all_tokens :: "string \<Rightarrow> user_store \<Rightarrow> user_store \<times> nat" where
  "revoke_all_tokens uid s =
     (case dget (us_users s) uid of
        None \<Rightarrow> (s, 0)
      | Some u \<Rightarrow> (upd_user uid (\<lambda>u. u\<lparr>ur_tokens := []\<rparr>) s, length (ur_tokens u)))"

definition token_accepts :: "(string \<Rightarrow> byte list \<Rightarrow> string) \<Rightarrow> string \<Rightarrow> user_token \<Rightarrow> bool" where
  "token_accepts scrypt secret t =
     (case bytes_fromhex (ut_salt t) of None \<Rightarrow> False | Some salt \<Rightarrow> scrypt secret salt = ut_hash t)"

definition validate :: "(string \<Rightarrow> byte list \<Rightarrow> string) \<Rightarrow> string \<Rightarrow> user_store \<Rightarrow> (string \<times> user_role) option" where
  "validate scrypt token s =
     (if \<not> starts_with token TOKEN_PREFIX then None
      else case split_first (CHR ''_'') (drop (length TOKEN_PREFIX) token) of
             None \<Rightarrow> None
           | Some (uid, secret) \<Rightarrow>
               if uid = [] \<or> secret = [] then None
               else (case dget (us_users s) uid of
                       None \<Rightarrow> None
                     | Some u \<Rightarrow>
                         if list_ex (token_accepts scrypt secret) (ur_tokens u) then Some (uid, ur_role u)
                         else None))"

definition bootstrap_admin ::
  "(string \<Rightarrow> byte list \<Rightarrow> string) \<Rightarrow> time \<Rightarrow> byte list \<Rightarrow> string \<Rightarrow> string \<Rightarrow> string \<Rightarrow> byte list \<Rightarrow> string \<Rightarrow> string
     \<Rightarrow> user_store \<Rightarrow> py_error + user_store \<times> string" where
  "bootstrap_admin scrypt now psalt drawn tid secret salt uid password s =
     (if us_users s \<noteq> [] then Inr (s, [])
      else
        let s1 = (case create_user scrypt now psalt drawn uid ADMIN password s of Inl _ \<Rightarrow> s | Inr (s1, _) \<Rightarrow> s1)
        in issue_token scrypt now tid secret salt uid ''bootstrap'' s1)"

subsection \<open>The file round trip\<close>

text \<open>Users are filed under their own id, each once; every operation that saves keeps the file equal to
  the table.\<close>

definition us_wf :: "user_store \<Rightarrow> bool" where
  "us_wf s \<longleftrightarrow> dwf (us_users s) \<and> (\<forall>(uid, u) \<in> set (us_users s). ur_id u = uid)"

lemma role_round_trip [simp]: "role_of_value (role_value r) = Some r"
  by (cases r) (simp_all add: role_of_value_def role_value_def)

lemma token_round_trip [simp]: "token_from_json (token_to_json t) = Some t"
  by (simp add: token_from_json_def token_to_json_def need_str_def real_or_def str_or_default_def)

lemma tokens_round_trip [simp]: "tokens_from_json (map token_to_json ts) = Some ts"
  by (induction ts) simp_all

lemma record_round_trip [simp]: "ur_id u = uid \<Longrightarrow> record_from_json uid (record_to_json uid u) = Some u"
  by (simp add: record_from_json_def record_to_json_def need_str_def real_or_def)

lemma dset_new: "k \<notin> set (dkeys d) \<Longrightarrow> dset d k v = d @ [(k, v)]"
  by (induction d) auto

lemma load_users:
  assumes "distinct (dkeys acc @ dkeys us)" and "\<forall>(uid, u) \<in> set us. ur_id u = uid"
  shows "fold (\<lambda>(uid, v) us. case record_from_json uid v of None \<Rightarrow> us | Some u \<Rightarrow> dset us uid u)
           (users_to_json us) acc = acc @ us"
  using assms
proof (induction us arbitrary: acc)
  case (Cons p us)
  obtain uid u where p: "p = (uid, u)" by (cases p)
  have "uid \<notin> set (dkeys acc)" using Cons.prems(1) p by auto
  then have "dset acc uid u = acc @ [(uid, u)]" by (rule dset_new)
  then show ?case
    using Cons.IH [of "acc @ [(uid, u)]"] Cons.prems p by (auto simp: users_to_json_def)
qed (simp add: users_to_json_def)

lemma us_load_save: "us_wf s \<Longrightarrow> us_users (us_load (us_file (us_save s))) = us_users s"
  using load_users [of "[]" "us_users s"] by (simp add: us_load_def us_save_def us_wf_def dwf_def)

lemma us_wf_upd: "us_wf s \<Longrightarrow> (\<And>u. ur_id (f u) = ur_id u) \<Longrightarrow> us_wf (upd_user uid f s)"
proof -
  assume wf: "us_wf s" and f: "\<And>u. ur_id (f u) = ur_id u"
  show ?thesis
  proof (cases "dget (us_users s) uid")
    case None
    then show ?thesis using wf by (simp add: upd_user_def)
  next
    case (Some u)
    have "ur_id u = uid" using wf dget_SomeD [OF Some] by (auto simp: us_wf_def)
    moreover have d: "dwf (dset (us_users s) uid (f u))" using wf by (simp add: us_wf_def)
    moreover have "ur_id v = k" if "(k, v) \<in> set (dset (us_users s) uid (f u))" for k v
    proof -
      have "dget (dset (us_users s) uid (f u)) k = Some v" using dget_dwf_iff [OF d] that by (rule iffD2)
      then show ?thesis using wf f \<open>ur_id u = uid\<close> dget_SomeD [of "us_users s" k v] by (auto simp: us_wf_def split: if_splits)
    qed
    ultimately show ?thesis using Some by (auto simp: upd_user_def us_save_def us_wf_def)
  qed
qed

lemma upd_user_users:
  "dget (us_users (upd_user uid f s)) k =
     (if k = uid then map_option f (dget (us_users s) uid) else dget (us_users s) k)"
  by (simp add: upd_user_def us_save_def split: option.split)

lemma upd_user_file:
  "us_wf s \<Longrightarrow> (\<And>u. ur_id (f u) = ur_id u) \<Longrightarrow> dget (us_users s) uid \<noteq> None \<Longrightarrow>
     us_users (us_load (us_file (upd_user uid f s))) = us_users (upd_user uid f s)"
proof -
  assume a: "us_wf s" "\<And>u. ur_id (f u) = ur_id u" "dget (us_users s) uid \<noteq> None"
  then obtain u where u: "dget (us_users s) uid = Some u" by auto
  let ?s = "s\<lparr>us_users := dset (us_users s) uid (f u)\<rparr>"
  have "us_wf (us_save ?s)" using us_wf_upd [OF a(1,2), of uid] u by (simp add: upd_user_def)
  then have "us_wf ?s" by (simp add: us_wf_def us_save_def)
  then show ?thesis using us_load_save [of ?s] u by (simp add: upd_user_def us_save_def)
qed

subsection \<open>Tokens\<close>

lemma validate_token:
  assumes "CHR ''_'' \<notin> set uid" and "uid \<noteq> []" and "secret \<noteq> []"
  shows "validate scrypt (TOKEN_PREFIX @ uid @ ''_'' @ secret) s =
     (case dget (us_users s) uid of None \<Rightarrow> None
      | Some u \<Rightarrow> if list_ex (token_accepts scrypt secret) (ur_tokens u) then Some (uid, ur_role u) else None)"
proof -
  have "split_first (CHR ''_'') (uid @ CHR ''_'' # secret) = Some (uid, secret)"
    by (rule split_first_append [OF assms(1)])
  then show ?thesis using assms(2,3) by (simp add: validate_def TOKEN_PREFIX_def)
qed

text \<open>What a token gives in a process and in one that reads its file afresh.\<close>

definition logs_in :: "(string \<Rightarrow> byte list \<Rightarrow> string) \<Rightarrow> string \<Rightarrow> user_store \<Rightarrow> (string \<times> user_role) option \<Rightarrow> bool" where
  "logs_in scrypt token s r \<longleftrightarrow> validate scrypt token s = r \<and> validate scrypt token (us_load (us_file s)) = r"

lemma validate_cong: "us_users s = us_users s' \<Longrightarrow> validate scrypt token s = validate scrypt token s'"
  by (simp only: validate_def)

lemma logs_in_upd:
  assumes "us_wf s" and "\<And>u. ur_id (f u) = ur_id u" and "dget (us_users s) uid \<noteq> None"
  shows "logs_in scrypt token (upd_user uid f s) r \<longleftrightarrow> validate scrypt token (upd_user uid f s) = r"
  using validate_cong [OF upd_user_file [OF assms]] by (simp add: logs_in_def)

lemma logs_in_delete:
  assumes "us_wf s" and "dget (us_users s) uid \<noteq> None"
  shows "logs_in scrypt token (fst (delete_user uid s)) r \<longleftrightarrow> validate scrypt token (fst (delete_user uid s)) = r"
proof -
  have "dwf (dpop (us_users s) uid)" using assms(1) by (simp add: us_wf_def)
  moreover have "ur_id u = k" if "(k, u) \<in> set (dpop (us_users s) uid)" for k u
    using that assms(1) by (auto simp: us_wf_def AList.delete_eq)
  ultimately have "us_wf (s\<lparr>us_users := dpop (us_users s) uid\<rparr>)" by (auto simp: us_wf_def)
  moreover have "fst (delete_user uid s) = us_save (s\<lparr>us_users := dpop (us_users s) uid\<rparr>)"
    using assms(2) by (auto simp: delete_user_def)
  moreover have "us_users (us_save t) = us_users t" for t by (simp add: us_save_def)
  ultimately show ?thesis
    using validate_cong [of "us_load (us_file (fst (delete_user uid s)))" "fst (delete_user uid s)"] us_load_save
    by (simp add: logs_in_def)
qed


definition demo_scrypt :: "string \<Rightarrow> byte list \<Rightarrow> string" where
  "demo_scrypt secret salt = bytes_hex salt @ secret"

definition demo_users :: user_store where
  "demo_users =
     (case create_user demo_scrypt 10 [1, 2] ''x'' ''ann'' USER ''pw'' \<lparr>us_users = [], us_file = None\<rparr> of
        Inr (s, _) \<Rightarrow> s | Inl _ \<Rightarrow> \<lparr>us_users = [], us_file = None\<rparr>)"


text \<open>A user whose id has an underscore can be created and given tokens but can never log in: whatever
  the store holds, no token of the form the store issues for that id is validated as that user.\<close>

theorem underscored_user_cannot_log_in:
  assumes "CHR ''_'' \<in> set uid" and "issue_token scrypt now tid secret salt uid label s = Inr (s', token)"
  shows "validate scrypt token any \<noteq> Some (uid, role)"
proof
  assume v: "validate scrypt token any = Some (uid, role)"
  have tok: "token = TOKEN_PREFIX @ uid @ ''_'' @ secret"
    using assms(2) by (auto simp: issue_token_def split: option.splits)
  obtain a b where ab: "split_first (CHR ''_'') (uid @ ''_'' @ secret) = Some (a, b)"
    using assms(1) by (auto simp: split_first_def)
  then have "a = uid"
    using v by (auto simp: validate_def tok TOKEN_PREFIX_def split: if_splits option.splits)
  moreover have "CHR ''_'' \<notin> set a" using split_first_Some [OF ab] by simp
  ultimately show False using assms(1) by simp
qed

lemma underscored_user_cannot_log_in_witness:
  "let s = (case create_user demo_scrypt 10 [1] ''x'' ''a_b'' USER ''pw'' \<lparr>us_users = [], us_file = None\<rparr> of
              Inr (s, _) \<Rightarrow> s | Inl _ \<Rightarrow> \<lparr>us_users = [], us_file = None\<rparr>)
   in \<exists>s' token. issue_token demo_scrypt 11 ''t1'' ''abc'' [7] ''a_b'' [] s = Inr (s', token) \<and>
        validate demo_scrypt token s' \<noteq> Some (''a_b'', USER)"
proof -
  let ?s = "case create_user demo_scrypt 10 [1] ''x'' ''a_b'' USER ''pw'' \<lparr>us_users = [], us_file = None\<rparr> of
              Inr (s, _) \<Rightarrow> s | Inl _ \<Rightarrow> \<lparr>us_users = [], us_file = None\<rparr>"
  have "dget (us_users ?s) ''a_b'' \<noteq> None"
    by (simp add: create_user_def us_save_def is_alnum_def is_alpha_def Let_def)
  then obtain s' token where i: "issue_token demo_scrypt 11 ''t1'' ''abc'' [7] ''a_b'' [] ?s = Inr (s', token)"
    by (auto simp: issue_token_def)
  have "validate demo_scrypt token s' \<noteq> Some (''a_b'', USER)"
    by (rule underscored_user_cannot_log_in [OF _ i]) simp
  then show ?thesis using i by (simp add: Let_def)
qed

end
