(* ===== verification/HttpAuth.thy ===== *)
theory HttpAuth
  imports UserStore
begin

text \<open>
  \<open>utils/auth.py\<close>: the checks on path segments, hosts and URLs that guard against path traversal and
  server-side request forgery, and the bearer-token middleware with its three kinds of tokens.  The
  address parser of the standard library and the resolver are parameters: \<open>ip_of\<close> gives the flags of a
  spelled address, \<open>dns\<close> the addresses of a name or \<open>None\<close> when it does not resolve.
\<close>

record ip_flags =
  ip_loopback :: bool
  ip_link_local :: bool
  ip_unspecified :: bool
  ip_multicast :: bool
  ip_reserved :: bool

record net_env =
  ip_of :: "string \<Rightarrow> ip_flags option"
  dns :: "string \<Rightarrow> string list option"

definition SSRF_BLOCKED_HOSTNAMES :: "string list" where
  "SSRF_BLOCKED_HOSTNAMES =
     [''metadata.google.internal'', ''metadata'', ''169.254.169.254'', ''metadata.azure.com'',
      ''169.254.169.254.nip.io'']"

definition segment_char :: "char \<Rightarrow> bool" where
  "segment_char c \<longleftrightarrow> is_alnum c \<or> c \<in> set ''_.-''"

definition is_safe_path_segment :: "string \<Rightarrow> bool" where
  "is_safe_path_segment v =
     (if v = [] \<or> length v > 128 then False
      else if CHR ''/'' \<in> set v \<or> CHR 0x5C \<in> set v \<or> CHR 0x00 \<in> set v then False
      else if v = ''.'' \<or> v = ''..'' then False
      else if starts_with v ''.'' \<and> contains ''..'' v then False
      else re_class segment_char v)"

definition validate_node_id :: "string \<Rightarrow> bool" where
  "validate_node_id nid = is_safe_path_segment nid"

definition sanitize_node_url_part :: "string \<Rightarrow> py_error + string" where
  "sanitize_node_url_part nid = (if validate_node_id nid then Inr nid else Inl (ValueError ''node_id''))"

text \<open>The restrictions on an address: outbound connections also refuse loopback.\<close>

definition restricted_ip :: "ip_flags \<Rightarrow> bool" where
  "restricted_ip ip \<longleftrightarrow> ip_link_local ip \<or> ip_unspecified ip \<or> ip_multicast ip \<or> ip_reserved ip"

definition url_fragment :: "string \<Rightarrow> bool" where
  "url_fragment h \<longleftrightarrow> CHR ''@'' \<in> set h \<or> CHR ''/'' \<in> set h \<or> CHR ''?'' \<in> set h \<or> CHR ''#'' \<in> set h"

definition resolved_ok :: "net_env \<Rightarrow> (ip_flags \<Rightarrow> bool) \<Rightarrow> string \<Rightarrow> bool" where
  "resolved_ok env bad h =
     (case dns env h of
        None \<Rightarrow> False
      | Some addrs \<Rightarrow> list_all (\<lambda>a. case ip_of env a of None \<Rightarrow> True | Some ip \<Rightarrow> \<not> bad ip) addrs)"

definition is_safe_peer_host :: "net_env \<Rightarrow> string \<Rightarrow> bool" where
  "is_safe_peer_host env h0 =
     (if h0 = [] then False
      else let h = py_strip h0 in
        if h = [] then False
        else if url_fragment h then False
        else if py_lower h \<in> set SSRF_BLOCKED_HOSTNAMES then False
        else case ip_of env h of
               Some ip \<Rightarrow> \<not> (ip_loopback ip \<or> restricted_ip ip)
             | None \<Rightarrow>
                 if py_lower h = ''localhost'' then False
                 else if \<not> re_class segment_char h then False
                 else resolved_ok env (\<lambda>ip. ip_loopback ip \<or> restricted_ip ip) h)"

definition is_registerable_host :: "net_env \<Rightarrow> string \<Rightarrow> bool" where
  "is_registerable_host env h0 =
     (if h0 = [] then False
      else let h = py_strip h0 in
        if h = [] then False
        else if url_fragment h then False
        else if py_lower h \<in> set SSRF_BLOCKED_HOSTNAMES then False
        else case ip_of env h of
               Some ip \<Rightarrow> \<not> restricted_ip ip
             | None \<Rightarrow>
                 if py_lower h = ''localhost'' then True
                 else if \<not> re_class segment_char h then False
                 else resolved_ok env restricted_ip h)"

definition is_safe_outbound_host :: "net_env \<Rightarrow> string \<Rightarrow> bool" where
  "is_safe_outbound_host env h0 =
     (if h0 = [] then False
      else let h = py_strip h0 in
        if h = [] then False
        else if url_fragment h then False
        else if py_lower h \<in> set SSRF_BLOCKED_HOSTNAMES then False
        else case ip_of env h of
               Some ip \<Rightarrow> if ip_loopback ip then True else \<not> restricted_ip ip
             | None \<Rightarrow> if py_lower h = ''localhost'' then True else re_class segment_char h)"

definition url_path_char :: "char \<Rightarrow> bool" where
  "url_path_char c \<longleftrightarrow> is_alnum c \<or> c \<in> set ''._-/''"

text \<open>\<open>re.match(r"^/[a-zA-Z0-9._\-/]*$", path)\<close>; \<open>shows_int\<close> is the decimal spelling of the port.\<close>

definition url_path_ok :: "string \<Rightarrow> bool" where
  "url_path_ok path = (case path of [] \<Rightarrow> False | c # cs \<Rightarrow> c = CHR ''/'' \<and> (cs = [] \<or> cs = [nl] \<or> re_class url_path_char cs))"

definition build_safe_url :: "net_env \<Rightarrow> (int \<Rightarrow> string) \<Rightarrow> string \<Rightarrow> string \<Rightarrow> int \<Rightarrow> string \<Rightarrow> py_error + string" where
  "build_safe_url env shows_int scheme host port path =
     (if \<not> is_safe_peer_host env host then Inl (ValueError ''host'')
      else if \<not> url_path_ok path then Inl (ValueError ''path'')
      else Inr (scheme @ ''://'' @ host @ '':'' @ shows_int port @ path))"

subsection \<open>The token file\<close>

definition load_or_create_token :: "string \<Rightarrow> string option \<Rightarrow> string \<Rightarrow> string \<times> string option" where
  "load_or_create_token env_token file drawn =
     (if py_strip env_token \<noteq> [] then (py_strip env_token, file)
      else case file of
             Some t \<Rightarrow> if py_strip t \<noteq> [] then (py_strip t, file) else (drawn, Some drawn)
           | None \<Rightarrow> (drawn, Some drawn))"

subsection \<open>The middleware\<close>

datatype jwt_result = JwtRaises | JwtRefused | JwtClaims "(string, json) dict"

record auth_config =
  ac_expected :: string
  ac_previous :: string
  ac_users :: "user_store option"
  ac_jwt :: "(string \<Rightarrow> jwt_result) option"

text \<open>The constructor: the previous token counts only when it is set and differs.\<close>

definition auth_init :: "string \<Rightarrow> string \<Rightarrow> user_store option \<Rightarrow> (string \<Rightarrow> jwt_result) option \<Rightarrow> auth_config" where
  "auth_init shared env_previous users jwt =
     (let prev = py_strip env_previous
      in \<lparr>ac_expected = shared, ac_previous = (if prev \<noteq> [] \<and> prev \<noteq> shared then prev else []),
          ac_users = users, ac_jwt = jwt\<rparr>)"

record http_request =
  rq_type :: string
  rq_path :: string
  rq_headers :: "(string \<times> string) list"

text \<open>Who a request that passes is taken for.\<close>

datatype identity = Cluster | UserId string user_role | JwtId json json json

datatype auth_outcome = Forward "identity option" | Unauthorized string | Raised string

text \<open>\<open>secrets.compare_digest\<close> on texts raises unless both are ASCII.\<close>

definition ascii_text :: "string \<Rightarrow> bool" where
  "ascii_text s \<longleftrightarrow> list_all (\<lambda>c. (of_char c :: nat) < 128) s"

definition compare_digest :: "string \<Rightarrow> string \<Rightarrow> bool option" where
  "compare_digest a b = (if ascii_text a \<and> ascii_text b then Some (a = b) else None)"

definition EXEMPT_PATHS :: "string list" where
  "EXEMPT_PATHS =
     [''/api/health'', ''/api/health/deep'', ''/health'', ''/health/deep'', ''/docs'', ''/openapi.json'',
      ''/redoc'', ''/'', ''/favicon.ico'']"

definition looks_like_jwt :: "string \<Rightarrow> bool" where
  "looks_like_jwt token \<longleftrightarrow> count_if (\<lambda>c. c = CHR ''.'') token = 2 \<and> \<not> starts_with token ''fmu_''"

definition auth_header :: "http_request \<Rightarrow> string" where
  "auth_header rq = (case find (\<lambda>(n, v). n = ''authorization'') (rq_headers rq) of None \<Rightarrow> [] | Some (_, v) \<Rightarrow> v)"

text \<open>The comparison with the token of the cluster and its predecessor.\<close>

definition cluster_auth :: "auth_config \<Rightarrow> string \<Rightarrow> auth_outcome" where
  "cluster_auth cfg token =
     (case compare_digest token (ac_expected cfg) of
        None \<Rightarrow> Raised ''compare_digest''
      | Some True \<Rightarrow> Forward (Some Cluster)
      | Some False \<Rightarrow>
          if ac_previous cfg = [] then Unauthorized ''token''
          else (case compare_digest token (ac_previous cfg) of
                  None \<Rightarrow> Raised ''compare_digest''
                | Some True \<Rightarrow> Forward (Some Cluster)
                | Some False \<Rightarrow> Unauthorized ''token''))"

definition auth_call :: "(string \<Rightarrow> byte list \<Rightarrow> string) \<Rightarrow> auth_config \<Rightarrow> http_request \<Rightarrow> auth_outcome" where
  "auth_call scrypt cfg rq =
     (if rq_type rq \<noteq> ''http'' then Forward None
      else if rq_path rq \<in> set EXEMPT_PATHS then Forward None
      else if \<not> starts_with (auth_header rq) ''Bearer '' then Unauthorized ''no token''
      else
        let token = drop 7 (auth_header rq);
            cluster =
              (if starts_with token TOKEN_PREFIX then Unauthorized ''user token on a node route''
               else cluster_auth cfg token);
            user =
              (case ac_users cfg of
                 Some us \<Rightarrow>
                   if starts_with token TOKEN_PREFIX
                   then (case validate scrypt token us of
                           None \<Rightarrow> Unauthorized ''user token''
                         | Some (uid, role) \<Rightarrow> Forward (Some (UserId uid role)))
                   else cluster
               | None \<Rightarrow> cluster)
        in case ac_jwt cfg of
             Some verify \<Rightarrow>
               if looks_like_jwt token
               then (case verify token of
                       JwtRaises \<Rightarrow> Unauthorized ''jwt error''
                     | JwtRefused \<Rightarrow> Unauthorized ''jwt''
                     | JwtClaims d \<Rightarrow>
                         Forward (Some (JwtId (jget d ''tid'' (JStr [])) (jget d ''role'' (JStr ''user''))
                                              (jget d ''quota'' (JObj [])))))
               else user
           | None \<Rightarrow> user)"

subsection \<open>Path segments\<close>

lemma segment_char_not [simp]:
  "\<not> segment_char nl" "\<not> segment_char (CHR ''/'')" "\<not> segment_char (CHR 0x5C)" "\<not> segment_char (CHR 0x00)"
  by (simp_all add: segment_char_def is_alnum_def is_alpha_def is_num_def)

lemma segment_plain: "list_all segment_char t \<Longrightarrow> CHR ''/'' \<notin> set t \<and> CHR 0x5C \<notin> set t \<and> CHR 0x00 \<notin> set t \<and> nl \<notin> set t"
  using segment_char_not by (auto simp: list_all_iff)

text \<open>What a safe path segment can be: a text of at most 128 letters, digits, dots, dashes and
  underscores, neither \<open>.\<close> nor \<open>..\<close>, without a separator, so that it names an entry of the directory it
  is appended to; but a newline at its end is let through, since \<open>$\<close> matches before it.\<close>

theorem safe_segment_shape:
  "is_safe_path_segment v \<longleftrightarrow>
     (\<exists>t. t \<noteq> [] \<and> list_all segment_char t \<and> (v = t \<or> v = t @ [nl]) \<and> length v \<le> 128 \<and>
          v \<noteq> ''.'' \<and> v \<noteq> ''..'' \<and> \<not> (hd t = CHR ''.'' \<and> contains ''..'' t))"
proof -
  have dots: "contains ''..'' (t @ [nl]) = contains ''..'' t" for t
  proof
    assume "contains ''..'' (t @ [nl])"
    then obtain u v where uv: "t @ [nl] = u @ ''..'' @ v" by (auto simp: contains_iff)
    then have "v \<noteq> []" by (cases v rule: rev_cases) auto
    then obtain w where "v = w @ [nl]" using uv by (cases v rule: rev_cases) auto
    then have "t = u @ ''..'' @ w" using uv by simp
    then show "contains ''..'' t" by (auto simp: contains_iff)
  next
    assume "contains ''..'' t"
    then obtain u v where "t = u @ ''..'' @ v" by (auto simp: contains_iff)
    then have "t @ [nl] = u @ ''..'' @ (v @ [nl])" by simp
    then show "contains ''..'' (t @ [nl])" unfolding contains_iff by blast
  qed
  have start: "prefix ''.'' (t @ x) \<longleftrightarrow> hd t = CHR ''.''" if "t \<noteq> []" for t x
    using that by (cases t) auto
  show ?thesis (is "_ \<longleftrightarrow> (\<exists>t. ?P t)")
  proof
    assume s: "is_safe_path_segment v"
    then obtain t where t: "t \<noteq> []" "list_all segment_char t" "v = t \<or> v = t @ [nl]"
      by (auto simp: is_safe_path_segment_def re_class_iff split: if_splits)
    have "\<not> (prefix ''.'' v \<and> contains ''..'' v)" "length v \<le> 128" "v \<noteq> ''.''" "v \<noteq> ''..''"
      using s by (auto simp: is_safe_path_segment_def split: if_splits)
    then have "?P t" using t start [OF t(1), of "[]"] start [OF t(1), of "[nl]"] dots [of t] by auto
    then show "\<exists>t. ?P t" ..
  next
    assume "\<exists>t. ?P t"
    then obtain t where t: "?P t" ..
    have "\<not> (prefix ''.'' v \<and> contains ''..'' v)"
      using t start [of t "[]"] start [of t "[nl]"] dots [of t] by auto
    moreover have "CHR ''/'' \<notin> set v \<and> CHR 0x5C \<notin> set v \<and> CHR 0x00 \<notin> set v"
      using t segment_plain [of t] by auto
    moreover have "v \<noteq> []" using t by auto
    moreover have "re_class segment_char v" using t by (auto simp: re_class_iff)
    ultimately show "is_safe_path_segment v" using t by (simp add: is_safe_path_segment_def)
  qed
qed

subsection \<open>Hosts\<close>

text \<open>The host checks are ordered: a host that outgoing requests may go to may also register, and a
  host that may register is one the light check of the cache transfers lets through, whatever the
  resolver answers.\<close>

theorem host_checks_ordered:
  "(is_safe_peer_host env h \<longrightarrow> is_registerable_host env h) \<and>
   (is_registerable_host env h \<longrightarrow> is_safe_outbound_host env h)"
proof -
  have mono: "resolved_ok env (\<lambda>ip. ip_loopback ip \<or> restricted_ip ip) x \<Longrightarrow> resolved_ok env restricted_ip x" for x
    unfolding resolved_ok_def by (auto simp: list_all_iff split: option.splits)
  show ?thesis
    using mono by (auto simp: is_safe_peer_host_def is_registerable_host_def is_safe_outbound_host_def Let_def
        split: option.splits if_splits)
qed

definition demo_env :: net_env where
  "demo_env = \<lparr>ip_of = (\<lambda>_. None), dns = (\<lambda>_. Some [])\<rparr>"

lemma host_checks_ordered_witness: "is_safe_peer_host demo_env ''node-1'' \<and> is_safe_outbound_host demo_env ''node-1''"
proof -
  have "is_safe_peer_host demo_env ''node-1''" by code_simp
  then show ?thesis using host_checks_ordered by blast
qed

subsection \<open>Who passes\<close>

lemma cluster_passes:
  "cluster_auth cfg token = Forward who \<longleftrightarrow>
     who = Some Cluster \<and> ascii_text token \<and> ascii_text (ac_expected cfg) \<and>
     (token = ac_expected cfg \<or> ac_previous cfg \<noteq> [] \<and> token = ac_previous cfg)"
  by (auto simp: cluster_auth_def compare_digest_def split: bool.split)

text \<open>C12: Authentication: a request to a path that is not exempt passes exactly when its bearer token is a
  JWT the verifier accepts (with a verifier configured), a user token the store validates, or the
  cluster token or its predecessor, compared with the texts in ASCII; in particular a user token is never taken for the cluster and a
  request without a bearer token never passes.\<close>

theorem authentication_sound:
  assumes "rq_type rq = ''http''" and "rq_path rq \<notin> set EXEMPT_PATHS"
  shows "auth_call scrypt cfg rq = Forward who \<longleftrightarrow>
    (\<exists>token. auth_header rq = ''Bearer '' @ token \<and>
      (if ac_jwt cfg \<noteq> None \<and> looks_like_jwt token
       then \<exists>d. the (ac_jwt cfg) token = JwtClaims d \<and>
                who = Some (JwtId (jget d ''tid'' (JStr [])) (jget d ''role'' (JStr ''user'')) (jget d ''quota'' (JObj [])))
       else if starts_with token TOKEN_PREFIX
       then \<exists>us uid role. ac_users cfg = Some us \<and> validate scrypt token us = Some (uid, role) \<and>
                who = Some (UserId uid role)
       else who = Some Cluster \<and> ascii_text token \<and> ascii_text (ac_expected cfg) \<and>
            (token = ac_expected cfg \<or> ac_previous cfg \<noteq> [] \<and> token = ac_previous cfg)))"
proof (cases "prefix ''Bearer '' (auth_header rq)")
  case False
  then have "auth_header rq \<noteq> ''Bearer '' @ token" for token by (auto simp: prefix_def)
  then show ?thesis using assms False by (simp add: auth_call_def)
next
  case True
  then obtain token where t: "auth_header rq = ''Bearer '' @ token" by (auto simp: prefix_def)
  have u: "auth_header rq = ''Bearer '' @ token' \<longleftrightarrow> token' = token" for token' using t by auto
  have d: "drop 7 (auth_header rq) = token" by (simp add: t)
  define jwt where "jwt = (ac_jwt cfg \<noteq> None \<and> looks_like_jwt token)"
  define ut where "ut = prefix TOKEN_PREFIX token"
  define usr where "usr = (case ac_users cfg of None \<Rightarrow> None | Some us \<Rightarrow> validate scrypt token us)"
  have call: "auth_call scrypt cfg rq =
      (if jwt then (case the (ac_jwt cfg) token of
           JwtRaises \<Rightarrow> Unauthorized ''jwt error'' | JwtRefused \<Rightarrow> Unauthorized ''jwt''
         | JwtClaims d \<Rightarrow> Forward (Some (JwtId (jget d ''tid'' (JStr [])) (jget d ''role'' (JStr ''user''))
                                              (jget d ''quota'' (JObj [])))))
       else if ut then (case usr of Some (uid, role) \<Rightarrow> Forward (Some (UserId uid role))
                        | None \<Rightarrow> Unauthorized (if ac_users cfg = None then ''user token on a node route'' else ''user token''))
       else cluster_auth cfg token)"
    using assms True
    by (cases "ac_jwt cfg"; cases "ac_users cfg"; cases "looks_like_jwt token"; cases "prefix TOKEN_PREFIX token")
       (simp_all add: auth_call_def d jwt_def ut_def usr_def Let_def)
  have usr: "usr = Some x \<longleftrightarrow> (\<exists>us. ac_users cfg = Some us \<and> validate scrypt token us = Some x)" for x
    by (simp add: usr_def split: option.split)
  have "auth_call scrypt cfg rq = Forward who \<longleftrightarrow>
     (if jwt
       then \<exists>d. the (ac_jwt cfg) token = JwtClaims d \<and>
                who = Some (JwtId (jget d ''tid'' (JStr [])) (jget d ''role'' (JStr ''user'')) (jget d ''quota'' (JObj [])))
       else if ut then \<exists>uid role. usr = Some (uid, role) \<and> who = Some (UserId uid role)
       else who = Some Cluster \<and> ascii_text token \<and> ascii_text (ac_expected cfg) \<and>
            (token = ac_expected cfg \<or> ac_previous cfg \<noteq> [] \<and> token = ac_previous cfg))"
    unfolding call by (cases jwt; cases ut; cases "the (ac_jwt cfg) token"; cases usr) (auto simp: cluster_passes)
  then show ?thesis unfolding u jwt_def ut_def usr by auto
qed

lemma authentication_sound_witness:
  "auth_call demo_scrypt (auth_init ''new'' ''old'' (Some demo_users) None)
     \<lparr>rq_type = ''http'', rq_path = ''/api/tasks'', rq_headers = [(''authorization'', ''Bearer old'')]\<rparr>
     = Forward (Some Cluster)"
proof -
  let ?cfg = "auth_init ''new'' ''old'' (Some demo_users) None"
  have "ac_jwt ?cfg = None" "ac_previous ?cfg = ''old''" "ac_expected ?cfg = ''new''"
    by (simp_all add: auth_init_def py_strip_def is_space_def)
  then show ?thesis
    by (intro authentication_sound [THEN iffD2])
       (simp_all add: EXEMPT_PATHS_def auth_header_def TOKEN_PREFIX_def ascii_text_def)
qed

end
