(* ===== verification/MasterServices.thy ===== *)
theory MasterServices
  imports Scheduling HttpAuth
begin

text \<open>
  The services \<open>ClusterMaster\<close> (\<open>master/cluster_master.py\<close>) keeps beside scheduling: sessions of
  resident nodes, run ids, idempotency keys, the slots of the chat proxy, the registry of key-value
  caches, the rule epoch with the confirmations of the nodes, and the membership view.  Broadcasts are
  the list of their targets; the HTTP calls to them are not modelled.
\<close>

datatype session_state = Active | HandedOff | Closed

record cluster_session =
  cs_id :: string
  cs_origin :: string
  cs_host :: string
  cs_state :: session_state
  cs_owner :: string
  cs_created :: time
  cs_updated :: time
  cs_meta :: "(string, json) dict"

record kv_entry =
  kv_id :: string
  kv_model :: string
  kv_node :: string
  kv_created :: time
  kv_size_mb :: real
  kv_ttl :: time
  kv_access :: int

record epoch_file =
  ef_epoch :: int
  ef_confirms :: "(string, json) dict"

record services =
  sv_sessions :: "(string, cluster_session) dict"
  sv_run_ids :: "(string, string) dict"
  sv_idem :: "(string, string \<times> time) dict"
  sv_idem_ttl :: time
  sv_idem_max :: nat
  sv_chat :: "(string, int) dict"
  sv_kv :: "(string, kv_entry) dict"
  sv_kv_max :: nat
  sv_epoch :: int
  sv_confirms :: "(string \<times> string, (string, json) dict) dict"
  sv_confirms_max :: nat
  sv_tasks_dirty :: bool
  sv_epoch_dirty :: bool
  sv_epoch_last :: time
  sv_epoch_file :: "epoch_file option"
  sv_epoch_ok :: bool

definition EPOCH_PERSIST_THROTTLE_S :: time where "EPOCH_PERSIST_THROTTLE_S = 5"

definition services_init :: "epoch_file option \<Rightarrow> bool \<Rightarrow> services" where
  "services_init file ok =
     \<lparr>sv_sessions = [], sv_run_ids = [], sv_idem = [], sv_idem_ttl = 86400, sv_idem_max = 10000,
      sv_chat = [], sv_kv = [], sv_kv_max = 500, sv_epoch = 0, sv_confirms = [], sv_confirms_max = 10000,
      sv_tasks_dirty = False, sv_epoch_dirty = False, sv_epoch_last = 0, sv_epoch_file = file,
      sv_epoch_ok = ok\<rparr>"

subsection \<open>Run ids and sessions\<close>

definition register_run_id :: "string \<Rightarrow> string \<Rightarrow> services \<Rightarrow> py_error + services" where
  "register_run_id run tid sv =
     (if run = [] \<or> tid = [] then Inl (ValueError ''run_id'')
      else Inr (sv\<lparr>sv_run_ids := dset (sv_run_ids sv) run tid, sv_tasks_dirty := True\<rparr>))"

definition get_task_by_run_id :: "string \<Rightarrow> services \<Rightarrow> tasks \<Rightarrow> cluster_task option" where
  "get_task_by_run_id run sv td =
     (if run = [] then None
      else case dget (sv_run_ids sv) run of
             None \<Rightarrow> None
           | Some tid \<Rightarrow> if tid = [] then None else get_task tid td)"

definition new_session :: "time \<Rightarrow> string \<Rightarrow> cluster_session" where
  "new_session now sid =
     \<lparr>cs_id = sid, cs_origin = [], cs_host = [], cs_state = Active, cs_owner = [], cs_created = now,
      cs_updated = 0, cs_meta = []\<rparr>"

definition register_session ::
  "time \<Rightarrow> string \<Rightarrow> string \<Rightarrow> string \<Rightarrow> string \<Rightarrow> (string, json) dict \<Rightarrow> services
     \<Rightarrow> py_error + services \<times> cluster_session" where
  "register_session now sid origin host owner meta sv =
     (if sid = [] then Inl (ValueError ''session_id'')
      else
        let s0 = (case dget (sv_sessions sv) sid of None \<Rightarrow> new_session now sid | Some s \<Rightarrow> s);
            s = s0\<lparr>cs_origin := str_or origin (cs_origin s0),
                   cs_host := str_or host (str_or (cs_host s0) origin),
                   cs_owner := str_or owner (cs_owner s0),
                   cs_meta := (if meta = [] then cs_meta s0 else fold (\<lambda>(k, v) d. dset d k v) meta (cs_meta s0)),
                   cs_state := Active, cs_updated := now\<rparr>
        in Inr (sv\<lparr>sv_sessions := dset (sv_sessions sv) sid s, sv_tasks_dirty := True\<rparr>, s))"

definition handoff_session ::
  "time \<Rightarrow> string \<Rightarrow> string \<Rightarrow> registry \<Rightarrow> services \<Rightarrow> py_error + services \<times> cluster_session" where
  "handoff_session now sid target rg sv =
     (if sid = [] then Inl (ValueError ''session_id'')
      else if target = [] then Inl (ValueError ''target_node_id'')
      else if dget (rg_nodes rg) target = None then Inl (ValueError ''unknown node'')
      else case dget (sv_sessions sv) sid of
             None \<Rightarrow> Inl (KeyError sid)
           | Some s0 \<Rightarrow>
               if cs_state s0 = Closed then Inl (ValueError ''closed'')
               else
                 let s = s0\<lparr>cs_host := target, cs_state := HandedOff, cs_updated := now\<rparr>
                 in Inr (sv\<lparr>sv_sessions := dset (sv_sessions sv) sid s, sv_tasks_dirty := True\<rparr>, s))"

definition get_session :: "string \<Rightarrow> services \<Rightarrow> cluster_session option" where
  "get_session sid sv = dget (sv_sessions sv) sid"

definition list_sessions :: "services \<Rightarrow> cluster_session list" where
  "list_sessions sv = dvals (sv_sessions sv)"

definition close_session :: "time \<Rightarrow> string \<Rightarrow> services \<Rightarrow> py_error + services \<times> cluster_session" where
  "close_session now sid sv =
     (case dget (sv_sessions sv) sid of
        None \<Rightarrow> Inl (KeyError sid)
      | Some s0 \<Rightarrow>
          if cs_state s0 = Closed then Inl (KeyError sid)
          else
            let s = s0\<lparr>cs_state := Closed, cs_updated := now\<rparr>
            in Inr (sv\<lparr>sv_sessions := dset (sv_sessions sv) sid s, sv_tasks_dirty := True\<rparr>, s))"

subsection \<open>Idempotency keys and chat slots\<close>

definition idem_terminal :: "task_status \<Rightarrow> bool" where
  "idem_terminal st \<longleftrightarrow> st \<in> {COMPLETED, FAILED, CANCELLED, TIMEOUT}"

definition try_idempotency :: "time \<Rightarrow> string \<Rightarrow> tasks \<Rightarrow> services \<Rightarrow> services \<times> string option" where
  "try_idempotency now key td sv =
     (if key = [] then (sv, None)
      else case dget (sv_idem sv) key of
             None \<Rightarrow> (sv, None)
           | Some (tid, expires) \<Rightarrow>
               let dropped = sv\<lparr>sv_idem := dpop (sv_idem sv) key\<rparr>
               in if now \<ge> expires then (dropped, None)
                  else if (case get_task tid td of None \<Rightarrow> False | Some t \<Rightarrow> idem_terminal (tk_status t))
                  then (dropped, None)
                  else (sv, Some tid))"

definition register_idempotency :: "time \<Rightarrow> string \<Rightarrow> string \<Rightarrow> services \<Rightarrow> services" where
  "register_idempotency now key tid sv =
     (if key = [] then sv
      else
        let d = (if length (sv_idem sv) \<ge> sv_idem_max sv \<and> dget (sv_idem sv) key = None
                 then (case sv_idem sv of [] \<Rightarrow> [] | (k, _) # _ \<Rightarrow> dpop (sv_idem sv) k) else sv_idem sv)
        in sv\<lparr>sv_idem := dset d key (tid, now + sv_idem_ttl sv)\<rparr>)"

definition acquire_chat_slot :: "string \<Rightarrow> tasks \<Rightarrow> services \<Rightarrow> services \<times> bool" where
  "acquire_chat_slot user td sv =
     (let limit = tenant_limit_for user td
      in if limit = 0 then (sv, True)
         else
           let current = dget_or (sv_chat sv) user 0
           in if current \<ge> limit then (sv, False)
              else (sv\<lparr>sv_chat := dset (sv_chat sv) user (current + 1)\<rparr>, True))"

definition release_chat_slot :: "string \<Rightarrow> tasks \<Rightarrow> services \<Rightarrow> services" where
  "release_chat_slot user td sv =
     (if tenant_limit_for user td = 0 then sv
      else
        let current = dget_or (sv_chat sv) user 0
        in if current \<le> 1 then sv\<lparr>sv_chat := dpop (sv_chat sv) user\<rparr>
           else sv\<lparr>sv_chat := dset (sv_chat sv) user (current - 1)\<rparr>)"

subsection \<open>Key-value caches\<close>

definition is_node_online :: "string \<Rightarrow> registry \<Rightarrow> bool" where
  "is_node_online nid rg = (case dget (rg_nodes rg) nid of None \<Rightarrow> False | Some n \<Rightarrow> nd_status n = ONLINE)"

definition drop_oldest_kv :: "(string, kv_entry) dict \<Rightarrow> (string, kv_entry) dict" where
  "drop_oldest_kv d = (case first_min (\<lambda>(_, e). kv_created e) d of None \<Rightarrow> d | Some (k, _) \<Rightarrow> dpop d k)"

definition register_kv_cache :: "kv_entry \<Rightarrow> services \<Rightarrow> services" where
  "register_kv_cache e sv =
     (let d = dset (sv_kv sv) (kv_id e) e
      in sv\<lparr>sv_kv := (if length d > sv_kv_max sv then drop_oldest_kv d else d)\<rparr>)"

text \<open>The loop over a copy of the items; the second argument is the table that is changed.\<close>

fun find_kv_loop ::
  "time \<Rightarrow> string \<Rightarrow> (string \<Rightarrow> bool) \<Rightarrow> (string \<times> kv_entry) list \<Rightarrow> (string, kv_entry) dict
     \<Rightarrow> (string, kv_entry) dict \<times> kv_entry option" where
  "find_kv_loop now model online [] d = (d, None)"
| "find_kv_loop now model online ((k, e) # es) d =
     (if kv_model e = model \<and> now - kv_created e < kv_ttl e \<and> online (kv_node e)
      then (let e' = e\<lparr>kv_access := kv_access e + 1\<rparr> in (dset d k e', Some e'))
      else find_kv_loop now model online es (if now - kv_created e > kv_ttl e then dpop d k else d))"

definition find_kv_cache :: "time \<Rightarrow> string \<Rightarrow> registry \<Rightarrow> services \<Rightarrow> services \<times> kv_entry option" where
  "find_kv_cache now model rg sv =
     (let (d, r) = find_kv_loop now model (\<lambda>nid. is_node_online nid rg) (sv_kv sv) (sv_kv sv)
      in (sv\<lparr>sv_kv := d\<rparr>, r))"

subsection \<open>Rule epoch and confirmations\<close>

definition joined_key :: "string \<times> string \<Rightarrow> string" where
  "joined_key k = fst k @ ''|'' @ snd k"

definition epoch_snapshot :: "services \<Rightarrow> epoch_file" where
  "epoch_snapshot sv =
     \<lparr>ef_epoch = sv_epoch sv, ef_confirms = map (\<lambda>(k, r). (joined_key k, JObj r)) (sv_confirms sv)\<rparr>"

definition persist_rule_epoch :: "services \<Rightarrow> services" where
  "persist_rule_epoch sv = (if sv_epoch_ok sv then sv\<lparr>sv_epoch_file := Some (epoch_snapshot sv)\<rparr> else sv)"

definition mark_rule_epoch_dirty :: "time \<Rightarrow> services \<Rightarrow> services" where
  "mark_rule_epoch_dirty now sv =
     (if now - sv_epoch_last sv \<ge> EPOCH_PERSIST_THROTTLE_S
      then persist_rule_epoch (sv\<lparr>sv_epoch_last := now\<rparr>)
      else sv\<lparr>sv_epoch_dirty := True\<rparr>)"

text \<open>A confirmation under its joined key: the key is split at the first bar.\<close>

definition merge_confirm ::
  "string \<times> json \<Rightarrow> (string \<times> string, (string, json) dict) dict \<Rightarrow> (string \<times> string, (string, json) dict) dict" where
  "merge_confirm kv d =
     (case (split_first (CHR ''|'') (fst kv), snd kv) of
        (Some k, JObj r) \<Rightarrow> dset d k r
      | _ \<Rightarrow> d)"

text \<open>\<open>while len(d) > m: del d[next(iter(d))]\<close>.\<close>

definition drop_front :: "nat \<Rightarrow> ('k \<times> 'v) list \<Rightarrow> ('k \<times> 'v) list" where
  "drop_front m d = drop (length d - m) d"

definition load_rule_epoch_state :: "services \<Rightarrow> services" where
  "load_rule_epoch_state sv =
     (case sv_epoch_file sv of
        None \<Rightarrow> sv
      | Some f \<Rightarrow>
          sv\<lparr>sv_epoch := max 0 (ef_epoch f),
             sv_confirms := drop_front (sv_confirms_max sv) (fold merge_confirm (ef_confirms f) [])\<rparr>)"

definition advance_rule_epoch :: "time \<Rightarrow> ha_state \<Rightarrow> services \<Rightarrow> py_error + services \<times> int" where
  "advance_rule_epoch now h sv =
     (if ha_election h \<noteq> None \<and> \<not> ha_is_leader h then Inl (RuntimeError ''not leader'')
      else
        let e = sv_epoch sv + 1
        in Inr (mark_rule_epoch_dirty now (sv\<lparr>sv_epoch := e\<rparr>), e))"

definition receive_rule_epoch :: "time \<Rightarrow> int \<Rightarrow> services \<Rightarrow> services \<times> bool \<times> int" where
  "receive_rule_epoch now epoch sv =
     (if epoch < sv_epoch sv then (sv, False, sv_epoch sv)
      else if epoch = sv_epoch sv then (sv, True, sv_epoch sv)
      else (mark_rule_epoch_dirty now (sv\<lparr>sv_epoch := epoch\<rparr>), True, epoch))"

text \<open>\<open>mac_ok\<close> is the verification of the message authentication code over the canonical JSON.\<close>

definition confirm_record :: "string \<Rightarrow> string \<Rightarrow> string \<Rightarrow> int \<Rightarrow> string \<Rightarrow> (string, json) dict" where
  "confirm_record cid nid action epoch ts =
     [(''confirm_id'', JStr cid), (''node_id'', JStr nid), (''action'', JStr action), (''epoch'', JInt epoch),
      (''ts'', JStr ts)]"

definition receive_confirm ::
  "((string, json) dict \<Rightarrow> string \<Rightarrow> bool) \<Rightarrow> time \<Rightarrow> string \<Rightarrow> string \<Rightarrow> string \<Rightarrow> int \<Rightarrow> string \<Rightarrow> string \<Rightarrow> services
     \<Rightarrow> services \<times> bool" where
  "receive_confirm mac_ok now cid nid action epoch ts mac sv =
     (let r = confirm_record cid nid action epoch ts
      in if \<not> mac_ok r mac then (sv, False)
         else
           let d = dset (sv_confirms sv) (cid, nid) (r @ [(''received_at'', JReal now)]);
               d' = (if length d > sv_confirms_max sv then tl d else d)
           in (mark_rule_epoch_dirty now (sv\<lparr>sv_confirms := d'\<rparr>), True))"

definition get_confirms :: "int option \<Rightarrow> services \<Rightarrow> (string, json) dict list" where
  "get_confirms epoch sv =
     (case epoch of
        None \<Rightarrow> dvals (sv_confirms sv)
      | Some e \<Rightarrow> filter (\<lambda>r. dget r ''epoch'' = Some (JInt e)) (dvals (sv_confirms sv)))"

text \<open>The peers of an election a master may push to, and the targets of an epoch broadcast.\<close>

definition peer_targets :: "net_env \<Rightarrow> election \<Rightarrow> (string \<times> string \<times> int) list" where
  "peer_targets env e =
     concat (map (\<lambda>pid. if pid = el_node_id e then []
                        else case get_candidate pid e of
                               None \<Rightarrow> []
                             | Some c \<Rightarrow>
                                 if ec_ip_address c = [] \<or> ec_port c = 0 then []
                                 else if \<not> is_safe_peer_host env (ec_ip_address c) then []
                                 else [(pid, ec_ip_address c, ec_port c)]) (known_nodes e))"

definition build_epoch_targets :: "net_env \<Rightarrow> time \<Rightarrow> registry \<Rightarrow> ha_state \<Rightarrow> (string \<times> string \<times> int) list" where
  "build_epoch_targets env now rg h =
     concat (map (\<lambda>n. if nd_ip_address n \<noteq> [] \<and> nd_port n \<noteq> 0 \<and> is_safe_peer_host env (nd_ip_address n)
                      then [(nd_id n, nd_ip_address n, nd_port n)] else []) (get_online_nodes now rg)) @
     (case ha_election h of Some e \<Rightarrow> if ha_is_leader h then peer_targets env e else [] | None \<Rightarrow> [])"

subsection \<open>The view of the cluster\<close>

text \<open>\<open>cluster_view\<close> and \<open>partitioned\<close>.\<close>

definition membership_view :: "time \<Rightarrow> ha_state \<Rightarrow> bool \<times> bool" where
  "membership_view now h =
     (case ha_election h of
        None \<Rightarrow> (True, False)
      | Some e \<Rightarrow>
          if ha_is_leader h then (True, False)
          else if leader_known e
          then (let fresh = (now - ha_last_leader_sync h \<le> max (ha_sync_interval h * 3) 10) in (fresh, \<not> fresh))
          else (False, True))"

definition leader_epoch :: "ha_state \<Rightarrow> int" where
  "leader_epoch h = (case ha_election h of None \<Rightarrow> 0 | Some e \<Rightarrow> current_term e)"

definition current_leader_id :: "ha_state \<Rightarrow> string" where
  "current_leader_id h =
     (case ha_election h of
        None \<Rightarrow> ha_node_id h
      | Some e \<Rightarrow> (case leader_id e of Some l \<Rightarrow> str_or l (ha_node_id h) | None \<Rightarrow> ha_node_id h))"

text \<open>\<open>hmac\<close> is the keyed hash in hexadecimal, \<open>shows_int\<close> the decimal spelling.\<close>

definition leader_token :: "(string \<Rightarrow> string \<Rightarrow> string) \<Rightarrow> (int \<Rightarrow> string) \<Rightarrow> string \<Rightarrow> ha_state \<Rightarrow> string" where
  "leader_token hmac shows_int secret h =
     take 32 (hmac secret (shows_int (leader_epoch h) @ '':'' @ current_leader_id h))"

definition leader_token_enforce :: "string \<Rightarrow> ha_state \<Rightarrow> bool" where
  "leader_token_enforce env_value h = (case ha_election h of None \<Rightarrow> False | Some _ \<Rightarrow> py_strip env_value = ''1'')"

definition on_elected_leader :: "ha_state \<Rightarrow> ha_state" where
  "on_elected_leader h =
     (let h1 = h\<lparr>ha_is_leader := True\<rparr>
      in case ha_election h1 of None \<Rightarrow> h1 | Some e \<Rightarrow> h1\<lparr>ha_fencing := current_fencing_token e\<rparr>)"

definition on_demoted_from_leader :: "ha_state \<Rightarrow> ha_state" where
  "on_demoted_from_leader h = h\<lparr>ha_is_leader := False\<rparr>"

subsection \<open>Sessions\<close>

datatype session_event =
  Register time string string string string "(string, json) dict"
| Handoff time string string registry
| Close time string

definition session_step :: "session_event \<Rightarrow> services \<Rightarrow> py_error + services \<times> cluster_session" where
  "session_step ev sv =
     (case ev of
        Register now sid origin host owner meta \<Rightarrow> register_session now sid origin host owner meta sv
      | Handoff now sid target rg \<Rightarrow> handoff_session now sid target rg sv
      | Close now sid \<Rightarrow> close_session now sid sv)"

definition session_after :: "session_event \<Rightarrow> services \<Rightarrow> services" where
  "session_after ev sv = (case session_step ev sv of Inl _ \<Rightarrow> sv | Inr (sv', _) \<Rightarrow> sv')"

lemma session_after_other:
  assumes "\<And>now o' h ow m. ev \<noteq> Register now sid o' h ow m" and "get_session sid sv = Some s" and "cs_state s = Closed"
  shows "get_session sid (session_after ev sv) = Some s"
proof (cases ev)
  case (Register now sid' o' h ow m)
  then have "sid' \<noteq> sid" using assms(1) [of now o' h ow m] by auto
  then show ?thesis
    using assms(2) Register by (simp add: session_after_def session_step_def register_session_def get_session_def Let_def)
next
  case (Handoff now sid' target rg)
  then show ?thesis
    using assms(2,3)
    by (cases "sid' = sid")
       (auto simp: session_after_def session_step_def handoff_session_def get_session_def Let_def split: option.splits)
next
  case (Close now sid')
  then show ?thesis
    using assms(2,3)
    by (cases "sid' = sid")
       (auto simp: session_after_def session_step_def close_session_def get_session_def Let_def split: option.splits)
qed

text \<open>The life of a session: once closed it stays exactly as it is, through every hand-over and close
  that is tried, until the same id is registered again; and a hand-over that succeeds leaves an existing,
  open session handed over to a node that is registered.\<close>

theorem closed_session_stays_closed:
  assumes "get_session sid sv = Some s" and "cs_state s = Closed"
    and "\<forall>ev \<in> set evs. \<forall>now o' h ow m. ev \<noteq> Register now sid o' h ow m"
  shows "get_session sid (fold session_after evs sv) = Some s \<and>
         (\<forall>now target rg sv' s'. handoff_session now sid' target rg sv = Inr (sv', s') \<longrightarrow>
            sid' \<noteq> sid \<and> cs_state s' = HandedOff \<and> cs_host s' = target \<and> get_session sid' sv' = Some s' \<and>
            dget (rg_nodes rg) target \<noteq> None)"
proof -
  have "get_session sid (fold session_after evs sv) = Some s"
    using assms
  proof (induction evs arbitrary: sv)
    case (Cons ev evs)
    have "get_session sid (session_after ev sv) = Some s"
      by (rule session_after_other [OF _ Cons.prems(1,2)]) (use Cons.prems(3) in auto)
    then show ?case using Cons by simp
  qed simp
  moreover have "sid' \<noteq> sid \<and> cs_state s' = HandedOff \<and> cs_host s' = target \<and> get_session sid' sv' = Some s' \<and>
      dget (rg_nodes rg) target \<noteq> None" if "handoff_session now sid' target rg sv = Inr (sv', s')" for now target rg sv' s'
    using that assms(1,2) by (auto simp: handoff_session_def get_session_def Let_def split: if_splits option.splits)
  ultimately show ?thesis by blast
qed

definition demo_services :: services where
  "demo_services =
     fold session_after [Register 1 ''s1'' ''laptop'' [] ''ann'' [], Close 2 ''s1'']
       (services_init None True)"

lemma closed_session_stays_closed_witness:
  "\<exists>s. get_session ''s1'' (fold session_after [Handoff 3 ''s1'' ''b'' demo_registry, Close 4 ''s1''] demo_services) = Some s \<and>
       cs_state s = Closed"
proof -
  obtain s where s: "get_session ''s1'' demo_services = Some s" "cs_state s = Closed"
    by (simp add: demo_services_def session_after_def session_step_def register_session_def close_session_def
        get_session_def services_init_def Let_def)
  have "get_session ''s1'' (fold session_after [Handoff 3 ''s1'' ''b'' demo_registry, Close 4 ''s1''] demo_services) = Some s"
    using closed_session_stays_closed [OF s, of "[Handoff 3 ''s1'' ''b'' demo_registry, Close 4 ''s1'']"] by simp
  then show ?thesis using s(2) by blast
qed

subsection \<open>Chat slots\<close>

text \<open>The contract: a bag of the users that hold a slot.  A limit of 0 means that nothing is counted.\<close>

datatype chat_op = Acquire string tasks | Release string tasks

fun chat_spec :: "chat_op \<Rightarrow> string multiset \<Rightarrow> string multiset \<times> bool" where
  "chat_spec (Acquire u td) H =
     (if tenant_limit_for u td = 0 then (H, True)
      else if int (count H u) \<ge> tenant_limit_for u td then (H, False)
      else (add_mset u H, True))"
| "chat_spec (Release u td) H = (if tenant_limit_for u td = 0 then H else H - {#u#}, True)"

fun chat_code :: "chat_op \<Rightarrow> services \<Rightarrow> services \<times> bool" where
  "chat_code (Acquire u td) sv = acquire_chat_slot u td sv"
| "chat_code (Release u td) sv = (release_chat_slot u td sv, True)"

definition chat_abs :: "services \<Rightarrow> string multiset \<Rightarrow> bool" where
  "chat_abs sv H \<longleftrightarrow> (\<forall>u. dget_or (sv_chat sv) u 0 = int (count H u))"

lemma chat_step:
  assumes "chat_abs sv H"
  shows "snd (chat_code op sv) = snd (chat_spec op H) \<and> chat_abs (fst (chat_code op sv)) (fst (chat_spec op H))"
proof (cases op)
  case (Acquire u td)
  have "dget_or (sv_chat sv) u 0 = int (count H u)" using assms by (simp add: chat_abs_def)
  then show ?thesis
    using assms by (simp add: Acquire acquire_chat_slot_def chat_abs_def Let_def dget_or_def)
next
  case (Release u td)
  have c: "dget_or (sv_chat sv) u 0 = int (count H u)" using assms by (simp add: chat_abs_def)
  have o: "dget_or (sv_chat sv) v 0 = int (count H v)" for v using assms by (simp add: chat_abs_def)
  show ?thesis
    unfolding Release chat_code.simps chat_spec.simps release_chat_slot_def Let_def chat_abs_def
    using c o by (auto simp: dget_or_def)
qed

fun chat_run :: "('s \<Rightarrow> 's \<times> bool) list \<Rightarrow> 's \<Rightarrow> 's \<times> bool list" where
  "chat_run [] s = (s, [])"
| "chat_run (f # fs) s = (let (s1, ok) = f s; (s2, oks) = chat_run fs s1 in (s2, ok # oks))"

text \<open>C18: Refinement of the chat proxy's admission control: with the limits in force at each call, every
  sequence of acquisitions and releases gives exactly the answers of a bag of slot holders in which a
  user is admitted while the bag holds fewer of its slots than its limit, and leaves the counters equal
  to that bag, so no counter ever passes the limit it was checked against or goes below zero.\<close>

theorem chat_slots_refine_bag:
  assumes "chat_abs sv H"
  shows "snd (chat_run (map chat_code ops) sv) = snd (chat_run (map chat_spec ops) H) \<and>
         chat_abs (fst (chat_run (map chat_code ops) sv)) (fst (chat_run (map chat_spec ops) H))"
  using assms
proof (induction ops arbitrary: sv H)
  case (Cons op ops)
  from chat_step [OF Cons.prems, of op] Cons.IH show ?case by (auto simp: split_beta Let_def)
qed simp

lemma chat_slots_refine_bag_witness:
  "snd (chat_run (map chat_code [Acquire ''u'' demo_tasks, Release ''u'' demo_tasks, Acquire ''u'' demo_tasks]) demo_services)
     = [True, True, True]"
proof -
  have "chat_abs demo_services {#}"
    by (simp add: chat_abs_def demo_services_def session_after_def session_step_def register_session_def
        close_session_def services_init_def Let_def dget_or_def)
  from chat_slots_refine_bag [OF this, of "[Acquire ''u'' demo_tasks, Release ''u'' demo_tasks, Acquire ''u'' demo_tasks]"]
  show ?thesis by (simp add: demo_tasks_def tasks_init_def tenant_limit_for_def)
qed

end
