(* ===== verification/HaSync.thy ===== *)
theory HaSync
  imports MasterServices
begin

text \<open>
  State synchronisation between masters (\<open>ClusterMaster\<close> in \<open>master/cluster_master.py\<close>): the dictionaries of
  nodes and caches on the wire, the payloads a leader or an active peer pushes and their targets, the merge
  of a pushed state and of pushed tasks, and the route of \<open>server/master_server.py\<close> through which a pushed
  state arrives.  The requests themselves are not modelled.
\<close>

subsection \<open>Nodes and caches on the wire\<close>

definition node_status_str :: "node_status \<Rightarrow> string" where
  "node_status_str st =
     (case st of ONLINE \<Rightarrow> ''online'' | OFFLINE \<Rightarrow> ''offline'' | BUSY \<Rightarrow> ''busy'' | FAULT \<Rightarrow> ''fault''
      | ERROR \<Rightarrow> ''error'')"

definition node_status_of :: "json \<Rightarrow> node_status" where
  "node_status_of v =
     (case find (\<lambda>st. JStr (node_status_str st) = v) [ONLINE, OFFLINE, BUSY, FAULT, ERROR] of
        Some st \<Rightarrow> st | None \<Rightarrow> OFFLINE)"

definition node_to_dict :: "node_info \<Rightarrow> (string, json) dict" where
  "node_to_dict n =
     [(''node_id'', JStr (nd_id n)), (''hostname'', JStr (nd_hostname n)),
      (''ip_address'', JStr (nd_ip_address n)), (''port'', JInt (nd_port n)), (''arch'', JStr (nd_arch n)),
      (''total_memory_gb'', JReal (total_memory_gb n)), (''available_memory_gb'', JReal (available_memory_gb n)),
      (''cpu_cores'', JInt (cpu_cores n)), (''mlx_version'', JStr (mlx_version n)),
      (''gpu_cores'', JInt (gpu_cores n)), (''device_model'', JStr (device_model n)),
      (''uma_size_gb'', JReal (uma_size_gb n)), (''role'', JStr (nd_role n)),
      (''status'', JStr (node_status_str (nd_status n))), (''last_heartbeat'', JReal (nd_last_heartbeat n)),
      (''tags'', JList (map JStr (nd_tags n))), (''active_tasks'', JInt (active_tasks n)),
      (''max_tasks'', JInt (max_tasks n)), (''network_rtt_ms'', JReal (network_rtt_ms n)),
      (''gpu_memory_used_gb'', JReal (gpu_memory_used_gb n)),
      (''gpu_memory_total_gb'', JReal (gpu_memory_total_gb n)), (''draining'', JBool (nd_draining n)),
      (''supervisor_available'', JBool (supervisor_available n))]"

text \<open>\<open>None\<close> when a conversion raises; tags are lists of strings.\<close>

definition node_from_dict :: "py_conv \<Rightarrow> (string, json) dict \<Rightarrow> node_info option" where
  "node_from_dict pc d =
     Option.bind (to_int pc (jget d ''port'' (JInt 0))) (\<lambda>port.
     Option.bind (to_float pc (jget d ''total_memory_gb'' (JReal 0))) (\<lambda>tot.
     Option.bind (to_float pc (jget d ''available_memory_gb'' (JReal 0))) (\<lambda>avail.
     Option.bind (to_int pc (jget d ''cpu_cores'' (JInt 0))) (\<lambda>cpu.
     Option.bind (to_int pc (jget d ''gpu_cores'' (JInt 0))) (\<lambda>gpu.
     Option.bind (to_float pc (jget d ''uma_size_gb'' (JReal 0))) (\<lambda>uma.
     Option.bind (to_float pc (jget d ''last_heartbeat'' (JReal 0))) (\<lambda>hb.
     Option.bind (to_strs (jget d ''tags'' (JList []))) (\<lambda>tags.
     Option.bind (to_int pc (jget d ''active_tasks'' (JInt 0))) (\<lambda>act.
     Option.bind (to_int pc (jget d ''max_tasks'' (JInt 4))) (\<lambda>mx.
     Option.bind (to_float pc (jget d ''network_rtt_ms'' (JReal 0))) (\<lambda>rtt.
     Option.bind (to_float pc (jget d ''gpu_memory_used_gb'' (JReal 0))) (\<lambda>gused.
     Option.bind (to_float pc (jget d ''gpu_memory_total_gb'' (JReal 0))) (\<lambda>gtot.
     Some \<lparr>nd_id = to_str pc (jget d ''node_id'' (JStr [])),
           nd_hostname = to_str pc (jget d ''hostname'' (JStr [])),
           nd_ip_address = to_str pc (jget d ''ip_address'' (JStr [])), nd_port = port,
           nd_arch = to_str pc (jget d ''arch'' (JStr ''arm64'')), total_memory_gb = tot,
           available_memory_gb = avail, cpu_cores = cpu,
           mlx_version = to_str pc (jget d ''mlx_version'' (JStr [])), gpu_cores = gpu,
           device_model = to_str pc (jget d ''device_model'' (JStr [])), uma_size_gb = uma,
           nd_role = to_str pc (jget d ''role'' (JStr ''worker'')),
           nd_status = node_status_of (jget d ''status'' (JStr ''offline'')), nd_last_heartbeat = hb,
           nd_tags = tags, active_tasks = act, max_tasks = mx, network_rtt_ms = rtt,
           gpu_memory_used_gb = gused, gpu_memory_total_gb = gtot,
           nd_draining = truthy (jget d ''draining'' (JBool False)),
           supervisor_available = truthy (jget d ''supervisor_available'' (JBool False)),
           nd_drivers = [], nd_resident = False\<rparr>)))))))))))))"

definition kv_to_dict :: "kv_entry \<Rightarrow> (string, json) dict" where
  "kv_to_dict e =
     [(''cache_id'', JStr (kv_id e)), (''model_name'', JStr (kv_model e)), (''node_id'', JStr (kv_node e)),
      (''created_at'', JReal (kv_created e)), (''size_mb'', JReal (kv_size_mb e)),
      (''ttl_seconds'', JReal (kv_ttl e)), (''access_count'', JInt (kv_access e))]"

definition kv_from_dict :: "py_conv \<Rightarrow> (string, json) dict \<Rightarrow> kv_entry option" where
  "kv_from_dict pc d =
     Option.bind (to_float pc (jget d ''created_at'' (JReal 0))) (\<lambda>created.
     Option.bind (to_float pc (jget d ''size_mb'' (JReal 0))) (\<lambda>size.
     Option.bind (to_float pc (jget d ''ttl_seconds'' (JReal 3600))) (\<lambda>ttl.
     Option.bind (to_int pc (jget d ''access_count'' (JInt 0))) (\<lambda>acc.
     Some \<lparr>kv_id = to_str pc (jget d ''cache_id'' (JStr [])), kv_model = to_str pc (jget d ''model_name'' (JStr [])),
           kv_node = to_str pc (jget d ''node_id'' (JStr [])), kv_created = created, kv_size_mb = size,
           kv_ttl = ttl, kv_access = acc\<rparr>))))"

subsection \<open>Merging a pushed state\<close>

text \<open>The dictionary of a pushed state; the epoch part may be absent.\<close>

record sync_state =
  ss_nodes :: "(string, json) dict list"
  ss_kv :: "(string, json) dict list"
  ss_banned :: "(string, json) dict"
  ss_epoch :: "epoch_file option"

definition merge_node :: "py_conv \<Rightarrow> time \<Rightarrow> (string, json) dict \<Rightarrow> registry \<times> nat \<Rightarrow> registry \<times> nat" where
  "merge_node pc now d acc =
     (case node_from_dict pc d of
        None \<Rightarrow> acc
      | Some info \<Rightarrow>
          if nd_id info = [] then acc
          else (sync_node_metrics now info
                  ((fst acc)\<lparr>rg_nodes := dset (rg_nodes (fst acc)) (nd_id info) info\<rparr>), Suc (snd acc)))"

definition merge_ban :: "py_conv \<Rightarrow> time \<Rightarrow> string \<times> json \<Rightarrow> registry \<times> nat \<Rightarrow> registry \<times> nat" where
  "merge_ban pc now kv acc =
     (case to_float pc (snd kv) of
        None \<Rightarrow> acc
      | Some unban_at \<Rightarrow>
          if unban_at \<le> now then acc
          else if (case dget (rg_banned (fst acc)) (fst kv) of None \<Rightarrow> True | Some cur \<Rightarrow> unban_at > cur)
          then ((fst acc)\<lparr>rg_banned := dset (rg_banned (fst acc)) (fst kv) unban_at\<rparr>, Suc (snd acc))
          else acc)"

definition merge_kv ::
  "py_conv \<Rightarrow> (string, json) dict \<Rightarrow> (string, kv_entry) dict \<times> nat \<Rightarrow> (string, kv_entry) dict \<times> nat" where
  "merge_kv pc d acc =
     (case kv_from_dict pc d of
        None \<Rightarrow> acc
      | Some e \<Rightarrow> if kv_id e = [] then acc else (dset (fst acc) (kv_id e) e, Suc (snd acc)))"

lemma drop_oldest_kv_less:
  assumes "d \<noteq> []"
  shows "length (drop_oldest_kv d) < length d"
proof -
  let ?f = "\<lambda>(_, e). kv_created e"
  have "first_min ?f d \<noteq> None" using assms unfolding first_min_None .
  then obtain p where m: "first_min ?f d = Some p" by blast
  have "p \<in> set d" by (rule first_min_mem [OF m])
  then have "length (filter (\<lambda>q. fst q \<noteq> fst p) d) < length d" by (simp add: length_filter_less)
  moreover have "filter (\<lambda>q. fst q \<noteq> fst p) d = dpop d (fst p)"
    by (auto simp: AList.delete_eq intro: filter_cong)
  ultimately show ?thesis by (cases p) (simp only: drop_oldest_kv_def m option.case prod.case fst_conv)
qed

text \<open>\<open>while len(self.kv_cache) > m\<close>: drop the oldest.\<close>

function trim_kv :: "nat \<Rightarrow> (string, kv_entry) dict \<Rightarrow> (string, kv_entry) dict" where
  "trim_kv m d = (if length d > m then trim_kv m (drop_oldest_kv d) else d)"
  by pat_completeness auto
termination by (relation "measure (\<lambda>(m, d). length d)") (auto intro: drop_oldest_kv_less)

declare trim_kv.simps [simp del]

definition merge_epoch :: "epoch_file \<Rightarrow> services \<Rightarrow> services" where
  "merge_epoch f sv =
     (let sv1 = (if ef_epoch f > sv_epoch sv then sv\<lparr>sv_epoch := ef_epoch f\<rparr> else sv)
      in if ef_confirms f = [] then sv1
         else persist_rule_epoch
                (sv1\<lparr>sv_confirms := drop_front (sv_confirms_max sv1) (fold merge_confirm (ef_confirms f) (sv_confirms sv1))\<rparr>))"

text \<open>\<open>receive_synced_state\<close> with the counts of merged nodes, caches and bans.\<close>

definition merge_nodes :: "py_conv \<Rightarrow> time \<Rightarrow> sync_state \<Rightarrow> registry \<Rightarrow> registry \<times> nat" where
  "merge_nodes pc now s rg = fold (merge_node pc now) (ss_nodes s) (rg, 0)"

definition merge_bans :: "py_conv \<Rightarrow> time \<Rightarrow> sync_state \<Rightarrow> registry \<Rightarrow> registry \<times> nat" where
  "merge_bans pc now s rg = fold (merge_ban pc now) (ss_banned s) (rg, 0)"

definition merge_caches :: "py_conv \<Rightarrow> sync_state \<Rightarrow> services \<Rightarrow> services \<times> nat" where
  "merge_caches pc s sv =
     (let (d, k) = fold (merge_kv pc) (ss_kv s) (sv_kv sv, 0) in (sv\<lparr>sv_kv := trim_kv (sv_kv_max sv) d\<rparr>, k))"

definition receive_synced_state ::
  "py_conv \<Rightarrow> time \<Rightarrow> sync_state \<Rightarrow> registry \<times> services \<times> ha_state
     \<Rightarrow> (registry \<times> services \<times> ha_state) \<times> nat \<times> nat \<times> nat" where
  "receive_synced_state pc now s m =
     (case m of (rg, sv, h) \<Rightarrow>
        let (rg1, n) = merge_nodes pc now s rg;
            (rg2, b) = merge_bans pc now s rg1;
            (sv1, k) = merge_caches pc s sv;
            sv2 = (case ss_epoch s of None \<Rightarrow> sv1 | Some f \<Rightarrow> merge_epoch f sv1)
        in ((rg2, sv2, h\<lparr>ha_last_leader_sync := now\<rparr>), n, k, b))"

text \<open>
  The route \<open>POST /api/ha/sync-state\<close>: the request model \<open>HASyncStateRequest\<close> has the fields \<open>nodes\<close>,
  \<open>kv_cache\<close> and \<open>banned_nodes\<close>; a key it does not name is left out of what it dumps.
\<close>

definition ha_sync_request :: "sync_state \<Rightarrow> sync_state" where
  "ha_sync_request body = \<lparr>ss_nodes = ss_nodes body, ss_kv = ss_kv body, ss_banned = ss_banned body, ss_epoch = None\<rparr>"

definition ha_sync_state_route ::
  "py_conv \<Rightarrow> time \<Rightarrow> sync_state \<Rightarrow> registry \<times> services \<times> ha_state
     \<Rightarrow> (registry \<times> services \<times> ha_state) \<times> nat \<times> nat \<times> nat" where
  "ha_sync_state_route pc now body m = receive_synced_state pc now (ha_sync_request body) m"

subsection \<open>Payloads and targets\<close>

definition state_payload :: "time \<Rightarrow> registry \<Rightarrow> services \<Rightarrow> sync_state" where
  "state_payload now rg sv =
     \<lparr>ss_nodes = map node_to_dict (dvals (rg_nodes rg)), ss_kv = map kv_to_dict (dvals (sv_kv sv)),
      ss_banned = map (\<lambda>(k, t). (k, JReal t)) (filter (\<lambda>(k, t). t > now) (rg_banned rg)),
      ss_epoch = Some (epoch_snapshot sv)\<rparr>"

definition push_targets :: "net_env \<Rightarrow> 'p \<Rightarrow> ha_state \<Rightarrow> (string \<times> string \<times> int \<times> 'p) list" where
  "push_targets env p h =
     (case ha_election h of
        None \<Rightarrow> []
      | Some e \<Rightarrow> if ha_is_leader h then map (\<lambda>(k, ip, port). (k, ip, port, p)) (peer_targets env e) else [])"

definition build_state_sync_targets ::
  "net_env \<Rightarrow> time \<Rightarrow> registry \<Rightarrow> services \<Rightarrow> ha_state \<Rightarrow> (string \<times> string \<times> int \<times> sync_state) list" where
  "build_state_sync_targets env now rg sv h = push_targets env (state_payload now rg sv) h"

definition sync_terminal :: "task_status \<Rightarrow> bool" where
  "sync_terminal st \<longleftrightarrow> st \<in> {COMPLETED, FAILED, CANCELLED, TIMEOUT, PARTIAL}"

definition pending_payload :: "tasks \<Rightarrow> cluster_task list" where
  "pending_payload td = map task_to_dict (filter (\<lambda>t. \<not> sync_terminal (tk_status t)) (task_list td))"

definition sync_tasks_to_standbys ::
  "net_env \<Rightarrow> tasks \<Rightarrow> ha_state \<Rightarrow> (string \<times> string \<times> int \<times> cluster_task list) list" where
  "sync_tasks_to_standbys env td h = push_targets env (pending_payload td) h"

record aa_peer =
  ap_node_id :: string
  ap_ip :: string
  ap_port :: int

definition aa_targets :: "net_env \<Rightarrow> aa_peer list \<Rightarrow> 'p \<Rightarrow> (string \<times> string \<times> int \<times> 'p) list" where
  "aa_targets env peers p =
     map (\<lambda>a. (ap_node_id a, ap_ip a, ap_port a, p))
       (filter (\<lambda>a. \<not> (ap_ip a = [] \<or> ap_port a \<le> 0 \<or> \<not> is_safe_peer_host env (ap_ip a))) peers)"

text \<open>One round of \<open>_peer_sync_loop\<close>.\<close>

definition peer_sync_round ::
  "net_env \<Rightarrow> time \<Rightarrow> aa_peer list \<Rightarrow> registry \<Rightarrow> services \<Rightarrow> tasks
     \<Rightarrow> (string \<times> string \<times> int \<times> sync_state) list \<times> (string \<times> string \<times> int \<times> cluster_task list) list" where
  "peer_sync_round env now peers rg sv td =
     (aa_targets env peers (state_payload now rg sv), aa_targets env peers (pending_payload td))"

subsection \<open>Merging pushed tasks\<close>

text \<open>A reference no table or queue uses: where the new object is put.\<close>

definition fresh_ref :: "tasks \<Rightarrow> nat" where
  "fresh_ref td = Suc (fold max (dvals (td_tasks td) @ td_queue td @ td_retry td) 0)"

definition sync_refuses :: "string \<Rightarrow> cluster_task \<Rightarrow> bool" where
  "sync_refuses own t \<longleftrightarrow>
     tk_status t \<in> {COMPLETED, FAILED, CANCELLED, TIMEOUT} \<or> (tk_owner t = own \<and> own \<noteq> [])"

text \<open>A dictionary \<open>_task_from_dict\<close> raises on is \<open>None\<close>.\<close>

definition merge_task :: "string \<Rightarrow> cluster_task option \<Rightarrow> tasks \<times> nat \<Rightarrow> tasks \<times> nat" where
  "merge_task own od acc =
     (case od of
        None \<Rightarrow> acc
      | Some d \<Rightarrow>
          let t = task_from_dict (td_partial_recovery (fst acc)) d
          in if (case get_task (tk_id t) (fst acc) of None \<Rightarrow> False | Some ex \<Rightarrow> sync_refuses own ex) then acc
             else (insert_task (fresh_ref (fst acc)) t (fst acc), Suc (snd acc)))"

definition receive_synced_tasks :: "time \<Rightarrow> ha_state \<Rightarrow> cluster_task option list \<Rightarrow> tasks \<Rightarrow> tasks \<times> nat" where
  "receive_synced_tasks now h ds td =
     (let (td1, merged) = fold (merge_task (ha_node_id h)) ds (td, 0)
      in (if merged = 0 then td1 else write_task_store now (persist_snapshot td1) td1, merged))"

subsection \<open>What survives the wire\<close>

definition undriven :: "node_info \<Rightarrow> node_info" where
  "undriven n = n\<lparr>nd_drivers := [], nd_resident := False\<rparr>"

lemma undriven_simps [simp]:
  "nd_id (undriven n) = nd_id n" "nd_tags (undriven n) = nd_tags n" "nd_drivers (undriven n) = []"
  by (simp_all add: undriven_def)

lemma node_status_of_str [simp]: "node_status_of (JStr (node_status_str st)) = st"
  by (cases st) (simp_all add: node_status_of_def node_status_str_def)

interpretation node_wire: wire_format node_to_dict "node_from_dict pc" undriven
  by unfold_locales (simp add: node_from_dict_def node_to_dict_def jget_def undriven_def)

interpretation kv_wire: wire_format kv_to_dict "kv_from_dict pc" "\<lambda>e. e"
  by unfold_locales (simp add: kv_from_dict_def kv_to_dict_def jget_def)

subsection \<open>Bans and epochs only grow\<close>

text \<open>The end of the ban of a node as seen at a time \<open>T\<close>.\<close>

definition ban_until :: "time \<Rightarrow> string \<Rightarrow> registry \<Rightarrow> time" where
  "ban_until T k rg = (case dget (rg_banned rg) k of None \<Rightarrow> T | Some t \<Rightarrow> max T t)"

lemma ban_until_iff: "is_node_banned T k rg \<longleftrightarrow> T < ban_until T k rg"
  by (auto simp: is_node_banned_def ban_until_def split: option.splits)

definition ban_offer :: "py_conv \<Rightarrow> time \<Rightarrow> string \<Rightarrow> time \<times> string \<times> json \<Rightarrow> time" where
  "ban_offer pc T k ev =
     (case ev of (now, k', v) \<Rightarrow>
        if k' = k then (case to_float pc v of Some x \<Rightarrow> if x > now then x else T | None \<Rightarrow> T) else T)"

definition ban_step :: "py_conv \<Rightarrow> time \<times> string \<times> json \<Rightarrow> registry \<Rightarrow> registry" where
  "ban_step pc ev rg = fst (merge_ban pc (fst ev) (snd ev) (rg, 0))"

lemma merge_ban_fst: "fst (merge_ban pc now kv acc) = ban_step pc (now, kv) (fst acc)"
  by (auto simp: ban_step_def merge_ban_def split: option.splits)

interpretation bans: join_log "ban_until T k" "ban_offer pc T k" "ban_step pc"
proof
  fix ev :: "time \<times> string \<times> json" and rg
  obtain now k' v where ev: "ev = (now, k', v)" by (cases ev)
  show "ban_until T k (ban_step pc ev rg) = max (ban_until T k rg) (ban_offer pc T k ev)"
    unfolding ev ban_offer_def ban_step_def merge_ban_def ban_until_def
    by (cases "to_float pc v"; cases "dget (rg_banned rg) k'"; cases "dget (rg_banned rg) k") (auto simp: max_def)
qed

datatype epoch_event = Broadcast time int | Pushed epoch_file

definition epoch_step :: "epoch_event \<Rightarrow> services \<Rightarrow> services" where
  "epoch_step ev sv =
     (case ev of Broadcast now e \<Rightarrow> fst (receive_rule_epoch now e sv) | Pushed f \<Rightarrow> merge_epoch f sv)"

definition epoch_offer :: "epoch_event \<Rightarrow> int" where
  "epoch_offer ev = (case ev of Broadcast now e \<Rightarrow> e | Pushed f \<Rightarrow> ef_epoch f)"

lemma persist_rule_epoch_sel [simp]:
  "sv_epoch (persist_rule_epoch sv) = sv_epoch sv" "sv_confirms (persist_rule_epoch sv) = sv_confirms sv"
  "sv_kv (persist_rule_epoch sv) = sv_kv sv" "sv_kv_max (persist_rule_epoch sv) = sv_kv_max sv"
  by (simp_all add: persist_rule_epoch_def)

lemma mark_rule_epoch_dirty_sel [simp]:
  "sv_epoch (mark_rule_epoch_dirty now sv) = sv_epoch sv" "sv_confirms (mark_rule_epoch_dirty now sv) = sv_confirms sv"
  "sv_kv (mark_rule_epoch_dirty now sv) = sv_kv sv" "sv_kv_max (mark_rule_epoch_dirty now sv) = sv_kv_max sv"
  by (simp_all add: mark_rule_epoch_dirty_def)

lemma merge_epoch_sel [simp]:
  "sv_epoch (merge_epoch f sv) = max (sv_epoch sv) (ef_epoch f)"
  "sv_kv (merge_epoch f sv) = sv_kv sv" "sv_kv_max (merge_epoch f sv) = sv_kv_max sv"
  by (simp_all add: merge_epoch_def Let_def max_def)

interpretation epochs: join_log sv_epoch epoch_offer epoch_step
  by unfold_locales
     (auto simp: epoch_step_def epoch_offer_def receive_rule_epoch_def max_def split: epoch_event.splits)

end
