(* ===== verification/HaClaims.thy ===== *)
theory HaClaims
  imports HaSync SlotLedger
begin

text \<open>
  What the synchronisation of masters gives: a pushed state arrives up to the fields the wire does not
  carry, states join to the same bans and epoch in whatever order they come, and pushed tasks never
  replace what the receiver is the authority for, but are not scheduled by it either.
\<close>

subsection \<open>Merging nodes, bans and caches\<close>

lemma merge_node_keeps [simp]:
  "rg_banned (fst (merge_node pc now d acc)) = rg_banned (fst acc)"
  by (simp add: merge_node_def sync_node_metrics_def Let_def split: option.split)

lemma fold_merge_node_banned: "rg_banned (fst (fold (merge_node pc now) ds acc)) = rg_banned (fst acc)"
  by (induction ds arbitrary: acc) simp_all

lemma merge_nodes_banned [simp]: "ban_until T k (fst (merge_nodes pc now s rg)) = ban_until T k rg"
  by (simp add: merge_nodes_def ban_until_def fold_merge_node_banned)

lemma reg_wf_merge_node: "reg_wf (fst acc) \<Longrightarrow> reg_wf (fst (merge_node pc now d acc))"
  by (cases "node_from_dict pc d") (auto simp: merge_node_def reg_wf_def sync_node_metrics_def Let_def)

lemma reg_wf_merge_nodes: "reg_wf rg \<Longrightarrow> reg_wf (fst (merge_nodes pc now s rg))"
proof -
  have "reg_wf (fst acc) \<Longrightarrow> reg_wf (fst (fold (merge_node pc now) ds acc))" for acc ds
    by (induction ds arbitrary: acc) (simp_all add: reg_wf_merge_node)
  then show "reg_wf rg \<Longrightarrow> reg_wf (fst (merge_nodes pc now s rg))" by (simp add: merge_nodes_def)
qed

lemma fold_merge_ban: "fst (fold (merge_ban pc now) kvs acc) = fold (ban_step pc) (map (Pair now) kvs) (fst acc)"
  by (induction kvs arbitrary: acc) (simp_all add: merge_ban_fst)

lemma merge_bans_fst: "fst (merge_bans pc now s rg) = fold (ban_step pc) (map (Pair now) (ss_banned s)) rg"
  by (simp add: merge_bans_def fold_merge_ban)

lemma ban_step_nodes [simp]: "rg_nodes (ban_step pc ev rg) = rg_nodes rg"
  by (simp add: ban_step_def merge_ban_def split: option.split)

lemma merge_bans_nodes [simp]: "rg_nodes (fst (merge_bans pc now s rg)) = rg_nodes rg"
proof -
  have "rg_nodes (fold (ban_step pc) evs rg) = rg_nodes rg" for evs
    by (induction evs arbitrary: rg) simp_all
  then show ?thesis by (simp add: merge_bans_fst)
qed

lemma trim_kv_length: "length (trim_kv m d) \<le> m"
  by (induction m d rule: trim_kv.induct) (subst trim_kv.simps, simp)

lemma merge_caches_sel [simp]:
  "sv_epoch (fst (merge_caches pc s sv)) = sv_epoch sv" "sv_confirms (fst (merge_caches pc s sv)) = sv_confirms sv"
  "length (sv_kv (fst (merge_caches pc s sv))) \<le> sv_kv_max (fst (merge_caches pc s sv))"
  by (simp_all add: merge_caches_def split_beta Let_def trim_kv_length)

lemma receive_sel:
  "fst (fst (receive_synced_state pc now s (rg, sv, h))) = fst (merge_bans pc now s (fst (merge_nodes pc now s rg)))"
  "fst (snd (fst (receive_synced_state pc now s (rg, sv, h)))) =
     (case ss_epoch s of None \<Rightarrow> fst (merge_caches pc s sv) | Some f \<Rightarrow> merge_epoch f (fst (merge_caches pc s sv)))"
  "snd (snd (fst (receive_synced_state pc now s (rg, sv, h)))) = h\<lparr>ha_last_leader_sync := now\<rparr>"
  by (simp_all add: receive_synced_state_def split_beta Let_def split: option.split)

subsection \<open>A pushed state arrives\<close>

lemma merge_node_fold:
  "fold (merge_node pc now) (map node_to_dict ns) acc =
     fold (\<lambda>n. (\<lambda>info acc. if nd_id info = [] then acc
                  else (sync_node_metrics now info
                          ((fst acc)\<lparr>rg_nodes := dset (rg_nodes (fst acc)) (nd_id info) info\<rparr>), Suc (snd acc)))
               (undriven n)) ns acc"
  using node_wire.fold_dec [where f = "\<lambda>info acc. if nd_id info = [] then acc
                  else (sync_node_metrics now info
                          ((fst acc)\<lparr>rg_nodes := dset (rg_nodes (fst acc)) (nd_id info) info\<rparr>), Suc (snd acc))"]
  unfolding merge_node_def [abs_def] .

lemma merge_node_find:
  assumes "distinct (map nd_id ns)" and "\<forall>n \<in> set ns. nd_id n \<noteq> []"
  shows "dget (rg_nodes (fst (fold (merge_node pc now) (map node_to_dict ns) acc))) k =
     (case find (\<lambda>n. nd_id n = k) ns of None \<Rightarrow> dget (rg_nodes (fst acc)) k | Some n \<Rightarrow> Some (undriven n))"
  unfolding merge_node_fold using assms
proof (induction ns arbitrary: acc)
  case (Cons n ns)
  have "find (\<lambda>m. nd_id m = nd_id n) ns = None"
    using Cons.prems(1) by (simp add: find_None_iff) (metis image_eqI)
  then show ?case using Cons by (auto split: option.split)
qed simp

lemma find_by_key:
  assumes "reg_wf rg"
  shows "find (\<lambda>n. nd_id n = k) (dvals (rg_nodes rg)) = dget (rg_nodes rg) k"
proof -
  have "\<forall>(k, n) \<in> set d. nd_id n = k \<Longrightarrow> find (\<lambda>n. nd_id n = k) (dvals d) = dget d k" for d
    by (induction d) auto
  moreover have "\<forall>(k, n) \<in> set (rg_nodes rg). nd_id n = k"
    using assms by (auto simp: reg_wf_def dget_dwf_iff)
  ultimately show ?thesis by simp
qed

lemma receive_cong:
  "receive_synced_state pc now s (rg, sv, h) = ((rg', sv', h'), cs) \<Longrightarrow>
     rg' = fst (merge_bans pc now s (fst (merge_nodes pc now s rg))) \<and>
     sv' = (case ss_epoch s of None \<Rightarrow> fst (merge_caches pc s sv) | Some f \<Rightarrow> merge_epoch f (fst (merge_caches pc s sv))) \<and>
     h' = h\<lparr>ha_last_leader_sync := now\<rparr>"
  using receive_sel [of pc now s rg sv h] by simp

lemma max_insert_greater: "finite A \<Longrightarrow> T < Max (insert (a::'a::linorder) A) \<longleftrightarrow> T < a \<or> (\<exists>x \<in> A. T < x)"
  by (subst Max_gr_iff) auto

lemma Max_insert_below: "finite A \<Longrightarrow> T \<le> B \<Longrightarrow> Max (insert (B::'a::linorder) A) = max B (Max (insert T A))"
  by (cases "A = {}") (simp_all add: max.absorb1 max.assoc [symmetric])

lemma pushed_bans:
  assumes "dwf (rg_banned rgL)" and "ss_banned s = ss_banned (state_payload now rgL svL)"
  shows "is_node_banned now k (fst (merge_bans pc now s rg)) \<longleftrightarrow> is_node_banned now k rg \<or> is_node_banned now k rgL"
proof -
  let ?evs = "map (Pair now) (ss_banned s)"
  have "(\<exists>ev \<in> set ?evs. now < ban_offer pc now k ev) \<longleftrightarrow> (\<exists>t. (k, t) \<in> set (rg_banned rgL) \<and> now < t)"
    using assms(2) by (auto simp: state_payload_def ban_offer_def split: if_splits intro: rev_bexI)
  also have "\<dots> \<longleftrightarrow> is_node_banned now k rgL"
    by (simp add: dget_dwf_iff [OF assms(1), symmetric] is_node_banned_def split: option.split)
  finally have "(\<exists>ev \<in> set ?evs. now < ban_offer pc now k ev) \<longleftrightarrow> is_node_banned now k rgL" .
  then show ?thesis
    by (simp add: ban_until_iff merge_bans_fst bans.read_steps_Max max_insert_greater del: set_map)
qed

text \<open>C19: What a master that takes over has been told: after one pushed state has gone through the route,
  the receiver knows every node of the leader under its key, with every field but the drivers and the
  resident flag, which the wire does not carry; it keeps the nodes the leader does not know; a node is
  banned exactly when one of the two had banned it; the caches stay within their bound.  The rule epoch
  and the confirmations of the leader do not arrive, although the payload has them.\<close>

theorem pushed_state_arrives:
  assumes wf: "reg_wf rgL" "dwf (rg_banned rgL)" and ids: "\<forall>n \<in> set (dvals (rg_nodes rgL)). nd_id n \<noteq> []"
    and r: "ha_sync_state_route pc now (state_payload now rgL svL) (rg, sv, h) = ((rg', sv', h'), counts)"
  shows "(\<forall>k. dget (rg_nodes rg') k =
             (case dget (rg_nodes rgL) k of None \<Rightarrow> dget (rg_nodes rg) k | Some n \<Rightarrow> Some (undriven n))) \<and>
         (\<forall>k. is_node_banned now k rg' \<longleftrightarrow> is_node_banned now k rg \<or> is_node_banned now k rgL) \<and>
         length (sv_kv sv') \<le> sv_kv_max sv' \<and> sv_epoch sv' = sv_epoch sv \<and> sv_confirms sv' = sv_confirms sv"
proof -
  let ?s = "ha_sync_request (state_payload now rgL svL)"
  have rg': "rg' = fst (merge_bans pc now ?s (fst (merge_nodes pc now ?s rg)))" and sv': "sv' = fst (merge_caches pc ?s sv)"
    using receive_cong [OF r [unfolded ha_sync_state_route_def]] by (simp_all add: ha_sync_request_def)
  have "distinct (map nd_id (dvals (rg_nodes rgL)))"
    unfolding dvals_ids [OF wf(1)] using wf(1) unfolding reg_wf_def dwf_def by simp
  from merge_node_find [OF this ids] have nodes: "dget (rg_nodes rg') k =
      (case dget (rg_nodes rgL) k of None \<Rightarrow> dget (rg_nodes rg) k | Some n \<Rightarrow> Some (undriven n))" for k
    by (simp add: rg' merge_nodes_def ha_sync_request_def state_payload_def find_by_key [OF wf(1)] split: option.split)
  have "is_node_banned now k rg' \<longleftrightarrow> is_node_banned now k rg \<or> is_node_banned now k rgL" for k
    unfolding rg' by (subst pushed_bans [OF wf(2)]) (simp_all add: ha_sync_request_def ban_until_iff)
  with nodes show ?thesis by (simp add: sv')
qed

definition demo_conv :: py_conv where
  "demo_conv = \<lparr>pc_float = (\<lambda>_. None), pc_int = (\<lambda>_. None), pc_str = (\<lambda>_. [])\<rparr>"

lemma pushed_state_arrives_witness:
  "\<exists>rg' sv' h' cs. ha_sync_state_route demo_conv 5 (state_payload 5 demo_registry ((services_init None True)\<lparr>sv_epoch := 7\<rparr>))
       (registry_init 30, services_init None True, ha_single) = ((rg', sv', h'), cs) \<and>
     dget (rg_nodes rg') ''a'' = map_option undriven (dget (rg_nodes demo_registry) ''a'') \<and> sv_epoch sv' = 0"
proof -
  obtain rg' sv' h' cs where r: "ha_sync_state_route demo_conv 5
      (state_payload 5 demo_registry ((services_init None True)\<lparr>sv_epoch := 7\<rparr>))
      (registry_init 30, services_init None True, ha_single) = ((rg', sv', h'), cs)" by (metis prod.collapse)
  have b: "dwf (rg_banned demo_registry)" "\<forall>n \<in> set (dvals (rg_nodes demo_registry)). nd_id n \<noteq> []"
    by (simp_all add: demo_registry_def demo_info_def registry_init_def register_node_def is_node_banned_locked_def
        sync_node_metrics_def merge_registration_def set_node_draining_def upd_node_def Let_def)
  from pushed_state_arrives [OF demo_registry_wf b r]
  have "dget (rg_nodes rg') ''a'' = (case dget (rg_nodes demo_registry) ''a'' of
      None \<Rightarrow> dget (rg_nodes (registry_init 30)) ''a'' | Some n \<Rightarrow> Some (undriven n))" "sv_epoch sv' = 0"
    by (blast, simp add: services_init_def)
  with r show ?thesis by (cases cs) (auto simp: registry_init_def split: option.splits)
qed

subsection \<open>States join\<close>

definition synced_to :: "py_conv \<Rightarrow> time \<times> sync_state \<Rightarrow> registry \<times> services \<times> ha_state \<Rightarrow> registry \<times> services \<times> ha_state" where
  "synced_to pc ms m = fst (receive_synced_state pc (fst ms) (snd ms) m)"

interpretation state_bans: join_log "\<lambda>m. ban_until T k (fst m)"
  "\<lambda>ms. Max (insert T (ban_offer pc T k ` set (map (Pair (fst ms)) (ss_banned (snd ms)))))" "synced_to pc"
proof
  fix ms :: "time \<times> sync_state" and m :: "registry \<times> services \<times> ha_state"
  obtain now s rg sv h where [simp]: "ms = (now, s)" "m = (rg, sv, h)" by (cases ms; cases m) auto
  let ?A = "ban_offer pc T k ` set (map (Pair now) (ss_banned s))"
  have "ban_until T k (fst (synced_to pc ms m)) = Max (insert (ban_until T k rg) ?A)"
    by (simp add: synced_to_def receive_sel merge_bans_fst bans.read_steps_Max del: set_map)
  also have "\<dots> = max (ban_until T k rg) (Max (insert T ?A))"
    by (rule Max_insert_below) (auto simp: ban_until_def split: option.split)
  finally show "ban_until T k (fst (synced_to pc ms m)) =
      max (ban_until T k (fst m)) (Max (insert T (ban_offer pc T k ` set (map (Pair (fst ms)) (ss_banned (snd ms))))))"
    by simp
qed

interpretation state_epochs: join_log "\<lambda>m. max 0 (sv_epoch (fst (snd m)))"
  "\<lambda>ms. case ss_epoch (snd ms) of None \<Rightarrow> 0 | Some f \<Rightarrow> ef_epoch f" "synced_to pc"
proof
  fix ms :: "time \<times> sync_state" and m :: "registry \<times> services \<times> ha_state"
  obtain now s rg sv h where [simp]: "ms = (now, s)" "m = (rg, sv, h)" by (cases ms; cases m) auto
  show "max 0 (sv_epoch (fst (snd (synced_to pc ms m)))) =
      max (max 0 (sv_epoch (fst (snd m)))) (case ss_epoch (snd ms) of None \<Rightarrow> 0 | Some f \<Rightarrow> ef_epoch f)"
    by (cases "ss_epoch s") (simp_all add: synced_to_def receive_sel max.assoc)
qed

lemma synced_wf: "reg_wf (fst m) \<Longrightarrow> reg_wf (fst (fold (synced_to pc) ms m))"
proof (induction ms arbitrary: m)
  case (Cons s ms)
  obtain rg sv h where m: "m = (rg, sv, h)" by (cases m)
  have "reg_wf (fst (synced_to pc s m))"
    using Cons.prems reg_wf_merge_nodes [of rg pc "fst s" "snd s"] unfolding m synced_to_def receive_sel
    by (simp add: reg_wf_cong [OF merge_bans_nodes])
  then show ?case using Cons.IH by simp
qed simp

lemma synced_epoch: "sv_epoch (fst (snd m)) \<le> sv_epoch (fst (snd (fold (synced_to pc) ms m)))"
proof (induction ms arbitrary: m)
  case (Cons s ms)
  obtain rg sv h where m: "m = (rg, sv, h)" by (cases m)
  have "sv_epoch (fst (snd m)) \<le> sv_epoch (fst (snd (synced_to pc s m)))"
    by (simp add: m synced_to_def receive_sel split: option.split)
  also have "\<dots> \<le> sv_epoch (fst (snd (fold (synced_to pc) ms (synced_to pc s m))))" by (rule Cons.IH)
  finally show ?case by simp
qed simp

text \<open>Pushed states join like a lattice: whatever states two masters have received directly, in
  whatever order and however often, as long as it was the same set of them they agree at any time on which
  nodes are banned and until when and on the rule epoch; neither ever goes back, no epoch that was received
  is higher than the one that is kept, and the node table stays well formed.\<close>

theorem pushed_states_join:
  assumes same: "set ms = set ms'" and wf: "reg_wf (fst m)" and pos: "0 \<le> sv_epoch (fst (snd m))"
  shows "ban_until T k (fst (fold (synced_to pc) ms m)) = ban_until T k (fst (fold (synced_to pc) ms' m)) \<and>
         sv_epoch (fst (snd (fold (synced_to pc) ms m))) = sv_epoch (fst (snd (fold (synced_to pc) ms' m))) \<and>
         (is_node_banned T k (fst m) \<longrightarrow> is_node_banned T k (fst (fold (synced_to pc) ms m))) \<and>
         sv_epoch (fst (snd m)) \<le> sv_epoch (fst (snd (fold (synced_to pc) ms m))) \<and>
         (\<forall>now s f. (now, s) \<in> set ms \<and> ss_epoch s = Some f \<longrightarrow>
            ef_epoch f \<le> sv_epoch (fst (snd (fold (synced_to pc) ms m)))) \<and>
         reg_wf (fst (fold (synced_to pc) ms m))"
proof -
  have nn: "max 0 (sv_epoch (fst (snd (fold (synced_to pc) us m)))) = sv_epoch (fst (snd (fold (synced_to pc) us m)))" for us
    using pos synced_epoch [of m pc us] by simp
  have "ban_until T k (fst m) \<le> ban_until T k (fst (fold (synced_to pc) ms m))" by (rule state_bans.read_steps_ge)
  moreover have "ef_epoch f \<le> sv_epoch (fst (snd (fold (synced_to pc) ms m)))"
    if "(now, s) \<in> set ms" "ss_epoch s = Some f" for now s f
    using state_epochs.read_steps_ge_each [where pc = pc and s = m, OF that(1)] that(2) nn by simp
  ultimately show ?thesis
    using state_bans.read_steps_order [where pc = pc and s = m and T = T and k = k, OF same]
      state_epochs.read_steps_order [where pc = pc and s = m, OF same] nn synced_epoch synced_wf [OF wf]
    by (auto simp: ban_until_iff)
qed

definition demo_pushes :: "(time \<times> sync_state) list" where
  "demo_pushes =
     [(5, \<lparr>ss_nodes = [], ss_kv = [], ss_banned = [(''a'', JReal 300)], ss_epoch = Some \<lparr>ef_epoch = 4, ef_confirms = []\<rparr>\<rparr>),
      (6, \<lparr>ss_nodes = [], ss_kv = [], ss_banned = [(''a'', JReal 200)], ss_epoch = Some \<lparr>ef_epoch = 9, ef_confirms = []\<rparr>\<rparr>)]"

lemma pushed_states_join_witness:
  "let run = (\<lambda>ms. fold (synced_to demo_conv) ms (demo_registry, services_init None True, ha_single))
   in ban_until 10 ''a'' (fst (run (rev demo_pushes))) = ban_until 10 ''a'' (fst (run demo_pushes)) \<and>
      9 \<le> sv_epoch (fst (snd (run (rev demo_pushes))))"
proof -
  have "(6, \<lparr>ss_nodes = [], ss_kv = [], ss_banned = [(''a'', JReal 200)],
             ss_epoch = Some \<lparr>ef_epoch = 9, ef_confirms = []\<rparr>\<rparr>) \<in> set (rev demo_pushes)"
    by (simp add: demo_pushes_def)
  moreover have "reg_wf (fst (demo_registry, services_init None True, ha_single))"
    "0 \<le> sv_epoch (fst (snd (demo_registry, services_init None True, ha_single)))"
    by (simp_all add: demo_registry_wf services_init_def)
  ultimately show ?thesis
    using pushed_states_join [of "rev demo_pushes" demo_pushes "(demo_registry, services_init None True, ha_single)" 10 "''a''" demo_conv]
    by (fastforce simp: Let_def)
qed

subsection \<open>Pushed tasks\<close>

lemma fresh_ref_greater: "r \<in> set (dvals (td_tasks td)) \<union> set (td_queue td) \<union> set (td_retry td) \<Longrightarrow> r < fresh_ref td"
proof -
  have "n \<le> fold max xs n" "x \<in> set xs \<Longrightarrow> x \<le> fold max xs n" for x n :: nat and xs
    using Max.set_eq_fold [of n xs] Max_ge [of "set (n # xs)"] by auto
  then show "r \<in> set (dvals (td_tasks td)) \<union> set (td_queue td) \<union> set (td_retry td) \<Longrightarrow> r < fresh_ref td"
    unfolding fresh_ref_def by (metis UnE Un_iff le_imp_less_Suc set_append)
qed

text \<open>What the receiver has, for one task id: either the entry is the one from before, with its object, or
  it is a new object that no queue holds.\<close>

definition entry_kept :: "string \<Rightarrow> tasks \<Rightarrow> tasks \<Rightarrow> bool" where
  "entry_kept tid td td' \<longleftrightarrow> dget (td_tasks td') tid = dget (td_tasks td) tid \<and> get_task tid td' = get_task tid td"

definition mirrored :: "string \<Rightarrow> tasks \<Rightarrow> bool" where
  "mirrored tid td \<longleftrightarrow>
     (\<exists>r. dget (td_tasks td) tid = Some r \<and> tk_id (td_obj td r) = tid \<and>
          r \<notin> set (td_queue td) \<union> set (td_retry td) \<and> tk_status (td_obj td r) \<notin> {RUNNING, MIGRATED})"

lemma task_from_dict_not_running: "tk_status (task_from_dict pr d) \<noteq> RUNNING" "tk_status (task_from_dict pr d) \<noteq> MIGRATED"
  by (auto simp: task_from_dict_def Let_def)

lemma merge_task_queues [simp]:
  "td_queue (fst (merge_task own od acc)) = td_queue (fst acc)"
  "td_retry (fst (merge_task own od acc)) = td_retry (fst acc)"
  by (simp_all add: merge_task_def insert_task_def Let_def split: option.split)

lemma merge_task_entry:
  assumes "merge_task own od acc = acc'"
  shows "entry_kept tid (fst acc) (fst acc') \<or>
     (mirrored tid (fst acc') \<and> \<not> (case get_task tid (fst acc) of None \<Rightarrow> False | Some ex \<Rightarrow> sync_refuses own ex))"
proof (cases od)
  case None
  then show ?thesis using assms by (simp add: merge_task_def entry_kept_def)
next
  case (Some d)
  let ?td = "fst acc" and ?t = "task_from_dict (td_partial_recovery (fst acc)) d"
  consider (skip) "acc' = acc" | (put) "fst acc' = insert_task (fresh_ref ?td) ?t ?td"
      "\<not> (case get_task (tk_id ?t) ?td of None \<Rightarrow> False | Some ex \<Rightarrow> sync_refuses own ex)"
    using assms by (auto simp: merge_task_def Some Let_def split: if_splits)
  then show ?thesis
  proof cases
    case skip
    then show ?thesis by (simp add: entry_kept_def)
  next
    case put
    have q: "fresh_ref ?td \<notin> set (td_queue ?td) \<union> set (td_retry ?td)"
      using fresh_ref_greater [of "fresh_ref ?td" ?td] by auto
    show ?thesis
    proof (cases "tid = tk_id ?t")
      case True
      then show ?thesis using put q by (simp add: mirrored_def insert_task_def task_from_dict_not_running)
    next
      case False
      have "dget (td_tasks ?td) tid \<noteq> Some (fresh_ref ?td)"
        using fresh_ref_greater [of "fresh_ref ?td" ?td] by (force dest: map_of_SomeD)
      then show ?thesis
        using put False by (cases "dget (td_tasks ?td) tid") (auto simp: entry_kept_def get_task_def insert_task_def)
    qed
  qed
qed

lemma merge_task_obj: "r \<in> set (td_queue (fst acc)) \<union> set (td_retry (fst acc)) \<Longrightarrow>
    td_obj (fst (merge_task own od acc)) r = td_obj (fst acc) r"
  using fresh_ref_greater [of r "fst acc"] by (auto simp: merge_task_def insert_task_def Let_def split: option.split)

lemma merge_tasks_obj:
  assumes "r \<in> set (td_queue (fst acc)) \<union> set (td_retry (fst acc))"
  shows "td_obj (fst (fold (merge_task own) ds acc)) r = td_obj (fst acc) r"
  using assms
proof (induction ds arbitrary: acc)
  case (Cons d ds)
  have "td_obj (fst (fold (merge_task own) ds (merge_task own d acc))) r = td_obj (fst (merge_task own d acc)) r"
    by (rule Cons.IH) (use Cons.prems in simp)
  then show ?case using merge_task_obj [OF Cons.prems] by simp
qed simp

lemma merge_tasks_entry:
  "(entry_kept tid td (fst (fold (merge_task own) ds (td, n))) \<or>
     (mirrored tid (fst (fold (merge_task own) ds (td, n))) \<and>
      \<not> (case get_task tid td of None \<Rightarrow> False | Some ex \<Rightarrow> sync_refuses own ex))) \<and>
   td_queue (fst (fold (merge_task own) ds (td, n))) = td_queue td \<and>
   td_retry (fst (fold (merge_task own) ds (td, n))) = td_retry td"
proof (induction ds rule: rev_induct)
  case (snoc d ds)
  let ?acc = "fold (merge_task own) ds (td, n)"
  have "entry_kept tid (fst ?acc) (fst (merge_task own d ?acc)) \<or> (mirrored tid (fst (merge_task own d ?acc)) \<and>
      \<not> (case get_task tid (fst ?acc) of None \<Rightarrow> False | Some ex \<Rightarrow> sync_refuses own ex))"
    by (rule merge_task_entry) simp
  moreover have "mirrored tid (fst (merge_task own d ?acc))"
    if "mirrored tid (fst ?acc)" "entry_kept tid (fst ?acc) (fst (merge_task own d ?acc))"
    using that by (auto simp: mirrored_def entry_kept_def get_task_def)
  ultimately show ?case using snoc by (auto simp: entry_kept_def)
qed (simp add: entry_kept_def)

lemma write_task_store_queues [simp]:
  "td_queue (write_task_store now snap td) = td_queue td" "td_retry (write_task_store now snap td) = td_retry td"
  by (simp_all add: write_task_store_def)

lemma receive_tasks_sel:
  fixes td h ds
  defines "td1 \<equiv> fst (fold (merge_task (ha_node_id h)) ds (td, 0))"
  shows "td_obj (fst (receive_synced_tasks now h ds td)) = td_obj td1"
    "td_tasks (fst (receive_synced_tasks now h ds td)) = td_tasks td1"
    "td_queue (fst (receive_synced_tasks now h ds td)) = td_queue td1"
    "td_retry (fst (receive_synced_tasks now h ds td)) = td_retry td1"
  by (simp_all add: receive_synced_tasks_def td1_def split_beta Let_def)

subsection \<open>Scheduling passes by a task that no queue holds\<close>

definition leaves :: "string \<Rightarrow> master \<Rightarrow> master \<Rightarrow> bool" where
  "leaves tid c c' \<longleftrightarrow>
     (\<forall>r. tk_id (the_task r c') = tk_id (the_task r c)) \<and>
     (\<forall>r. tk_id (the_task r c) = tid \<longrightarrow> the_task r c' = the_task r c) \<and>
     dget (td_tasks (ms_td c')) tid = dget (td_tasks (ms_td c)) tid \<and>
     (\<forall>r \<in> set (td_queue (ms_td c')) \<union> set (td_retry (ms_td c')).
        r \<in> set (td_queue (ms_td c)) \<union> set (td_retry (ms_td c)) \<or> tk_id (the_task r c) \<noteq> tid)"

lemma leaves_trans [trans]: "leaves tid c c' \<Longrightarrow> leaves tid c' c'' \<Longrightarrow> leaves tid c c''"
  unfolding leaves_def by (intro conjI; elim conjE; metis)

lemma leaves_same: "ms_td c' = ms_td c \<Longrightarrow> leaves tid c c'"
  by (simp add: leaves_def the_task_def)

lemma leaves_at:
  assumes "tk_id (the_task r c) \<noteq> tid" and "td_obj (ms_td c') = (td_obj (ms_td c))(r := t')"
    and "tk_id t' = tk_id (the_task r c)"
    and "td_tasks (ms_td c') = td_tasks (ms_td c) \<or> td_tasks (ms_td c') = dset (td_tasks (ms_td c)) (tk_id (the_task r c)) r"
    and "set (td_queue (ms_td c')) \<union> set (td_retry (ms_td c')) \<subseteq> insert r (set (td_queue (ms_td c)) \<union> set (td_retry (ms_td c)))"
  shows "leaves tid c c'"
  using assms unfolding leaves_def the_task_def by auto

lemma leaves_enqueue:
  assumes "tk_id (the_task r c) \<noteq> tid"
  shows "leaves tid c (fst (enqueue f r c))"
proof (cases "f \<or> length (td_queue (ms_td c)) < td_max_pending (ms_td c)")
  case True
  have "td_retry (fst (enqueue_pending f r (ms_td c))) = td_retry (ms_td c)"
    by (simp add: enqueue_pending_def Let_def)
  then show ?thesis
    using True by (intro leaves_at [OF assms, of _ "(the_task r c)\<lparr>tk_status := PENDING, tk_assigned := []\<rparr>"])
      (auto simp: enqueue_def split_beta enqueue_pending_sel the_task_def)
next
  case False
  then show ?thesis by (intro leaves_same) (simp add: enqueue_def enqueue_pending_def split_beta)
qed

lemma quiet_queues [simp]:
  "td_queue (trigger_dispatch r td) = td_queue td" "td_retry (trigger_dispatch r td) = td_retry td"
  "td_queue (persist_throttled now snap td) = td_queue td" "td_retry (persist_throttled now snap td) = td_retry td"
  "td_queue (mark_running now ids r td) = td_queue td" "td_retry (mark_running now ids r td) = td_retry td"
  by (simp_all add: trigger_dispatch_def persist_throttled_def mark_running_def Let_def)

lemma leaves_start_on:
  assumes "tk_id (the_task r c) \<noteq> tid"
  shows "leaves tid c (start_on now ids r c)"
  by (rule leaves_at [OF assms, of _ "(the_task r c)\<lparr>tk_assigned := ids, tk_status := RUNNING, tk_started := now\<rparr>"])
     (simp_all, auto simp: start_on_def Let_def)

lemma leaves_with_reg: "leaves tid (c\<lparr>ms_reg := rg\<rparr>) c' \<Longrightarrow> leaves tid c c'"
  using leaves_trans [of tid c "c\<lparr>ms_reg := rg\<rparr>" c'] leaves_same [of "c\<lparr>ms_reg := rg\<rparr>" c tid] by simp

lemma leaves_commit:
  assumes "tk_id (the_task r c) \<noteq> tid"
  shows "leaves tid c (fst (commit_assign now required nodes r c))"
proof -
  obtain rg1 chosen where ch: "chosen_nodes now required nodes r c = (rg1, chosen)" by fastforce
  have "leaves tid c (fst (enqueue False r (c\<lparr>ms_reg := rg1\<rparr>)))"
    "leaves tid c (start_on now (map nd_id chosen) r (c\<lparr>ms_reg := rg1\<rparr>))"
    using assms by (intro leaves_with_reg [OF leaves_enqueue] leaves_with_reg [OF leaves_start_on], simp)+
  then show ?thesis
    using leaves_enqueue [OF assms] leaves_same [of c c tid] by (simp add: commit_assign_def ch Let_def)
qed

lemma leaves_assign:
  assumes "tk_id (the_task r c) \<noteq> tid"
  shows "leaves tid c (fst (assign_task now r c))"
proof -
  let ?t = "the_task r c"
  obtain rg1 nodes where s: "select_for now (estimate_memory (tk_model_name ?t)) ?t c = (rg1, nodes)" by fastforce
  have forced: "leaves tid c c'" if "local_force now q r c = Some c'" for q c'
    using that
  proof (cases rule: local_force_cases)
    case (forced n)
    show ?thesis
      by (rule leaves_at [OF assms, of _ "?t\<lparr>tk_assigned := [tk_preferred ?t], tk_status := RUNNING, tk_started := now\<rparr>"])
         (simp_all add: forced(5) the_task_def, auto)
  qed (simp add: leaves_same)
  have "leaves tid c (fst (enqueue False r (c\<lparr>ms_reg := rg1\<rparr>)))"
    "leaves tid c (fst (commit_assign now q nodes r (c\<lparr>ms_reg := rg1\<rparr>)))" for q
    using assms by (intro leaves_with_reg [OF leaves_enqueue] leaves_with_reg [OF leaves_commit], simp)+
  then show ?thesis
    using forced leaves_enqueue [OF assms] leaves_same [of c c tid] leaves_same [of "c\<lparr>ms_reg := rg1\<rparr>" c tid]
    by (simp add: assign_task_def Let_def s split: option.split)
qed

lemma leaves_fold:
  assumes step: "\<And>r c. tk_id (the_task r c) \<noteq> tid \<Longrightarrow> leaves tid c (f r c)"
    and "\<forall>r \<in> set rs. tk_id (the_task r c) \<noteq> tid"
  shows "leaves tid c (fold f rs c)"
  using assms(2)
proof (induction rs arbitrary: c)
  case (Cons r rs)
  have one: "leaves tid c (f r c)" using Cons.prems by (simp add: step)
  then have "\<forall>r' \<in> set rs. tk_id (the_task r' (f r c)) \<noteq> tid" using Cons.prems by (simp add: leaves_def)
  from leaves_trans [OF one Cons.IH [OF this]] show ?case by simp
qed (simp add: leaves_same)

definition unqueued :: "string \<Rightarrow> master \<Rightarrow> bool" where
  "unqueued tid c \<longleftrightarrow> (\<forall>r \<in> set (td_queue (ms_td c)) \<union> set (td_retry (ms_td c)). tk_id (the_task r c) \<noteq> tid)"

lemma unqueued_leaves: "unqueued tid c \<Longrightarrow> leaves tid c c' \<Longrightarrow> unqueued tid c'"
  unfolding unqueued_def leaves_def by metis

lemma the_task_on_td [simp]: "the_task r (on_td f c) = td_obj (f (ms_td c)) r"
  by (simp add: the_task_def)

lemma leaves_drain_one:
  assumes "tk_id (the_task r c) \<noteq> tid"
  shows "leaves tid c (drain_one now r c)"
proof -
  have a: "leaves tid c (fst (assign_task now r c))" by (rule leaves_assign [OF assms])
  then have "tk_id (the_task r (fst (assign_task now r c))) \<noteq> tid" using assms by (simp add: leaves_def)
  from leaves_trans [OF a leaves_enqueue [OF this]] a show ?thesis by (simp add: drain_one_def split_beta)
qed

lemma leaves_drop_queue: "leaves tid c (on_td (\<lambda>td. td\<lparr>td_queue := []\<rparr>) c)" "leaves tid c (on_td (\<lambda>td. td\<lparr>td_retry := []\<rparr>) c)"
  by (simp_all add: leaves_def the_task_def)

lemma leaves_drain: "unqueued tid c \<Longrightarrow> leaves tid c (drain_pending now c)"
  unfolding drain_pending_def
  by (auto simp: leaves_same unqueued_def the_task_def
      intro!: leaves_trans [OF leaves_drop_queue(1) leaves_fold] leaves_drain_one)

lemma leaves_retry_one:
  assumes "tk_id (the_task r c) \<noteq> tid"
  shows "leaves tid c (retry_one now r c)"
proof -
  let ?c1 = "fst (assign_task now r c)"
  have a: "leaves tid c ?c1" by (rule leaves_assign [OF assms])
  then have n: "tk_id (the_task r ?c1) \<noteq> tid" using assms by (simp add: leaves_def)
  obtain t' where t': "td_obj (enqueue_retry now r (ms_td ?c1)) = (td_obj (ms_td ?c1))(r := t')"
    "tk_id t' = tk_id (the_task r ?c1)"
    using enqueue_retry_sel(2) [of now r "ms_td ?c1"] by (auto simp: the_task_def)
  have "leaves tid ?c1 (on_td (enqueue_retry now r) ?c1)"
    by (rule leaves_at [OF n, of _ t']) (simp_all add: t' enqueue_retry_sel(1), auto simp: enqueue_retry_def Let_def)
  from leaves_trans [OF a this] a have "leaves tid c (fst (assign_or_retry now r c))"
    by (simp add: assign_or_retry_def split_beta)
  moreover have "leaves tid c (on_td (\<lambda>td. td\<lparr>td_retry := td_retry td @ [r]\<rparr>) c)"
    using assms by (simp add: leaves_def the_task_def) blast
  moreover have "leaves tid c (on_td (emit_task_event r ''failed'' ''retry loop limit'')
      (set_task r (\<lambda>t. t\<lparr>tk_status := FAILED, tk_error := ''retry loop limit''\<rparr>) c))"
    by (rule leaves_at [OF assms, of _ "(the_task r c)\<lparr>tk_status := FAILED, tk_error := ''retry loop limit''\<rparr>"])
       (simp_all add: the_task_def, auto)
  ultimately show ?thesis by (simp add: retry_one_def Let_def)
qed

lemma leaves_retry: "unqueued tid c \<Longrightarrow> leaves tid c (retry_round now c)"
  unfolding retry_round_def
  by (auto simp: leaves_same unqueued_def the_task_def
      intro!: leaves_trans [OF leaves_drop_queue(2) leaves_fold] leaves_retry_one)

text \<open>The passes of a master that start tasks, and the change of office itself.\<close>

datatype upkeep = Drain time | Retry time | Join "string \<Rightarrow> bool" time node_info | Elected

definition upkeep_step :: "upkeep \<Rightarrow> master \<Rightarrow> master" where
  "upkeep_step u c =
     (case u of
        Drain now \<Rightarrow> drain_pending now c
      | Retry now \<Rightarrow> retry_round now c
      | Join ok now info \<Rightarrow> fst (register_and_drain ok now info c)
      | Elected \<Rightarrow> c\<lparr>ms_ha := on_elected_leader (ms_ha c)\<rparr>)"

lemma leaves_upkeep:
  assumes "unqueued tid c"
  shows "leaves tid c (upkeep_step u c)"
proof (cases u)
  case (Join ok now info)
  obtain rg b where r: "register_node ok now info (ms_reg c) = (rg, b)" by fastforce
  have "unqueued tid (c\<lparr>ms_reg := rg\<rparr>)" using assms by (simp add: unqueued_def)
  from leaves_with_reg [OF leaves_drain [OF this]] show ?thesis
    by (simp add: Join upkeep_step_def register_and_drain_def r leaves_same Let_def)
qed (use assms in \<open>simp_all add: upkeep_step_def leaves_drain leaves_retry leaves_same\<close>)

lemma leaves_upkeeps: "unqueued tid c \<Longrightarrow> leaves tid c (fold upkeep_step us c)"
proof (induction us arbitrary: c)
  case (Cons u us)
  note one = leaves_upkeep [OF Cons.prems, of u]
  from leaves_trans [OF one Cons.IH [OF unqueued_leaves [OF Cons.prems one]]] show ?case by simp
qed (simp add: leaves_same)


definition demo_mirror :: cluster_task where
  "demo_mirror = (demo_task ''t9'' 1)\<lparr>tk_status := RUNNING, tk_assigned := [''a'']\<rparr>"

definition demo_standby :: master where
  "demo_standby = \<lparr>ms_reg = demo_registry, ms_td = tasks_init [] True False, ms_ha = ha_single, ms_shard_roles = None\<rparr>"


end
