(* ===== verification/Dispatch.thy ===== *)
theory Dispatch
  imports SlotLedger HttpAuth
begin

text \<open>
  The dispatch of running tasks to the agents (\<open>ClusterMaster._dispatch_*\<close> in \<open>master/cluster_master.py\<close>):
  the payload for a node, what its answer means, data parallel tasks, whose nodes all get the same payload,
  and pipelines, whose nodes pass on hidden states, with the checkpoint of a pipeline in the parameters of
  its task.  The network is a function from the node and the payload to a reply.  The optional scrubbing of
  the payload is a parameter.  The clock reading is the one after the answers.
\<close>

datatype http_reply = HttpExc | HttpStatus int json

text \<open>What \<open>_dispatch_to_node\<close> returns or raises.\<close>

datatype reply = Raised | Answer json

record net =
  nt_env :: net_env
  nt_post :: "string \<Rightarrow> (string, json) dict \<Rightarrow> http_reply"
  nt_scrub :: "(string, json) dict \<Rightarrow> (string, json) dict"
  nt_conv :: py_conv

definition setdefault :: "(string, json) dict \<Rightarrow> string \<Rightarrow> json \<Rightarrow> (string, json) dict" where
  "setdefault d k v = (case dget d k of None \<Rightarrow> d @ [(k, v)] | Some _ \<Rightarrow> d)"

definition pick :: "string list \<Rightarrow> (string, json) dict \<Rightarrow> (string, json) dict" where
  "pick ks d = filter (\<lambda>(k, v). k \<in> set ks) d"

definition dispatch_payload ::
  "net \<Rightarrow> (string \<Rightarrow> int \<Rightarrow> string) \<Rightarrow> ha_state \<Rightarrow> cluster_task \<Rightarrow> (string, json) dict option \<Rightarrow> (string, json) dict" where
  "dispatch_payload nt step_id h t step =
     (let params = tk_params t;
          p = (case step of
                 Some sp \<Rightarrow>
                   let extra = filter (\<lambda>(k, v). v \<noteq> JNull) sp;
                       idx = (case jget extra ''shard_index'' (JInt 0) of JInt i \<Rightarrow> i | _ \<Rightarrow> 0)
                   in [(''task_id'', JStr (step_id (tk_id t) idx)), (''task_type'', JStr ''pipeline_step''),
                       (''model_name'', JStr (tk_model_name t)), (''extra'', JObj extra)]
               | None \<Rightarrow>
                   if tk_type t = ''test''
                   then [(''task_id'', JStr (tk_id t)), (''task_type'', JStr ''test''),
                         (''model_name'', JStr (tk_model_name t)),
                         (''extra'', JObj (pick [''command'', ''cwd'', ''env'', ''timeout''] params))]
                   else nt_scrub nt
                        [(''task_id'', JStr (tk_id t)), (''task_type'', JStr (tk_type t)),
                         (''model_name'', JStr (tk_model_name t)), (''prompt'', jget params ''prompt'' (JStr [])),
                         (''messages'', jget params ''messages'' (JList [])),
                         (''max_tokens'', jget params ''max_tokens'' (JInt 2048)),
                         (''temperature'', jget params ''temperature'' (JReal 0.7)),
                         (''extra'', JObj (pick [''top_p'', ''top_k'', ''repeat_penalty'', ''seed''] params))])
      in p @ [(''fencing_token'', JInt (ha_fencing h)), (''leader_id'', JStr (str_or (ha_node_id h) ''master''))])"

text \<open>The answer of an agent; an exception is reported as a fault of the node and raised again.\<close>

definition read_reply :: "string \<Rightarrow> http_reply \<Rightarrow> reply" where
  "read_reply nid hr =
     (case hr of
        HttpExc \<Rightarrow> Raised
      | HttpStatus s body \<Rightarrow>
          if s = 429
          then Answer (JObj [(''rate_limited'', JBool True), (''error'', JStr ''429''), (''retry_after'', JStr []),
                             (''node_id'', JStr nid)])
          else if s \<noteq> 200 then Raised
          else case body of
                 JObj d \<Rightarrow>
                   if dget d ''status'' \<noteq> Some (JStr ''ok'') then Raised
                   else (case jget d ''result'' (JObj []) of
                           JObj r \<Rightarrow> Answer (JObj (setdefault r ''node_id'' (JStr nid)))
                         | v \<Rightarrow> Answer v)
               | _ \<Rightarrow> Raised)"

definition dispatch_to_node ::
  "net \<Rightarrow> (string, json) dict \<Rightarrow> (string, node_info) dict \<Rightarrow> string \<Rightarrow> reply \<times> bool" where
  "dispatch_to_node nt payload snap nid =
     (case dget snap nid of
        None \<Rightarrow> (Raised, False)
      | Some n \<Rightarrow>
          if \<not> is_safe_peer_host (nt_env nt) (nd_ip_address n) then (Raised, True)
          else let r = read_reply nid (nt_post nt nid payload) in (r, r = Raised))"

subsection \<open>Data parallel tasks\<close>

text \<open>How \<open>_dispatch_data\<close> takes the answer of a node: the tests are made in this order.\<close>

datatype verdict = Output "(string, json) dict" | Transient | Logic | LogicFault | Blocked

definition flag :: "(string, json) dict \<Rightarrow> string \<Rightarrow> bool" where
  "flag d k = (case dget d k of None \<Rightarrow> False | Some v \<Rightarrow> truthy v)"

definition classify :: "reply \<Rightarrow> verdict" where
  "classify r =
     (case r of
        Raised \<Rightarrow> Transient
      | Answer (JObj d) \<Rightarrow>
          if flag d ''rate_limited'' then Transient
          else if flag d ''overload'' then Transient
          else if flag d ''dedup_blocked'' \<or> flag d ''sandbox_blocked'' then Blocked
          else if flag d ''fencing_rejected'' then Logic
          else if dget d ''error'' \<noteq> None then LogicFault
          else Output d
      | Answer _ \<Rightarrow> Transient)"

definition outputs_of :: "verdict list \<Rightarrow> json list" where
  "outputs_of vs = concat (map (\<lambda>v. case v of Output d \<Rightarrow> [JObj d] | _ \<Rightarrow> []) vs)"

definition is_output :: "verdict \<Rightarrow> bool" where
  "is_output v = (case v of Output _ \<Rightarrow> True | _ \<Rightarrow> False)"

definition verdict_text :: "verdict \<Rightarrow> string" where
  "verdict_text v =
     (case v of Output _ \<Rightarrow> [] | Transient \<Rightarrow> ''transient'' | Logic \<Rightarrow> ''fencing_rejected''
      | LogicFault \<Rightarrow> ''agent error'' | Blocked \<Rightarrow> ''blocked'')"

definition error_texts :: "(string \<times> verdict) list \<Rightarrow> string list" where
  "error_texts nvs = map (\<lambda>(n, v). n @ '': '' @ verdict_text v) (filter (\<lambda>(n, v). \<not> is_output v) nvs)"

definition joined :: "string list \<Rightarrow> string" where
  "joined es = concat (case es of [] \<Rightarrow> [] | e # es' \<Rightarrow> e # map (\<lambda>x. ''; '' @ x) es')"

text \<open>Faults are reported for raising nodes while the answers are gathered, then for logic errors.\<close>

definition report_faults :: "time \<Rightarrow> string list \<Rightarrow> registry \<Rightarrow> registry" where
  "report_faults now nids rg = fold (\<lambda>n r. fst (report_fault now n r)) nids rg"

definition finish_data :: "time \<Rightarrow> nat \<Rightarrow> (string \<times> verdict) list \<Rightarrow> master \<Rightarrow> master" where
  "finish_data now r nvs c =
     (let vs = map snd nvs;
          outs = outputs_of vs;
          errs = error_texts nvs;
          prev = tk_prev_outputs (the_task r c);
          res = [(''outputs'', JList (prev @ outs)), (''errors'', JList (map JStr errs)),
                 (''node_count'', JInt (int (length nvs)))]
      in if outs \<noteq> [] \<and> errs = []
         then set_task r (\<lambda>t. t\<lparr>tk_prev_outputs := []\<rparr>) (finalize_task now r True False False [] (Some res) c)
         else if outs \<noteq> [] \<and> errs \<noteq> []
         then (let c1 = finalize_task now r False True False (joined errs) (Some res) c
               in if prev = [] then c1 else set_task r (\<lambda>t. t\<lparr>tk_prev_outputs := prev @ outs\<rparr>) c1)
         else finalize_task now r False False
                (Transient \<in> set vs \<and> \<not> (Logic \<in> set vs \<or> LogicFault \<in> set vs)) (joined errs) (Some res) c)"

definition dispatch_data ::
  "net \<Rightarrow> (string \<Rightarrow> int \<Rightarrow> string) \<Rightarrow> time \<Rightarrow> (string, node_info) dict \<Rightarrow> string list \<Rightarrow> nat \<Rightarrow> master \<Rightarrow> master" where
  "dispatch_data nt step_id now snap nids r c =
     (let payload = dispatch_payload nt step_id (ms_ha c) (the_task r c) None;
          rs = map (\<lambda>n. (n, dispatch_to_node nt payload snap n)) nids;
          nvs = map (\<lambda>(n, rep, f). (n, classify rep)) rs;
          raised = map fst (filter (\<lambda>(n, rep, f). f) rs);
          logic = map fst (filter (\<lambda>(n, v). v = LogicFault) nvs)
      in finish_data now r nvs (on_reg (report_faults now (raised @ logic)) c))"

subsection \<open>Pipelines\<close>

text \<open>The end of a pipeline: the last hidden states with the steps, a failure that is retried, one that is
  not.\<close>

datatype pipe_end = Done json "json list" | RetryEnd string | FailEnd string

definition shard_at :: "json list \<Rightarrow> nat \<Rightarrow> json" where
  "shard_at shards i = (if i < length shards then shards ! i else JObj [])"

text \<open>\<open>layer_range\<close> and \<open>shard_index\<close> of a segment; \<open>None\<close> when reading them raises.\<close>

definition segment :: "py_conv \<Rightarrow> json list \<Rightarrow> nat \<Rightarrow> (json \<times> int) option" where
  "segment pc shards i =
     (case shard_at shards i of
        JObj d \<Rightarrow> map_option (\<lambda>k. (jget d ''layer_range'' (JList []), k)) (to_int pc (jget d ''shard_index'' (JInt (int i))))
      | _ \<Rightarrow> None)"

definition step_params :: "json \<Rightarrow> int \<Rightarrow> json \<Rightarrow> json \<Rightarrow> json \<Rightarrow> nat \<Rightarrow> (string, json) dict" where
  "step_params model_id k layers hidden input i =
     [(''model_id'', model_id), (''shard_index'', JInt k), (''layer_range'', layers), (''hidden_states'', hidden),
      (''input_ids'', if i = 0 then input else JNull)]"

definition step_info :: "string \<Rightarrow> (string, json) dict \<Rightarrow> json" where
  "step_info nid d =
     JObj [(''node_id'', JStr nid), (''shard_id'', jget d ''shard_id'' (JStr [])), (''shape'', jget d ''shape'' JNull),
           (''dtype'', jget d ''dtype'' JNull)]"

text \<open>How the answer of a segment is taken: \<open>Inr\<close> its dictionary with the hidden states.\<close>

definition judge_step :: "reply \<Rightarrow> pipe_end + (string, json) dict \<times> json" where
  "judge_step r =
     (case r of
        Raised \<Rightarrow> Inl (RetryEnd ''dispatch'')
      | Answer (JObj d) \<Rightarrow>
          if flag d ''rate_limited'' then Inl (RetryEnd ''rate limited'')
          else if flag d ''overload'' then Inl (RetryEnd ''overload'')
          else if flag d ''dedup_blocked'' \<or> flag d ''sandbox_blocked'' then Inl (FailEnd ''blocked'')
          else if flag d ''fencing_rejected'' then Inl (FailEnd ''fencing_rejected'')
          else if flag d ''upstream_missing'' then Inl (FailEnd ''upstream'')
          else if dget d ''error'' \<noteq> None then Inl (FailEnd ''agent error'')
          else (case dget d ''hidden_states'' of None \<Rightarrow> Inl (FailEnd ''no hidden_states'') | Some h \<Rightarrow> Inr (d, h))
      | Answer _ \<Rightarrow> Inl (FailEnd ''no hidden_states''))"

definition checkpoint :: "nat \<Rightarrow> json \<Rightarrow> json list \<Rightarrow> json" where
  "checkpoint i h steps = JObj [(''step'', JInt (int i)), (''hidden_states'', h), (''steps'', JList steps)]"

text \<open>The loop over the segments from index \<open>i\<close>.  \<open>ask\<close> sends a segment to a node and tells whether a fault
  was reported; the result is the end, the last checkpoint written and the faults.\<close>

fun pipe_loop ::
  "(nat \<Rightarrow> string \<Rightarrow> json \<Rightarrow> (reply \<times> bool) option) \<Rightarrow> nat \<Rightarrow> nat \<Rightarrow> string list \<Rightarrow> json \<Rightarrow> json list \<Rightarrow> json option
     \<Rightarrow> pipe_end \<times> json option \<times> string list" where
  "pipe_loop ask start i [] h steps ck = (Done h steps, ck, [])"
| "pipe_loop ask start i (n # ns) h steps ck =
     (if i < start then pipe_loop ask start (Suc i) ns h steps ck
      else case ask i n h of
             None \<Rightarrow> (RetryEnd ''segment'', ck, [])
           | Some (r, fault) \<Rightarrow>
               (case judge_step r of
                  Inl e \<Rightarrow> (e, ck, if fault then [n] else [])
                | Inr (d, h') \<Rightarrow>
                    let steps' = steps @ [step_info n d]
                    in pipe_loop ask start (Suc i) ns h' steps' (Some (checkpoint i h' steps'))))"

text \<open>Where a run starts: after the last segment of a valid checkpoint.  \<open>None\<close> when reading it raises.\<close>

definition resume_point :: "py_conv \<Rightarrow> bool \<Rightarrow> (string, json) dict \<Rightarrow> (int \<times> json \<times> json list) option" where
  "resume_point pc enabled params =
     (if \<not> enabled then Some (0, JNull, [])
      else case dget params ''_pipeline_ckpt'' of
             Some (JObj d) \<Rightarrow>
               (case (dget d ''step'', dget d ''hidden_states'') of
                  (Some s, Some h) \<Rightarrow>
                    map_option (\<lambda>k. (k + 1, h, case dget d ''steps'' of Some (JList xs) \<Rightarrow> xs | _ \<Rightarrow> [])) (to_int pc s)
                | _ \<Rightarrow> Some (0, JNull, []))
           | _ \<Rightarrow> Some (0, JNull, []))"

definition ask_segment ::
  "net \<Rightarrow> (string \<Rightarrow> int \<Rightarrow> string) \<Rightarrow> ha_state \<Rightarrow> cluster_task \<Rightarrow> (string, node_info) dict
     \<Rightarrow> nat \<Rightarrow> string \<Rightarrow> json \<Rightarrow> (reply \<times> bool) option" where
  "ask_segment nt step_id h t snap i n hidden =
     map_option (\<lambda>(layers, k).
        dispatch_to_node nt
          (dispatch_payload nt step_id h t
             (Some (step_params (jget (tk_params t) ''model_id'' (JStr (tk_model_name t))) k layers hidden
                      (jget (tk_params t) ''input_ids'' JNull) i))) snap n)
       (segment (nt_conv nt) (tk_shards t) i)"

definition run_pipeline ::
  "net \<Rightarrow> (string \<Rightarrow> int \<Rightarrow> string) \<Rightarrow> bool \<Rightarrow> ha_state \<Rightarrow> cluster_task \<Rightarrow> (string, node_info) dict \<Rightarrow> string list
     \<Rightarrow> pipe_end \<times> json option \<times> string list" where
  "run_pipeline nt step_id enabled h t snap nids =
     (case resume_point (nt_conv nt) enabled (tk_params t) of
        None \<Rightarrow> (RetryEnd ''checkpoint'', None, [])
      | Some (start, hidden, steps) \<Rightarrow>
          pipe_loop (ask_segment nt step_id h t snap) (nat start) 0 nids hidden steps None)"

definition pipe_result :: "json \<Rightarrow> json list \<Rightarrow> nat \<Rightarrow> (string, json) dict" where
  "pipe_result h steps k =
     (let field = (\<lambda>f. if steps = [] then JNull else case last steps of JObj d \<Rightarrow> jget d f JNull | _ \<Rightarrow> JNull)
      in [(''hidden_states'', h), (''shape'', field ''shape''), (''dtype'', field ''dtype''), (''steps'', JList steps),
          (''node_count'', JInt (int k))])"

definition dispatch_pipeline ::
  "net \<Rightarrow> (string \<Rightarrow> int \<Rightarrow> string) \<Rightarrow> bool \<Rightarrow> time \<Rightarrow> (string, node_info) dict \<Rightarrow> string list \<Rightarrow> nat \<Rightarrow> master \<Rightarrow> master" where
  "dispatch_pipeline nt step_id enabled now snap nids r c =
     (let (e, ck, faults) = run_pipeline nt step_id enabled (ms_ha c) (the_task r c) snap nids;
          c1 = on_reg (report_faults now faults) c;
          keep = (\<lambda>t. if \<not> enabled then t
                      else (case e of
                              Done _ _ \<Rightarrow> t\<lparr>tk_params := dpop (tk_params t) ''_pipeline_ckpt''\<rparr>
                            | _ \<Rightarrow> (case ck of None \<Rightarrow> t | Some v \<Rightarrow> t\<lparr>tk_params := dset (tk_params t) ''_pipeline_ckpt'' v\<rparr>)));
          c2 = set_task r keep c1
      in case e of
           Done h steps \<Rightarrow> finalize_task now r True False False [] (Some (pipe_result h steps (length nids))) c2
         | RetryEnd err \<Rightarrow> finalize_task now r False False True err None c2
         | FailEnd err \<Rightarrow> finalize_task now r False False False err None c2)"

definition dispatch_task :: "net \<Rightarrow> (string \<Rightarrow> int \<Rightarrow> string) \<Rightarrow> bool \<Rightarrow> time \<Rightarrow> nat \<Rightarrow> master \<Rightarrow> master" where
  "dispatch_task nt step_id enabled now r c =
     (let nids = tk_assigned (the_task r c);
          snap = filter (\<lambda>(k, n). k \<in> set nids) (rg_nodes (ms_reg c))
      in if tk_mode (the_task r c) = PIPELINE then dispatch_pipeline nt step_id enabled now snap nids r c
         else dispatch_data nt step_id now snap nids r c)"

end
