(* ===== verification/DispatchClaims.thy ===== *)
theory DispatchClaims
  imports Dispatch
begin

text \<open>
  What dispatching a task gives: it always ends the run of the task and gives its slots back, a data
  parallel task ends in the state its answers call for and only broken nodes are charged with a fault, and
  a pipeline that is interrupted and resumed from its checkpoint computes what an uninterrupted one would.
\<close>

subsection \<open>The end of a run\<close>

lemma the_task_on_reg [simp]: "the_task r (on_reg f c) = the_task r c" "ms_td (on_reg f c) = ms_td c"
  "ms_reg (on_reg f c) = f (ms_reg c)" "ms_ha (on_reg f c) = ms_ha c"
  by (simp_all add: on_reg_def the_task_def)

lemma enqueue_retry_status:
  "td_obj (enqueue_retry now r td) r =
     (if tk_retry_count (td_obj td r) \<ge> td_max_retry td
      then (td_obj td r)\<lparr>tk_status := FAILED, tk_error := ''retry limit''\<rparr>
      else (td_obj td r)\<lparr>tk_exclude := extend_new (tk_exclude (td_obj td r))
               (filter (\<lambda>n. n \<noteq> tk_pinned (td_obj td r)) (tk_assigned (td_obj td r))),
             tk_retry_count := tk_retry_count (td_obj td r) + 1, tk_status := PENDING, tk_assigned := [],
             tk_next_retry_at := now + retry_backoff (tk_retry_count (td_obj td r) + 1)\<rparr>)"
  by (simp add: enqueue_retry_def Let_def)

definition runs :: "nat \<Rightarrow> master \<Rightarrow> bool" where
  "runs r c \<longleftrightarrow> dget (td_tasks (ms_td c)) (tk_id (the_task r c)) = Some r \<and> tk_status (the_task r c) = RUNNING"

lemma release_td_task [simp]: "the_task k (release ids c) = the_task k c"
  by simp

lemma finalize_status:
  assumes "runs r c"
  shows "tk_status (the_task r (finalize_task now r success partial retryable err res c)) =
     (if success then COMPLETED else if partial then PARTIAL
      else if retryable \<and> tk_retry_count (the_task r c) < td_max_retry (ms_td c) then PENDING else FAILED)"
proof -
  have fill: "tk_status (case res of None \<Rightarrow> t | Some d \<Rightarrow> t\<lparr>tk_result := d\<rparr>) = tk_status t" for t
    by (simp split: option.split)
  show ?thesis
    using assms
    by (auto simp: runs_def finalize_task_def Let_def fill the_task_def enqueue_retry_status)
qed

lemma runs_on_reg [simp]: "runs r (on_reg f c) = runs r c"
  by (simp add: runs_def)

lemma runs_set_task:
  assumes "runs r c" and "tk_id (f (the_task r c)) = tk_id (the_task r c)" and "tk_status (f (the_task r c)) = tk_status (the_task r c)"
  shows "runs r (set_task r f c)"
  using assms by (simp add: runs_def)

subsection \<open>Slots\<close>

lemma sched_inv_faults:
  assumes "sched_inv c"
  shows "sched_inv (on_reg (report_faults now nids) c)"
  using assms
proof (induction nids arbitrary: c)
  case (Cons n nids)
  have "sched_inv (on_reg (\<lambda>rg. fst (report_fault now n rg)) c)"
  proof -
    have "reg_wf (fst (report_fault now n (ms_reg c)))"
      using sched_invD(1) [OF Cons.prems] reg_wf_upd_node
      by (auto simp: report_fault_def Let_def split: option.split)
    moreover have "dget (rg_nodes (fst (report_fault now n (ms_reg c)))) k = Some m \<Longrightarrow>
        \<exists>m'. dget (rg_nodes (ms_reg c)) k = Some m' \<and> active_tasks m = active_tasks m'" for k m
      by (auto simp: report_fault_def Let_def upd_node_def split: option.splits if_splits)
    ultimately show ?thesis
      using Cons.prems by (force simp: sched_inv_def ledger_def)
  qed
  from Cons.IH [OF this] show ?case by (simp add: report_faults_def on_reg_def)
qed (simp add: report_faults_def on_reg_def)

lemma sched_inv_set_task:
  assumes "sched_inv c"
    and f: "\<And>t. tk_id (f t) = tk_id t" "\<And>t. tk_status (f t) = tk_status t" "\<And>t. tk_assigned (f t) = tk_assigned t"
  shows "sched_inv (set_task r f c)"
proof -
  let ?td = "ms_td c" and ?td' = "upd_task r f (ms_td c)"
  have o: "tk_id (td_obj ?td' k) = tk_id (td_obj ?td k)" "tk_status (td_obj ?td' k) = tk_status (td_obj ?td k)"
    "tk_assigned (td_obj ?td' k) = tk_assigned (td_obj ?td k)" for k
    using f by simp_all
  have "inflight_count_for_node nid ?td' = inflight_count_for_node nid ?td" for nid
    by (simp add: inflight_runs_on count_if_def task_list_def filter_map o_def runs_on_def o del: upd_task_sel(1))
  then show ?thesis
    using assms(1) o by (simp add: sched_inv_def ledger_def tasks_wf_def get_task_def assigned_ok_def del: upd_task_sel(1))
      (metis o)
qed

lemma sched_inv_finish_data:
  assumes "sched_inv c"
  shows "sched_inv (finish_data now r nvs c)"
  by (simp add: finish_data_def Let_def sched_inv_finalize [OF assms] sched_inv_set_task [OF sched_inv_finalize [OF assms]])

lemma sched_inv_dispatch:
  assumes "sched_inv c"
  shows "sched_inv (dispatch_task nt step_id enabled now r c)"
proof (cases "tk_mode (the_task r c) = PIPELINE")
  case True
  obtain e ck faults where p: "run_pipeline nt step_id enabled (ms_ha c) (the_task r c)
      (filter (\<lambda>(k, n). k \<in> set (tk_assigned (the_task r c))) (rg_nodes (ms_reg c))) (tk_assigned (the_task r c)) = (e, ck, faults)"
    by (metis prod_cases3)
  show ?thesis
    unfolding dispatch_task_def Let_def
    using True by (auto simp: dispatch_pipeline_def p Let_def split: pipe_end.split option.split
        intro!: sched_inv_finalize sched_inv_set_task sched_inv_faults assms)
next
  case False
  then show ?thesis
    by (simp add: dispatch_task_def dispatch_data_def Let_def sched_inv_finish_data sched_inv_faults assms)
qed

lemma ends_data:
  assumes "runs r c"
  shows "tk_status (the_task r (finish_data now r nvs c)) =
     (if outputs_of (map snd nvs) \<noteq> [] then (if error_texts nvs = [] then COMPLETED else PARTIAL)
      else if Transient \<in> set (map snd nvs) \<and> \<not> (Logic \<in> set (map snd nvs) \<or> LogicFault \<in> set (map snd nvs)) \<and>
              tk_retry_count (the_task r c) < td_max_retry (ms_td c) then PENDING else FAILED)"
  by (simp add: finish_data_def Let_def finalize_status [OF assms])

text \<open>C22: A dispatch ends the run it was started for: whatever the agents answer, or if nobody answers, the
  task is not running any more afterwards, and the slots of its nodes are given back, so that the counters
  of all nodes still equal the running tasks on them.\<close>

theorem dispatch_ends_the_run:
  assumes inv: "sched_inv c" and run: "runs r c"
  shows "tk_status (the_task r (dispatch_task nt step_id enabled now r c)) \<in> {COMPLETED, PARTIAL, PENDING, FAILED} \<and>
         (\<forall>nid n. dget (rg_nodes (ms_reg (dispatch_task nt step_id enabled now r c))) nid = Some n \<longrightarrow>
            active_tasks n = int (inflight_count_for_node nid (ms_td (dispatch_task nt step_id enabled now r c))))"
proof -
  let ?snap = "filter (\<lambda>(k, n). k \<in> set (tk_assigned (the_task r c))) (rg_nodes (ms_reg c))"
  have "tk_status (the_task r (dispatch_task nt step_id enabled now r c)) \<in> {COMPLETED, PARTIAL, PENDING, FAILED}"
  proof (cases "tk_mode (the_task r c) = PIPELINE")
    case True
    obtain e ck faults where p: "run_pipeline nt step_id enabled (ms_ha c) (the_task r c) ?snap (tk_assigned (the_task r c)) = (e, ck, faults)"
      by (metis prod_cases3)
    have run': "runs r (set_task r f (on_reg (report_faults now faults) c))"
      if "\<And>t. tk_id (f t) = tk_id t" "\<And>t. tk_status (f t) = tk_status t" for f
      using run that by (intro runs_set_task) simp_all
    show ?thesis
      unfolding dispatch_task_def Let_def
      using True by (cases e) (simp_all add: dispatch_pipeline_def p Let_def finalize_status [OF run'] split: option.split)
  next
    case False
    then show ?thesis
      using run by (simp add: dispatch_task_def dispatch_data_def Let_def ends_data)
  qed
  then show ?thesis
    using sched_inv_dispatch [OF inv] by (simp add: sched_inv_def ledger_def)
qed

definition demo_net :: "(string \<Rightarrow> (string, json) dict \<Rightarrow> http_reply) \<Rightarrow> net" where
  "demo_net f = \<lparr>nt_env = \<lparr>ip_of = (\<lambda>_. None), dns = (\<lambda>_. Some [])\<rparr>, nt_post = f, nt_scrub = (\<lambda>d. d),
                 nt_conv = \<lparr>pc_float = (\<lambda>_. None), pc_int = (\<lambda>_. None), pc_str = (\<lambda>_. [])\<rparr>\<rparr>"

definition demo_run :: master where
  "demo_run =
     \<lparr>ms_reg = (registry_init 15)\<lparr>rg_nodes := [(''a'', (demo_info ''a'')\<lparr>active_tasks := 1\<rparr>)]\<rparr>,
      ms_td = (tasks_init [] True True)\<lparr>td_obj := (\<lambda>_. (demo_task ''t0'' 0)\<lparr>tk_status := RUNNING, tk_mode := DATA, tk_assigned := [''a'']\<rparr>),
                td_tasks := [(''t0'', 0)]\<rparr>,
      ms_ha = ha_single, ms_shard_roles = None\<rparr>"

lemma demo_run_ok: "sched_inv demo_run" "runs 0 demo_run" "tk_mode (the_task 0 demo_run) = DATA"
  "tk_assigned (the_task 0 demo_run) = [''a'']"
  by (auto simp: sched_inv_def demo_run_def reg_wf_def tasks_wf_def ledger_def get_task_def assigned_ok_def
      inflight_count_for_node_def task_list_def tasks_init_def demo_info_def demo_task_def dwf_def registry_init_def
      runs_def the_task_def split: if_splits)

lemma dispatch_ends_the_run_witness:
  "tk_status (the_task 0 (dispatch_task (demo_net (\<lambda>_ _. HttpExc)) (\<lambda>t _. t) False 50 0 demo_run))
     \<in> {COMPLETED, PARTIAL, PENDING, FAILED}"
  using dispatch_ends_the_run [OF demo_run_ok(1,2), of "demo_net (\<lambda>_ _. HttpExc)" "\<lambda>t _. t" False 50] by blast

subsection \<open>Data parallel tasks\<close>

lemma outputs_of_Nil: "outputs_of vs = [] \<longleftrightarrow> (\<forall>v \<in> set vs. \<not> is_output v)"
  by (induction vs) (auto simp: outputs_of_def is_output_def split: verdict.splits)

lemma error_texts_Nil: "error_texts nvs = [] \<longleftrightarrow> (\<forall>nv \<in> set nvs. is_output (snd nv))"
  by (auto simp: error_texts_def filter_empty_conv)

lemma report_fault_other:
  "n \<noteq> nid \<Longrightarrow> dget (rg_faults (fst (report_fault now nid rg))) n = dget (rg_faults rg) n"
  "n \<noteq> nid \<Longrightarrow> dget (rg_banned (fst (report_fault now nid rg))) n = dget (rg_banned rg) n"
  by (simp_all add: report_fault_def upd_node_def Let_def split: option.split)

lemma report_faults_other:
  "n \<notin> set nids \<Longrightarrow> dget (rg_faults (report_faults now nids rg)) n = dget (rg_faults rg) n \<and>
     dget (rg_banned (report_faults now nids rg)) n = dget (rg_banned rg) n"
  unfolding report_faults_def
  by (induction nids arbitrary: rg) (simp_all add: report_fault_other)

lemma free_slots_faults [simp]:
  "rg_faults (free_slots ids rg) = rg_faults rg" "rg_banned (free_slots ids rg) = rg_banned rg"
  unfolding free_slots_def
  by (induction ids arbitrary: rg) (simp_all add: free_slot_def upd_node_def split: option.splits)

lemma finalize_faults [simp]:
  "rg_faults (ms_reg (finalize_task now r s p q e res c)) = rg_faults (ms_reg c)"
  "rg_banned (ms_reg (finalize_task now r s p q e res c)) = rg_banned (ms_reg c)"
  by (simp_all add: finalize_task_def Let_def split: option.split)

lemma finish_data_faults [simp]:
  "rg_faults (ms_reg (finish_data now r nvs c)) = rg_faults (ms_reg c)"
  "rg_banned (ms_reg (finish_data now r nvs c)) = rg_banned (ms_reg c)"
  by (simp_all add: finish_data_def Let_def)

text \<open>The fate of a data parallel task: it is completed when every node gave an output, partial when
  some did, and otherwise it waits for another attempt exactly when some failure was of the passing kind,
  no agent reported an error of its own and the retry budget is not used up.  A node is charged with a
  fault only when its request raised or its agent reported an error: being rate limited, full, blocked by
  its sandbox or ahead of a stale master never counts against it.\<close>

theorem data_task_fate:
  assumes run: "runs r c" and mode: "tk_mode (the_task r c) = DATA"
    and rep: "\<And>n. rep n = dispatch_to_node nt (dispatch_payload nt step_id (ms_ha c) (the_task r c) None)
                (filter (\<lambda>(k, m). k \<in> set (tk_assigned (the_task r c))) (rg_nodes (ms_reg c))) n"
    and v: "\<And>n. v n = classify (fst (rep n))"
    and A: "A = set (tk_assigned (the_task r c))" and c': "c' = dispatch_task nt step_id enabled now r c"
  shows "tk_status (the_task r c') =
           (if \<exists>n \<in> A. is_output (v n) then (if \<forall>n \<in> A. is_output (v n) then COMPLETED else PARTIAL)
            else if (\<exists>n \<in> A. v n = Transient) \<and> (\<forall>n \<in> A. v n \<noteq> Logic \<and> v n \<noteq> LogicFault) \<and>
                    tk_retry_count (the_task r c) < td_max_retry (ms_td c) then PENDING else FAILED) \<and>
         (\<forall>n. \<not> (n \<in> A \<and> (snd (rep n) \<or> v n = LogicFault)) \<longrightarrow>
            dget (rg_faults (ms_reg c')) n = dget (rg_faults (ms_reg c)) n \<and>
            dget (rg_banned (ms_reg c')) n = dget (rg_banned (ms_reg c)) n)"
proof -
  let ?nids = "tk_assigned (the_task r c)"
  let ?nvs = "map (\<lambda>n. (n, v n)) ?nids"
  let ?faults = "filter (\<lambda>n. snd (rep n)) ?nids @ filter (\<lambda>n. v n = LogicFault) ?nids"
  have d: "c' = finish_data now r ?nvs (on_reg (report_faults now ?faults) c)"
    unfolding c' dispatch_task_def dispatch_data_def Let_def
    by (simp add: mode rep filter_map o_def v case_prod_unfold)
  have vs: "map snd ?nvs = map v ?nids" by (simp add: o_def)
  have "tk_status (the_task r c') =
      (if outputs_of (map v ?nids) \<noteq> [] then (if error_texts ?nvs = [] then COMPLETED else PARTIAL)
       else if Transient \<in> set (map v ?nids) \<and> \<not> (Logic \<in> set (map v ?nids) \<or> LogicFault \<in> set (map v ?nids)) \<and>
               tk_retry_count (the_task r c) < td_max_retry (ms_td c) then PENDING else FAILED)"
    unfolding d using run by (subst ends_data) (simp_all only: runs_on_reg vs the_task_on_reg)
  moreover have mem: "x \<in> set (map v ?nids) \<longleftrightarrow> (\<exists>n \<in> A. v n = x)" for x by (auto simp: A)
  moreover have "outputs_of (map v ?nids) \<noteq> [] \<longleftrightarrow> (\<exists>n \<in> A. is_output (v n))"
    "error_texts ?nvs = [] \<longleftrightarrow> (\<forall>n \<in> A. is_output (v n))"
    "Transient \<in> set (map v ?nids) \<longleftrightarrow> (\<exists>n \<in> A. v n = Transient)"
    "Logic \<in> set (map v ?nids) \<or> LogicFault \<in> set (map v ?nids) \<longleftrightarrow> \<not> (\<forall>n \<in> A. v n \<noteq> Logic \<and> v n \<noteq> LogicFault)"
    unfolding mem by (auto simp: outputs_of_Nil error_texts_Nil A)
  moreover have "dget (rg_faults (ms_reg c')) n = dget (rg_faults (ms_reg c)) n \<and>
      dget (rg_banned (ms_reg c')) n = dget (rg_banned (ms_reg c)) n"
    if "\<not> (n \<in> A \<and> (snd (rep n) \<or> v n = LogicFault))" for n
    unfolding d using report_faults_other [of n ?faults now "ms_reg c"] that by (simp add: A)
  ultimately show ?thesis by simp
qed

lemma data_task_fate_witness:
  "tk_status (the_task 0 (dispatch_task
     (demo_net (\<lambda>_ _. HttpStatus 200 (JObj [(''status'', JStr ''ok''), (''result'', JObj [(''content'', JStr ''hi'')])])))
     (\<lambda>t _. t) False 50 0 demo_run)) = COMPLETED"
proof -
  let ?nt = "demo_net (\<lambda>_ _. HttpStatus 200 (JObj [(''status'', JStr ''ok''), (''result'', JObj [(''content'', JStr ''hi'')])]))"
  let ?snap = "filter (\<lambda>(k, m). k \<in> set (tk_assigned (the_task 0 demo_run))) (rg_nodes (ms_reg demo_run))"
  have safe: "is_safe_peer_host (nt_env ?nt) ''10.0.0.1''"
    by (simp add: demo_net_def) code_simp
  have rep: "dispatch_to_node ?nt p ?snap ''a'' =
      (Answer (JObj [(''content'', JStr ''hi''), (''node_id'', JStr ''a'')]), False)" for p
    using safe by (simp add: dispatch_to_node_def demo_run_ok(4))
      (simp add: demo_run_def demo_info_def demo_net_def registry_init_def read_reply_def jget_def setdefault_def Let_def)
  have out: "is_output (classify (fst (dispatch_to_node ?nt p ?snap ''a'')))" for p
    by (simp add: rep classify_def flag_def is_output_def)
  from data_task_fate [OF demo_run_ok(2,3) refl refl refl refl, of ?nt "\<lambda>t _. t" False 50] out
  show ?thesis by (simp add: demo_run_ok(4))
qed

subsection \<open>Pipelines\<close>

text \<open>What a pipeline computes, when the forward pass of a segment is a function of the hidden states.\<close>

fun hidden_after :: "(nat \<Rightarrow> json \<Rightarrow> json) \<Rightarrow> nat \<Rightarrow> json" where
  "hidden_after F 0 = JNull"
| "hidden_after F (Suc i) = F i (hidden_after F i)"

text \<open>Whichever node computes a segment, what it answers, if it answers, is that function.\<close>

definition computes :: "(nat \<Rightarrow> string \<Rightarrow> json \<Rightarrow> (reply \<times> bool) option) \<Rightarrow> (nat \<Rightarrow> json \<Rightarrow> json) \<Rightarrow> bool" where
  "computes ask F \<longleftrightarrow>
     (\<forall>i n h r f d h'. ask i n h = Some (r, f) \<and> judge_step r = Inr (d, h') \<longrightarrow> h' = F i h)"

definition good_checkpoint :: "(nat \<Rightarrow> json \<Rightarrow> json) \<Rightarrow> nat \<Rightarrow> json \<Rightarrow> bool" where
  "good_checkpoint F k v \<longleftrightarrow> (\<exists>i steps. i < k \<and> v = checkpoint i (hidden_after F (Suc i)) steps)"

definition ckpt_ok :: "(nat \<Rightarrow> json \<Rightarrow> json) \<Rightarrow> nat \<Rightarrow> (string, json) dict \<Rightarrow> bool" where
  "ckpt_ok F k params \<longleftrightarrow> (\<forall>v. dget params ''_pipeline_ckpt'' = Some v \<longrightarrow> good_checkpoint F k v)"

lemma good_checkpointI: "i < k \<Longrightarrow> good_checkpoint F k (checkpoint i (F i (hidden_after F i)) steps)"
  unfolding good_checkpoint_def by (intro exI [of _ i] exI [of _ steps]) simp

lemma judge_step_not_done: "judge_step r = Inl e \<Longrightarrow> e \<noteq> Done h st"
  unfolding judge_step_def by (cases r; simp split: json.splits if_splits option.splits) auto

lemma pipe_loop_sound:
  assumes c: "computes ask F"
    and "pipe_loop ask start i ns h steps ck = (e, ck', fs)"
    and "h = hidden_after F (max start i)" and "\<forall>v. ck = Some v \<longrightarrow> good_checkpoint F (i + length ns) v"
  shows "(\<forall>h' st. e = Done h' st \<longrightarrow> h' = hidden_after F (max start (i + length ns))) \<and>
         (\<forall>v. ck' = Some v \<longrightarrow> good_checkpoint F (i + length ns) v)"
  using assms(2-)
proof (induction ns arbitrary: i h steps ck)
  case (Cons n ns)
  show ?case
  proof (cases "i < start")
    case True
    then have m: "max start (Suc i) = max start i" by simp
    have "(\<forall>h' st. e = Done h' st \<longrightarrow> h' = hidden_after F (max start (Suc i + length ns))) \<and>
        (\<forall>v. ck' = Some v \<longrightarrow> good_checkpoint F (Suc i + length ns) v)"
      by (rule Cons.IH [of "Suc i" h steps ck]) (use True Cons.prems in \<open>simp_all add: m\<close>)
    then show ?thesis by simp
  next
    case False
    then have h: "h = hidden_after F i" using Cons.prems(2) by (simp add: max_def)
    show ?thesis
    proof (cases "\<exists>r f d h'. ask i n h = Some (r, f) \<and> judge_step r = Inr (d, h')")
      case True
      then obtain r f d h' where a: "ask i n h = Some (r, f)" "judge_step r = Inr (d, h')" by blast
      then have h': "h' = hidden_after F (Suc i)" using c h by (auto simp: computes_def)
      let ?steps = "steps @ [step_info n d]"
      have next_loop: "pipe_loop ask start (Suc i) ns h' ?steps (Some (checkpoint i h' ?steps)) = (e, ck', fs)"
        using False Cons.prems(1) a by (simp add: Let_def)
      have good: "\<forall>v. Some (checkpoint i h' ?steps) = Some v \<longrightarrow> good_checkpoint F (Suc i + length ns) v"
        using good_checkpointI [of i "Suc i + length ns" F ?steps] h' by simp
      have hidden: "h' = hidden_after F (max start (Suc i))" using h' False by (simp add: max_def)
      note Cons.IH [OF next_loop hidden good]
      then show ?thesis by simp
    next
      case bad: False
      then have "(\<forall>h' st. e \<noteq> Done h' st) \<and> ck' = ck"
        using False Cons.prems(1) judge_step_not_done
        by (cases "ask i n h") (auto split: sum.splits)
      then show ?thesis using Cons.prems(3) by auto
    qed
  qed
qed (auto simp: max_def)

lemma pipe_loop_done:
  assumes "\<forall>j < length ns. \<forall>h. \<exists>r f d h'. ask (i + j) (ns ! j) h = Some (r, f) \<and> judge_step r = Inr (d, h')"
  shows "\<exists>h' st. fst (pipe_loop ask start i ns h steps ck) = Done h' st"
  using assms
proof (induction ns arbitrary: i h steps ck)
  case (Cons n ns)
  have rest: "\<exists>h' st. fst (pipe_loop ask start (Suc i) ns h1 steps1 ck1) = Done h' st" for h1 steps1 ck1
  proof (rule Cons.IH)
    show "\<forall>j < length ns. \<forall>h. \<exists>r f d h'. ask (Suc i + j) (ns ! j) h = Some (r, f) \<and> judge_step r = Inr (d, h')"
      using Cons.prems by (metis Suc_less_eq add_Suc add_Suc_right length_Cons nth_Cons_Suc)
  qed
  obtain r f d h' where "ask i n h = Some (r, f)" "judge_step r = Inr (d, h')"
    using Cons.prems by (metis add.right_neutral length_Cons nth_Cons_0 zero_less_Suc)
  then show ?case using rest by (simp add: Let_def)
qed simp

lemma resume_point_ok:
  assumes "ckpt_ok F k params"
  shows "\<exists>start steps. resume_point pc True params = Some (int start, hidden_after F start, steps) \<and> start \<le> k"
proof (cases "dget params ''_pipeline_ckpt''")
  case None
  then show ?thesis by (intro exI [of _ 0]) (simp add: resume_point_def)
next
  case (Some v)
  then obtain i steps where "i < k" "v = checkpoint i (hidden_after F (Suc i)) steps"
    using assms by (auto simp: ckpt_ok_def good_checkpoint_def)
  then show ?thesis
    using Some by (intro exI [of _ "Suc i"]) (simp add: resume_point_def checkpoint_def)
qed

lemma finalize_params:
  assumes "runs r c"
  shows "tk_params (the_task r (finalize_task now r s p q e res c)) = tk_params (the_task r c)"
proof -
  have fill: "tk_params (case res of None \<Rightarrow> t | Some d \<Rightarrow> t\<lparr>tk_result := d\<rparr>) = tk_params t" for t
    by (simp split: option.split)
  show ?thesis
    using assms by (auto simp: runs_def finalize_task_def Let_def fill the_task_def enqueue_retry_status)
qed

lemma finalize_result:
  assumes "runs r c"
  shows "tk_result (the_task r (finalize_task now r True p q e (Some d) c)) = d"
  using assms by (auto simp: runs_def finalize_task_def Let_def the_task_def)

text \<open>C23: A pipeline with checkpoints is the same computation however often it is interrupted: if every
  segment is a function of its hidden states, whichever node it runs on, then a dispatch leaves a task
  without a checkpoint or with one that a run without interruption would have passed, and a task that it
  completes has the hidden states of that uninterrupted run as its result.  It does complete when every
  segment is answered.\<close>

theorem resumed_pipeline_is_uninterrupted:
  assumes run: "runs r c" and f: "computes (ask_segment nt step_id (ms_ha c) (the_task r c) snap) F"
    and ck: "ckpt_ok F (length nids) (tk_params (the_task r c))"
    and c': "c' = dispatch_pipeline nt step_id True now snap nids r c"
  shows "ckpt_ok F (length nids) (tk_params (the_task r c')) \<and>
         (tk_status (the_task r c') = COMPLETED \<longrightarrow>
            dget (tk_result (the_task r c')) ''hidden_states'' = Some (hidden_after F (length nids))) \<and>
         ((\<forall>j < length nids. \<forall>h. \<exists>rep b d h'. ask_segment nt step_id (ms_ha c) (the_task r c) snap j (nids ! j) h = Some (rep, b) \<and>
             judge_step rep = Inr (d, h')) \<longrightarrow> tk_status (the_task r c') = COMPLETED)"
proof -
  let ?ask = "ask_segment nt step_id (ms_ha c) (the_task r c) snap"
  obtain start steps where rp: "resume_point (nt_conv nt) True (tk_params (the_task r c)) = Some (int start, hidden_after F start, steps)"
    "start \<le> length nids" using resume_point_ok [OF ck] by blast
  obtain e ck' fs where loop: "pipe_loop ?ask start 0 nids (hidden_after F start) steps None = (e, ck', fs)"
    by (metis prod_cases3)
  have pipe: "run_pipeline nt step_id True (ms_ha c) (the_task r c) snap nids = (e, ck', fs)"
    by (simp add: run_pipeline_def rp loop)
  have sound: "\<forall>h' st. e = Done h' st \<longrightarrow> h' = hidden_after F (length nids)" "\<forall>v. ck' = Some v \<longrightarrow> good_checkpoint F (length nids) v"
    using pipe_loop_sound [OF f loop] rp(2) by (simp_all add: max_absorb2)
  define keep :: "cluster_task \<Rightarrow> cluster_task" where
    "keep = (\<lambda>t. case e of Done _ _ \<Rightarrow> t\<lparr>tk_params := dpop (tk_params t) ''_pipeline_ckpt''\<rparr>
        | _ \<Rightarrow> (case ck' of None \<Rightarrow> t | Some v \<Rightarrow> t\<lparr>tk_params := dset (tk_params t) ''_pipeline_ckpt'' v\<rparr>))"
  have k: "tk_id (keep t) = tk_id t" "tk_status (keep t) = tk_status t" for t
    by (simp_all add: keep_def split: pipe_end.split option.split)
  let ?c2 = "set_task r keep (on_reg (report_faults now fs) c)"
  have run2: "runs r ?c2" using run by (intro runs_set_task) (simp_all add: k)
  have c2: "the_task r ?c2 = keep (the_task r c)" by simp
  have d: "c' = (case e of
      Done h st \<Rightarrow> finalize_task now r True False False [] (Some (pipe_result h st (length nids))) ?c2
    | RetryEnd err \<Rightarrow> finalize_task now r False False True err None ?c2
    | FailEnd err \<Rightarrow> finalize_task now r False False False err None ?c2)"
    unfolding c' dispatch_pipeline_def pipe keep_def by (simp add: Let_def)
  have "tk_params (the_task r c') = tk_params (keep (the_task r c))"
    unfolding d by (cases e) (simp_all add: finalize_params [OF run2] c2 del: set_task_sel)
  then have "ckpt_ok F (length nids) (tk_params (the_task r c'))"
    using ck sound(2) by (auto simp: ckpt_ok_def keep_def split: pipe_end.splits option.splits if_splits)
  moreover have "dget (tk_result (the_task r c')) ''hidden_states'' = Some (hidden_after F (length nids))"
    if "tk_status (the_task r c') = COMPLETED"
    using that sound(1) unfolding d
    by (cases e) (simp_all add: finalize_status [OF run2] finalize_result [OF run2] pipe_result_def del: set_task_sel split: if_splits)
  moreover have "tk_status (the_task r c') = COMPLETED"
    if "\<forall>j < length nids. \<forall>h. \<exists>rep b d h'. ?ask j (nids ! j) h = Some (rep, b) \<and> judge_step rep = Inr (d, h')"
    using pipe_loop_done [of nids ?ask 0 start "hidden_after F start" steps None] that loop
    unfolding d by (auto simp: finalize_status [OF run2] simp del: set_task_sel)
  ultimately show ?thesis by blast
qed

definition demo_segments :: net where
  "demo_segments =
     demo_net (\<lambda>_ _. HttpStatus 200 (JObj [(''status'', JStr ''ok''), (''result'', JObj [(''hidden_states'', JStr ''h'')])]))"

lemma demo_segments_answer:
  "dispatch_to_node demo_segments p snap n \<in>
     {(Raised, False), (Raised, True), (Answer (JObj [(''hidden_states'', JStr ''h''), (''node_id'', JStr n)]), False)}"
  by (auto simp: dispatch_to_node_def demo_segments_def demo_net_def read_reply_def jget_def setdefault_def Let_def
      split: option.split)

lemma resumed_pipeline_is_uninterrupted_witness:
  "let c' = dispatch_pipeline demo_segments (\<lambda>t _. t) True 50 (rg_nodes (ms_reg demo_run)) [''a''] 0 demo_run
   in tk_status (the_task 0 c') = COMPLETED \<longrightarrow> dget (tk_result (the_task 0 c')) ''hidden_states'' = Some (JStr ''h'')"
proof -
  let ?ask = "ask_segment demo_segments (\<lambda>t _. t) (ms_ha demo_run) (the_task 0 demo_run) (rg_nodes (ms_reg demo_run))"
  have f: "computes ?ask (\<lambda>_ _. JStr ''h'')"
    unfolding computes_def
  proof (intro allI impI)
    fix i n h r b d h' assume a: "?ask i n h = Some (r, b) \<and> judge_step r = Inr (d, h')"
    then obtain p where "dispatch_to_node demo_segments p (rg_nodes (ms_reg demo_run)) n = (r, b)"
      by (auto simp: ask_segment_def)
    then have "r = Raised \<or> r = Answer (JObj [(''hidden_states'', JStr ''h''), (''node_id'', JStr n)])"
      using demo_segments_answer [of p "rg_nodes (ms_reg demo_run)" n] by auto
    then show "h' = JStr ''h''" using a by (auto simp: judge_step_def flag_def)
  qed
  have ck: "ckpt_ok (\<lambda>_ _. JStr ''h'') (length [''a'']) (tk_params (the_task 0 demo_run))"
    by (simp add: ckpt_ok_def demo_run_def the_task_def demo_task_def)
  from resumed_pipeline_is_uninterrupted [OF demo_run_ok(2) f ck refl, of 50] show ?thesis by (simp add: Let_def)
qed

end
