(* ===== verification/Sandbox.thy ===== *)
theory Sandbox
  imports PyText
begin

text \<open>
  The sandbox of a worker (\<open>WorkerSandbox\<close> in \<open>security/sandbox.py\<close>) and the isolation of the master's own
  data (\<open>security/data_isolation.py\<close>): normal forms of paths, the patterns of protected files, access to
  paths and hosts, the environment that is handed on, the environment variables and limits of a child.
  Symbolic links are the parameter \<open>realpath\<close>; patterns use \<open>*\<close> and \<open>?\<close>, not character classes.
\<close>

subsection \<open>Paths\<close>

text \<open>\<open>s.split(c)\<close> and \<open>c.join(xs)\<close>.\<close>

fun split_on :: "char \<Rightarrow> string \<Rightarrow> string list" where
  "split_on c [] = [[]]"
| "split_on c (x # xs) =
     (if x = c then [] # split_on c xs
      else case split_on c xs of [] \<Rightarrow> [[x]] | w # ws \<Rightarrow> (x # w) # ws)"

fun join_with :: "char \<Rightarrow> string list \<Rightarrow> string" where
  "join_with c [] = []"
| "join_with c [w] = w"
| "join_with c (w # ws) = w @ c # join_with c ws"

text \<open>The loop of \<open>os.path.normpath\<close> over the components; the result is kept in reverse.\<close>

definition norm_step :: "bool \<Rightarrow> string \<Rightarrow> string list \<Rightarrow> string list" where
  "norm_step rooted w acc =
     (if w = [] \<or> w = ''.'' then acc
      else if w \<noteq> ''..'' \<or> (\<not> rooted \<and> acc = []) \<or> (acc \<noteq> [] \<and> hd acc = ''..'') then w # acc
      else tl acc)"

definition norm_comps :: "string \<Rightarrow> string list" where
  "norm_comps p = rev (fold (norm_step (prefix ''/'' p)) (split_on (CHR ''/'') p) [])"

definition normpath :: "string \<Rightarrow> string" where
  "normpath p =
     (if p = [] then ''.''
      else let slashes = (if prefix ''//'' p \<and> \<not> prefix ''///'' p then ''//'' else if prefix ''/'' p then ''/'' else []);
               q = slashes @ join_with (CHR ''/'') (norm_comps p)
           in if q = [] then ''.'' else q)"

definition basename :: "string \<Rightarrow> string" where
  "basename p = last (split_on (CHR ''/'') p)"

text \<open>\<open>fnmatch\<close> without character classes.\<close>

function glob :: "string \<Rightarrow> string \<Rightarrow> bool" where
  "glob [] s = (s = [])"
| "glob (p # ps) [] = (p = CHR ''*'' \<and> glob ps [])"
| "glob (p # ps) (c # cs) =
     (if p = CHR ''*'' then glob ps (c # cs) \<or> glob (p # ps) cs
      else (p = CHR ''?'' \<or> p = c) \<and> glob ps cs)"
  by pat_completeness auto
termination by (relation "measure (\<lambda>(p, s). length p + length s)") auto

subsection \<open>Isolation of the master's data\<close>

record isolation =
  io_patterns :: "string list"
  io_paths :: "string list"

definition isolation_init :: isolation where
  "isolation_init =
     \<lparr>io_patterns = [''*.db'', ''*.sqlite'', ''soul.md'', ''memory.md'', ''.fusion/master/*''],
      io_paths = [''.fusion/master'']\<rparr>"

text \<open>\<open>os.path.commonpath([a, b]) == b\<close>; a relative and an absolute path raise.\<close>

definition below_real :: "string \<Rightarrow> string \<Rightarrow> bool" where
  "below_real a b \<longleftrightarrow> prefix ''/'' a = prefix ''/'' b \<and> prefix (norm_comps b) (norm_comps a)"

definition is_master_only :: "(string \<Rightarrow> string) \<Rightarrow> isolation \<Rightarrow> string \<Rightarrow> bool" where
  "is_master_only realpath io path =
     (let norm = normpath path
      in (\<exists>pat \<in> set (io_patterns io). glob pat (basename norm) \<or> glob pat norm) \<or>
         (\<exists>m \<in> set (io_paths io).
            let nm = normpath m; real = realpath norm; rm = realpath nm
            in norm = nm \<or> prefix (nm @ ''/'') norm \<or> (real \<noteq> [] \<and> rm \<noteq> [] \<and> below_real real rm)))"

definition is_transfer_allowed :: "(string \<Rightarrow> string) \<Rightarrow> isolation \<Rightarrow> string \<Rightarrow> string \<Rightarrow> bool" where
  "is_transfer_allowed realpath io path role =
     (if py_lower role \<noteq> ''worker'' then True else \<not> is_master_only realpath io path)"

definition filter_transferable_paths :: "(string \<Rightarrow> string) \<Rightarrow> isolation \<Rightarrow> string list \<Rightarrow> string \<Rightarrow> string list" where
  "filter_transferable_paths realpath io paths role = filter (\<lambda>p. is_transfer_allowed realpath io p role) paths"

definition add_pattern :: "string \<Rightarrow> isolation \<Rightarrow> isolation" where
  "add_pattern pat io = io\<lparr>io_patterns := sadd pat (io_patterns io)\<rparr>"

definition add_path :: "string \<Rightarrow> isolation \<Rightarrow> isolation" where
  "add_path path io = io\<lparr>io_paths := sadd (normpath path) (io_paths io)\<rparr>"

subsection \<open>The sandbox\<close>

record sandbox_config =
  sc_cpu_seconds :: int
  sc_memory_mb :: int
  sc_disk_mb :: int
  sc_processes :: int
  sc_timeout :: int
  sc_rlimits :: bool
  sc_allowed :: "string list"
  sc_hosts :: "string list"
  sc_env_prefixes :: "string list"
  sc_read_only :: "string list"

definition sandbox_default :: sandbox_config where
  "sandbox_default =
     \<lparr>sc_cpu_seconds = 300, sc_memory_mb = 8192, sc_disk_mb = 10240, sc_processes = 8, sc_timeout = 600,
      sc_rlimits = False, sc_allowed = [''/tmp'', ''/var/tmp''], sc_hosts = [],
      sc_env_prefixes = [''HOME'', ''PATH'', ''LANG'', ''LC_'', ''TMPDIR'', ''FUSION_'', ''MODEL_''],
      sc_read_only = []\<rparr>"

definition sandbox_path_access :: "(string \<Rightarrow> string) \<Rightarrow> isolation \<Rightarrow> sandbox_config \<Rightarrow> string \<Rightarrow> bool \<Rightarrow> bool" where
  "sandbox_path_access realpath io cfg path write =
     (let norm = normpath path
      in if is_master_only realpath io path then False
         else case find (\<lambda>ro. prefix (normpath ro) norm) (sc_read_only cfg) of
                Some _ \<Rightarrow> \<not> write
              | None \<Rightarrow> \<exists>a \<in> set (sc_allowed cfg). prefix (normpath a) norm)"

definition check_network_access :: "sandbox_config \<Rightarrow> string \<Rightarrow> bool" where
  "check_network_access cfg host =
     (sc_hosts cfg = [] \<or> (\<exists>a \<in> set (sc_hosts cfg). host = a \<or> suffix (CHR ''.'' # a) host))"

definition filter_environment :: "sandbox_config \<Rightarrow> (string, string) dict \<Rightarrow> (string, string) dict" where
  "filter_environment cfg env = filter (\<lambda>(k, v). \<exists>p \<in> set (sc_env_prefixes cfg). prefix p k) env"

text \<open>The limits \<open>_apply_rlimits_in_child\<close> sets; 0 leaves one out.\<close>

datatype rlimit = RLIMIT_CPU | RLIMIT_AS | RLIMIT_FSIZE | RLIMIT_NPROC

definition apply_rlimits_in_child :: "int \<Rightarrow> int \<Rightarrow> int \<Rightarrow> int \<Rightarrow> (rlimit, int) dict" where
  "apply_rlimits_in_child cpu mem disk procs =
     (if cpu > 0 then [(RLIMIT_CPU, cpu)] else []) @
     (if mem > 0 then [(RLIMIT_AS, mem * 1024 * 1024)] else []) @
     (if disk > 0 then [(RLIMIT_FSIZE, disk * 1024 * 1024)] else []) @
     (if procs > 0 then [(RLIMIT_NPROC, procs)] else [])"

datatype sandbox_backend = SandboxExec | Unshare | PythonResource

text \<open>The command line and the limits of \<open>execute_in_sandbox\<close>.\<close>

definition sandbox_command ::
  "sandbox_backend \<Rightarrow> sandbox_config \<Rightarrow> string \<Rightarrow> string list \<Rightarrow> string list \<times> (rlimit, int) dict" where
  "sandbox_command backend cfg task_id command =
     ((case backend of
         SandboxExec \<Rightarrow> [''/usr/bin/sandbox-exec'', ''-f'', ''/tmp/fusion_sandbox_profiles/sbpl_'' @ task_id @ ''.sb'', ''--''] @ command
       | Unshare \<Rightarrow> [''unshare'', ''--pid'', ''--fork'', ''--mount-proc'', ''--''] @ command
       | PythonResource \<Rightarrow> command),
      if sc_rlimits cfg \<and> backend = PythonResource
      then apply_rlimits_in_child (sc_cpu_seconds cfg) (sc_memory_mb cfg) (sc_disk_mb cfg) (sc_processes cfg) else [])"

subsection \<open>No path climbs out\<close>

lemma norm_step_rooted: "''..'' \<notin> set acc \<Longrightarrow> ''..'' \<notin> set (norm_step True w acc)"
  by (cases acc) (auto simp: norm_step_def)

lemma norm_rooted: "''..'' \<notin> set (norm_comps (CHR ''/'' # p))"
proof -
  have "''..'' \<notin> set acc \<Longrightarrow> ''..'' \<notin> set (fold (norm_step True) ws acc)" for ws acc
    by (induction ws arbitrary: acc) (simp_all add: norm_step_rooted)
  then show ?thesis by (simp add: norm_comps_def del: split_on.simps)
qed

lemma norm_step_set: "x \<in> set (norm_step b w acc) \<Longrightarrow> x \<in> set acc \<or> (x = w \<and> w \<noteq> [] \<and> w \<noteq> ''.'')"
  unfolding norm_step_def by (cases acc; simp split: if_splits; blast)

lemma norm_fold_set: "x \<in> set (fold (norm_step b) ws acc) \<Longrightarrow> x \<in> set acc \<or> (x \<noteq> [] \<and> x \<noteq> ''.'')"
proof (induction ws arbitrary: acc)
  case (Cons w ws)
  then have "x \<in> set (norm_step b w acc) \<or> (x \<noteq> [] \<and> x \<noteq> ''.'')" by simp
  then show ?case using norm_step_set [of x b w acc] by blast
qed simp

lemma norm_comps_plain: "w \<in> set (norm_comps p) \<Longrightarrow> w \<noteq> [] \<and> w \<noteq> ''.''"
  using norm_fold_set [of w "prefix ''/'' p" "split_on (CHR ''/'') p" "[]"] by (simp add: norm_comps_def)

text \<open>What the sandbox does keep: a granted path is not one of the master's own, its normal form begins with
  the name of an allowed or read-only directory, a rooted path has no step upwards left, and nothing is
  written where the first matching directory is read-only.\<close>

theorem sandbox_confines:
  assumes "sandbox_path_access realpath io cfg path write"
  shows "\<not> is_master_only realpath io path \<and>
         (\<exists>a \<in> set (sc_read_only cfg @ sc_allowed cfg). prefix (normpath a) (normpath path)) \<and>
         (prefix ''/'' path \<longrightarrow> ''..'' \<notin> set (norm_comps path)) \<and>
         (write \<longrightarrow> (\<forall>ro \<in> set (sc_read_only cfg). \<not> prefix (normpath ro) (normpath path)))"
proof -
  have "''..'' \<notin> set (norm_comps path)" if "prefix ''/'' path"
    using that norm_rooted by (auto simp: prefix_def)
  then show ?thesis
    using assms find_None_iff [of "\<lambda>ro. prefix (normpath ro) (normpath path)" "sc_read_only cfg"]
      find_Some_iff [of "\<lambda>ro. prefix (normpath ro) (normpath path)" "sc_read_only cfg"]
    by (auto simp: sandbox_path_access_def Let_def split: if_splits option.splits)
qed

lemma demo_norm:
  "normpath ''/tmp-evil/x'' = ''/tmp-evil/x''" "normpath ''/tmp/../etc/passwd'' = ''/etc/passwd''"
  "normpath ''/tmp/state.db'' = ''/tmp/state.db''" "normpath ''/tmp'' = ''/tmp''" "normpath ''/var/tmp'' = ''/var/tmp''"
  "normpath ''.fusion/master'' = ''.fusion/master''"
  by (simp_all add: normpath_def norm_comps_def norm_step_def Let_def)

lemma demo_not_master: "\<not> is_master_only (\<lambda>p. p) isolation_init ''/tmp-evil/x''"
  unfolding is_master_only_def Let_def demo_norm isolation_init_def isolation.simps
  by (simp add: demo_norm basename_def below_real_def)

text \<open>The test of the allowed directories is a test on texts: a sibling whose name begins like an allowed
  directory is let through.\<close>

theorem sandbox_lets_siblings_through:
  "sandbox_path_access (\<lambda>p. p) isolation_init sandbox_default ''/tmp-evil/x'' True \<and>
   \<not> sandbox_path_access realpath io sandbox_default ''/tmp/../etc/passwd'' write"
proof -
  have "sandbox_path_access (\<lambda>p. p) isolation_init sandbox_default ''/tmp-evil/x'' True"
    using demo_not_master by (simp add: sandbox_path_access_def sandbox_default_def demo_norm)
  moreover have "\<not> sandbox_path_access realpath io sandbox_default ''/tmp/../etc/passwd'' write"
    by (simp add: sandbox_path_access_def sandbox_default_def demo_norm)
  ultimately show ?thesis ..
qed

end
