(* ===== verification/NodeAgent.thy ===== *)
theory NodeAgent
  imports Dispatch Sandbox
begin

text \<open>
  The agent of a worker (\<open>agent/node_agent.py\<close>), the pacing of its requests to the local inference server
  (\<open>agent/rate_pacer.py\<close>) and the route that hands it tasks (\<open>/api/execute\<close> in \<open>server/agent_server.py\<close>).
  \<open>execute_task\<close> up to its \<open>await\<close> is one step of the agent (\<open>admit\<close>); the coroutine it starts begins, ends
  or is cancelled in steps of its own, because other requests are served in between.  The inference server,
  the plugin host, the peer that serves a model and the child process are functions of what is sent to them.
  The texts of error messages are shortened to labels.
\<close>

subsection \<open>Requests in the pace of the server\<close>

record pacer_config =
  pc_max_retries :: nat
  pc_initial_backoff :: time
  pc_max_backoff :: time
  pc_budget :: time

definition pacer_default :: pacer_config where
  "pacer_default = \<lparr>pc_max_retries = 3, pc_initial_backoff = 0.5, pc_max_backoff = 5, pc_budget = 10\<rparr>"

definition next_backoff :: "pacer_config \<Rightarrow> nat \<Rightarrow> time" where
  "next_backoff pc attempt = min (pc_initial_backoff pc * 2 ^ attempt) (pc_max_backoff pc)"

text \<open>A reply with the wait its \<open>Retry-After\<close> header asks for, as \<open>parse_retry_after\<close> reads it: the header
  is absent, a number of seconds, a date that lies some seconds ahead, or unreadable.\<close>

datatype retry_after = Absent | Seconds time | DateIn time | Unreadable

definition parse_retry_after :: "retry_after \<Rightarrow> time" where
  "parse_retry_after ra =
     (case ra of Absent \<Rightarrow> 1 | Seconds x \<Rightarrow> max 0 x | DateIn x \<Rightarrow> (if max 0 x > 0 then max 0 x else 1) | Unreadable \<Rightarrow> 1)"

definition is_429 :: "http_reply \<Rightarrow> bool" where
  "is_429 r = (case r of HttpExc \<Rightarrow> False | HttpStatus st _ \<Rightarrow> st = 429)"

text \<open>
  The loop of \<open>dispatch_with_pacing\<close>: \<open>send i\<close> is the answer to the request \<open>i\<close>, \<open>clock i\<close> the time after it.  The
  result carries the pauses that were made; None stands for \<open>RateLimitExhausted\<close>.
\<close>

function pace_loop ::
  "pacer_config \<Rightarrow> (nat \<Rightarrow> http_reply \<times> retry_after) \<Rightarrow> (nat \<Rightarrow> time) \<Rightarrow> time \<Rightarrow> nat \<Rightarrow> http_reply option \<times> time list" where
  "pace_loop pc send clock deadline attempt =
     (if \<not> is_429 (fst (send attempt)) then (Some (fst (send attempt)), [])
      else if attempt \<ge> pc_max_retries pc then (None, [])
      else if deadline - clock attempt \<le> 0 then (None, [])
      else let wait = min (parse_retry_after (snd (send attempt))) (next_backoff pc attempt);
               (res, waits) = pace_loop pc send clock deadline (Suc attempt)
           in (res, min wait (deadline - clock attempt) # waits))"
  by pat_completeness auto
termination by (relation "measure (\<lambda>(pc, send, clock, deadline, attempt). pc_max_retries pc - attempt)") auto

declare pace_loop.simps [simp del]

definition dispatch_with_pacing ::
  "pacer_config \<Rightarrow> (nat \<Rightarrow> http_reply \<times> retry_after) \<Rightarrow> (nat \<Rightarrow> time) \<Rightarrow> time \<Rightarrow> http_reply option \<times> time list" where
  "dispatch_with_pacing pc send clock start = pace_loop pc send clock (start + pc_budget pc) 0"

subsection \<open>The local inference server\<close>

text \<open>What a call of the backend ends with: data, the rate limit, a refusing status, another exception.\<close>

datatype backend_result = Data json | RateLimited | Refused int | Failed

text \<open>\<open>raise_for_status\<close> refuses every status that is not 2xx; \<open>bc_pace\<close> is the outcome of the paced request.\<close>

record backend =
  bc_pacer :: pacer_config
  bc_send :: "string \<Rightarrow> (string, json) dict \<Rightarrow> nat \<Rightarrow> http_reply \<times> retry_after"
  bc_clock :: "nat \<Rightarrow> time"
  bc_start :: time

definition raise_for_status :: "http_reply \<Rightarrow> backend_result" where
  "raise_for_status r =
     (case r of HttpExc \<Rightarrow> Failed | HttpStatus st body \<Rightarrow> if 200 \<le> st \<and> st \<le> 299 then Data body else Refused st)"

definition paced :: "backend \<Rightarrow> string \<Rightarrow> (string, json) dict \<Rightarrow> backend_result" where
  "paced b url payload =
     (case fst (dispatch_with_pacing (bc_pacer b) (bc_send b url payload) (bc_clock b) (bc_start b)) of
        None \<Rightarrow> RateLimited | Some r \<Rightarrow> raise_for_status r)"

definition chat :: "backend \<Rightarrow> string \<Rightarrow> json \<Rightarrow> json \<Rightarrow> json \<Rightarrow> backend_result" where
  "chat b model messages temperature max_tokens =
     paced b ''/v1/chat/completions''
       [(''model'', JStr model), (''messages'', messages), (''temperature'', temperature), (''max_tokens'', max_tokens)]"

definition embed :: "backend \<Rightarrow> string \<Rightarrow> json \<Rightarrow> backend_result" where
  "embed b model input_text = paced b ''/v1/embeddings'' [(''model'', JStr model), (''input'', input_text)]"

text \<open>The requests of a pipeline are sent once, without pacing.\<close>

definition load_shard :: "backend \<Rightarrow> json \<Rightarrow> int \<Rightarrow> json \<Rightarrow> backend_result" where
  "load_shard b model_id shard_index layer_range =
     raise_for_status (fst (bc_send b ''/distributed/load_shard''
       [(''model_id'', model_id), (''shard_index'', JInt shard_index), (''layer_range'', layer_range), (''dtype'', JNull)] 0))"

definition pipeline_step :: "backend \<Rightarrow> json \<Rightarrow> json \<Rightarrow> json \<Rightarrow> json \<Rightarrow> backend_result" where
  "pipeline_step b shard_id hidden_states input_ids position_ids =
     raise_for_status (fst (bc_send b ''/distributed/pipeline_step''
       [(''shard_id'', shard_id), (''hidden_states'', hidden_states), (''input_ids'', input_ids),
        (''position_ids'', position_ids)] 0))"

subsection \<open>Configuration\<close>

record agent_config =
  ac_node_id :: string
  ac_max_tasks :: int
  ac_task_mem_limit_mb :: int
  ac_task_cpu_quota :: int
  ac_node_role :: string
  ac_drivers :: "string list"
  ac_test_exec_enabled :: bool
  ac_resident :: bool

definition agent_config_default :: agent_config where
  "agent_config_default =
     \<lparr>ac_node_id = [], ac_max_tasks = 4, ac_task_mem_limit_mb = 0, ac_task_cpu_quota = 0, ac_node_role = ''worker'',
      ac_drivers = [], ac_test_exec_enabled = False, ac_resident = False\<rparr>"

text \<open>An environment variable that holds a number overrides the field, bounded from below.\<close>

definition env_int :: "(string \<Rightarrow> int option) \<Rightarrow> (string, string) dict \<Rightarrow> string \<Rightarrow> int \<Rightarrow> int \<Rightarrow> int" where
  "env_int to_i env key low old =
     (case dget env key of None \<Rightarrow> old | Some [] \<Rightarrow> old
      | Some s \<Rightarrow> (case to_i s of None \<Rightarrow> old | Some i \<Rightarrow> max low i))"

definition env_text :: "(string, string) dict \<Rightarrow> string \<Rightarrow> string \<Rightarrow> string" where
  "env_text env key d = py_strip (dget_or env key d)"

definition post_init :: "(string \<Rightarrow> int option) \<Rightarrow> (string, string) dict \<Rightarrow> agent_config \<Rightarrow> agent_config" where
  "post_init to_i env c =
     (let role = py_lower (env_text env ''FUSION_NODE_ROLE'' []);
          drv = env_text env ''FUSION_NODE_DRIVERS'' [];
          c1 = c\<lparr>ac_max_tasks := env_int to_i env ''FUSION_AGENT_MAX_TASKS'' 1 (ac_max_tasks c),
                 ac_task_mem_limit_mb := env_int to_i env ''FUSION_TASK_MEM_LIMIT_MB'' 0 (ac_task_mem_limit_mb c),
                 ac_task_cpu_quota := env_int to_i env ''FUSION_TASK_CPU_QUOTA'' 0 (ac_task_cpu_quota c),
                 ac_node_role := (if role \<in> {''worker'', ''general'', ''heavy''} then role else ac_node_role c),
                 ac_drivers := (if drv = [] then ac_drivers c
                                else filter (\<lambda>d. d \<noteq> []) (map py_strip (split_on (CHR '','') drv)))\<rparr>;
          c2 = (if env_text env ''FUSION_NODE_TEST_EXEC'' ''0'' = ''1''
                then c1\<lparr>ac_test_exec_enabled := True, ac_drivers := sadd ''test'' (ac_drivers c1)\<rparr> else c1)
      in if env_text env ''FUSION_NODE_RESIDENT'' ''0'' = ''1''
         then c2\<lparr>ac_resident := True, ac_drivers := sadd ''resident'' (ac_drivers c2)\<rparr> else c2)"

definition build_subprocess_sandbox_config :: "agent_config \<Rightarrow> sandbox_config" where
  "build_subprocess_sandbox_config c =
     sandbox_default\<lparr>sc_memory_mb := ac_task_mem_limit_mb c, sc_cpu_seconds := ac_task_cpu_quota c, sc_disk_mb := 0,
       sc_processes := 0, sc_rlimits := (ac_task_mem_limit_mb c > 0 \<or> ac_task_cpu_quota c > 0)\<rparr>"

subsection \<open>Admission of a task\<close>

text \<open>The dictionary of a task; keys the caller left out are None or empty, as \<open>task.get\<close> reads them.\<close>

record agent_task =
  at_task_id :: string
  at_type :: string
  at_model :: "string option"
  at_model_name :: string
  at_plugin :: string
  at_action :: string
  at_source_node :: "string option"
  at_source_port :: "int option"
  at_model_id :: json
  at_params :: "(string, json) dict"
  at_timeout :: json
  at_fencing :: int

text \<open>The sandbox object is one of two classes; each lacks the methods of the other.\<close>

datatype sandbox_obj = NoSandbox | WorkerSandboxObj isolation sandbox_config | SandboxExecutorObj sandbox_config

datatype phase = Created | Doomed | Started | Dead

record agent =
  ag_config :: agent_config
  ag_sandbox :: sandbox_obj
  ag_running :: "(string, phase) dict"
  ag_current :: "agent_task option"
  ag_anon_seq :: nat
  ag_last_fencing :: int

definition agent_init :: "agent_config \<Rightarrow> sandbox_obj \<Rightarrow> agent" where
  "agent_init c sb =
     \<lparr>ag_config = c, ag_sandbox = sb, ag_running = [], ag_current = None, ag_anon_seq = 0, ag_last_fencing = 0\<rparr>"

text \<open>The answer of \<open>_sandbox_gate\<close>: None lets the task pass, Inl is the exception of a missing method.\<close>

definition sandbox_gate :: "(string \<Rightarrow> string) \<Rightarrow> sandbox_obj \<Rightarrow> agent_task \<Rightarrow> py_error + string option" where
  "sandbox_gate realpath sb t =
     (let model = (case at_model t of None \<Rightarrow> [] | Some m \<Rightarrow> m);
          path = jget (at_params t) ''model_path'' (JStr []);
          source = (case at_source_node t of None \<Rightarrow> [] | Some h \<Rightarrow> h)
      in if at_type t = ''plugin'' \<and> at_plugin t \<noteq> [] \<and> \<not> is_safe_path_segment (at_plugin t) then Inr (Some ''plugin'')
         else if at_type t = ''plugin'' \<and> at_action t \<noteq> [] \<and> \<not> is_safe_path_segment (at_action t) then Inr (Some ''action'')
         else if at_type t \<in> {''inference'', ''embedding''} \<and> model \<noteq> [] \<and> \<not> is_safe_path_segment model
         then Inr (Some ''model'')
         else case sb of
                NoSandbox \<Rightarrow> Inr None
              | WorkerSandboxObj io cfg \<Rightarrow>
                  if at_type t = ''model_sync'' \<and> source \<noteq> [] \<and> \<not> check_network_access cfg source
                  then Inr (Some ''source_node'')
                  else if \<not> truthy path then Inr None
                  else (case path of
                          JStr p \<Rightarrow> Inr (if sandbox_path_access realpath io cfg p False then None else Some ''model_path'')
                        | _ \<Rightarrow> Inl (TypeErrorPy ''model_path''))
              | SandboxExecutorObj _ \<Rightarrow>
                  if (at_type t = ''model_sync'' \<and> source \<noteq> []) \<or> truthy path then Inl (RuntimeError ''AttributeError'')
                  else Inr None)"

definition answer :: "string \<Rightarrow> string \<Rightarrow> (string, json) dict \<Rightarrow> json" where
  "answer task_id err flags = JObj ([(''task_id'', JStr task_id), (''error'', JStr err)] @ flags)"

text \<open>What the first part of \<open>execute_task\<close> comes to: an exception, a refusal, or a coroutine with its id.\<close>

datatype admission = Crash py_error | Refusal json | Admitted agent_task

definition given_task :: "(nat \<Rightarrow> string) \<Rightarrow> agent_task \<Rightarrow> agent \<Rightarrow> agent_task \<times> agent" where
  "given_task anon_id t a =
     (if at_task_id t \<noteq> [] then (t, a)
      else let n = Suc (ag_anon_seq a) in (t\<lparr>at_task_id := anon_id n\<rparr>, a\<lparr>ag_anon_seq := n\<rparr>))"

definition admit :: "(string \<Rightarrow> string) \<Rightarrow> (nat \<Rightarrow> string) \<Rightarrow> agent_task \<Rightarrow> agent \<Rightarrow> admission \<times> agent" where
  "admit realpath anon_id t0 a0 =
     (if at_task_id t0 \<noteq> [] \<and> dget (ag_running a0) (at_task_id t0) \<noteq> None
      then (Refusal (answer (at_task_id t0) ''duplicate'' [(''dedup_blocked'', JBool True)]), a0)
      else let (t, a) = given_task anon_id t0 a0;
               tid = at_task_id t;
               tok = at_fencing t
           in if tok \<noteq> 0 \<and> tok < ag_last_fencing a
              then (Refusal (answer tid ''stale master'' [(''fencing_rejected'', JBool True)]), a)
              else let a1 = a\<lparr>ag_last_fencing := max (ag_last_fencing a) tok, ag_current := Some t\<rparr>
                   in case sandbox_gate realpath (ag_sandbox a1) t of
                        Inl e \<Rightarrow> (Crash e, a1)
                      | Inr (Some why) \<Rightarrow>
                          (Refusal (answer tid why [(''sandbox_blocked'', JBool True)]), a1\<lparr>ag_current := None\<rparr>)
                      | Inr None \<Rightarrow>
                          if int (length (ag_running a1)) \<ge> ac_max_tasks (ag_config a1)
                          then (Refusal (answer tid ''full'' [(''overload'', JBool True)]), a1\<lparr>ag_current := None\<rparr>)
                          else (Admitted t, a1\<lparr>ag_running := dset (ag_running a1) tid Created\<rparr>))"

text \<open>
  The steps of a coroutine.  A coroutine that is cancelled before its first step never enters its \<open>try\<close>, so its
  \<open>finally\<close> does not run and its handle stays registered, done.
\<close>

definition begin_run :: "string \<Rightarrow> agent \<Rightarrow> agent" where
  "begin_run tid a =
     (case dget (ag_running a) tid of
        Some Created \<Rightarrow> a\<lparr>ag_running := dset (ag_running a) tid Started\<rparr>
      | Some Doomed \<Rightarrow> a\<lparr>ag_running := dset (ag_running a) tid Dead\<rparr>
      | _ \<Rightarrow> a)"

definition end_run :: "string \<Rightarrow> agent \<Rightarrow> agent" where
  "end_run tid a =
     (if dget (ag_running a) tid = Some Started
      then a\<lparr>ag_running := dpop (ag_running a) tid, ag_current := None\<rparr> else a)"

definition cancel_run :: "string \<Rightarrow> agent \<Rightarrow> bool \<times> agent" where
  "cancel_run tid a =
     (case dget (ag_running a) tid of
        None \<Rightarrow> (False, a)
      | Some Dead \<Rightarrow> (False, a)
      | Some Created \<Rightarrow> (True, a\<lparr>ag_running := dset (ag_running a) tid Doomed\<rparr>)
      | Some _ \<Rightarrow> (True, a))"

definition stop_runs :: "agent \<Rightarrow> agent" where
  "stop_runs a = a\<lparr>ag_running := []\<rparr>"

definition active_tasks_reported :: "agent \<Rightarrow> nat" where
  "active_tasks_reported a =
     (if ag_running a \<noteq> [] then length (ag_running a) else if ag_current a \<noteq> None then 1 else 0)"

subsection \<open>The work itself\<close>

text \<open>\<open>v[k]\<close> and \<open>v[0]\<close>; None stands for the exception.\<close>

definition at_key :: "string \<Rightarrow> json \<Rightarrow> json option" where
  "at_key k v = (case v of JObj d \<Rightarrow> dget d k | _ \<Rightarrow> None)"

definition first_of :: "json \<Rightarrow> json option" where
  "first_of v = (case v of JList (x # _) \<Rightarrow> Some x | JStr (c # _) \<Rightarrow> Some (JStr [c]) | _ \<Rightarrow> None)"

datatype sv_outcome = NotInstalled | TimedOut | Exited int string string

record exec_env =
  ee_backend :: backend
  ee_net :: net_env
  ee_conv :: py_conv
  ee_shows :: "int \<Rightarrow> string"
  ee_scheme :: string
  ee_desk :: "string \<Rightarrow> string \<Rightarrow> (string, json) dict \<Rightarrow> json option"
  ee_get :: "string \<Rightarrow> json option"
  ee_sv :: "string list \<Rightarrow> sv_outcome"
  ee_loads :: "string \<Rightarrow> json option"
  ee_child :: "string \<Rightarrow> string list \<Rightarrow> int \<Rightarrow> json \<Rightarrow> json \<Rightarrow> (string, json) dict"

definition failure :: "agent_task \<Rightarrow> string \<Rightarrow> (string, json) dict \<Rightarrow> json" where
  "failure t err flags = answer (at_task_id t) err flags"

definition rate_limited_answer :: "agent_config \<Rightarrow> agent_task \<Rightarrow> json" where
  "rate_limited_answer c t =
     failure t ''429'' [(''rate_limited'', JBool True), (''node_id'', JStr (ac_node_id c))]"

text \<open>\<open>raise\<close> of the body: the text of the exception is shortened.\<close>

definition raised :: "string \<Rightarrow> py_error + json" where
  "raised why = Inl (RuntimeError why)"

definition chat_content :: "json \<Rightarrow> json option" where
  "chat_content d = Option.bind (Option.bind (Option.bind (at_key ''choices'' d) first_of) (at_key ''message'')) (at_key ''content'')"

definition chat_answer :: "agent_config \<Rightarrow> agent_task \<Rightarrow> backend_result \<Rightarrow> py_error + json" where
  "chat_answer c t r =
     (case r of
        RateLimited \<Rightarrow> Inr (rate_limited_answer c t)
      | Refused st \<Rightarrow> raised ''HTTPStatusError''
      | Failed \<Rightarrow> raised ''HTTPError''
      | Data d \<Rightarrow>
          (case chat_content d of
             None \<Rightarrow> raised ''KeyError''
           | Some v \<Rightarrow>
               Inr (JObj [(''task_id'', JStr (at_task_id t)), (''content'', v),
                          (''usage'', (case at_key ''usage'' d of None \<Rightarrow> JObj [] | Some u \<Rightarrow> u)),
                          (''node_id'', JStr (ac_node_id c))])))"

definition prompt_messages :: "json \<Rightarrow> json \<Rightarrow> json" where
  "prompt_messages sent prompt =
     (if \<not> truthy sent \<and> truthy prompt
      then JList [JObj [(''role'', JStr ''user''), (''content'', prompt)]] else sent)"

definition execute_inference :: "exec_env \<Rightarrow> agent_config \<Rightarrow> agent_task \<Rightarrow> py_error + json" where
  "execute_inference ee c t =
     (let model = (case at_model t of None \<Rightarrow> [] | Some m \<Rightarrow> m);
          p = at_params t;
          messages = prompt_messages (jget p ''messages'' (JList [])) (jget p ''prompt'' (JStr []))
      in if model \<noteq> [] \<and> \<not> is_safe_path_segment model then Inr (failure t ''model'' [])
         else chat_answer c t
                (chat (ee_backend ee) model messages (jget p ''temperature'' (JReal 0.7)) (jget p ''max_tokens'' (JInt 4096))))"

definition embedding_vector :: "json \<Rightarrow> json list option" where
  "embedding_vector d =
     (case Option.bind (Option.bind (at_key ''data'' d) first_of) (at_key ''embedding'') of Some (JList xs) \<Rightarrow> Some xs | _ \<Rightarrow> None)"

definition embedding_answer :: "agent_config \<Rightarrow> agent_task \<Rightarrow> backend_result \<Rightarrow> py_error + json" where
  "embedding_answer c t r =
     (case r of
        RateLimited \<Rightarrow> Inr (rate_limited_answer c t)
      | Refused st \<Rightarrow> raised ''HTTPStatusError''
      | Failed \<Rightarrow> raised ''HTTPError''
      | Data d \<Rightarrow>
          (case embedding_vector d of
             None \<Rightarrow> raised ''KeyError''
           | Some xs \<Rightarrow>
               Inr (JObj [(''task_id'', JStr (at_task_id t)), (''embedding'', JList xs),
                          (''dimensions'', JInt (int (length xs))), (''node_id'', JStr (ac_node_id c))])))"

definition execute_embedding :: "exec_env \<Rightarrow> agent_config \<Rightarrow> agent_task \<Rightarrow> py_error + json" where
  "execute_embedding ee c t =
     (let model = (case at_model t of None \<Rightarrow> ''BGE-M3'' | Some m \<Rightarrow> m)
      in if \<not> is_safe_path_segment model then Inr (failure t ''model'' [])
         else embedding_answer c t (embed (ee_backend ee) model (jget (at_params t) ''text'' (JStr []))))"

definition execute_plugin :: "exec_env \<Rightarrow> agent_task \<Rightarrow> py_error + json" where
  "execute_plugin ee t =
     (if \<not> is_safe_path_segment (at_plugin t) then Inr (failure t ''plugin'' [])
      else if \<not> is_safe_path_segment (at_action t) then Inr (failure t ''action'' [])
      else case ee_desk ee (at_plugin t) (at_action t) (at_params t) of None \<Rightarrow> raised ''HTTPError'' | Some v \<Rightarrow> Inr v)"

definition SUPERVISOR_OPS :: "string list" where
  "SUPERVISOR_OPS = [''status'', ''drain'', ''rollout'', ''shutdown'', ''backup'']"

text \<open>\<open>SupervisorBridge.call\<close>: \<open>ee_sv\<close> runs the command line, \<open>ee_loads\<close> parses its output.\<close>

definition supervisor_call :: "exec_env \<Rightarrow> string \<Rightarrow> string \<Rightarrow> (string, json) dict" where
  "supervisor_call ee op svc =
     (if op \<notin> set SUPERVISOR_OPS
      then [(''ok'', JBool False), (''available'', JBool True), (''error'', JStr ''unknown op''), (''op'', JStr op)]
      else let tail = [(''op'', JStr op), (''svc'', JStr svc)]
           in case ee_sv ee ([''fusion-sv'', op] @ (if svc = [] then [] else [svc])) of
                NotInstalled \<Rightarrow>
                  [(''ok'', JBool False), (''available'', JBool False), (''error'', JStr ''fusion-sv not installed'')] @ tail
              | TimedOut \<Rightarrow> [(''ok'', JBool False), (''available'', JBool True), (''error'', JStr ''timeout'')] @ tail
              | Exited rc out err \<Rightarrow>
                  if rc \<noteq> 0
                  then [(''ok'', JBool False), (''available'', JBool True), (''error'', JStr (str_or (py_strip err) ''exit'')),
                        (''returncode'', JInt rc)] @ tail
                  else let raw = py_strip out;
                           parsed = (if op = ''status'' \<and> raw \<noteq> []
                                     then case ee_loads ee raw of None \<Rightarrow> JStr raw | Some v \<Rightarrow> v else JStr raw)
                       in [(''ok'', JBool True), (''available'', JBool True)] @ tail @ [(''output'', parsed)])"

definition execute_supervisor :: "exec_env \<Rightarrow> agent_task \<Rightarrow> py_error + json" where
  "execute_supervisor ee t =
     (let op = to_str (ee_conv ee) (jget (at_params t) ''op'' (JStr []));
          sv = jget (at_params t) ''svc'' (JStr []);
          svc = (if truthy sv then to_str (ee_conv ee) sv else [])
      in Inr (JObj (dset (supervisor_call ee op svc) ''task_id'' (JStr (at_task_id t)))))"

definition execute_model_sync :: "exec_env \<Rightarrow> agent_task \<Rightarrow> py_error + json" where
  "execute_model_sync ee t =
     (let source = (case at_source_node t of None \<Rightarrow> ''master'' | Some h \<Rightarrow> h);
          port = (case at_source_port t of None \<Rightarrow> 11452 | Some p \<Rightarrow> p);
          name = at_model_name t;
          err = (\<lambda>e. Inr (JObj [(''error'', JStr e)]))
      in if \<not> is_safe_path_segment name then err ''model_name''
         else if \<not> is_safe_peer_host (ee_net ee) source then err ''host''
         else case build_safe_url (ee_net ee) (ee_shows ee) (ee_scheme ee) source port (''/api/models/'' @ name @ ''/manifest'') of
                Inl e \<Rightarrow> err ''url''
              | Inr url \<Rightarrow>
                  (case ee_get ee url of
                     Some (JObj m) \<Rightarrow>
                       (case jget m ''files'' (JList []) of
                          JList fs \<Rightarrow>
                            (if list_all (\<lambda>f. case f of JObj _ \<Rightarrow> True | _ \<Rightarrow> False) fs
                             then Inr (JObj [(''model_name'', JStr name), (''model_id'', at_model_id t),
                                (''synced_files'', JList (map (\<lambda>f. case f of
                                    JObj d \<Rightarrow> JObj [(''path'', jget d ''path'' (JStr [])), (''sha256'', jget d ''sha256'' (JStr [])),
                                                    (''status'', JStr ''verified'')]
                                  | _ \<Rightarrow> JNull) fs))])
                             else err ''manifest'')
                        | _ \<Rightarrow> err ''manifest'')
                   | _ \<Rightarrow> err ''manifest''))"

definition execute_pipeline_step :: "exec_env \<Rightarrow> agent_config \<Rightarrow> agent_task \<Rightarrow> py_error + json" where
  "execute_pipeline_step ee c t =
     (let p = at_params t; b = ee_backend ee;
          model_id = jget p ''model_id'' (JStr []); layer_range = jget p ''layer_range'' (JList []);
          refuse = (\<lambda>st. Inr (if st = 404 then failure t ''upstream'' [(''upstream_missing'', JBool True)] else failure t ''pipeline_step'' []))
      in case to_int (ee_conv ee) (jget p ''shard_index'' (JInt 0)) of
           None \<Rightarrow> raised ''ValueError''
         | Some idx \<Rightarrow>
             if \<not> truthy model_id \<or> \<not> truthy layer_range then Inr (failure t ''missing'' [])
             else case load_shard b model_id idx layer_range of
                    Refused st \<Rightarrow> refuse st
                  | Data d \<Rightarrow>
                      (case at_key ''shard_id'' d of
                         None \<Rightarrow> refuse 0
                       | Some sid \<Rightarrow>
                           (case pipeline_step b sid (jget p ''hidden_states'' JNull) (jget p ''input_ids'' JNull) (jget p ''position_ids'' JNull) of
                              Refused st \<Rightarrow> refuse st
                            | Data out \<Rightarrow>
                                (case (at_key ''hidden_states'' out, at_key ''shape'' out, at_key ''dtype'' out) of
                                   (Some h, Some sh, Some dt) \<Rightarrow>
                                     Inr (JObj [(''task_id'', JStr (at_task_id t)), (''shard_id'', sid), (''hidden_states'', h),
                                                (''shape'', sh), (''dtype'', dt), (''node_id'', JStr (ac_node_id c))])
                                 | _ \<Rightarrow> refuse 0)
                            | _ \<Rightarrow> refuse 0))
                  | _ \<Rightarrow> refuse 0)"

definition execute_test :: "exec_env \<Rightarrow> agent_config \<Rightarrow> sandbox_obj \<Rightarrow> agent_task \<Rightarrow> py_error + json" where
  "execute_test ee c sb t =
     (let p = at_params t;
          tm = (if truthy (jget p ''timeout'' JNull) then jget p ''timeout'' JNull
                else if truthy (at_timeout t) then at_timeout t else JInt 300);
          command = jget p ''command'' (JList [])
      in if \<not> ac_test_exec_enabled c then Inr (failure t ''disabled'' [(''test_exec_disabled'', JBool True)])
         else if sb = NoSandbox then Inr (failure t ''no sandbox'' [(''sandbox_unavailable'', JBool True)])
         else case to_int (ee_conv ee) tm of
                None \<Rightarrow> raised ''ValueError''
              | Some secs \<Rightarrow>
                  (case command of
                     JList xs \<Rightarrow>
                       (case strs xs of
                          Some (cmd # cmds) \<Rightarrow>
                            (case sb of
                               SandboxExecutorObj cfg \<Rightarrow>
                                 Inr (JObj (dset (dset (ee_child ee (at_task_id t) (cmd # cmds) secs (jget p ''cwd'' JNull) (jget p ''env'' JNull))
                                                    ''task_id'' (JStr (at_task_id t))) ''node_id'' (JStr (ac_node_id c))))
                             | _ \<Rightarrow> Inr (failure t ''test exec'' [(''node_id'', JStr (ac_node_id c))]))
                        | _ \<Rightarrow> Inr (failure t ''command'' [(''invalid_command'', JBool True)]))
                   | _ \<Rightarrow> Inr (failure t ''command'' [(''invalid_command'', JBool True)])))"

definition run_body :: "exec_env \<Rightarrow> agent_config \<Rightarrow> sandbox_obj \<Rightarrow> agent_task \<Rightarrow> py_error + json" where
  "run_body ee c sb t =
     (if at_type t = ''inference'' then execute_inference ee c t
      else if at_type t = ''embedding'' then execute_embedding ee c t
      else if at_type t = ''plugin'' then execute_plugin ee t
      else if at_type t = ''model_sync'' then execute_model_sync ee t
      else if at_type t = ''pipeline_step'' then execute_pipeline_step ee c t
      else if at_type t = ''supervisor_rpc'' then execute_supervisor ee t
      else if at_type t = ''test'' then execute_test ee c sb t
      else Inr (JObj [(''error'', JStr ''unknown type'')]))"

text \<open>The end of \<open>execute_task\<close>: an exception of the body becomes an answer, so does a cancellation.\<close>

definition exception_answer :: json where
  "exception_answer = JObj [(''error'', JStr ''exception'')]"

definition cancelled_answer :: json where
  "cancelled_answer = JObj [(''error'', JStr ''cancelled''), (''cancelled'', JBool True)]"

definition task_answer :: "bool \<Rightarrow> py_error + json \<Rightarrow> json" where
  "task_answer cancelled r =
     (if cancelled then cancelled_answer else case r of Inl e \<Rightarrow> exception_answer | Inr v \<Rightarrow> v)"

subsection \<open>The route\<close>

record execute_request =
  er_task_id :: string
  er_task_type :: string
  er_model_name :: string
  er_prompt :: string
  er_messages :: "json list"
  er_max_tokens :: int
  er_temperature :: real
  er_extra :: "(string, json) dict"
  er_fencing :: int
  er_leader_id :: string

definition ALLOWED_TASK_TYPES :: "string list" where
  "ALLOWED_TASK_TYPES = [''inference'', ''embedding'', ''plugin'', ''model_sync'', ''pipeline_step'', ''test'']"

definition ALLOWED_EXTRA_KEYS :: "string list" where
  "ALLOWED_EXTRA_KEYS = [''temperature'', ''top_p'', ''top_k'', ''repeat_penalty'', ''seed'']"

definition PIPELINE_EXTRA_KEYS :: "string list" where
  "PIPELINE_EXTRA_KEYS = [''model_id'', ''shard_index'', ''layer_range'', ''hidden_states'', ''input_ids'', ''position_ids'']"

definition TEST_EXTRA_KEYS :: "string list" where
  "TEST_EXTRA_KEYS = [''command'', ''cwd'', ''env'', ''timeout'']"

text \<open>\<open>{**a, **b}\<close>\<close>

definition dmerge :: "('k, 'v) dict \<Rightarrow> ('k, 'v) dict \<Rightarrow> ('k, 'v) dict" where
  "dmerge a b = fold (\<lambda>(k, v) d. dset d k v) b a"

definition route_params :: "execute_request \<Rightarrow> (string, json) dict" where
  "route_params req =
     dmerge (dmerge (dmerge
       [(''prompt'', JStr (er_prompt req)), (''messages'', JList (er_messages req)),
        (''max_tokens'', JInt (er_max_tokens req)), (''temperature'', JReal (er_temperature req))]
       (pick ALLOWED_EXTRA_KEYS (er_extra req))) (pick PIPELINE_EXTRA_KEYS (er_extra req))) (pick TEST_EXTRA_KEYS (er_extra req))"

definition route_task :: "execute_request \<Rightarrow> agent_task option" where
  "route_task req =
     (if er_task_type req \<notin> set ALLOWED_TASK_TYPES then None
      else Some \<lparr>at_task_id = er_task_id req, at_type = er_task_type req, at_model = Some (er_model_name req),
                 at_model_name = er_model_name req, at_plugin = [], at_action = [], at_source_node = None,
                 at_source_port = None, at_model_id = JStr [], at_params = route_params req, at_timeout = JNull,
                 at_fencing = er_fencing req\<rparr>)"

text \<open>What the caller of the route gets: a refusal of the type, or the answer of the task.\<close>

definition route_reply :: "json \<Rightarrow> http_reply" where
  "route_reply result = HttpStatus 200 (JObj [(''status'', JStr ''ok''), (''result'', result)])"

text \<open>The request model read from a body; a field of the wrong type is refused with status 422.\<close>

definition int_field :: "py_conv \<Rightarrow> json \<Rightarrow> int option" where
  "int_field cv v =
     (case v of JReal x \<Rightarrow> if x = real_of_int \<lfloor>x\<rfloor> then Some \<lfloor>x\<rfloor> else None | _ \<Rightarrow> to_int cv v)"

definition str_field :: "json \<Rightarrow> string option" where
  "str_field v = (case v of JStr s \<Rightarrow> Some s | _ \<Rightarrow> None)"

definition is_obj :: "json \<Rightarrow> bool" where
  "is_obj v = (case v of JObj _ \<Rightarrow> True | _ \<Rightarrow> False)"

definition request_of :: "py_conv \<Rightarrow> (string, json) dict \<Rightarrow> execute_request option" where
  "request_of cv d =
     (case (str_field (jget d ''task_id'' (JStr [])), str_field (jget d ''task_type'' (JStr ''inference'')),
            str_field (jget d ''model_name'' (JStr [])), str_field (jget d ''prompt'' (JStr [])),
            jget d ''messages'' (JList []), int_field cv (jget d ''max_tokens'' (JInt 2048)),
            to_float cv (jget d ''temperature'' (JReal 0.7)), jget d ''extra'' (JObj []),
            int_field cv (jget d ''fencing_token'' (JInt 0)), str_field (jget d ''leader_id'' (JStr []))) of
        (Some tid, Some ty, Some mn, Some pr, JList ms, Some mt, Some te, JObj ex, Some ft, Some ld) \<Rightarrow>
          if list_all is_obj ms
          then Some \<lparr>er_task_id = tid, er_task_type = ty, er_model_name = mn, er_prompt = pr, er_messages = ms,
                     er_max_tokens = mt, er_temperature = te, er_extra = ex, er_fencing = ft, er_leader_id = ld\<rparr>
          else None
      | _ \<Rightarrow> None)"

end
