(* ===== verification/AgentClaims.thy ===== *)
theory AgentClaims
  imports NodeAgent
begin

text \<open>
  What the agent of a worker guarantees: the pauses of paced requests, the admission of tasks, what the
  master makes of the agent's answers, and what becomes of the parameters of a task on their way from the
  master to the inference server.
\<close>

subsection \<open>Pauses\<close>

lemma pace_loop_cases:
  assumes "pace_loop pc send clock deadline k = (r, waits)"
  obtains (through) "\<not> is_429 (fst (send k))" "waits = []" "r = Some (fst (send k))"
  | (exhausted) "is_429 (fst (send k))" "waits = []" "r = None"
  | (pause) ws where "is_429 (fst (send k))" "k < pc_max_retries pc" "deadline - clock k > 0"
      "waits = min (min (parse_retry_after (snd (send k))) (next_backoff pc k)) (deadline - clock k) # ws"
      "pace_loop pc send clock deadline (Suc k) = (r, ws)"
  using assms by (subst (asm) pace_loop.simps) (fastforce simp: Let_def split: if_splits prod.splits)

lemma pace_loop_result:
  "pace_loop pc send clock deadline k = (r, waits) \<Longrightarrow>
   r = (if \<forall>i \<le> length waits. is_429 (fst (send (k + i))) then None else Some (fst (send (k + length waits))))"
proof (induction waits arbitrary: k r)
  case Nil
  then show ?case by (cases rule: pace_loop_cases) auto
next
  case (Cons w ws)
  from Cons.prems show ?case
  proof (cases rule: pace_loop_cases)
    case (pause ws')
    then have "(\<forall>i \<le> length (w # ws). is_429 (fst (send (k + i)))) \<longleftrightarrow> (\<forall>i \<le> length ws. is_429 (fst (send (Suc k + i))))"
      by (simp add: less_Suc_eq_le [symmetric] All_less_Suc2)
    then show ?thesis using Cons.IH [of "Suc k" r] pause by simp
  qed simp_all
qed

lemma pause_bounds:
  assumes "0 \<le> pc_initial_backoff pc" "0 \<le> pc_max_backoff pc" "0 \<le> remaining"
  shows "0 \<le> min (min (parse_retry_after ra) (next_backoff pc k)) remaining"
    and "min (min (parse_retry_after ra) (next_backoff pc k)) remaining \<le> pc_max_backoff pc"
  using assms by (auto simp: next_backoff_def parse_retry_after_def split: retry_after.split)

lemma pace_loop_waits:
  assumes "0 \<le> pc_initial_backoff pc" "0 \<le> pc_max_backoff pc"
    and "pace_loop pc send clock deadline k = (r, waits)"
    and "\<forall>i < length waits. clock (k + i) + waits ! i \<le> clock (Suc (k + i))"
  shows "(waits = [] \<or> sum_list waits \<le> deadline - clock k) \<and> length waits \<le> pc_max_retries pc - k \<and>
         (\<forall>w \<in> set waits. 0 \<le> w \<and> w \<le> pc_max_backoff pc)"
  using assms(3,4)
proof (induction waits arbitrary: k r)
  case (Cons w ws)
  from Cons.prems(1) show ?case
  proof (cases rule: pace_loop_cases)
    case (pause ws')
    have "\<forall>i < length ws. clock (Suc k + i) + ws ! i \<le> clock (Suc (Suc k + i))"
      using Cons.prems(2) by fastforce
    then have IH: "ws = [] \<or> sum_list ws \<le> deadline - clock (Suc k)" "length ws \<le> pc_max_retries pc - Suc k"
      "\<forall>w \<in> set ws. 0 \<le> w \<and> w \<le> pc_max_backoff pc"
      using Cons.IH [of "Suc k" r] pause by auto
    have "clock k + w \<le> clock (Suc k)" using Cons.prems(2) by fastforce
    moreover have "w \<le> deadline - clock k" "0 \<le> w" "w \<le> pc_max_backoff pc"
      using pause pause_bounds [OF assms(1,2), of "deadline - clock k" "snd (send k)" k] by simp_all
    ultimately show ?thesis using IH pause(2) by auto
  qed simp_all
qed simp

text \<open>A paced request keeps to its budget: however often the server asks to wait and for how long, there
  are at most as many pauses as retries, no pause is longer than the greatest back-off, and as long as the
  clock advances at least by the pauses, they add up to no more than the budget of the call.  The call gives
  the first answer that is not a refusal for the rate, and the rate limit error when all are.\<close>

theorem paced_waits_fit_budget:
  assumes "0 \<le> pc_initial_backoff pc" "0 \<le> pc_max_backoff pc" "0 \<le> pc_budget pc"
    and d: "dispatch_with_pacing pc send clock start = (r, waits)"
    and "start \<le> clock 0" and "\<forall>i < length waits. clock i + waits ! i \<le> clock (Suc i)"
  shows "length waits \<le> pc_max_retries pc \<and> (\<forall>w \<in> set waits. 0 \<le> w \<and> w \<le> pc_max_backoff pc) \<and>
         sum_list waits \<le> pc_budget pc \<and>
         r = (if \<forall>i \<le> length waits. is_429 (fst (send i)) then None else Some (fst (send (length waits))))"
  using pace_loop_waits [of pc send clock "start + pc_budget pc" 0 r waits]
    pace_loop_result [of pc send clock "start + pc_budget pc" 0 r waits] assms
  by (auto simp: dispatch_with_pacing_def)

definition demo_send :: "nat \<Rightarrow> http_reply \<times> retry_after" where
  "demo_send i = (if i < 2 then (HttpStatus 429 JNull, Seconds 7) else (HttpStatus 200 (JObj []), Absent))"

lemma demo_paced: "dispatch_with_pacing pacer_default demo_send real 0 = (Some (HttpStatus 200 (JObj [])), [1/2, 1])"
  by (simp add: dispatch_with_pacing_def pace_loop.simps pacer_default_def demo_send_def is_429_def
      parse_retry_after_def next_backoff_def Let_def min_def)

theorem paced_waits_fit_budget_witness:
  "length [1/2, 1::real] \<le> pc_max_retries pacer_default \<and> sum_list [1/2, 1::real] \<le> pc_budget pacer_default"
  using paced_waits_fit_budget [OF _ _ _ demo_paced] by (simp add: pacer_default_def nth_Cons split: nat.split)

subsection \<open>Admission\<close>

text \<open>Requests and coroutine steps in any order; the result lists the admitted tasks.\<close>

datatype agent_event = Arrive agent_task | Begin string | End string | Cancel string | Stop

definition agent_step :: "(string \<Rightarrow> string) \<Rightarrow> (nat \<Rightarrow> string) \<Rightarrow> agent_event \<Rightarrow> agent \<Rightarrow> agent_task list \<times> agent" where
  "agent_step realpath anon_id ev a =
     (case ev of
        Arrive t \<Rightarrow> (case admit realpath anon_id t a of (Admitted u, a') \<Rightarrow> ([u], a') | (_, a') \<Rightarrow> ([], a'))
      | Begin tid \<Rightarrow> ([], begin_run tid a)
      | End tid \<Rightarrow> ([], end_run tid a)
      | Cancel tid \<Rightarrow> ([], snd (cancel_run tid a))
      | Stop \<Rightarrow> ([], stop_runs a))"

fun agent_run :: "(string \<Rightarrow> string) \<Rightarrow> (nat \<Rightarrow> string) \<Rightarrow> agent_event list \<Rightarrow> agent \<Rightarrow> agent_task list \<times> agent" where
  "agent_run realpath anon_id [] a = ([], a)"
| "agent_run realpath anon_id (ev # evs) a =
     (let (ts, a1) = agent_step realpath anon_id ev a; (us, a2) = agent_run realpath anon_id evs a1 in (ts @ us, a2))"

definition agent_inv :: "agent \<Rightarrow> bool" where
  "agent_inv a \<longleftrightarrow> dwf (ag_running a) \<and> int (length (ag_running a)) \<le> max 0 (ac_max_tasks (ag_config a)) \<and> 0 \<le> ag_last_fencing a"

lemma given_taskD:
  assumes "given_task anon t0 a = (t, a')"
  shows "ag_running a' = ag_running a \<and> ag_config a' = ag_config a \<and> ag_sandbox a' = ag_sandbox a \<and>
         ag_last_fencing a' = ag_last_fencing a \<and> at_fencing t = at_fencing t0 \<and> (at_task_id t0 \<noteq> [] \<longrightarrow> t = t0 \<and> a' = a)"
  using assms by (auto simp: given_task_def Let_def split: if_splits)

text \<open>What is known after \<open>admit\<close>, whatever it answers, and after an admission.\<close>

lemma admit_keeps:
  assumes "admit rp anon t0 a = (r, a')"
  shows "ag_config a' = ag_config a \<and> ag_sandbox a' = ag_sandbox a \<and> ag_last_fencing a \<le> ag_last_fencing a' \<and>
         ((\<forall>t. r \<noteq> Admitted t) \<longrightarrow> ag_running a' = ag_running a)"
  using assms
  by (auto simp: admit_def Let_def split: if_splits prod.splits sum.splits option.splits dest!: given_taskD)

lemma admit_admitted:
  assumes "admit rp anon t0 a = (Admitted t, a')"
  shows "ag_running a' = dset (ag_running a) (at_task_id t) Created"
    and "at_task_id t0 \<noteq> [] \<Longrightarrow> t = t0 \<and> dget (ag_running a) (at_task_id t0) = None"
    and "int (length (ag_running a)) < ac_max_tasks (ag_config a)"
    and "at_fencing t = 0 \<or> ag_last_fencing a \<le> at_fencing t" "at_fencing t \<le> ag_last_fencing a'"
    and "at_task_id t0 = [] \<Longrightarrow> \<exists>n. at_task_id t = anon n"
    and "sandbox_gate rp (ag_sandbox a) t = Inr None"
proof -
  obtain t1 a1 where g: "given_task anon t0 a = (t1, a1)" by fastforce
  have r: "ag_running a' = dset (ag_running a1) (at_task_id t1) Created \<and> t = t1 \<and>
      (at_task_id t0 \<noteq> [] \<longrightarrow> dget (ag_running a) (at_task_id t0) = None) \<and>
      int (length (ag_running a1)) < ac_max_tasks (ag_config a1) \<and> (at_fencing t = 0 \<or> ag_last_fencing a1 \<le> at_fencing t) \<and>
      at_fencing t \<le> ag_last_fencing a' \<and> sandbox_gate rp (ag_sandbox a1) t = Inr None"
    using assms unfolding admit_def g
    by (auto simp: Let_def split: if_splits sum.splits option.splits)
  show "ag_running a' = dset (ag_running a) (at_task_id t) Created"
    "at_task_id t0 \<noteq> [] \<Longrightarrow> t = t0 \<and> dget (ag_running a) (at_task_id t0) = None"
    "int (length (ag_running a)) < ac_max_tasks (ag_config a)"
    "at_fencing t = 0 \<or> ag_last_fencing a \<le> at_fencing t" "at_fencing t \<le> ag_last_fencing a'"
    "sandbox_gate rp (ag_sandbox a) t = Inr None"
    using r given_taskD [OF g] by auto
  show "at_task_id t0 = [] \<Longrightarrow> \<exists>n. at_task_id t = anon n"
    using r g by (auto simp: given_task_def Let_def)
qed

lemma coroutine_steps [simp]:
  "ag_config (begin_run tid a) = ag_config a" "ag_config (end_run tid a) = ag_config a"
  "ag_config (snd (cancel_run tid a)) = ag_config a" "ag_config (stop_runs a) = ag_config a"
  "ag_sandbox (begin_run tid a) = ag_sandbox a" "ag_sandbox (end_run tid a) = ag_sandbox a"
  "ag_sandbox (snd (cancel_run tid a)) = ag_sandbox a" "ag_sandbox (stop_runs a) = ag_sandbox a"
  "ag_last_fencing (begin_run tid a) = ag_last_fencing a" "ag_last_fencing (end_run tid a) = ag_last_fencing a"
  "ag_last_fencing (snd (cancel_run tid a)) = ag_last_fencing a" "ag_last_fencing (stop_runs a) = ag_last_fencing a"
  by (simp_all add: begin_run_def end_run_def cancel_run_def stop_runs_def split: option.split phase.split)

lemma length_dset_known: "dget d k = Some v' \<Longrightarrow> length (dset d k v) = length d"
  using dget_None_iff [of d k] by (simp add: length_dset)

definition shrinks :: "agent \<Rightarrow> agent \<Rightarrow> bool" where
  "shrinks a a' \<longleftrightarrow> (dwf (ag_running a) \<longrightarrow> dwf (ag_running a')) \<and> length (ag_running a') \<le> length (ag_running a)"

lemma shrinks_steps:
  "shrinks a (begin_run tid a)" "shrinks a (end_run tid a)" "shrinks a (snd (cancel_run tid a))" "shrinks a (stop_runs a)"
  by (auto simp: shrinks_def begin_run_def end_run_def cancel_run_def stop_runs_def length_dpop_le length_dset_known
      split: option.split phase.split)

lemma agent_inv_shrinks:
  "agent_inv a \<Longrightarrow> shrinks a a' \<Longrightarrow> ag_config a' = ag_config a \<Longrightarrow> ag_last_fencing a' = ag_last_fencing a \<Longrightarrow> agent_inv a'"
  by (auto simp: agent_inv_def shrinks_def)

definition step_ok :: "(string \<Rightarrow> string) \<Rightarrow> agent \<Rightarrow> agent_task list \<Rightarrow> agent \<Rightarrow> bool" where
  "step_ok rp a ts a' \<longleftrightarrow>
     agent_inv a' \<and> ag_config a' = ag_config a \<and> ag_sandbox a' = ag_sandbox a \<and> ag_last_fencing a \<le> ag_last_fencing a' \<and>
     sorted (filter (\<lambda>k. k \<noteq> 0) (map at_fencing ts)) \<and>
     (\<forall>t \<in> set ts. (at_fencing t = 0 \<or> ag_last_fencing a \<le> at_fencing t) \<and> at_fencing t \<le> ag_last_fencing a' \<and>
        sandbox_gate rp (ag_sandbox a) t = Inr None)"

lemma step_ok_trans: "step_ok rp a ts b \<Longrightarrow> step_ok rp b us c \<Longrightarrow> step_ok rp a (ts @ us) c"
  by (fastforce simp: step_ok_def sorted_append)

lemma step_ok_quiet:
  "agent_inv a' \<Longrightarrow> ag_config a' = ag_config a \<Longrightarrow> ag_sandbox a' = ag_sandbox a \<Longrightarrow>
   ag_last_fencing a \<le> ag_last_fencing a' \<Longrightarrow> step_ok rp a [] a'"
  by (simp add: step_ok_def)

lemma step_ok_arrive:
  assumes "agent_inv a"
  shows "step_ok rp a (fst (agent_step rp anon (Arrive t0) a)) (snd (agent_step rp anon (Arrive t0) a))"
proof -
  obtain r a1 where ad: "admit rp anon t0 a = (r, a1)" by fastforce
  show ?thesis
  proof (cases "\<exists>t. r = Admitted t")
    case True
    then obtain t where r: "r = Admitted t" ..
    note f = admit_admitted [OF ad [unfolded r]] and k = admit_keeps [OF ad]
    have "int (length (dset (ag_running a) (at_task_id t) Created)) \<le> ac_max_tasks (ag_config a)"
      using f(3) by (simp add: length_dset)
    then have "agent_inv a1" using assms f(1) k by (auto simp: agent_inv_def)
    then show ?thesis using f k by (auto simp: agent_step_def ad r step_ok_def)
  next
    case False
    then have "agent_inv a1" using assms admit_keeps [OF ad] by (auto simp: agent_inv_def)
    then show ?thesis using False admit_keeps [OF ad] by (cases r) (auto simp: agent_step_def ad intro: step_ok_quiet)
  qed
qed

lemma step_ok_step:
  assumes "agent_inv a"
  shows "step_ok rp a (fst (agent_step rp anon ev a)) (snd (agent_step rp anon ev a))"
proof (cases ev)
  case (Arrive t)
  then show ?thesis using step_ok_arrive [OF assms] by simp
qed (auto simp: agent_step_def intro!: step_ok_quiet agent_inv_shrinks [OF assms] shrinks_steps)

lemma step_ok_run:
  "agent_inv a \<Longrightarrow> agent_run rp anon evs a = (ts, b) \<Longrightarrow> step_ok rp a ts b"
proof (induction evs arbitrary: a ts)
  case (Cons ev evs)
  obtain us a1 where st: "agent_step rp anon ev a = (us, a1)" by fastforce
  obtain vs where run: "agent_run rp anon evs a1 = (vs, b)" "ts = us @ vs"
    using Cons.prems(2) st by (auto split: prod.splits)
  have ok: "step_ok rp a us a1" using step_ok_step [OF Cons.prems(1), of rp anon ev] st by simp
  then have "agent_inv a1" by (simp add: step_ok_def)
  from Cons.IH [OF this run(1)] show ?case using step_ok_trans [OF ok] run(2) by simp
qed (auto intro: step_ok_quiet)

lemma agent_inv_init: "agent_inv (agent_init c sb)"
  by (simp add: agent_inv_def agent_init_def)


definition demo_agent_task :: "string \<Rightarrow> string \<Rightarrow> int \<Rightarrow> agent_task" where
  "demo_agent_task tid ty token =
     \<lparr>at_task_id = tid, at_type = ty, at_model = Some ''m'', at_model_name = ''m'', at_plugin = [], at_action = [],
      at_source_node = None, at_source_port = None, at_model_id = JStr [], at_params = [], at_timeout = JNull,
      at_fencing = token\<rparr>"

definition demo_anon :: "nat \<Rightarrow> string" where
  "demo_anon n = ''anon-'' @ replicate n (CHR ''1'')"

lemma demo_admit:
  "ag_sandbox a = NoSandbox \<Longrightarrow>
   admit rp demo_anon (demo_agent_task (c # cs) ''inference'' k) a =
     (if dget (ag_running a) (c # cs) \<noteq> None
      then (Refusal (answer (c # cs) ''duplicate'' [(''dedup_blocked'', JBool True)]), a)
      else if k \<noteq> 0 \<and> k < ag_last_fencing a
      then (Refusal (answer (c # cs) ''stale master'' [(''fencing_rejected'', JBool True)]), a)
      else let a1 = a\<lparr>ag_last_fencing := max (ag_last_fencing a) k, ag_current := Some (demo_agent_task (c # cs) ''inference'' k)\<rparr>
           in if int (length (ag_running a)) \<ge> ac_max_tasks (ag_config a)
              then (Refusal (answer (c # cs) ''full'' [(''overload'', JBool True)]), a1\<lparr>ag_current := None\<rparr>)
              else (Admitted (demo_agent_task (c # cs) ''inference'' k), a1\<lparr>ag_running := dset (ag_running a1) (c # cs) Created\<rparr>))"
  by (auto simp: admit_def demo_agent_task_def given_task_def Let_def sandbox_gate_def is_safe_path_segment_def
      re_class_def segment_char_def is_alnum_def is_alpha_def contains_iff)

lemma demo_agent_run:
  "agent_run (\<lambda>p. p) demo_anon
     [Arrive (demo_agent_task ''a'' ''inference'' 3), Arrive (demo_agent_task ''b'' ''inference'' 2), Begin ''a'']
     (agent_init agent_config_default NoSandbox) =
   ([demo_agent_task ''a'' ''inference'' 3],
    (agent_init agent_config_default NoSandbox)\<lparr>ag_running := [(''a'', Started)], ag_last_fencing := 3,
      ag_current := Some (demo_agent_task ''a'' ''inference'' 3)\<rparr>)"
  by (simp add: agent_step_def demo_admit agent_init_def agent_config_default_def begin_run_def)


subsection \<open>A coroutine that never begins\<close>

lemma stuck_step:
  assumes "dget (ag_running a) tid = Some Dead" "ev \<noteq> Stop" "\<forall>n. anon n \<noteq> tid"
  shows "dget (ag_running (snd (agent_step rp anon ev a))) tid = Some Dead"
proof (cases ev)
  case (Arrive t0)
  obtain r a1 where ad: "admit rp anon t0 a = (r, a1)" by fastforce
  show ?thesis
  proof (cases "\<exists>t. r = Admitted t")
    case True
    then obtain t where r: "r = Admitted t" ..
    note f = admit_admitted [OF ad [unfolded r]]
    have "at_task_id t \<noteq> tid" using f(2,6) assms by (cases "at_task_id t0 = []") auto
    then show ?thesis using f(1) assms(1) by (simp add: Arrive agent_step_def ad r)
  next
    case False
    then show ?thesis using admit_keeps [OF ad] assms(1) by (cases r) (auto simp: Arrive agent_step_def ad)
  qed
qed (use assms in \<open>auto simp: agent_step_def begin_run_def end_run_def cancel_run_def split: option.split phase.split\<close>)

lemma stuck_run:
  "dget (ag_running a) tid = Some Dead \<Longrightarrow> Stop \<notin> set evs \<Longrightarrow> \<forall>n. anon n \<noteq> tid \<Longrightarrow>
   dget (ag_running (snd (agent_run rp anon evs a))) tid = Some Dead"
proof (induction evs arbitrary: a)
  case (Cons ev evs)
  have "dget (ag_running (snd (agent_step rp anon ev a))) tid = Some Dead"
    using Cons.prems by (intro stuck_step) auto
  from Cons.IH [OF this] Cons.prems show ?case by (simp add: case_prod_unfold Let_def)
qed simp

lemma config_run: "ag_config (snd (agent_run rp anon evs a)) = ag_config a"
proof (induction evs arbitrary: a)
  case (Cons ev evs)
  have "ag_config (snd (agent_step rp anon ev a)) = ag_config a"
    by (auto simp: agent_step_def split: agent_event.split prod.split admission.split dest!: admit_keeps)
  then show ?case by (simp add: case_prod_unfold Let_def Cons.IH)
qed simp

text \<open>A task that is cancelled after \<open>execute_task\<close> has created its coroutine and before the coroutine
  has taken its first step occupies a place of the agent until the agent stops, whatever happens next: it
  cannot be cancelled, the id is refused as a duplicate for ever, and an agent with one place takes no task
  any more.\<close>

theorem cancelled_before_start_is_stuck:
  assumes adm: "admit rp anon t0 a = (Admitted t, a1)" and named: "at_task_id t0 = tid" "tid \<noteq> []" "\<forall>n. anon n \<noteq> tid"
    and run: "agent_run rp anon evs (begin_run tid (snd (cancel_run tid a1))) = (ts, b)" and s: "Stop \<notin> set evs"
  shows "fst (cancel_run tid a1) \<and> \<not> fst (cancel_run tid b) \<and> dget (ag_running b) tid = Some Dead \<and>
         (\<forall>u. at_task_id u = tid \<longrightarrow>
            admit rp anon u b = (Refusal (answer tid ''duplicate'' [(''dedup_blocked'', JBool True)]), b)) \<and>
         (ac_max_tasks (ag_config a) \<le> 1 \<longrightarrow> (\<forall>u v b'. admit rp anon u b \<noteq> (Admitted v, b')))"
proof -
  have c: "dget (ag_running a1) tid = Some Created" "ag_config a1 = ag_config a"
    using admit_admitted(1,2) [OF adm] admit_keeps [OF adm] named by auto
  let ?d = "begin_run tid (snd (cancel_run tid a1))"
  have "dget (ag_running ?d) tid = Some Dead" using c by (simp add: cancel_run_def begin_run_def)
  from stuck_run [OF this s named(3), of rp] have dead: "dget (ag_running b) tid = Some Dead" by (simp add: run)
  have cf: "ag_config b = ag_config a" using config_run [of rp anon evs ?d] c(2) by (simp add: run)
  have len: "1 \<le> int (length (ag_running b))" using dead by (cases "ag_running b") auto
  have "admit rp anon u b \<noteq> (Admitted v, b')" if "ac_max_tasks (ag_config a) \<le> 1" for u v b'
  proof
    assume "admit rp anon u b = (Admitted v, b')"
    from admit_admitted(3) [OF this] have "int (length (ag_running b)) < ac_max_tasks (ag_config a)" unfolding cf .
    with len that show False by linarith
  qed
  then show ?thesis using c dead named(2) by (auto simp: cancel_run_def admit_def)
qed

lemma demo_anon_not: "\<forall>n. demo_anon n \<noteq> ''a''"
  by (simp add: demo_anon_def)

lemma demo_first_admitted:
  "admit (\<lambda>p. p) demo_anon (demo_agent_task ''a'' ''inference'' 0) (agent_init (agent_config_default\<lparr>ac_max_tasks := 1\<rparr>) NoSandbox) =
   (Admitted (demo_agent_task ''a'' ''inference'' 0),
    (agent_init (agent_config_default\<lparr>ac_max_tasks := 1\<rparr>) NoSandbox)\<lparr>ag_running := [(''a'', Created)],
      ag_current := Some (demo_agent_task ''a'' ''inference'' 0)\<rparr>)"
  by (simp add: demo_admit agent_init_def agent_config_default_def)

theorem cancelled_before_start_is_stuck_witness:
  "\<exists>b. dget (ag_running b) ''a'' = Some Dead \<and> (\<forall>u v b'. admit (\<lambda>p. p) demo_anon u b \<noteq> (Admitted v, b'))"
proof -
  have run: "agent_run (\<lambda>p. p) demo_anon [] d = ([], d)" for d by simp
  let ?a1 = "(agent_init (agent_config_default\<lparr>ac_max_tasks := 1\<rparr>) NoSandbox)\<lparr>ag_running := [(''a'', Created)],
    ag_current := Some (demo_agent_task ''a'' ''inference'' 0)\<rparr>"
  let ?b = "begin_run ''a'' (snd (cancel_run ''a'' ?a1))"
  have a: "at_task_id (demo_agent_task ''a'' ''inference'' 0) = ''a''" by (simp add: demo_agent_task_def)
  have "ac_max_tasks (ag_config (agent_init (agent_config_default\<lparr>ac_max_tasks := 1\<rparr>) NoSandbox)) \<le> 1"
    by (simp add: agent_init_def)
  with cancelled_before_start_is_stuck [OF demo_first_admitted a _ demo_anon_not run]
  have "dget (ag_running ?b) ''a'' = Some Dead \<and> (\<forall>u v b'. admit (\<lambda>p. p) demo_anon u ?b \<noteq> (Admitted v, b'))"
    by simp
  then show ?thesis by blast
qed

subsection \<open>The answers at the master\<close>

abbreviation verdict_of :: "string \<Rightarrow> json \<Rightarrow> verdict" where
  "verdict_of nid v \<equiv> classify (read_reply nid (route_reply v))"

lemma verdict_of_obj:
  "verdict_of nid (JObj d) =
     (let d' = setdefault d ''node_id'' (JStr nid)
      in if flag d ''rate_limited'' \<or> flag d ''overload'' then Transient
         else if flag d ''dedup_blocked'' \<or> flag d ''sandbox_blocked'' then Blocked
         else if flag d ''fencing_rejected'' then Logic
         else if dget d ''error'' \<noteq> None then LogicFault else Output d')"
proof -
  have get: "dget (setdefault d ''node_id'' (JStr nid)) k = dget d k" if "k \<noteq> ''node_id''" for k
    using that by (simp add: setdefault_def map_add_def split: option.split)
  have "flag (setdefault d ''node_id'' (JStr nid)) k = flag d k" if "k \<noteq> ''node_id''" for k
    using that by (simp add: flag_def get)
  then show ?thesis by (simp add: classify_def read_reply_def route_reply_def jget_def Let_def get)
qed

lemma verdict_of_answer:
  "verdict_of nid (answer tid e [(k, JBool True)]) =
     (if k = ''rate_limited'' \<or> k = ''overload'' then Transient
      else if k = ''dedup_blocked'' \<or> k = ''sandbox_blocked'' then Blocked
      else if k = ''fencing_rejected'' then Logic else LogicFault)"
  by (simp add: answer_def verdict_of_obj Let_def flag_def)

text \<open>What the master makes of an agent's answer: of the refusals only a stale master's is final, none
  is charged to the node, and a task that the local server's rate limit stopped may be tried again.  An
  exception of the work counts as a fault of the node, and so does a task that was cancelled.\<close>

theorem agent_answers_at_master:
  assumes "admit rp anon t a = (r, a')"
  shows "(\<forall>v. r = Refusal v \<longrightarrow> verdict_of nid v =
            (if at_task_id t \<noteq> [] \<and> dget (ag_running a) (at_task_id t) \<noteq> None then Blocked
             else if at_fencing t \<noteq> 0 \<and> at_fencing t < ag_last_fencing a then Logic
             else if sandbox_gate rp (ag_sandbox a) (fst (given_task anon t a)) \<noteq> Inr None then Blocked else Transient)) \<and>
         (\<forall>u. r = Admitted u \<longrightarrow>
            verdict_of nid (task_answer False (chat_answer (ag_config a) u RateLimited)) = Transient \<and>
            verdict_of nid (task_answer False (embedding_answer (ag_config a) u RateLimited)) = Transient \<and>
            (\<forall>e. verdict_of nid (task_answer False (Inl e)) = LogicFault) \<and>
            (\<forall>res. verdict_of nid (task_answer True res) = LogicFault))"
proof -
  obtain t1 a1 where g: "given_task anon t a = (t1, a1)" by fastforce
  have "verdict_of nid v =
      (if at_task_id t \<noteq> [] \<and> dget (ag_running a) (at_task_id t) \<noteq> None then Blocked
       else if at_fencing t \<noteq> 0 \<and> at_fencing t < ag_last_fencing a then Logic
       else if sandbox_gate rp (ag_sandbox a) (fst (given_task anon t a)) \<noteq> Inr None then Blocked else Transient)"
    if "r = Refusal v" for v
    using assms given_taskD [OF g] unfolding admit_def that g
    by (auto simp: Let_def verdict_of_answer split: if_splits sum.splits option.splits)
  moreover have "verdict_of nid (rate_limited_answer c u) = Transient" for c u
    by (simp add: rate_limited_answer_def failure_def answer_def verdict_of_obj Let_def flag_def)
  moreover have "verdict_of nid exception_answer = LogicFault" "verdict_of nid cancelled_answer = LogicFault"
    by (simp_all add: exception_answer_def cancelled_answer_def verdict_of_obj Let_def flag_def)
  ultimately show ?thesis by (simp add: task_answer_def chat_answer_def embedding_answer_def)
qed

theorem agent_answers_at_master_witness:
  "verdict_of ''n'' (answer ''a'' ''full'' [(''overload'', JBool True)]) = Transient"
proof -
  have "admit (\<lambda>p. p) demo_anon (demo_agent_task ''a'' ''inference'' 0) (agent_init (agent_config_default\<lparr>ac_max_tasks := 0\<rparr>) NoSandbox) =
    (Refusal (answer ''a'' ''full'' [(''overload'', JBool True)]),
     (agent_init (agent_config_default\<lparr>ac_max_tasks := 0\<rparr>) NoSandbox)\<lparr>ag_current := None\<rparr>)"
    by (simp add: demo_admit agent_init_def agent_config_default_def)
  from agent_answers_at_master [OF this, of "''n''"] show ?thesis
    by (simp add: demo_agent_task_def agent_init_def given_task_def sandbox_gate_def Let_def is_safe_path_segment_def
        re_class_def segment_char_def is_alnum_def is_alpha_def contains_iff)
qed

subsection \<open>From the master's task to the request of the server\<close>

lemma dget_dmerge: "k \<notin> fst ` set b \<Longrightarrow> dget (dmerge a b) k = dget a k"
  unfolding dmerge_def by (induction b arbitrary: a) auto

lemma dget_pick: "dget (pick ks d) k = (if k \<in> set ks then dget d k else None)"
  unfolding pick_def by (induction d) auto

lemma fst_pick: "fst ` set (pick ks d) \<subseteq> set ks"
  by (auto simp: pick_def)

lemma route_params_get:
  "k \<notin> set ALLOWED_EXTRA_KEYS \<Longrightarrow> k \<notin> set PIPELINE_EXTRA_KEYS \<Longrightarrow> k \<notin> set TEST_EXTRA_KEYS \<Longrightarrow>
   dget (route_params req) k =
     dget [(''prompt'', JStr (er_prompt req)), (''messages'', JList (er_messages req)),
           (''max_tokens'', JInt (er_max_tokens req)), (''temperature'', JReal (er_temperature req))] k"
  using fst_pick unfolding route_params_def by (subst dget_dmerge | blast)+

lemma route_params_temperature:
  "''temperature'' \<notin> fst ` set (er_extra req) \<Longrightarrow> dget (route_params req) ''temperature'' = Some (JReal (er_temperature req))"
  unfolding route_params_def
  by (subst dget_dmerge, force simp: pick_def TEST_EXTRA_KEYS_def, subst dget_dmerge, force simp: pick_def PIPELINE_EXTRA_KEYS_def,
      subst dget_dmerge, force simp: pick_def) simp

lemma request_of_SomeE:
  assumes "request_of cv d = Some req"
  obtains "jget d ''task_id'' (JStr []) = JStr (er_task_id req)" "jget d ''task_type'' (JStr ''inference'') = JStr (er_task_type req)"
    "jget d ''model_name'' (JStr []) = JStr (er_model_name req)" "jget d ''prompt'' (JStr []) = JStr (er_prompt req)"
    "jget d ''messages'' (JList []) = JList (er_messages req)"
    "int_field cv (jget d ''max_tokens'' (JInt 2048)) = Some (er_max_tokens req)"
    "to_float cv (jget d ''temperature'' (JReal 0.7)) = Some (er_temperature req)"
    "jget d ''extra'' (JObj []) = JObj (er_extra req)" "int_field cv (jget d ''fencing_token'' (JInt 0)) = Some (er_fencing req)"
  using assms
  by (auto simp: request_of_def str_field_def split: option.splits json.splits if_splits)

text \<open>C25: An inference task arrives at the server as the master holds it: the request that is posted has the
  task's model, its messages, or its prompt as one message of the user, its temperature and its number of
  tokens, and the agent knows the task under the master's id and fencing token.  The other sampling
  parameters of the task, which the payload and the route carry along, are not part of the request.\<close>

theorem master_task_reaches_server:
  assumes ty: "tk_type mt = ''inference''" and scrub: "\<And>p. nt_scrub nt p = p"
    and req: "request_of cv (dispatch_payload nt step_id h mt None) = Some req" and rt: "route_task req = Some t"
  shows "at_task_id t = tk_id mt \<and> at_fencing t = ha_fencing h \<and>
         (\<exists>prompt ms n x. jget (tk_params mt) ''prompt'' (JStr []) = JStr prompt \<and>
            jget (tk_params mt) ''messages'' (JList []) = JList ms \<and>
            int_field cv (jget (tk_params mt) ''max_tokens'' (JInt 2048)) = Some n \<and>
            to_float cv (jget (tk_params mt) ''temperature'' (JReal 0.7)) = Some x \<and>
            run_body ee c sb t =
              (if tk_model_name mt \<noteq> [] \<and> \<not> is_safe_path_segment (tk_model_name mt) then Inr (failure t ''model'' [])
               else chat_answer c t (paced (ee_backend ee) ''/v1/chat/completions''
                 [(''model'', JStr (tk_model_name mt)), (''messages'', prompt_messages (JList ms) (JStr prompt)),
                  (''temperature'', JReal x), (''max_tokens'', JInt n)])))"
proof -
  let ?d = "dispatch_payload nt step_id h mt None" and ?p = "tk_params mt"
  have d: "?d = [(''task_id'', JStr (tk_id mt)), (''task_type'', JStr ''inference''), (''model_name'', JStr (tk_model_name mt)),
      (''prompt'', jget ?p ''prompt'' (JStr [])), (''messages'', jget ?p ''messages'' (JList [])),
      (''max_tokens'', jget ?p ''max_tokens'' (JInt 2048)), (''temperature'', jget ?p ''temperature'' (JReal 0.7)),
      (''extra'', JObj (pick [''top_p'', ''top_k'', ''repeat_penalty'', ''seed''] ?p)),
      (''fencing_token'', JInt (ha_fencing h)), (''leader_id'', JStr (str_or (ha_node_id h) ''master''))]"
    by (simp add: dispatch_payload_def ty scrub Let_def)
  note f = request_of_SomeE [OF req, unfolded d]
  have r: "er_task_id req = tk_id mt" "er_task_type req = ''inference''" "er_model_name req = tk_model_name mt"
    "JStr (er_prompt req) = jget ?p ''prompt'' (JStr [])" "JList (er_messages req) = jget ?p ''messages'' (JList [])"
    "int_field cv (jget ?p ''max_tokens'' (JInt 2048)) = Some (er_max_tokens req)"
    "to_float cv (jget ?p ''temperature'' (JReal 0.7)) = Some (er_temperature req)"
    "er_extra req = pick [''top_p'', ''top_k'', ''repeat_penalty'', ''seed''] ?p" "er_fencing req = ha_fencing h"
    by (rule f; simp add: jget_def int_field_def)+
  have "''temperature'' \<notin> fst ` set (er_extra req)" using fst_pick [of "[''top_p'', ''top_k'', ''repeat_penalty'', ''seed'']" ?p] r(8) by auto
  note temp = route_params_temperature [OF this]
  have t: "at_task_id t = tk_id mt" "at_type t = ''inference''" "at_model t = Some (tk_model_name mt)"
    "at_params t = route_params req" "at_fencing t = ha_fencing h"
    using rt r by (auto simp: route_task_def split: if_splits)
  have "jget (at_params t) ''prompt'' (JStr []) = JStr (er_prompt req)" "jget (at_params t) ''messages'' (JList []) = JList (er_messages req)"
    "jget (at_params t) ''max_tokens'' (JInt 4096) = JInt (er_max_tokens req)"
    "jget (at_params t) ''temperature'' (JReal 0.7) = JReal (er_temperature req)"
    by (simp_all add: t jget_def temp route_params_get ALLOWED_EXTRA_KEYS_def PIPELINE_EXTRA_KEYS_def TEST_EXTRA_KEYS_def)
  then show ?thesis
    using t r by (auto simp: run_body_def execute_inference_def chat_def Let_def intro!: exI [of _ "er_prompt req"] exI [of _ "er_messages req"])
qed

definition demo_wire :: net where
  "demo_wire = \<lparr>nt_env = \<lparr>ip_of = (\<lambda>_. None), dns = (\<lambda>_. Some [])\<rparr>, nt_post = (\<lambda>_ _. HttpExc), nt_scrub = (\<lambda>d. d),
                nt_conv = \<lparr>pc_float = (\<lambda>_. None), pc_int = (\<lambda>_. None), pc_str = (\<lambda>_. [])\<rparr>\<rparr>"

definition demo_body :: "string \<Rightarrow> execute_request" where
  "demo_body ty =
     \<lparr>er_task_id = ''t0'', er_task_type = ty, er_model_name = ''qwen-8b'', er_prompt = [], er_messages = [],
      er_max_tokens = 2048, er_temperature = 0.7, er_extra = [], er_fencing = 0, er_leader_id = ''master''\<rparr>"

lemma demo_body_arrives:
  "request_of (nt_conv demo_wire) (dispatch_payload demo_wire (\<lambda>t _. t) ha_single (demo_task ''t0'' 0) None) = Some (demo_body ''inference'')"
  by (simp add: dispatch_payload_def demo_task_def demo_wire_def pick_def ha_single_def request_of_def demo_body_def
      jget_def str_field_def int_field_def to_int_def to_float_def Let_def str_or_def)

lemma demo_route_task: "ty \<in> set ALLOWED_TASK_TYPES \<Longrightarrow> \<exists>t. route_task (demo_body ty) = Some t \<and> at_type t = ty"
  by (simp add: route_task_def demo_body_def)

theorem master_task_reaches_server_witness:
  "\<exists>t. route_task (demo_body ''inference'') = Some t \<and> at_task_id t = ''t0'' \<and> at_fencing t = 0"
proof -
  obtain t where t: "route_task (demo_body ''inference'') = Some t"
    using demo_route_task [of "''inference''"] by (auto simp: ALLOWED_TASK_TYPES_def)
  have "tk_type (demo_task ''t0'' 0) = ''inference''" "\<And>p. nt_scrub demo_wire p = p"
    by (simp_all add: demo_task_def demo_wire_def)
  from master_task_reaches_server [OF this demo_body_arrives t] t show ?thesis
    by (simp add: demo_task_def ha_single_def)
qed

text \<open>Three kinds of work do not survive the route: an embedding is always that of the empty text, because
  the text of the task has no place in the request, a plugin task is refused because its plugin and action
  have none either, and a supervisor call is not an allowed type.\<close>

theorem route_loses_work:
  assumes "route_task req = Some t"
  shows "(at_type t = ''embedding'' \<longrightarrow> run_body ee c sb t =
            (if \<not> is_safe_path_segment (er_model_name req) then Inr (failure t ''model'' [])
             else embedding_answer c t (paced (ee_backend ee) ''/v1/embeddings'' [(''model'', JStr (er_model_name req)), (''input'', JStr [])]))) \<and>
         (at_type t = ''plugin'' \<longrightarrow> run_body ee c sb t = Inr (failure t ''plugin'' [])) \<and> at_type t \<noteq> ''supervisor_rpc''"
proof -
  have t: "at_type t \<in> set ALLOWED_TASK_TYPES" "at_model t = Some (er_model_name req)" "at_plugin t = []" "at_params t = route_params req"
    using assms by (auto simp: route_task_def split: if_splits)
  have "jget (at_params t) ''text'' (JStr []) = JStr []"
    by (simp add: t jget_def route_params_get ALLOWED_EXTRA_KEYS_def PIPELINE_EXTRA_KEYS_def TEST_EXTRA_KEYS_def)
  then show ?thesis
    using t by (auto simp: run_body_def execute_embedding_def execute_plugin_def embed_def ALLOWED_TASK_TYPES_def is_safe_path_segment_def)
qed

theorem route_loses_work_witness:
  "\<exists>t. route_task (demo_body ''plugin'') = Some t \<and> (\<forall>ee c sb. run_body ee c sb t = Inr (failure t ''plugin'' []))"
proof -
  obtain t where t: "route_task (demo_body ''plugin'') = Some t" "at_type t = ''plugin''"
    using demo_route_task [of "''plugin''"] by (auto simp: ALLOWED_TASK_TYPES_def)
  show ?thesis using route_loses_work [OF t(1)] t by blast
qed

end
