(* ===== verification/FmpCodec.thy ===== *)
theory FmpCodec
  imports PyText
begin

text \<open>
  The messages of the FMP protocol (\<open>protocol/fmp_message.py\<close>, \<open>protocol/fmp_protobuf.py\<close>): base 64, the three
  layers and their dictionaries, the binary frame with its header, the encryption of the payload and the
  second version of the protocol with its structured encoding.  \<open>json.dumps\<close>, msgpack, the protobuf runtime and
  AES-GCM are parameters.  Fields are typed as their annotations say; a dictionary with a field of another
  type is an error of the model.
\<close>

subsection \<open>Base 64\<close>

definition b64_char :: "nat \<Rightarrow> char" where
  "b64_char n = (if n < 26 then char_of (n + 65) else if n < 52 then char_of (n + 71) else if n < 62 then char_of (n - 4)
                 else if n = 62 then CHR ''+'' else CHR ''/'')"

definition b64_val :: "char \<Rightarrow> nat option" where
  "b64_val c =
     (let n = (of_char c :: nat)
      in if 65 \<le> n \<and> n \<le> 90 then Some (n - 65) else if 97 \<le> n \<and> n \<le> 122 then Some (n - 71)
         else if 48 \<le> n \<and> n \<le> 57 then Some (n + 4) else if n = 43 then Some 62 else if n = 47 then Some 63 else None)"

fun b64encode :: "byte list \<Rightarrow> string" where
  "b64encode [] = []"
| "b64encode [a] = [b64_char (unat a div 4), b64_char (unat a mod 4 * 16), CHR ''='', CHR ''='']"
| "b64encode [a, b] =
     [b64_char (unat a div 4), b64_char (unat a mod 4 * 16 + unat b div 16), b64_char (unat b mod 16 * 4), CHR ''='']"
| "b64encode (a # b # c # bs) =
     b64_char (unat a div 4) # b64_char (unat a mod 4 * 16 + unat b div 16) #
     b64_char (unat b mod 16 * 4 + unat c div 64) # b64_char (unat c mod 64) # b64encode bs"

text \<open>The loop of \<open>b64decode\<close> without validation: characters outside the alphabet are skipped, a complete
  padding ends the text.  The state is the place in the group of four, the bits left over and the pads.\<close>

fun b64_scan :: "nat \<Rightarrow> nat \<Rightarrow> nat \<Rightarrow> string \<Rightarrow> byte list option" where
  "b64_scan q left pads [] = (if q = 0 then Some [] else None)"
| "b64_scan q left pads (c # cs) =
     (if c = CHR ''='' then
        (if q \<ge> 2 then (if q + Suc pads \<ge> 4 then Some [] else b64_scan q left (Suc pads) cs) else b64_scan q left pads cs)
      else case b64_val c of
             None \<Rightarrow> b64_scan q left pads cs
           | Some v \<Rightarrow>
               if q = 0 then b64_scan 1 v 0 cs
               else if q = 1 then map_option ((#) (word_of_nat (left * 4 + v div 16))) (b64_scan 2 (v mod 16) 0 cs)
               else if q = 2 then map_option ((#) (word_of_nat (left * 16 + v div 4))) (b64_scan 3 (v mod 4) 0 cs)
               else map_option ((#) (word_of_nat (left * 64 + v))) (b64_scan 0 0 0 cs))"

definition b64decode :: "string \<Rightarrow> byte list option" where
  "b64decode s = b64_scan 0 0 0 s"

lemma b64_val_char: "n < 64 \<Longrightarrow> b64_val (b64_char n) = Some n"
  by (auto simp: b64_val_def b64_char_def of_char_of Let_def)

lemma b64_char_not_pad: "n < 64 \<Longrightarrow> b64_char n \<noteq> CHR ''=''"
proof
  assume n: "n < 64" and e: "b64_char n = CHR ''=''"
  have "b64_val (CHR ''='') = None" by (simp add: b64_val_def)
  then show False using b64_val_char [OF n] e by simp
qed

lemma b64_scan_char [simp]:
  "n < 64 \<Longrightarrow> b64_scan 0 l p (b64_char n # cs) = b64_scan 1 n 0 cs"
  "n < 64 \<Longrightarrow> b64_scan 1 l p (b64_char n # cs) = map_option ((#) (word_of_nat (l * 4 + n div 16))) (b64_scan 2 (n mod 16) 0 cs)"
  "n < 64 \<Longrightarrow> b64_scan 2 l p (b64_char n # cs) = map_option ((#) (word_of_nat (l * 16 + n div 4))) (b64_scan 3 (n mod 4) 0 cs)"
  "n < 64 \<Longrightarrow> b64_scan 3 l p (b64_char n # cs) = map_option ((#) (word_of_nat (l * 64 + n))) (b64_scan 0 0 0 cs)"
  by (simp_all add: b64_val_char b64_char_not_pad)

lemma b64_scan_pad [simp]: "b64_scan 2 l 0 ''=='' = Some []" "b64_scan 3 l 0 ''='' = Some []"
  by simp_all

declare b64_scan.simps(2) [simp del]

lemma byte_less: "unat (b :: byte) < 256"
  using unsigned_less [of b] by simp

text \<open>The three places where bytes meet in a group of four.\<close>

lemma b64_bits:
  fixes x y :: nat
  assumes "x < 256" "y < 256"
  shows "x div 4 < 64" "x mod 4 * 16 + y div 16 < 64" "(x mod 4 * 16 + y div 16) div 16 = x mod 4"
    "(x mod 4 * 16 + y div 16) mod 16 = y div 16" "x mod 16 * 4 + y div 64 < 64"
    "(x mod 16 * 4 + y div 64) div 4 = x mod 16" "(x mod 16 * 4 + y div 64) mod 4 = y div 64" "y mod 64 < 64"
proof -
  have d: "x div 4 < 64" "y div 16 < 16" "y div 64 < 4" 
    using assms less_mult_imp_div_less [of x 64 4] less_mult_imp_div_less [of y 16 16] less_mult_imp_div_less [of y 4 64]
    by simp_all
  have m: "x mod 4 < 4" "x mod 16 < 16" by simp_all
  show "x mod 4 * 16 + y div 16 < 64" "x mod 16 * 4 + y div 64 < 64" using d m by linarith+
  show "x div 4 < 64" "(x mod 4 * 16 + y div 16) div 16 = x mod 4" "(x mod 4 * 16 + y div 16) mod 16 = y div 16"
    "(x mod 16 * 4 + y div 64) div 4 = x mod 16" "(x mod 16 * 4 + y div 64) mod 4 = y div 64" "y mod 64 < 64"
    using d by simp_all
qed

lemma b64_ends:
  fixes x :: nat
  shows "x mod 4 * 16 < 64" "x mod 16 * 4 < 64" "x div 4 * 4 + x mod 4 = x" "x div 16 * 16 + x mod 16 = x"
    "x div 64 * 64 + x mod 64 = x"
  by simp_all

theorem b64_round_trip: "b64decode (b64encode bs) = Some bs"
  unfolding b64decode_def
proof (induction bs rule: b64encode.induct)
  case (2 a)
  show ?case using b64_bits(1) [OF byte_less [of a] byte_less [of a]] b64_ends [of "unat a"]
    by (simp del: One_nat_def)
next
  case (3 a b)
  note ab = b64_bits [OF byte_less [of a] byte_less [of b]]
  show ?case using ab(1-4) b64_ends [of "unat a"] b64_ends [of "unat b"] by (simp del: One_nat_def)
next
  case (4 a b c bs)
  note ab = b64_bits [OF byte_less [of a] byte_less [of b]] and bc = b64_bits [OF byte_less [of b] byte_less [of c]]
  show ?case
    using ab(1-4) bc(5-8) b64_ends [of "unat a"] b64_ends [of "unat b"] b64_ends [of "unat c"] 4 by (simp del: One_nat_def)
qed simp

interpretation b64_wire: wire_format b64encode b64decode "\<lambda>bs. bs"
  by unfold_locales (rule b64_round_trip)

subsection \<open>Fields of dictionaries\<close>

text \<open>\<open>d[k]\<close> and \<open>d.get(k, v)\<close> with the type the field is declared with.\<close>

definition need :: "(json \<Rightarrow> 'a option) \<Rightarrow> (string, json) dict \<Rightarrow> string \<Rightarrow> py_error + 'a" where
  "need as d k =
     (case dget d k of
        None \<Rightarrow> Inl (KeyError k)
      | Some v \<Rightarrow> (case as v of None \<Rightarrow> Inl (TypeErrorPy k) | Some x \<Rightarrow> Inr x))"

definition want :: "(json \<Rightarrow> 'a option) \<Rightarrow> (string, json) dict \<Rightarrow> string \<Rightarrow> 'a \<Rightarrow> py_error + 'a" where
  "want as d k x0 =
     (case dget d k of
        None \<Rightarrow> Inr x0
      | Some v \<Rightarrow> (case as v of None \<Rightarrow> Inl (TypeErrorPy k) | Some x \<Rightarrow> Inr x))"

definition as_text :: "json \<Rightarrow> string option" where
  "as_text v = (case v of JStr s \<Rightarrow> Some s | _ \<Rightarrow> None)"

definition as_int :: "json \<Rightarrow> int option" where
  "as_int v = (case v of JInt i \<Rightarrow> Some i | _ \<Rightarrow> None)"

definition as_real :: "json \<Rightarrow> real option" where
  "as_real v = (case v of JReal x \<Rightarrow> Some x | JInt i \<Rightarrow> Some (of_int i) | _ \<Rightarrow> None)"

definition as_bool :: "json \<Rightarrow> bool option" where
  "as_bool v = (case v of JBool b \<Rightarrow> Some b | _ \<Rightarrow> None)"

definition as_texts :: "json \<Rightarrow> string list option" where
  "as_texts v = (case v of JList xs \<Rightarrow> strs xs | _ \<Rightarrow> None)"

definition as_obj :: "json \<Rightarrow> (string, json) dict option" where
  "as_obj v = (case v of JObj d \<Rightarrow> Some d | _ \<Rightarrow> None)"

named_theorems field_simps_fmp

lemma as_simps [simp]:
  "as_text (JStr s) = Some s" "as_int (JInt i) = Some i" "as_real (JReal x) = Some x" "as_bool (JBool b) = Some b"
  "as_texts (JList (map JStr ss)) = Some ss" "as_obj (JObj d) = Some d"
  by (simp_all add: as_text_def as_int_def as_real_def as_bool_def as_texts_def as_obj_def)

lemma need_hit [field_simps_fmp]: "need as ((k, v) # d) k = (case as v of None \<Rightarrow> Inl (TypeErrorPy k) | Some x \<Rightarrow> Inr x)"
  by (simp add: need_def)

lemma need_miss [field_simps_fmp]: "k \<noteq> k' \<Longrightarrow> need as ((k', v) # d) k = need as d k"
  by (simp add: need_def)

lemma want_hit [field_simps_fmp]: "want as ((k, v) # d) k x = (case as v of None \<Rightarrow> Inl (TypeErrorPy k) | Some y \<Rightarrow> Inr y)"
  by (simp add: want_def)

lemma want_miss [field_simps_fmp]: "k \<noteq> k' \<Longrightarrow> want as ((k', v) # d) k x = want as d k x"
  by (simp add: want_def)

subsection \<open>The three layers\<close>

datatype payload_type =
    PT_HEARTBEAT | PT_REGISTER | PT_TASK_ASSIGN | PT_TASK_RESULT | PT_KV_TRANSFER | PT_KV_LOOKUP
  | PT_FAULT_REPORT | PT_CHAT_COMPLETION | PT_EMBEDDING | PT_CONTROL | PT_ACK | PT_NACK | PT_SHARD_SYNC
  | PT_SHARD_ACK | PT_KV_GET | PT_KV_GET_RESP | PT_KV_PUT | PT_KV_PUT_ACK

fun payload_value :: "payload_type \<Rightarrow> string" where
  "payload_value PT_HEARTBEAT = ''heartbeat''" | "payload_value PT_REGISTER = ''register''"
| "payload_value PT_TASK_ASSIGN = ''task_assign''" | "payload_value PT_TASK_RESULT = ''task_result''"
| "payload_value PT_KV_TRANSFER = ''kv_transfer''" | "payload_value PT_KV_LOOKUP = ''kv_lookup''"
| "payload_value PT_FAULT_REPORT = ''fault_report''" | "payload_value PT_CHAT_COMPLETION = ''chat_completion''"
| "payload_value PT_EMBEDDING = ''embedding''" | "payload_value PT_CONTROL = ''control''"
| "payload_value PT_ACK = ''ack''" | "payload_value PT_NACK = ''nack''"
| "payload_value PT_SHARD_SYNC = ''shard_sync''" | "payload_value PT_SHARD_ACK = ''shard_ack''"
| "payload_value PT_KV_GET = ''kv_get''" | "payload_value PT_KV_GET_RESP = ''kv_get_resp''"
| "payload_value PT_KV_PUT = ''kv_put''" | "payload_value PT_KV_PUT_ACK = ''kv_put_ack''"

definition PAYLOAD_TYPES :: "payload_type list" where
  "PAYLOAD_TYPES =
     [PT_HEARTBEAT, PT_REGISTER, PT_TASK_ASSIGN, PT_TASK_RESULT, PT_KV_TRANSFER, PT_KV_LOOKUP, PT_FAULT_REPORT,
      PT_CHAT_COMPLETION, PT_EMBEDDING, PT_CONTROL, PT_ACK, PT_NACK, PT_SHARD_SYNC, PT_SHARD_ACK, PT_KV_GET,
      PT_KV_GET_RESP, PT_KV_PUT, PT_KV_PUT_ACK]"

datatype control_type = CT_HEARTBEAT | CT_ACK | CT_NACK | CT_FLOW_CONTROL | CT_DISCONNECT

fun control_value :: "control_type \<Rightarrow> string" where
  "control_value CT_HEARTBEAT = ''heartbeat''" | "control_value CT_ACK = ''ack''" | "control_value CT_NACK = ''nack''"
| "control_value CT_FLOW_CONTROL = ''flow_control''" | "control_value CT_DISCONNECT = ''disconnect''"

definition CONTROL_TYPES :: "control_type list" where
  "CONTROL_TYPES = [CT_HEARTBEAT, CT_ACK, CT_NACK, CT_FLOW_CONTROL, CT_DISCONNECT]"

text \<open>\<open>PayloadType(v)\<close> and \<open>ControlType(v)\<close>: the member with the value, or \<open>ValueError\<close>.\<close>

definition member_of :: "('a \<Rightarrow> 'k) \<Rightarrow> 'a list \<Rightarrow> 'k \<Rightarrow> py_error + 'a" where
  "member_of val ms s = (case find (\<lambda>m. val m = s) ms of None \<Rightarrow> Inl (ValueError ''member'') | Some m \<Rightarrow> Inr m)"

lemma member_of_value [field_simps_fmp]:
  "member_of payload_value PAYLOAD_TYPES (payload_value t) = Inr t"
  "member_of control_value CONTROL_TYPES (control_value ct) = Inr ct"
  by (cases t; simp add: member_of_def PAYLOAD_TYPES_def) (cases ct; simp add: member_of_def CONTROL_TYPES_def)

record fmp_link =
  fl_source :: string
  fl_target :: string
  fl_hops :: int
  fl_max_hops :: int
  fl_trace :: "string list"

record fmp_business =
  fb_type :: payload_type
  fb_payload :: "byte list"
  fb_round_id :: string
  fb_round :: int
  fb_max_rounds :: int

record fmp_control =
  fc_type :: control_type
  fc_sequence :: int
  fc_timestamp :: time
  fc_ack_seq :: int
  fc_flow_window :: int

record fmp_message =
  fm_id :: string
  fm_link :: fmp_link
  fm_business :: fmp_business
  fm_control :: fmp_control
  fm_encrypted :: bool

definition MAX_HOP_COUNT :: int where "MAX_HOP_COUNT = 3"
definition MAX_ROUNDS :: int where "MAX_ROUNDS = 10"

definition can_forward :: "fmp_link \<Rightarrow> bool" where
  "can_forward l \<longleftrightarrow> fl_hops l < fl_max_hops l"

definition forward :: "string \<Rightarrow> fmp_link \<Rightarrow> py_error + fmp_link" where
  "forward next_node l =
     (if \<not> can_forward l then Inl (ValueError ''hop_count'')
      else Inr (l\<lparr>fl_hops := fl_hops l + 1, fl_trace := fl_trace l @ [next_node]\<rparr>))"

definition can_next_round :: "fmp_business \<Rightarrow> bool" where
  "can_next_round b \<longleftrightarrow> fb_round b < fb_max_rounds b"

definition next_round :: "fmp_business \<Rightarrow> py_error + fmp_business" where
  "next_round b = (if \<not> can_next_round b then Inl (ValueError ''round_number'') else Inr (b\<lparr>fb_round := fb_round b + 1\<rparr>))"

definition link_to_dict :: "fmp_link \<Rightarrow> (string, json) dict" where
  "link_to_dict l =
     [(''source_id'', JStr (fl_source l)), (''target_id'', JStr (fl_target l)), (''hop_count'', JInt (fl_hops l)),
      (''max_hops'', JInt (fl_max_hops l)), (''trace'', JList (map JStr (fl_trace l)))]"

definition link_from_dict :: "(string, json) dict \<Rightarrow> py_error + fmp_link" where
  "link_from_dict d =
     and_then (need as_text d ''source_id'') (\<lambda>s.
     and_then (need as_text d ''target_id'') (\<lambda>t.
     and_then (want as_int d ''hop_count'' 0) (\<lambda>h.
     and_then (want as_int d ''max_hops'' MAX_HOP_COUNT) (\<lambda>m.
     and_then (want as_texts d ''trace'' []) (\<lambda>tr.
       Inr \<lparr>fl_source = s, fl_target = t, fl_hops = h, fl_max_hops = m, fl_trace = tr\<rparr>)))))"

definition business_to_dict :: "fmp_business \<Rightarrow> (string, json) dict" where
  "business_to_dict b =
     [(''payload_type'', JStr (payload_value (fb_type b))), (''payload'', JStr (b64encode (fb_payload b))),
      (''round_id'', JStr (fb_round_id b)), (''round_number'', JInt (fb_round b)), (''max_rounds'', JInt (fb_max_rounds b))]"

definition business_from_dict :: "(string, json) dict \<Rightarrow> py_error + fmp_business" where
  "business_from_dict d =
     and_then (need as_text d ''payload'') (\<lambda>raw.
     and_then (case b64decode raw of None \<Rightarrow> Inl (ValueError ''base64'') | Some bs \<Rightarrow> Inr bs) (\<lambda>bs.
     and_then (need as_text d ''payload_type'') (\<lambda>ty.
     and_then (member_of payload_value PAYLOAD_TYPES ty) (\<lambda>pt.
     and_then (want as_text d ''round_id'' []) (\<lambda>ri.
     and_then (want as_int d ''round_number'' 0) (\<lambda>rn.
     and_then (want as_int d ''max_rounds'' MAX_ROUNDS) (\<lambda>mr.
       Inr \<lparr>fb_type = pt, fb_payload = bs, fb_round_id = ri, fb_round = rn, fb_max_rounds = mr\<rparr>)))))))"

definition control_to_dict :: "fmp_control \<Rightarrow> (string, json) dict" where
  "control_to_dict c =
     [(''control_type'', JStr (control_value (fc_type c))), (''sequence'', JInt (fc_sequence c)),
      (''timestamp'', JReal (fc_timestamp c)), (''ack_seq'', JInt (fc_ack_seq c)), (''flow_window'', JInt (fc_flow_window c))]"

definition control_from_dict :: "(string, json) dict \<Rightarrow> py_error + fmp_control" where
  "control_from_dict d =
     and_then (need as_text d ''control_type'') (\<lambda>ty.
     and_then (member_of control_value CONTROL_TYPES ty) (\<lambda>ct.
     and_then (want as_int d ''sequence'' 0) (\<lambda>sq.
     and_then (want as_real d ''timestamp'' 0) (\<lambda>ts.
     and_then (want as_int d ''ack_seq'' 0) (\<lambda>ak.
     and_then (want as_int d ''flow_window'' 64) (\<lambda>fw.
       Inr \<lparr>fc_type = ct, fc_sequence = sq, fc_timestamp = ts, fc_ack_seq = ak, fc_flow_window = fw\<rparr>))))))"

definition message_to_dict :: "fmp_message \<Rightarrow> (string, json) dict" where
  "message_to_dict m =
     [(''message_id'', JStr (fm_id m)), (''link'', JObj (link_to_dict (fm_link m))),
      (''business'', JObj (business_to_dict (fm_business m))), (''control'', JObj (control_to_dict (fm_control m))),
      (''encrypted'', JBool (fm_encrypted m))]"

definition message_from_dict :: "(string, json) dict \<Rightarrow> py_error + fmp_message" where
  "message_from_dict d =
     and_then (need as_text d ''message_id'') (\<lambda>i.
     and_then (need as_obj d ''link'') (\<lambda>ld. and_then (link_from_dict ld) (\<lambda>l.
     and_then (need as_obj d ''business'') (\<lambda>bd. and_then (business_from_dict bd) (\<lambda>b.
     and_then (need as_obj d ''control'') (\<lambda>cd. and_then (control_from_dict cd) (\<lambda>c.
     and_then (want as_bool d ''encrypted'' False) (\<lambda>e.
       Inr \<lparr>fm_id = i, fm_link = l, fm_business = b, fm_control = c, fm_encrypted = e\<rparr>))))))))"

interpretation link_wire: wire_format link_to_dict "\<lambda>d. value_of (link_from_dict d)" "\<lambda>l. l"
  by unfold_locales (simp add: link_from_dict_def link_to_dict_def field_simps_fmp)

interpretation business_wire: wire_format business_to_dict "\<lambda>d. value_of (business_from_dict d)" "\<lambda>b. b"
  by unfold_locales (simp add: business_from_dict_def business_to_dict_def field_simps_fmp b64_round_trip)

interpretation control_wire: wire_format control_to_dict "\<lambda>d. value_of (control_from_dict d)" "\<lambda>c. c"
  by unfold_locales (simp add: control_from_dict_def control_to_dict_def field_simps_fmp)

lemma value_of_Some: "value_of r = Some x \<longleftrightarrow> r = Inr x"
  by (cases r) simp_all

lemmas layer_wires =
  link_wire.dec_enc [unfolded value_of_Some] business_wire.dec_enc [unfolded value_of_Some]
  control_wire.dec_enc [unfolded value_of_Some]

interpretation message_wire: wire_format message_to_dict "\<lambda>d. value_of (message_from_dict d)" "\<lambda>m. m"
  by unfold_locales (simp add: message_from_dict_def message_to_dict_def field_simps_fmp layer_wires)

subsection \<open>Frames\<close>

text \<open>Network byte order, as \<open>struct\<close> packs it.\<close>

definition be32 :: "nat \<Rightarrow> byte list" where
  "be32 n = map word_of_nat [n div 16777216 mod 256, n div 65536 mod 256, n div 256 mod 256, n mod 256]"

definition of_be :: "byte list \<Rightarrow> nat" where
  "of_be bs = foldl (\<lambda>a b. 256 * a + unat b) 0 bs"

lemma length_be32 [simp]: "length (be32 n) = 4"
  by (simp add: be32_def)

lemma unat_byte [simp]: "n < 256 \<Longrightarrow> unat (word_of_nat n :: byte) = n"
  by (simp add: unat_of_nat)

lemma of_be_be32:
  assumes "n < 2 ^ 32"
  shows "of_be (be32 n) = n"
proof -
  have hi: "n div 16777216 < 256" using assms less_mult_imp_div_less [of n 256 16777216] by simp
  then have "n div 16777216 mod 256 = n div 16777216" by simp
  moreover have "256 * (256 * (256 * (n div 16777216) + n div 65536 mod 256) + n div 256 mod 256) + n mod 256 = n"
    using div_mult2_eq [of n 65536 256] div_mult2_eq [of n 256 256] mult_div_mod_eq [of 256 n]
      mult_div_mod_eq [of 256 "n div 256"] mult_div_mod_eq [of 256 "n div 65536"] by simp
  ultimately show ?thesis using hi by (simp add: of_be_def be32_def)
qed

definition FMP_MAGIC :: "byte list" where "FMP_MAGIC = [0x46, 0x4d, 0x50, 0x01]"
definition FMP_HEADER_SIZE :: nat where "FMP_HEADER_SIZE = 12"
definition FMP_VERSION :: byte where "FMP_VERSION = 1"
definition FMP_MAX_PAYLOAD_SIZE :: nat where "FMP_MAX_PAYLOAD_SIZE = 16 * 1024 * 1024"

text \<open>\<open>struct.pack("!4sBBIH", magic, version, flags, length, 0)\<close>: a length of 2^32 or more raises.\<close>

definition pack_header :: "byte list \<Rightarrow> byte \<Rightarrow> byte \<Rightarrow> nat \<Rightarrow> py_error + byte list" where
  "pack_header magic version flags len =
     (if len \<ge> 2 ^ 32 then Inl (ValueError ''struct.error'') else Inr (magic @ [version, flags] @ be32 len @ [0, 0]))"

text \<open>The checks of a received frame, in the order of the code; the result is the flags and the payload.\<close>

definition open_frame :: "byte list \<Rightarrow> byte \<Rightarrow> byte list \<Rightarrow> py_error + byte \<times> byte list" where
  "open_frame magic version data =
     (if length data < FMP_HEADER_SIZE then Inl (ValueError ''short'')
      else let len = of_be (take 4 (drop 6 data))
           in if take 4 data \<noteq> magic then Inl (ValueError ''magic'')
              else if data ! 4 \<noteq> version then Inl (ValueError ''version'')
              else if len > FMP_MAX_PAYLOAD_SIZE then Inl (ValueError ''payload size'')
              else if length data < FMP_HEADER_SIZE + len then Inl (ValueError ''incomplete'')
              else Inr (data ! 5, take len (drop FMP_HEADER_SIZE data)))"

lemma open_packed:
  assumes "pack_header magic version flags (length payload) = Inr h" "length magic = 4" "length payload \<le> FMP_MAX_PAYLOAD_SIZE"
  shows "open_frame magic version (h @ payload @ rest) = Inr (flags, payload)"
proof -
  obtain m1 m2 m3 m4 where m: "magic = [m1, m2, m3, m4]"
    using assms(2) by (auto simp: length_Suc_conv eval_nat_numeral)
  have h: "h = magic @ [version, flags] @ be32 (length payload) @ [0, 0]" and len: "length payload < 2 ^ 32"
    using assms(1) by (auto simp: pack_header_def split: if_splits)
  obtain b1 b2 b3 b4 where b: "be32 (length payload) = [b1, b2, b3, b4]" by (simp add: be32_def)
  have "of_be [b1, b2, b3, b4] = length payload" using of_be_be32 [OF len] b by simp
  then show ?thesis using assms(3) by (simp add: open_frame_def h b m FMP_HEADER_SIZE_def Let_def)
qed

text \<open>A frame that is accepted is accepted whatever follows it.\<close>

lemma open_frame_prefix:
  assumes "open_frame magic version data = Inr r"
  shows "open_frame magic version (data @ rest) = Inr r"
  using assms by (auto simp: open_frame_def FMP_HEADER_SIZE_def Let_def nth_append split: if_splits)

record codec =
  cd_dumps :: "json \<Rightarrow> byte list"
  cd_loads :: "byte list \<Rightarrow> json option"
  cd_msgpack :: "((json \<Rightarrow> byte list) \<times> (byte list \<Rightarrow> json option)) option"

text \<open>Python's \<open>flags & 0x02\<close> and \<open>flags & 0x01\<close>.\<close>

definition flag_set :: "byte \<Rightarrow> nat \<Rightarrow> bool" where
  "flag_set flags k = bit flags k"

definition encode_payload :: "codec \<Rightarrow> bool \<Rightarrow> json \<Rightarrow> byte \<times> byte list" where
  "encode_payload cd use_msgpack v =
     (case (if use_msgpack then cd_msgpack cd else None) of
        Some (packb, _) \<Rightarrow> (2, packb v) | None \<Rightarrow> (0, cd_dumps cd v))"

definition decode_payload :: "codec \<Rightarrow> bool \<Rightarrow> byte list \<Rightarrow> py_error + (string, json) dict" where
  "decode_payload cd is_msgpack bs =
     (let v = (if is_msgpack then (case cd_msgpack cd of None \<Rightarrow> None | Some (_, unpackb) \<Rightarrow> unpackb bs) else cd_loads cd bs)
      in case v of Some (JObj d) \<Rightarrow> Inr d | _ \<Rightarrow> Inl (ValueError ''payload''))"

definition serialize :: "codec \<Rightarrow> bool \<Rightarrow> fmp_message \<Rightarrow> py_error + byte list" where
  "serialize cd use_msgpack m =
     (let (fl, payload) = encode_payload cd use_msgpack (JObj (message_to_dict m));
          flags = (if fm_encrypted m then fl + 1 else fl)
      in and_then (pack_header FMP_MAGIC FMP_VERSION flags (length payload)) (\<lambda>h. Inr (h @ payload)))"

definition deserialize :: "codec \<Rightarrow> byte list \<Rightarrow> py_error + fmp_message" where
  "deserialize cd data =
     and_then (open_frame FMP_MAGIC FMP_VERSION data) (\<lambda>(flags, payload).
     and_then (decode_payload cd (flag_set flags 1) payload) (\<lambda>d.
       message_from_dict (dset d ''encrypted'' (JBool (flag_set flags 0)))))"

text \<open>The text formats give back what they were given: asked of the one dictionary that is sent.\<close>

definition codec_ok :: "codec \<Rightarrow> json \<Rightarrow> bool" where
  "codec_ok cd v \<longleftrightarrow>
     cd_loads cd (cd_dumps cd v) = Some v \<and>
     (case cd_msgpack cd of None \<Rightarrow> True | Some (packb, unpackb) \<Rightarrow> unpackb (packb v) = Some v)"

lemma decode_encode:
  assumes "codec_ok cd (JObj d)" "encode_payload cd use (JObj d) = (fl, payload)"
  shows "fl \<in> {0, 2} \<and> decode_payload cd (fl = 2) payload = Inr d"
  using assms
  by (cases use; cases "cd_msgpack cd")
     (auto simp: codec_ok_def encode_payload_def decode_payload_def)

lemma flags_of_frame:
  "fl \<in> {0, 2} \<Longrightarrow> flag_set (if e then fl + 1 else fl) 1 \<longleftrightarrow> fl = 2"
  "fl \<in> {0, 2} \<Longrightarrow> flag_set (if e then fl + 1 else fl) 0 \<longleftrightarrow> e"
  by (auto simp: flag_set_def)

lemma message_encrypted_again: "dset (message_to_dict m) ''encrypted'' (JBool (fm_encrypted m)) = message_to_dict m"
  by (simp add: message_to_dict_def)

lemma serialize_parts:
  assumes "codec_ok cd (JObj (message_to_dict m))" "serialize cd use_msgpack m = Inr bs"
  obtains fl payload where "fl \<in> {0, 2}" "decode_payload cd (fl = 2) payload = Inr (message_to_dict m)"
    "length payload < 2 ^ 32" "length bs = FMP_HEADER_SIZE + length payload"
    "bs = FMP_MAGIC @ [FMP_VERSION, if fm_encrypted m then fl + 1 else fl] @ be32 (length payload) @ [0, 0] @ payload"
proof -
  obtain fl payload where e: "encode_payload cd use_msgpack (JObj (message_to_dict m)) = (fl, payload)" by fastforce
  then have p: "length payload < 2 ^ 32 \<and>
      bs = FMP_MAGIC @ [FMP_VERSION, if fm_encrypted m then fl + 1 else fl] @ be32 (length payload) @ [0, 0] @ payload"
    using assms(2) by (auto simp: serialize_def pack_header_def and_then_Inr split: if_splits)
  then have "length bs = FMP_HEADER_SIZE + length payload" by (auto simp: FMP_MAGIC_def FMP_HEADER_SIZE_def)
  with p show thesis using decode_encode [OF assms(1) e] that [of fl payload] by blast
qed

lemma open_sent:
  "length payload \<le> FMP_MAX_PAYLOAD_SIZE \<Longrightarrow> length payload < 2 ^ 32 \<Longrightarrow>
   open_frame FMP_MAGIC version ((FMP_MAGIC @ [version, flags] @ be32 (length payload) @ [0, 0] @ payload) @ rest) = Inr (flags, payload)"
  using open_packed [of FMP_MAGIC version flags payload "FMP_MAGIC @ [version, flags] @ be32 (length payload) @ [0, 0]" rest]
  by (simp add: pack_header_def FMP_MAGIC_def)

lemma deserialize_sent:
  assumes "codec_ok cd (JObj (message_to_dict m))" "serialize cd use_msgpack m = Inr bs"
    and "length bs \<le> FMP_HEADER_SIZE + FMP_MAX_PAYLOAD_SIZE"
  shows "deserialize cd (bs @ rest) = Inr m"
proof -
  obtain fl payload where f: "fl \<in> {0, 2}" "decode_payload cd (fl = 2) payload = Inr (message_to_dict m)"
    "length payload < 2 ^ 32" "length bs = FMP_HEADER_SIZE + length payload"
    "bs = FMP_MAGIC @ [FMP_VERSION, if fm_encrypted m then fl + 1 else fl] @ be32 (length payload) @ [0, 0] @ payload"
    using serialize_parts [OF assms(1,2)] .
  have "open_frame FMP_MAGIC FMP_VERSION (bs @ rest) = Inr (if fm_encrypted m then fl + 1 else fl, payload)"
    unfolding f(5) using f(3,4) assms(3) by (intro open_sent) simp_all
  then show ?thesis
    using f(2) message_wire.dec_enc [of m] flags_of_frame [OF f(1), of "fm_encrypted m"] message_encrypted_again [of m]
    by (simp add: deserialize_def value_of_Some)
qed

text \<open>C28: A message survives the wire: the frame of a message, in either text format and with any bytes after
  it, is read back as that message, its payload and its mark of encryption included, as long as its text is
  no longer than 16 MiB.  A longer text is still sent, and refused by every receiver.\<close>

theorem fmp_frame_round_trip:
  assumes "codec_ok cd (JObj (message_to_dict m))" and "serialize cd use_msgpack m = Inr bs"
  shows "deserialize cd (bs @ rest) =
           (if length bs \<le> FMP_HEADER_SIZE + FMP_MAX_PAYLOAD_SIZE then Inr m else Inl (ValueError ''payload size''))"
proof (cases "length bs \<le> FMP_HEADER_SIZE + FMP_MAX_PAYLOAD_SIZE")
  case False
  obtain fl payload where f: "length payload < 2 ^ 32" "length bs = FMP_HEADER_SIZE + length payload"
    "bs = FMP_MAGIC @ [FMP_VERSION, if fm_encrypted m then fl + 1 else fl] @ be32 (length payload) @ [0, 0] @ payload"
    using serialize_parts [OF assms] by metis
  obtain b1 b2 b3 b4 where b: "be32 (length payload) = [b1, b2, b3, b4]" by (simp add: be32_def)
  have "of_be [b1, b2, b3, b4] = length payload" using of_be_be32 [OF f(1)] b by simp
  then have "open_frame FMP_MAGIC FMP_VERSION (bs @ rest) = Inl (ValueError ''payload size'')"
    using False f(2) by (simp add: open_frame_def f(3) b FMP_MAGIC_def FMP_HEADER_SIZE_def Let_def)
  then show ?thesis using False by (simp add: deserialize_def)
qed (use deserialize_sent [OF assms] in simp)

lemma codec_ok_demo: "codec_ok \<lparr>cd_dumps = (\<lambda>_. [0x7b]), cd_loads = (\<lambda>_. Some v), cd_msgpack = None\<rparr> v"
  by (simp add: codec_ok_def)

definition demo_fmp :: fmp_message where
  "demo_fmp =
     \<lparr>fm_id = ''fmp_1'', fm_link = \<lparr>fl_source = ''a'', fl_target = ''b'', fl_hops = 0, fl_max_hops = 3, fl_trace = []\<rparr>,
      fm_business = \<lparr>fb_type = PT_ACK, fb_payload = [1, 2, 255], fb_round_id = ''fmp_1'', fb_round = 0, fb_max_rounds = 10\<rparr>,
      fm_control = \<lparr>fc_type = CT_ACK, fc_sequence = 7, fc_timestamp = 1, fc_ack_seq = 0, fc_flow_window = 64\<rparr>,
      fm_encrypted = True\<rparr>"

theorem fmp_frame_round_trip_witness:
  "\<exists>cd bs. serialize cd False demo_fmp = Inr bs \<and> deserialize cd (bs @ [9, 9]) = Inr demo_fmp"
proof -
  let ?cd = "\<lparr>cd_dumps = (\<lambda>_. [0x7b]), cd_loads = (\<lambda>_. Some (JObj (message_to_dict demo_fmp))), cd_msgpack = None\<rparr>"
  have s: "serialize ?cd False demo_fmp = Inr (FMP_MAGIC @ [1, 1, 0, 0, 0, 1, 0, 0, 0x7b])"
    by (simp add: serialize_def encode_payload_def pack_header_def be32_def FMP_VERSION_def demo_fmp_def)
  from fmp_frame_round_trip [OF codec_ok_demo s, of "[9, 9]"] s show ?thesis
    by (intro exI [of _ ?cd] exI [of _ "FMP_MAGIC @ [1, 1, 0, 0, 0, 1, 0, 0, 0x7b]"])
       (simp add: FMP_MAGIC_def FMP_HEADER_SIZE_def FMP_MAX_PAYLOAD_SIZE_def)
qed

subsection \<open>Creation\<close>

text \<open>\<open>FMPMessage.create\<close>: the drawn id and sequence number and the clock are parameters.\<close>

definition create_message ::
  "string \<Rightarrow> int \<Rightarrow> time \<Rightarrow> string \<Rightarrow> string \<Rightarrow> payload_type \<Rightarrow> byte list \<Rightarrow> control_type \<Rightarrow> string \<Rightarrow> fmp_message" where
  "create_message msg_id sq now source target pt raw ct round_id =
     \<lparr>fm_id = msg_id,
      fm_link = \<lparr>fl_source = source, fl_target = target, fl_hops = 0, fl_max_hops = MAX_HOP_COUNT, fl_trace = []\<rparr>,
      fm_business = \<lparr>fb_type = pt, fb_payload = raw, fb_round_id = str_or round_id msg_id, fb_round = 0, fb_max_rounds = MAX_ROUNDS\<rparr>,
      fm_control = \<lparr>fc_type = ct, fc_sequence = sq, fc_timestamp = now, fc_ack_seq = 0, fc_flow_window = 64\<rparr>,
      fm_encrypted = False\<rparr>"

record kv_sync =
  ks_cache_id :: string
  ks_model_name :: string
  ks_source_node_id :: string
  ks_size_mb :: real
  ks_protocol :: string

definition kv_sync_to_dict :: "kv_sync \<Rightarrow> (string, json) dict" where
  "kv_sync_to_dict k =
     [(''cache_id'', JStr (ks_cache_id k)), (''model_name'', JStr (ks_model_name k)),
      (''source_node_id'', JStr (ks_source_node_id k)), (''size_mb'', JReal (ks_size_mb k)), (''protocol'', JStr (ks_protocol k))]"

definition kv_sync_from_dict :: "(string, json) dict \<Rightarrow> py_error + kv_sync" where
  "kv_sync_from_dict d =
     and_then (need as_text d ''cache_id'') (\<lambda>i.
     and_then (need as_text d ''model_name'') (\<lambda>m.
     and_then (need as_text d ''source_node_id'') (\<lambda>s.
     and_then (need as_real d ''size_mb'') (\<lambda>z.
     and_then (want as_text d ''protocol'' ''fmp'') (\<lambda>p.
       Inr \<lparr>ks_cache_id = i, ks_model_name = m, ks_source_node_id = s, ks_size_mb = z, ks_protocol = p\<rparr>)))))"

interpretation kv_sync_wire: wire_format kv_sync_to_dict "\<lambda>d. value_of (kv_sync_from_dict d)" "\<lambda>k. k"
  by unfold_locales (simp add: kv_sync_from_dict_def kv_sync_to_dict_def field_simps_fmp)

subsection \<open>Encryption\<close>

text \<open>AES-GCM: key, nonce, text and associated data; decryption fails on a wrong tag.\<close>

record aead =
  ae_encrypt :: "byte list \<Rightarrow> byte list \<Rightarrow> byte list \<Rightarrow> string \<Rightarrow> byte list"
  ae_decrypt :: "byte list \<Rightarrow> byte list \<Rightarrow> byte list \<Rightarrow> string \<Rightarrow> byte list option"

text \<open>\<open>FMPCrypto(key)\<close>; an empty key stands for None.\<close>

definition crypto_init :: "byte list \<Rightarrow> py_error + byte list" where
  "crypto_init key = (if key \<noteq> [] \<and> length key \<noteq> 32 then Inl (ValueError ''key'') else Inr key)"

definition encrypt :: "aead \<Rightarrow> byte list \<Rightarrow> byte list \<Rightarrow> byte list \<Rightarrow> string \<Rightarrow> py_error + byte list" where
  "encrypt ae key nonce plain aad =
     (if key = [] then Inl (RuntimeError ''no key'') else Inr (nonce @ ae_encrypt ae key nonce plain aad))"

definition decrypt :: "aead \<Rightarrow> byte list \<Rightarrow> byte list \<Rightarrow> string \<Rightarrow> py_error + byte list" where
  "decrypt ae key data aad =
     (if key = [] then Inl (RuntimeError ''no key'')
      else case ae_decrypt ae key (take 12 data) (drop 12 data) aad of
             None \<Rightarrow> Inl (RuntimeError ''InvalidTag'') | Some p \<Rightarrow> Inr p)"

definition link_aad :: "fmp_link \<Rightarrow> string" where
  "link_aad l = fl_source l @ '':'' @ fl_target l"

definition encrypt_message :: "aead \<Rightarrow> byte list \<Rightarrow> byte list \<Rightarrow> fmp_message \<Rightarrow> py_error + fmp_message" where
  "encrypt_message ae key nonce m =
     and_then (encrypt ae key nonce (fb_payload (fm_business m)) (link_aad (fm_link m))) (\<lambda>ct.
       Inr (m\<lparr>fm_business := (fm_business m)\<lparr>fb_payload := ct\<rparr>, fm_encrypted := True\<rparr>))"

definition decrypt_message :: "aead \<Rightarrow> byte list \<Rightarrow> fmp_message \<Rightarrow> py_error + fmp_message" where
  "decrypt_message ae key m =
     (if \<not> fm_encrypted m then Inr m
      else and_then (decrypt ae key (fb_payload (fm_business m)) (link_aad (fm_link m))) (\<lambda>p.
             Inr (m\<lparr>fm_business := (fm_business m)\<lparr>fb_payload := p\<rparr>, fm_encrypted := False\<rparr>)))"

text \<open>The law of an authenticated cipher, asked of one text: it opens with its associated data and no other.\<close>

definition seals :: "aead \<Rightarrow> byte list \<Rightarrow> byte list \<Rightarrow> byte list \<Rightarrow> string \<Rightarrow> bool" where
  "seals ae key nonce p a \<longleftrightarrow>
     (\<forall>a'. ae_decrypt ae key nonce (ae_encrypt ae key nonce p a) a' = (if a' = a then Some p else None))"

text \<open>A sealed message opens at its receiver, after the wire as well, and with no other pair of source and
  target: one that was redirected is refused.  What is not marked as encrypted passes as it is, so the
  mark, which the frame carries in the clear, decides whether a message is authenticated at all.\<close>

theorem sealed_message:
  assumes law: "seals ae key nonce (fb_payload (fm_business m)) (link_aad (fm_link m))" and n: "length nonce = 12"
    and enc: "encrypt_message ae key nonce m = Inr m'"
    and wire: "codec_ok cd (JObj (message_to_dict m'))" "serialize cd use_msgpack m' = Inr bs"
      "length bs \<le> FMP_HEADER_SIZE + FMP_MAX_PAYLOAD_SIZE"
  shows "and_then (deserialize cd bs) (decrypt_message ae key) = Inr (m\<lparr>fm_encrypted := False\<rparr>) \<and>
         (\<forall>l. link_aad l \<noteq> link_aad (fm_link m) \<longrightarrow>
            decrypt_message ae key (m'\<lparr>fm_link := l\<rparr>) = Inl (RuntimeError ''InvalidTag'')) \<and>
         decrypt_message ae key (m'\<lparr>fm_encrypted := False\<rparr>) = Inr (m'\<lparr>fm_encrypted := False\<rparr>)"
proof -
  have k: "key \<noteq> []" and m': "m' = m\<lparr>fm_business := (fm_business m)\<lparr>fb_payload := nonce @ ae_encrypt ae key nonce
      (fb_payload (fm_business m)) (link_aad (fm_link m))\<rparr>, fm_encrypted := True\<rparr>"
    using enc by (auto simp: encrypt_message_def encrypt_def split: if_splits)
  have "deserialize cd bs = Inr m'" using deserialize_sent [OF wire, of "[]"] by simp
  then show ?thesis using law n k by (simp add: m' decrypt_message_def decrypt_def seals_def)
qed

text \<open>A cipher that carries its associated data in front of the text.\<close>

definition demo_aead :: aead where
  "demo_aead =
     \<lparr>ae_encrypt = (\<lambda>key nonce p a. word_of_nat (length a) # map (\<lambda>c. word_of_nat (of_char c)) a @ p),
      ae_decrypt = (\<lambda>key nonce ct a. if ct \<noteq> [] \<and> hd ct = word_of_nat (length a) \<and> length a < 256 \<and>
        take (length a) (tl ct) = map (\<lambda>c. word_of_nat (of_char c)) a then Some (drop (length a) (tl ct)) else None)\<rparr>"

lemma char_byte_inj: "word_of_nat (of_char c) = (word_of_nat (of_char d) :: byte) \<Longrightarrow> c = d"
proof -
  assume "word_of_nat (of_char c) = (word_of_nat (of_char d) :: byte)"
  then have "unat (word_of_nat (of_char c) :: byte) = unat (word_of_nat (of_char d) :: byte)" by simp
  then have "(of_char c :: nat) = of_char d" by simp
  then show "c = d" by (metis char_of_char)
qed

lemma demo_seals: "length a < 256 \<Longrightarrow> seals demo_aead key nonce p a"
proof -
  assume a: "length a < 256"
  have inj: "inj (\<lambda>c. word_of_nat (of_char c) :: byte)" by (rule injI) (rule char_byte_inj)
  have "length a' = length a" if "word_of_nat (length a) = (word_of_nat (length a') :: byte)" "length a' < 256" for a' :: string
  proof -
    have "unat (word_of_nat (length a) :: byte) = unat (word_of_nat (length a') :: byte)" using that(1) by simp
    then show ?thesis using a that(2) by simp
  qed
  then show ?thesis
    using a map_injective [OF _ inj] by (auto simp: seals_def demo_aead_def)
qed

theorem sealed_message_witness:
  "\<exists>cd bs key m'. and_then (deserialize cd bs) (decrypt_message demo_aead key) = Inr (demo_fmp\<lparr>fm_encrypted := False\<rparr>)"
proof -
  let ?key = "replicate 32 (0 :: byte)" and ?nonce = "replicate 12 (0 :: byte)"
  obtain m' where m': "encrypt_message demo_aead ?key ?nonce demo_fmp = Inr m'"
    by (simp add: encrypt_message_def encrypt_def)
  then have e: "fm_encrypted m'" by (auto simp: encrypt_message_def encrypt_def)
  let ?cd = "\<lparr>cd_dumps = (\<lambda>_. [0x7b]), cd_loads = (\<lambda>_. Some (JObj (message_to_dict m'))), cd_msgpack = None\<rparr>"
  let ?bs = "FMP_MAGIC @ [1, 1, 0, 0, 0, 1, 0, 0, 0x7b]"
  have s: "serialize ?cd False m' = Inr ?bs"
    by (simp add: serialize_def encode_payload_def pack_header_def be32_def FMP_VERSION_def e)
  have "seals demo_aead ?key ?nonce (fb_payload (fm_business demo_fmp)) (link_aad (fm_link demo_fmp))"
    by (rule demo_seals) (simp add: link_aad_def demo_fmp_def)
  from sealed_message [OF this _ m' codec_ok_demo s] show ?thesis
    by (auto simp: FMP_MAGIC_def FMP_HEADER_SIZE_def FMP_MAX_PAYLOAD_SIZE_def)
qed

end
