(* ===== verification/FmpProto.thy ===== *)
theory FmpProto
  imports FmpCodec
begin

text \<open>
  The second version of the protocol (\<open>protocol/fmp_protobuf.py\<close>): envelope, control and payload with numbered
  types, their dictionaries, the structured encoding with its 32 bit fields, and the fall back to msgpack or
  JSON when the encoding fails.  The protobuf runtime turns a frame of fields into bytes and back; it is a
  parameter, and so are the fresh id and the clock that fill empty fields of a new object.
\<close>

datatype proto_type =
    P_HEARTBEAT | P_REGISTER | P_TASK_ASSIGN | P_TASK_RESULT | P_TASK_CANCEL | P_KV_TRANSFER | P_KV_LOOKUP
  | P_FAULT_REPORT | P_CHAT_COMPLETION | P_EMBEDDING | P_CONTROL | P_ACK | P_NACK | P_ELECTION | P_ELECTION_VOTE
  | P_STATE_SYNC | P_APPROVAL_REQUEST | P_APPROVAL_RESPONSE | P_DEGRADE_TASK | P_CLOUD_FALLBACK | P_DATA_SYNC

fun proto_value :: "proto_type \<Rightarrow> int" where
  "proto_value P_HEARTBEAT = 0" | "proto_value P_REGISTER = 1" | "proto_value P_TASK_ASSIGN = 2"
| "proto_value P_TASK_RESULT = 3" | "proto_value P_TASK_CANCEL = 4" | "proto_value P_KV_TRANSFER = 5"
| "proto_value P_KV_LOOKUP = 6" | "proto_value P_FAULT_REPORT = 7" | "proto_value P_CHAT_COMPLETION = 8"
| "proto_value P_EMBEDDING = 9" | "proto_value P_CONTROL = 10" | "proto_value P_ACK = 11" | "proto_value P_NACK = 12"
| "proto_value P_ELECTION = 13" | "proto_value P_ELECTION_VOTE = 14" | "proto_value P_STATE_SYNC = 15"
| "proto_value P_APPROVAL_REQUEST = 16" | "proto_value P_APPROVAL_RESPONSE = 17" | "proto_value P_DEGRADE_TASK = 18"
| "proto_value P_CLOUD_FALLBACK = 19" | "proto_value P_DATA_SYNC = 24"

definition PROTO_TYPES :: "proto_type list" where
  "PROTO_TYPES =
     [P_HEARTBEAT, P_REGISTER, P_TASK_ASSIGN, P_TASK_RESULT, P_TASK_CANCEL, P_KV_TRANSFER, P_KV_LOOKUP,
      P_FAULT_REPORT, P_CHAT_COMPLETION, P_EMBEDDING, P_CONTROL, P_ACK, P_NACK, P_ELECTION, P_ELECTION_VOTE,
      P_STATE_SYNC, P_APPROVAL_REQUEST, P_APPROVAL_RESPONSE, P_DEGRADE_TASK, P_CLOUD_FALLBACK, P_DATA_SYNC]"

datatype control_code =
  C_HEARTBEAT | C_ACK | C_NACK | C_FLOW_CONTROL | C_DISCONNECT | C_ELECTION_START | C_ELECTION_VOTE
| C_STATE_SYNC_REQ | C_STATE_SYNC_RESP

fun code_value :: "control_code \<Rightarrow> int" where
  "code_value C_HEARTBEAT = 0" | "code_value C_ACK = 1" | "code_value C_NACK = 2" | "code_value C_FLOW_CONTROL = 3"
| "code_value C_DISCONNECT = 4" | "code_value C_ELECTION_START = 5" | "code_value C_ELECTION_VOTE = 6"
| "code_value C_STATE_SYNC_REQ = 7" | "code_value C_STATE_SYNC_RESP = 8"

definition CONTROL_CODES :: "control_code list" where
  "CONTROL_CODES =
     [C_HEARTBEAT, C_ACK, C_NACK, C_FLOW_CONTROL, C_DISCONNECT, C_ELECTION_START, C_ELECTION_VOTE, C_STATE_SYNC_REQ, C_STATE_SYNC_RESP]"

lemma member_of_number [field_simps_fmp]:
  "member_of proto_value PROTO_TYPES (proto_value t) = Inr t" "member_of code_value CONTROL_CODES (code_value cc) = Inr cc"
  by (cases t; simp add: member_of_def PROTO_TYPES_def) (cases cc; simp add: member_of_def CONTROL_CODES_def)

record proto_env =
  pe_source :: string
  pe_target :: string
  pe_hops :: int
  pe_max_hops :: int
  pe_trace :: "string list"
  pe_message_id :: string
  pe_timestamp :: time
  pe_sequence :: int

record proto_control =
  px_code :: control_code
  px_sequence :: int
  px_timestamp :: time
  px_ack_seq :: int
  px_flow_window :: int
  px_reason :: string

record proto_payload =
  pp_type :: proto_type
  pp_data :: "byte list"
  pp_round_id :: string
  pp_round :: int
  pp_max_rounds :: int
  pp_compressed :: bool

record proto_message =
  pm_envelope :: proto_env
  pm_control :: proto_control
  pm_payload :: proto_payload
  pm_encrypted :: bool

text \<open>\<open>__post_init__\<close>: an empty id and a zero time are filled in.\<close>

definition env_post_init :: "string \<Rightarrow> time \<Rightarrow> proto_env \<Rightarrow> proto_env" where
  "env_post_init fresh now e =
     e\<lparr>pe_message_id := str_or (pe_message_id e) fresh, pe_timestamp := (if pe_timestamp e = 0 then now else pe_timestamp e)\<rparr>"

definition control_post_init :: "time \<Rightarrow> proto_control \<Rightarrow> proto_control" where
  "control_post_init now c = c\<lparr>px_timestamp := (if px_timestamp c = 0 then now else px_timestamp c)\<rparr>"

definition env_can_forward :: "proto_env \<Rightarrow> bool" where
  "env_can_forward e \<longleftrightarrow> pe_hops e < pe_max_hops e"

definition env_forward :: "string \<Rightarrow> proto_env \<Rightarrow> py_error + proto_env" where
  "env_forward next_node e =
     (if \<not> env_can_forward e then Inl (ValueError ''hop_count'')
      else Inr (e\<lparr>pe_hops := pe_hops e + 1, pe_trace := pe_trace e @ [next_node]\<rparr>))"

definition payload_next_round :: "proto_payload \<Rightarrow> py_error + proto_payload" where
  "payload_next_round p =
     (if \<not> pp_round p < pp_max_rounds p then Inl (ValueError ''round_number'') else Inr (p\<lparr>pp_round := pp_round p + 1\<rparr>))"

definition env_to_dict :: "proto_env \<Rightarrow> (string, json) dict" where
  "env_to_dict e =
     [(''source_id'', JStr (pe_source e)), (''target_id'', JStr (pe_target e)), (''hop_count'', JInt (pe_hops e)),
      (''max_hops'', JInt (pe_max_hops e)), (''trace'', JList (map JStr (pe_trace e))), (''message_id'', JStr (pe_message_id e)),
      (''timestamp'', JReal (pe_timestamp e)), (''sequence'', JInt (pe_sequence e))]"

definition env_from_dict :: "string \<Rightarrow> time \<Rightarrow> (string, json) dict \<Rightarrow> py_error + proto_env" where
  "env_from_dict fresh now d =
     and_then (need as_text d ''source_id'') (\<lambda>s.
     and_then (need as_text d ''target_id'') (\<lambda>t.
     and_then (want as_int d ''hop_count'' 0) (\<lambda>h.
     and_then (want as_int d ''max_hops'' 3) (\<lambda>m.
     and_then (want as_texts d ''trace'' []) (\<lambda>tr.
     and_then (want as_text d ''message_id'' []) (\<lambda>i.
     and_then (want as_real d ''timestamp'' 0) (\<lambda>ts.
     and_then (want as_int d ''sequence'' 0) (\<lambda>sq.
       Inr (env_post_init fresh now \<lparr>pe_source = s, pe_target = t, pe_hops = h, pe_max_hops = m, pe_trace = tr,
         pe_message_id = i, pe_timestamp = ts, pe_sequence = sq\<rparr>)))))))))"

definition pcontrol_to_dict :: "proto_control \<Rightarrow> (string, json) dict" where
  "pcontrol_to_dict c =
     [(''code'', JInt (code_value (px_code c))), (''sequence'', JInt (px_sequence c)), (''timestamp'', JReal (px_timestamp c)),
      (''ack_seq'', JInt (px_ack_seq c)), (''flow_window'', JInt (px_flow_window c)), (''reason'', JStr (px_reason c))]"

definition pcontrol_from_dict :: "time \<Rightarrow> (string, json) dict \<Rightarrow> py_error + proto_control" where
  "pcontrol_from_dict now d =
     and_then (need as_int d ''code'') (\<lambda>n.
     and_then (member_of code_value CONTROL_CODES n) (\<lambda>cc.
     and_then (want as_int d ''sequence'' 0) (\<lambda>sq.
     and_then (want as_real d ''timestamp'' 0) (\<lambda>ts.
     and_then (want as_int d ''ack_seq'' 0) (\<lambda>ak.
     and_then (want as_int d ''flow_window'' 64) (\<lambda>fw.
     and_then (want as_text d ''reason'' []) (\<lambda>rs.
       Inr (control_post_init now \<lparr>px_code = cc, px_sequence = sq, px_timestamp = ts, px_ack_seq = ak,
         px_flow_window = fw, px_reason = rs\<rparr>))))))))"

definition payload_to_dict :: "proto_payload \<Rightarrow> (string, json) dict" where
  "payload_to_dict p =
     [(''payload_type'', JInt (proto_value (pp_type p))), (''data'', JStr (b64encode (pp_data p))),
      (''round_id'', JStr (pp_round_id p)), (''round_number'', JInt (pp_round p)), (''max_rounds'', JInt (pp_max_rounds p)),
      (''compressed'', JBool (pp_compressed p))]"

definition payload_from_dict :: "(string, json) dict \<Rightarrow> py_error + proto_payload" where
  "payload_from_dict d =
     and_then (need as_text d ''data'') (\<lambda>raw.
     and_then (case b64decode raw of None \<Rightarrow> Inl (ValueError ''base64'') | Some bs \<Rightarrow> Inr bs) (\<lambda>bs.
     and_then (need as_int d ''payload_type'') (\<lambda>n.
     and_then (member_of proto_value PROTO_TYPES n) (\<lambda>pt.
     and_then (want as_text d ''round_id'' []) (\<lambda>ri.
     and_then (want as_int d ''round_number'' 0) (\<lambda>rn.
     and_then (want as_int d ''max_rounds'' 10) (\<lambda>mr.
     and_then (want as_bool d ''compressed'' False) (\<lambda>cp.
       Inr \<lparr>pp_type = pt, pp_data = bs, pp_round_id = ri, pp_round = rn, pp_max_rounds = mr, pp_compressed = cp\<rparr>))))))))"

definition proto_to_dict :: "proto_message \<Rightarrow> (string, json) dict" where
  "proto_to_dict m =
     [(''envelope'', JObj (env_to_dict (pm_envelope m))), (''control'', JObj (pcontrol_to_dict (pm_control m))),
      (''payload'', JObj (payload_to_dict (pm_payload m))), (''encrypted'', JBool (pm_encrypted m))]"

definition proto_from_dict :: "string \<Rightarrow> time \<Rightarrow> (string, json) dict \<Rightarrow> py_error + proto_message" where
  "proto_from_dict fresh now d =
     and_then (need as_obj d ''envelope'') (\<lambda>ed. and_then (env_from_dict fresh now ed) (\<lambda>e.
     and_then (need as_obj d ''control'') (\<lambda>cd. and_then (pcontrol_from_dict now cd) (\<lambda>c.
     and_then (need as_obj d ''payload'') (\<lambda>pd. and_then (payload_from_dict pd) (\<lambda>p.
     and_then (want as_bool d ''encrypted'' False) (\<lambda>b.
       Inr \<lparr>pm_envelope = e, pm_control = c, pm_payload = p, pm_encrypted = b\<rparr>)))))))"

interpretation env_wire: wire_format env_to_dict "\<lambda>d. value_of (env_from_dict fresh now d)" "env_post_init fresh now"
  by unfold_locales (simp add: env_from_dict_def env_to_dict_def env_post_init_def field_simps_fmp)

interpretation pcontrol_wire: wire_format pcontrol_to_dict "\<lambda>d. value_of (pcontrol_from_dict now d)" "control_post_init now"
  by unfold_locales (simp add: pcontrol_from_dict_def pcontrol_to_dict_def control_post_init_def field_simps_fmp)

interpretation payload_wire: wire_format payload_to_dict "\<lambda>d. value_of (payload_from_dict d)" "\<lambda>p. p"
  by unfold_locales (simp add: payload_from_dict_def payload_to_dict_def field_simps_fmp b64_round_trip)

lemmas proto_layer_wires =
  env_wire.dec_enc [unfolded value_of_Some] pcontrol_wire.dec_enc [unfolded value_of_Some]
  payload_wire.dec_enc [unfolded value_of_Some]

interpretation proto_wire: wire_format proto_to_dict "\<lambda>d. value_of (proto_from_dict fresh now d)"
  "\<lambda>m. m\<lparr>pm_envelope := env_post_init fresh now (pm_envelope m), pm_control := control_post_init now (pm_control m)\<rparr>"
  by unfold_locales (simp add: proto_from_dict_def proto_to_dict_def field_simps_fmp proto_layer_wires)

subsection \<open>The structured encoding\<close>

text \<open>The fields of \<open>FMPFrame\<close> (\<open>fmp.proto\<close>): numbers are \<open>int32\<close>, and a number out of its range raises.\<close>

record pframe =
  pf_env :: proto_env
  pf_code :: int
  pf_control :: "int \<times> time \<times> int \<times> int \<times> string"
  pf_type :: int
  pf_data :: "byte list"
  pf_rounds :: "string \<times> int \<times> int \<times> bool"
  pf_encrypted :: bool
  pf_json :: "byte list"

definition in_int32 :: "int \<Rightarrow> bool" where
  "in_int32 i \<longleftrightarrow> - (2 ^ 31) \<le> i \<and> i < 2 ^ 31"

definition numbers_fit :: "proto_message \<Rightarrow> bool" where
  "numbers_fit m \<longleftrightarrow>
     list_all in_int32
       [pe_hops (pm_envelope m), pe_max_hops (pm_envelope m), pe_sequence (pm_envelope m), code_value (px_code (pm_control m)),
        px_sequence (pm_control m), px_ack_seq (pm_control m), px_flow_window (pm_control m), proto_value (pp_type (pm_payload m)),
        pp_round (pm_payload m), pp_max_rounds (pm_payload m)]"

definition ascii :: "string \<Rightarrow> byte list" where
  "ascii s = map (\<lambda>c. word_of_nat (of_char c)) s"

text \<open>\<open>_try_protobuf_encode\<close> takes the data from the dictionary, where it is base 64 text, and stores the
  bytes of that text.\<close>

definition frame_of :: "proto_message \<Rightarrow> pframe option" where
  "frame_of m =
     (let c = pm_control m; p = pm_payload m
      in if \<not> numbers_fit m then None
         else Some \<lparr>pf_env = pm_envelope m, pf_code = code_value (px_code c),
            pf_control = (px_sequence c, px_timestamp c, px_ack_seq c, px_flow_window c, px_reason c),
            pf_type = proto_value (pp_type p), pf_data = ascii (b64encode (pp_data p)),
            pf_rounds = (pp_round_id p, pp_round p, pp_max_rounds p, pp_compressed p),
            pf_encrypted = pm_encrypted m, pf_json = []\<rparr>)"

definition frame_to_dict :: "codec \<Rightarrow> pframe \<Rightarrow> (string, json) dict option" where
  "frame_to_dict cd f =
     (if pf_json f \<noteq> [] \<and> pf_data f = []
      then (case cd_loads cd (pf_json f) of Some (JObj d) \<Rightarrow> Some d | _ \<Rightarrow> None)
      else let (sq, ts, ak, fw, rs) = pf_control f; (ri, rn, mr, cp) = pf_rounds f
           in Some [(''envelope'', JObj (env_to_dict (pf_env f))),
             (''control'', JObj [(''code'', JInt (pf_code f)), (''sequence'', JInt sq), (''timestamp'', JReal ts),
                (''ack_seq'', JInt ak), (''flow_window'', JInt fw), (''reason'', JStr rs)]),
             (''payload'', JObj [(''payload_type'', JInt (pf_type f)), (''data'', JStr (b64encode (pf_data f))),
                (''round_id'', JStr ri), (''round_number'', JInt rn), (''max_rounds'', JInt mr), (''compressed'', JBool cp)]),
             (''encrypted'', JBool (pf_encrypted f))])"

text \<open>The protobuf runtime, None where it is not installed.\<close>

type_synonym protobuf = "((pframe \<Rightarrow> byte list) \<times> (byte list \<Rightarrow> pframe option)) option"

definition FMP_PROTO_MAGIC :: "byte list" where "FMP_PROTO_MAGIC = [0x46, 0x4d, 0x50, 0x02]"
definition FMP_PROTO_VERSION :: byte where "FMP_PROTO_VERSION = 2"

text \<open>The payload of the frame and the flags other than the mark of encryption.\<close>

definition proto_body :: "codec \<Rightarrow> protobuf \<Rightarrow> proto_message \<Rightarrow> byte \<times> byte list" where
  "proto_body cd pb m =
     (case (pb, frame_of m) of
        (Some (enc, _), Some f) \<Rightarrow> (4, enc f)
      | _ \<Rightarrow> encode_payload cd True (JObj (proto_to_dict m)))"

definition proto_serialize :: "codec \<Rightarrow> protobuf \<Rightarrow> proto_message \<Rightarrow> py_error + byte list" where
  "proto_serialize cd pb m =
     (let (fl, payload) = proto_body cd pb m;
          flags = (if pm_encrypted m then fl + 1 else fl)
      in and_then (pack_header FMP_PROTO_MAGIC FMP_PROTO_VERSION flags (length payload)) (\<lambda>h. Inr (h @ payload)))"

definition proto_dict_of :: "codec \<Rightarrow> protobuf \<Rightarrow> byte \<Rightarrow> byte list \<Rightarrow> py_error + (string, json) dict" where
  "proto_dict_of cd pb flags payload =
     (if flag_set flags 2
      then (case Option.bind (Option.bind pb (\<lambda>(_, dec). dec payload)) (frame_to_dict cd) of
              None \<Rightarrow> Inl (ValueError ''protobuf'') | Some d \<Rightarrow> Inr d)
      else decode_payload cd (flag_set flags 1) payload)"

definition proto_deserialize :: "string \<Rightarrow> time \<Rightarrow> codec \<Rightarrow> protobuf \<Rightarrow> byte list \<Rightarrow> py_error + proto_message" where
  "proto_deserialize fresh now cd pb data =
     and_then (open_frame FMP_PROTO_MAGIC FMP_PROTO_VERSION data) (\<lambda>(flags, payload).
     and_then (proto_dict_of cd pb flags payload) (\<lambda>d.
       proto_from_dict fresh now (dset d ''encrypted'' (JBool (flag_set flags 0)))))"

subsection \<open>What arrives\<close>

lemma b64_longer: "bs \<noteq> [] \<Longrightarrow> length bs < length (b64encode bs)"
proof (induction bs rule: b64encode.induct)
  case (4 a b c bs)
  then show ?case by (cases bs) auto
qed auto

lemma ascii_b64_same: "ascii (b64encode bs) = bs \<longleftrightarrow> bs = []"
proof
  assume "ascii (b64encode bs) = bs"
  then have "length (b64encode bs) = length bs" by (metis ascii_def length_map)
  then show "bs = []" using b64_longer [of bs] by auto
qed (simp add: ascii_def)

lemma frame_dict:
  assumes "frame_of m = Some f"
  shows "frame_to_dict cd f = Some (proto_to_dict (m\<lparr>pm_payload := (pm_payload m)\<lparr>pp_data := ascii (b64encode (pp_data (pm_payload m)))\<rparr>\<rparr>))"
  using assms
  by (auto simp: frame_of_def frame_to_dict_def Let_def proto_to_dict_def pcontrol_to_dict_def payload_to_dict_def split: if_splits)

lemma proto_flags:
  "fl \<in> {0, 2, 4} \<Longrightarrow> flag_set (if e then fl + 1 else fl) 0 = e"
  "fl \<in> {0, 2, 4} \<Longrightarrow> flag_set (if e then fl + 1 else fl) 1 = (fl = 2)"
  "fl \<in> {0, 2, 4} \<Longrightarrow> flag_set (if e then fl + 1 else fl) 2 = (fl = 4)"
  by (auto simp: flag_set_def bit_iff_odd)

text \<open>The law of the protobuf runtime, asked of the frame of one message.\<close>

definition protobuf_ok :: "protobuf \<Rightarrow> proto_message \<Rightarrow> bool" where
  "protobuf_ok pb m \<longleftrightarrow> (\<forall>enc dec f. pb = Some (enc, dec) \<longrightarrow> frame_of m = Some f \<longrightarrow> dec (enc f) = Some f)"

definition proto_arrives :: "protobuf \<Rightarrow> proto_message \<Rightarrow> proto_message" where
  "proto_arrives pb m =
     (if pb \<noteq> None \<and> numbers_fit m
      then m\<lparr>pm_payload := (pm_payload m)\<lparr>pp_data := ascii (b64encode (pp_data (pm_payload m)))\<rparr>\<rparr> else m)"

lemma proto_body_dict:
  assumes "codec_ok cd (JObj (proto_to_dict m))" and "protobuf_ok pb m"
    and "proto_body cd pb m = (fl, payload)"
  shows "fl \<in> {0, 2, 4} \<and> proto_dict_of cd pb (if e then fl + 1 else fl) payload = Inr (proto_to_dict (proto_arrives pb m))"
proof (cases "\<exists>enc dec f. pb = Some (enc, dec) \<and> frame_of m = Some f")
  case True
  then obtain enc dec f where f: "pb = Some (enc, dec)" "frame_of m = Some f" by blast
  then have "fl = 4" "payload = enc f" "numbers_fit m"
    using assms(3) by (auto simp: proto_body_def frame_of_def Let_def split: if_splits)
  moreover have "flag_set (if e then 4 + 1 else 4) 2" by (simp add: flag_set_def bit_iff_odd)
  moreover have "dec (enc f) = Some f" using assms(2) f by (simp add: protobuf_ok_def)
  ultimately show ?thesis
    using f frame_dict [OF f(2), of cd] by (auto simp: proto_dict_of_def proto_arrives_def)
next
  case False
  have arr: "proto_arrives pb m = m" using False by (auto simp: proto_arrives_def frame_of_def Let_def)
  have "encode_payload cd True (JObj (proto_to_dict m)) = (fl, payload)"
    using False assms(3) by (auto simp: proto_body_def split: option.splits)
  from decode_encode [OF assms(1) this] have fl: "fl \<in> {0, 2}" "decode_payload cd (fl = 2) payload = Inr (proto_to_dict m)" by auto
  then have "fl \<in> {0, 2, 4}" "fl \<noteq> 4" by auto
  then show ?thesis using fl proto_flags(2,3) [of fl e] by (simp add: proto_dict_of_def arr)
qed

text \<open>What the second protocol delivers: with the structured encoding the data of a message arrive as the
  text of their base 64 form, so no message with data arrives as it was sent; without it, or when a number
  of the message does not fit in 32 bits, it does.\<close>

theorem proto_payload_on_the_wire:
  assumes laws: "codec_ok cd (JObj (proto_to_dict m))" "protobuf_ok pb m"
    and full: "pe_message_id (pm_envelope m) \<noteq> []" "pe_timestamp (pm_envelope m) \<noteq> 0" "px_timestamp (pm_control m) \<noteq> 0"
    and ser: "proto_serialize cd pb m = Inr bs" and size: "length bs \<le> FMP_HEADER_SIZE + FMP_MAX_PAYLOAD_SIZE"
  shows "\<exists>m'. proto_deserialize fresh now cd pb (bs @ rest) = Inr m' \<and>
           (pb \<noteq> None \<and> numbers_fit m \<longrightarrow> pp_data (pm_payload m') = ascii (b64encode (pp_data (pm_payload m)))) \<and>
           (m' = m \<longleftrightarrow> pb = None \<or> \<not> numbers_fit m \<or> pp_data (pm_payload m) = [])"
proof -
  obtain fl payload where b: "proto_body cd pb m = (fl, payload)" by fastforce
  let ?flags = "if pm_encrypted m then fl + 1 else fl" and ?m = "proto_arrives pb m"
  note d = proto_body_dict [OF laws b, of "pm_encrypted m"]
  obtain h where h: "pack_header FMP_PROTO_MAGIC FMP_PROTO_VERSION ?flags (length payload) = Inr h" "bs = h @ payload"
    using ser by (auto simp: proto_serialize_def b and_then_Inr)
  then have "length h = 12" by (auto simp: pack_header_def FMP_PROTO_MAGIC_def split: if_splits)
  then have opened: "open_frame FMP_PROTO_MAGIC FMP_PROTO_VERSION (bs @ rest) = Inr (?flags, payload)"
    using open_packed [OF h(1), of rest] size h(2) by (simp add: FMP_PROTO_MAGIC_def FMP_HEADER_SIZE_def)
  have e: "dset (proto_to_dict ?m) ''encrypted'' (JBool (pm_encrypted m)) = proto_to_dict ?m"
    by (simp add: proto_to_dict_def proto_arrives_def)
  have "proto_from_dict fresh now (proto_to_dict ?m) = Inr ?m"
    using proto_wire.dec_enc [where x = ?m and fresh = fresh and now = now] full
    by (simp add: value_of_Some proto_arrives_def env_post_init_def control_post_init_def)
  then have "proto_deserialize fresh now cd pb (bs @ rest) = Inr ?m"
    using d e proto_flags(1) [of fl "pm_encrypted m"] by (simp add: proto_deserialize_def opened)
  moreover have "?m = m \<longleftrightarrow> pb = None \<or> \<not> numbers_fit m \<or> pp_data (pm_payload m) = []"
    using ascii_b64_same [of "pp_data (pm_payload m)"]
    by (cases pb) (auto simp: proto_arrives_def dest!: arg_cong [of _ m "\<lambda>m. pp_data (pm_payload m)"])
  ultimately show ?thesis by (cases pb) (auto simp: proto_arrives_def)
qed

definition demo_proto :: proto_message where
  "demo_proto =
     \<lparr>pm_envelope = \<lparr>pe_source = ''a'', pe_target = ''b'', pe_hops = 0, pe_max_hops = 3, pe_trace = [], pe_message_id = ''env_1'',
        pe_timestamp = 1, pe_sequence = 0\<rparr>,
      pm_control = \<lparr>px_code = C_ACK, px_sequence = 7, px_timestamp = 1, px_ack_seq = 0, px_flow_window = 64, px_reason = []\<rparr>,
      pm_payload = \<lparr>pp_type = P_ACK, pp_data = [1, 2], pp_round_id = ''env_1'', pp_round = 0, pp_max_rounds = 10, pp_compressed = False\<rparr>,
      pm_encrypted = False\<rparr>"

theorem proto_payload_on_the_wire_witness:
  "\<exists>cd pb bs m'. proto_serialize cd pb demo_proto = Inr bs \<and> proto_deserialize [] 0 cd pb bs = Inr m' \<and> m' \<noteq> demo_proto"
proof -
  obtain f where f: "frame_of demo_proto = Some f"
    by (simp add: frame_of_def demo_proto_def numbers_fit_def in_int32_def)
  let ?cd = "\<lparr>cd_dumps = (\<lambda>_. [0x7b]), cd_loads = (\<lambda>_. Some (JObj (proto_to_dict demo_proto))), cd_msgpack = None\<rparr>"
  let ?pb = "Some (\<lambda>_. [0x0a], \<lambda>_. Some f)" and ?bs = "FMP_PROTO_MAGIC @ [2, 4, 0, 0, 0, 1, 0, 0, 0x0a]"
  have s: "proto_serialize ?cd ?pb demo_proto = Inr ?bs"
    by (simp add: proto_serialize_def proto_body_def f pack_header_def be32_def FMP_PROTO_VERSION_def)
       (simp add: demo_proto_def)
  have pb: "protobuf_ok ?pb demo_proto" by (simp add: protobuf_ok_def f)
  have full: "pe_message_id (pm_envelope demo_proto) \<noteq> []" "pe_timestamp (pm_envelope demo_proto) \<noteq> 0"
    "px_timestamp (pm_control demo_proto) \<noteq> 0" "numbers_fit demo_proto" "pp_data (pm_payload demo_proto) \<noteq> []"
    by (simp_all add: demo_proto_def numbers_fit_def in_int32_def)
  have size: "length ?bs \<le> FMP_HEADER_SIZE + FMP_MAX_PAYLOAD_SIZE"
    by (simp add: FMP_PROTO_MAGIC_def FMP_HEADER_SIZE_def FMP_MAX_PAYLOAD_SIZE_def)
  obtain m' where "proto_deserialize [] 0 ?cd ?pb (?bs @ []) = Inr m'" "m' = demo_proto \<longleftrightarrow> ?pb = None \<or> \<not> numbers_fit demo_proto \<or> pp_data (pm_payload demo_proto) = []"
    using proto_payload_on_the_wire [OF codec_ok_demo pb full(1-3) s size, of "[]" 0 "[]"] by blast
  then have "proto_deserialize [] 0 ?cd ?pb ?bs = Inr m' \<and> m' \<noteq> demo_proto" using full by simp
  then show ?thesis using s by blast
qed

end
