(* ===== verification/FmpLink.thy ===== *)
theory FmpLink
  imports FmpCodec CircuitBreaker
begin

text \<open>
  The transport of FMP messages (\<open>protocol/fmp_connection.py\<close>, \<open>_InboundPeer\<close> in \<open>protocol/fmp_server.py\<close>) and the
  router (\<open>protocol/fmp_router.py\<close>): the stream of length-prefixed frames as a reader that is fed chunks and
  timeouts, the state of a connection with its circuit breaker, the table of connections, and the decision
  of the router with its rounds and counters.  Sockets are the outcomes of their operations.
\<close>

subsection \<open>Writing and reading the stream\<close>

definition MAX_STREAM_FRAME :: nat where "MAX_STREAM_FRAME = 16 * 1024 * 1024"

text \<open>\<open>writer.write(len(data).to_bytes(4, "big") + data)\<close>\<close>

definition stream_frame :: "byte list \<Rightarrow> byte list" where
  "stream_frame data = be32 (length data) @ data"

text \<open>The reader of one connection: what has arrived and was not consumed, the length that was read when the
  body is still awaited, the messages handed on, and whether the loop goes on.\<close>

record 'm reader =
  rd_buf :: "byte list"
  rd_need :: "nat option"
  rd_out :: "'m list"
  rd_alive :: bool

definition reader_init :: "'m reader" where
  "reader_init = \<lparr>rd_buf = [], rd_need = None, rd_out = [], rd_alive = True\<rparr>"

text \<open>One step of the loop, None when it waits: \<open>readexactly(4)\<close> and the check of the length, then
  \<open>readexactly(n)\<close> and the message.  An invalid length and an exception end the loop.\<close>

definition read_one :: "(byte list \<Rightarrow> 'e + 'm) \<Rightarrow> 'm reader \<Rightarrow> 'm reader option" where
  "read_one parse s =
     (if \<not> rd_alive s then None
      else case rd_need s of
             None \<Rightarrow>
               (if length (rd_buf s) < 4 then None
                else let n = of_be (take 4 (rd_buf s)); rest = drop 4 (rd_buf s)
                     in Some (if n = 0 \<or> n > MAX_STREAM_FRAME then s\<lparr>rd_buf := rest, rd_alive := False\<rparr>
                              else s\<lparr>rd_buf := rest, rd_need := Some n\<rparr>))
           | Some n \<Rightarrow>
               (if length (rd_buf s) < n then None
                else Some (case parse (take n (rd_buf s)) of
                             Inl _ \<Rightarrow> s\<lparr>rd_buf := drop n (rd_buf s), rd_need := None, rd_alive := False\<rparr>
                           | Inr m \<Rightarrow> s\<lparr>rd_buf := drop n (rd_buf s), rd_need := None, rd_out := rd_out s @ [m]\<rparr>)))"

function read_ready :: "(byte list \<Rightarrow> 'e + 'm) \<Rightarrow> 'm reader \<Rightarrow> 'm reader" where
  "read_ready parse s = (case read_one parse s of None \<Rightarrow> s | Some s' \<Rightarrow> read_ready parse s')"
  by pat_completeness auto
termination
  by (relation "measure (\<lambda>(parse, s). 2 * length (rd_buf s) + (case rd_need s of None \<Rightarrow> 0 | Some _ \<Rightarrow> 1))")
     (auto simp: read_one_def Let_def split: option.splits if_splits sum.splits)

declare read_ready.simps [simp del]

definition arrive :: "(byte list \<Rightarrow> 'e + 'm) \<Rightarrow> byte list \<Rightarrow> 'm reader \<Rightarrow> 'm reader" where
  "arrive parse bs s = read_ready parse (s\<lparr>rd_buf := rd_buf s @ bs\<rparr>)"

text \<open>\<open>wait_for\<close> gives up after 30 seconds and the loop starts over: what \<open>readexactly\<close> waited for stays in the
  buffer, the length that was consumed is forgotten.\<close>

definition read_timeout :: "(byte list \<Rightarrow> 'e + 'm) \<Rightarrow> 'm reader \<Rightarrow> 'm reader" where
  "read_timeout parse s = read_ready parse (s\<lparr>rd_need := None\<rparr>)"

text \<open>What the loop does with a frame: the message, opened where a key is set and it is marked.\<close>

definition receive_frame :: "codec \<Rightarrow> aead \<Rightarrow> byte list \<Rightarrow> byte list \<Rightarrow> py_error + fmp_message" where
  "receive_frame cd ae key data =
     and_then (deserialize cd data) (\<lambda>m. if key \<noteq> [] \<and> fm_encrypted m then decrypt_message ae key m else Inr m)"

subsection \<open>A connection\<close>

record connection =
  cn_node_id :: string
  cn_host :: string
  cn_port :: int
  cn_connected_at :: time
  cn_last_active :: time
  cn_alive :: bool
  cn_writer_open :: bool
  cn_running :: bool
  cn_breaker :: breaker

definition connection_init :: "string \<Rightarrow> string \<Rightarrow> int \<Rightarrow> breaker \<Rightarrow> connection" where
  "connection_init nid host port b =
     \<lparr>cn_node_id = nid, cn_host = host, cn_port = port, cn_connected_at = 0, cn_last_active = 0, cn_alive = False,
      cn_writer_open = False, cn_running = False, cn_breaker = b\<rparr>"

definition is_connected :: "connection \<Rightarrow> bool" where
  "is_connected c \<longleftrightarrow> cn_alive c \<and> cn_writer_open c"

definition uptime :: "time \<Rightarrow> connection \<Rightarrow> time" where
  "uptime now c = (if \<not> cn_alive c then 0 else now - cn_connected_at c)"

text \<open>\<open>opened\<close> tells whether \<open>open_connection\<close> succeeds.\<close>

definition connect :: "time \<Rightarrow> bool \<Rightarrow> connection \<Rightarrow> connection \<times> bool" where
  "connect now opened c =
     (if opened
      then (c\<lparr>cn_writer_open := True, cn_alive := True, cn_connected_at := now, cn_last_active := now, cn_running := True,
              cn_breaker := cb_reset (cn_breaker c)\<rparr>, True)
      else (c\<lparr>cn_breaker := record_failure now (cn_breaker c)\<rparr>, False))"

text \<open>\<open>connect_with_retry\<close>, with the time and outcome of each attempt; the attempts end with the list.\<close>

fun connect_with_retry :: "(time \<times> bool) list \<Rightarrow> connection \<Rightarrow> connection \<times> bool" where
  "connect_with_retry [] c = (c, False)"
| "connect_with_retry ((now, opened) # tries) c =
     (let (c1, ok) = connect now opened c in if ok then (c1, True) else connect_with_retry tries c1)"

definition disconnect :: "connection \<Rightarrow> connection" where
  "disconnect c = c\<lparr>cn_running := False, cn_alive := False, cn_writer_open := False\<rparr>"

text \<open>\<open>send\<close>: the bytes that are written, None where nothing is; \<open>drained\<close> tells whether the socket takes them.\<close>

definition sealed_form :: "aead \<Rightarrow> byte list \<Rightarrow> byte list \<Rightarrow> fmp_message \<Rightarrow> py_error + fmp_message" where
  "sealed_form ae key nonce m = (if key \<noteq> [] \<and> \<not> fm_encrypted m then encrypt_message ae key nonce m else Inr m)"

definition send_data :: "codec \<Rightarrow> aead \<Rightarrow> byte list \<Rightarrow> byte list \<Rightarrow> fmp_message \<Rightarrow> py_error + byte list" where
  "send_data cd ae key nonce m =
     and_then (sealed_form ae key nonce m) (\<lambda>m'. and_then (serialize cd False m') (\<lambda>data. Inr (stream_frame data)))"

definition send_msg ::
  "codec \<Rightarrow> aead \<Rightarrow> byte list \<Rightarrow> byte list \<Rightarrow> time \<Rightarrow> bool \<Rightarrow> fmp_message \<Rightarrow> connection \<Rightarrow> connection \<times> byte list option" where
  "send_msg cd ae key nonce now drained m c =
     (if \<not> is_connected c then (c, None)
      else let (b, ok) = allow_request now (cn_breaker c); c1 = c\<lparr>cn_breaker := b\<rparr>
           in if \<not> ok then (c1, None)
              else case send_data cd ae key nonce m of
                     Inr bs \<Rightarrow>
                       if drained then (c1\<lparr>cn_last_active := now, cn_breaker := record_success b\<rparr>, Some bs)
                       else (c1\<lparr>cn_breaker := record_failure now b, cn_alive := False\<rparr>, None)
                   | Inl _ \<Rightarrow> (c1\<lparr>cn_breaker := record_failure now b, cn_alive := False\<rparr>, None))"

text \<open>The end of the read loop; the result tells whether a reconnection is started.\<close>

definition read_loop_end :: "connection \<Rightarrow> connection \<times> bool" where
  "read_loop_end c = (c\<lparr>cn_alive := False\<rparr>, cn_running c)"

subsection \<open>The connections of a node\<close>

type_synonym connections = "(string, connection) dict"

definition add_connection :: "(time \<times> bool) list \<Rightarrow> breaker \<Rightarrow> string \<Rightarrow> string \<Rightarrow> int \<Rightarrow> connections \<Rightarrow> connections" where
  "add_connection tries b nid host port cs =
     (case dget cs nid of
        Some c \<Rightarrow>
          if is_connected c then cs
          else dset cs nid (fst (connect_with_retry tries (connection_init nid host port b)))
      | None \<Rightarrow> dset cs nid (fst (connect_with_retry tries (connection_init nid host port b))))"

definition remove_connection :: "string \<Rightarrow> connections \<Rightarrow> connections" where
  "remove_connection nid cs = dpop cs nid"

definition send_to ::
  "codec \<Rightarrow> aead \<Rightarrow> byte list \<Rightarrow> byte list \<Rightarrow> time \<Rightarrow> bool \<Rightarrow> string \<Rightarrow> fmp_message \<Rightarrow> connections \<Rightarrow> connections \<times> byte list option" where
  "send_to cd ae key nonce now drained nid m cs =
     (case dget cs nid of
        None \<Rightarrow> (cs, None)
      | Some c \<Rightarrow>
          if \<not> is_connected c then (cs, None)
          else let (c', r) = send_msg cd ae key nonce now drained m c in (dset cs nid c', r))"

definition close_all :: "connections \<Rightarrow> connections" where
  "close_all cs = []"

definition broadcast_targets :: "connections \<Rightarrow> string list" where
  "broadcast_targets cs = map fst (filter (\<lambda>(nid, c). is_connected c) cs)"

subsection \<open>The router\<close>

record round_info =
  ri_source :: string
  ri_target :: string
  ri_current :: int
  ri_max :: int
  ri_started :: time
  ri_last_active :: time

definition can_next :: "round_info \<Rightarrow> bool" where
  "can_next r \<longleftrightarrow> ri_current r < ri_max r"

record router =
  ro_local :: string
  ro_linked :: bool
  ro_rounds :: "(string, round_info) dict"
  ro_blocked :: "string list"
  ro_routed :: nat
  ro_dropped_hop :: nat
  ro_dropped_round :: nat
  ro_dropped_blocked :: nat
  ro_delivered :: nat

definition router_init :: "string \<Rightarrow> bool \<Rightarrow> router" where
  "router_init nid linked =
     \<lparr>ro_local = nid, ro_linked = linked, ro_rounds = [], ro_blocked = [], ro_routed = 0, ro_dropped_hop = 0,
      ro_dropped_round = 0, ro_dropped_blocked = 0, ro_delivered = 0\<rparr>"

definition cleanup_stale_rounds :: "time \<Rightarrow> time \<Rightarrow> router \<Rightarrow> router" where
  "cleanup_stale_rounds now max_age ro =
     ro\<lparr>ro_rounds := filter (\<lambda>(rid, r). \<not> now - ri_last_active r > max_age) (ro_rounds ro)\<rparr>"

text \<open>What becomes of a message: dropped for a reason, delivered here, without a way on, or handed to the
  connection of its target as changed by the hop; \<open>sent\<close> is the answer of \<open>send_to\<close>.\<close>

datatype hop_result = DropBlocked | DropHops | DropRounds | Delivered | NoLinks | Forwarded fmp_message bool

definition rounds_used_up :: "router \<Rightarrow> fmp_message \<Rightarrow> bool" where
  "rounds_used_up ro m \<longleftrightarrow>
     fb_round_id (fm_business m) \<noteq> [] \<and>
     (case dget (ro_rounds ro) (fb_round_id (fm_business m)) of None \<Rightarrow> False | Some r \<Rightarrow> \<not> can_next r)"

definition touch_round :: "time \<Rightarrow> string \<Rightarrow> router \<Rightarrow> router" where
  "touch_round now rid ro =
     (if rid = [] then ro
      else case dget (ro_rounds ro) rid of
             None \<Rightarrow> ro
           | Some r \<Rightarrow> ro\<lparr>ro_rounds := dset (ro_rounds ro) rid (r\<lparr>ri_current := ri_current r + 1, ri_last_active := now\<rparr>)\<rparr>)"

definition route :: "time \<Rightarrow> (fmp_message \<Rightarrow> bool) \<Rightarrow> fmp_message \<Rightarrow> router \<Rightarrow> router \<times> hop_result" where
  "route now sent m ro0 =
     (let ro = cleanup_stale_rounds now 3600 ro0; l = fm_link m
      in if fl_target l \<in> set (ro_blocked ro) then (ro\<lparr>ro_dropped_blocked := Suc (ro_dropped_blocked ro)\<rparr>, DropBlocked)
         else if \<not> can_forward l then (ro\<lparr>ro_dropped_hop := Suc (ro_dropped_hop ro)\<rparr>, DropHops)
         else if rounds_used_up ro m then (ro\<lparr>ro_dropped_round := Suc (ro_dropped_round ro)\<rparr>, DropRounds)
         else if fl_target l = ro_local ro then (ro\<lparr>ro_delivered := Suc (ro_delivered ro)\<rparr>, Delivered)
         else if \<not> ro_linked ro then (ro, NoLinks)
         else let m' = m\<lparr>fm_link := (case forward (ro_local ro) l of Inl _ \<Rightarrow> l | Inr l' \<Rightarrow> l')\<rparr>;
                  ro1 = touch_round now (fb_round_id (fm_business m)) ro; ok = sent m'
              in ((if ok then ro1\<lparr>ro_routed := Suc (ro_routed ro1)\<rparr> else ro1), Forwarded m' ok))"

definition register_round :: "time \<Rightarrow> string \<Rightarrow> string \<Rightarrow> string \<Rightarrow> int \<Rightarrow> router \<Rightarrow> router" where
  "register_round now rid source target max_rounds ro =
     ro\<lparr>ro_rounds := dset (ro_rounds ro) rid
          \<lparr>ri_source = source, ri_target = target, ri_current = 0, ri_max = max_rounds, ri_started = now, ri_last_active = now\<rparr>\<rparr>"

definition block_node :: "string \<Rightarrow> router \<Rightarrow> router" where
  "block_node nid ro = ro\<lparr>ro_blocked := sadd nid (ro_blocked ro)\<rparr>"

definition unblock_node :: "string \<Rightarrow> router \<Rightarrow> router" where
  "unblock_node nid ro = ro\<lparr>ro_blocked := sdiscard nid (ro_blocked ro)\<rparr>"

subsection \<open>Reading does not depend on the chunks\<close>

abbreviation with_bytes :: "'m reader \<Rightarrow> byte list \<Rightarrow> 'm reader" where
  "with_bytes s bs \<equiv> s\<lparr>rd_buf := rd_buf s @ bs\<rparr>"

lemma read_one_more: "read_one parse s = Some s' \<Longrightarrow> read_one parse (with_bytes s bs) = Some (with_bytes s' bs)"
  by (cases s) (auto simp: read_one_def Let_def split: option.splits if_splits sum.splits)

lemma read_ready_more: "read_ready parse (with_bytes (read_ready parse s) bs) = read_ready parse (with_bytes s bs)"
proof (induction parse s rule: read_ready.induct)
  case (1 parse s)
  show ?case
  proof (cases "read_one parse s")
    case None
    then have "read_ready parse s = s" by (subst read_ready.simps) simp
    then show ?thesis by simp
  next
    case (Some s')
    then have "read_ready parse s = read_ready parse s'" by (subst read_ready.simps) simp
    moreover have "read_ready parse (with_bytes s bs) = read_ready parse (with_bytes s' bs)"
      by (subst read_ready.simps) (simp add: read_one_more [OF Some])
    ultimately show ?thesis using 1 [OF Some] by simp
  qed
qed

lemma arrive_ready: "arrive parse bs (read_ready parse s) = read_ready parse (with_bytes s bs)"
  by (simp add: arrive_def read_ready_more)

lemma arrive_chunks: "fold (arrive parse) chunks (read_ready parse s) = arrive parse (concat chunks) (read_ready parse s)"
proof (induction chunks arbitrary: s)
  case Nil
  then show ?case using read_ready_more [of parse s "[]"] by (simp add: arrive_def)
next
  case (Cons c cs)
  show ?case using Cons.IH [of "with_bytes s c"] by (simp add: arrive_ready)
qed

lemma read_ready_init [simp]: "read_ready parse reader_init = reader_init"
  by (simp add: read_ready.simps read_one_def reader_init_def)

text \<open>The contract of a frame format on a stream: what is sent can be parsed, and its length is allowed.\<close>

locale framed_stream =
  fixes parse :: "byte list \<Rightarrow> 'e + 'm" and enc :: "'x \<Rightarrow> byte list" and msg :: "'x \<Rightarrow> 'm" and ok :: "'x \<Rightarrow> bool"
  assumes parse_enc: "ok x \<Longrightarrow> parse (enc x) = Inr (msg x)"
    and enc_length: "ok x \<Longrightarrow> 0 < length (enc x) \<and> length (enc x) \<le> MAX_STREAM_FRAME"
begin

lemma read_frame:
  assumes "ok x" "rd_alive s" "rd_need s = None" "rd_buf s = stream_frame (enc x) @ rest"
  shows "read_ready parse s = read_ready parse (s\<lparr>rd_buf := rest, rd_out := rd_out s @ [msg x]\<rparr>)"
proof -
  have "length (enc x) < 2 ^ 32" using enc_length [OF assms(1)] by (simp add: MAX_STREAM_FRAME_def)
  then have n: "of_be (be32 (length (enc x))) = length (enc x)" by (rule of_be_be32)
  have "read_one parse s = Some (s\<lparr>rd_buf := enc x @ rest, rd_need := Some (length (enc x))\<rparr>)" (is "_ = Some ?s1")
    using enc_length [OF assms(1)] assms by (simp add: read_one_def stream_frame_def n)
  moreover have "read_one parse ?s1 = Some (s\<lparr>rd_buf := rest, rd_out := rd_out s @ [msg x]\<rparr>)"
    using assms parse_enc [OF assms(1)] by (cases s) (simp add: read_one_def)
  ultimately show ?thesis by (simp add: read_ready.simps [of parse s] read_ready.simps [of parse ?s1])
qed

lemma read_frames:
  "\<forall>x \<in> set xs. ok x \<Longrightarrow> rd_alive s \<Longrightarrow> rd_need s = None \<Longrightarrow> rd_buf s = concat (map (\<lambda>x. stream_frame (enc x)) xs) \<Longrightarrow>
   read_ready parse s = s\<lparr>rd_buf := [], rd_out := rd_out s @ map msg xs\<rparr>"
proof (induction xs arbitrary: s)
  case Nil
  then show ?case by (cases s) (simp add: read_ready.simps read_one_def)
next
  case (Cons x xs)
  let ?s1 = "s\<lparr>rd_buf := concat (map (\<lambda>x. stream_frame (enc x)) xs), rd_out := rd_out s @ [msg x]\<rparr>"
  have "read_ready parse s = read_ready parse ?s1"
    using Cons.prems by (intro read_frame) simp_all
  also have "\<dots> = ?s1\<lparr>rd_buf := [], rd_out := rd_out ?s1 @ map msg xs\<rparr>"
    using Cons.prems by (intro Cons.IH) simp_all
  finally show ?case by simp
qed

lemma stream_delivers:
  assumes "\<forall>x \<in> set xs. ok x" "concat chunks = concat (map (\<lambda>x. stream_frame (enc x)) xs)"
  shows "fold (arrive parse) chunks reader_init = reader_init\<lparr>rd_out := map msg xs\<rparr>"
proof -
  have "fold (arrive parse) chunks reader_init = read_ready parse (with_bytes reader_init (concat chunks))"
    using arrive_chunks [of parse chunks reader_init] arrive_ready [of parse "concat chunks" reader_init] by simp
  then show ?thesis using read_frames [of xs "with_bytes reader_init (concat chunks)"] assms by (simp add: reader_init_def)
qed

end

subsection \<open>Messages over a connection\<close>

text \<open>A message that can be sent with a nonce: it is sealed when there is a key, its text comes back from the
  text format, and its frame is not too long for the stream.\<close>

definition wire_data :: "codec \<Rightarrow> aead \<Rightarrow> byte list \<Rightarrow> byte list \<times> fmp_message \<Rightarrow> byte list" where
  "wire_data cd ae key x =
     (case and_then (sealed_form ae key (fst x) (snd x)) (serialize cd False) of Inl _ \<Rightarrow> [] | Inr d \<Rightarrow> d)"

definition sendable :: "codec \<Rightarrow> aead \<Rightarrow> byte list \<Rightarrow> byte list \<times> fmp_message \<Rightarrow> bool" where
  "sendable cd ae key x \<longleftrightarrow>
     (\<exists>m'. sealed_form ae key (fst x) (snd x) = Inr m' \<and> codec_ok cd (JObj (message_to_dict m'))) \<and>
     (key \<noteq> [] \<longrightarrow> \<not> fm_encrypted (snd x) \<and> length (fst x) = 12 \<and>
        seals ae key (fst x) (fb_payload (fm_business (snd x))) (link_aad (fm_link (snd x)))) \<and>
     wire_data cd ae key x \<noteq> [] \<and> length (wire_data cd ae key x) \<le> MAX_STREAM_FRAME"

lemma sendable_data: "sendable cd ae key x \<Longrightarrow> send_data cd ae key (fst x) (snd x) = Inr (stream_frame (wire_data cd ae key x))"
  by (auto simp: sendable_def send_data_def wire_data_def split: sum.splits)

lemma unsealed:
  assumes "sealed_form ae key nonce m = Inr m'" "key \<noteq> [] \<longrightarrow> \<not> fm_encrypted m \<and> length nonce = 12 \<and> seals ae key nonce (fb_payload (fm_business m)) (link_aad (fm_link m))"
  shows "(if key \<noteq> [] \<and> fm_encrypted m' then decrypt_message ae key m' else Inr m') = Inr m"
  using assms
  by (cases m) (auto simp: sealed_form_def encrypt_message_def encrypt_def decrypt_message_def decrypt_def seals_def split: if_splits)

lemma receive_sendable:
  assumes "sendable cd ae key x"
  shows "receive_frame cd ae key (wire_data cd ae key x) = Inr (snd x)"
proof -
  obtain m' where m: "sealed_form ae key (fst x) (snd x) = Inr m'" "codec_ok cd (JObj (message_to_dict m'))"
    using assms by (auto simp: sendable_def)
  have w: "serialize cd False m' = Inr (wire_data cd ae key x)" "length (wire_data cd ae key x) \<le> FMP_HEADER_SIZE + FMP_MAX_PAYLOAD_SIZE"
    using assms m by (auto simp: sendable_def wire_data_def MAX_STREAM_FRAME_def FMP_MAX_PAYLOAD_SIZE_def split: sum.splits)
  have "deserialize cd (wire_data cd ae key x) = Inr m'" using deserialize_sent [OF m(2) w, of "[]"] by simp
  then show ?thesis using unsealed [OF m(1)] assms by (simp add: receive_frame_def sendable_def)
qed

interpretation fmp_stream: framed_stream "receive_frame cd ae key" "wire_data cd ae key" snd "sendable cd ae key"
  by unfold_locales (auto simp: receive_sendable sendable_def)

text \<open>C26: A connection delivers what was sent: however the stream is cut into chunks, the reader hands on
  exactly the messages that were written, opened and in their order, and keeps nothing back.\<close>

theorem stream_reassembles:
  assumes "\<forall>x \<in> set xs. sendable cd ae key x"
    and "concat chunks = concat (map (\<lambda>(nonce, m). case send_data cd ae key nonce m of Inr bs \<Rightarrow> bs | Inl _ \<Rightarrow> []) xs)"
  shows "fold (arrive (receive_frame cd ae key)) chunks reader_init =
           \<lparr>rd_buf = [], rd_need = None, rd_out = map snd xs, rd_alive = True\<rparr>"
proof -
  have e: "map (\<lambda>(nonce, m). case send_data cd ae key nonce m of Inr bs \<Rightarrow> bs | Inl _ \<Rightarrow> []) xs =
      map (\<lambda>x. stream_frame (wire_data cd ae key x)) xs"
    using assms(1) sendable_data by (auto simp: case_prod_unfold)
  show ?thesis using fmp_stream.stream_delivers [OF assms(1), of chunks] assms(2) unfolding e by (simp add: reader_init_def)
qed

theorem stream_reassembles_witness:
  "\<exists>cd bs. fold (arrive (receive_frame cd demo_aead [])) [take 5 (bs @ bs), drop 5 (bs @ bs)] reader_init =
           \<lparr>rd_buf = [], rd_need = None, rd_out = [demo_fmp, demo_fmp], rd_alive = True\<rparr>"
proof -
  let ?cd = "\<lparr>cd_dumps = (\<lambda>_. [0x7b]), cd_loads = (\<lambda>_. Some (JObj (message_to_dict demo_fmp))), cd_msgpack = None\<rparr>"
  let ?x = "([], demo_fmp)" and ?bs = "FMP_MAGIC @ [1, 1, 0, 0, 0, 1, 0, 0, 0x7b]"
  have s: "serialize ?cd False demo_fmp = Inr ?bs"
    by (simp add: serialize_def encode_payload_def pack_header_def be32_def FMP_VERSION_def demo_fmp_def)
  then have x: "sendable ?cd demo_aead [] ?x"
    using codec_ok_demo by (simp add: sendable_def sealed_form_def wire_data_def FMP_MAGIC_def MAX_STREAM_FRAME_def)
  define w where "w = stream_frame ?bs"
  have d: "send_data ?cd demo_aead [] [] demo_fmp = Inr w"
    using s by (simp add: send_data_def sealed_form_def w_def)
  have "concat [take 5 (w @ w), drop 5 (w @ w)] = w @ w" by (simp del: take_append drop_append)
  then show ?thesis
    using stream_reassembles [of "[?x, ?x]" ?cd demo_aead "[]" "[take 5 (w @ w), drop 5 (w @ w)]"] x d
    by (intro exI [of _ ?cd] exI [of _ w]) (simp del: take_append drop_append)
qed

subsection \<open>A slow body\<close>

lemma serialized_magic: "serialize cd use_msgpack m = Inr d \<Longrightarrow> take 4 d = FMP_MAGIC \<and> 12 \<le> length d"
  by (auto simp: serialize_def pack_header_def and_then_Inr FMP_MAGIC_def split: if_splits prod.splits)

lemma read_waiting:
  assumes "0 < length d" "length d \<le> MAX_STREAM_FRAME" "k < length d"
  shows "arrive parse (take (4 + k) (stream_frame d)) reader_init = reader_init\<lparr>rd_buf := take k d, rd_need := Some (length d)\<rparr>"
proof -
  have n: "of_be (be32 (length d)) = length d" using assms(2) by (intro of_be_be32) (simp add: MAX_STREAM_FRAME_def)
  let ?s = "reader_init\<lparr>rd_buf := take k d, rd_need := Some (length d)\<rparr>"
  have "read_one parse (with_bytes reader_init (take (4 + k) (stream_frame d))) = Some ?s"
    using assms by (simp add: read_one_def stream_frame_def n reader_init_def)
  moreover have "read_one parse ?s = None" using assms(3) by (simp add: read_one_def)
  ultimately show ?thesis by (simp add: arrive_def read_ready.simps)
qed

text \<open>When the reading of a body times out, the message is lost and the connection with it: the loop takes
  the first bytes of the body, which are the magic number, for a length, and that is never a valid one,
  whatever arrives afterwards.\<close>

theorem slow_body_closes_connection:
  assumes "serialize cd use_msgpack m = Inr d" "length d \<le> MAX_STREAM_FRAME" "k < length d"
    and s: "s = arrive parse (take (4 + k) (stream_frame d)) reader_init"
    and t: "t = arrive parse (drop (4 + k) (stream_frame d) @ later) (read_timeout parse s)"
  shows "rd_out t = [] \<and> \<not> rd_alive t"
proof -
  have d: "take 4 d = FMP_MAGIC" "12 \<le> length d" using serialized_magic [OF assms(1)] by auto
  have s': "s = reader_init\<lparr>rd_buf := take k d, rd_need := Some (length d)\<rparr>"
    unfolding s using assms(2,3) d by (intro read_waiting) auto
  let ?s0 = "reader_init\<lparr>rd_buf := take k d\<rparr>" and ?u = "reader_init\<lparr>rd_buf := d @ later\<rparr>"
  have to: "read_timeout parse s = read_ready parse ?s0" by (simp add: read_timeout_def s' reader_init_def)
  have dr: "drop (4 + k) (stream_frame d) = drop k d" by (simp add: stream_frame_def)
  have "take k d @ drop k d @ later = d @ later" by (metis append_assoc append_take_drop_id)
  then have "with_bytes ?s0 (drop k d @ later) = ?u" by (simp add: reader_init_def del: append_eq_append_conv)
  then have "t = read_ready parse ?u" unfolding t to dr arrive_ready by (rule arg_cong)
  moreover have "of_be FMP_MAGIC > MAX_STREAM_FRAME" by (simp add: of_be_def FMP_MAGIC_def MAX_STREAM_FRAME_def)
  then have "read_one parse ?u = Some (reader_init\<lparr>rd_buf := drop 4 (d @ later), rd_alive := False\<rparr>)"
    using d by (simp add: read_one_def reader_init_def)
  ultimately show ?thesis by (simp add: read_ready.simps read_one_def reader_init_def)
qed

theorem slow_body_closes_connection_witness:
  "\<exists>d t. t = arrive (\<lambda>_. Inl () :: unit + fmp_message) (drop 6 (stream_frame d) @ [1])
               (read_timeout (\<lambda>_. Inl ()) (arrive (\<lambda>_. Inl ()) (take 6 (stream_frame d)) reader_init)) \<and>
           rd_out t = [] \<and> \<not> rd_alive t"
proof -
  let ?cd = "\<lparr>cd_dumps = (\<lambda>_. [0x7b]), cd_loads = (\<lambda>_. Some JNull), cd_msgpack = None\<rparr>"
  let ?bs = "FMP_MAGIC @ [1, 1, 0, 0, 0, 1, 0, 0, 0x7b]"
  have s: "serialize ?cd False demo_fmp = Inr ?bs"
    by (simp add: serialize_def encode_payload_def pack_header_def be32_def FMP_VERSION_def demo_fmp_def)
  show ?thesis
    using slow_body_closes_connection [OF s, of 2, OF _ _ refl refl] by (auto simp: FMP_MAGIC_def MAX_STREAM_FRAME_def)
qed

subsection \<open>Messages do not circulate\<close>

text \<open>A message on its way: each router in turn, as long as it is forwarded and the connection takes it.  The
  result is the routers that forwarded it, the message then, and what the last router did.\<close>

fun travel :: "(time \<times> (fmp_message \<Rightarrow> bool) \<times> router) list \<Rightarrow> fmp_message \<Rightarrow> string list \<times> fmp_message \<times> hop_result option" where
  "travel [] m = ([], m, None)"
| "travel ((now, sent, ro) # rs) m =
     (case snd (route now sent m ro) of
        Forwarded m' True \<Rightarrow> (let (vs, m'', r) = travel rs m' in (ro_local ro # vs, m'', r))
      | r \<Rightarrow> ([], m, Some r))"

lemma route_forwarded:
  assumes "snd (route now sent m ro) = Forwarded m' ok"
  shows "can_forward (fm_link m) \<and> m' = m\<lparr>fm_link := (fm_link m)\<lparr>fl_hops := fl_hops (fm_link m) + 1,
           fl_trace := fl_trace (fm_link m) @ [ro_local ro]\<rparr>\<rparr> \<and> ok = sent m' \<and> fl_target (fm_link m) \<noteq> ro_local ro"
  using assms
  by (auto simp: route_def Let_def forward_def cleanup_stale_rounds_def split: if_splits)

lemma route_delivered: "snd (route now sent m ro) = Delivered \<Longrightarrow> can_forward (fm_link m) \<and> fl_target (fm_link m) = ro_local ro"
  by (auto simp: route_def Let_def cleanup_stale_rounds_def split: if_splits)

text \<open>C27: However the nodes are connected, a message is forwarded at most as often as its hop limit allows, and
  its trace lists the routers that forwarded it.  It is delivered only at its target and only while its hop
  count is below the limit, so the last hop the limit allows never leads to a delivery.\<close>

theorem messages_do_not_circulate:
  assumes "travel rs m = (vs, m', r)"
  shows "int (length vs) \<le> max 0 (fl_max_hops (fm_link m) - fl_hops (fm_link m)) \<and>
         fl_trace (fm_link m') = fl_trace (fm_link m) @ vs \<and> fl_hops (fm_link m') = fl_hops (fm_link m) + int (length vs) \<and>
         fl_target (fm_link m') = fl_target (fm_link m) \<and> fm_business m' = fm_business m \<and>
         (r = Some Delivered \<longrightarrow> fl_hops (fm_link m) + int (length vs) < fl_max_hops (fm_link m) \<and>
            (\<exists>now sent ro. (now, sent, ro) \<in> set rs \<and> ro_local ro = fl_target (fm_link m)))"
  using assms
proof (induction rs arbitrary: m vs)
  case (Cons step rs)
  obtain now sent ro where s: "step = (now, sent, ro)" by (cases step)
  show ?case
  proof (cases "\<exists>m1. snd (route now sent m ro) = Forwarded m1 True")
    case True
    then obtain m1 where m1: "snd (route now sent m ro) = Forwarded m1 True" ..
    then obtain ws where ws: "travel rs m1 = (ws, m', r)" "vs = ro_local ro # ws"
      using Cons.prems s by (auto split: prod.splits)
    show ?thesis using Cons.IH [OF ws(1)] ws(2) route_forwarded [OF m1] s by (auto simp: can_forward_def)
  next
    case False
    then have e: "vs = []" "m' = m" "r = Some (snd (route now sent m ro))"
      using Cons.prems s by (auto split: hop_result.splits bool.splits)
    show ?thesis using e s route_delivered [of now sent m ro] by (auto simp: can_forward_def)
  qed
qed simp

theorem messages_do_not_circulate_witness:
  "int (length [''a'']) \<le> max 0 (fl_max_hops (fm_link demo_fmp) - fl_hops (fm_link demo_fmp))"
proof -
  have "travel [(0, \<lambda>_. True, router_init ''a'' True), (0, \<lambda>_. True, router_init ''b'' True)] demo_fmp =
    ([''a''], demo_fmp\<lparr>fm_link := (fm_link demo_fmp)\<lparr>fl_hops := 1, fl_trace := [''a'']\<rparr>\<rparr>, Some Delivered)"
    by (simp add: demo_fmp_def router_init_def route_def Let_def cleanup_stale_rounds_def can_forward_def forward_def
        rounds_used_up_def touch_round_def)
  from messages_do_not_circulate [OF this] show ?thesis by simp
qed

end
