(* ===== verification/KvStore.thy ===== *)
theory KvStore
  imports FmpCodec "HOL-Library.List_Lexorder" "HOL-Library.Char_ord"
begin

text \<open>
  The key-value store (\<open>storage/kv_store.py\<close>): entries with a lifetime, the index of partitions, snapshots and
  their restoration, and the reads and writes of other nodes, whose handlers are in \<open>protocol/fmp_server.py\<close>.
  The file of a snapshot is the JSON value it holds; the network is the function from the request to the
  answer, None when the answer does not come in time.  \<open>max_entries\<close> and \<open>auto_save_interval\<close> are stored by
  the constructor and read nowhere, so they have no counterpart.
\<close>

record stored_entry =
  ke_value :: json
  ke_partition :: string
  ke_created :: time
  ke_updated :: time
  ke_ttl :: real
  ke_version :: int

record kv_store =
  kv_entries :: "(string, stored_entry) dict"
  kv_parts :: "(string, string list) dict"
  kv_dirty :: bool
  kv_pending :: "string list"

definition kv_init :: kv_store where
  "kv_init = \<lparr>kv_entries = [], kv_parts = [], kv_dirty = False, kv_pending = []\<rparr>"

definition kv_expired :: "time \<Rightarrow> stored_entry \<Rightarrow> bool" where
  "kv_expired now e \<longleftrightarrow> (if ke_ttl e \<le> 0 then False else now - ke_updated e > ke_ttl e)"

definition kv_put :: "time \<Rightarrow> string \<Rightarrow> json \<Rightarrow> string \<Rightarrow> real \<Rightarrow> kv_store \<Rightarrow> kv_store" where
  "kv_put now k v p ttl s =
     (let old = dget (kv_entries s) k;
          e = \<lparr>ke_value = v, ke_partition = p, ke_created = (case old of Some o1 \<Rightarrow> ke_created o1 | None \<Rightarrow> now),
               ke_updated = now, ke_ttl = ttl, ke_version = (case old of Some o1 \<Rightarrow> ke_version o1 + 1 | None \<Rightarrow> 1)\<rparr>
      in s\<lparr>kv_entries := dset (kv_entries s) k e,
           kv_parts := dset (kv_parts s) p (sadd k (dget_or (kv_parts s) p [])), kv_dirty := True\<rparr>)"

definition kv_delete :: "string \<Rightarrow> kv_store \<Rightarrow> kv_store \<times> bool" where
  "kv_delete k s =
     (case dget (kv_entries s) k of
        None \<Rightarrow> (s, False)
      | Some e \<Rightarrow>
          (let part = dget_or (kv_parts s) (ke_partition e) []; part' = sdiscard k part
           in (s\<lparr>kv_entries := dpop (kv_entries s) k,
                 kv_parts := (if part = [] then kv_parts s
                              else if part' = [] then dpop (kv_parts s) (ke_partition e)
                              else dset (kv_parts s) (ke_partition e) part'),
                 kv_dirty := True\<rparr>, True)))"

definition kv_get :: "time \<Rightarrow> string \<Rightarrow> json \<Rightarrow> kv_store \<Rightarrow> kv_store \<times> json" where
  "kv_get now k dflt s =
     (case dget (kv_entries s) k of
        None \<Rightarrow> (s, dflt)
      | Some e \<Rightarrow> if kv_expired now e then (fst (kv_delete k s), dflt) else (s, ke_value e))"

definition kv_get_entry :: "time \<Rightarrow> string \<Rightarrow> string option \<Rightarrow> kv_store \<Rightarrow> kv_store \<times> stored_entry option" where
  "kv_get_entry now k want_part s =
     (case dget (kv_entries s) k of
        None \<Rightarrow> (s, None)
      | Some e \<Rightarrow>
          if kv_expired now e then (fst (kv_delete k s), None)
          else case want_part of
                 Some p \<Rightarrow> (s, if ke_partition e \<noteq> p then None else Some e)
               | None \<Rightarrow> (s, Some e))"

definition kv_cleanup :: "time \<Rightarrow> kv_store \<Rightarrow> kv_store" where
  "kv_cleanup now s =
     fold (\<lambda>k s. fst (kv_delete k s)) (dkeys (filter (\<lambda>(k, e). kv_expired now e) (kv_entries s))) s"

text \<open>\<open>partition\<close> is empty for None: both are false.\<close>

definition kv_list_keys :: "time \<Rightarrow> string \<Rightarrow> string \<Rightarrow> kv_store \<Rightarrow> kv_store \<times> string list" where
  "kv_list_keys now p pre s =
     (let s1 = kv_cleanup now s;
          keys = (if p \<noteq> [] then dget_or (kv_parts s1) p [] else dkeys (kv_entries s1))
      in (s1, sort (if pre \<noteq> [] then filter (\<lambda>k. starts_with k pre) keys else keys)))"

definition kv_list_partition :: "time \<Rightarrow> string \<Rightarrow> kv_store \<Rightarrow> kv_store \<times> (string, json) dict" where
  "kv_list_partition now p s =
     (let s1 = kv_cleanup now s
      in (s1, concat (map (\<lambda>k. case dget (kv_entries s1) k of
                                 Some e \<Rightarrow> if kv_expired now e then [] else [(k, ke_value e)]
                               | None \<Rightarrow> []) (dget_or (kv_parts s1) p []))))"

subsection \<open>Snapshots\<close>

definition kv_snap_item :: "string \<times> stored_entry \<Rightarrow> json" where
  "kv_snap_item x =
     (case x of (k, e) \<Rightarrow>
        JObj [(''key'', JStr k), (''value'', ke_value e), (''partition'', JStr (ke_partition e)),
              (''ttl_seconds'', JReal (ke_ttl e)), (''version'', JInt (ke_version e))])"

definition kv_snapshot :: "time \<Rightarrow> kv_store \<Rightarrow> kv_store \<times> json" where
  "kv_snapshot now s =
     (let s1 = kv_cleanup now s; items = map kv_snap_item (kv_entries s1)
      in (s1, JObj [(''snapshot_at'', JReal now), (''entry_count'', JInt (int (length items))), (''entries'', JList items)]))"

text \<open>One item: the store and whether it was restored.\<close>

definition kv_restore_item :: "time \<Rightarrow> bool \<Rightarrow> (string, json) dict \<Rightarrow> kv_store \<Rightarrow> py_error + kv_store \<times> bool" where
  "kv_restore_item now merge d s =
     and_then (need as_text d ''key'') (\<lambda>k.
       if \<not> merge \<and> dget (kv_entries s) k \<noteq> None then Inr (s, False)
       else and_then (need Some d ''value'') (\<lambda>v.
            and_then (want as_text d ''partition'' ''default'') (\<lambda>p.
            and_then (want as_real d ''ttl_seconds'' 0) (\<lambda>ttl.
            and_then (want as_int d ''version'' 1) (\<lambda>n.
              let s1 = kv_put now k v p ttl s
              in Inr (case dget (kv_entries s1) k of
                        Some e \<Rightarrow> (s1\<lparr>kv_entries := dset (kv_entries s1) k (e\<lparr>ke_version := n\<rparr>)\<rparr>, True)
                      | None \<Rightarrow> (s1, True)))))))"

text \<open>The loop over the items; an exception ends it and leaves what was restored before.\<close>

fun kv_restore_items :: "time \<Rightarrow> bool \<Rightarrow> json list \<Rightarrow> kv_store \<Rightarrow> int \<Rightarrow> kv_store \<times> (py_error + int)" where
  "kv_restore_items now merge [] s n = (s, Inr n)"
| "kv_restore_items now merge (JObj d # items) s n =
     (case kv_restore_item now merge d s of
        Inl err \<Rightarrow> (s, Inl err)
      | Inr (s1, done) \<Rightarrow> kv_restore_items now merge items s1 (if done then n + 1 else n))"
| "kv_restore_items now merge (_ # items) s n = (s, Inl (TypeErrorPy ''item''))"

definition kv_restore :: "time \<Rightarrow> bool \<Rightarrow> json option \<Rightarrow> kv_store \<Rightarrow> kv_store \<times> (py_error + int)" where
  "kv_restore now merge stored s =
     (case stored of
        None \<Rightarrow> (s, Inr 0)
      | Some (JObj d) \<Rightarrow>
          (case dget d ''entries'' of
             None \<Rightarrow> (s, Inr 0)
           | Some (JList items) \<Rightarrow> kv_restore_items now merge items s 0
           | Some _ \<Rightarrow> (s, Inl (TypeErrorPy ''entries'')))
      | Some _ \<Rightarrow> (s, Inl (TypeErrorPy ''snapshot'')))"

definition kv_save :: "time \<Rightarrow> bool \<Rightarrow> json option \<Rightarrow> kv_store \<Rightarrow> kv_store \<times> json option \<times> bool" where
  "kv_save now writable stored s =
     (let (s1, data) = kv_snapshot now s
      in if writable then (s1\<lparr>kv_dirty := False\<rparr>, Some data, True) else (s1, stored, False))"

definition kv_load :: "time \<Rightarrow> json option \<Rightarrow> kv_store \<Rightarrow> kv_store \<times> int" where
  "kv_load now stored s =
     (case kv_restore now False stored s of (s1, Inr n) \<Rightarrow> (s1, n) | (s1, Inl _) \<Rightarrow> (s1, 0))"

subsection \<open>Other nodes\<close>

text \<open>The handlers of \<open>register_kv_handler\<close>: the store afterwards and the type and payload of the answer.  An
  exception is logged and leaves no answer.\<close>

definition on_kv_get :: "time \<Rightarrow> bool \<Rightarrow> (string, json) dict \<Rightarrow> kv_store \<Rightarrow> kv_store \<times> (payload_type \<times> (string, json) dict) option" where
  "on_kv_get now has_sender d s =
     (if \<not> has_sender then (s, None)
      else case and_then (need as_text d ''key'') (\<lambda>k. and_then (want as_text d ''partition'' ''default'') (\<lambda>p. Inr (k, p))) of
             Inl _ \<Rightarrow> (s, None)
           | Inr (k, p) \<Rightarrow>
               (let (s1, r) = kv_get_entry now k (Some p) s
                in (s1, Some (PT_KV_GET_RESP,
                     [(''request_id'', jget d ''request_id'' (JStr [])), (''key'', JStr k), (''found'', JBool (r \<noteq> None)),
                      (''value'', (case r of Some e \<Rightarrow> ke_value e | None \<Rightarrow> JNull)), (''partition'', JStr p)]))))"

definition on_kv_put :: "time \<Rightarrow> bool \<Rightarrow> (string, json) dict \<Rightarrow> kv_store \<Rightarrow> kv_store \<times> (payload_type \<times> (string, json) dict) option" where
  "on_kv_put now has_sender d s =
     (if \<not> has_sender then (s, None)
      else case and_then (need as_text d ''key'') (\<lambda>k. and_then (need Some d ''value'') (\<lambda>v.
             and_then (want as_text d ''partition'' ''default'') (\<lambda>p.
             and_then (if truthy (jget d ''ttl'' JNull) then want as_real d ''ttl'' 0 else Inr 0) (\<lambda>ttl. Inr (k, v, p, ttl))))) of
             Inl _ \<Rightarrow> (s, None)
           | Inr (k, v, p, ttl) \<Rightarrow>
               (kv_put now k v p ttl s,
                Some (PT_KV_PUT_ACK,
                  [(''request_id'', jget d ''request_id'' (JStr [])), (''key'', JStr k), (''success'', JBool True),
                   (''partition'', JStr p)])))"

text \<open>\<open>handle_kv_response\<close>: the request that is taken from the table, with the result its future is set to.\<close>

definition handle_kv_response :: "payload_type \<Rightarrow> (string, json) dict \<Rightarrow> kv_store \<Rightarrow> kv_store \<times> (string \<times> json) option" where
  "handle_kv_response pt d s =
     (case want as_text d ''request_id'' [] of
        Inl _ \<Rightarrow> (s, None)
      | Inr rid \<Rightarrow>
          if rid \<notin> set (kv_pending s) then (s, None)
          else (s\<lparr>kv_pending := sdiscard rid (kv_pending s)\<rparr>,
                if pt = PT_KV_GET_RESP then Some (rid, if truthy (jget d ''found'' JNull) then jget d ''value'' JNull else JNull)
                else if pt = PT_KV_PUT_ACK then Some (rid, jget d ''success'' (JBool False))
                else None))"

text \<open>What \<open>wait_for(future)\<close> gives for request \<open>rid\<close> when the answer \<open>ans\<close> comes in time.\<close>

definition await_kv :: "string \<Rightarrow> (payload_type \<times> (string, json) dict) option \<Rightarrow> kv_store \<Rightarrow> kv_store \<times> json option" where
  "await_kv rid ans s =
     (let s1 = s\<lparr>kv_pending := sadd rid (kv_pending s)\<rparr>;
          (s2, r) = (case ans of None \<Rightarrow> (s1, None) | Some (pt, d) \<Rightarrow> handle_kv_response pt d s1)
      in (s2\<lparr>kv_pending := sdiscard rid (kv_pending s2)\<rparr>,
          case r of Some (rid', v) \<Rightarrow> (if rid' = rid then Some v else None) | None \<Rightarrow> None))"

definition get_remote ::
  "bool \<Rightarrow> string \<Rightarrow> ((string, json) dict \<Rightarrow> (payload_type \<times> (string, json) dict) option) \<Rightarrow> string \<Rightarrow> string \<Rightarrow> kv_store \<Rightarrow> kv_store \<times> json" where
  "get_remote has_fmp rid net k p s =
     (if \<not> has_fmp then (s, JNull)
      else let (s1, r) = await_kv rid (net [(''key'', JStr k), (''partition'', JStr p), (''request_id'', JStr rid)]) s
           in (s1, case r of Some v \<Rightarrow> v | None \<Rightarrow> JNull))"

definition put_remote ::
  "bool \<Rightarrow> string \<Rightarrow> ((string, json) dict \<Rightarrow> (payload_type \<times> (string, json) dict) option) \<Rightarrow> string \<Rightarrow> json \<Rightarrow> string \<Rightarrow> real \<Rightarrow> kv_store \<Rightarrow> kv_store \<times> bool" where
  "put_remote has_fmp rid net k v p ttl s =
     (if \<not> has_fmp then (s, False)
      else let (s1, r) = await_kv rid (net [(''key'', JStr k), (''value'', v), (''partition'', JStr p), (''ttl'', JReal ttl),
                                            (''request_id'', JStr rid)]) s
           in (s1, case r of Some v \<Rightarrow> truthy v | None \<Rightarrow> False))"


subsection \<open>The store as a map whose entries expire\<close>

text \<open>What a reader at a time sees.\<close>

definition kv_view :: "time \<Rightarrow> kv_store \<Rightarrow> string \<Rightarrow> (json \<times> string) option" where
  "kv_view now s k =
     (case dget (kv_entries s) k of None \<Rightarrow> None
      | Some e \<Rightarrow> if kv_expired now e then None else Some (ke_value e, ke_partition e))"

datatype kv_op =
    KPut string json string real
  | KDelete string
  | KGet string
  | KGetEntry string "string option"
  | KKeys string string
  | KPartition string
  | KSnapshot
  | KRestore bool "json list"

definition kv_step :: "time \<Rightarrow> kv_op \<Rightarrow> kv_store \<Rightarrow> kv_store" where
  "kv_step now op s =
     (case op of
        KPut k v p ttl \<Rightarrow> kv_put now k v p ttl s
      | KDelete k \<Rightarrow> fst (kv_delete k s)
      | KGet k \<Rightarrow> fst (kv_get now k JNull s)
      | KGetEntry k p \<Rightarrow> fst (kv_get_entry now k p s)
      | KKeys p pre \<Rightarrow> fst (kv_list_keys now p pre s)
      | KPartition p \<Rightarrow> fst (kv_list_partition now p s)
      | KSnapshot \<Rightarrow> fst (kv_snapshot now s)
      | KRestore merge items \<Rightarrow> fst (kv_restore_items now merge items s 0))"

definition item_key :: "json \<Rightarrow> string option" where
  "item_key v = (case v of JObj d \<Rightarrow> value_of (need as_text d ''key'') | _ \<Rightarrow> None)"

definition kv_writes :: "string \<Rightarrow> kv_op \<Rightarrow> bool" where
  "kv_writes k op =
     (case op of KPut k' _ _ _ \<Rightarrow> k' = k | KDelete k' \<Rightarrow> k' = k
      | KRestore _ items \<Rightarrow> Some k \<in> set (map item_key items) | _ \<Rightarrow> False)"

text \<open>The contract the readers of a store rely on: a reader at a time sees what was put, and an operation
  that does not write a key leaves what a reader sees of it from then on.\<close>

locale expiring_map =
  fixes view :: "time \<Rightarrow> 's \<Rightarrow> 'k \<Rightarrow> 'v option" and step :: "time \<Rightarrow> 'op \<Rightarrow> 's \<Rightarrow> 's"
    and writes :: "'k \<Rightarrow> 'op \<Rightarrow> bool" and invar :: "'s \<Rightarrow> bool"
  assumes invar_step: "invar s \<Longrightarrow> invar (step now op s)"
    and view_step: "invar s \<Longrightarrow> \<not> writes k op \<Longrightarrow> now \<le> later \<Longrightarrow> view later (step now op s) k = view later s k"
begin

lemma invar_run: "invar s \<Longrightarrow> invar (fold (\<lambda>(now, op). step now op) ops s)"
  by (induction ops arbitrary: s) (auto simp: invar_step)

lemma view_run:
  "invar s \<Longrightarrow> \<forall>(now, op) \<in> set ops. now \<le> later \<and> \<not> writes k op \<Longrightarrow>
   view later (fold (\<lambda>(now, op). step now op) ops s) k = view later s k"
  by (induction ops arbitrary: s) (auto simp: view_step invar_step)

end

lemma entries_put: "dget (kv_entries (kv_put now k v p ttl s)) k' =
    (if k' = k then Some \<lparr>ke_value = v, ke_partition = p,
       ke_created = (case dget (kv_entries s) k of Some o1 \<Rightarrow> ke_created o1 | None \<Rightarrow> now), ke_updated = now, ke_ttl = ttl,
       ke_version = (case dget (kv_entries s) k of Some o1 \<Rightarrow> ke_version o1 + 1 | None \<Rightarrow> 1)\<rparr>
     else dget (kv_entries s) k')"
  by (simp add: kv_put_def Let_def)

lemma entries_delete: "dget (kv_entries (fst (kv_delete k s))) k' = (if k' = k then None else dget (kv_entries s) k')"
  by (auto simp: kv_delete_def Let_def split: option.splits)

lemma view_put: "kv_view later (kv_put now k v p ttl s) k' =
    (if k' = k then (if 0 < ttl \<and> later - now > ttl then None else Some (v, p)) else kv_view later s k')"
  by (simp add: kv_view_def entries_put kv_expired_def)

lemma view_delete: "kv_view now (fst (kv_delete k s)) = (kv_view now s)(k := None)"
  by (auto simp: kv_view_def entries_delete)

lemma expired_later: "kv_expired now e \<Longrightarrow> now \<le> later \<Longrightarrow> kv_expired later e"
  by (auto simp: kv_expired_def split: if_splits)

lemma entries_deletes:
  "dget (kv_entries (fold (\<lambda>k s. fst (kv_delete k s)) ks s)) k' = (if k' \<in> set ks then None else dget (kv_entries s) k')"
  by (induction ks arbitrary: s) (auto simp: entries_delete)

definition kv_wf :: "kv_store \<Rightarrow> bool" where
  "kv_wf s \<longleftrightarrow> dwf (kv_entries s) \<and> dwf (kv_parts s) \<and>
     (\<forall>k e. dget (kv_entries s) k = Some e \<longrightarrow> k \<in> set (dget_or (kv_parts s) (ke_partition e) []))"

lemma part_put: "dget_or (kv_parts (kv_put now k v p ttl s)) q [] =
    (if q = p then sadd k (dget_or (kv_parts s) p []) else dget_or (kv_parts s) q [])"
  by (simp add: kv_put_def Let_def dget_or_def)

lemma sdiscard_empty: "sdiscard k xs = [] \<longleftrightarrow> set xs \<subseteq> {k}"
  using set_sdiscard [of k xs] by (metis Diff_eq_empty_iff set_empty)

lemma part_delete: "k' \<in> set (dget_or (kv_parts (fst (kv_delete k s))) q []) \<longleftrightarrow>
    k' \<in> set (dget_or (kv_parts s) q []) \<and>
    \<not> (k' = k \<and> (\<exists>e. dget (kv_entries s) k = Some e \<and> ke_partition e = q))"
  by (auto simp: kv_delete_def Let_def dget_or_def sdiscard_empty split: option.splits)

lemma kv_wf_init: "kv_wf kv_init"
  by (simp add: kv_wf_def kv_init_def)

lemma kv_wf_put: "kv_wf s \<Longrightarrow> kv_wf (kv_put now k v p ttl s)"
proof -
  assume s: "kv_wf s"
  then have "dwf (kv_entries (kv_put now k v p ttl s))" "dwf (kv_parts (kv_put now k v p ttl s))"
    by (simp_all add: kv_wf_def kv_put_def Let_def)
  then show ?thesis using s by (auto simp: kv_wf_def entries_put part_put split: if_splits)
qed

lemma kv_wf_delete: "kv_wf s \<Longrightarrow> kv_wf (fst (kv_delete k s))"
proof -
  assume s: "kv_wf s"
  then have "dwf (kv_entries (fst (kv_delete k s)))" "dwf (kv_parts (fst (kv_delete k s)))"
    by (auto simp: kv_wf_def kv_delete_def Let_def split: option.splits)
  moreover have "k' \<in> set (dget_or (kv_parts (fst (kv_delete k s))) (ke_partition e) [])"
    if e: "dget (kv_entries (fst (kv_delete k s))) k' = Some e" for k' e
  proof -
    have "k' \<noteq> k" "dget (kv_entries s) k' = Some e" using e by (auto simp: entries_delete split: if_splits)
    then have "k' \<in> set (dget_or (kv_parts s) (ke_partition e) [])" "k' \<noteq> k" using s by (simp_all add: kv_wf_def)
    then show ?thesis by (simp add: part_delete)
  qed
  ultimately show ?thesis by (simp add: kv_wf_def)
qed

lemma kv_wf_deletes: "kv_wf s \<Longrightarrow> kv_wf (fold (\<lambda>k s. fst (kv_delete k s)) ks s)"
  by (induction ks arbitrary: s) (auto simp: kv_wf_delete)

lemma kv_wf_cleanup: "kv_wf s \<Longrightarrow> kv_wf (kv_cleanup now s)"
  by (simp add: kv_cleanup_def kv_wf_deletes)

lemma entries_cleanup:
  assumes "kv_wf s"
  shows "dget (kv_entries (kv_cleanup now s)) k =
    (case dget (kv_entries s) k of Some e \<Rightarrow> if kv_expired now e then None else Some e | None \<Rightarrow> None)"
proof -
  have "k \<in> set (dkeys (filter (\<lambda>(k, e). kv_expired now e) (kv_entries s))) \<longleftrightarrow>
      (\<exists>e. dget (kv_entries s) k = Some e \<and> kv_expired now e)"
    using assms dget_dwf_iff [of "kv_entries s" k] by (force simp: kv_wf_def)
  then show ?thesis unfolding kv_cleanup_def entries_deletes by (auto split: option.splits)
qed

lemma view_cleanup: "kv_wf s \<Longrightarrow> now \<le> later \<Longrightarrow> kv_view later (kv_cleanup now s) k = kv_view later s k"
  by (auto simp: kv_view_def entries_cleanup dest: expired_later split: option.splits)

text \<open>An item of a snapshot touches its own key only.\<close>

lemma restore_item_cases:
  assumes "kv_restore_item now merge d s = Inr (s1, done)"
  obtains "s1 = s" "\<not> done"
  | k v p ttl n e where "item_key (JObj d) = Some k" "done" "dget (kv_entries (kv_put now k v p ttl s)) k = Some e"
      "s1 = (kv_put now k v p ttl s)\<lparr>kv_entries := dset (kv_entries (kv_put now k v p ttl s)) k (e\<lparr>ke_version := n\<rparr>)\<rparr>"
  using assms
  by (auto simp: kv_restore_item_def item_key_def and_then_Inr entries_put Let_def split: if_splits)

lemma kv_wf_version:
  "kv_wf s \<Longrightarrow> dget (kv_entries s) k = Some e \<Longrightarrow> kv_wf (s\<lparr>kv_entries := dset (kv_entries s) k (e\<lparr>ke_version := n\<rparr>)\<rparr>)"
  by (auto simp: kv_wf_def)

lemma restore_item_frame:
  assumes "kv_restore_item now merge d s = Inr (s1, done)" "kv_wf s"
  shows "kv_wf s1 \<and> (Some k \<noteq> item_key (JObj d) \<longrightarrow> dget (kv_entries s1) k = dget (kv_entries s) k)"
  using assms(1)
proof (cases rule: restore_item_cases)
  case (2 k' v p ttl n e)
  then show ?thesis using kv_wf_version [OF kv_wf_put [OF assms(2)], of now k' v p ttl k' e n] by (auto simp: entries_put)
qed (use assms(2) in simp)

lemma restore_items_frame:
  "kv_wf s \<Longrightarrow> kv_wf (fst (kv_restore_items now merge items s n)) \<and>
     (Some k \<notin> set (map item_key items) \<longrightarrow>
        dget (kv_entries (fst (kv_restore_items now merge items s n))) k = dget (kv_entries s) k)"
proof (induction now merge items s n rule: kv_restore_items.induct)
  case (2 now merge d items s n)
  show ?case
  proof (cases "kv_restore_item now merge d s")
    case (Inl e)
    then show ?thesis using 2(2) by simp
  next
    case (Inr r)
    then obtain s1 fresh where r: "kv_restore_item now merge d s = Inr (s1, fresh)" by (cases r) simp
    note f = restore_item_frame [OF r 2(2), of k]
    have "kv_wf (fst (kv_restore_items now merge items s1 (if fresh then n + 1 else n))) \<and>
        (Some k \<notin> set (map item_key items) \<longrightarrow>
         dget (kv_entries (fst (kv_restore_items now merge items s1 (if fresh then n + 1 else n)))) k = dget (kv_entries s1) k)"
      using 2(1) [OF r refl] f by blast
    then show ?thesis using f r by auto
  qed
qed simp_all

lemma kv_wf_step: "kv_wf s \<Longrightarrow> kv_wf (kv_step now op s)"
  using restore_items_frame [of s]
  by (auto simp: kv_step_def kv_wf_put kv_wf_delete kv_wf_cleanup kv_get_def kv_get_entry_def kv_list_keys_def
      kv_list_partition_def kv_snapshot_def Let_def split: kv_op.splits option.splits)

lemma view_step_kv:
  assumes "kv_wf s" "\<not> kv_writes k op" "now \<le> later"
  shows "kv_view later (kv_step now op s) k = kv_view later s k"
proof (cases op)
  case (KGet k')
  then show ?thesis using expired_later [OF _ assms(3)]
    by (auto simp: kv_step_def kv_get_def kv_view_def entries_delete split: option.splits)
next
  case (KGetEntry k' p)
  then show ?thesis using expired_later [OF _ assms(3)]
    by (auto simp: kv_step_def kv_get_entry_def kv_view_def entries_delete split: option.splits)
next
  case (KRestore merge items)
  then show ?thesis using restore_items_frame [OF assms(1)] assms(2) by (simp add: kv_step_def kv_writes_def kv_view_def)
qed (use assms view_cleanup [OF assms(1,3)] in \<open>simp_all add: kv_step_def kv_writes_def view_put view_delete
   kv_list_keys_def kv_list_partition_def kv_snapshot_def Let_def\<close>)

interpretation kv: expiring_map kv_view kv_step kv_writes kv_wf
  by unfold_locales (simp_all add: kv_wf_step view_step_kv)

abbreviation kv_run :: "(time \<times> kv_op) list \<Rightarrow> kv_store \<Rightarrow> kv_store" where
  "kv_run ops s \<equiv> fold (\<lambda>(now, op). kv_step now op) ops s"

lemma get_view: "snd (kv_get now k dflt s) = (case kv_view now s k of Some (v, p) \<Rightarrow> v | None \<Rightarrow> dflt)"
  by (auto simp: kv_get_def kv_view_def split: option.splits)


text \<open>C29: The store is a map whose entries expire: after a put, and any later operations that do not write the
  key, a read gives the value as long as its lifetime has not passed and the default afterwards, and another
  key is seen as before the put.\<close>

theorem kv_refines_map:
  assumes s: "kv_wf s" and ops: "\<forall>(t, op) \<in> set ops. t \<le> later \<and> \<not> kv_writes k op"
    and other: "k' \<noteq> k" "\<forall>(t, op) \<in> set ops. \<not> kv_writes k' op"
  shows "let s' = kv_run ops (kv_put now k v p ttl s)
         in snd (kv_get later k dflt s') = (if 0 < ttl \<and> later - now > ttl then dflt else v) \<and>
            kv_view later s' k' = kv_view later s k' \<and>
            (snd (kv_get_entry later k (Some q) s') \<noteq> None \<longrightarrow> q = p)"
proof -
  let ?s = "kv_put now k v p ttl s"
  have v: "kv_view later (kv_run ops ?s) k = kv_view later ?s k"
    by (rule kv.view_run [OF kv_wf_put [OF s] ops])
  have "\<forall>(t, op) \<in> set ops. t \<le> later \<and> \<not> kv_writes k' op" using ops other(2) by fastforce
  then have w: "kv_view later (kv_run ops ?s) k' = kv_view later ?s k'"
    by (rule kv.view_run [OF kv_wf_put [OF s]])
  have g: "snd (kv_get_entry later k (Some q) s') \<noteq> None \<Longrightarrow> \<exists>u. kv_view later s' k = Some (u, q)" for s'
    by (auto simp: kv_get_entry_def kv_view_def split: option.splits if_splits)
  show ?thesis
    using v w other(1) g [of "kv_run ops ?s"] by (auto simp: Let_def get_view view_put split: if_splits)
qed


theorem kv_refines_map_witness:
  "snd (kv_get 7 ''k'' JNull (kv_run [(2, KGet ''k''), (3, KSnapshot)] (kv_put 1 ''k'' (JInt 5) ''p'' 9 kv_init))) = JInt 5 \<and>
   snd (kv_get 20 ''k'' JNull (kv_run [(2, KGet ''k''), (3, KSnapshot)] (kv_put 1 ''k'' (JInt 5) ''p'' 9 kv_init))) = JNull"
  using kv_refines_map [OF kv_wf_init, of "[(2, KGet ''k''), (3, KSnapshot)]" 7 "''k''" "''j''" 1 "JInt 5" "''p''" 9 JNull]
    kv_refines_map [OF kv_wf_init, of "[(2, KGet ''k''), (3, KSnapshot)]" 20 "''k''" "''j''" 1 "JInt 5" "''p''" 9 JNull]
  by (simp add: kv_writes_def Let_def)

subsection \<open>Partitions\<close>

lemma part_deletes: "k' \<in> set (dget_or (kv_parts (fold (\<lambda>k s. fst (kv_delete k s)) ks s)) q []) \<longleftrightarrow>
    k' \<in> set (dget_or (kv_parts s) q []) \<and>
    \<not> (k' \<in> set ks \<and> (\<exists>e. dget (kv_entries s) k' = Some e \<and> ke_partition e = q))"
proof (induction ks arbitrary: s)
  case (Cons k ks)
  then show ?case by (auto simp: entries_delete part_delete split: if_splits)
qed simp

lemma part_live:
  "kv_wf s \<Longrightarrow> kv_view now s k = Some (v, p') \<Longrightarrow> k \<in> set (dget_or (kv_parts s) p []) \<Longrightarrow>
   k \<in> set (dget_or (kv_parts (kv_cleanup now s)) p [])"
  using dget_dwf_iff [of "kv_entries s" k]
  by (force simp: kv_cleanup_def part_deletes kv_wf_def kv_view_def split: option.splits if_splits)

lemma list_partition_mem:
  assumes "kv_wf s" "kv_view now s k = Some (v, p')" "k \<in> set (dget_or (kv_parts s) p [])"
  shows "(k, v) \<in> set (snd (kv_list_partition now p s))"
proof -
  obtain e where e: "dget (kv_entries s) k = Some e" "\<not> kv_expired now e" "ke_value e = v"
    using assms(2) by (auto simp: kv_view_def split: option.splits if_splits)
  then have "dget (kv_entries (kv_cleanup now s)) k = Some e" using assms(1) by (simp add: entries_cleanup)
  then show ?thesis
    using part_live [OF assms] e by (auto simp: kv_list_partition_def Let_def intro!: bexI [of _ k])
qed

text \<open>Every live entry is listed in its partition.  But a key that is put again into another partition stays
  in the index of the first: it is listed there with the value of the other partition, although a read of
  the first partition does not find it, and it stays listed there after it was deleted.\<close>

theorem moved_key_stays_listed:
  assumes s: "kv_wf s" and pq: "p \<noteq> q" "p \<noteq> []"
  shows "(kv_view now s k' = Some (v', p') \<longrightarrow> (k', v') \<in> set (snd (kv_list_partition now p' s))) \<and>
         (let s2 = kv_put t2 k v q 0 (kv_put t1 k v1 p ttl s)
          in (k, v) \<in> set (snd (kv_list_partition now p s2)) \<and> snd (kv_get_entry now k (Some p) s2) = None \<and>
            k \<in> set (snd (kv_list_keys now p [] (fst (kv_delete k s2)))))"
proof (intro conjI impI)
  assume v: "kv_view now s k' = Some (v', p')"
  then obtain e where "dget (kv_entries s) k' = Some e" "ke_partition e = p'"
    by (auto simp: kv_view_def split: option.splits if_splits)
  then have "k' \<in> set (dget_or (kv_parts s) p' [])" using s by (auto simp: kv_wf_def)
  then show "(k', v') \<in> set (snd (kv_list_partition now p' s))" by (rule list_partition_mem [OF s v])
next
  let ?s2 = "kv_put t2 k v q 0 (kv_put t1 k v1 p ttl s)"
  have w: "kv_wf ?s2" by (simp add: kv_wf_put s)
  have view: "kv_view now ?s2 k = Some (v, q)" by (simp add: view_put)
  have part: "k \<in> set (dget_or (kv_parts ?s2) p [])" using pq by (simp add: part_put)
  have "k \<in> set (dget_or (kv_parts (fst (kv_delete k ?s2))) p [])"
    using part pq by (auto simp: part_delete entries_put)
  then have "k \<in> set (dget_or (kv_parts (kv_cleanup now (fst (kv_delete k ?s2)))) p [])"
    by (simp add: kv_cleanup_def part_deletes entries_delete)
  moreover have "snd (kv_get_entry now k (Some p) ?s2) = None"
    using pq by (auto simp: kv_get_entry_def entries_put kv_expired_def)
  ultimately show "let s2 = ?s2
      in (k, v) \<in> set (snd (kv_list_partition now p s2)) \<and> snd (kv_get_entry now k (Some p) s2) = None \<and>
         k \<in> set (snd (kv_list_keys now p [] (fst (kv_delete k s2))))"
    using list_partition_mem [OF w view part] pq by (simp add: Let_def kv_list_keys_def)
qed

theorem moved_key_stays_listed_witness:
  "(''k'', JInt 2) \<in> set (snd (kv_list_partition 3 ''a'' (kv_put 2 ''k'' (JInt 2) ''b'' 0 (kv_put 1 ''k'' (JInt 1) ''a'' 0 kv_init))))"
  using moved_key_stays_listed [OF kv_wf_init, of "''a''" "''b''" 3 _ _ _ 2 "''k''" "JInt 2" 1 "JInt 1" 0] by (simp add: Let_def)

subsection \<open>Restart\<close>

lemma restore_item_fresh:
  "dget (kv_entries s) k = None \<Longrightarrow> \<exists>s1. kv_restore_item now False
     [(''key'', JStr k), (''value'', ke_value e), (''partition'', JStr (ke_partition e)), (''ttl_seconds'', JReal (ke_ttl e)),
      (''version'', JInt (ke_version e))] s = Inr (s1, True) \<and>
     kv_entries s1 = dset (kv_entries (kv_put now k (ke_value e) (ke_partition e) (ke_ttl e) s)) k (e\<lparr>ke_created := now, ke_updated := now\<rparr>)"
  by (cases e) (simp add: kv_restore_item_def field_simps_fmp entries_put Let_def)

lemma restore_snapshot:
  "dwf es \<Longrightarrow> \<forall>k \<in> set (dkeys es). dget (kv_entries s) k = None \<Longrightarrow>
   \<exists>s1. kv_restore_items now False (map kv_snap_item es) s n = (s1, Inr (n + int (length es))) \<and>
     (\<forall>k. dget (kv_entries s1) k =
        (case dget es k of Some e \<Rightarrow> Some (e\<lparr>ke_created := now, ke_updated := now\<rparr>) | None \<Rightarrow> dget (kv_entries s) k))"
proof (induction es arbitrary: s n)
  case (Cons x es)
  obtain k e where x: "x = (k, e)" by (cases x)
  obtain s1 where s1: "kv_restore_item now False
     [(''key'', JStr k), (''value'', ke_value e), (''partition'', JStr (ke_partition e)), (''ttl_seconds'', JReal (ke_ttl e)),
      (''version'', JInt (ke_version e))] s = Inr (s1, True)"
    and e1: "kv_entries s1 = dset (kv_entries (kv_put now k (ke_value e) (ke_partition e) (ke_ttl e) s)) k (e\<lparr>ke_created := now, ke_updated := now\<rparr>)"
    using restore_item_fresh [of s k now e] Cons.prems(2) x by auto
  have en: "dget (kv_entries s1) k' = (if k' = k then Some (e\<lparr>ke_created := now, ke_updated := now\<rparr>) else dget (kv_entries s) k')" for k'
    by (simp add: e1 entries_put)
  have k: "k \<notin> set (dkeys es)" "dwf es" using Cons.prems(1) x by (auto simp: dwf_def)
  then have "\<forall>k' \<in> set (dkeys es). dget (kv_entries s1) k' = None" using Cons.prems(2) x en by auto
  from Cons.IH [OF k(2) this, of "n + 1"] obtain s2 where
    s2: "kv_restore_items now False (map kv_snap_item es) s1 (n + 1) = (s2, Inr (n + 1 + int (length es)))"
    "\<forall>k'. dget (kv_entries s2) k' = (case dget es k' of Some e \<Rightarrow> Some (e\<lparr>ke_created := now, ke_updated := now\<rparr>)
        | None \<Rightarrow> dget (kv_entries s1) k')" by blast
  have "dget es k = None" using k(1) by (simp add: dget_None_iff)
  then have "\<forall>k'. dget (kv_entries s2) k' = (case dget (x # es) k' of Some e \<Rightarrow> Some (e\<lparr>ke_created := now, ke_updated := now\<rparr>)
        | None \<Rightarrow> dget (kv_entries s) k')" using s2(2) en x by (auto split: option.split)
  moreover have "kv_restore_items now False (map kv_snap_item (x # es)) s n = (s2, Inr (n + int (length (x # es))))"
    using s1 s2(1) x by (simp add: kv_snap_item_def)
  ultimately show ?case by blast
qed simp

text \<open>After a restart the store holds the live entries of the saved file with their values, partitions,
  versions and lifetimes; their age is forgotten, so every lifetime starts again at the restart.\<close>

theorem kv_restart:
  assumes s: "kv_wf s" and saved: "kv_save now True stored s = (s1, data, ok)"
    and loaded: "kv_load boot data kv_init = (s2, n)"
  shows "ok \<and> n = int (length (kv_entries s1)) \<and>
         dget (kv_entries s2) k =
           (case dget (kv_entries s) k of None \<Rightarrow> None
            | Some e \<Rightarrow> if kv_expired now e then None else Some (e\<lparr>ke_created := boot, ke_updated := boot\<rparr>)) \<and>
         (\<forall>e. dget (kv_entries s) k = Some e \<and> 0 < ke_ttl e \<and> \<not> kv_expired now e \<longrightarrow>
            kv_view (boot + ke_ttl e) s2 k = Some (ke_value e, ke_partition e))"
proof -
  have d: "ok" "kv_entries s1 = kv_entries (kv_cleanup now s)"
    "data = Some (JObj [(''snapshot_at'', JReal now), (''entry_count'', JInt (int (length (kv_entries s1)))),
       (''entries'', JList (map kv_snap_item (kv_entries s1)))])"
    using saved by (auto simp: kv_save_def kv_snapshot_def Let_def)
  have w: "dwf (kv_entries s1)" using kv_wf_cleanup [OF s] d(2) by (simp add: kv_wf_def)
  obtain s3 where r: "kv_restore_items boot False (map kv_snap_item (kv_entries s1)) kv_init 0 = (s3, Inr (0 + int (length (kv_entries s1))))"
    "\<forall>k. dget (kv_entries s3) k = (case dget (kv_entries s1) k of Some e \<Rightarrow> Some (e\<lparr>ke_created := boot, ke_updated := boot\<rparr>)
       | None \<Rightarrow> dget (kv_entries kv_init) k)"
    using restore_snapshot [OF w, of kv_init boot 0] by (auto simp: kv_init_def)
  then have "s2 = s3" "n = int (length (kv_entries s1))" using loaded d(3) by (auto simp: kv_load_def kv_restore_def)
  then have k: "ok \<and> n = int (length (kv_entries s1)) \<and> dget (kv_entries s2) k =
      (case dget (kv_entries s) k of None \<Rightarrow> None
       | Some e \<Rightarrow> if kv_expired now e then None else Some (e\<lparr>ke_created := boot, ke_updated := boot\<rparr>))"
    using d r(2) entries_cleanup [OF s, of now k] by (auto simp: kv_init_def split: option.splits)
  then show ?thesis by (auto simp: kv_view_def kv_expired_def)
qed

theorem kv_restart_witness:
  "\<exists>s1 data s2. kv_save 8 True None (kv_put 1 ''k'' (JInt 5) ''p'' 9 kv_init) = (s1, data, True) \<and>
     kv_load 9 data kv_init = (s2, 1) \<and> kv_view 18 s2 ''k'' = Some (JInt 5, ''p'')"
proof -
  let ?s = "kv_put 1 ''k'' (JInt 5) ''p'' 9 kv_init"
  obtain s1 data ok where sv: "kv_save 8 True None ?s = (s1, data, ok)" by (metis prod_cases3)
  obtain s2 n where ld: "kv_load 9 data kv_init = (s2, n)" by fastforce
  have "kv_entries s1 = kv_entries ?s"
    using sv by (auto simp: kv_save_def kv_snapshot_def kv_cleanup_def Let_def kv_put_def kv_init_def kv_expired_def)
  then have "length (kv_entries s1) = 1" by (simp add: kv_put_def kv_init_def Let_def)
  then show ?thesis
    using kv_restart [OF kv_wf_put [OF kv_wf_init] sv ld, of "''k''"] sv ld by (auto simp: entries_put kv_init_def kv_expired_def)
qed

subsection \<open>Another node\<close>

lemma await_answer:
  "pt = PT_KV_GET_RESP \<and> r = (if truthy (jget d ''found'' JNull) then jget d ''value'' JNull else JNull) \<or>
   pt = PT_KV_PUT_ACK \<and> r = jget d ''success'' (JBool False) \<Longrightarrow>
   dget d ''request_id'' = Some (JStr rid) \<Longrightarrow> snd (await_kv rid (Some (pt, d)) s) = Some r"
  by (auto simp: await_kv_def handle_kv_response_def want_def Let_def)

lemma await_none: "snd (await_kv rid None s) = None"
  by (simp add: await_kv_def)

lemma snd_remote:
  "snd (get_remote True rid net k p s) =
     (case snd (await_kv rid (net [(''key'', JStr k), (''partition'', JStr p), (''request_id'', JStr rid)]) s) of
        Some v \<Rightarrow> v | None \<Rightarrow> JNull)"
  "snd (put_remote True rid net k v p ttl s) =
     (case snd (await_kv rid (net [(''key'', JStr k), (''value'', v), (''partition'', JStr p), (''ttl'', JReal ttl),
        (''request_id'', JStr rid)]) s) of Some v \<Rightarrow> truthy v | None \<Rightarrow> False)"
  by (simp_all add: get_remote_def put_remote_def split: prod.split)

text \<open>A value that is put on another node is read back from there while it lives: the put is acknowledged,
  and after any operations of the other node that do not write the key a read with the same partition gives
  the value, with another partition nothing.  A store without an answer in time reports failure.\<close>

theorem remote_put_then_get:
  assumes b: "kv_wf b" and ops: "\<forall>(t, op) \<in> set ops. t \<le> later \<and> \<not> kv_writes k op"
    and alive: "ttl \<le> 0 \<or> later - now \<le> ttl"
    and b1: "b1 = fst (on_kv_put now True [(''key'', JStr k), (''value'', v), (''partition'', JStr p), (''ttl'', JReal ttl),
                                           (''request_id'', JStr r1)] b)"
  shows "snd (put_remote True r1 (\<lambda>d. snd (on_kv_put now True d b)) k v p ttl a) \<and>
         snd (get_remote True r2 (\<lambda>d. snd (on_kv_get later True d (kv_run ops b1))) k p a) = v \<and>
         (q \<noteq> p \<longrightarrow> snd (get_remote True r2 (\<lambda>d. snd (on_kv_get later True d (kv_run ops b1))) k q a) = JNull) \<and>
         \<not> snd (put_remote True r1 (\<lambda>d. None) k v p ttl a)"
proof -
  have put: "on_kv_put now True [(''key'', JStr k), (''value'', v), (''partition'', JStr p), (''ttl'', JReal ttl), (''request_id'', JStr r)] s =
      (kv_put now k v p ttl s, Some (PT_KV_PUT_ACK, [(''request_id'', JStr r), (''key'', JStr k), (''success'', JBool True), (''partition'', JStr p)]))"
    for r s
    by (auto simp: on_kv_put_def field_simps_fmp jget_def truthy_def)
  have e: "kv_view later (kv_run ops b1) k = Some (v, p)"
    using kv.view_run [of "kv_put now k v p ttl b" ops later k] kv_wf_put [OF b] ops alive by (auto simp: b1 put view_put)
  then obtain en where en: "dget (kv_entries (kv_run ops b1)) k = Some en" "\<not> kv_expired later en" "ke_value en = v" "ke_partition en = p"
    by (auto simp: kv_view_def split: option.splits if_splits)
  have get: "snd (on_kv_get later True [(''key'', JStr k), (''partition'', JStr q), (''request_id'', JStr r)] (kv_run ops b1)) =
      Some (PT_KV_GET_RESP, [(''request_id'', JStr r), (''key'', JStr k), (''found'', JBool (q = p)),
        (''value'', if q = p then v else JNull), (''partition'', JStr q)])" for q r
    using en by (auto simp: on_kv_get_def kv_get_entry_def field_simps_fmp jget_def)
  show ?thesis
    by (simp add: snd_remote put get await_none await_answer [OF disjI1] await_answer [OF disjI2] jget_def)
qed

theorem remote_put_then_get_witness:
  "snd (get_remote True ''r2'' (\<lambda>d. snd (on_kv_get 5 True d (kv_run [(2, KSnapshot)]
     (fst (on_kv_put 1 True [(''key'', JStr ''k''), (''value'', JInt 3), (''partition'', JStr ''p''), (''ttl'', JReal 9),
        (''request_id'', JStr ''r1'')] kv_init))))) ''k'' ''p'' kv_init) = JInt 3"
  using remote_put_then_get [OF kv_wf_init, of "[(2, KSnapshot)]" 5 "''k''" 9 1 _ "JInt 3" "''p''" "''r1''" kv_init "''r2''" "''q''"]
  by (simp add: kv_writes_def)

end
