(* ===== verification/Paths.thy ===== *)
theory Paths
  imports HttpAuth Sandbox
begin

text \<open>
  Relative paths made of names: what the check of path segments (\<open>is_safe_path_segment\<close> in \<open>utils/auth.py\<close>)
  gives for the parts of a path, and how splitting, joining and normal forms of such paths behave.  The
  receivers of files (\<open>storage/shard_replication.py\<close>, \<open>master/cluster_sync.py\<close>) and the stores that name files after
  identifiers rest on it.
\<close>

abbreviation split_slash :: "string \<Rightarrow> string list" where
  "split_slash \<equiv> split_on (CHR ''/'')"

lemma safe_segment_facts:
  assumes "is_safe_path_segment s"
  shows "s \<noteq> []" "s \<noteq> ''.''" "CHR ''/'' \<notin> set s" "\<not> starts_with s ''..''" "CHR 0x00 \<notin> set s" "CHR 0x5C \<notin> set s" "CHR '':'' \<notin> set s"
proof -
  show "s \<noteq> []" "s \<noteq> ''.''" "CHR ''/'' \<notin> set s" "CHR 0x00 \<notin> set s" "CHR 0x5C \<notin> set s"
    using assms by (auto simp: is_safe_path_segment_def split: if_splits)
  show "\<not> starts_with s ''..''"
  proof
    assume a: "starts_with s ''..''"
    then obtain v where v: "s = ''..'' @ v" by (auto simp: prefix_def)
    then have "contains ''..'' s" unfolding contains_iff by (intro exI [of _ "[]"] exI [of _ v]) simp
    moreover have "starts_with s ''.''" using v by simp
    moreover have "s \<noteq> ''..''" using assms by (auto simp: is_safe_path_segment_def)
    ultimately show False using assms by (auto simp: is_safe_path_segment_def split: if_splits)
  qed
  have "re_class segment_char s" using assms by (auto simp: is_safe_path_segment_def split: if_splits)
  moreover have "\<not> segment_char (CHR '':'')" "\<not> segment_char nl"
    by (simp_all add: segment_char_def is_alnum_def is_alpha_def is_num_def)
  ultimately show "CHR '':'' \<notin> set s" by (auto simp: re_class_iff list_all_iff)
qed

lemma split_slash_not_Nil [simp]: "split_slash s \<noteq> []"
  by (induction s) (auto split: list.split)

lemma split_slash_Cons: "split_slash (c # cs) = (if c = CHR ''/'' then [] # split_slash cs else (c # hd (split_slash cs)) # tl (split_slash cs))"
  by (auto split: list.split)

declare split_on.simps(2) [simp del]
declare split_slash_Cons [simp]

lemma split_slash_append: "split_slash (u @ CHR ''/'' # w) = split_slash u @ split_slash w"
  by (induction u) auto

lemma join_split: "join_with (CHR ''/'') (split_slash s) = s"
proof (induction s)
  case (Cons c s)
  then show ?case by (cases "split_slash s"; cases "tl (split_slash s)") auto
qed simp

lemma norm_safe: "\<forall>seg \<in> set segs. seg \<noteq> [] \<and> seg \<noteq> ''.'' \<and> seg \<noteq> ''..'' \<Longrightarrow> fold (norm_step rooted) segs acc = rev segs @ acc"
  by (induction segs arbitrary: acc) (auto simp: norm_step_def)

lemma split_head: "starts_with s x \<Longrightarrow> CHR ''/'' \<notin> set x \<Longrightarrow> starts_with (hd (split_slash s)) x"
  by (induction x arbitrary: s) (auto simp: prefix_def)

lemma slash_char: "c \<in> set s \<Longrightarrow> c \<noteq> CHR ''/'' \<Longrightarrow> \<exists>seg \<in> set (split_slash s). c \<in> set seg"
proof (induction s)
  case (Cons a s)
  then show ?case by (cases "split_slash s") (auto split: if_splits)
qed simp

lemma split_no_slash: "CHR ''/'' \<notin> set s \<Longrightarrow> split_slash s = [s]"
  by (induction s) auto

lemma split_join: "list_all (\<lambda>w. CHR ''/'' \<notin> set w) ws \<Longrightarrow> ws \<noteq> [] \<Longrightarrow> split_slash (join_with (CHR ''/'') ws) = ws"
proof (induction ws)
  case (Cons w ws)
  then show ?case by (cases ws) (simp_all add: split_no_slash split_slash_append)
qed simp

lemma join_append: "xs \<noteq> [] \<Longrightarrow> ys \<noteq> [] \<Longrightarrow> join_with c (xs @ ys) = join_with c xs @ c # join_with c ys"
proof (induction xs)
  case (Cons x xs)
  then show ?case by (cases xs; cases ys) simp_all
qed simp

text \<open>\<open>os.path.join(a, b)\<close>.\<close>

definition os_join :: "string \<Rightarrow> string \<Rightarrow> string" where
  "os_join a b = (if starts_with b ''/'' then b else if a = [] \<or> last a = CHR ''/'' then a @ b else a @ ''/'' @ b)"

text \<open>A relative path of safe names.\<close>

definition safe_rel :: "string \<Rightarrow> bool" where
  "safe_rel p \<longleftrightarrow> list_all is_safe_path_segment (split_slash p)"

lemma safe_rel_parts:
  assumes "safe_rel p" and "x \<in> set (split_slash p)"
  shows "x \<noteq> [] \<and> x \<noteq> ''.'' \<and> x \<noteq> ''..'' \<and> CHR ''/'' \<notin> set x"
  using assms safe_segment_facts [of x] by (auto simp: safe_rel_def list_all_iff)

lemma safe_rel_not_rooted: "safe_rel p \<Longrightarrow> p \<noteq> [] \<and> \<not> starts_with p ''/''"
  using safe_rel_parts [of p "[]"] by (cases p) (auto simp: prefix_def)

text \<open>Such a path is its own normal form and passes the checks of the receivers.\<close>

lemma safe_rel_normal:
  assumes "safe_rel p"
  shows "normpath p = p \<and> p \<noteq> [] \<and> CHR 0x00 \<notin> set p \<and> \<not> starts_with p ''/'' \<and> CHR '':'' \<notin> set (hd (split_slash p)) \<and>
         \<not> starts_with p ''..'' \<and> \<not> contains ''/..'' p \<and> p \<noteq> ''..''"
proof -
  have seg: "is_safe_path_segment x" if "x \<in> set (split_slash p)" for x using assms that by (simp add: safe_rel_def list_all_iff)
  note hd = safe_segment_facts [OF seg [OF hd_in_set [OF split_slash_not_Nil]]]
  have "\<forall>x \<in> set (split_slash p). x \<noteq> [] \<and> x \<noteq> ''.'' \<and> x \<noteq> ''..''"
    using safe_segment_facts(1,2,4) [OF seg] by auto
  from norm_safe [OF this] have comps: "norm_comps p = split_slash p" by (simp add: norm_comps_def)
  have p: "p \<noteq> []" "\<not> starts_with p ''/''" "\<not> starts_with p ''//''" using hd(1) by (auto, cases p, auto, cases p, auto)
  then have "normpath p = p" by (simp add: normpath_def comps join_split)
  moreover note p(1,2)
  moreover have "CHR 0x00 \<notin> set p" using slash_char [of "CHR 0x00" p] safe_segment_facts(5) [OF seg] by auto
  moreover have "\<not> starts_with p ''..''" using split_head [of "''..''" p] hd(4) by auto
  moreover have "\<not> contains ''/..'' p"
  proof
    assume "contains ''/..'' p"
    then obtain u w where "p = u @ CHR ''/'' # ''..'' @ w" by (auto simp: contains_iff)
    then have "hd (split_slash (''..'' @ w)) \<in> set (split_slash p)" by (simp only: split_slash_append set_append) (simp del: split_on.simps split_slash_Cons)
    moreover have "starts_with (hd (split_slash (''..'' @ w))) ''..''" by (rule split_head) (auto simp: prefix_def)
    ultimately show False using safe_segment_facts(4) [OF seg] by blast
  qed
  ultimately show ?thesis using hd(7) by auto
qed

text \<open>Appending such a path to any directory appends its parts to the directory's normal form.\<close>

lemma norm_comps_append:
  assumes "safe_rel p" and "a \<noteq> []"
  shows "norm_comps (a @ ''/'' @ p) = norm_comps a @ split_slash p"
proof -
  have "prefix ''/'' (a @ ''/'' @ p) = prefix ''/'' a" using assms(2) by (cases a) auto
  moreover have "fold (norm_step b) (split_slash p) acc = rev (split_slash p) @ acc" for b acc
    using safe_rel_parts [OF assms(1)] by (intro norm_safe) auto
  ultimately show ?thesis by (simp add: norm_comps_def split_slash_append)
qed

lemma norm_comps_slash: "a \<noteq> [] \<Longrightarrow> norm_comps (a @ ''/'') = norm_comps a"
  using split_slash_append [of a "[]"] by (cases a) (auto simp: norm_comps_def norm_step_def)

lemma norm_comps_join:
  assumes "safe_rel p" and "a \<noteq> []"
  shows "norm_comps (os_join a p) = norm_comps a @ split_slash p"
proof (cases "last a = CHR ''/''")
  case True
  then have a: "a = butlast a @ ''/''" using assms(2) by (metis append_butlast_last_id)
  show ?thesis
  proof (cases "butlast a = []")
    case True
    then have "a = ''/''" using a by simp
    moreover have "norm_comps (''/'' @ p) = split_slash p"
      using safe_rel_parts [OF assms(1)] norm_safe [of "split_slash p" True "[]"] by (auto simp: norm_comps_def norm_step_def)
    moreover have "norm_comps ''/'' = []" by (simp add: norm_comps_def norm_step_def)
    ultimately show ?thesis using safe_rel_not_rooted [OF assms(1)] by (simp add: os_join_def)
  next
    case False
    then have "norm_comps (butlast a @ ''/'' @ p) = norm_comps (butlast a) @ split_slash p"
      using norm_comps_append [OF assms(1)] by blast
    moreover have "norm_comps a = norm_comps (butlast a)" using norm_comps_slash [OF False] a by simp
    moreover have "os_join a p = butlast a @ ''/'' @ p"
      using True a safe_rel_not_rooted [OF assms(1)] unfolding os_join_def by (metis append_assoc)
    ultimately show ?thesis by simp
  qed
next
  case False
  then show ?thesis using norm_comps_append [OF assms] assms safe_rel_not_rooted [OF assms(1)] by (simp add: os_join_def)
qed

text \<open>Slashes alone have no parts, so below a directory with a part the leading slashes are those of the directory.\<close>

lemma norm_comps_slashes: "set a \<subseteq> {CHR ''/''} \<Longrightarrow> norm_comps a = []"
proof -
  assume a: "set a \<subseteq> {CHR ''/''}"
  then have "set (split_slash a) \<subseteq> {[]}" by (induction a) auto
  moreover have "set ws \<subseteq> {[]} \<Longrightarrow> fold (norm_step b) ws [] = []" for b ws
    by (induction ws) (auto simp: norm_step_def)
  ultimately have "fold (norm_step b) (split_slash a) [] = []" for b by blast
  then show ?thesis by (simp add: norm_comps_def)
qed

lemma slashes_of_dir:
  assumes "norm_comps a \<noteq> []" and "set s \<subseteq> {CHR ''/''}"
  shows "prefix s (a @ x) = prefix s a"
proof
  assume "prefix s (a @ x)"
  then have "prefix s a \<or> prefix a s" by (metis prefix_same_cases prefixI)
  moreover have "\<not> prefix a s" using norm_comps_slashes [of a] assms set_mono_prefix by blast
  ultimately show "prefix s a" by blast
qed auto

lemma normpath_join:
  assumes "safe_rel p" and "norm_comps a \<noteq> []"
  shows "normpath (os_join a p) = normpath a @ ''/'' @ p"
proof -
  have a: "a \<noteq> []" using assms(2) by (auto simp: norm_comps_def norm_step_def)
  obtain x where x: "os_join a p = a @ x" using safe_rel_not_rooted [OF assms(1)] by (cases "a = [] \<or> last a = CHR ''/''") (auto simp: os_join_def)
  have "join_with (CHR ''/'') (norm_comps a @ split_slash p) = join_with (CHR ''/'') (norm_comps a) @ ''/'' @ p"
    using join_append [OF assms(2) split_slash_not_Nil] by (simp add: join_split)
  moreover have "join_with (CHR ''/'') (norm_comps a) \<noteq> []"
    using assms(2) norm_comps_plain [of "hd (norm_comps a)" a] by (cases "norm_comps a"; cases "tl (norm_comps a)") auto
  moreover have "norm_comps (a @ x) = norm_comps a @ split_slash p" using norm_comps_join [OF assms(1) a] x by simp
  ultimately show ?thesis
    using a x slashes_of_dir [OF assms(2), of "''/''" x] slashes_of_dir [OF assms(2), of "''//''" x]
      slashes_of_dir [OF assms(2), of "''///''" x]
    by (simp add: normpath_def Let_def)
qed

end
