(* ===== verification/StorageVolume.thy ===== *)
theory StorageVolume
  imports Paths
begin

text \<open>
  Storage volumes (\<open>storage/storage_volume.py\<close>): the volumes with their accounting, the entries that order the
  files by their last use, and the disk.  The disk maps the text of a path to the bytes of the file; links
  and \<open>..\<close> are not resolved, so the properties speak of paths without \<open>.\<close>, \<open>..\<close> and empty parts.  A disk that
  refuses an operation is the flag \<open>works\<close>; a write and the removal of a directory can also fail half done.
\<close>

record volume_spec =
  vs_name :: string
  vs_path :: string
  vs_limit_mb :: nat

record volume_info =
  vi_spec :: volume_spec
  vi_used :: nat
  vi_files :: nat
  vi_created :: time
  vi_accessed :: time

record file_entry =
  fe_size :: nat
  fe_accessed :: time
  fe_created :: time

record shard_place =
  sp_volume :: string
  sp_path :: string
  sp_node :: string
  sp_size :: nat
  sp_at :: time

record storage =
  st_base :: string
  st_volumes :: "(string, volume_info) dict"
  st_entries :: "(string, (string, file_entry) dict) dict"
  st_shards :: "(string, shard_place list) dict"
  st_disk :: "(string, byte list) dict"

definition storage_init :: "string \<Rightarrow> storage" where
  "storage_init base = \<lparr>st_base = base, st_volumes = [], st_entries = [], st_shards = [], st_disk = []\<rparr>"

text \<open>\<open>os.path.join\<close> and \<open>Path / name\<close>: an absolute second part replaces the first.\<close>

definition path_join :: "string \<Rightarrow> string \<Rightarrow> string" where
  "path_join a b = (if starts_with b ''/'' then b else a @ ''/'' @ b)"

definition resolve_path :: "storage \<Rightarrow> volume_spec \<Rightarrow> string" where
  "resolve_path st sp = (if vs_path sp \<noteq> [] then vs_path sp else path_join (st_base st) (vs_name sp))"

definition file_path :: "storage \<Rightarrow> volume_info \<Rightarrow> string \<Rightarrow> string" where
  "file_path st vi f = path_join (resolve_path st (vi_spec vi)) f"

definition entries_of :: "storage \<Rightarrow> string \<Rightarrow> (string, file_entry) dict" where
  "entries_of st v = dget_or (st_entries st) v []"

definition set_info :: "string \<Rightarrow> volume_info \<Rightarrow> storage \<Rightarrow> storage" where
  "set_info v vi st = st\<lparr>st_volumes := dset (st_volumes st) v vi\<rparr>"

definition set_entries :: "string \<Rightarrow> (string, file_entry) dict \<Rightarrow> storage \<Rightarrow> storage" where
  "set_entries v es st = (if dget (st_entries st) v = None then st else st\<lparr>st_entries := dset (st_entries st) v es\<rparr>)"

definition create_volume :: "time \<Rightarrow> bool \<Rightarrow> volume_spec \<Rightarrow> storage \<Rightarrow> storage \<times> bool" where
  "create_volume now works sp st =
     (if \<not> works then (st, False)
      else (st\<lparr>st_volumes := dset (st_volumes st) (vs_name sp)
                  \<lparr>vi_spec = sp, vi_used = 0, vi_files = 0, vi_created = now, vi_accessed = now\<rparr>,
               st_entries := dset (st_entries st) (vs_name sp) []\<rparr>, True))"

text \<open>\<open>shutil.rmtree\<close>: everything below the directory, or some of its files before it fails.\<close>

datatype removal = Removed | LeftOver "string \<Rightarrow> bool"

definition delete_volume :: "removal \<Rightarrow> string \<Rightarrow> storage \<Rightarrow> storage \<times> bool" where
  "delete_volume rm v st =
     (case dget (st_volumes st) v of
        None \<Rightarrow> (st, False)
      | Some vi \<Rightarrow>
          let inside = (\<lambda>p. starts_with p (resolve_path st (vi_spec vi) @ ''/''))
          in case rm of
               LeftOver left \<Rightarrow> (st\<lparr>st_disk := filter (\<lambda>(p, _). \<not> (inside p \<and> \<not> left p)) (st_disk st)\<rparr>, False)
             | Removed \<Rightarrow>
                 (st\<lparr>st_disk := filter (\<lambda>(p, _). \<not> inside p) (st_disk st),
                     st_volumes := dpop (st_volumes st) v, st_entries := dpop (st_entries st) v\<rparr>, True))"

definition delete_file :: "bool \<Rightarrow> string \<Rightarrow> string \<Rightarrow> storage \<Rightarrow> storage \<times> bool" where
  "delete_file works v f st =
     (case dget (st_volumes st) v of
        None \<Rightarrow> (st, False)
      | Some vi \<Rightarrow>
          if \<not> works then (st, False)
          else let st1 = (case dget (st_disk st) (file_path st vi f) of
                            None \<Rightarrow> st
                          | Some bs \<Rightarrow>
                              set_info v (vi\<lparr>vi_used := vi_used vi - length bs, vi_files := vi_files vi - 1\<rparr>)
                                (st\<lparr>st_disk := dpop (st_disk st) (file_path st vi f)\<rparr>))
               in (set_entries v (dpop (entries_of st v) f) st1, True))"

text \<open>The loop of \<open>_evict_lru\<close> over the entries sorted by their last use.\<close>

fun evict :: "(nat \<Rightarrow> bool) \<Rightarrow> string \<Rightarrow> nat \<Rightarrow> string list \<Rightarrow> storage \<Rightarrow> storage" where
  "evict works v target [] st = st"
| "evict works v target (f # fs) st =
     (case dget (st_volumes st) v of
        None \<Rightarrow> st
      | Some vi \<Rightarrow> if vi_used vi \<le> target then st
                   else evict works v target fs (fst (delete_file (works (length fs)) v f st)))"

definition limit_bytes :: "volume_info \<Rightarrow> nat" where
  "limit_bytes vi = vs_limit_mb (vi_spec vi) * 1024 * 1024"

text \<open>\<open>int(limit_bytes * 0.7)\<close>\<close>

definition low_watermark :: "volume_info \<Rightarrow> nat" where
  "low_watermark vi = limit_bytes vi * 7 div 10"

definition evict_lru :: "(nat \<Rightarrow> bool) \<Rightarrow> string \<Rightarrow> storage \<Rightarrow> storage" where
  "evict_lru works v st =
     (case dget (st_volumes st) v of
        None \<Rightarrow> st
      | Some vi \<Rightarrow> evict works v (low_watermark vi) (map fst (sort_key (\<lambda>x. fe_accessed (snd x)) (entries_of st v))) st)"

text \<open>How a write of bytes ends: before the file is opened, after so many bytes, or complete.  Opening the file cuts
  the old one off; the account changes only at the end.\<close>

datatype write_end = NotStarted | BrokeOff nat | Complete

definition write_file :: "time \<Rightarrow> (nat \<Rightarrow> bool) \<Rightarrow> write_end \<Rightarrow> string \<Rightarrow> string \<Rightarrow> byte list \<Rightarrow> storage \<Rightarrow> storage \<times> bool" where
  "write_file now evicts wr v f data st =
     (case dget (st_volumes st) v of
        None \<Rightarrow> (st, False)
      | Some vi0 \<Rightarrow>
          let over = (\<lambda>vi. vs_limit_mb (vi_spec vi) > 0 \<and> vi_used vi + length data > limit_bytes vi);
              st1 = (if over vi0 then evict_lru evicts v st else st)
          in case dget (st_volumes st1) v of
               None \<Rightarrow> (st1, False)
             | Some vi \<Rightarrow>
                 if over vi then (st1, False)
                 else case wr of
                        NotStarted \<Rightarrow> (st1, False)
                      | BrokeOff n \<Rightarrow> (st1\<lparr>st_disk := dset (st_disk st1) (file_path st1 vi f) (take n data)\<rparr>, False)
                      | Complete \<Rightarrow>
                          (set_entries v (dset (entries_of st1 v) f \<lparr>fe_size = length data, fe_accessed = now, fe_created = now\<rparr>)
                             (set_info v (vi\<lparr>vi_accessed := now, vi_files := vi_files vi + 1, vi_used := vi_used vi + length data\<rparr>)
                                (st1\<lparr>st_disk := dset (st_disk st1) (file_path st1 vi f) data\<rparr>)), True))"

definition read_file :: "time \<Rightarrow> string \<Rightarrow> string \<Rightarrow> storage \<Rightarrow> storage \<times> byte list option" where
  "read_file now v f st =
     (case dget (st_volumes st) v of
        None \<Rightarrow> (st, None)
      | Some vi \<Rightarrow>
          (case dget (st_disk st) (file_path st vi f) of
             None \<Rightarrow> (st, None)
           | Some bs \<Rightarrow>
               (let st1 = set_info v (vi\<lparr>vi_accessed := now\<rparr>) st
                in (case dget (entries_of st v) f of
                      None \<Rightarrow> st1
                    | Some fe \<Rightarrow> set_entries v (dset (entries_of st v) f (fe\<lparr>fe_accessed := now\<rparr>)) st1, Some bs))))"

text \<open>The capacity report: limit and use in MiB, what is free, the share that is used, the number of files and
  whether the high watermark of 0.9 is reached.\<close>

definition capacity_report :: "string \<Rightarrow> storage \<Rightarrow> (real \<times> real \<times> real \<times> real \<times> nat \<times> bool) option" where
  "capacity_report v st =
     (case dget (st_volumes st) v of
        None \<Rightarrow> None
      | Some vi \<Rightarrow>
          (let mb_all = real (vs_limit_mb (vi_spec vi)); used = real (vi_used vi) / (1024 * 1024)
           in Some (if mb_all > 0 then (mb_all, used, max 0 (mb_all - used), used / mb_all, vi_files vi, used / mb_all \<ge> 0.9)
                    else (mb_all, used, 0, 0, vi_files vi, False))))"

definition distribute_shard ::
  "time \<Rightarrow> (nat \<Rightarrow> bool) \<Rightarrow> write_end \<Rightarrow> string \<Rightarrow> byte list \<Rightarrow> string \<Rightarrow> string \<Rightarrow> string \<Rightarrow> storage \<Rightarrow> storage \<times> bool" where
  "distribute_shard now evicts wr shard data v f node st =
     (let (st1, ok) = write_file now evicts wr v f data st
      in if ok
         then (st1\<lparr>st_shards := dset (st_shards st1) shard (dget_or (st_shards st1) shard [] @
                 [\<lparr>sp_volume = v, sp_path = f, sp_node = node, sp_size = length data, sp_at = now\<rparr>])\<rparr>, True)
         else (st1, False))"

definition verify_shard :: "time \<Rightarrow> string \<Rightarrow> string \<Rightarrow> nat \<Rightarrow> storage \<Rightarrow> storage \<times> bool" where
  "verify_shard now v f expected st =
     (let (st1, r) = read_file now v f st in (st1, case r of None \<Rightarrow> False | Some bs \<Rightarrow> length bs = expected))"


subsection \<open>Operations in any order\<close>

text \<open>Every operation with the clock it reads and the answers of the disk.\<close>

datatype storage_op =
    SCreate time bool volume_spec
  | SDropVolume removal string
  | SWrite time "nat \<Rightarrow> bool" write_end string string "byte list"
  | SRead time string string
  | SDelete bool string string
  | SDistribute time "nat \<Rightarrow> bool" write_end string "byte list" string string string

definition storage_step :: "storage_op \<Rightarrow> storage \<Rightarrow> storage" where
  "storage_step op st =
     (case op of
        SCreate now works sp \<Rightarrow> fst (create_volume now works sp st)
      | SDropVolume rm v \<Rightarrow> fst (delete_volume rm v st)
      | SWrite now evicts wr v f data \<Rightarrow> fst (write_file now evicts wr v f data st)
      | SRead now v f \<Rightarrow> fst (read_file now v f st)
      | SDelete works v f \<Rightarrow> fst (delete_file works v f st)
      | SDistribute now evicts wr shard data v f node \<Rightarrow> fst (distribute_shard now evicts wr shard data v f node st))"

text \<open>Volumes under a plain name in the base directory, and files with relative names that need no resolution.\<close>

definition plain_name :: "string \<Rightarrow> bool" where
  "plain_name v \<longleftrightarrow> v \<notin> {[], ''.'', ''..''} \<and> CHR ''/'' \<notin> set v"

definition plain_file :: "string \<Rightarrow> bool" where
  "plain_file f \<longleftrightarrow> list_all (\<lambda>seg. seg \<notin> {[], ''.'', ''..''}) (split_slash f)"

definition plain_op :: "storage_op \<Rightarrow> bool" where
  "plain_op op =
     (case op of
        SCreate now works sp \<Rightarrow> vs_path sp = [] \<and> plain_name (vs_name sp)
      | SDropVolume rm v \<Rightarrow> True
      | SWrite now evicts wr v f data \<Rightarrow> plain_file f
      | SRead now v f \<Rightarrow> plain_file f
      | SDelete works v f \<Rightarrow> plain_file f
      | SDistribute now evicts wr shard data v f node \<Rightarrow> plain_file f)"

lemma plain_file_relative: "plain_file f \<Longrightarrow> \<not> starts_with f ''/''"
  by (cases f) (auto simp: plain_file_def prefix_def)

text \<open>The bytes on the disk below a directory.\<close>

definition bytes_below :: "string \<Rightarrow> (string, byte list) dict \<Rightarrow> nat" where
  "bytes_below dir d = sum_list (map (\<lambda>(p, bs). if starts_with p dir then length bs else 0) d)"

definition volume_dir :: "storage \<Rightarrow> string \<Rightarrow> string" where
  "volume_dir st v = path_join (st_base st) v @ ''/''"

text \<open>The bytes an operation leaves in a volume that its account does not know: what a write that breaks off has
  written, and the files that are there when the volume is created.\<close>

definition broken_bytes :: "write_end \<Rightarrow> byte list \<Rightarrow> nat" where
  "broken_bytes wr data = (case wr of BrokeOff n \<Rightarrow> min n (length data) | _ \<Rightarrow> 0)"

definition uncounted :: "storage_op \<Rightarrow> storage \<Rightarrow> string \<Rightarrow> nat" where
  "uncounted op st v =
     (case op of
        SCreate now works sp \<Rightarrow> (if works \<and> vs_name sp = v then bytes_below (volume_dir st v) (st_disk st) else 0)
      | SWrite now evicts wr w f data \<Rightarrow> (if w = v then broken_bytes wr data else 0)
      | SDistribute now evicts wr shard data w f node \<Rightarrow> (if w = v then broken_bytes wr data else 0)
      | _ \<Rightarrow> 0)"

fun uncounted_run :: "storage_op list \<Rightarrow> storage \<Rightarrow> string \<Rightarrow> nat" where
  "uncounted_run [] st v = 0"
| "uncounted_run (op # ops) st v = uncounted op st v + uncounted_run ops (storage_step op st) v"

definition stored_length :: "(string, byte list) dict \<Rightarrow> string \<Rightarrow> nat" where
  "stored_length d p = (case dget d p of None \<Rightarrow> 0 | Some bs \<Rightarrow> length bs)"

lemma bytes_below_dset:
  "dwf d \<Longrightarrow> bytes_below dir (dset d p bs) + (if starts_with p dir then stored_length d p else 0) =
    bytes_below dir d + (if starts_with p dir then length bs else 0)"
  by (induction d) (auto simp: bytes_below_def stored_length_def dwf_def split: if_splits)

lemma bytes_below_dpop:
  "dwf d \<Longrightarrow> bytes_below dir (dpop d p) + (if starts_with p dir then stored_length d p else 0) = bytes_below dir d"
proof (induction d)
  case (Cons x d)
  obtain q b where x: "x = (q, b)" by (cases x)
  show ?case
  proof (cases "q = p")
    case True
    then have "dpop d p = d" "dget d p = None" using Cons.prems x by (simp_all add: dwf_def dget_None_iff)
    then show ?thesis using True x by (auto simp: bytes_below_def stored_length_def)
  qed (use Cons x in \<open>auto simp: bytes_below_def stored_length_def dwf_def split: if_splits\<close>)
qed (simp add: bytes_below_def stored_length_def)

lemma bytes_below_zero: "(\<And>p. p \<in> set (dkeys d) \<Longrightarrow> \<not> starts_with p dir) \<Longrightarrow> bytes_below dir d = 0"
  by (force simp: bytes_below_def)

lemma bytes_below_filter: "(\<And>p. starts_with p dir \<Longrightarrow> P p) \<Longrightarrow> bytes_below dir (filter (\<lambda>(p, _). P p) d) = bytes_below dir d"
  by (induction d) (auto simp: bytes_below_def)

lemma bytes_below_filter_le: "bytes_below dir (filter P d) \<le> bytes_below dir d"
  by (induction d) (auto simp: bytes_below_def)

lemma volume_dir_disjoint:
  assumes "plain_name v" "plain_name w" "starts_with p (volume_dir st v)" "starts_with p (volume_dir st w)"
  shows "v = w"
proof -
  obtain x y where "p = st_base st @ ''/'' @ v @ ''/'' @ x" "p = st_base st @ ''/'' @ w @ ''/'' @ y"
    using assms by (auto simp: volume_dir_def path_join_def plain_name_def prefix_def split: if_splits)
  then have e: "v @ CHR ''/'' # x = w @ CHR ''/'' # y" by simp
  have "takeWhile (\<lambda>c. c \<noteq> CHR ''/'') (v @ CHR ''/'' # x) = v" "takeWhile (\<lambda>c. c \<noteq> CHR ''/'') (w @ CHR ''/'' # y) = w"
    using assms(1,2) by (auto simp: plain_name_def takeWhile_append2 intro: takeWhile_append2 [THEN trans])
  then show ?thesis using e by metis
qed


text \<open>\<open>u\<close> bounds the bytes of a volume that its account does not know.\<close>

definition volume_ok :: "nat \<Rightarrow> storage \<Rightarrow> string \<Rightarrow> volume_info \<Rightarrow> bool" where
  "volume_ok u st v vi \<longleftrightarrow>
     vs_path (vi_spec vi) = [] \<and> vs_name (vi_spec vi) = v \<and> plain_name v \<and>
     bytes_below (volume_dir st v) (st_disk st) \<le> vi_used vi + u \<and>
     (vs_limit_mb (vi_spec vi) > 0 \<longrightarrow> vi_used vi \<le> limit_bytes vi)"

definition storage_ok :: "(string \<Rightarrow> nat) \<Rightarrow> storage \<Rightarrow> bool" where
  "storage_ok u st \<longleftrightarrow>
     dwf (st_disk st) \<and> (\<forall>v vi. dget (st_volumes st) v = Some vi \<longrightarrow> volume_ok (u v) st v vi) \<and>
     (\<forall>v f. f \<in> set (dkeys (entries_of st v)) \<longrightarrow> plain_file f)"

lemma storage_okD: "storage_ok u st \<Longrightarrow> dget (st_volumes st) v = Some vi \<Longrightarrow> volume_ok (u v) st v vi"
  by (simp add: storage_ok_def)

lemma volume_ok_mono: "volume_ok u st v vi \<Longrightarrow> u \<le> u' \<Longrightarrow> volume_ok u' st v vi"
  by (simp add: volume_ok_def)

lemma storage_ok_mono: "storage_ok u st \<Longrightarrow> (\<And>v. u v \<le> u' v) \<Longrightarrow> storage_ok u' st"
  unfolding storage_ok_def using volume_ok_mono by blast

lemma file_path_dir:
  "volume_ok u st v vi \<Longrightarrow> \<not> starts_with f ''/'' \<Longrightarrow> file_path st vi f = volume_dir st v @ f"
  by (simp add: volume_ok_def file_path_def resolve_path_def volume_dir_def path_join_def)

lemma base_kept [simp]:
  "st_base (set_info v vi st) = st_base st" "st_base (set_entries v es st) = st_base st"
  "st_disk (set_info v vi st) = st_disk st" "st_disk (set_entries v es st) = st_disk st"
  "st_volumes (set_entries v es st) = st_volumes st" "st_volumes (set_info v vi st) = dset (st_volumes st) v vi"
  "st_entries (set_info v vi st) = st_entries st"
  by (simp_all add: set_info_def set_entries_def)

lemma entries_kept [simp]:
  "entries_of (set_info v vi st) w = entries_of st w"
  "entries_of (st\<lparr>st_disk := d\<rparr>) w = entries_of st w"
  by (simp_all add: entries_of_def set_info_def)

lemma entries_of_set: "entries_of (set_entries v es st) w = (if w = v \<and> dget (st_entries st) v \<noteq> None then es else entries_of st w)"
  by (auto simp: entries_of_def set_entries_def dget_or_def)

lemma volume_dir_base: "st_base st' = st_base st \<Longrightarrow> volume_dir st' v = volume_dir st v"
  by (simp add: volume_dir_def)

text \<open>Changing one file of one volume and its accounting keeps the invariant when the account still covers the
  disk.\<close>

lemma storage_ok_change:
  assumes ok: "storage_ok u st" and vi: "dget (st_volumes st) v = Some vi" and f: "plain_file f"
    and st': "st_base st' = st_base st" "st_disk st' = d" "\<forall>w. dget (st_volumes st') w = (if w = v then Some vi' else dget (st_volumes st) w)"
    and d: "d = st_disk st \<or> d = dpop (st_disk st) (volume_dir st v @ f) \<or> d = dset (st_disk st) (volume_dir st v @ f) bs"
    and ac: "vi_spec vi' = vi_spec vi" "bytes_below (volume_dir st v) d \<le> vi_used vi' + u' v"
      "vs_limit_mb (vi_spec vi) > 0 \<Longrightarrow> vi_used vi' \<le> limit_bytes vi"
    and en: "\<forall>w g. g \<in> set (dkeys (entries_of st' w)) \<longrightarrow> g \<in> set (dkeys (entries_of st w)) \<or> g = f"
    and le: "\<And>w. w \<noteq> v \<Longrightarrow> u w \<le> u' w"
  shows "storage_ok u' st'"
proof -
  let ?p = "volume_dir st v @ f"
  have w: "dwf (st_disk st)" and vol: "\<And>w wi. dget (st_volumes st) w = Some wi \<Longrightarrow> volume_ok (u w) st w wi" using ok by (auto simp: storage_ok_def)
  note vdir = volume_dir_base [OF st'(1)]
  have dwf: "dwf d" using d w by auto
  have oth: "bytes_below (volume_dir st w) d = bytes_below (volume_dir st w) (st_disk st)"
    if "dget (st_volumes st) w = Some wi" "w \<noteq> v" for w wi
  proof -
    have "\<not> starts_with ?p (volume_dir st w)"
      using volume_dir_disjoint [of v w st ?p] vol [OF vi] vol [OF that(1)] that(2) by (auto simp: volume_ok_def)
    then show ?thesis using d bytes_below_dset [OF w, of "volume_dir st w" ?p bs] bytes_below_dpop [OF w, of "volume_dir st w" ?p] by auto
  qed
  have "volume_ok (u' w) st' w wi" if "dget (st_volumes st') w = Some wi" for w wi
  proof (cases "w = v")
    case True
    then show ?thesis using that st' ac vol [OF vi] by (simp add: volume_ok_def vdir limit_bytes_def)
  next
    case False
    then have "dget (st_volumes st) w = Some wi" using that st' by simp
    then show ?thesis using vol [of w wi] oth [of w wi] le [OF False] False st' by (simp add: volume_ok_def vdir limit_bytes_def)
  qed
  moreover have "\<forall>w g. g \<in> set (dkeys (entries_of st' w)) \<longrightarrow> plain_file g"
    using en f ok unfolding storage_ok_def by blast
  ultimately show ?thesis using dwf st'(2) by (simp add: storage_ok_def)
qed

lemma entries_set_mono:
  assumes "\<And>w. entries_of st' w = entries_of st w" "set (dkeys es) \<subseteq> insert f (set (dkeys (entries_of st v)))"
  shows "\<forall>w g. g \<in> set (dkeys (entries_of (set_entries v es st') w)) \<longrightarrow> g \<in> set (dkeys (entries_of st w)) \<or> g = f"
proof (intro allI impI)
  fix w g
  assume g: "g \<in> set (dkeys (entries_of (set_entries v es st') w))"
  show "g \<in> set (dkeys (entries_of st w)) \<or> g = f"
  proof (cases "w = v \<and> dget (st_entries st') v \<noteq> None")
    case True
    then have "entries_of (set_entries v es st') w = es" by (simp add: entries_of_set)
    then have "g \<in> set (dkeys es)" using g by simp
    then show ?thesis using True assms(2) by blast
  next
    case False
    then have "entries_of (set_entries v es st') w = entries_of st w" unfolding entries_of_set assms(1) by (rule if_not_P)
    then show ?thesis using g by simp
  qed
qed

lemma storage_ok_delete_file:
  assumes ok: "storage_ok u st" and f: "plain_file f"
  shows "storage_ok u (fst (delete_file works v f st))"
proof (cases "dget (st_volumes st) v")
  case (Some vi)
  have vok: "volume_ok (u v) st v vi" using storage_okD [OF ok Some] .
  note fp = file_path_dir [OF vok plain_file_relative [OF f]]
  let ?p = "volume_dir st v @ f" and ?d = "dpop (st_disk st) (volume_dir st v @ f)"
  let ?es = "dpop (entries_of st v) f"
  have en: "set (dkeys ?es) \<subseteq> insert f (set (dkeys (entries_of st v)))"
    unfolding dkeys_dpop by blast
  have below: "bytes_below (volume_dir st v) ?d + stored_length (st_disk st) ?p = bytes_below (volume_dir st v) (st_disk st)"
    using bytes_below_dpop [of "st_disk st" "volume_dir st v" ?p] ok by (simp add: storage_ok_def)
  show ?thesis
  proof (cases "works \<and> dget (st_disk st) ?p \<noteq> None")
    case True
    then obtain bs where bs: "dget (st_disk st) ?p = Some bs" by auto
    have e: "fst (delete_file works v f st) = set_entries v ?es (set_info v (vi\<lparr>vi_used := vi_used vi - length bs, vi_files := vi_files vi - 1\<rparr>) (st\<lparr>st_disk := ?d\<rparr>))"
      using Some True bs fp by (simp add: delete_file_def Let_def)
    show ?thesis unfolding e
      by (rule storage_ok_change [OF ok Some f _ _ _ _ _ _ _ entries_set_mono [OF _ en], where d = ?d and bs = "[]"
            and vi' = "vi\<lparr>vi_used := vi_used vi - length bs, vi_files := vi_files vi - 1\<rparr>"])
        (use vok below bs in \<open>auto simp: volume_ok_def stored_length_def\<close>)
  next
    case False
    have e: "fst (delete_file works v f st) = (if works then set_entries v ?es st else st)"
      using Some False fp by (auto simp: delete_file_def Let_def)
    have "storage_ok u (set_entries v ?es st)"
      by (rule storage_ok_change [OF ok Some f _ _ _ _ _ _ _ entries_set_mono [OF _ en], where d = "st_disk st" and bs = "[]" and vi' = vi])
        (use vok Some in \<open>auto simp: volume_ok_def\<close>)
    then show ?thesis unfolding e using ok by simp
  qed
qed (use ok in \<open>simp add: delete_file_def\<close>)


lemma storage_ok_evict:
  "storage_ok u st \<Longrightarrow> \<forall>f \<in> set fs. plain_file f \<Longrightarrow> storage_ok u (evict works v target fs st)"
  by (induction works v target fs st rule: evict.induct) (auto simp: storage_ok_delete_file split: option.split)

lemma storage_ok_evict_lru: "storage_ok u st \<Longrightarrow> storage_ok u (evict_lru works v st)"
proof -
  assume ok: "storage_ok u st"
  then have "\<forall>f \<in> set (dkeys (entries_of st v)). plain_file f" unfolding storage_ok_def by blast
  then have "\<forall>f \<in> set (map fst (sort_key (\<lambda>x. fe_accessed (snd x)) (entries_of st v))). plain_file f" by simp
  then show ?thesis using storage_ok_evict [OF ok] ok by (auto simp: evict_lru_def split: option.split)
qed

text \<open>Where a write changes the disk: at its file, and at the files it evicts from the volume.\<close>

definition evicted :: "storage \<Rightarrow> storage \<Rightarrow> string \<Rightarrow> string \<Rightarrow> bool" where
  "evicted st st' v p \<longleftrightarrow> (\<exists>g. plain_file g \<and> p = volume_dir st v @ g) \<and> dget (st_disk st') p = None"

lemma delete_file_where:
  assumes ok: "storage_ok u st" and f: "plain_file f" and p: "dget (st_disk (fst (delete_file works v f st))) p \<noteq> dget (st_disk st) p"
  shows "evicted st (fst (delete_file works v f st)) v p"
proof (cases "dget (st_volumes st) v")
  case (Some vi)
  note fp = file_path_dir [OF storage_okD [OF ok Some] plain_file_relative [OF f]]
  show ?thesis using Some f p by (auto simp: delete_file_def evicted_def fp Let_def split: option.splits if_splits)
qed (use p in \<open>simp add: delete_file_def\<close>)

lemma delete_file_base [simp]: "st_base (fst (delete_file works v f st)) = st_base st"
  by (simp add: delete_file_def Let_def split: option.split)

lemma evict_base [simp]: "st_base (evict works v target fs st) = st_base st"
  by (induction works v target fs st rule: evict.induct) (simp_all split: option.split)

lemma evict_where:
  "storage_ok u st \<Longrightarrow> \<forall>f \<in> set fs. plain_file f \<Longrightarrow>
   dget (st_disk (evict works v target fs st)) p = dget (st_disk st) p \<or> evicted st (evict works v target fs st) v p"
proof (induction works v target fs st rule: evict.induct)
  case (2 works v target f fs st)
  show ?case
  proof (cases "\<exists>vi. dget (st_volumes st) v = Some vi \<and> \<not> vi_used vi \<le> target")
    case True
    let ?st1 = "fst (delete_file (works (length fs)) v f st)"
    let ?st2 = "evict works v target fs ?st1"
    have e: "evict works v target (f # fs) st = ?st2" using True by auto
    have d: "volume_dir ?st1 v = volume_dir st v" by (rule volume_dir_base) simp
    have f: "plain_file f" using 2(3) by simp
    have IH: "dget (st_disk ?st2) p = dget (st_disk ?st1) p \<or> evicted ?st1 ?st2 v p"
      using 2(1) True storage_ok_delete_file [OF 2(2) f] 2(3) by auto
    then show ?thesis
      using delete_file_where [OF 2(2) f, of "works (length fs)" v p] unfolding e evicted_def d by auto
  qed (auto split: option.split)
qed simp

lemma write_file_where:
  assumes ok: "storage_ok u st" and f: "plain_file f"
    and p: "dget (st_disk (fst (write_file now evicts wr v f data st))) p \<noteq> dget (st_disk st) p"
  shows "p = volume_dir st v @ f \<or> evicted st (fst (write_file now evicts wr v f data st)) v p"
proof (cases "dget (st_volumes st) v")
  case (Some vi0)
  define st1 where "st1 = (if vs_limit_mb (vi_spec vi0) > 0 \<and> vi_used vi0 + length data > limit_bytes vi0 then evict_lru evicts v st else st)"
  have "\<forall>g \<in> set (dkeys (entries_of st v)). plain_file g" using ok unfolding storage_ok_def by blast
  then have "\<forall>g \<in> set (map fst (sort_key (\<lambda>x. fe_accessed (snd x)) (entries_of st v))). plain_file g" by simp
  then have w1: "dget (st_disk st1) p = dget (st_disk st) p \<or> evicted st st1 v p"
    using evict_where [OF ok] Some by (auto simp: st1_def evict_lru_def)
  have ok1: "storage_ok u st1" using ok storage_ok_evict_lru by (simp add: st1_def)
  have b: "volume_dir st1 v = volume_dir st v" by (rule volume_dir_base) (simp add: st1_def evict_lru_def Some)
  let ?st2 = "fst (write_file now evicts wr v f data st)"
  have "dget (st_disk ?st2) p = dget (st_disk st1) p \<or> p = volume_dir st v @ f"
  proof (cases "dget (st_volumes st1) v")
    case None
    then have "?st2 = st1" unfolding write_file_def Let_def Some option.case st1_def [symmetric] None by simp
    then show ?thesis by simp
  next
    case vi: (Some vi)
    note fp = file_path_dir [OF storage_okD [OF ok1 vi] plain_file_relative [OF f]]
    show ?thesis unfolding write_file_def Let_def Some option.case st1_def [symmetric] vi fp b by (auto split: write_end.split)
  qed
  then show ?thesis using w1 p by (auto simp: evicted_def)
qed (use p in \<open>simp add: write_file_def\<close>)

lemma storage_ok_write_file:
  assumes ok: "storage_ok u st" and f: "plain_file f" and u': "u' = (\<lambda>w. u w + (if v = w then broken_bytes wr data else 0))"
  shows "storage_ok u' (fst (write_file now evicts wr v f data st))"
proof (cases "dget (st_volumes st) v")
  case (Some vi0)
  define st1 where "st1 = (if vs_limit_mb (vi_spec vi0) > 0 \<and> vi_used vi0 + length data > limit_bytes vi0 then evict_lru evicts v st else st)"
  have ok1: "storage_ok u st1" using ok storage_ok_evict_lru by (simp add: st1_def)
  have ok2: "storage_ok u' st1" by (rule storage_ok_mono [OF ok1]) (simp add: u')
  show ?thesis
  proof (cases "dget (st_volumes st1) v")
    case None
    then show ?thesis using ok2 Some by (simp add: write_file_def Let_def st1_def [symmetric])
  next
    case vi: (Some vi)
    have vok: "volume_ok (u v) st1 v vi" using storage_okD [OF ok1 vi] .
    note fp = file_path_dir [OF vok plain_file_relative [OF f]]
    let ?d = "\<lambda>bs. dset (st_disk st1) (volume_dir st1 v @ f) bs"
    have below: "bytes_below (volume_dir st1 v) (?d bs) \<le> bytes_below (volume_dir st1 v) (st_disk st1) + length bs" for bs
      using bytes_below_dset [of "st_disk st1" "volume_dir st1 v" "volume_dir st1 v @ f" bs] ok1 by (simp add: storage_ok_def)
    show ?thesis
    proof (cases "(vs_limit_mb (vi_spec vi) > 0 \<and> vi_used vi + length data > limit_bytes vi) \<or> wr = NotStarted")
      case True
      then have "fst (write_file now evicts wr v f data st) = st1"
        unfolding write_file_def Let_def Some option.case st1_def [symmetric] vi by auto
      then show ?thesis using ok2 by simp
    next
      case fits: False
      show ?thesis
      proof (cases wr)
        case (BrokeOff n)
        have e: "fst (write_file now evicts wr v f data st) = st1\<lparr>st_disk := ?d (take n data)\<rparr>"
          using fits Some vi fp BrokeOff by (auto simp: write_file_def Let_def st1_def [symmetric])
        show ?thesis unfolding e
          by (rule storage_ok_change [OF ok1 vi f, where d = "?d (take n data)" and bs = "take n data" and vi' = vi])
            (use vok below [of "take n data"] BrokeOff vi in \<open>auto simp: volume_ok_def u' broken_bytes_def min.commute entries_of_def\<close>)
      next
        case Complete
        let ?es = "dset (entries_of st1 v) f \<lparr>fe_size = length data, fe_accessed = now, fe_created = now\<rparr>"
        let ?vi = "vi\<lparr>vi_accessed := now, vi_files := vi_files vi + 1, vi_used := vi_used vi + length data\<rparr>"
        have en: "set (dkeys ?es) \<subseteq> insert f (set (dkeys (entries_of st1 v)))" unfolding dkeys_dset by blast
        have e: "fst (write_file now evicts wr v f data st) = set_entries v ?es (set_info v ?vi (st1\<lparr>st_disk := ?d data\<rparr>))"
          using fits Some vi fp Complete by (auto simp: write_file_def Let_def st1_def [symmetric])
        show ?thesis unfolding e
          by (rule storage_ok_change [OF ok1 vi f _ _ _ _ _ _ _ entries_set_mono [OF _ en], where d = "?d data" and bs = data and vi' = ?vi])
            (use vok below [of data] fits in \<open>auto simp: volume_ok_def limit_bytes_def u'\<close>)
      qed (use fits in simp)
    qed
  qed
next
  case None
  then show ?thesis using storage_ok_mono [OF ok, of u'] by (simp add: write_file_def u')
qed

lemma storage_ok_read_file:
  assumes ok: "storage_ok u st" and f: "plain_file f"
  shows "storage_ok u (fst (read_file now v f st))"
proof (cases "dget (st_volumes st) v")
  case (Some vi)
  have vok: "volume_ok (u v) st v vi" using storage_okD [OF ok Some] .
  let ?vi = "vi\<lparr>vi_accessed := now\<rparr>"
  have en: "set (dkeys (dset (entries_of st v) f fe)) \<subseteq> insert f (set (dkeys (entries_of st v)))" for fe
    unfolding dkeys_dset by blast
  have "storage_ok u (set_info v ?vi st)"
    by (rule storage_ok_change [OF ok Some f, where d = "st_disk st" and bs = "[]" and vi' = ?vi])
      (use vok in \<open>auto simp: volume_ok_def\<close>)
  moreover have "storage_ok u (set_entries v (dset (entries_of st v) f fe) (set_info v ?vi st))" for fe
    by (rule storage_ok_change [OF ok Some f _ _ _ _ _ _ _ entries_set_mono [OF _ en], where d = "st_disk st" and bs = "[]" and vi' = ?vi])
      (use vok in \<open>auto simp: volume_ok_def\<close>)
  ultimately show ?thesis using ok Some by (auto simp: read_file_def Let_def split: option.splits)
qed (use ok in \<open>simp add: read_file_def\<close>)

lemma storage_ok_shards: "storage_ok u st \<Longrightarrow> storage_ok u (st\<lparr>st_shards := x\<rparr>)"
  by (simp add: storage_ok_def volume_ok_def volume_dir_def entries_of_def)

lemma storage_ok_create:
  assumes ok: "storage_ok u st" and sp: "vs_path sp = []" "plain_name (vs_name sp)"
  shows "storage_ok (\<lambda>v. u v + uncounted (SCreate now works sp) st v) (fst (create_volume now works sp st))"
proof (cases works)
  case True
  let ?v = "vs_name sp"
  define st2 where "st2 = fst (create_volume now works sp st)"
  let ?st = st2
  have e: "st_disk ?st = st_disk st" "st_base ?st = st_base st" "\<And>w. dget (st_volumes ?st) w = (if w = ?v then
      Some \<lparr>vi_spec = sp, vi_used = 0, vi_files = 0, vi_created = now, vi_accessed = now\<rparr> else dget (st_volumes st) w)"
    "\<And>w. entries_of ?st w = (if w = ?v then [] else entries_of st w)"
    using True by (simp_all add: st2_def create_volume_def entries_of_def dget_or_def)
  have "volume_ok (u w + uncounted (SCreate now works sp) st w) ?st w wi" if "dget (st_volumes ?st) w = Some wi" for w wi
    using that ok sp True
    by (auto simp: e uncounted_def volume_ok_def storage_ok_def volume_dir_base [OF e(2)] split: if_splits)
  moreover have "dwf (st_disk st)" "\<forall>v f. f \<in> set (dkeys (entries_of ?st v)) \<longrightarrow> plain_file f"
    using ok e(4) unfolding storage_ok_def by (blast, simp)
  ultimately show ?thesis unfolding storage_ok_def st2_def [symmetric] e(1) by blast
qed (use ok in \<open>simp add: create_volume_def uncounted_def\<close>)

lemma storage_ok_drop:
  assumes ok: "storage_ok u st"
  shows "storage_ok u (fst (delete_volume rm v st))"
proof (cases "dget (st_volumes st) v")
  case (Some vi)
  have vok: "volume_ok (u v) st v vi" using storage_okD [OF ok Some] .
  let ?st = "fst (delete_volume rm v st)"
  have dir: "resolve_path st (vi_spec vi) @ ''/'' = volume_dir st v"
    using vok by (simp add: volume_ok_def resolve_path_def volume_dir_def)
  obtain P where e: "st_disk ?st = filter (\<lambda>(p, _). P p) (st_disk st)" "\<And>p. P p \<or> starts_with p (volume_dir st v)" "st_base ?st = st_base st"
    "\<And>w. w \<noteq> v \<Longrightarrow> dget (st_volumes ?st) w = dget (st_volumes st) w" "dget (st_volumes ?st) v \<in> {None, Some vi}"
    "\<And>w. entries_of ?st w \<in> {[], entries_of st w}"
  proof (cases rm)
    case Removed
    then show ?thesis
      using that [of "\<lambda>p. \<not> starts_with p (volume_dir st v)"] Some dir
      by (simp add: delete_volume_def Let_def entries_of_def dget_or_def)
  next
    case (LeftOver left)
    then show ?thesis
      using that [of "\<lambda>p. \<not> (starts_with p (volume_dir st v) \<and> \<not> left p)"] Some dir
      by (simp add: delete_volume_def Let_def entries_of_def)
  qed
  have "volume_ok (u w) ?st w wi" if w: "dget (st_volumes ?st) w = Some wi" for w wi
  proof -
    have old: "dget (st_volumes st) w = Some wi" using w e(4,5) Some by (cases "w = v") auto
    have "bytes_below (volume_dir st w) (st_disk ?st) \<le> bytes_below (volume_dir st w) (st_disk st)"
      unfolding e(1) by (rule bytes_below_filter_le)
    then show ?thesis using storage_okD [OF ok old] by (simp add: volume_ok_def volume_dir_base [OF e(3)])
  qed
  moreover have "dwf (st_disk ?st)" using ok unfolding e(1) storage_ok_def dwf_def by (simp add: distinct_map_filter)
  moreover have "plain_file f" if "f \<in> set (dkeys (entries_of ?st w))" for w f
  proof -
    have "f \<in> set (dkeys (entries_of st w))" using e(6) [of w] that by auto
    then show ?thesis using ok unfolding storage_ok_def by blast
  qed
  ultimately show ?thesis unfolding storage_ok_def by blast
qed (use ok in \<open>simp add: delete_volume_def\<close>)

lemma storage_ok_step:
  assumes "storage_ok u st" and "plain_op op"
  shows "storage_ok (\<lambda>v. u v + uncounted op st v) (storage_step op st)"
proof (cases op)
  case (SCreate now works sp)
  then show ?thesis using storage_ok_create [OF assms(1)] assms(2) by (simp add: storage_step_def plain_op_def)
next
  case (SWrite now evicts wr v f data)
  then show ?thesis
    using storage_ok_write_file [OF assms(1) _ refl, of f v wr data now evicts] assms(2)
    by (simp add: storage_step_def plain_op_def uncounted_def)
next
  case (SDistribute now evicts wr shard data v f node)
  then show ?thesis
    using storage_ok_write_file [OF assms(1) _ refl, of f v wr data now evicts] assms(2)
    by (simp add: storage_step_def plain_op_def uncounted_def distribute_shard_def case_prod_unfold Let_def storage_ok_shards)
qed (use assms in \<open>simp_all add: storage_step_def plain_op_def uncounted_def storage_ok_drop storage_ok_read_file storage_ok_delete_file\<close>)

lemma storage_ok_run:
  "storage_ok u st \<Longrightarrow> list_all plain_op ops \<Longrightarrow> storage_ok (\<lambda>v. u v + uncounted_run ops st v) (fold storage_step ops st)"
proof (induction ops arbitrary: u st)
  case (Cons op ops)
  then show ?case using Cons.IH [OF storage_ok_step [OF Cons.prems(1)]] by (simp add: add.assoc)
qed simp

text \<open>A process that starts on a disk that may hold anything.\<close>

definition storage_on :: "string \<Rightarrow> (string, byte list) dict \<Rightarrow> storage" where
  "storage_on base d = (storage_init base)\<lparr>st_disk := d\<rparr>"

lemma storage_ok_on: "dwf d \<Longrightarrow> storage_ok (\<lambda>_. 0) (storage_on base d)"
  by (simp add: storage_ok_def storage_on_def storage_init_def entries_of_def dget_or_def)


lemmas volume_eval =
  storage_on_def storage_init_def storage_step_def create_volume_def write_file_def file_path_def resolve_path_def path_join_def
  limit_bytes_def set_info_def set_entries_def entries_of_def dget_or_def broken_bytes_def uncounted_def bytes_below_def volume_dir_def

definition demo_volume :: volume_spec where
  "demo_volume = \<lparr>vs_name = ''m'', vs_path = [], vs_limit_mb = 1\<rparr>"

text \<open>A write that breaks off, one that is complete, and a volume over a file that was there.\<close>

definition demo_storage_ops :: "storage_op list" where
  "demo_storage_ops =
     [SCreate 0 True demo_volume, SWrite 1 (\<lambda>_. True) Complete ''m'' ''f'' [1, 2], SWrite 2 (\<lambda>_. True) (BrokeOff 1) ''m'' ''a/g'' [3, 4]]"


text \<open>Broken writes alone can fill the disk behind the account.\<close>

lemma broken_writes_are_not_counted:
  "let st = fold storage_step [SCreate 0 True demo_volume, SWrite 1 (\<lambda>_. True) (BrokeOff 2) ''m'' ''f'' [1, 2, 3],
                               SWrite 2 (\<lambda>_. True) (BrokeOff 2) ''m'' ''g'' [1, 2, 3]] (storage_on ''b'' [])
   in map_option vi_used (dget (st_volumes st) ''m'') = Some 0 \<and> bytes_below (volume_dir st ''m'') (st_disk st) = 4"
  by (simp add: demo_volume_def volume_eval)

subsection \<open>Overwriting\<close>

text \<open>A file that is written again is counted again: the account and the file count keep the old version,
  also after the file is deleted, so an empty volume can be full; and in a volume of limit L a file of more
  than half and at most seven tenths of L can never be replaced.\<close>

theorem rewritten_file_is_counted_twice:
  assumes sp: "vs_name sp = v" "vs_limit_mb sp > 0"
    and s0: "s0 = fst (create_volume t True sp (storage_init base))"
    and s1: "(s1, ok1) = write_file t1 evicts Complete v f d1 s0" and s2: "(s2, ok2) = write_file t2 evicts Complete v f d2 s1"
    and n: "length d1 \<le> vs_limit_mb sp * 1024 * 1024"
  shows "(length d1 + length d2 \<le> vs_limit_mb sp * 1024 * 1024 \<longrightarrow>
            ok2 \<and> snd (read_file t3 v f s2) = Some d2 \<and> st_disk (fst (delete_file True v f s2)) = [] \<and>
            (\<exists>vi. dget (st_volumes (fst (delete_file True v f s2))) v = Some vi \<and>
                  vi_used vi = length d1 \<and> vi_files vi = 1)) \<and>
         (length d1 + length d2 > vs_limit_mb sp * 1024 * 1024 \<and> length d1 \<le> vs_limit_mb sp * 1024 * 1024 * 7 div 10 \<longrightarrow>
            \<not> ok2 \<and> snd (read_file t3 v f s2) = Some d1)"
proof -
  let ?vi = "\<lambda>n k a. \<lparr>vi_spec = sp, vi_used = n, vi_files = k, vi_created = t, vi_accessed = a\<rparr>"
  define p where "p = path_join (if vs_path sp \<noteq> [] then vs_path sp else path_join base v) f"
  have fp: "file_path \<lparr>st_base = base, st_volumes = x, st_entries = y, st_shards = z, st_disk = d\<rparr> (?vi n k a) f = p" for x y z d n k a
    by (simp add: file_path_def resolve_path_def p_def sp)
  have e0: "s0 = \<lparr>st_base = base, st_volumes = [(v, ?vi 0 0 t)], st_entries = [(v, [])], st_shards = [], st_disk = []\<rparr>"
    using s0 sp by (simp add: create_volume_def storage_init_def)
  have e1: "s1 = \<lparr>st_base = base, st_volumes = [(v, ?vi (length d1) 1 t1)],
      st_entries = [(v, [(f, \<lparr>fe_size = length d1, fe_accessed = t1, fe_created = t1\<rparr>)])], st_shards = [], st_disk = [(p, d1)]\<rparr>"
    using s1 n fp by (simp add: e0 write_file_def limit_bytes_def set_info_def set_entries_def entries_of_def dget_or_def)
  show ?thesis
  proof (cases "length d1 + length d2 \<le> vs_limit_mb sp * 1024 * 1024")
    case True
    then have "ok2" "s2 = \<lparr>st_base = base, st_volumes = [(v, ?vi (length d1 + length d2) 2 t2)],
        st_entries = [(v, [(f, \<lparr>fe_size = length d2, fe_accessed = t2, fe_created = t2\<rparr>)])], st_shards = [], st_disk = [(p, d2)]\<rparr>"
      using s2 fp by (simp_all add: e1 write_file_def limit_bytes_def set_info_def set_entries_def entries_of_def dget_or_def)
    then show ?thesis
      using True fp by (simp add: read_file_def delete_file_def set_info_def set_entries_def entries_of_def dget_or_def)
  next
    case False
    have "\<not> ok2 \<and> s2 = s1" if "length d1 \<le> vs_limit_mb sp * 1024 * 1024 * 7 div 10"
      using that False s2 sp(2)
      by (simp add: e1 write_file_def limit_bytes_def evict_lru_def low_watermark_def entries_of_def dget_or_def)
    then show ?thesis using False fp by (auto simp: e1 read_file_def Let_def split: option.split)
  qed
qed

theorem rewritten_file_is_counted_twice_witness:
  "\<exists>(s :: storage) vi. st_disk s = [] \<and> dget (st_volumes s) ''m'' = Some vi \<and> vi_used vi > 0"
proof -
  let ?sp = "\<lparr>vs_name = ''m'', vs_path = [], vs_limit_mb = 1\<rparr>"
  obtain s1 ok1 where s1: "(s1, ok1) = write_file 1 (\<lambda>_. True) Complete ''m'' ''f'' [1, 2] (fst (create_volume 0 True ?sp (storage_init ''b'')))"
    by (metis surj_pair)
  obtain s2 ok2 where s2: "(s2, ok2) = write_file 2 (\<lambda>_. True) Complete ''m'' ''f'' [3] s1" by (metis surj_pair)
  have "st_disk (fst (delete_file True ''m'' ''f'' s2)) = [] \<and>
      (\<exists>vi. dget (st_volumes (fst (delete_file True ''m'' ''f'' s2))) ''m'' = Some vi \<and> vi_used vi > 0)"
    using rewritten_file_is_counted_twice [OF _ _ refl s1 s2, of 0] by auto
  then show ?thesis by blast
qed

subsection \<open>Eviction\<close>

lemma delete_file_volume:
  "dget (st_volumes st) v \<noteq> None \<Longrightarrow> dget (st_volumes (fst (delete_file works v f st))) v \<noteq> None"
  "dget (st_entries st) v \<noteq> None \<Longrightarrow> dget (st_entries (fst (delete_file works v f st))) v \<noteq> None"
  by (auto simp: delete_file_def Let_def set_info_def set_entries_def split: option.splits)

lemma delete_file_entries:
  "dget (st_volumes st) v \<noteq> None \<Longrightarrow> dget (st_entries st) v \<noteq> None \<Longrightarrow>
   entries_of (fst (delete_file True v f st)) v = filter (\<lambda>(g, _). g \<noteq> f) (entries_of st v)"
  by (auto simp: delete_file_def Let_def entries_of_set AList.delete_eq set_info_def case_prod_unfold eq_commute [of f] split: option.splits)

abbreviation drop_files :: "string \<Rightarrow> string list \<Rightarrow> storage \<Rightarrow> storage" where
  "drop_files v fs st \<equiv> fold (\<lambda>f st. fst (delete_file True v f st)) fs st"

lemma drop_files_volume:
  "dget (st_volumes st) v \<noteq> None \<Longrightarrow> dget (st_volumes (drop_files v fs st)) v \<noteq> None"
  by (induction fs arbitrary: st) (simp_all add: delete_file_volume del: not_None_eq)

lemma drop_files_entries:
  "dget (st_volumes st) v \<noteq> None \<Longrightarrow> dget (st_entries st) v \<noteq> None \<Longrightarrow>
   entries_of (drop_files v fs st) v = filter (\<lambda>(g, _). g \<notin> set fs) (entries_of st v)"
proof (induction fs arbitrary: st)
  case (Cons f fs)
  have "entries_of (drop_files v (f # fs) st) v = filter (\<lambda>(g, _). g \<notin> set fs) (filter (\<lambda>(g, _). g \<noteq> f) (entries_of st v))"
    using Cons.IH [OF delete_file_volume(1) [OF Cons.prems(1)] delete_file_volume(2) [OF Cons.prems(2)]]
      delete_file_entries [OF Cons.prems] by simp
  also have "\<dots> = filter (\<lambda>(g, _). g \<notin> set (f # fs)) (entries_of st v)"
    by (auto simp: case_prod_unfold intro: filter_cong)
  finally show ?case .
qed (simp add: case_prod_unfold)

lemma evict_prefix:
  "dget (st_volumes st) v \<noteq> None \<Longrightarrow>
   \<exists>k. evict (\<lambda>_. True) v target fs st = drop_files v (take k fs) st \<and>
     (k \<ge> length fs \<or> (\<exists>vi. dget (st_volumes (drop_files v (take k fs) st)) v = Some vi \<and> vi_used vi \<le> target))"
proof (induction fs arbitrary: st)
  case (Cons f fs)
  obtain vi where vi: "dget (st_volumes st) v = Some vi" using Cons.prems by auto
  show ?case
  proof (cases "vi_used vi \<le> target")
    case True
    then show ?thesis using vi by (intro exI [of _ 0]) simp
  next
    case False
    let ?st = "fst (delete_file True v f st)"
    obtain k where k: "evict (\<lambda>_. True) v target fs ?st = drop_files v (take k fs) ?st"
      "k \<ge> length fs \<or> (\<exists>vi. dget (st_volumes (drop_files v (take k fs) ?st)) v = Some vi \<and> vi_used vi \<le> target)"
      using Cons.IH [OF delete_file_volume(1) [OF Cons.prems]] by blast
    show ?thesis using False vi k by (intro exI [of _ "Suc k"]) simp
  qed
qed simp

text \<open>Eviction removes the least recently used files first and stops at the low watermark: every file that
  was removed was last used no later than every file that stays, what stays is unchanged, and afterwards
  the account is at most seven tenths of the limit or no file is left.\<close>

theorem eviction_takes_the_oldest:
  assumes vi: "dget (st_volumes st) v = Some vi" and es: "dget (st_entries st) v = Some es" and wf: "dwf es"
    and st': "st' = evict_lru (\<lambda>_. True) v st"
  shows "set (entries_of st' v) \<subseteq> set es \<and>
         (\<forall>(f, fe) \<in> set es - set (entries_of st' v). \<forall>(g, ge) \<in> set (entries_of st' v). fe_accessed fe \<le> fe_accessed ge) \<and>
         (entries_of st' v = [] \<or>
          (\<exists>vi'. dget (st_volumes st') v = Some vi' \<and> vi_used vi' * 10 \<le> vs_limit_mb (vi_spec vi) * 1024 * 1024 * 7))"
proof -
  let ?xs = "sort_key (\<lambda>x. fe_accessed (snd x)) es"
  have e: "entries_of st v = es" using es by (simp add: entries_of_def dget_or_def)
  obtain k where k: "st' = drop_files v (take k (map fst ?xs)) st"
    "k \<ge> length ?xs \<or> (\<exists>vi'. dget (st_volumes st') v = Some vi' \<and> vi_used vi' \<le> low_watermark vi)"
    using evict_prefix [of st v "low_watermark vi" "map fst ?xs"] vi by (auto simp: st' evict_lru_def e)
  have f: "entries_of st' v = filter (\<lambda>(g, _). g \<notin> set (take k (map fst ?xs))) es"
    unfolding k(1) using drop_files_entries [of st v] vi es by (simp add: e)
  have d: "distinct (map fst ?xs)" using wf
    by (simp add: dwf_def distinct_map)
  have "set (take k ?xs @ drop k ?xs) = set ?xs" by (simp only: append_take_drop_id)
  then have split: "set es = set (take k ?xs) \<union> set (drop k ?xs)" by (simp only: set_append set_sort)
  have "distinct (map fst (take k ?xs @ drop k ?xs))" using d by (simp only: append_take_drop_id)
  then have dis: "fst ` set (take k ?xs) \<inter> fst ` set (drop k ?xs) = {}" by (simp only: map_append distinct_append set_map)
  have mem: "x \<in> set (entries_of st' v) \<longleftrightarrow> x \<in> set (drop k ?xs)" for x
  proof -
    have "fst x \<in> set (take k (map fst ?xs)) \<longleftrightarrow> fst x \<in> fst ` set (take k ?xs)" by (simp add: take_map)
    then have "x \<in> set (entries_of st' v) \<longleftrightarrow> x \<in> set es \<and> fst x \<notin> fst ` set (take k ?xs)"
      unfolding f by (simp add: case_prod_unfold)
    then show ?thesis using split dis by (metis IntI UnE UnI2 empty_iff imageI)
  qed
  have "sorted (map (\<lambda>x. fe_accessed (snd x)) (take k ?xs @ drop k ?xs))" by simp
  then have le: "x \<in> set (take k ?xs) \<Longrightarrow> y \<in> set (drop k ?xs) \<Longrightarrow> fe_accessed (snd x) \<le> fe_accessed (snd y)" for x y
    unfolding map_append sorted_append by auto
  have "x \<in> set es \<Longrightarrow> x \<notin> set (entries_of st' v) \<Longrightarrow> x \<in> set (take k ?xs)" for x
    unfolding mem using split by blast
  then have "\<forall>(f, fe) \<in> set es - set (entries_of st' v). \<forall>(g, ge) \<in> set (entries_of st' v). fe_accessed fe \<le> fe_accessed ge"
    using le mem by fastforce
  moreover have "k \<ge> length ?xs \<Longrightarrow> entries_of st' v = []" using mem by (metis drop_all empty_iff empty_set set_empty subsetI subset_empty)
  moreover have "vi_used vi' * 10 \<le> vs_limit_mb (vi_spec vi) * 1024 * 1024 * 7" if "vi_used vi' \<le> low_watermark vi" for vi'
    using that by (simp add: low_watermark_def limit_bytes_def)
  moreover have "set (entries_of st' v) \<subseteq> set es" by (auto simp: f)
  ultimately show ?thesis using k(2) by blast
qed

theorem eviction_takes_the_oldest_witness:
  "\<exists>st vi st'. dget (st_volumes st) ''m'' = Some vi \<and> st' = evict_lru (\<lambda>_. True) ''m'' st \<and> entries_of st ''m'' \<noteq> [] \<and>
     set (entries_of st' ''m'') \<subseteq> set (entries_of st ''m'')"
proof -
  let ?vi = "\<lparr>vi_spec = \<lparr>vs_name = ''m'', vs_path = [], vs_limit_mb = 1\<rparr>, vi_used = 1000000, vi_files = 1, vi_created = 0, vi_accessed = 0\<rparr>"
  let ?es = "[(''f'', \<lparr>fe_size = 1000000, fe_accessed = 0, fe_created = 0\<rparr>)]"
  let ?st = "\<lparr>st_base = ''b'', st_volumes = [(''m'', ?vi)], st_entries = [(''m'', ?es)], st_shards = [], st_disk = []\<rparr>"
  have "dget (st_volumes ?st) ''m'' = Some ?vi" "dget (st_entries ?st) ''m'' = Some ?es" "dwf ?es" by (simp_all add: dwf_def)
  from eviction_takes_the_oldest [OF this refl] show ?thesis
    by (intro exI [of _ ?st] exI [of _ ?vi] exI [of _ "evict_lru (\<lambda>_. True) ''m'' ?st"]) (simp add: entries_of_def dget_or_def)
qed

end
