(* ===== verification/ShardReplication.thy ===== *)
theory ShardReplication
  imports StorageVolume FmpCodec
begin

text \<open>
  Replicas of model shards (\<open>storage/shard_replication.py\<close>) and the receiver of a pushed shard
  (\<open>register_shard_handler\<close> in \<open>protocol/fmp_server.py\<close>).  SHA-256 is a parameter; times of the log are left out.
  The replicas of a shard that \<open>sync_to_node\<close> changes are the first with its node, as in the code.
\<close>

datatype replica_status = RActive | RFailed | RRecovering

record shard_replica =
  sr_node :: string
  sr_volume :: string
  sr_path :: string
  sr_size :: nat
  sr_checksum :: string
  sr_created :: time
  sr_synced :: time
  sr_status :: replica_status

record replicator =
  rp_factor :: nat
  rp_verify :: bool
  rp_replicas :: "(string, shard_replica list) dict"
  rp_data :: "(string, byte list) dict"
  rp_fmp :: bool
  rp_local :: "string option"

definition replicator_init :: "nat \<Rightarrow> bool \<Rightarrow> bool \<Rightarrow> replicator" where
  "replicator_init factor verify fmp =
     \<lparr>rp_factor = factor, rp_verify = verify, rp_replicas = [], rp_data = [], rp_fmp = fmp, rp_local = None\<rparr>"

definition set_fmp_interface :: "string \<Rightarrow> replicator \<Rightarrow> replicator" where
  "set_fmp_interface nid rp = rp\<lparr>rp_fmp := True, rp_local := Some nid\<rparr>"

definition register_shard_data :: "string \<Rightarrow> byte list \<Rightarrow> replicator \<Rightarrow> replicator" where
  "register_shard_data shard data rp = rp\<lparr>rp_data := dset (rp_data rp) shard data\<rparr>"

definition get_replicas :: "string \<Rightarrow> replicator \<Rightarrow> shard_replica list" where
  "get_replicas shard rp = dget_or (rp_replicas rp) shard []"

text \<open>The available nodes are their ids; a node without one is called after its place, and \<open>names\<close> gives these.\<close>

definition assign_replicas ::
  "time \<Rightarrow> (nat \<Rightarrow> string) \<Rightarrow> string \<Rightarrow> string \<Rightarrow> nat \<Rightarrow> string option list \<Rightarrow> string \<Rightarrow> replicator \<Rightarrow> replicator" where
  "assign_replicas now names shard path size_bytes nodes volume rp =
     (let chosen = take (rp_factor rp) nodes
      in rp\<lparr>rp_replicas := dset (rp_replicas rp) shard
           (map (\<lambda>(i, n). \<lparr>sr_node = (case n of Some x \<Rightarrow> x | None \<Rightarrow> names i), sr_volume = volume, sr_path = path,
                  sr_size = size_bytes, sr_checksum = [], sr_created = now, sr_synced = now, sr_status = RActive\<rparr>)
                (enumerate 0 chosen))\<rparr>)"

text \<open>Python changes the replica object in place: the first replica of the node.\<close>

fun update_first :: "string \<Rightarrow> (shard_replica \<Rightarrow> shard_replica) \<Rightarrow> shard_replica list \<Rightarrow> shard_replica list" where
  "update_first nid f [] = []"
| "update_first nid f (r # rs) = (if sr_node r = nid then f r # rs else r # update_first nid f rs)"

definition touch_replica :: "string \<Rightarrow> string \<Rightarrow> (shard_replica \<Rightarrow> shard_replica) \<Rightarrow> replicator \<Rightarrow> replicator" where
  "touch_replica shard nid f rp =
     (if dget (rp_replicas rp) shard = None then rp
      else rp\<lparr>rp_replicas := dset (rp_replicas rp) shard (update_first nid f (get_replicas shard rp))\<rparr>)"

record sync_result =
  sy_node :: string
  sy_success :: bool
  sy_bytes :: nat
  sy_verified :: bool
  sy_error :: string

definition sync_failed :: "string \<Rightarrow> string \<Rightarrow> sync_result" where
  "sync_failed nid err = \<lparr>sy_node = nid, sy_success = False, sy_bytes = 0, sy_verified = False, sy_error = err\<rparr>"

text \<open>What surrounds a synchronisation: the clock, the hash, the disk, and the network.  Inside an event loop the
  send is started and not awaited; outside, \<open>sends\<close> tells whether it raises.  What \<open>send_to\<close> returns is not read.\<close>

record sync_env =
  se_now :: time
  se_hash :: "byte list \<Rightarrow> string"
  se_write_end :: write_end
  se_evicts :: "nat \<Rightarrow> bool"
  se_loop :: bool
  se_sends :: "string \<Rightarrow> bool"

definition synced :: "sync_env \<Rightarrow> byte list \<Rightarrow> shard_replica \<Rightarrow> shard_replica" where
  "synced ev data r = r\<lparr>sr_synced := se_now ev, sr_checksum := se_hash ev data, sr_size := length data\<rparr>"

definition sync_via_fmp :: "sync_env \<Rightarrow> string \<Rightarrow> string \<Rightarrow> byte list \<Rightarrow> replicator \<Rightarrow> replicator \<times> sync_result" where
  "sync_via_fmp ev shard nid data rp =
     (let delivered = \<not> se_loop ev
      in if delivered \<and> \<not> se_sends ev nid then (rp, sync_failed nid ''send'')
         else (touch_replica shard nid (synced ev data) rp,
               \<lparr>sy_node = nid, sy_success = delivered, sy_bytes = (if delivered then length data else 0),
                sy_verified = False, sy_error = []\<rparr>))"

definition sync_local ::
  "sync_env \<Rightarrow> string \<Rightarrow> string \<Rightarrow> byte list \<Rightarrow> shard_replica \<Rightarrow> storage option \<Rightarrow> replicator \<Rightarrow> replicator \<times> storage option \<times> sync_result" where
  "sync_local ev shard nid data r sto rp =
     (case sto of
        None \<Rightarrow> (touch_replica shard nid (synced ev data) rp, None,
                 \<lparr>sy_node = nid, sy_success = True, sy_bytes = length data, sy_verified = True, sy_error = []\<rparr>)
      | Some st \<Rightarrow>
          (let (st1, ok) = write_file (se_now ev) (se_evicts ev) (se_write_end ev) (sr_volume r) (sr_path r) data st
           in if \<not> ok then (rp, Some st1, sync_failed nid ''write'')
              else let (st2, readback) = (if rp_verify rp then read_file (se_now ev) (sr_volume r) (sr_path r) st1 else (st1, Some data))
                   in (touch_replica shard nid (synced ev data) rp, Some st2,
                       \<lparr>sy_node = nid, sy_success = True, sy_bytes = length data, sy_verified = (readback = Some data), sy_error = []\<rparr>)))"

definition is_remote :: "string \<Rightarrow> replicator \<Rightarrow> bool" where
  "is_remote nid rp \<longleftrightarrow> rp_fmp rp \<and> rp_local rp \<noteq> None \<and> Some nid \<noteq> rp_local rp"

definition sync_to_node :: "sync_env \<Rightarrow> string \<Rightarrow> string \<Rightarrow> storage option \<Rightarrow> replicator \<Rightarrow> replicator \<times> storage option \<times> sync_result" where
  "sync_to_node ev shard nid sto rp =
     (case dget (rp_data rp) shard of
        None \<Rightarrow> (rp, sto, sync_failed nid ''no data'')
      | Some data \<Rightarrow>
          (case find (\<lambda>r. sr_node r = nid) (get_replicas shard rp) of
             None \<Rightarrow> (rp, sto, sync_failed nid ''no replica'')
           | Some r \<Rightarrow>
               if is_remote nid rp then (let (rp1, res) = sync_via_fmp ev shard nid data rp in (rp1, sto, res))
               else sync_local ev shard nid data r sto rp))"

text \<open>\<open>sync_all_replicas\<close>: the replicas that are active; a synchronisation does not change a status.\<close>

fun sync_each :: "(nat \<Rightarrow> sync_env) \<Rightarrow> string \<Rightarrow> shard_replica list \<Rightarrow> storage option \<Rightarrow> replicator \<Rightarrow> replicator \<times> storage option \<times> sync_result list" where
  "sync_each ev shard [] sto rp = (rp, sto, [])"
| "sync_each ev shard (r # rs) sto rp =
     (if sr_status r \<noteq> RActive then sync_each ev shard rs sto rp
      else let (rp1, sto1, res) = sync_to_node (ev (length rs)) shard (sr_node r) sto rp;
               (rp2, sto2, more_res) = sync_each ev shard rs sto1 rp1
           in (rp2, sto2, res # more_res))"

definition sync_all_replicas :: "(nat \<Rightarrow> sync_env) \<Rightarrow> string \<Rightarrow> storage option \<Rightarrow> replicator \<Rightarrow> replicator \<times> storage option \<times> sync_result list" where
  "sync_all_replicas ev shard sto rp = sync_each ev shard (get_replicas shard rp) sto rp"

definition mark_replica :: "replica_status \<Rightarrow> string \<Rightarrow> string \<Rightarrow> replicator \<Rightarrow> replicator" where
  "mark_replica stat shard nid rp =
     (if dget (rp_replicas rp) shard = None then rp
      else rp\<lparr>rp_replicas := dset (rp_replicas rp) shard
             (map (\<lambda>r. if sr_node r = nid then r\<lparr>sr_status := stat\<rparr> else r) (get_replicas shard rp))\<rparr>)"

definition repair_replica :: "sync_env \<Rightarrow> string \<Rightarrow> string \<Rightarrow> storage option \<Rightarrow> replicator \<Rightarrow> replicator \<times> storage option \<times> sync_result" where
  "repair_replica ev shard nid sto rp =
     (let (rp1, sto1, res) = sync_to_node ev shard nid sto (mark_replica RRecovering shard nid rp)
      in (if sy_success res then mark_replica RActive shard nid rp1 else rp1, sto1, res))"

definition get_healthy_replica :: "string \<Rightarrow> replicator \<Rightarrow> shard_replica option" where
  "get_healthy_replica shard rp = find (\<lambda>r. sr_status r = RActive) (get_replicas shard rp)"

definition remove_node_replicas :: "string \<Rightarrow> replicator \<Rightarrow> replicator \<times> string list" where
  "remove_node_replicas nid rp =
     (rp\<lparr>rp_replicas := map (\<lambda>(shard, rs). (shard, map (\<lambda>r. if sr_node r = nid then r\<lparr>sr_status := RFailed\<rparr> else r) rs)) (rp_replicas rp)\<rparr>,
      concat (map (\<lambda>(shard, rs). map (\<lambda>_. shard) (filter (\<lambda>r. sr_node r = nid) rs)) (rp_replicas rp)))"

definition get_under_replicated :: "replicator \<Rightarrow> string list" where
  "get_under_replicated rp =
     map fst (filter (\<lambda>(shard, rs). count_if (\<lambda>r. sr_status r = RActive) rs < rp_factor rp) (rp_replicas rp))"

subsection \<open>Quorums\<close>

definition quorum_of :: "shard_replica list \<Rightarrow> nat" where
  "quorum_of rs = (length rs + 1) div 2"

datatype quorum_error = NoVolume | NoReplicas | NotMet | Inconsistent

fun quorum_write_loop ::
  "(nat \<Rightarrow> sync_env) \<Rightarrow> string \<Rightarrow> nat \<Rightarrow> shard_replica list \<Rightarrow> nat \<Rightarrow> storage \<Rightarrow> replicator \<Rightarrow> replicator \<times> storage \<times> nat" where
  "quorum_write_loop ev shard q [] ok st rp = (rp, st, ok)"
| "quorum_write_loop ev shard q (r # rs) ok st rp =
     (let (rp1, st1, ok1) =
        (if sr_status r \<noteq> RFailed
         then (let (rp', sto', res) = sync_to_node (ev (length rs)) shard (sr_node r) (Some st) rp
               in (rp', (case sto' of Some st' \<Rightarrow> st' | None \<Rightarrow> st), if sy_success res then ok + 1 else ok))
         else (rp, st, ok))
      in if ok1 \<ge> q then (rp1, st1, ok1) else quorum_write_loop ev shard q rs ok1 st1 rp1)"

text \<open>The result is whether the quorum was met and the number of successes, or the reason of a refusal.\<close>

definition quorum_write ::
  "(nat \<Rightarrow> sync_env) \<Rightarrow> string \<Rightarrow> byte list \<Rightarrow> storage option \<Rightarrow> replicator \<Rightarrow> replicator \<times> storage option \<times> (quorum_error + bool \<times> nat)" where
  "quorum_write ev shard data sto rp =
     (case sto of
        None \<Rightarrow> (rp, None, Inl NoVolume)
      | Some st \<Rightarrow>
          (let rp0 = register_shard_data shard data rp; rs = get_replicas shard rp0
           in if rs = [] then (rp0, Some st, Inl NoReplicas)
              else let (rp1, st1, ok) = quorum_write_loop ev shard (quorum_of rs) rs 0 st rp0
                   in (rp1, Some st1, Inr (ok \<ge> quorum_of rs, ok))))"

text \<open>The reads are kept per node, so a second replica of a node replaces the first.\<close>

fun quorum_read_loop :: "time \<Rightarrow> nat \<Rightarrow> shard_replica list \<Rightarrow> (string, byte list) dict \<Rightarrow> storage \<Rightarrow> storage \<times> (string, byte list) dict" where
  "quorum_read_loop now q [] reads st = (st, reads)"
| "quorum_read_loop now q (r # rs) reads st =
     (if sr_status r \<noteq> RActive then quorum_read_loop now q rs reads st
      else let (st1, got) = read_file now (sr_volume r) (sr_path r) st;
               reads1 = (case got of None \<Rightarrow> reads | Some bs \<Rightarrow> dset reads (sr_node r) bs)
           in if length reads1 \<ge> q then (st1, reads1) else quorum_read_loop now q rs reads1 st1)"

definition quorum_read :: "time \<Rightarrow> (byte list \<Rightarrow> string) \<Rightarrow> string \<Rightarrow> storage option \<Rightarrow> replicator \<Rightarrow> storage option \<times> (quorum_error + byte list)" where
  "quorum_read now hash shard sto rp =
     (case sto of
        None \<Rightarrow> (None, Inl NoVolume)
      | Some st \<Rightarrow>
          (let rs = get_replicas shard rp
           in if rs = [] then (Some st, Inl NoReplicas)
              else let (st1, reads) = quorum_read_loop now (quorum_of rs) rs [] st
                   in (Some st1,
                       if length reads < quorum_of rs then Inl NotMet
                       else case reads of
                              [] \<Rightarrow> Inl NotMet
                            | (_, bs) # _ \<Rightarrow>
                                if list_all (\<lambda>(_, b). hash b = hash bs) reads then Inr bs else Inl Inconsistent)))"

subsection \<open>The receiver\<close>

text \<open>The checks of the path; the result is the normalised path.\<close>

definition shard_path_ok :: "string \<Rightarrow> string option" where
  "shard_path_ok p =
     (if p = [] \<or> CHR 0x00 \<in> set p then None
      else if starts_with p ''/'' \<or> (CHR '':'' \<in> set (hd (split_slash p)) \<and> CHR 0x5C \<notin> set p) then None
      else let n = normpath p
           in if starts_with n ''..'' \<or> contains ''/..'' n then None
              else if list_all is_safe_path_segment (split_slash n) then Some n else None)"

definition on_shard_sync ::
  "time \<Rightarrow> (nat \<Rightarrow> bool) \<Rightarrow> write_end \<Rightarrow> (byte list \<Rightarrow> string) \<Rightarrow> (string, json) dict \<Rightarrow> storage option \<Rightarrow> storage option \<times> bool" where
  "on_shard_sync now evicts wr hash d sto =
     (case and_then (need as_text d ''shard_id'') (\<lambda>shard.
           and_then (want as_text d ''volume_name'' ''models'') (\<lambda>volume.
           and_then (need as_text d ''file_path'') (\<lambda>path.
           and_then (need as_text d ''data_b64'') (\<lambda>raw.
           and_then (case b64decode raw of None \<Rightarrow> Inl (ValueError ''base64'') | Some bs \<Rightarrow> Inr bs) (\<lambda>data.
           and_then (want as_text d ''checksum'' []) (\<lambda>cks. Inr (shard, volume, path, data, cks))))))) of
        Inl _ \<Rightarrow> (sto, False)
      | Inr (shard, volume, path, data, cks) \<Rightarrow>
          if \<not> is_safe_path_segment shard \<or> \<not> is_safe_path_segment volume then (sto, False)
          else (case shard_path_ok path of
                  None \<Rightarrow> (sto, False)
                | Some p \<Rightarrow>
                    if cks \<noteq> [] \<and> hash data \<noteq> cks then (sto, False)
                    else (case sto of
                            None \<Rightarrow> (None, False)
                          | Some st \<Rightarrow> (let (st1, ok) = write_file now evicts wr volume p data st in (Some st1, ok)))))"

text \<open>The payload that \<open>_sync_via_fmp\<close> sends.\<close>

definition shard_payload :: "(byte list \<Rightarrow> string) \<Rightarrow> string \<Rightarrow> shard_replica \<Rightarrow> byte list \<Rightarrow> (string, json) dict" where
  "shard_payload hash shard r data =
     [(''shard_id'', JStr shard), (''volume_name'', JStr (sr_volume r)), (''file_path'', JStr (sr_path r)),
      (''data_b64'', JStr (b64encode data)), (''checksum'', JStr (hash data)), (''size_bytes'', JInt (int (length data)))]"


subsection \<open>Pushed shards stay inside their volume\<close>

text \<open>A path of safe segments passes unchanged, and what passes has safe segments only.\<close>

lemma shard_path_safe: "list_all is_safe_path_segment (split_slash p) \<Longrightarrow> shard_path_ok p = Some p"
  using safe_rel_normal [of p] by (simp add: shard_path_ok_def safe_rel_def Let_def)

lemma shard_path_ok_inside:
  assumes "shard_path_ok p = Some n"
  shows "\<not> starts_with n ''/'' \<and> list_all is_safe_path_segment (split_slash n)"
proof -
  have l: "list_all is_safe_path_segment (split_slash n)" using assms by (auto simp: shard_path_ok_def Let_def split: if_splits)
  moreover have "\<not> starts_with n ''/''"
  proof
    assume "starts_with n ''/''"
    then obtain w where "n = CHR ''/'' # w" by (auto simp: prefix_def)
    then have "[] \<in> set (split_slash n)" by simp
    then show False using l safe_segment_facts(1) [of "[]"] by (auto simp: list_all_iff)
  qed
  ultimately show ?thesis by simp
qed

lemma safe_path_plain: "list_all is_safe_path_segment (split_slash n) \<Longrightarrow> plain_file n"
  using safe_segment_facts by (fastforce simp: plain_file_def list_all_iff)

lemma on_shard_sync_cases:
  assumes "on_shard_sync now evicts wr hash d (Some st) = (sto', ok)"
  obtains "sto' = Some st" "\<not> ok"
  | v p n data where "want as_text d ''volume_name'' ''models'' = Inr v" "need as_text d ''file_path'' = Inr p"
      "is_safe_path_segment v" "shard_path_ok p = Some n"
      "sto' = Some (fst (write_file now evicts wr v n data st))" "ok = snd (write_file now evicts wr v n data st)"
  using assms
  by (auto simp: on_shard_sync_def and_then_def Let_def case_prod_unfold split: sum.splits option.splits if_splits)


definition file_content :: "string \<Rightarrow> string \<Rightarrow> storage \<Rightarrow> byte list option" where
  "file_content v f st =
     (case map_option vi_spec (dget (st_volumes st) v) of
        None \<Rightarrow> None | Some sp \<Rightarrow> dget (st_disk st) (path_join (resolve_path st sp) f))"

lemma snd_read_file: "snd (read_file t v f st) = file_content v f st"
  by (auto simp: read_file_def file_content_def file_path_def Let_def split: option.splits)

lemma content_read: "file_content v f (fst (read_file t v' f' st)) = file_content v f st"
proof -
  have "st_disk (fst (read_file t v' f' st)) = st_disk st" "st_base (fst (read_file t v' f' st)) = st_base st"
    by (auto simp: read_file_def Let_def split: option.splits)
  moreover have "map_option vi_spec (dget (st_volumes (fst (read_file t v' f' st))) v) = map_option vi_spec (dget (st_volumes st) v)"
    by (auto simp: read_file_def Let_def split: option.splits)
  ultimately show ?thesis by (simp only: file_content_def resolve_path_def)
qed

lemma write_then_read:
  assumes "write_file now evicts wr v f data st = (st1, True)"
  shows "snd (read_file t v f st1) = Some data"
proof -
  obtain vi0 where "dget (st_volumes st) v = Some vi0" using assms by (auto simp: write_file_def split: option.splits)
  then obtain st0 vi where w: "dget (st_volumes st0) v = Some vi"
    "st1 = set_entries v (dset (entries_of st0 v) f \<lparr>fe_size = length data, fe_accessed = now, fe_created = now\<rparr>)
       (set_info v (vi\<lparr>vi_accessed := now, vi_files := vi_files vi + 1, vi_used := vi_used vi + length data\<rparr>)
         (st0\<lparr>st_disk := dset (st_disk st0) (file_path st0 vi f) data\<rparr>))"
    using assms by (auto simp: write_file_def Let_def simp del: dget_dset split: option.splits if_splits write_end.splits)
  show ?thesis unfolding snd_read_file w(2) by (simp add: file_content_def file_path_def resolve_path_def)
qed

lemma write_fits:
  assumes "dget (st_volumes st) v = Some vi" "vs_limit_mb (vi_spec vi) = 0 \<or> vi_used vi + length data \<le> limit_bytes vi"
  shows "snd (write_file now evicts Complete v f data st)"
  using assms by (auto simp: write_file_def Let_def)

text \<open>A pushed shard arrives: the payload of a replica with safe names is written, the file has the bytes that
  were sent, and altered bytes under the same checksum are refused without a trace.\<close>

theorem shard_push_arrives:
  assumes safe: "is_safe_path_segment shard" "is_safe_path_segment (sr_volume r)" "list_all is_safe_path_segment (split_slash (sr_path r))"
    and room: "dget (st_volumes st) (sr_volume r) = Some vi" "vs_limit_mb (vi_spec vi) = 0 \<or> vi_used vi + length data \<le> limit_bytes vi"
    and hash: "hash data \<noteq> []" "hash data' \<noteq> hash data"
  shows "(\<exists>st'. on_shard_sync now evicts Complete hash (shard_payload hash shard r data) (Some st) = (Some st', True) \<and>
            snd (read_file t (sr_volume r) (sr_path r) st') = Some data) \<and>
         on_shard_sync now evicts Complete hash (dset (shard_payload hash shard r data) ''data_b64'' (JStr (b64encode data'))) (Some st) =
           (Some st, False)"
proof -
  note path = shard_path_safe [OF safe(3)]
  have "on_shard_sync now evicts Complete hash (shard_payload hash shard r data) (Some st) =
      (let (st1, ok) = write_file now evicts Complete (sr_volume r) (sr_path r) data st in (Some st1, ok))"
    using safe(1,2) path by (simp add: on_shard_sync_def shard_payload_def field_simps_fmp b64_round_trip)
  moreover obtain st1 where "write_file now evicts Complete (sr_volume r) (sr_path r) data st = (st1, True)"
    using write_fits [OF room, of now evicts "sr_path r"] by (metis prod.exhaust_sel)
  moreover have "on_shard_sync now evicts Complete hash (dset (shard_payload hash shard r data) ''data_b64'' (JStr (b64encode data'))) (Some st) =
      (Some st, False)"
    using safe(1,2) path hash by (simp add: on_shard_sync_def shard_payload_def field_simps_fmp b64_round_trip)
  ultimately show ?thesis using write_then_read by auto
qed

subsection \<open>What a quorum says\<close>

lemma dvals_dset: "set (dvals (dset d k v)) \<subseteq> insert v (set (dvals d))"
  by (induction d) auto

lemma quorum_read_same:
  "\<forall>r \<in> set rs. sr_volume r = v \<and> sr_path r = p \<Longrightarrow> \<forall>b \<in> set (dvals reads). file_content v p st = Some b \<Longrightarrow>
   \<forall>b \<in> set (dvals (snd (quorum_read_loop now q rs reads st))). file_content v p st = Some b"
proof (induction rs arbitrary: reads st)
  case (Cons r rs)
  let ?got = "file_content v p st"
  obtain st1 where rf: "read_file now v p st = (st1, ?got)" using snd_read_file [of now v p st] by (metis prod.exhaust_sel)
  have same: "file_content v p st1 = ?got" using content_read [of v p now v p st] rf by simp
  let ?reads1 = "case ?got of None \<Rightarrow> reads | Some bs \<Rightarrow> dset reads (sr_node r) bs"
  have r1: "\<forall>b \<in> set (dvals ?reads1). ?got = Some b"
  proof (cases ?got)
    case (Some bs)
    then show ?thesis using Cons.prems(2) dvals_dset [where d = reads and k = "sr_node r" and v = bs] by (simp only: option.simps) blast
  qed (use Cons.prems(2) in simp)
  have "\<forall>b \<in> set (dvals (snd (quorum_read_loop now q rs ?reads1 st1))). ?got = Some b"
    using Cons.IH [of ?reads1 st1] Cons.prems(1) r1 by (simp add: same)
  moreover have "\<forall>b \<in> set (dvals (snd (quorum_read_loop now q rs reads st))). ?got = Some b"
    using Cons.IH [of reads st] Cons.prems by simp
  moreover have "quorum_read_loop now q (r # rs) reads st =
      (if sr_status r \<noteq> RActive then quorum_read_loop now q rs reads st
       else if length ?reads1 \<ge> q then (st1, ?reads1) else quorum_read_loop now q rs ?reads1 st1)"
    using Cons.prems(1) rf by (simp add: Let_def)
  ultimately show ?case using r1 by (cases "sr_status r = RActive"; cases "length ?reads1 \<ge> q") (simp_all only: simp_thms if_True if_False snd_conv not_True_eq_False not_False_eq_True)
qed simp

text \<open>With active replicas on distinct nodes and a file that is there, the loop reads as many as asked for.\<close>

lemma quorum_read_enough:
  "\<forall>r \<in> set rs. sr_volume r = v \<and> sr_path r = p \<and> sr_status r = RActive \<Longrightarrow> file_content v p st = Some bs \<Longrightarrow>
   distinct (map sr_node rs) \<Longrightarrow> set (map sr_node rs) \<inter> set (dkeys reads) = {} \<Longrightarrow> q \<le> length reads + length rs \<Longrightarrow>
   rs \<noteq> [] \<or> q \<le> length reads \<Longrightarrow>
   q \<le> length (snd (quorum_read_loop now q rs reads st)) \<and> (rs \<noteq> [] \<longrightarrow> snd (quorum_read_loop now q rs reads st) \<noteq> [])"
proof (induction rs arbitrary: reads st)
  case (Cons r rs)
  let ?reads1 = "dset reads (sr_node r) bs"
  obtain st1 where rf: "read_file now v p st = (st1, Some bs)"
    using snd_read_file [of now v p st] Cons.prems(2) by (metis prod.exhaust_sel)
  have same: "file_content v p st1 = Some bs" using content_read [of v p now v p st] rf Cons.prems(2) by simp
  have new: "sr_node r \<notin> set (dkeys reads)" using Cons.prems(4) by auto
  then have len: "length ?reads1 = Suc (length reads)" by (simp only: length_dset if_False)
  have e: "quorum_read_loop now q (r # rs) reads st =
      (if length ?reads1 \<ge> q then (st1, ?reads1) else quorum_read_loop now q rs ?reads1 st1)"
    using Cons.prems(1) rf by (simp add: Let_def)
  show ?case
  proof (cases "length ?reads1 \<ge> q")
    case True
    then have "snd (quorum_read_loop now q (r # rs) reads st) = ?reads1" using e by simp
    then show ?thesis using True len by (metis length_greater_0_conv zero_less_Suc)
  next
    case False
    have d: "set (map sr_node rs) \<inter> set (dkeys ?reads1) = {}"
      using Cons.prems(3,4) unfolding dkeys_dset by auto
    have "rs \<noteq> []" using False Cons.prems(5) len by auto
    then have "q \<le> length (snd (quorum_read_loop now q rs ?reads1 st1)) \<and> (rs \<noteq> [] \<longrightarrow> snd (quorum_read_loop now q rs ?reads1 st1) \<noteq> [])"
      using Cons.prems(1,2,3,5) len d by (intro Cons.IH) (auto simp: same)
    then show ?thesis using False e \<open>rs \<noteq> []\<close> by simp
  qed
qed simp

lemma quorum_read_one_file:
  assumes rs: "get_replicas shard rp = rs" "rs \<noteq> []" "\<forall>r \<in> set rs. sr_volume r = v \<and> sr_path r = p \<and> sr_status r = RActive"
    and d: "distinct (map sr_node rs)" and c: "file_content v p st = Some bs"
  shows "snd (quorum_read now hash shard (Some st) rp) = Inr bs"
proof -
  obtain st1 reads where l: "quorum_read_loop now (quorum_of rs) rs [] st = (st1, reads)" by fastforce
  have q: "quorum_of rs \<le> length rs" by (simp add: quorum_of_def)
  have "quorum_of rs \<le> length reads" "reads \<noteq> []"
    using quorum_read_enough [OF rs(3) c d, of "[]" "quorum_of rs" now] l q rs(2) by simp_all
  moreover have "\<forall>x \<in> set reads. snd x = bs"
    using quorum_read_same [of rs v p "[]" st now "quorum_of rs"] rs(3) c l by auto
  ultimately have "reads \<noteq> []" "snd (hd reads) = bs" "list_all (\<lambda>(_, b). hash b = hash bs) reads"
    by (auto simp: list_all_iff)
  then show ?thesis
    using rs(1,2) l \<open>quorum_of rs \<le> length reads\<close> by (cases reads) (auto simp: quorum_read_def Let_def)
qed


lemma sync_local_write:
  assumes "get_replicas shard rp = rs" "r \<in> set rs" "distinct (map sr_node rs)" "\<not> is_remote (sr_node r) rp"
    and "dget (rp_data rp) shard = Some data" "sync_to_node ev shard (sr_node r) (Some st) rp = (rp1, sto1, res)"
  shows "(\<exists>st1. sto1 = Some st1 \<and> (sy_success res \<longrightarrow> file_content (sr_volume r) (sr_path r) st1 = Some data)) \<and>
         rp_data rp1 = rp_data rp \<and> rp_fmp rp1 = rp_fmp rp \<and> rp_local rp1 = rp_local rp \<and>
         map (\<lambda>r. (sr_node r, sr_volume r, sr_path r, sr_status r)) (get_replicas shard rp1) =
         map (\<lambda>r. (sr_node r, sr_volume r, sr_path r, sr_status r)) rs"
proof -
  have upd: "map (\<lambda>r. (sr_node r, sr_volume r, sr_path r, sr_status r)) (update_first n (synced ev data) xs) =
      map (\<lambda>r. (sr_node r, sr_volume r, sr_path r, sr_status r)) xs" for n xs
    by (induction xs) (auto simp: synced_def)
  have touch: "map (\<lambda>r. (sr_node r, sr_volume r, sr_path r, sr_status r)) (get_replicas shard (touch_replica shard n (synced ev data) rp)) =
      map (\<lambda>r. (sr_node r, sr_volume r, sr_path r, sr_status r)) rs" for n
    using assms(1) upd [of n rs] by (auto simp: touch_replica_def get_replicas_def dget_or_def)
  have keep: "rp_data (touch_replica shard n f rp) = rp_data rp" "rp_fmp (touch_replica shard n f rp) = rp_fmp rp"
    "rp_local (touch_replica shard n f rp) = rp_local rp" for n f
    by (simp_all add: touch_replica_def)
  have "find (\<lambda>x. sr_node x = sr_node r) rs = Some r"
    using assms(2,3) by (induction rs) (auto simp: rev_image_eqI)
  then have e: "sync_local ev shard (sr_node r) data r (Some st) rp = (rp1, sto1, res)"
    using assms by (simp add: sync_to_node_def)
  obtain st1 ok where w: "write_file (se_now ev) (se_evicts ev) (se_write_end ev) (sr_volume r) (sr_path r) data st = (st1, ok)" by fastforce
  show ?thesis
  proof (cases ok)
    case True
    with w have "write_file (se_now ev) (se_evicts ev) (se_write_end ev) (sr_volume r) (sr_path r) data st = (st1, True)" by simp
    then have "file_content (sr_volume r) (sr_path r) st1 = Some data"
      using write_then_read [unfolded snd_read_file] by blast
    then show ?thesis
      using True e w touch keep content_read
      by (auto simp: sync_local_def Let_def case_prod_unfold split: if_splits)
  next
    case False
    then show ?thesis using e w assms(1) by (auto simp: sync_local_def sync_failed_def)
  qed
qed


abbreviation replica_view :: "shard_replica \<Rightarrow> string \<times> string \<times> string \<times> replica_status" where
  "replica_view r \<equiv> (sr_node r, sr_volume r, sr_path r, sr_status r)"

lemma view_facts:
  assumes "map replica_view xs = map replica_view rs"
  shows "map sr_node xs = map sr_node rs" "(\<forall>r \<in> set rs. P (replica_view r)) \<longleftrightarrow> (\<forall>r \<in> set xs. P (replica_view r))"
proof -
  have "map fst (map replica_view xs) = map fst (map replica_view rs)" using assms by simp
  then show "map sr_node xs = map sr_node rs" by (simp add: comp_def)
  have "set (map replica_view xs) = set (map replica_view rs)" using assms by simp
  then show "(\<forall>r \<in> set rs. P (replica_view r)) \<longleftrightarrow> (\<forall>r \<in> set xs. P (replica_view r))" by (metis (no_types, lifting) imageE imageI set_map)
qed

lemma map_eq_mem:
  assumes "map f xs = map f ys" "y \<in> set ys"
  shows "\<exists>x \<in> set xs. f x = f y"
proof -
  have "f y \<in> set (map f ys)" using assms(2) by simp
  then have "f y \<in> set (map f xs)" using assms(1) by simp
  then show ?thesis by auto
qed

lemma quorum_loop_writes:
  assumes "\<forall>r \<in> set todo. \<exists>r' \<in> set rs0. replica_view r' = replica_view r"
    "\<forall>r \<in> set rs0. sr_volume r = v \<and> sr_path r = p \<and> \<not> is_remote (sr_node r) rp" "distinct (map sr_node rs0)"
    and "map replica_view (get_replicas shard rp) = map replica_view rs0" "dget (rp_data rp) shard = Some data" "ok < q"
    and "quorum_write_loop ev shard q todo ok st rp = (rp1, st1, ok1)" "q \<le> ok1"
  shows "file_content v p st1 = Some data \<and> ok1 = q \<and> map replica_view (get_replicas shard rp1) = map replica_view rs0"
  using assms
proof (induction todo arbitrary: ok st rp)
  case (Cons r todo)
  show ?case
  proof (cases "sr_status r = RFailed")
    case True
    then have "quorum_write_loop ev shard q todo ok st rp = (rp1, st1, ok1)" using Cons.prems(6,7) by (simp add: Let_def)
    then show ?thesis using Cons.prems by (intro Cons.IH [of rp ok st]) simp_all
  next
    case False
    obtain rp2 sto2 res where s: "sync_to_node (ev (length todo)) shard (sr_node r) (Some st) rp = (rp2, sto2, res)" by (metis prod_cases3)
    obtain r1 where r1: "r1 \<in> set (get_replicas shard rp)" "sr_node r1 = sr_node r" "sr_volume r1 = v" "sr_path r1 = p" "\<not> is_remote (sr_node r1) rp"
    proof -
      obtain r' where "r' \<in> set rs0" "replica_view r' = replica_view r" using Cons.prems(1) by auto
      moreover obtain r1 where "r1 \<in> set (get_replicas shard rp)" "replica_view r1 = replica_view r'"
        using map_eq_mem [OF Cons.prems(4) \<open>r' \<in> set rs0\<close>] by blast
      ultimately show ?thesis using that Cons.prems(2) by auto
    qed
    have d: "distinct (map sr_node (get_replicas shard rp))" using view_facts(1) [OF Cons.prems(4)] Cons.prems(3) by simp
    have f: "(\<exists>st2. sto2 = Some st2 \<and> (sy_success res \<longrightarrow> file_content v p st2 = Some data)) \<and>
        rp_data rp2 = rp_data rp \<and> rp_fmp rp2 = rp_fmp rp \<and> rp_local rp2 = rp_local rp \<and>
        map replica_view (get_replicas shard rp2) = map replica_view (get_replicas shard rp)"
      using sync_local_write [OF refl r1(1) d r1(5) Cons.prems(5), of "ev (length todo)" st rp2 sto2 res] s r1 by auto
    then obtain st2 where st2: "sto2 = Some st2" by blast
    let ?ok = "if sy_success res then ok + 1 else ok"
    have e: "quorum_write_loop ev shard q (r # todo) ok st rp =
        (if q \<le> ?ok then (rp2, st2, ?ok) else quorum_write_loop ev shard q todo ?ok st2 rp2)"
      using s st2 False by simp
    show ?thesis
    proof (cases "q \<le> ?ok")
      case True
      then have "sy_success res" "rp1 = rp2" "st1 = st2" "ok1 = q" using e Cons.prems(6,7) by (auto split: if_splits)
      then show ?thesis using f st2 Cons.prems(4) by auto
    next
      case False
      then have "quorum_write_loop ev shard q todo ?ok st2 rp2 = (rp1, st1, ok1)" using e Cons.prems(7) by (simp only: if_False)
      then show ?thesis
        using False f Cons.prems by (intro Cons.IH [of rp2 ?ok st2]) (simp_all add: is_remote_def)
    qed
  qed
qed simp

text \<open>What a quorum of local replicas says: they are one file, so after a successful quorum write, which needs
  one success for two replicas, a quorum read gives the data, and after anything else overwrites that
  file it gives the other bytes just as well; an inconsistency is never seen.  Two quorums need not meet when the
  number of replicas is even.\<close>

theorem quorum_is_one_file:
  assumes rs: "get_replicas shard rp = rs" "\<forall>r \<in> set rs. sr_volume r = v \<and> sr_path r = p \<and> sr_status r = RActive \<and> \<not> is_remote (sr_node r) rp"
      "distinct (map sr_node rs)"
    and w: "quorum_write ev shard data (Some st) rp = (rp', Some st', Inr (True, n))"
  shows "n = (length rs + 1) div 2 \<and> snd (quorum_read now hash shard (Some st') rp') = Inr data \<and>
         (\<forall>st''. write_file now' evicts Complete v p other st' = (st'', True) \<longrightarrow>
            snd (quorum_read now hash shard (Some st'') rp') = Inr other) \<and>
         (n + n > length rs \<longleftrightarrow> odd (length rs))"
proof -
  let ?rp = "register_shard_data shard data rp"
  have g: "get_replicas shard ?rp = rs" "is_remote n ?rp = is_remote n rp" for n
    using rs(1) by (simp_all add: register_shard_data_def get_replicas_def is_remote_def)
  have ne: "rs \<noteq> []" using w g(1) by (auto simp: quorum_write_def Let_def split: if_splits prod.splits)
  then have l: "quorum_write_loop ev shard (quorum_of rs) rs 0 st ?rp = (rp', st', n)" "quorum_of rs \<le> n"
    using w g(1) by (auto simp: quorum_write_def Let_def split: prod.splits)
  have q: "0 < quorum_of rs" using ne by (cases rs) (simp_all add: quorum_of_def)
  have c: "file_content v p st' = Some data \<and> n = quorum_of rs \<and> map replica_view (get_replicas shard rp') = map replica_view rs"
    by (rule quorum_loop_writes [of rs rs v p ?rp shard data 0 "quorum_of rs" ev st rp' st' n])
      (use rs g l q in \<open>auto simp: register_shard_data_def\<close>)
  let ?rs' = "get_replicas shard rp'"
  have v: "map replica_view ?rs' = map replica_view rs" using c by simp
  have rs': "?rs' \<noteq> []" "\<forall>r \<in> set ?rs'. sr_volume r = v \<and> sr_path r = p \<and> sr_status r = RActive" "distinct (map sr_node ?rs')"
    using ne v view_facts(1) [OF v] rs(3) view_facts(2) [OF v, of "\<lambda>(_, v', p', s). v' = v \<and> p' = p \<and> s = RActive"] rs(2) by auto
  note rd = quorum_read_one_file [OF refl rs']
  have "snd (quorum_read now hash shard (Some st'') rp') = Inr other" if "write_file now' evicts Complete v p other st' = (st'', True)" for st''
    using rd write_then_read [unfolded snd_read_file] that by blast
  then show ?thesis using c rd by (auto simp: quorum_of_def)
qed


subsection \<open>Instances\<close>

definition demo_storage :: storage where
  "demo_storage = fst (create_volume 0 True \<lparr>vs_name = ''m'', vs_path = [], vs_limit_mb = 0\<rparr> (storage_init ''b''))"

definition demo_replica :: "string \<Rightarrow> shard_replica" where
  "demo_replica nid =
     \<lparr>sr_node = nid, sr_volume = ''m'', sr_path = ''a/f'', sr_size = 0, sr_checksum = [], sr_created = 0, sr_synced = 0, sr_status = RActive\<rparr>"

lemma demo_storage_volume:
  "dget (st_volumes demo_storage) ''m'' = Some \<lparr>vi_spec = \<lparr>vs_name = ''m'', vs_path = [], vs_limit_mb = 0\<rparr>, vi_used = 0, vi_files = 0,
     vi_created = 0, vi_accessed = 0\<rparr>"
  by (simp add: demo_storage_def create_volume_def storage_init_def)

lemma demo_segments: "is_safe_path_segment ''m''" "is_safe_path_segment ''a''" "is_safe_path_segment ''f''"
  by (simp_all add: is_safe_path_segment_def re_class_def segment_char_def is_alnum_def is_alpha_def)

theorem shard_push_arrives_witness:
  "\<exists>st'. on_shard_sync 1 (\<lambda>_. True) Complete (\<lambda>bs. if bs = [7] then ''x'' else ''y'') (shard_payload (\<lambda>bs. if bs = [7] then ''x'' else ''y'')
      ''a'' (demo_replica ''n'') [7]) (Some demo_storage) = (Some st', True) \<and> snd (read_file 2 ''m'' ''a/f'' st') = Some [7]"
  using shard_push_arrives [of "''a''" "demo_replica ''n''" demo_storage _ "[7]" "\<lambda>bs. if bs = [7] then ''x'' else ''y''" "[8]" 1 "\<lambda>_. True" 2]
    demo_segments demo_storage_volume by (simp add: demo_replica_def)

lemma demo_storage_ok: "storage_ok (\<lambda>_. 0) demo_storage"
proof -
  let ?sp = "\<lparr>vs_name = ''m'', vs_path = [], vs_limit_mb = 0\<rparr>"
  have on: "storage_on ''b'' [] = storage_init ''b''" by (simp add: storage_on_def storage_init_def)
  have "storage_ok (\<lambda>v. 0 + uncounted (SCreate 0 True ?sp) (storage_on ''b'' []) v) (fst (create_volume 0 True ?sp (storage_on ''b'' [])))"
    by (rule storage_ok_create [OF storage_ok_on]) (simp_all add: plain_name_def)
  then show ?thesis
    unfolding demo_storage_def on by (rule storage_ok_mono) (auto simp: uncounted_def storage_init_def bytes_below_def)
qed


theorem quorum_is_one_file_witness:
  "\<exists>(rp' :: replicator) (st' :: storage). snd (quorum_read 2 (\<lambda>_. []) ''s'' (Some st') rp') = Inr [7]"
proof -
  let ?rs = "[demo_replica ''n1'', demo_replica ''n2'']"
  let ?rp = "\<lparr>rp_factor = 2, rp_verify = False, rp_replicas = [(''s'', ?rs)], rp_data = [], rp_fmp = False, rp_local = None\<rparr>"
  let ?ev = "\<lambda>_. \<lparr>se_now = 1, se_hash = (\<lambda>_. []), se_write_end = Complete, se_evicts = (\<lambda>_. True), se_loop = True, se_sends = (\<lambda>_. True)\<rparr>"
  obtain st1 where w: "write_file 1 (\<lambda>_. True) Complete ''m'' ''a/f'' [7] demo_storage = (st1, True)"
    using write_fits [OF demo_storage_volume, of "[7]" 1 "\<lambda>_. True" "''a/f''"] by (cases "write_file 1 (\<lambda>_. True) Complete ''m'' ''a/f'' [7] demo_storage") auto
  have g: "get_replicas ''s'' ?rp = ?rs" by (simp add: get_replicas_def dget_or_def)
  obtain rp' where "quorum_write ?ev ''s'' [7] (Some demo_storage) ?rp = (rp', Some st1, Inr (True, 1))"
    using w by (simp add: quorum_write_def register_shard_data_def get_replicas_def dget_or_def quorum_of_def demo_replica_def
        sync_to_node_def is_remote_def sync_local_def)
  from quorum_is_one_file [OF g _ _ this, THEN conjunct2, THEN conjunct1, of "''m''" "''a/f''"]
  have "snd (quorum_read 2 (\<lambda>_. []) ''s'' (Some st1) rp') = Inr [7]" by (simp add: demo_replica_def is_remote_def)
  then show ?thesis by blast
qed

end
