(* ===== verification/Schedules.thy ===== *)
theory Schedules
  imports FmpCodec Sandbox
begin

text \<open>
  Scheduled tasks of a resident agent (\<open>agent/scheduling.py\<close>): the rules of a schedule, the time of its next
  run, the host with its table, its file and its loop.  A tick collects the due schedules and fires them one
  after the other; a fire hands a task to the executor and records the run when the answer arrives, and the
  other operations can come between.  The calendar of the machine and Python's conversions are parameters;
  the file is the JSON value it holds.
\<close>

subsection \<open>Schedules\<close>

record schedule =
  sd_id :: string
  sd_kind :: string
  sd_every :: int
  sd_at :: string
  sd_weekday :: int
  sd_task_type :: string
  sd_model :: string
  sd_params :: "(string, json) dict"
  sd_timeout :: real
  sd_enabled :: bool

definition SCHEDULABLE_TASK_TYPES :: "string list" where
  "SCHEDULABLE_TASK_TYPES = [''inference'', ''embedding'']"

definition SCHEDULE_KINDS :: "string list" where
  "SCHEDULE_KINDS = [''interval'', ''daily'', ''weekly'']"

definition MAX_RUNS_PER_SCHEDULE :: nat where "MAX_RUNS_PER_SCHEDULE = 50"
definition MIN_INTERVAL_SECONDS :: int where "MIN_INTERVAL_SECONDS = 60"

definition parse_at :: "py_conv \<Rightarrow> string \<Rightarrow> (int \<times> int) option" where
  "parse_at pc hhmm =
     (case split_on (CHR '':'') hhmm of
        [h, m] \<Rightarrow>
          (case (pc_int pc h, pc_int pc m) of
             (Some hh, Some mm) \<Rightarrow> if 0 \<le> hh \<and> hh \<le> 23 \<and> 0 \<le> mm \<and> mm \<le> 59 then Some (hh, mm) else None
           | _ \<Rightarrow> None)
      | _ \<Rightarrow> None)"

definition validate_schedule :: "py_conv \<Rightarrow> schedule \<Rightarrow> py_error + unit" where
  "validate_schedule pc sp =
     (if sd_kind sp \<notin> set SCHEDULE_KINDS then Inl (ValueError ''kind'')
      else if sd_task_type sp \<notin> set SCHEDULABLE_TASK_TYPES then Inl (ValueError ''task_type'')
      else if sd_kind sp = ''interval''
           then (if sd_every sp < MIN_INTERVAL_SECONDS then Inl (ValueError ''every_seconds'') else Inr ())
      else if parse_at pc (sd_at sp) = None then Inl (ValueError ''at'')
      else if sd_kind sp = ''weekly'' \<and> \<not> (0 \<le> sd_weekday sp \<and> sd_weekday sp \<le> 6) then Inl (ValueError ''weekday'')
      else Inr ())"

text \<open>The calendar: the day of the week of a time, Monday 0, and the time of hour and minute on its day.\<close>

record calendar =
  cal_wday :: "time \<Rightarrow> int"
  cal_today :: "time \<Rightarrow> int \<Rightarrow> int \<Rightarrow> time"

definition next_run_at :: "py_conv \<Rightarrow> calendar \<Rightarrow> time \<Rightarrow> schedule \<Rightarrow> time" where
  "next_run_at pc cal now sp =
     (if sd_kind sp = ''interval'' then now + of_int (sd_every sp)
      else let (hh, mm) = (case parse_at pc (sd_at sp) of Some x \<Rightarrow> x | None \<Rightarrow> (0, 0));
               base = cal_today cal now hh mm
           in if base > now then base
              else if sd_kind sp = ''daily'' then base + 86400
              else let days_ahead = (sd_weekday sp - cal_wday cal now) mod 7
                   in base + of_int (if days_ahead = 0 then 7 else days_ahead) * 86400)"

definition schedule_to_dict :: "schedule \<Rightarrow> (string, json) dict" where
  "schedule_to_dict sp =
     [(''schedule_id'', JStr (sd_id sp)), (''kind'', JStr (sd_kind sp)), (''every_seconds'', JInt (sd_every sp)),
      (''at'', JStr (sd_at sp)), (''weekday'', JInt (sd_weekday sp)), (''task_type'', JStr (sd_task_type sp)),
      (''model_name'', JStr (sd_model sp)), (''params'', JObj (sd_params sp)), (''timeout_seconds'', JReal (sd_timeout sp)),
      (''enabled'', JBool (sd_enabled sp))]"

text \<open>\<open>int(d.get(k, v))\<close> and \<open>float(d.get(k, v))\<close>.\<close>

definition want_with :: "(json \<Rightarrow> 'a option) \<Rightarrow> (string, json) dict \<Rightarrow> string \<Rightarrow> json \<Rightarrow> py_error + 'a" where
  "want_with conv d k v = (case conv (jget d k v) of None \<Rightarrow> Inl (ValueError k) | Some x \<Rightarrow> Inr x)"

definition schedule_from_dict :: "py_conv \<Rightarrow> (string, json) dict \<Rightarrow> py_error + schedule" where
  "schedule_from_dict pc d =
     and_then (want as_text d ''schedule_id'' []) (\<lambda>sid.
     and_then (want as_text d ''kind'' []) (\<lambda>kind.
     and_then (want_with (to_int pc) d ''every_seconds'' (JInt 0)) (\<lambda>ev.
     and_then (want as_text d ''at'' []) (\<lambda>clock.
     and_then (want_with (to_int pc) d ''weekday'' (JInt (-1))) (\<lambda>wd.
     and_then (want as_text d ''task_type'' ''inference'') (\<lambda>tt.
     and_then (want as_text d ''model_name'' []) (\<lambda>mn.
     and_then (want as_obj d ''params'' []) (\<lambda>ps.
     and_then (want_with (to_float pc) d ''timeout_seconds'' (JReal 300)) (\<lambda>ts.
       Inr \<lparr>sd_id = sid, sd_kind = kind, sd_every = ev, sd_at = clock, sd_weekday = wd, sd_task_type = tt, sd_model = mn,
            sd_params = ps, sd_timeout = ts, sd_enabled = truthy (jget d ''enabled'' (JBool True))\<rparr>)))))))))"

record sched_run =
  rn_seq :: int
  rn_task_id :: string
  rn_status :: string
  rn_started :: time
  rn_finished :: time
  rn_error :: json
  rn_result :: "(string, json) dict"

definition run_to_dict :: "sched_run \<Rightarrow> (string, json) dict" where
  "run_to_dict r =
     [(''seq'', JInt (rn_seq r)), (''task_id'', JStr (rn_task_id r)), (''status'', JStr (rn_status r)),
      (''started_at'', JReal (rn_started r)), (''finished_at'', JReal (rn_finished r)), (''error'', rn_error r),
      (''result'', JObj (rn_result r))]"

definition run_from_dict :: "py_conv \<Rightarrow> (string, json) dict \<Rightarrow> py_error + sched_run" where
  "run_from_dict pc d =
     and_then (want_with (to_int pc) d ''seq'' (JInt 0)) (\<lambda>sq.
     and_then (want as_text d ''task_id'' []) (\<lambda>tid.
     and_then (want as_text d ''status'' ''failed'') (\<lambda>stat.
     and_then (want_with (to_float pc) d ''started_at'' (JReal 0)) (\<lambda>st.
     and_then (want_with (to_float pc) d ''finished_at'' (JReal 0)) (\<lambda>fi.
     and_then (want as_obj d ''result'' []) (\<lambda>res.
       Inr \<lparr>rn_seq = sq, rn_task_id = tid, rn_status = stat, rn_started = st, rn_finished = fi,
            rn_error = jget d ''error'' (JStr []), rn_result = res\<rparr>))))))"

lemma want_with_simps [field_simps_fmp]:
  "want_with conv ((k, v) # d) k x = (case conv v of None \<Rightarrow> Inl (ValueError k) | Some y \<Rightarrow> Inr y)"
  "k \<noteq> k' \<Longrightarrow> want_with conv ((k', v) # d) k x = want_with conv d k x"
  by (simp_all add: want_with_def jget_def)

interpretation schedule_wire: wire_format schedule_to_dict "\<lambda>d. value_of (schedule_from_dict pc d)" "\<lambda>sp. sp"
  by unfold_locales (simp add: schedule_from_dict_def schedule_to_dict_def field_simps_fmp jget_def)

interpretation run_wire: wire_format run_to_dict "\<lambda>d. value_of (run_from_dict pc d)" "\<lambda>r. r"
  by unfold_locales (simp add: run_from_dict_def run_to_dict_def field_simps_fmp jget_def)

subsection \<open>The host\<close>

text \<open>A fire that waits for the executor: the schedule as it was, its id, and the run that is to be recorded.\<close>

record sched_host =
  sh_resident :: bool
  sh_schedules :: "(string, schedule) dict"
  sh_next :: "(string, time) dict"
  sh_runs :: "(string, sched_run list) dict"
  sh_seq :: "(string, int) dict"
  sh_stored :: "json option"
  sh_due :: "string list"
  sh_tick :: time
  sh_firing :: "(string \<times> schedule \<times> sched_run) option"
  sh_running :: bool

definition sched_host_init :: "bool \<Rightarrow> json option \<Rightarrow> sched_host" where
  "sched_host_init resident stored =
     \<lparr>sh_resident = resident, sh_schedules = [], sh_next = [], sh_runs = [], sh_seq = [], sh_stored = stored,
      sh_due = [], sh_tick = 0, sh_firing = None, sh_running = False\<rparr>"

definition host_payload :: "time \<Rightarrow> sched_host \<Rightarrow> json" where
  "host_payload now s =
     JObj [(''schedules'', JList (map (\<lambda>sp. JObj (schedule_to_dict sp)) (dvals (sh_schedules s)))),
           (''runs'', JObj (map (\<lambda>(sid, rs). (sid, JList (map (\<lambda>r. JObj (run_to_dict r)) rs))) (sh_runs s))),
           (''saved_at'', JReal now)]"

text \<open>\<open>save\<close>: a disk that fails leaves the old file.\<close>

definition host_save :: "time \<Rightarrow> bool \<Rightarrow> sched_host \<Rightarrow> sched_host" where
  "host_save now writes s = (if writes then s\<lparr>sh_stored := Some (host_payload now s)\<rparr> else s)"

definition default_set :: "('k, 'v) dict \<Rightarrow> 'k \<Rightarrow> 'v \<Rightarrow> ('k, 'v) dict" where
  "default_set d k v = (if dget d k = None then dset d k v else d)"

definition host_register :: "py_conv \<Rightarrow> calendar \<Rightarrow> time \<Rightarrow> bool \<Rightarrow> string \<Rightarrow> schedule \<Rightarrow> sched_host \<Rightarrow> sched_host \<times> (py_error + schedule)" where
  "host_register pc cal now writes fresh sp0 s =
     (if \<not> sh_resident s then (s, Inl (PermissionError ''not_resident''))
      else case validate_schedule pc sp0 of
             Inl e \<Rightarrow> (s, Inl e)
           | Inr _ \<Rightarrow>
               (let sid = str_or (sd_id sp0) fresh; sp = sp0\<lparr>sd_id := sid\<rparr>
                in (host_save now writes
                      (s\<lparr>sh_schedules := dset (sh_schedules s) sid sp, sh_seq := default_set (sh_seq s) sid 0,
                         sh_runs := default_set (sh_runs s) sid [], sh_next := dset (sh_next s) sid (next_run_at pc cal now sp)\<rparr>),
                    Inr sp)))"

definition host_remove :: "time \<Rightarrow> bool \<Rightarrow> string \<Rightarrow> sched_host \<Rightarrow> sched_host \<times> bool" where
  "host_remove now writes sid s =
     (if dget (sh_schedules s) sid = None then (s, False)
      else (host_save now writes
              (s\<lparr>sh_schedules := dpop (sh_schedules s) sid, sh_next := dpop (sh_next s) sid, sh_runs := dpop (sh_runs s) sid,
                 sh_seq := dpop (sh_seq s) sid\<rparr>), True))"

definition host_set_enabled :: "py_conv \<Rightarrow> calendar \<Rightarrow> time \<Rightarrow> bool \<Rightarrow> string \<Rightarrow> bool \<Rightarrow> sched_host \<Rightarrow> sched_host \<times> schedule option" where
  "host_set_enabled pc cal now writes sid on s =
     (case dget (sh_schedules s) sid of
        None \<Rightarrow> (s, None)
      | Some sp0 \<Rightarrow>
          (let sp = sp0\<lparr>sd_enabled := on\<rparr>
           in (host_save now writes
                 (s\<lparr>sh_schedules := dset (sh_schedules s) sid sp,
                    sh_next := dset (sh_next s) sid (if on then next_run_at pc cal now sp else 0)\<rparr>), Some sp)))"

definition host_get :: "string \<Rightarrow> sched_host \<Rightarrow> (schedule \<times> time \<times> sched_run list) option" where
  "host_get sid s =
     (case dget (sh_schedules s) sid of
        None \<Rightarrow> None
      | Some sp \<Rightarrow> Some (sp, dget_or (sh_next s) sid 0, dget_or (sh_runs s) sid []))"

text \<open>\<open>load\<close>: a schedule that cannot be read or is not valid is skipped, and so are runs that cannot be read.  The
  handler that skips an entry asks the entry for its id, so an entry that is no object raises (attribute errors are
  type errors here).  Iterating a JSON value gives the elements of a list, the characters of a text and the keys
  of an object.\<close>

definition read_schedule :: "py_conv \<Rightarrow> (string, json) dict \<Rightarrow> py_error + schedule" where
  "read_schedule pc d = and_then (schedule_from_dict pc d) (\<lambda>sp. and_then (validate_schedule pc sp) (\<lambda>_. Inr sp))"

definition put_schedule :: "py_conv \<Rightarrow> calendar \<Rightarrow> time \<Rightarrow> schedule \<Rightarrow> sched_host \<Rightarrow> sched_host" where
  "put_schedule pc cal now sp s =
     s\<lparr>sh_schedules := dset (sh_schedules s) (sd_id sp) sp, sh_seq := default_set (sh_seq s) (sd_id sp) 0,
       sh_next := dset (sh_next s) (sd_id sp) (next_run_at pc cal now sp)\<rparr>"

fun load_schedules :: "py_conv \<Rightarrow> calendar \<Rightarrow> time \<Rightarrow> json list \<Rightarrow> sched_host \<Rightarrow> sched_host \<times> (py_error + nat)" where
  "load_schedules pc cal now [] s = (s, Inr 0)"
| "load_schedules pc cal now (JObj d # vs) s =
     (case read_schedule pc d of
        Inl _ \<Rightarrow> load_schedules pc cal now vs s
      | Inr sp \<Rightarrow> (case load_schedules pc cal now vs (put_schedule pc cal now sp s) of
                    (s', r) \<Rightarrow> (s', and_then r (\<lambda>n. Inr (Suc n)))))"
| "load_schedules pc cal now (_ # vs) s = (s, Inl (TypeErrorPy ''get''))"

fun read_runs :: "py_conv \<Rightarrow> json list \<Rightarrow> sched_run list option" where
  "read_runs pc [] = Some []"
| "read_runs pc (JObj d # vs) =
     (case run_from_dict pc d of Inl _ \<Rightarrow> None | Inr r \<Rightarrow> map_option ((#) r) (read_runs pc vs))"
| "read_runs pc (_ # vs) = None"

definition last_runs :: "sched_run list \<Rightarrow> sched_run list" where
  "last_runs rs = drop (length rs - MAX_RUNS_PER_SCHEDULE) rs"

definition load_runs :: "py_conv \<Rightarrow> string \<times> json \<Rightarrow> sched_host \<Rightarrow> sched_host" where
  "load_runs pc x s =
     (case x of (sid, v) \<Rightarrow>
        if dget (sh_schedules s) sid = None then s
        else case Option.bind (iterated v) (read_runs pc) of
               None \<Rightarrow> s
             | Some rs \<Rightarrow>
                 (let kept = last_runs rs; s1 = s\<lparr>sh_runs := dset (sh_runs s) sid kept\<rparr>
                  in if kept = [] then s1
                     else s1\<lparr>sh_seq := dset (sh_seq s1) sid (Max (set (map rn_seq kept)))\<rparr>))"

definition host_load :: "py_conv \<Rightarrow> calendar \<Rightarrow> time \<Rightarrow> sched_host \<Rightarrow> sched_host \<times> (py_error + nat)" where
  "host_load pc cal now s =
     (case sh_stored s of
        None \<Rightarrow> (s, Inr 0)
      | Some (JObj d) \<Rightarrow>
          (case iterated (jget d ''schedules'' (JList [])) of
             None \<Rightarrow> (s, Inl (TypeErrorPy ''schedules''))
           | Some vs \<Rightarrow>
               (case load_schedules pc cal now vs s of
                  (s1, Inl e) \<Rightarrow> (s1, Inl e)
                | (s1, Inr n) \<Rightarrow>
                    (case as_obj (jget d ''runs'' (JObj [])) of
                       None \<Rightarrow> (s1, Inl (TypeErrorPy ''items''))
                     | Some rs \<Rightarrow> (fold (load_runs pc) rs s1, Inr n))))
      | Some _ \<Rightarrow> (s, Inl (TypeErrorPy ''get'')))"

definition host_stop :: "time \<Rightarrow> bool \<Rightarrow> sched_host \<Rightarrow> sched_host" where
  "host_stop now writes s = host_save now writes (s\<lparr>sh_running := False, sh_due := [], sh_firing := None\<rparr>)"

subsection \<open>The loop\<close>

definition due_schedules :: "time \<Rightarrow> sched_host \<Rightarrow> string list" where
  "due_schedules now s =
     map fst (filter (\<lambda>(sid, sp). sd_enabled sp \<and> (case dget (sh_next s) sid of Some t \<Rightarrow> t \<le> now | None \<Rightarrow> False)) (sh_schedules s))"

text \<open>The sequence number as \<open>format(seq, '06d')\<close> prints it.\<close>

definition zero_fill :: "nat \<Rightarrow> string \<Rightarrow> string" where
  "zero_fill w ds = replicate (w - length ds) (CHR ''0'') @ ds"

definition seq_name :: "int \<Rightarrow> string" where
  "seq_name n = (if n < 0 then CHR ''-'' # zero_fill 5 (dec_digits (nat (- n))) else zero_fill 6 (dec_digits (nat n)))"

definition run_task_id :: "string \<Rightarrow> int \<Rightarrow> string" where
  "run_task_id sid n = sid @ CHR ''-'' # seq_name n"

text \<open>\<open>_fire\<close> up to the call of the executor; the result is the task that is handed over.\<close>

definition fire_begin :: "time \<Rightarrow> string \<Rightarrow> sched_host \<Rightarrow> sched_host \<times> (string, json) dict option" where
  "fire_begin now sid s =
     (case dget (sh_schedules s) sid of
        None \<Rightarrow> (s\<lparr>sh_next := dpop (sh_next s) sid\<rparr>, None)
      | Some sp \<Rightarrow>
          (let n = dget_or (sh_seq s) sid 0 + 1; tid = run_task_id sid n
           in (s\<lparr>sh_seq := dset (sh_seq s) sid n,
                 sh_firing := Some (sid, sp, \<lparr>rn_seq = n, rn_task_id = tid, rn_status = ''running'', rn_started = now,
                   rn_finished = 0, rn_error = JStr [], rn_result = []\<rparr>)\<rparr>,
               Some [(''task_id'', JStr tid), (''type'', JStr (sd_task_type sp)), (''model'', JStr (sd_model sp)),
                     (''params'', JObj (sd_params sp))])))"

text \<open>The rest: the answer, an exception being the answer with its text, is recorded, and the next run is
  planned with the schedule as it is now when it is still the same object, which \<open>set_enabled\<close> keeps and
  \<open>register\<close> replaces; its rule is the same in the first case, so the schedule of the start is used.\<close>

definition fire_end :: "py_conv \<Rightarrow> calendar \<Rightarrow> time \<Rightarrow> (string, json) dict \<Rightarrow> sched_host \<Rightarrow> sched_host" where
  "fire_end pc cal now result s =
     (case sh_firing s of
        None \<Rightarrow> s
      | Some (sid, sp, r0) \<Rightarrow>
          (let err = jget result ''error'' JNull;
               r = (if truthy err then r0\<lparr>rn_finished := now, rn_status := ''failed'', rn_error := err\<rparr>
                    else r0\<lparr>rn_finished := now, rn_status := ''completed'', rn_result := result\<rparr>)
           in s\<lparr>sh_runs := dset (sh_runs s) sid (last_runs (dget_or (sh_runs s) sid [] @ [r])),
                sh_next := dset (sh_next s) sid (next_run_at pc cal now sp), sh_firing := None\<rparr>))"

subsection \<open>Runs of the host\<close>

datatype host_event = Handed "(string, json) dict" | Removed string | Restarted | Quiet

text \<open>A restart reads the file of the last process into a fresh host.\<close>

inductive host_step :: "py_conv \<Rightarrow> calendar \<Rightarrow> sched_host \<Rightarrow> host_event \<Rightarrow> sched_host \<Rightarrow> bool" for pc cal where
  register: "host_step pc cal s Quiet (fst (host_register pc cal now w fresh sp s))"
| remove: "host_step pc cal s (Removed sid) (fst (host_remove now w sid s))"
| enable: "host_step pc cal s Quiet (fst (host_set_enabled pc cal now w sid on s))"
| start: "host_step pc cal s Quiet (s\<lparr>sh_running := True\<rparr>)"
| stop: "host_step pc cal s Quiet (host_stop now w s)"
| tick: "sh_running s \<Longrightarrow> sh_due s = [] \<Longrightarrow> sh_firing s = None \<Longrightarrow>
    host_step pc cal s Quiet (s\<lparr>sh_due := due_schedules now s, sh_tick := now\<rparr>)"
| fire: "sh_firing s = None \<Longrightarrow> sh_due s = sid # rest \<Longrightarrow> fire_begin (sh_tick s) sid (s\<lparr>sh_due := rest\<rparr>) = (s', t) \<Longrightarrow>
    host_step pc cal s (case t of None \<Rightarrow> Quiet | Some d \<Rightarrow> Handed d) s'"
| answer: "host_step pc cal s Quiet (fire_end pc cal now result s)"
| restart: "host_step pc cal s Restarted (fst (host_load pc cal now (sched_host_init resident (sh_stored s))))"

inductive host_run :: "py_conv \<Rightarrow> calendar \<Rightarrow> sched_host \<Rightarrow> host_event list \<Rightarrow> sched_host \<Rightarrow> bool" for pc cal where
  stay: "host_run pc cal s [] s"
| more: "host_run pc cal s es s' \<Longrightarrow> host_step pc cal s' e s'' \<Longrightarrow> host_run pc cal s (es @ [e]) s''"

subsection \<open>What the host keeps\<close>

definition schedulable :: "(string, json) dict \<Rightarrow> bool" where
  "schedulable d \<longleftrightarrow> (case dget d ''type'' of Some (JStr t) \<Rightarrow> t \<in> set SCHEDULABLE_TASK_TYPES | _ \<Rightarrow> False)"

definition entry_ok :: "py_conv \<Rightarrow> string \<Rightarrow> schedule \<Rightarrow> bool" where
  "entry_ok pc sid sp \<longleftrightarrow> sd_id sp = sid \<and> validate_schedule pc sp = Inr ()"

definition host_ok :: "py_conv \<Rightarrow> sched_host \<Rightarrow> bool" where
  "host_ok pc s \<longleftrightarrow>
     dwf (sh_schedules s) \<and> dwf (sh_runs s) \<and>
     (\<forall>sid sp. dget (sh_schedules s) sid = Some sp \<longrightarrow> entry_ok pc sid sp) \<and>
     (\<forall>sid rs. dget (sh_runs s) sid = Some rs \<longrightarrow> length rs \<le> MAX_RUNS_PER_SCHEDULE) \<and>
     (\<forall>sid sp r. sh_firing s = Some (sid, sp, r) \<longrightarrow> entry_ok pc sid sp)"

lemma dget_setdefault: "dget (default_set d k v) j = (if j = k \<and> dget d k = None then Some v else dget d j)"
  by (auto simp: default_set_def)

lemma length_last_runs: "length (last_runs rs) \<le> MAX_RUNS_PER_SCHEDULE"
  by (simp add: last_runs_def)

lemma dwf_setdefault [simp]: "dwf d \<Longrightarrow> dwf (default_set d k v)"
  by (simp add: default_set_def)

lemma entry_okI: "validate_schedule pc sp = Inr () \<Longrightarrow> entry_ok pc (sd_id sp) sp"
  by (simp add: entry_ok_def)

lemma validate_id [simp]: "validate_schedule pc (sp\<lparr>sd_id := i\<rparr>) = validate_schedule pc sp"
  by (simp add: validate_schedule_def cong: if_cong)

lemma validate_enabled [simp]: "validate_schedule pc (sp\<lparr>sd_enabled := b\<rparr>) = validate_schedule pc sp"
  by (simp add: validate_schedule_def cong: if_cong)

lemma entry_ok_register: "validate_schedule pc sp = Inr () \<Longrightarrow> entry_ok pc i (sp\<lparr>sd_id := i\<rparr>)"
  by (simp add: entry_ok_def)

lemma entry_ok_enabled: "entry_ok pc sid sp \<Longrightarrow> entry_ok pc sid (sp\<lparr>sd_enabled := b\<rparr>)"
  by (simp add: entry_ok_def)

lemma host_save_simps [simp]:
  "sh_schedules (host_save now w s) = sh_schedules s" "sh_runs (host_save now w s) = sh_runs s"
  "sh_seq (host_save now w s) = sh_seq s" "sh_firing (host_save now w s) = sh_firing s"
  by (simp_all add: host_save_def)

lemma read_schedule_valid: "read_schedule pc d = Inr sp \<Longrightarrow> validate_schedule pc sp = Inr ()"
  by (auto simp: read_schedule_def and_then_Inr)

lemma host_ok_put: "host_ok pc s \<Longrightarrow> validate_schedule pc sp = Inr () \<Longrightarrow> host_ok pc (put_schedule pc cal now sp s)"
  by (auto simp: host_ok_def put_schedule_def entry_okI)

lemma host_ok_load_schedules: "host_ok pc s \<Longrightarrow> host_ok pc (fst (load_schedules pc cal now vs s))"
  by (induction pc cal now vs s rule: load_schedules.induct)
    (auto split: sum.splits prod.splits simp: host_ok_put read_schedule_valid)

lemma host_ok_load_runs: "host_ok pc s \<Longrightarrow> host_ok pc (load_runs pc x s)"
  using length_last_runs
  by (auto simp: host_ok_def load_runs_def Let_def split: prod.splits option.splits)

lemma host_ok_load_all_runs: "host_ok pc s \<Longrightarrow> host_ok pc (fold (load_runs pc) xs s)"
  by (induction xs arbitrary: s) (auto simp: host_ok_load_runs)

lemma host_ok_init [simp]: "host_ok pc (sched_host_init r stored)"
  by (simp add: host_ok_def sched_host_init_def)

lemma host_ok_load:
  assumes "host_ok pc s"
  shows "host_ok pc (fst (host_load pc cal now s))"
proof -
  have ok: "host_ok pc s1" if "load_schedules pc cal now vs s = (s1, r)" for vs s1 r
    using host_ok_load_schedules [OF assms, of cal now vs] that by simp
  show ?thesis
    unfolding host_load_def
    by (simp add: assms split: option.split json.split prod.split sum.split)
      (auto intro: host_ok_load_all_runs dest: ok)
qed

lemma host_ok_register: "host_ok pc s \<Longrightarrow> host_ok pc (fst (host_register pc cal now w fresh sp s))"
  by (auto simp: host_ok_def host_register_def Let_def dget_setdefault entry_ok_register split: sum.splits)

lemma host_ok_remove: "host_ok pc s \<Longrightarrow> host_ok pc (fst (host_remove now w sid s))"
  by (auto simp: host_ok_def host_remove_def)

lemma host_ok_enable: "host_ok pc s \<Longrightarrow> host_ok pc (fst (host_set_enabled pc cal now w sid on s))"
  by (auto simp: host_ok_def host_set_enabled_def Let_def entry_ok_enabled split: option.splits)

lemma host_ok_fire: "host_ok pc s \<Longrightarrow> host_ok pc (fst (fire_begin now sid s))"
  by (auto simp: host_ok_def fire_begin_def Let_def split: option.splits)

lemma host_ok_answer: "host_ok pc s \<Longrightarrow> host_ok pc (fire_end pc cal now result s)"
  using length_last_runs by (auto simp: host_ok_def fire_end_def Let_def split: option.splits)

lemma host_ok_stop: "host_ok pc s \<Longrightarrow> host_ok pc (host_stop now w s)"
  by (simp add: host_ok_def host_stop_def)

lemma host_ok_due: "host_ok pc s \<Longrightarrow> host_ok pc (s\<lparr>sh_due := due\<rparr>)"
  by (simp add: host_ok_def)

lemma valid_type: "entry_ok pc sid sp \<Longrightarrow> sd_task_type sp \<in> set SCHEDULABLE_TASK_TYPES"
  by (auto simp: entry_ok_def validate_schedule_def split: if_splits)

lemma host_okD: "host_ok pc s \<Longrightarrow> dget (sh_schedules s) sid = Some sp \<Longrightarrow> entry_ok pc sid sp"
  by (simp add: host_ok_def)

lemma fire_schedulable: "host_ok pc s \<Longrightarrow> fire_begin now sid s = (s', Some d) \<Longrightarrow> schedulable d"
  by (auto simp: fire_begin_def schedulable_def Let_def split: option.splits dest!: host_okD valid_type)

lemma host_step_ok: "host_step pc cal s e s' \<Longrightarrow> host_ok pc s \<Longrightarrow> host_ok pc s' \<and> (\<forall>d. e = Handed d \<longrightarrow> schedulable d)"
proof (induction rule: host_step.induct)
  case (fire s sid rest s' t)
  then show ?case
    using host_ok_fire [OF host_ok_due] fire_schedulable [OF host_ok_due]
    by (metis fst_conv option.case_eq_if option.collapse host_event.distinct(5) host_event.inject(1))
qed (simp_all add: host_ok_register host_ok_remove host_ok_enable host_ok_stop host_ok_answer host_ok_load,
     simp_all add: host_ok_def)

lemma host_run_ok: "host_run pc cal s es s' \<Longrightarrow> host_ok pc s \<Longrightarrow> host_ok pc s' \<and> (\<forall>d. Handed d \<in> set es \<longrightarrow> schedulable d)"
  by (induction rule: host_run.induct) (auto dest: host_step_ok)

subsection \<open>Task ids\<close>

lemma dash_free_name: "0 \<le> n \<Longrightarrow> CHR ''-'' \<notin> set (seq_name n)"
  using no_digit [of "CHR ''-''"] by (auto simp: seq_name_def zero_fill_def)

lemma seq_name_inj: "0 \<le> n \<Longrightarrow> 0 \<le> m \<Longrightarrow> seq_name n = seq_name m \<Longrightarrow> n = m"
proof -
  assume nm: "0 \<le> n" "0 \<le> m" "seq_name n = seq_name m"
  have unfill: "dec_value (zero_fill w ds) = dec_value ds" for w ds
    by (simp add: dec_value_def zero_fill_def foldl_replicate_0)
  have "dec_value (seq_name n) = dec_value (seq_name m)" using nm by simp
  then show "n = m" using nm by (simp add: seq_name_def unfill dec_value_digits)
qed

lemma run_task_id_inj: "0 \<le> n \<Longrightarrow> 0 \<le> m \<Longrightarrow> run_task_id a n = run_task_id b m \<Longrightarrow> a = b \<and> n = m"
  unfolding run_task_id_def using after_last dash_free_name seq_name_inj by metis

definition seq_at :: "sched_host \<Rightarrow> string \<Rightarrow> int" where
  "seq_at s sid = dget_or (sh_seq s) sid 0"

definition kept_life :: "host_event \<Rightarrow> bool" where
  "kept_life e \<longleftrightarrow> (case e of Removed _ \<Rightarrow> False | Restarted \<Rightarrow> False | _ \<Rightarrow> True)"

fun handed_id :: "host_event \<Rightarrow> json list" where
  "handed_id (Handed d) = [jget d ''task_id'' JNull]"
| "handed_id _ = []"

lemma seq_at_setdefault: "dget_or (default_set d k 0) j 0 = (dget_or d j 0 :: int)"
  by (simp add: dget_or_def dget_setdefault split: option.splits)

lemma seq_at_quiet [simp]:
  "seq_at (fst (host_register pc cal now w fresh sp s)) = seq_at s"
  "seq_at (fst (host_set_enabled pc cal now w sid on s)) = seq_at s"
  "seq_at (host_stop now w s) = seq_at s"
  "seq_at (fire_end pc cal now result s) = seq_at s"
  by (auto simp: seq_at_def fun_eq_iff host_register_def host_set_enabled_def host_stop_def fire_end_def Let_def
      seq_at_setdefault split: sum.splits option.splits prod.splits)

lemma seq_at_fire:
  "fire_begin now sid s = (s', Some d) \<Longrightarrow>
     seq_at s' = (seq_at s)(sid := seq_at s sid + 1) \<and> jget d ''task_id'' JNull = JStr (run_task_id sid (seq_at s sid + 1))"
  "fire_begin now sid s = (s', None) \<Longrightarrow> seq_at s' = seq_at s"
  by (auto simp: seq_at_def fun_eq_iff fire_begin_def Let_def dget_or_def jget_def split: option.splits)

lemma host_step_seq:
  "host_step pc cal s e s' \<Longrightarrow> kept_life e \<Longrightarrow>
     (handed_id e = [] \<and> seq_at s' = seq_at s) \<or>
     (\<exists>sid. handed_id e = [JStr (run_task_id sid (seq_at s sid + 1))] \<and> seq_at s' = (seq_at s)(sid := seq_at s sid + 1))"
proof (induction rule: host_step.induct)
  case (fire s sid rest s' t)
  have same: "seq_at (s\<lparr>sh_due := rest\<rparr>) = seq_at s" by (simp add: seq_at_def fun_eq_iff)
  show ?case
    using fire(3) seq_at_fire [of "sh_tick s" sid "s\<lparr>sh_due := rest\<rparr>" s', unfolded same] by (cases t) auto
qed (simp_all add: kept_life_def, simp_all add: seq_at_def fun_eq_iff)

text \<open>The numbers handed out in a life of the host: distinct, above those at its start and at most the present ones.\<close>

definition handed_out :: "sched_host \<Rightarrow> sched_host \<Rightarrow> (string \<times> int) list \<Rightarrow> bool" where
  "handed_out s s' ps \<longleftrightarrow>
     distinct ps \<and> (\<forall>(a, n) \<in> set ps. seq_at s a < n \<and> n \<le> seq_at s' a) \<and> (\<forall>a. seq_at s a \<le> seq_at s' a)"

lemma handed_out_Nil: "handed_out s s []"
  by (simp add: handed_out_def)

lemma handed_out_quiet: "handed_out s s' ps \<Longrightarrow> seq_at s'' = seq_at s' \<Longrightarrow> handed_out s s'' ps"
  by (simp add: handed_out_def)

lemma handed_out_snoc:
  "handed_out s s' ps \<Longrightarrow> seq_at s'' = (seq_at s')(a := seq_at s' a + 1) \<Longrightarrow> handed_out s s'' (ps @ [(a, seq_at s' a + 1)])"
proof -
  assume h: "handed_out s s' ps" and up: "seq_at s'' = (seq_at s')(a := seq_at s' a + 1)"
  have le: "seq_at s' b \<le> seq_at s'' b" for b by (simp add: up)
  have old: "seq_at s b < n \<and> n \<le> seq_at s' b" if "(b, n) \<in> set ps" for b n
    using h that unfolding handed_out_def by blast
  have grown: "seq_at s b \<le> seq_at s'' b" for b
    using h le order_trans unfolding handed_out_def by blast
  have "(a, seq_at s' a + 1) \<notin> set ps" using old by fastforce
  moreover have "distinct ps" using h by (simp add: handed_out_def)
  moreover have "seq_at s a < seq_at s' a + 1" using h by (simp add: handed_out_def)
  moreover have "seq_at s b < n \<and> n \<le> seq_at s'' b" if "(b, n) \<in> set ps" for b n
    using old [OF that] le [of b] by linarith
  moreover have "seq_at s' a + 1 \<le> seq_at s'' a" by (simp add: up)
  ultimately show ?thesis
    using grown unfolding handed_out_def by auto
qed

lemma host_run_handed_out:
  "host_run pc cal s es s' \<Longrightarrow> \<forall>e \<in> set es. kept_life e \<Longrightarrow>
     \<exists>ps. handed_out s s' ps \<and> concat (map handed_id es) = map (\<lambda>(a, n). JStr (run_task_id a n)) ps"
proof (induction rule: host_run.induct)
  case (stay s)
  then show ?case using handed_out_Nil by auto
next
  case (more s es s' e s'')
  then obtain ps where ps: "handed_out s s' ps"
      "concat (map handed_id es) = map (\<lambda>(a, n). JStr (run_task_id a n)) ps" by auto
  have "kept_life e" using more.prems by simp
  from host_step_seq [OF more.hyps(2) this] show ?case
  proof (elim disjE exE conjE)
    assume "handed_id e = []" "seq_at s'' = seq_at s'"
    then show ?thesis using ps handed_out_quiet [OF ps(1)] by (intro exI [of _ ps]) simp
  next
    fix a assume "handed_id e = [JStr (run_task_id a (seq_at s' a + 1))]" "seq_at s'' = (seq_at s')(a := seq_at s' a + 1)"
    then show ?thesis using ps handed_out_snoc by (intro exI [of _ "ps @ [(a, seq_at s' a + 1)]"]) auto
  qed
qed

lemma handed_ids_distinct:
  "host_run pc cal s es s' \<Longrightarrow> \<forall>e \<in> set es. kept_life e \<Longrightarrow> \<forall>a. 0 \<le> seq_at s a \<Longrightarrow> distinct (concat (map handed_id es))"
proof -
  assume run: "host_run pc cal s es s'" "\<forall>e \<in> set es. kept_life e" and pos: "\<forall>a. 0 \<le> seq_at s a"
  from host_run_handed_out [OF run] obtain ps where ps: "handed_out s s' ps"
    "concat (map handed_id es) = map (\<lambda>(a, n). JStr (run_task_id a n)) ps" by blast
  have "0 \<le> n" if "(a, n) \<in> set ps" for a n
  proof -
    have "seq_at s a < n" using ps(1) that unfolding handed_out_def by blast
    then show ?thesis using pos [rule_format, of a] by linarith
  qed
  then have "inj_on (\<lambda>(a, n). JStr (run_task_id a n)) (set ps)"
    by (auto intro!: inj_onI) (use run_task_id_inj in blast)+
  then show "distinct (concat (map handed_id es))"
    using ps by (simp add: distinct_map handed_out_def)
qed

subsection \<open>The next run\<close>

text \<open>The calendar of a day of 24 hours: any time of today is less than a day away from now.\<close>

definition whole_day :: "calendar \<Rightarrow> time \<Rightarrow> bool" where
  "whole_day cal now \<longleftrightarrow> (\<forall>h m. 0 \<le> h \<and> h \<le> 23 \<and> 0 \<le> m \<and> m \<le> 59 \<longrightarrow>
     now - 86400 < cal_today cal now h m \<and> cal_today cal now h m < now + 86400)"

lemma parse_at_bounds: "parse_at pc x = Some (h, m) \<Longrightarrow> 0 \<le> h \<and> h \<le> 23 \<and> 0 \<le> m \<and> m \<le> 59"
  by (auto simp: parse_at_def split: list.splits option.splits if_splits)

lemma valid_parse:
  assumes "validate_schedule pc sp = Inr ()" "sd_kind sp \<noteq> ''interval''"
  obtains h m where "parse_at pc (sd_at sp) = Some (h, m)"
  using assms by (auto simp: validate_schedule_def split: if_splits)

lemma next_run_interval: "sd_kind sp = ''interval'' \<Longrightarrow> next_run_at pc cal now sp = now + of_int (sd_every sp)"
  by (simp add: next_run_at_def)

definition week_day_gap :: "calendar \<Rightarrow> time \<Rightarrow> schedule \<Rightarrow> int" where
  "week_day_gap cal now sp = (let d = (sd_weekday sp - cal_wday cal now) mod 7 in if d = 0 then 7 else d)"

lemma week_day_gap_bounds: "1 \<le> week_day_gap cal now sp" "week_day_gap cal now sp \<le> 7"
proof -
  have "0 \<le> (sd_weekday sp - cal_wday cal now) mod 7" "(sd_weekday sp - cal_wday cal now) mod 7 < 7" by simp_all
  then show "1 \<le> week_day_gap cal now sp" "week_day_gap cal now sp \<le> 7"
    unfolding week_day_gap_def Let_def by presburger+
qed

lemma next_run_clock:
  "sd_kind sp \<noteq> ''interval'' \<Longrightarrow> parse_at pc (sd_at sp) = Some (h, m) \<Longrightarrow>
     next_run_at pc cal now sp =
       (let base = cal_today cal now h m
        in if base > now then base
           else if sd_kind sp = ''daily'' then base + 86400 else base + of_int (week_day_gap cal now sp) * 86400)"
  by (simp add: next_run_at_def week_day_gap_def Let_def)

lemma next_run_bounds_clock:
  assumes "validate_schedule pc sp = Inr ()" "sd_kind sp \<noteq> ''interval''" "whole_day cal now"
  shows "now < next_run_at pc cal now sp" "next_run_at pc cal now sp \<le> now + 7 * 86400"
proof -
  obtain h m where hm: "parse_at pc (sd_at sp) = Some (h, m)" using valid_parse assms(1,2) by blast
  have today: "now - 86400 < cal_today cal now h m" "cal_today cal now h m < now + 86400"
    using assms(3) parse_at_bounds [OF hm] by (auto simp: whole_day_def)
  have gap: "1 \<le> (of_int (week_day_gap cal now sp) :: real)" "(of_int (week_day_gap cal now sp) :: real) \<le> 7"
    using week_day_gap_bounds [of cal now sp] by linarith+
  show "now < next_run_at pc cal now sp" "next_run_at pc cal now sp \<le> now + 7 * 86400"
    using today gap by (simp_all add: next_run_clock [OF assms(2) hm] Let_def)
qed

subsection \<open>Restart\<close>

lemma read_runs_written: "read_runs pc (map (\<lambda>r. JObj (run_to_dict r)) rs) = Some rs"
  by (induction rs) (use run_wire.dec_enc in \<open>auto simp: value_of_Some split: sum.splits\<close>)

lemma read_schedule_written: "validate_schedule pc sp = Inr () \<Longrightarrow> read_schedule pc (schedule_to_dict sp) = Inr sp"
  using schedule_wire.dec_enc [of pc sp] by (simp add: read_schedule_def value_of_Some)

lemma load_schedules_written:
  "\<forall>sp \<in> set sps. validate_schedule pc sp = Inr () \<Longrightarrow>
     load_schedules pc cal now (map (\<lambda>sp. JObj (schedule_to_dict sp)) sps) s =
       (fold (put_schedule pc cal now) sps s, Inr (length sps))"
  by (induction sps arbitrary: s) (simp_all add: read_schedule_written)

lemma put_schedules:
  "dwf xs \<Longrightarrow> \<forall>(k, sp) \<in> set xs. sd_id sp = k \<Longrightarrow>
     dget (sh_schedules (fold (put_schedule pc cal now) (map snd xs) s)) j =
       (case dget xs j of None \<Rightarrow> dget (sh_schedules s) j | Some sp \<Rightarrow> Some sp) \<and>
     dget (sh_next (fold (put_schedule pc cal now) (map snd xs) s)) j =
       (case dget xs j of None \<Rightarrow> dget (sh_next s) j | Some sp \<Rightarrow> Some (next_run_at pc cal now sp)) \<and>
     sh_runs (fold (put_schedule pc cal now) (map snd xs) s) = sh_runs s"
proof (induction xs arbitrary: s)
  case Nil
  then show ?case by simp
next
  case (Cons x xs)
  obtain k sp where x: "x = (k, sp)" by (cases x)
  have tail: "dwf xs" "\<forall>(k, sp) \<in> set xs. sd_id sp = k" and k: "dget xs k = None" "sd_id sp = k"
    using Cons.prems by (auto simp: x dwf_def dget_None_iff)
  show ?case
    using Cons.IH [OF tail, of "put_schedule pc cal now sp s"] k
    by (auto simp: x put_schedule_def split: option.splits)
qed

lemma load_runs_written:
  "dwf rss \<Longrightarrow> \<forall>(k, rs) \<in> set rss. length rs \<le> MAX_RUNS_PER_SCHEDULE \<Longrightarrow>
     (let s' = fold (load_runs pc) (map (\<lambda>(k, rs). (k, JList (map (\<lambda>r. JObj (run_to_dict r)) rs))) rss) s
      in sh_schedules s' = sh_schedules s \<and> sh_next s' = sh_next s \<and>
         (dget (sh_schedules s) j \<noteq> None \<longrightarrow>
            dget (sh_runs s') j = (case dget rss j of None \<Rightarrow> dget (sh_runs s) j | Some rs \<Rightarrow> Some rs)))"
proof (induction rss arbitrary: s)
  case Nil
  then show ?case by simp
next
  case (Cons x rss)
  obtain k rs where x: "x = (k, rs)" by (cases x)
  have tail: "dwf rss" "\<forall>(k, rs) \<in> set rss. length rs \<le> MAX_RUNS_PER_SCHEDULE"
    and k: "dget rss k = None" "last_runs rs = rs"
    using Cons.prems by (auto simp: x dwf_def dget_None_iff last_runs_def)
  show ?case
    using Cons.IH [OF tail, of "load_runs pc (k, JList (map (\<lambda>r. JObj (run_to_dict r)) rs)) s"] k
    by (auto simp: x Let_def load_runs_def iterated_def read_runs_written split: option.splits)
qed

lemma host_get_restart:
  assumes ok: "host_ok pc s"
  shows "host_get sid (fst (host_load pc cal later (sched_host_init r (Some (host_payload now s))))) =
    map_option (\<lambda>(sp, _, rs). (sp, next_run_at pc cal later sp, rs)) (host_get sid s)"
proof -
  have valid: "\<forall>sp \<in> set (map snd (sh_schedules s)). validate_schedule pc sp = Inr ()"
    and keyed: "\<forall>(k, sp) \<in> set (sh_schedules s). sd_id sp = k"
    and short: "\<forall>(k, rs) \<in> set (sh_runs s). length rs \<le> MAX_RUNS_PER_SCHEDULE"
    and wf: "dwf (sh_schedules s)" "dwf (sh_runs s)"
    using ok by (auto simp: host_ok_def entry_ok_def dget_dwf_iff)
  let ?s0 = "sched_host_init r (Some (host_payload now s))"
  let ?s1 = "fold (put_schedule pc cal later) (map snd (sh_schedules s)) ?s0"
  let ?rs = "map (\<lambda>(k, rs). (k, JList (map (\<lambda>r. JObj (run_to_dict r)) rs))) (sh_runs s)"
  have load: "fst (host_load pc cal later ?s0) = fold (load_runs pc) ?rs ?s1"
    using load_schedules_written [OF valid, of cal later ?s0]
    by (simp add: host_load_def sched_host_init_def host_payload_def jget_def iterated_def as_obj_def)
  have s1: "dget (sh_schedules ?s1) sid = dget (sh_schedules s) sid"
    "dget (sh_next ?s1) sid = map_option (next_run_at pc cal later) (dget (sh_schedules s) sid)" "sh_runs ?s1 = []"
    using put_schedules [OF wf(1) keyed, of pc cal later ?s0 sid] by (auto simp: sched_host_init_def split: option.splits)
  show ?thesis
    using load_runs_written [OF wf(2) short, of pc ?s1 sid] s1
    unfolding load host_get_def Let_def dget_or_def by (auto split: option.splits)
qed

subsection \<open>Two ways to a repeated task id, and the day of a weekly schedule\<close>

definition minute_job :: schedule where
  "minute_job = \<lparr>sd_id = ''job'', sd_kind = ''interval'', sd_every = 60, sd_at = [], sd_weekday = -1,
     sd_task_type = ''inference'', sd_model = ''m'', sd_params = [], sd_timeout = 300, sd_enabled = True\<rparr>"

lemma minute_job_valid: "validate_schedule pc minute_job = Inr ()"
  by (simp add: validate_schedule_def minute_job_def SCHEDULE_KINDS_def SCHEDULABLE_TASK_TYPES_def MIN_INTERVAL_SECONDS_def)

lemma minute_job_facts:
  "str_or (sd_id minute_job) [] = ''job''" "minute_job\<lparr>sd_id := ''job''\<rparr> = minute_job"
  "next_run_at pc cal now minute_job = now + 60"
  by (simp_all add: minute_job_def next_run_interval)

text \<open>Register, start, tick after a minute, fire.\<close>

definition job_ready :: "py_conv \<Rightarrow> calendar \<Rightarrow> sched_host \<Rightarrow> sched_host" where
  "job_ready pc cal s = (fst (host_register pc cal 0 True [] minute_job s))\<lparr>sh_running := True\<rparr>"

definition job_task :: "int \<Rightarrow> (string, json) dict" where
  "job_task n = [(''task_id'', JStr (run_task_id ''job'' n)), (''type'', JStr ''inference''), (''model'', JStr ''m''), (''params'', JObj [])]"

lemma fires_when_due:
  assumes "host_run pc cal s0 es s" "sh_running s" "sh_due s = []" "sh_firing s = None"
    and "sh_schedules s = [(''job'', minute_job)]" "dget (sh_next s) ''job'' = Some t"
  shows "\<exists>s'. host_run pc cal s0 (es @ [Quiet, Handed (job_task (seq_at s ''job'' + 1))]) s' \<and>
    sh_schedules s' = sh_schedules s \<and> sh_stored s' = sh_stored s"
proof -
  let ?s1 = "s\<lparr>sh_due := due_schedules t s, sh_tick := t\<rparr>"
  have "host_run pc cal s0 (es @ [Quiet]) ?s1"
    using host_run.more [OF assms(1) host_step.tick [OF assms(2-4)]] .
  moreover have due: "sh_due ?s1 = ''job'' # []"
    using assms(5,6) by (simp add: due_schedules_def minute_job_def)
  obtain s' where s': "fire_begin (sh_tick ?s1) ''job'' (?s1\<lparr>sh_due := []\<rparr>) = (s', Some (job_task (seq_at s ''job'' + 1)))"
    "sh_schedules s' = sh_schedules s" "sh_stored s' = sh_stored s"
    using assms(5) by (simp add: fire_begin_def job_task_def minute_job_def seq_at_def Let_def)
  have "host_step pc cal ?s1 (Handed (job_task (seq_at s ''job'' + 1))) s'"
    using host_step.fire [OF _ due s'(1)] assms(4) by simp
  ultimately show ?thesis
    using host_run.more s'(2,3) by fastforce
qed

lemma job_readied:
  "host_run pc cal s0 es s \<Longrightarrow> sh_resident s \<Longrightarrow> sh_schedules s = [] \<Longrightarrow> sh_due s = [] \<Longrightarrow> sh_firing s = None \<Longrightarrow>
     host_run pc cal s0 (es @ [Quiet, Quiet]) (job_ready pc cal s) \<and> sh_running (job_ready pc cal s) \<and>
     sh_due (job_ready pc cal s) = [] \<and> sh_firing (job_ready pc cal s) = None \<and>
     sh_schedules (job_ready pc cal s) = [(''job'', minute_job)] \<and> dget (sh_next (job_ready pc cal s)) ''job'' = Some 60 \<and>
     seq_at (job_ready pc cal s) = seq_at s"
proof -
  assume s: "host_run pc cal s0 es s" "sh_resident s" "sh_schedules s = []" "sh_due s = []" "sh_firing s = None"
  have "host_run pc cal s0 ((es @ [Quiet]) @ [Quiet]) (job_ready pc cal s)"
    unfolding job_ready_def
    by (rule host_run.more [OF host_run.more [OF s(1) host_step.register] host_step.start])
  moreover have "str_or (sd_id minute_job) [] = ''job''" "next_run_at pc cal 0 minute_job = 60"
    "minute_job\<lparr>sd_id := ''job''\<rparr> = minute_job"
    by (simp_all add: minute_job_def next_run_interval)
  moreover have "seq_at (s'\<lparr>sh_running := b\<rparr>) = seq_at s'" for s' b by (simp add: seq_at_def fun_eq_iff)
  moreover have "seq_at (job_ready pc cal s) = seq_at s" using calculation by (simp add: job_ready_def)
  ultimately show ?thesis
    using s by (simp add: job_ready_def host_register_def host_save_def minute_job_valid Let_def)
qed

lemma load_job:
  "sh_schedules x = [(''job'', minute_job)] \<Longrightarrow> sh_runs x = [(''job'', [])] \<Longrightarrow>
     (let s = fst (host_load pc cal 61 (sched_host_init r (Some (host_payload t x))))
      in sh_schedules s = [(''job'', minute_job)] \<and> sh_due s = [] \<and> sh_firing s = None \<and>
         dget (sh_next s) ''job'' = Some 121 \<and> seq_at s ''job'' = 0)"
proof -
  assume x: "sh_schedules x = [(''job'', minute_job)]" "sh_runs x = [(''job'', [])]"
  have job: "sd_id minute_job = ''job''" "next_run_at pc cal 61 minute_job = 121"
    "read_schedule pc (schedule_to_dict minute_job) = Inr minute_job"
    by (simp_all add: minute_job_def next_run_interval read_schedule_written [OF minute_job_valid, unfolded minute_job_def])
  show ?thesis
    by (simp add: x job host_load_def host_payload_def jget_def iterated_def as_obj_def load_runs_def last_runs_def
        seq_at_def put_schedule_def sched_host_init_def default_set_def dget_or_def)
qed

text \<open>A fire is not written down: after a crash the host starts again from the file of the registration, and the
  next fire hands over the same task id.\<close>

lemma first_fire:
  "\<exists>s. host_run pc cal (sched_host_init True None) [Quiet, Quiet, Quiet, Handed (job_task 1)] s \<and>
     sh_stored s = sh_stored (job_ready pc cal (sched_host_init True None))"
proof -
  let ?s0 = "sched_host_init True None" and ?s1 = "job_ready pc cal (sched_host_init True None)"
  have r1: "host_run pc cal ?s0 [Quiet, Quiet] ?s1" "sh_running ?s1" "sh_due ?s1 = []" "sh_firing ?s1 = None"
      "sh_schedules ?s1 = [(''job'', minute_job)]" "dget (sh_next ?s1) ''job'' = Some 60" "seq_at ?s1 ''job'' = 0"
    using job_readied [OF host_run.stay [of pc cal ?s0]] by (simp_all add: sched_host_init_def seq_at_def dget_or_def)
  from fires_when_due [OF r1(1-6)] show ?thesis using r1(7) by auto
qed

lemma crash_repeats_task_id:
  "\<exists>es s. host_run pc cal (sched_host_init True None) es s \<and> (\<forall>sid. Removed sid \<notin> set es) \<and>
     \<not> distinct (concat (map handed_id es))"
proof -
  let ?s0 = "sched_host_init True None" and ?s1 = "job_ready pc cal (sched_host_init True None)"
  have r1: "sh_schedules ?s1 = [(''job'', minute_job)]"
    using job_readied [OF host_run.stay [of pc cal ?s0]] by (simp add: sched_host_init_def)
  obtain s2 where s2:
    "host_run pc cal ?s0 [Quiet, Quiet, Quiet, Handed (job_task 1)] s2" "sh_stored s2 = sh_stored ?s1"
    using first_fire by blast
  let ?s3 = "fst (host_load pc cal 61 (sched_host_init True (sh_stored s2)))"
  have "sh_stored ?s1 = Some (host_payload 0 ?s1)" "sh_runs ?s1 = [(''job'', [])]"
    by (simp_all add: job_ready_def host_register_def host_save_def host_payload_def minute_job_valid Let_def
        sched_host_init_def default_set_def minute_job_facts)
  then have load: "sh_schedules ?s3 = [(''job'', minute_job)] \<and> sh_due ?s3 = [] \<and> sh_firing ?s3 = None \<and>
      dget (sh_next ?s3) ''job'' = Some 121 \<and> seq_at ?s3 ''job'' = 0"
    unfolding s2(2) using load_job [OF r1, unfolded Let_def] by presburger
  let ?s4 = "?s3\<lparr>sh_running := True\<rparr>"
  have "host_run pc cal ?s0 (([Quiet, Quiet, Quiet, Handed (job_task 1)] @ [Restarted]) @ [Quiet]) ?s4"
    by (rule host_run.more [OF host_run.more [OF s2(1) host_step.restart] host_step.start])
  from fires_when_due [OF this] load obtain s5 where
    "host_run pc cal ?s0 [Quiet, Quiet, Quiet, Handed (job_task 1), Restarted, Quiet, Quiet, Handed (job_task 1)] s5"
    by (auto simp: seq_at_def)
  then show ?thesis by (intro exI conjI) auto
qed

text \<open>The weekday only counts once the time of the day has passed: before that every weekly schedule runs today.\<close>

lemma weekly_runs_today:
  "sd_kind sp = ''weekly'' \<Longrightarrow> parse_at pc (sd_at sp) = Some (h, m) \<Longrightarrow> now < cal_today cal now h m \<Longrightarrow>
     next_run_at pc cal now sp = cal_today cal now h m"
  by (simp add: next_run_clock)

subsection \<open>The claims\<close>

text \<open>For the examples: a zone without clock changes, whose days all have 24 hours, and a job on Thursdays at 02:30.\<close>

definition utc :: calendar where
  "utc = \<lparr>cal_wday = \<lambda>now. (\<lfloor>now / 86400\<rfloor> + 3) mod 7,
     cal_today = \<lambda>now h m. of_int (\<lfloor>now / 86400\<rfloor> * 86400 + h * 3600 + m * 60)\<rparr>"

lemma utc_whole_day: "whole_day utc now"
  unfolding whole_day_def
proof (intro allI impI)
  fix h m :: int assume hm: "0 \<le> h \<and> h \<le> 23 \<and> 0 \<le> m \<and> m \<le> 59"
  have day: "of_int \<lfloor>now / 86400\<rfloor> * 86400 \<le> now" "now < (of_int \<lfloor>now / 86400\<rfloor> + 1) * 86400"
    using of_int_floor_le [of "now / 86400"] real_of_int_floor_add_one_gt [of "now / 86400"] by (simp_all add: field_simps)
  have "0 \<le> h * 3600 + m * 60" "h * 3600 + m * 60 < 86400" using hm by linarith+
  then have "(0 :: real) \<le> of_int (h * 3600 + m * 60)" "(of_int (h * 3600 + m * 60) :: real) < 86400" by linarith+
  then show "now - 86400 < cal_today utc now h m \<and> cal_today utc now h m < now + 86400"
    using day by (simp add: utc_def algebra_simps)
qed

definition sample_conv :: py_conv where
  "sample_conv = \<lparr>pc_float = \<lambda>_. None,
     pc_int = \<lambda>cs. if cs = ''02'' then Some 2 else if cs = ''30'' then Some 30 else None, pc_str = \<lambda>_. []\<rparr>"

definition thursday_job :: schedule where
  "thursday_job = minute_job\<lparr>sd_kind := ''weekly'', sd_at := ''02:30'', sd_weekday := 3\<rparr>"

lemma thursday_job_valid: "validate_schedule sample_conv thursday_job = Inr ()"
  by (simp add: validate_schedule_def thursday_job_def minute_job_def sample_conv_def parse_at_def SCHEDULE_KINDS_def
      SCHEDULABLE_TASK_TYPES_def)

text \<open>C32: Every state a host reaches, over restarts, from any file, is well formed: valid schedules under their
  own ids and at most 50 runs each; and every task it hands to the executor is of a model service type.\<close>

theorem host_stays_well_formed:
  assumes "host_run pc cal (sched_host_init r stored) es s"
  shows "host_ok pc s \<and> (\<forall>d. Handed d \<in> set es \<longrightarrow> schedulable d)"
  using host_run_ok [OF assms] by simp

theorem host_stays_well_formed_witness: "schedulable (job_task 1)"
proof -
  obtain s where "host_run sample_conv utc (sched_host_init True None) [Quiet, Quiet, Quiet, Handed (job_task 1)] s"
    using first_fire by blast
  from host_stays_well_formed [OF this] show ?thesis by simp
qed

text \<open>In one life of a host, in which no schedule is removed, no task id is handed out twice, whatever the
  schedules are called and however fires, registrations and pauses interleave.\<close>

theorem task_ids_never_repeat:
  assumes "host_run pc cal s es s'" "\<forall>e \<in> set es. kept_life e" "\<forall>sid. 0 \<le> dget_or (sh_seq s) sid 0"
  shows "distinct (concat (map handed_id es))"
  using handed_ids_distinct [OF assms(1,2)] assms(3) by (simp add: seq_at_def)

theorem task_ids_never_repeat_witness:
  "\<exists>s. host_run sample_conv utc (sched_host_init True None) [Quiet, Quiet, Quiet, Handed (job_task 1)] s \<and>
     distinct (concat (map handed_id [Quiet, Quiet, Quiet, Handed (job_task 1)]))"
proof -
  obtain s where s: "host_run sample_conv utc (sched_host_init True None) [Quiet, Quiet, Quiet, Handed (job_task 1)] s"
    using first_fire by blast
  from task_ids_never_repeat [OF s] have "distinct (concat (map handed_id [Quiet, Quiet, Quiet, Handed (job_task 1)]))"
    by (simp add: kept_life_def sched_host_init_def dget_or_def)
  with s show ?thesis by blast
qed

text \<open>A host that saves and starts again in a new process has the same schedules with the same recorded runs,
  each planned from the time of the start.\<close>

theorem schedules_survive_restart:
  assumes "host_run pc cal (sched_host_init r stored) es s"
  shows "host_get sid (fst (host_load pc cal later (sched_host_init r' (sh_stored (host_save now True s))))) =
    map_option (\<lambda>(sp, _, rs). (sp, next_run_at pc cal later sp, rs)) (host_get sid s)"
  using host_get_restart host_run_ok [OF assms] by (simp add: host_save_def)

theorem schedules_survive_restart_witness:
  "\<exists>s. host_get ''job'' (fst (host_load sample_conv utc 500 (sched_host_init True (sh_stored (host_save 70 True s))))) =
     map_option (\<lambda>(sp, _, rs). (sp, next_run_at sample_conv utc 500 sp, rs)) (host_get ''job'' s)"
proof -
  obtain s where s: "host_run sample_conv utc (sched_host_init True None) [Quiet, Quiet, Quiet, Handed (job_task 1)] s"
    using first_fire by blast
  from schedules_survive_restart [OF s] show ?thesis by blast
qed

text \<open>The next run of a valid schedule lies ahead: after its interval, or within a week when the day of now
  has at most 24 hours on either side.\<close>

theorem next_run_in_time:
  assumes "validate_schedule pc sp = Inr ()" "whole_day cal now"
  shows "now < next_run_at pc cal now sp \<and>
    next_run_at pc cal now sp \<le> now + (if sd_kind sp = ''interval'' then of_int (sd_every sp) else 7 * 86400)"
proof (cases "sd_kind sp = ''interval''")
  case True
  then have "60 \<le> sd_every sp" using assms(1) by (auto simp: validate_schedule_def MIN_INTERVAL_SECONDS_def split: if_splits)
  then show ?thesis using True by (simp add: next_run_interval)
qed (use next_run_bounds_clock assms in simp)

theorem next_run_in_time_witness:
  "10000 < next_run_at sample_conv utc 10000 thursday_job \<and> next_run_at sample_conv utc 10000 thursday_job \<le> 10000 + 7 * 86400"
  using next_run_in_time [OF thursday_job_valid utc_whole_day, of 10000] by (simp add: thursday_job_def)

end
