(* ===== verification/Sharding.thy ===== *)
theory Sharding
  imports FmpCodec
begin

text \<open>
  The split of a task into shards and the merge of their results (\<open>master/task_sharding.py\<close>), the specification
  of a task (\<open>master/task_spec.py\<close>) and the batch of test jobs (\<open>master/test_batch.py\<close>).  The items of a task are
  JSON objects; the sharder keeps one list of shards per task, and a shard the code changes in place is
  changed in that list.
\<close>

subsection \<open>Groups of items\<close>

datatype sharding_type = INFERENCE | AST | VECTORIZE
datatype sharding_strategy = BY_FILE | BY_DOCUMENT | BY_BATCH

type_synonym item = "(string, json) dict"

definition strategy_value :: "sharding_strategy \<Rightarrow> string" where
  "strategy_value st = (case st of BY_FILE \<Rightarrow> ''by_file'' | BY_DOCUMENT \<Rightarrow> ''by_document'' | BY_BATCH \<Rightarrow> ''by_batch'')"

definition default_strategy :: "sharding_type \<Rightarrow> sharding_strategy" where
  "default_strategy ty = (case ty of INFERENCE \<Rightarrow> BY_BATCH | AST \<Rightarrow> BY_FILE | VECTORIZE \<Rightarrow> BY_DOCUMENT)"

definition default_shard_size :: "sharding_type \<Rightarrow> int" where
  "default_shard_size ty = (case ty of INFERENCE \<Rightarrow> 8 | AST \<Rightarrow> 1 | VECTORIZE \<Rightarrow> 10)"

text \<open>Python slices up to and from an index; a negative index counts from the end.\<close>

definition slice_at :: "int \<Rightarrow> 'a list \<Rightarrow> nat" where
  "slice_at i xs = nat (if i < 0 then i + int (length xs) else i)"

text \<open>The loop that fills batches of \<open>n\<close> items.\<close>

definition batch_step :: "int \<Rightarrow> 'a \<Rightarrow> 'a list list \<times> 'a list \<Rightarrow> 'a list list \<times> 'a list" where
  "batch_step n x acc =
     (case acc of (result, batch) \<Rightarrow>
        let batch' = batch @ [x]
        in if int (length batch') \<ge> n then (result @ [batch'], []) else (result, batch'))"

definition batches_of :: "int \<Rightarrow> 'a list \<Rightarrow> 'a list list" where
  "batches_of n xs =
     (case fold (batch_step n) xs ([], []) of (result, batch) \<Rightarrow> if batch = [] then result else result @ [batch])"

text \<open>The key of a dictionary entry: numbers and truth values that are equal are one key, lists and objects
  cannot be keys.\<close>

definition hash_key :: "json \<Rightarrow> json option" where
  "hash_key v =
     (case v of JInt i \<Rightarrow> Some (JReal (of_int i)) | JBool b \<Rightarrow> Some (JReal (if b then 1 else 0))
      | JList _ \<Rightarrow> None | JObj _ \<Rightarrow> None | _ \<Rightarrow> Some v)"

fun key_groups :: "string \<Rightarrow> item list \<Rightarrow> (json, item list) dict \<Rightarrow> py_error + (json, item list) dict" where
  "key_groups key [] d = Inr d"
| "key_groups key (x # xs) d =
     (case hash_key (jget x key (JStr ''__default__'')) of
        None \<Rightarrow> Inl (TypeErrorPy key)
      | Some k \<Rightarrow> key_groups key xs (dset d k (dget_or d k [] @ [x])))"

definition group_by_key :: "item list \<Rightarrow> string \<Rightarrow> int \<Rightarrow> py_error + item list list" where
  "group_by_key items key n = and_then (key_groups key items []) (\<lambda>d. Inr (batches_of n (concat (dvals d))))"

text \<open>\<open>range(0, len, n)\<close>: a step of 0 raises, a negative one gives no batch.\<close>

function cut_from :: "nat \<Rightarrow> 'a list \<Rightarrow> 'a list list" where
  "cut_from n xs = (if xs = [] \<or> n = 0 then [] else take n xs # cut_from n (drop n xs))"
  by pat_completeness auto
termination by (relation "measure (\<lambda>(_, xs). length xs)") auto

declare cut_from.simps [simp del]

definition group_by_batch :: "item list \<Rightarrow> int \<Rightarrow> py_error + item list list" where
  "group_by_batch items n = (if n = 0 then Inl (ValueError ''range'') else Inr (cut_from (nat n) items))"

definition group_items :: "item list \<Rightarrow> sharding_strategy \<Rightarrow> int \<Rightarrow> py_error + item list list" where
  "group_items items st n =
     (case st of BY_FILE \<Rightarrow> group_by_key items ''file_path'' n
      | BY_DOCUMENT \<Rightarrow> group_by_key items ''document_id'' n
      | BY_BATCH \<Rightarrow> group_by_batch items n)"

subsection \<open>Shards\<close>

record task_shard =
  ss_id :: string
  ss_parent :: string
  ss_type :: sharding_type
  ss_index :: nat
  ss_total :: nat
  ss_items :: "item list"
  ss_strategy :: sharding_strategy
  ss_assigned :: string
  ss_status :: string
  ss_result :: item
  ss_created :: time
  ss_completed :: time
  ss_error :: string
  ss_timeout :: real

definition is_timed_out :: "time \<Rightarrow> task_shard \<Rightarrow> bool" where
  "is_timed_out now sh =
     (if ss_status sh \<in> {''completed'', ''failed''} then False
      else if ss_timeout sh \<le> 0 then False
      else now - ss_created sh > ss_timeout sh)"

record sharder =
  sr_default_size :: int
  sr_max :: int
  sr_shards :: "(string, task_shard list) dict"

definition sharder_init :: "int \<Rightarrow> int \<Rightarrow> sharder" where
  "sharder_init n m = \<lparr>sr_default_size = n, sr_max = m, sr_shards = []\<rparr>"

definition shard_name :: "string \<Rightarrow> nat \<Rightarrow> string" where
  "shard_name tid i = tid @ ''_shard_'' @ dec_digits i"

definition cap_groups :: "int \<Rightarrow> 'a list list \<Rightarrow> 'a list list" where
  "cap_groups m groups =
     (if int (length groups) > m
      then take (slice_at (m - 1) groups) groups @ [concat (drop (slice_at (m - 1) groups) groups)]
      else groups)"

definition new_shard :: "time \<Rightarrow> string \<Rightarrow> sharding_type \<Rightarrow> sharding_strategy \<Rightarrow> nat \<Rightarrow> nat \<times> item list \<Rightarrow> task_shard" where
  "new_shard now tid ty st n = (\<lambda>(i, g).
     \<lparr>ss_id = shard_name tid i, ss_parent = tid, ss_type = ty, ss_index = i, ss_total = n, ss_items = g, ss_strategy = st,
      ss_assigned = [], ss_status = ''pending'', ss_result = [], ss_created = now, ss_completed = 0, ss_error = [],
      ss_timeout = 300\<rparr>)"

definition create_shards ::
  "time \<Rightarrow> string \<Rightarrow> sharding_type \<Rightarrow> item list \<Rightarrow> sharding_strategy option \<Rightarrow> int option \<Rightarrow> sharder
   \<Rightarrow> sharder \<times> (py_error + task_shard list)" where
  "create_shards now tid ty items st n s =
     (if items = [] then (s, Inr [])
      else let strat = (case st of Some x \<Rightarrow> x | None \<Rightarrow> default_strategy ty);
               width = (case n of Some k \<Rightarrow> if k = 0 then default_shard_size ty else k | None \<Rightarrow> default_shard_size ty)
           in case group_items items strat width of
                Inl e \<Rightarrow> (s, Inl e)
              | Inr gs \<Rightarrow>
                  (let groups = cap_groups (sr_max s) gs;
                       shards = map (new_shard now tid ty strat (length groups)) (enumerate 0 groups)
                   in (s\<lparr>sr_shards := dset (sr_shards s) tid shards\<rparr>, Inr shards)))"

definition get_shards :: "string \<Rightarrow> sharder \<Rightarrow> task_shard list" where
  "get_shards tid s = dget_or (sr_shards s) tid []"

definition get_shard :: "string \<Rightarrow> sharder \<Rightarrow> task_shard option" where
  "get_shard sid s = find (\<lambda>sh. ss_id sh = sid) (concat (dvals (sr_shards s)))"

text \<open>The change in place of the first shard of the id.\<close>

fun on_first :: "('a \<Rightarrow> bool) \<Rightarrow> ('a \<Rightarrow> 'a) \<Rightarrow> 'a list \<Rightarrow> 'a list option" where
  "on_first P f [] = None"
| "on_first P f (x # xs) = (if P x then Some (f x # xs) else map_option ((#) x) (on_first P f xs))"

fun on_first_in :: "('a \<Rightarrow> bool) \<Rightarrow> ('a \<Rightarrow> 'a) \<Rightarrow> ('k, 'a list) dict \<Rightarrow> ('k, 'a list) dict option" where
  "on_first_in P f [] = None"
| "on_first_in P f ((k, xs) # d) =
     (case on_first P f xs of Some ys \<Rightarrow> Some ((k, ys) # d) | None \<Rightarrow> map_option ((#) (k, xs)) (on_first_in P f d))"

definition set_shard_status :: "time \<Rightarrow> string \<Rightarrow> item option \<Rightarrow> task_shard \<Rightarrow> task_shard" where
  "set_shard_status now status result sh =
     sh\<lparr>ss_status := status,
        ss_result := (case result of Some r \<Rightarrow> if r = [] then ss_result sh else r | None \<Rightarrow> ss_result sh),
        ss_completed := (if status \<in> {''completed'', ''failed''} then now else ss_completed sh)\<rparr>"

definition update_shard_status :: "time \<Rightarrow> string \<Rightarrow> string \<Rightarrow> item option \<Rightarrow> sharder \<Rightarrow> sharder \<times> bool" where
  "update_shard_status now sid status result s =
     (case on_first_in (\<lambda>sh. ss_id sh = sid) (set_shard_status now status result) (sr_shards s) of
        None \<Rightarrow> (s, False)
      | Some d \<Rightarrow> (s\<lparr>sr_shards := d\<rparr>, True))"

subsection \<open>Merged results\<close>

record merged_result =
  mg_task :: string
  mg_type :: sharding_type
  mg_total :: nat
  mg_success :: nat
  mg_fail :: nat
  mg_data :: item
  mg_errors :: "string list"
  mg_merged_at :: time

definition is_complete :: "merged_result \<Rightarrow> bool" where
  "is_complete m \<longleftrightarrow> mg_success m + mg_fail m = mg_total m"

definition success_rate :: "merged_result \<Rightarrow> real" where
  "success_rate m = (if mg_total m = 0 then 0 else of_nat (mg_success m) / of_nat (mg_total m))"

definition extend_with :: "string \<Rightarrow> item \<Rightarrow> json list \<Rightarrow> py_error + json list" where
  "extend_with k d acc =
     (case iterated (jget d k JNull) of None \<Rightarrow> Inl (TypeErrorPy k) | Some vs \<Rightarrow> Inr (acc @ vs))"

definition concat_step :: "item \<Rightarrow> json list \<Rightarrow> py_error + json list" where
  "concat_step d acc =
     (if dget d ''results'' \<noteq> None then extend_with ''results'' d acc
      else if dget d ''items'' \<noteq> None then extend_with ''items'' d acc
      else Inr (acc @ [JObj d]))"

definition trees_step :: "item \<Rightarrow> json list \<Rightarrow> py_error + json list" where
  "trees_step d acc =
     (case dget d ''tree'' of
        Some t \<Rightarrow> Inr (acc @ [t])
      | None \<Rightarrow>
          if dget d ''trees'' \<noteq> None then extend_with ''trees'' d acc
          else (case dget d ''ast'' of Some t \<Rightarrow> Inr (acc @ [t]) | None \<Rightarrow> Inr acc))"

text \<open>The sum of two JSON numbers; a truth value counts as a number, anything else raises.\<close>

definition as_number :: "json \<Rightarrow> (int + real) option" where
  "as_number v = (case v of JInt i \<Rightarrow> Some (Inl i) | JBool b \<Rightarrow> Some (Inl (if b then 1 else 0)) | JReal x \<Rightarrow> Some (Inr x) | _ \<Rightarrow> None)"

definition num_add :: "json \<Rightarrow> json \<Rightarrow> json option" where
  "num_add a b =
     (case (as_number a, as_number b) of
        (Some (Inl i), Some (Inl j)) \<Rightarrow> Some (JInt (i + j))
      | (Some (Inl i), Some (Inr y)) \<Rightarrow> Some (JReal (of_int i + y))
      | (Some (Inr x), Some (Inl j)) \<Rightarrow> Some (JReal (x + of_int j))
      | (Some (Inr x), Some (Inr y)) \<Rightarrow> Some (JReal (x + y))
      | _ \<Rightarrow> None)"

definition embeddings_step :: "item \<Rightarrow> json list \<times> json \<Rightarrow> py_error + json list \<times> json" where
  "embeddings_step d acc =
     and_then (if dget d ''embeddings'' \<noteq> None then extend_with ''embeddings'' d (fst acc) else Inr (fst acc)) (\<lambda>es.
     (case num_add (snd acc) (jget d ''token_count'' (JInt 0)) of
        None \<Rightarrow> Inl (TypeErrorPy ''token_count'') | Some t \<Rightarrow> Inr (es, t)))"

fun each_in :: "('a \<Rightarrow> 'b \<Rightarrow> py_error + 'b) \<Rightarrow> 'a list \<Rightarrow> 'b \<Rightarrow> py_error + 'b" where
  "each_in f [] acc = Inr acc"
| "each_in f (x # xs) acc = and_then (f x acc) (each_in f xs)"

definition concat_results :: "item list \<Rightarrow> py_error + item" where
  "concat_results ds = and_then (each_in concat_step ds []) (\<lambda>rs. Inr [(''results'', JList rs), (''count'', JInt (int (length rs)))])"

definition merge_ast_trees :: "item list \<Rightarrow> py_error + item" where
  "merge_ast_trees ds = and_then (each_in trees_step ds []) (\<lambda>ts. Inr [(''trees'', JList ts), (''file_count'', JInt (int (length ts)))])"

definition merge_embeddings :: "item list \<Rightarrow> py_error + item" where
  "merge_embeddings ds =
     and_then (each_in embeddings_step ds ([], JInt 0)) (\<lambda>(es, t).
       Inr [(''embeddings'', JList es), (''count'', JInt (int (length es))), (''total_tokens'', t)])"

definition apply_merge :: "sharding_type \<Rightarrow> item list \<Rightarrow> py_error + item" where
  "apply_merge ty ds = (case ty of INFERENCE \<Rightarrow> concat_results ds | AST \<Rightarrow> merge_ast_trees ds | VECTORIZE \<Rightarrow> merge_embeddings ds)"

definition merge_shards :: "time \<Rightarrow> string \<Rightarrow> task_shard list \<Rightarrow> py_error + merged_result" where
  "merge_shards now tid shards =
     (if shards = [] then
        Inr \<lparr>mg_task = tid, mg_type = INFERENCE, mg_total = 0, mg_success = 0, mg_fail = 0, mg_data = [], mg_errors = [],
             mg_merged_at = now\<rparr>
      else let ty = ss_type (hd shards);
               good = filter (\<lambda>sh. ss_status sh = ''completed'') shards;
               bad = filter (\<lambda>sh. ss_status sh \<noteq> ''completed'') shards
           in and_then (apply_merge ty (map ss_result good)) (\<lambda>data.
                Inr \<lparr>mg_task = tid, mg_type = ty, mg_total = length shards, mg_success = length good, mg_fail = length bad,
                     mg_data = data,
                     mg_errors = map (\<lambda>sh. ''shard_'' @ dec_digits (ss_index sh) @ '': '' @ ss_error sh)
                       (filter (\<lambda>sh. ss_error sh \<noteq> []) bad),
                     mg_merged_at = now\<rparr>))"

subsection \<open>The specification of a task and the batch of test jobs\<close>

datatype task_priority = LOW | NORMAL | HIGH | CRITICAL

definition priority_value :: "task_priority \<Rightarrow> int" where
  "priority_value p = (case p of LOW \<Rightarrow> 0 | NORMAL \<Rightarrow> 1 | HIGH \<Rightarrow> 2 | CRITICAL \<Rightarrow> 3)"

definition priority_name :: "task_priority \<Rightarrow> string" where
  "priority_name p = (case p of LOW \<Rightarrow> ''LOW'' | NORMAL \<Rightarrow> ''NORMAL'' | HIGH \<Rightarrow> ''HIGH'' | CRITICAL \<Rightarrow> ''CRITICAL'')"

text \<open>A number that is no priority raises, a name that is none and any other value are \<open>NORMAL\<close>; a truth value is
  a number.\<close>

definition read_priority :: "json \<Rightarrow> py_error + task_priority" where
  "read_priority v =
     (case as_number v of
        Some (Inl i) \<Rightarrow> (case find (\<lambda>p. priority_value p = i) [LOW, NORMAL, HIGH, CRITICAL] of
                          Some p \<Rightarrow> Inr p | None \<Rightarrow> Inl (ValueError ''priority''))
      | _ \<Rightarrow> (case v of
                JStr nm \<Rightarrow> (case find (\<lambda>p. priority_name p = nm) [LOW, NORMAL, HIGH, CRITICAL] of
                              Some p \<Rightarrow> Inr p | None \<Rightarrow> Inr NORMAL)
              | _ \<Rightarrow> Inr NORMAL))"

text \<open>The fields \<open>from_dict\<close> only passes on are kept as the values they are.\<close>

record task_spec =
  sc_name :: json
  sc_model_name :: json
  sc_mode :: json
  sc_timeout :: json
  sc_user :: json
  sc_capability :: json
  sc_preferred :: json
  sc_exclude :: json
  sc_priority :: task_priority
  sc_shards :: json
  sc_input :: json
  sc_parameters :: json

definition spec_to_dict :: "task_spec \<Rightarrow> py_error + item" where
  "spec_to_dict sp =
     (case iterated (sc_exclude sp) of
        None \<Rightarrow> Inl (TypeErrorPy ''exclude_nodes'')
      | Some ex \<Rightarrow>
          Inr [(''name'', sc_name sp), (''model_name'', sc_model_name sp), (''mode'', sc_mode sp),
               (''timeout_seconds'', sc_timeout sp), (''user'', sc_user sp), (''required_capability'', sc_capability sp),
               (''preferred_node_id'', sc_preferred sp), (''exclude_nodes'', JList ex),
               (''priority'', JInt (priority_value (sc_priority sp))), (''model_shards'', sc_shards sp),
               (''input_data'', sc_input sp), (''parameters'', sc_parameters sp)])"

definition spec_from_dict :: "item \<Rightarrow> py_error + task_spec" where
  "spec_from_dict d =
     and_then (read_priority (jget d ''priority'' (JInt 1))) (\<lambda>p.
       Inr \<lparr>sc_name = jget d ''name'' (JStr []), sc_model_name = jget d ''model_name'' (JStr []),
            sc_mode = jget d ''mode'' (JStr ''data''), sc_timeout = jget d ''timeout_seconds'' (JReal 300),
            sc_user = jget d ''user'' (JStr []), sc_capability = jget d ''required_capability'' (JStr []),
            sc_preferred = jget d ''preferred_node_id'' (JStr []), sc_exclude = jget d ''exclude_nodes'' (JList []),
            sc_priority = p, sc_shards = jget d ''model_shards'' (JList []), sc_input = jget d ''input_data'' JNull,
            sc_parameters = jget d ''parameters'' (JObj [])\<rparr>)"

lemma read_priority_value [simp]: "read_priority (JInt (priority_value p)) = Inr p"
  by (cases p) (simp_all add: read_priority_def as_number_def priority_value_def)

lemma spec_round_trip:
  "spec_to_dict sp = Inr d \<Longrightarrow> sc_exclude sp = JList ex \<Longrightarrow> spec_from_dict d = Inr sp"
  by (auto simp: spec_to_dict_def spec_from_dict_def jget_def iterated_def)

record test_job =
  tj_id :: json
  tj_task :: json
  tj_driver :: json
  tj_created :: json
  tj_node :: json

record test_batch =
  tb_id :: json
  tb_created :: json
  tb_owner :: json
  tb_jobs :: "test_job list"
  tb_status :: json

text \<open>\<open>derive_status\<close> reads the statuses of the tasks by their names.\<close>

definition job_states :: "(json \<Rightarrow> string option) \<Rightarrow> test_batch \<Rightarrow> string list" where
  "job_states status_of b =
     map (\<lambda>j. case status_of (tj_task j) of None \<Rightarrow> ''pending'' | Some st \<Rightarrow> st) (tb_jobs b)"

definition derive_status :: "(json \<Rightarrow> string option) \<Rightarrow> test_batch \<Rightarrow> json" where
  "derive_status status_of b =
     (let states = job_states status_of b in
      if states = [] then tb_status b
      else if \<forall>st \<in> set states. st \<in> {''completed'', ''failed'', ''timeout'', ''cancelled'', ''migrated'', ''partial''}
      then (if \<forall>st \<in> set states. st = ''completed'' then JStr ''completed''
            else if \<forall>st \<in> set states. st \<in> {''failed'', ''timeout'', ''cancelled''} then JStr ''failed''
            else JStr ''partial'')
      else if \<exists>st \<in> set states. st \<in> {''running'', ''pending''} then JStr ''running''
      else tb_status b)"

definition job_to_dict :: "test_job \<Rightarrow> item" where
  "job_to_dict j =
     [(''job_id'', tj_id j), (''task_id'', tj_task j), (''required_driver'', tj_driver j), (''created_at'', tj_created j),
      (''node_id'', tj_node j)]"

definition to_snapshot :: "test_batch \<Rightarrow> item" where
  "to_snapshot b =
     [(''batch_id'', tb_id b), (''created_at'', tb_created b), (''owner_master'', tb_owner b), (''status'', tb_status b),
      (''jobs'', JList (map (\<lambda>j. JObj (job_to_dict j)) (tb_jobs b)))]"

definition job_from_dict :: "item \<Rightarrow> test_job" where
  "job_from_dict d =
     \<lparr>tj_id = jget d ''job_id'' (JStr []), tj_task = jget d ''task_id'' (JStr []), tj_driver = jget d ''required_driver'' (JStr []),
      tj_created = jget d ''created_at'' (JReal 0), tj_node = jget d ''node_id'' (JStr [])\<rparr>"

fun read_jobs :: "json list \<Rightarrow> py_error + test_job list" where
  "read_jobs [] = Inr []"
| "read_jobs (JObj d # vs) = and_then (read_jobs vs) (\<lambda>js. Inr (job_from_dict d # js))"
| "read_jobs (_ # vs) = Inl (TypeErrorPy ''get'')"

definition from_snapshot :: "item \<Rightarrow> py_error + test_batch" where
  "from_snapshot d =
     (case iterated (jget d ''jobs'' (JList [])) of
        None \<Rightarrow> Inl (TypeErrorPy ''jobs'')
      | Some vs \<Rightarrow>
          and_then (read_jobs vs) (\<lambda>js.
            Inr \<lparr>tb_id = jget d ''batch_id'' (JStr []), tb_created = jget d ''created_at'' (JReal 0),
                 tb_owner = jget d ''owner_master'' (JStr []), tb_jobs = js, tb_status = jget d ''status'' (JStr ''pending'')\<rparr>))"

lemma read_jobs_written [simp]: "read_jobs (map (\<lambda>j. JObj (job_to_dict j)) js) = Inr js"
  by (induction js) (simp_all add: job_from_dict_def job_to_dict_def jget_def)

interpretation batch_wire: wire_format to_snapshot "\<lambda>d. value_of (from_snapshot d)" "\<lambda>b. b"
  by unfold_locales (simp add: from_snapshot_def to_snapshot_def jget_def iterated_def)

subsection \<open>Batches lose nothing\<close>

lemma concat_cut_from: "0 < n \<Longrightarrow> concat (cut_from n xs) = xs"
proof (induction n xs rule: cut_from.induct)
  case (1 n xs)
  then show ?case by (subst cut_from.simps) auto
qed

lemma cut_from_parts: "g \<in> set (cut_from n xs) \<Longrightarrow> g \<noteq> [] \<and> length g \<le> n"
proof (induction n xs rule: cut_from.induct)
  case (1 n xs)
  then show ?case
    by (subst (asm) cut_from.simps) (auto split: if_splits)
qed

lemma batch_step_pair:
  "batch_step n x (gs, b) = (if n \<le> 1 + int (length b) then (gs @ [b @ [x]], []) else (gs, b @ [x]))"
  by (simp add: batch_step_def Let_def add.commute)

lemma batch_steps:
  "fold (batch_step n) xs (gs, b) = (gs', b') \<Longrightarrow> 0 < n \<Longrightarrow> int (length b) < n \<Longrightarrow> \<forall>g \<in> set gs. g \<noteq> [] \<and> int (length g) \<le> n \<Longrightarrow>
     concat gs' @ b' = concat gs @ b @ xs \<and> int (length b') < n \<and> (\<forall>g \<in> set gs'. g \<noteq> [] \<and> int (length g) \<le> n)"
proof (induction xs arbitrary: gs b)
  case Nil
  then show ?case by simp
next
  case (Cons x xs)
  show ?case
  proof (cases "int (length (b @ [x])) \<ge> n")
    case True
    then have "fold (batch_step n) xs (gs @ [b @ [x]], []) = (gs', b')" using Cons.prems by (simp add: batch_step_pair)
    from Cons.IH [OF this] Cons.prems show ?thesis by auto
  next
    case False
    then have "fold (batch_step n) xs (gs, b @ [x]) = (gs', b')" using Cons.prems by (simp add: batch_step_pair)
    from Cons.IH [OF this] Cons.prems False show ?thesis by auto
  qed
qed

lemma batches_of:
  assumes "0 < n"
  shows "concat (batches_of n xs) = xs" "\<forall>g \<in> set (batches_of n xs). g \<noteq> [] \<and> int (length g) \<le> n"
proof -
  obtain gs b where fold: "fold (batch_step n) xs ([], []) = (gs, b)" by (cases "fold (batch_step n) xs ([], [])")
  from batch_steps [OF fold assms] show "concat (batches_of n xs) = xs" "\<forall>g \<in> set (batches_of n xs). g \<noteq> [] \<and> int (length g) \<le> n"
    using assms by (auto simp: batches_of_def fold)
qed

lemma concat_vals_dset: "mset (concat (dvals (dset d k (dget_or d k [] @ [x])))) = add_mset x (mset (concat (dvals d)))"
  by (induction d) (auto simp: dget_or_def)

lemma key_groups_keep: "key_groups key xs d = Inr d' \<Longrightarrow> mset (concat (dvals d')) = mset (concat (dvals d)) + mset xs"
  by (induction key xs d rule: key_groups.induct) (auto split: option.splits simp: concat_vals_dset simp del: mset_concat)

lemma group_items_keep:
  assumes "group_items items st n = Inr gs" "0 < n"
  shows "mset (concat gs) = mset items" "st = BY_BATCH \<Longrightarrow> concat gs = items" "\<forall>g \<in> set gs. g \<noteq> [] \<and> int (length g) \<le> n"
proof -
  have key: "mset (concat gs) = mset items \<and> (\<forall>g \<in> set gs. g \<noteq> [] \<and> int (length g) \<le> n)"
    if "group_by_key items key n = Inr gs" for key
    using that key_groups_keep [of key items "[]"]
    by (auto simp: group_by_key_def and_then_Inr batches_of(1) [OF assms(2)] dest: batches_of(2) [OF assms(2), rule_format]
        simp del: mset_concat)
  have batch: "concat gs = items \<and> (\<forall>g \<in> set gs. g \<noteq> [] \<and> int (length g) \<le> n)" if "group_by_batch items n = Inr gs"
    using that concat_cut_from [of "nat n" items] cut_from_parts [of _ "nat n" items] assms(2)
    by (force simp: group_by_batch_def split: if_splits)
  show "mset (concat gs) = mset items" "st = BY_BATCH \<Longrightarrow> concat gs = items" "\<forall>g \<in> set gs. g \<noteq> [] \<and> int (length g) \<le> n"
    using assms(1) key batch by (auto simp: group_items_def simp del: mset_concat split: sharding_strategy.splits)
qed

lemma concat_take_drop: "concat (take k gs @ [concat (drop k gs)]) = concat gs"
  by (metis append_take_drop_id concat.simps concat_append append_Nil2)

lemma cap_groups:
  "concat (cap_groups m gs) = concat gs" "1 \<le> m \<Longrightarrow> int (length (cap_groups m gs)) \<le> m"
  by (auto simp: cap_groups_def slice_at_def concat_take_drop simp del: concat_append)

definition chosen_strategy :: "sharding_type \<Rightarrow> sharding_strategy option \<Rightarrow> sharding_strategy" where
  "chosen_strategy ty st = (case st of Some x \<Rightarrow> x | None \<Rightarrow> default_strategy ty)"

definition chosen_width :: "sharding_type \<Rightarrow> int option \<Rightarrow> int" where
  "chosen_width ty n = (case n of Some k \<Rightarrow> if k = 0 then default_shard_size ty else k | None \<Rightarrow> default_shard_size ty)"

lemma chosen_width_pos: "\<forall>k. n = Some k \<longrightarrow> 0 \<le> k \<Longrightarrow> 0 < chosen_width ty n"
  by (auto simp: chosen_width_def default_shard_size_def split: option.splits sharding_type.splits)

lemma create_shards_cases:
  assumes "create_shards now tid ty items st n s = (s', Inr shards)" "items \<noteq> []"
  obtains gs where "group_items items (chosen_strategy ty st) (chosen_width ty n) = Inr gs"
    "shards = map (new_shard now tid ty (chosen_strategy ty st) (length (cap_groups (sr_max s) gs))) (enumerate 0 (cap_groups (sr_max s) gs))"
    "s' = s\<lparr>sr_shards := dset (sr_shards s) tid shards\<rparr>"
  using assms
  by (auto simp: create_shards_def Let_def chosen_strategy_def chosen_width_def split: sum.splits)

lemma shard_name_inj [simp]: "shard_name a i = shard_name b j \<longleftrightarrow> a = b \<and> i = j"
proof
  assume "shard_name a i = shard_name b j"
  then have eq: "(a @ ''_shard'') @ CHR ''_'' # dec_digits i = (b @ ''_shard'') @ CHR ''_'' # dec_digits j"
    by (simp add: shard_name_def)
  have free: "CHR ''_'' \<notin> set (dec_digits k)" for k using no_digit [of "CHR ''_''"] by simp
  from after_last [OF free free eq] show "a = b \<and> i = j" by simp
qed simp

lemma new_shards:
  fixes now tid ty st n gs
  defines "shards \<equiv> map (new_shard now tid ty st n) (enumerate 0 gs)"
  shows "map ss_items shards = gs" "map ss_index shards = [0..<length gs]"
    "map ss_id shards = map (shard_name tid) [0..<length gs]" "\<forall>sh \<in> set shards. ss_total sh = n \<and> ss_type sh = ty"
    "shards = [] \<longleftrightarrow> gs = []"
proof -
  have each: "ss_items (new_shard now tid ty st n x) = snd x" "ss_index (new_shard now tid ty st n x) = fst x"
    "ss_id (new_shard now tid ty st n x) = shard_name tid (fst x)" "ss_total (new_shard now tid ty st n x) = n"
    "ss_type (new_shard now tid ty st n x) = ty" for x
    by (simp_all add: new_shard_def case_prod_beta)
  show "map ss_items shards = gs" "map ss_index shards = [0..<length gs]"
    "map ss_id shards = map (shard_name tid) [0..<length gs]" "\<forall>sh \<in> set shards. ss_total sh = n \<and> ss_type sh = ty"
    "shards = [] \<longleftrightarrow> gs = []"
    by (simp_all add: shards_def each comp_def)
      (simp_all add: enumerate_eq_zip flip: map_map [of "shard_name tid" fst, unfolded comp_def])
qed

lemma created_shards:
  assumes "create_shards now tid ty items st n s = (s', Inr shards)" "items \<noteq> []" "\<forall>k. n = Some k \<longrightarrow> 0 \<le> k"
  shows "mset (concat (map ss_items shards)) = mset items"
    "chosen_strategy ty st = BY_BATCH \<Longrightarrow> concat (map ss_items shards) = items"
    "1 \<le> sr_max s \<Longrightarrow> int (length shards) \<le> sr_max s"
    "map ss_id shards = map (shard_name tid) [0..<length shards]" "\<forall>sh \<in> set shards. ss_total sh = length shards \<and> ss_type sh = ty"
    "shards \<noteq> []" "s' = s\<lparr>sr_shards := dset (sr_shards s) tid shards\<rparr>"
proof -
  obtain gs where gs: "group_items items (chosen_strategy ty st) (chosen_width ty n) = Inr gs"
    "shards = map (new_shard now tid ty (chosen_strategy ty st) (length (cap_groups (sr_max s) gs))) (enumerate 0 (cap_groups (sr_max s) gs))"
    "s' = s\<lparr>sr_shards := dset (sr_shards s) tid shards\<rparr>"
    using create_shards_cases [OF assms(1,2)] .
  note keep = group_items_keep [OF gs(1) chosen_width_pos [OF assms(3)]]
  note new = new_shards [of now tid ty "chosen_strategy ty st" "length (cap_groups (sr_max s) gs)" "cap_groups (sr_max s) gs",
      folded gs(2)]
  have len: "length shards = length (cap_groups (sr_max s) gs)" using gs(2) by simp
  show "mset (concat (map ss_items shards)) = mset items"
    "chosen_strategy ty st = BY_BATCH \<Longrightarrow> concat (map ss_items shards) = items"
    using keep new(1) cap_groups(1) [of "sr_max s" gs] by simp_all
  show "1 \<le> sr_max s \<Longrightarrow> int (length shards) \<le> sr_max s" using cap_groups(2) [of "sr_max s" gs] len by simp
  show "map ss_id shards = map (shard_name tid) [0..<length shards]"
    "\<forall>sh \<in> set shards. ss_total sh = length shards \<and> ss_type sh = ty" using new(3,4) len by simp_all
  show "shards \<noteq> []"
  proof
    assume "shards = []"
    then have "concat gs = []" using new(5) cap_groups(1) [of "sr_max s" gs] by simp
    then show False using keep(1) assms(2) by (metis mset_zero_iff)
  qed
  show "s' = s\<lparr>sr_shards := dset (sr_shards s) tid shards\<rparr>" by (fact gs(3))
qed

subsection \<open>Updates reach the shard they name\<close>

definition names_ok :: "sharder \<Rightarrow> bool" where
  "names_ok s \<longleftrightarrow>
     dwf (sr_shards s) \<and>
     (\<forall>(tid, shs) \<in> set (sr_shards s). map ss_id shs = map (shard_name tid) [0..<length shs])"

lemma names_ok_init [simp]: "names_ok (sharder_init n m)"
  by (simp add: names_ok_def sharder_init_def)

lemma names_ok_get: "names_ok s \<Longrightarrow> map ss_id (get_shards tid s) = map (shard_name tid) [0..<length (get_shards tid s)]"
  by (auto simp: names_ok_def get_shards_def dget_or_def dest: dget_SomeD split: option.splits)

lemma set_dset_cases: "(k', v') \<in> set (dset d k v) \<Longrightarrow> dwf d \<Longrightarrow> (k' = k \<and> v' = v) \<or> (k', v') \<in> set d"
  by (metis dget_dset dget_dwf_iff dwf_dset option.inject)

lemma names_ok_put:
  "names_ok s \<Longrightarrow> map ss_id shs = map (shard_name tid) [0..<length shs] \<Longrightarrow> names_ok (s\<lparr>sr_shards := dset (sr_shards s) tid shs\<rparr>)"
  by (fastforce simp: names_ok_def dest: set_dset_cases)

lemma on_first_None: "on_first P f xs = None \<longleftrightarrow> (\<forall>x \<in> set xs. \<not> P x)"
  by (induction xs) auto

lemma on_first_distinct:
  "on_first (\<lambda>x. key x = i) f xs = Some ys \<Longrightarrow> distinct (map key xs) \<Longrightarrow> ys = map (\<lambda>x. if key x = i then f x else x) xs"
proof (induction xs arbitrary: ys)
  case Nil
  then show ?case by simp
next
  case (Cons x xs)
  show ?case
  proof (cases "key x = i")
    case True
    then have "\<forall>y \<in> set xs. key y \<noteq> i" using Cons.prems(2) by (metis distinct.simps(2) image_eqI list.set_map list.simps(9))
    then show ?thesis using Cons.prems(1) True by (auto intro: map_idI [symmetric])
  next
    case False
    then show ?thesis using Cons by auto
  qed
qed

lemma on_first_in_None: "on_first_in P f d = None \<longleftrightarrow> (\<forall>xs \<in> set (dvals d). \<forall>x \<in> set xs. \<not> P x)"
proof (induction P f d rule: on_first_in.induct)
  case (2 P f k xs d)
  then show ?case using on_first_None [of P f xs] by (cases "on_first P f xs") auto
qed simp

lemma on_first_in_Some:
  "on_first_in P f d = Some d' \<Longrightarrow>
     \<exists>as k xs ys bs. d = as @ (k, xs) # bs \<and> on_first P f xs = Some ys \<and> d' = as @ (k, ys) # bs"
proof (induction P f d arbitrary: d' rule: on_first_in.induct)
  case (2 P f k xs d)
  then show ?case
  proof (cases "on_first P f xs")
    case None
    then obtain d2 where d2: "on_first_in P f d = Some d2" "d' = (k, xs) # d2" using 2 by auto
    from 2(1) [OF None d2(1)] obtain as k2 xs2 ys bs where
      "d = as @ (k2, xs2) # bs" "on_first P f xs2 = Some ys" "d2 = as @ (k2, ys) # bs" by blast
    then show ?thesis using d2(2) by (intro exI [of _ "(k, xs) # as"]) auto
  next
    case (Some ys)
    then show ?thesis using 2 by (intro exI [of _ "[]"]) auto
  qed
qed simp

lemma ids_distinct: "map ss_id shs = map (shard_name tid) [0..<length shs] \<Longrightarrow> distinct (map ss_id shs)"
  by (simp add: distinct_map inj_on_def)

lemma dget_in_middle: "dwf (as @ (k, v) # bs) \<Longrightarrow> dget (as @ (k, v) # bs) k = Some v"
  by (subst dget_dwf_iff) auto

lemma update_reaches:
  assumes ok: "names_ok s" and sh: "sh \<in> set (get_shards tid s)"
  shows "get_shards tid (fst (update_shard_status now (ss_id sh) status result s)) =
      map (\<lambda>x. if ss_id x = ss_id sh then set_shard_status now status result x else x) (get_shards tid s)"
    "names_ok (fst (update_shard_status now (ss_id sh) status result s))"
proof -
  let ?P = "\<lambda>x. ss_id x = ss_id sh" and ?f = "set_shard_status now status result"
  have here: "dget (sr_shards s) tid = Some (get_shards tid s)" using sh by (cases "dget (sr_shards s) tid") (auto simp: get_shards_def dget_or_def)
  have wf: "dwf (sr_shards s)" and named: "\<And>k xs. (k, xs) \<in> set (sr_shards s) \<Longrightarrow> map ss_id xs = map (shard_name k) [0..<length xs]"
    using ok by (auto simp: names_ok_def)
  have "on_first_in ?P ?f (sr_shards s) \<noteq> None"
    unfolding on_first_in_None using dget_SomeD [OF here] sh by force
  then obtain d where d: "on_first_in ?P ?f (sr_shards s) = Some d" by blast
  from on_first_in_Some [OF d] obtain as k xs ys bs where
    split: "sr_shards s = as @ (k, xs) # bs" "on_first ?P ?f xs = Some ys" "d = as @ (k, ys) # bs" by blast
  have xs: "map ss_id xs = map (shard_name k) [0..<length xs]" using named split(1) by simp
  obtain x where x: "x \<in> set xs" "ss_id x = ss_id sh" using split(2) on_first_None [of ?P ?f xs] by auto
  have names: "ss_id x \<in> set (map (shard_name k) [0..<length xs])" "ss_id sh \<in> set (map (shard_name tid) [0..<length (get_shards tid s)])"
    using x(1) sh xs names_ok_get [OF ok, of tid] by (metis image_eqI list.set_map)+
  then have k: "k = tid" using x(2) by auto
  have get: "get_shards tid s = xs" using here wf unfolding split(1) k by (metis dget_in_middle option.inject)
  have ys: "ys = map (\<lambda>x. if ?P x then ?f x else x) xs" using on_first_distinct [OF split(2) ids_distinct [OF xs]] .
  have ids: "map ss_id ys = map ss_id xs" by (simp add: ys set_shard_status_def)
  have wf': "dwf d" using wf by (simp add: dwf_def split(1,3))
  have "dget d tid = Some ys" using wf' unfolding split(3) k by (rule dget_in_middle)
  then show "get_shards tid (fst (update_shard_status now (ss_id sh) status result s)) = map (\<lambda>x. if ?P x then ?f x else x) (get_shards tid s)"
    by (simp add: update_shard_status_def d get_shards_def dget_or_def ys flip: get)
  have "\<forall>(tid, shs) \<in> set d. map ss_id shs = map (shard_name tid) [0..<length shs]"
    using named ids xs by (auto simp: split(1,3) ys k)
  then show "names_ok (fst (update_shard_status now (ss_id sh) status result s))"
    using wf' by (simp add: update_shard_status_def d names_ok_def)
qed

text \<open>The answer a node gives for a shard, under the key the merge of its type reads, and the shard it leaves: \<open>g\<close> computes
  an item and \<open>tok\<close> counts its tokens.\<close>

definition answer_of :: "(item \<Rightarrow> int) \<Rightarrow> (item \<Rightarrow> json) \<Rightarrow> task_shard \<Rightarrow> item" where
  "answer_of tok g sh =
     (let rs = JList (map g (ss_items sh))
      in case ss_type sh of
           INFERENCE \<Rightarrow> [(''results'', rs)]
         | AST \<Rightarrow> [(''trees'', rs)]
         | VECTORIZE \<Rightarrow> [(''embeddings'', rs), (''token_count'', JInt (sum_list (map tok (ss_items sh))))])"

definition answered :: "time \<Rightarrow> (item \<Rightarrow> int) \<Rightarrow> (item \<Rightarrow> json) \<Rightarrow> task_shard \<Rightarrow> task_shard" where
  "answered now tok g sh = set_shard_status now ''completed'' (Some (answer_of tok g sh)) sh"

definition report_answers :: "time \<Rightarrow> (item \<Rightarrow> int) \<Rightarrow> (item \<Rightarrow> json) \<Rightarrow> task_shard list \<Rightarrow> sharder \<Rightarrow> sharder" where
  "report_answers now tok g order s =
     fold (\<lambda>sh s. fst (update_shard_status now (ss_id sh) ''completed'' (Some (answer_of tok g sh)) s)) order s"

lemma answered_simps [simp]:
  "ss_id (answered now tok g sh) = ss_id sh" "ss_items (answered now tok g sh) = ss_items sh" "ss_status (answered now tok g sh) = ''completed''"
  "ss_result (answered now tok g sh) = answer_of tok g sh" "ss_type (answered now tok g sh) = ss_type sh"
  by (simp_all add: answered_def set_shard_status_def answer_of_def Let_def split: sharding_type.split)

lemma answered_twice: "set_shard_status now ''completed'' (Some (answer_of tok g sh)) (answered now tok g sh) = answered now tok g sh"
  by (simp add: answered_def set_shard_status_def)

lemma report_answers_reach:
  assumes "names_ok s" "get_shards tid s = shards" "set order \<subseteq> set shards"
  shows "get_shards tid (report_answers now tok g order s) = map (\<lambda>sh. if sh \<in> set order then answered now tok g sh else sh) shards \<and>
    names_ok (report_answers now tok g order s)"
  using assms(3)
proof (induction order rule: rev_induct)
  case Nil
  then show ?case using assms by (simp add: report_answers_def)
next
  case (snoc x order)
  let ?s = "report_answers now tok g order s"
  have x: "x \<in> set shards" and IH: "get_shards tid ?s = map (\<lambda>sh. if sh \<in> set order then answered now tok g sh else sh) shards" "names_ok ?s"
    using snoc by auto
  have inj: "inj_on ss_id (set shards)" using ids_distinct [OF names_ok_get [OF assms(1), of tid]] assms(2) by (simp add: distinct_map)
  let ?y = "if x \<in> set order then answered now tok g x else x"
  have y: "?y \<in> set (get_shards tid ?s)" "ss_id ?y = ss_id x" using x IH(1) by auto
  have "(\<lambda>z. if ss_id z = ss_id x then set_shard_status now ''completed'' (Some (answer_of tok g x)) z else z)
      (if sh \<in> set order then answered now tok g sh else sh) = (if sh \<in> set (order @ [x]) then answered now tok g sh else sh)"
    if "sh \<in> set shards" for sh
  proof (cases "sh = x")
    case True
    then show ?thesis by (simp add: answered_twice) (simp add: answered_def)
  next
    case False
    then have "ss_id sh \<noteq> ss_id x" using inj that x by (auto dest: inj_onD)
    then show ?thesis using False by simp
  qed
  then show ?case
    using update_reaches [OF IH(2) y(1), of now "''completed''" "Some (answer_of tok g x)"]
    by (simp add: report_answers_def y(2) IH(1) [unfolded report_answers_def])
qed

lemma concat_answers:
  "\<forall>sh \<in> set shs. ss_type sh = INFERENCE \<Longrightarrow>
   each_in concat_step (map (answer_of tok g) shs) acc = Inr (acc @ map g (concat (map ss_items shs)))"
  by (induction shs arbitrary: acc) (simp_all add: concat_step_def answer_of_def extend_with_def jget_def iterated_def)

lemma tree_answers:
  "\<forall>sh \<in> set shs. ss_type sh = AST \<Longrightarrow>
   each_in trees_step (map (answer_of tok g) shs) acc = Inr (acc @ map g (concat (map ss_items shs)))"
  by (induction shs arbitrary: acc) (simp_all add: trees_step_def answer_of_def extend_with_def jget_def iterated_def)

lemma embedding_answers:
  "\<forall>sh \<in> set shs. ss_type sh = VECTORIZE \<Longrightarrow>
   each_in embeddings_step (map (answer_of tok g) shs) (acc, JInt k) =
     Inr (acc @ map g (concat (map ss_items shs)), JInt (k + sum_list (map tok (concat (map ss_items shs)))))"
  by (induction shs arbitrary: acc k)
    (simp_all add: embeddings_step_def answer_of_def extend_with_def jget_def iterated_def num_add_def as_number_def and_then_Inr add.assoc)

text \<open>The merged data of a task whose items have the results \<open>rs\<close> and \<open>k\<close> tokens.\<close>

definition merged_data :: "sharding_type \<Rightarrow> json list \<Rightarrow> int \<Rightarrow> item" where
  "merged_data ty rs k =
     (let n = JInt (int (length rs))
      in case ty of
           INFERENCE \<Rightarrow> [(''results'', JList rs), (''count'', n)]
         | AST \<Rightarrow> [(''trees'', JList rs), (''file_count'', n)]
         | VECTORIZE \<Rightarrow> [(''embeddings'', JList rs), (''count'', n), (''total_tokens'', JInt k)])"

lemma apply_merge_answers:
  "\<forall>sh \<in> set shs. ss_type sh = ty \<Longrightarrow>
   apply_merge ty (map (answer_of tok g) shs) =
     Inr (merged_data ty (map g (concat (map ss_items shs))) (sum_list (map tok (concat (map ss_items shs)))))"
  by (cases ty)
    (simp_all add: apply_merge_def merged_data_def Let_def concat_results_def merge_ast_trees_def merge_embeddings_def
      concat_answers tree_answers embedding_answers)

lemma merge_answered:
  assumes "shs \<noteq> []" "\<forall>sh \<in> set shs. ss_type sh = ty"
  shows "merge_shards now tid (map (answered t tok g) shs) =
    Inr \<lparr>mg_task = tid, mg_type = ty, mg_total = length shs, mg_success = length shs, mg_fail = 0,
         mg_data = merged_data ty (map g (concat (map ss_items shs))) (sum_list (map tok (concat (map ss_items shs)))),
         mg_errors = [], mg_merged_at = now\<rparr>"
proof -
  have ty: "ss_type (hd (map (answered t tok g) shs)) = ty" using assms by (cases shs) auto
  have all: "filter (\<lambda>sh. ss_status sh = ''completed'') (map (answered t tok g) shs) = map (answered t tok g) shs"
    "filter (\<lambda>sh. ss_status sh \<noteq> ''completed'') (map (answered t tok g) shs) = []"
    by (auto simp: filter_map comp_def)
  have "map ss_result (map (answered t tok g) shs) = map (answer_of tok g) shs" by simp
  then show ?thesis
    using assms(1) apply_merge_answers [OF assms(2), of tok g] by (simp only: merge_shards_def Let_def ty all) simp
qed

lemma names_ok_create:
  assumes "create_shards now tid ty items st n s = (s', Inr shards)" "items \<noteq> []" "\<forall>k. n = Some k \<longrightarrow> 0 \<le> k" "names_ok s"
  shows "names_ok s'" "get_shards tid s' = shards"
  using created_shards(4,7) [OF assms(1-3)] names_ok_put [OF assms(4)] by (simp_all add: get_shards_def dget_or_def)

text \<open>Every merged result counts as complete, also while shards are still pending; a negative width makes the
  batches of a task empty.\<close>

lemma merged_always_complete: "merge_shards now tid shards = Inr m \<Longrightarrow> is_complete m"
proof -
  have "length (filter P shards) + length (filter (\<lambda>x. \<not> P x) shards) = length shards" for P :: "task_shard \<Rightarrow> bool"
    by (rule sum_length_filter_compl)
  then show "merge_shards now tid shards = Inr m \<Longrightarrow> is_complete m"
    by (auto simp: merge_shards_def is_complete_def Let_def and_then_Inr split: if_splits)
qed

lemma negative_width_drops_items:
  "items \<noteq> [] \<Longrightarrow> 0 \<le> sr_max s \<Longrightarrow>
     snd (create_shards now tid ty items (Some BY_BATCH) (Some (-1)) s) = Inr []"
  by (simp add: create_shards_def group_items_def group_by_batch_def cap_groups_def cut_from.simps Let_def)

subsection \<open>The claims\<close>

text \<open>The shards of a task hold its items, each once, in their order under the batch strategy; there are at most
  as many as the limit, their ids are distinct and every shard knows their number.\<close>

theorem shards_partition_items:
  assumes "create_shards now tid ty items st n s = (s', Inr shards)" "items \<noteq> []" "\<forall>k. n = Some k \<longrightarrow> 0 \<le> k" "1 \<le> sr_max s"
  shows "mset (concat (map ss_items shards)) = mset items \<and>
    (chosen_strategy ty st = BY_BATCH \<longrightarrow> concat (map ss_items shards) = items) \<and>
    int (length shards) \<le> sr_max s \<and> distinct (map ss_id shards) \<and>
    (\<forall>sh \<in> set shards. ss_total sh = length shards)"
  using created_shards [OF assms(1-3)] assms(4) ids_distinct by blast

text \<open>C33: A task of any type whose items are cut with a size that is not negative, computed shard by shard and merged
  gives what computing its items one by one gives: in whatever order the nodes report, also more than once, the merged
  results are the answers to the items, in the order of the items under the batch strategy, under the keys of the type,
  with the number of items and, for embeddings, the sum of their tokens.\<close>

theorem sharded_map_is_map:
  assumes "names_ok s" "create_shards now tid ty items st n s = (s', Inr shards)" "items \<noteq> []"
    "\<forall>k. n = Some k \<longrightarrow> 0 \<le> k" "set order = set shards"
  shows "\<exists>rs m. merge_shards later tid (get_shards tid (report_answers t tok g order s')) = Inr m \<and> success_rate m = 1 \<and>
    mg_data m = merged_data ty rs (sum_list (map tok items)) \<and> mset rs = image_mset g (mset items) \<and>
    (chosen_strategy ty st = BY_BATCH \<longrightarrow> rs = map g items)"
proof -
  note made = created_shards [OF assms(2-4)] names_ok_create [OF assms(2-4,1)]
  have "get_shards tid (report_answers t tok g order s') = map (answered t tok g) shards"
    using report_answers_reach [OF made(8,9), of order t tok g] assms(5) by simp
  moreover have "sum_mset (image_mset tok (mset (concat (map ss_items shards)))) = sum_mset (image_mset tok (mset items))"
    by (simp only: made(1))
  then have "sum_list (map tok (concat (map ss_items shards))) = sum_list (map tok items)"
    by (simp only: mset_map [symmetric] sum_mset_sum_list)
  moreover have "mset (map g (concat (map ss_items shards))) = image_mset g (mset items)"
    using made(1) by (simp only: mset_map)
  moreover obtain m where "merge_shards later tid (map (answered t tok g) shards) = Inr m" "mg_success m = mg_total m" "0 < mg_total m"
      "mg_data m = merged_data ty (map g (concat (map ss_items shards))) (sum_list (map tok (concat (map ss_items shards))))"
    using merge_answered [OF made(6), of ty later tid t tok g] made(5,6) by simp
  ultimately show ?thesis
    using made(2) by (intro exI [of _ "map g (concat (map ss_items shards))"] exI [of _ m]) (simp add: success_rate_def)
qed

text \<open>For the examples: three items in batches of two.\<close>

definition three_items :: "item list" where
  "three_items = [[(''n'', JInt 1)], [(''n'', JInt 2)], [(''n'', JInt 3)]]"

lemma three_items_cut:
  "create_shards 5 ''t'' INFERENCE three_items None (Some 2) (sharder_init 8 64) =
     (fst (create_shards 5 ''t'' INFERENCE three_items None (Some 2) (sharder_init 8 64)),
      Inr [new_shard 5 ''t'' INFERENCE BY_BATCH 2 (0, take 2 three_items), new_shard 5 ''t'' INFERENCE BY_BATCH 2 (1, drop 2 three_items)])"
  by (simp add: create_shards_def three_items_def default_strategy_def group_items_def group_by_batch_def cap_groups_def
      sharder_init_def cut_from.simps Let_def numeral_2_eq_2)

theorem shards_partition_items_witness:
  "mset (concat (map ss_items [new_shard 5 ''t'' INFERENCE BY_BATCH 2 (0, take 2 three_items),
     new_shard 5 ''t'' INFERENCE BY_BATCH 2 (1, drop 2 three_items)])) = mset three_items"
  using shards_partition_items [OF three_items_cut] by (simp add: three_items_def sharder_init_def)

theorem sharded_map_is_map_witness:
  "\<exists>m. merge_shards 9 ''t'' (get_shards ''t'' (report_answers 7 (\<lambda>_. 0) JObj
      [new_shard 5 ''t'' INFERENCE BY_BATCH 2 (1, drop 2 three_items), new_shard 5 ''t'' INFERENCE BY_BATCH 2 (0, take 2 three_items)]
      (fst (create_shards 5 ''t'' INFERENCE three_items None (Some 2) (sharder_init 8 64))))) = Inr m \<and>
    mg_data m = [(''results'', JList (map JObj three_items)), (''count'', JInt 3)]"
proof -
  have "three_items \<noteq> []" "length three_items = 3" "chosen_strategy INFERENCE None = BY_BATCH"
    by (simp_all add: three_items_def chosen_strategy_def default_strategy_def)
  then show ?thesis
    using sharded_map_is_map [OF names_ok_init three_items_cut, of "[new_shard 5 ''t'' INFERENCE BY_BATCH 2 (1, drop 2 three_items),
      new_shard 5 ''t'' INFERENCE BY_BATCH 2 (0, take 2 three_items)]" 9 7 "\<lambda>_. 0" JObj] by (auto simp: merged_data_def)
qed

end
