(* ===== verification/AuditChain.thy ===== *)
theory AuditChain
  imports FmpCodec
begin

text \<open>
  The audit log (\<open>security/audit_log.py\<close>) and the message codes of the cluster key (\<open>security/cluster_key.py\<close>): the
  chain of sequence number, hash of the previous record and code that a record gets, and the file of lines.
  SHA-256, HMAC and the canonical JSON text are parameters.  \<open>log\<close> is two steps, the chain fields and the
  append: only the append holds the lock of the file, so another thread can come between.
\<close>

subsection \<open>The log\<close>

type_synonym record_fields = "(string, json) dict"

record chain_crypto =
  cc_sha :: "byte list \<Rightarrow> string"
  cc_mac :: "byte list \<Rightarrow> byte list \<Rightarrow> string"
  cc_canon :: "record_fields \<Rightarrow> byte list"

definition verify_mac :: "chain_crypto \<Rightarrow> byte list \<Rightarrow> byte list \<Rightarrow> string \<Rightarrow> bool" where
  "verify_mac cc key canonical mac_hex = (if mac_hex = [] then False else cc_mac cc key canonical = mac_hex)"

record audit_logger =
  al_fails :: nat
  al_seq :: int
  al_prev :: string
  al_key :: "byte list option"
  al_loaded :: bool
  al_file :: "record_fields option list"

definition audit_init :: "record_fields option list \<Rightarrow> audit_logger" where
  "audit_init file' = \<lparr>al_fails = 0, al_seq = 0, al_prev = [], al_key = None, al_loaded = False, al_file = file'\<rparr>"

text \<open>\<open>derived\<close> is the key of the cluster token, \<open>None\<close> when there is none yet; it is asked for once.\<close>

definition ensure_chain_key :: "byte list option \<Rightarrow> audit_logger \<Rightarrow> audit_logger" where
  "ensure_chain_key derived s = (if al_loaded s then s else s\<lparr>al_key := derived, al_loaded := True\<rparr>)"

definition chain_payload :: "chain_crypto \<Rightarrow> record_fields \<Rightarrow> byte list" where
  "chain_payload cc r = cc_canon cc (filter (\<lambda>(k, _). k \<noteq> ''mac'') r)"

definition audit_event :: "string \<Rightarrow> string \<Rightarrow> string \<Rightarrow> string \<Rightarrow> string \<Rightarrow> string \<Rightarrow> string \<Rightarrow> string \<Rightarrow> record_fields" where
  "audit_event ts actor action path meth node result detail =
     [(''ts'', JStr ts), (''actor'', JStr actor), (''action'', JStr action), (''path'', JStr path), (''method'', JStr meth),
      (''node_id'', JStr node), (''result'', JStr result), (''detail'', JStr detail)]"

text \<open>The chain fields; a fault leaves the event without them, with the number counted.\<close>

definition chain_event :: "chain_crypto \<Rightarrow> byte list option \<Rightarrow> bool \<Rightarrow> record_fields \<Rightarrow> audit_logger \<Rightarrow> audit_logger \<times> record_fields" where
  "chain_event cc derived faulty ev s0 =
     (let s = ensure_chain_key derived s0 in
      case al_key s of
        None \<Rightarrow> (s, ev)
      | Some key \<Rightarrow>
          (let s1 = s\<lparr>al_seq := al_seq s + 1\<rparr> in
           if faulty then (s1, ev)
           else let ev1 = dset (dset ev ''seq'' (JInt (al_seq s1))) ''prev_hash'' (JStr (al_prev s1));
                    ev2 = dset ev1 ''mac'' (JStr (cc_mac cc key (chain_payload cc ev1)))
                in (s1\<lparr>al_prev := cc_sha cc (cc_canon cc ev2)\<rparr>, ev2)))"

definition append_line :: "bool \<Rightarrow> record_fields \<Rightarrow> audit_logger \<Rightarrow> audit_logger" where
  "append_line writes ev s =
     (if writes then s\<lparr>al_file := al_file s @ [Some ev], al_fails := 0\<rparr> else s\<lparr>al_fails := al_fails s + 1\<rparr>)"

definition audit_log :: "chain_crypto \<Rightarrow> byte list option \<Rightarrow> bool \<Rightarrow> bool \<Rightarrow> record_fields \<Rightarrow> audit_logger \<Rightarrow> audit_logger" where
  "audit_log cc derived faulty writes ev s =
     (case chain_event cc derived faulty ev s of (s', ev') \<Rightarrow> append_line writes ev' s')"

text \<open>\<open>read\<close>: the lines that are JSON; \<open>None\<close> stands for a line that is not.\<close>

definition read_log :: "bool \<Rightarrow> audit_logger \<Rightarrow> audit_logger \<times> record_fields list" where
  "read_log readable s = (if readable then (s, List.map_filter (\<lambda>x. x) (al_file s)) else (s\<lparr>al_fails := al_fails s + 1\<rparr>, []))"

subsection \<open>The chain\<close>

text \<open>What a reader of the log checks: numbers from one on, each record naming the hash of the one before, and its
  code.\<close>

definition link_ok :: "chain_crypto \<Rightarrow> byte list \<Rightarrow> int \<Rightarrow> string \<Rightarrow> record_fields \<Rightarrow> bool" where
  "link_ok cc key n prev r \<longleftrightarrow>
     dget r ''seq'' = Some (JInt n) \<and> dget r ''prev_hash'' = Some (JStr prev) \<and>
     (case dget r ''mac'' of Some (JStr m) \<Rightarrow> verify_mac cc key (chain_payload cc r) m | _ \<Rightarrow> False)"

fun chain_ok :: "chain_crypto \<Rightarrow> byte list \<Rightarrow> int \<Rightarrow> string \<Rightarrow> record_fields list \<Rightarrow> bool" where
  "chain_ok cc key n prev [] = True"
| "chain_ok cc key n prev (r # rs) = (link_ok cc key n prev r \<and> chain_ok cc key (n + 1) (cc_sha cc (cc_canon cc r)) rs)"

fun last_hash :: "chain_crypto \<Rightarrow> string \<Rightarrow> record_fields list \<Rightarrow> string" where
  "last_hash cc prev [] = prev"
| "last_hash cc prev (r # rs) = last_hash cc (cc_sha cc (cc_canon cc r)) rs"

lemma chain_ok_append:
  "chain_ok cc key n prev (rs @ rs') \<longleftrightarrow>
     chain_ok cc key n prev rs \<and> chain_ok cc key (n + int (length rs)) (last_hash cc prev rs) rs'"
  by (induction rs arbitrary: n prev) (auto simp: algebra_simps)

lemma last_hash_append: "last_hash cc prev (rs @ [r]) = cc_sha cc (cc_canon cc r)"
  by (induction rs arbitrary: prev) simp_all

text \<open>A logger whose file holds its chain: the state after any sequence of undisturbed calls.\<close>

definition chained :: "chain_crypto \<Rightarrow> byte list \<Rightarrow> record_fields list \<Rightarrow> audit_logger \<Rightarrow> bool" where
  "chained cc key rs s \<longleftrightarrow>
     (al_loaded s \<longrightarrow> al_key s = Some key) \<and> (\<not> al_loaded s \<longrightarrow> al_key s = None) \<and>
     al_file s = map Some rs \<and> al_seq s = int (length rs) \<and> al_prev s = last_hash cc [] rs \<and> chain_ok cc key 1 [] rs"

lemma chained_init: "chained cc key [] (audit_init [])"
  by (simp add: chained_def audit_init_def)

definition linked :: "chain_crypto \<Rightarrow> byte list \<Rightarrow> int \<Rightarrow> string \<Rightarrow> record_fields \<Rightarrow> record_fields" where
  "linked cc key n prev ev =
     (let ev1 = dset (dset ev ''seq'' (JInt n)) ''prev_hash'' (JStr prev)
      in dset ev1 ''mac'' (JStr (cc_mac cc key (chain_payload cc ev1))))"

text \<open>An event as \<open>log\<close> makes it carries no chain fields of its own.\<close>

definition plain_event :: "record_fields \<Rightarrow> bool" where
  "plain_event ev \<longleftrightarrow> {''seq'', ''prev_hash'', ''mac''} \<inter> set (dkeys ev) = {}"

lemma plain_audit_event: "plain_event (audit_event ts actor action path meth node result detail)"
  by (simp add: plain_event_def audit_event_def)

lemma without_key_dset:
  "k \<notin> set (dkeys d) \<Longrightarrow> filter (\<lambda>(j, _). j \<noteq> k) (dset d k v) = d"
  by (induction d) (auto intro: filter_True)

lemma without_key: "k \<notin> set (dkeys d) \<Longrightarrow> filter (\<lambda>(j, _). j \<noteq> k) d = d"
  by (induction d) auto

lemma payload_linked:
  assumes "plain_event ev"
  shows "chain_payload cc (dset (dset ev ''seq'' (JInt n)) ''prev_hash'' (JStr prev)) =
      cc_canon cc (dset (dset ev ''seq'' (JInt n)) ''prev_hash'' (JStr prev))"
    "chain_payload cc (linked cc key n prev ev) = cc_canon cc (dset (dset ev ''seq'' (JInt n)) ''prev_hash'' (JStr prev))"
proof -
  let ?ev1 = "dset (dset ev ''seq'' (JInt n)) ''prev_hash'' (JStr prev)"
  have new: "''mac'' \<notin> set (dkeys ?ev1)"
    using assms(1) unfolding dkeys_dset plain_event_def by blast
  show "chain_payload cc ?ev1 = cc_canon cc ?ev1"
    unfolding chain_payload_def without_key [OF new] ..
  show "chain_payload cc (linked cc key n prev ev) = cc_canon cc ?ev1"
    unfolding chain_payload_def linked_def Let_def without_key_dset [OF new] ..
qed

lemma link_ok_linked:
  assumes "plain_event ev" "\<And>x. cc_mac cc key x \<noteq> []"
  shows "link_ok cc key n prev (linked cc key n prev ev)"
  using payload_linked [OF assms(1)] assms(2)
  by (simp add: link_ok_def verify_mac_def linked_def Let_def)

lemma chain_event_linked:
  assumes "chained cc key rs s"
  shows "chain_event cc (Some key) False ev s =
    ((ensure_chain_key (Some key) s)\<lparr>al_seq := int (length rs) + 1,
       al_prev := cc_sha cc (cc_canon cc (linked cc key (int (length rs) + 1) (last_hash cc [] rs) ev))\<rparr>,
     linked cc key (int (length rs) + 1) (last_hash cc [] rs) ev)"
  using assms by (auto simp: chain_event_def chained_def ensure_chain_key_def linked_def Let_def)

lemma chained_log:
  assumes "chained cc key rs s" "plain_event ev" "\<And>x. cc_mac cc key x \<noteq> []"
  shows "chained cc key (rs @ [linked cc key (int (length rs) + 1) (last_hash cc [] rs) ev]) (audit_log cc (Some key) False True ev s)"
  using assms(1) link_ok_linked [OF assms(2,3)]
  by (auto simp: audit_log_def chain_event_linked [OF assms(1)] append_line_def chained_def chain_ok_append last_hash_append
      ensure_chain_key_def add.commute)

lemma read_chained: "chained cc key rs s \<Longrightarrow> snd (read_log True s) = rs"
proof -
  have "List.map_filter (\<lambda>x. x) (map Some rs) = rs" by (induction rs) (simp_all add: List.map_filter_def)
  then show "chained cc key rs s \<Longrightarrow> snd (read_log True s) = rs" by (simp add: read_log_def chained_def)
qed

subsection \<open>What a chain protects\<close>

text \<open>No two of the records at hand have the same hash, and canonical texts tell fields apart.\<close>

definition no_collision :: "chain_crypto \<Rightarrow> record_fields list \<Rightarrow> bool" where
  "no_collision cc rs \<longleftrightarrow>
     (\<forall>r \<in> set rs. \<forall>r' \<in> set rs. cc_sha cc (cc_canon cc r) = cc_sha cc (cc_canon cc r') \<longrightarrow> dget r = dget r')"

lemma no_collisionD:
  "no_collision cc rs \<Longrightarrow> r \<in> set rs \<Longrightarrow> r' \<in> set rs \<Longrightarrow> cc_sha cc (cc_canon cc r) = cc_sha cc (cc_canon cc r') \<Longrightarrow> dget r = dget r'"
  unfolding no_collision_def by blast

lemma no_collision_mono: "no_collision cc rs \<Longrightarrow> set rs' \<subseteq> set rs \<Longrightarrow> no_collision cc rs'"
  unfolding no_collision_def by blast

lemma chains_agree:
  assumes "chain_ok cc key n prev rs" "chain_ok cc key n prev rs'" "length rs = length rs'"
    "last_hash cc prev rs = last_hash cc prev rs'" "no_collision cc (rs @ rs')"
  shows "map dget rs = map dget rs'"
  using assms
proof (induction rs arbitrary: rs' rule: rev_induct)
  case Nil
  then show ?case by simp
next
  case (snoc r rs)
  then obtain rs2 r' where rs': "rs' = rs2 @ [r']" by (cases rs' rule: rev_cases) auto
  have "dget r = dget r'"
    using no_collisionD [OF snoc.prems(5), of r r'] snoc.prems(4) by (simp add: rs' last_hash_append)
  moreover from this have "last_hash cc prev rs = last_hash cc prev rs2"
    using snoc.prems(1,2) by (simp add: rs' chain_ok_append link_ok_def)
  moreover have "no_collision cc (rs @ rs2)" using no_collision_mono [OF snoc.prems(5)] by (simp add: rs' subset_iff)
  ultimately show ?case
    using snoc.IH [of rs2] snoc.prems by (simp add: rs' chain_ok_append)
qed

text \<open>The reader that knows no last hash does not miss the records at the end, a failed append breaks the chain
  for the records after it, a new process starts a chain of its own, and two threads can swap their records.\<close>

lemma truncated_chain_still_ok: "chain_ok cc key n prev (rs @ rs') \<Longrightarrow> chain_ok cc key n prev rs"
  by (simp add: chain_ok_append)

lemma chain_event_number:
  assumes "chain_event cc (Some key) False ev s = (s', r)" "al_loaded s \<Longrightarrow> al_key s = Some key"
  shows "dget r ''seq'' = Some (JInt (al_seq s + 1))" "al_seq s' = al_seq s + 1" "al_file s' = al_file s" "al_key s' = Some key"
  using assms by (auto simp: chain_event_def ensure_chain_key_def Let_def split: if_splits)

lemma some_lines: "List.map_filter (\<lambda>x. x) (map Some rs) = rs"
  by (induction rs) (simp_all add: List.map_filter_def)

lemma read_appended: "al_file s = map Some rs \<Longrightarrow> snd (read_log True (append_line True r s)) = rs @ [r]"
  using some_lines [of "rs @ [r]"] by (simp add: read_log_def append_line_def)

lemma wrong_number: "dget r ''seq'' = Some (JInt m) \<Longrightarrow> m \<noteq> n + int (length rs) \<Longrightarrow> \<not> chain_ok cc key n prev (rs @ [r])"
  by (simp add: chain_ok_append link_ok_def)

lemma lost_append_breaks_chain:
  assumes "chained cc key rs s"
  shows "\<not> chain_ok cc key 1 [] (snd (read_log True
    (audit_log cc (Some key) False True ev' (audit_log cc (Some key) False False ev s))))"
proof -
  obtain s1 r1 where 1: "chain_event cc (Some key) False ev s = (s1, r1)" by fastforce
  let ?s2 = "append_line False r1 s1"
  obtain s3 r2 where 2: "chain_event cc (Some key) False ev' ?s2 = (s3, r2)" by fastforce
  have s: "al_loaded s \<Longrightarrow> al_key s = Some key" "al_seq s = int (length rs)" "al_file s = map Some rs"
    using assms by (auto simp: chained_def)
  note n1 = chain_event_number [OF 1 s(1)]
  have s2: "al_key ?s2 = Some key" "al_seq ?s2 = int (length rs) + 1" "al_file ?s2 = map Some rs"
    using n1 s by (simp_all add: append_line_def)
  note n2 = chain_event_number [OF 2 s2(1)]
  have "al_file s3 = map Some rs" "dget r2 ''seq'' = Some (JInt (int (length rs) + 2))" using n2 s2 by simp_all
  then show ?thesis
    using wrong_number [of r2 "int (length rs) + 2" 1 rs] read_appended [of s3 rs r2] by (simp add: audit_log_def 1 2)
qed

lemma restart_breaks_chain:
  assumes "chained cc key rs s" "rs \<noteq> []"
  shows "\<not> chain_ok cc key 1 [] (snd (read_log True (audit_log cc (Some key) False True ev (audit_init (al_file s)))))"
proof -
  obtain s1 r1 where 1: "chain_event cc (Some key) False ev (audit_init (al_file s)) = (s1, r1)" by fastforce
  have n1: "dget r1 ''seq'' = Some (JInt 1)" "al_file s1 = map Some rs"
    using chain_event_number [OF 1] assms(1) by (simp_all add: audit_init_def chained_def)
  then show ?thesis
    using wrong_number [OF n1(1), of 1 rs] read_appended [OF n1(2), of r1] assms(2) by (simp add: audit_log_def 1)
qed

lemma swapped_threads_break_chain:
  assumes 1: "chain_event cc (Some key) False ev (audit_init []) = (s1, r1)" and 2: "chain_event cc (Some key) False ev' s1 = (s2, r2)"
  shows "\<not> chain_ok cc key 1 [] (snd (read_log True (append_line True r1 (append_line True r2 s2))))"
proof -
  have n1: "al_key s1 = Some key" "al_seq s1 = 1" "al_file s1 = []"
    using chain_event_number [OF 1] by (simp_all add: audit_init_def)
  have n2: "dget r2 ''seq'' = Some (JInt 2)" "al_file s2 = []" using chain_event_number [OF 2 n1(1)] n1 by simp_all
  have "al_file (append_line True r2 s2) = map Some [r2]" using n2 by (simp add: append_line_def)
  from read_appended [OF this, of r1] show ?thesis
    using n2(1) by (simp add: link_ok_def)
qed

subsection \<open>The claims\<close>

definition log_all :: "chain_crypto \<Rightarrow> byte list \<Rightarrow> record_fields list \<Rightarrow> audit_logger \<Rightarrow> audit_logger" where
  "log_all cc key evs s = fold (audit_log cc (Some key) False True) evs s"

text \<open>The fields of an event, without those of the chain.\<close>

definition own_fields :: "record_fields \<Rightarrow> string \<Rightarrow> json option" where
  "own_fields r = (\<lambda>k. if k \<in> {''seq'', ''prev_hash'', ''mac''} then None else dget r k)"

lemma own_fields_linked: "own_fields (linked cc key n prev ev) = own_fields ev"
  by (auto simp: own_fields_def linked_def Let_def fun_eq_iff)

lemma log_all_chained:
  assumes "\<And>x. cc_mac cc key x \<noteq> []" "\<forall>ev \<in> set evs. plain_event ev" "chained cc key rs s"
  shows "\<exists>new. chained cc key (rs @ new) (log_all cc key evs s) \<and> map own_fields new = map own_fields evs"
  using assms(2,3)
proof (induction evs arbitrary: rs s)
  case Nil
  then show ?case by (intro exI [of _ "[]"]) (simp add: log_all_def)
next
  case (Cons ev evs)
  let ?r = "linked cc key (int (length rs) + 1) (last_hash cc [] rs) ev"
  have "chained cc key (rs @ [?r]) (audit_log cc (Some key) False True ev s)"
    using chained_log [OF Cons.prems(2)] Cons.prems(1) assms(1) by simp
  then obtain new where "chained cc key ((rs @ [?r]) @ new) (log_all cc key evs (audit_log cc (Some key) False True ev s))"
    "map own_fields new = map own_fields evs" using Cons.IH Cons.prems(1) by (meson list.set_intros(2))
  then show ?case by (intro exI [of _ "?r # new"]) (simp add: log_all_def own_fields_linked)
qed

text \<open>C34: The log of a process whose appends succeed, one after the other, is read back as a valid chain from
  number one on, with exactly the events that were logged, in their order.\<close>

theorem audit_log_is_a_chain:
  assumes "\<And>x. cc_mac cc key x \<noteq> []" "\<forall>ev \<in> set evs. plain_event ev"
  shows "\<exists>rs. snd (read_log True (log_all cc key evs (audit_init []))) = rs \<and> chain_ok cc key 1 [] rs \<and>
    map own_fields rs = map own_fields evs"
  using log_all_chained [OF assms chained_init] read_chained by (fastforce simp: chained_def)

text \<open>Two logs of one length that both verify and end in the same hash hold the same records: no record of a
  verified log can be changed, inserted or moved without a change of its last hash, as long as the hash does
  not collide on the records at hand.\<close>

theorem verified_log_is_fixed_by_its_last_hash:
  assumes "chain_ok cc key 1 [] rs" "chain_ok cc key 1 [] rs'" "length rs = length rs'"
    "last_hash cc [] rs = last_hash cc [] rs'" "no_collision cc (rs @ rs')"
  shows "map dget rs = map dget rs'"
  using chains_agree [OF assms] .

lemma no_collision_two: "dget r = dget r' \<Longrightarrow> no_collision cc ([r] @ [r'])"
  by (auto simp: no_collision_def)

text \<open>For the examples: codes and hashes of one letter.\<close>

definition toy_crypto :: chain_crypto where
  "toy_crypto = \<lparr>cc_sha = \<lambda>_. ''h'', cc_mac = \<lambda>_ _. ''m'', cc_canon = \<lambda>_. []\<rparr>"

theorem audit_log_is_a_chain_witness:
  "\<exists>rs. snd (read_log True (log_all toy_crypto [1]
      [audit_event ''t1'' ''master'' ''join'' ''/api/join'' ''POST'' ''n1'' ''ok'' [],
       audit_event ''t2'' ''n1'' ''auth_fail'' ''/api/x'' ''GET'' [] ''denied'' []] (audit_init []))) = rs \<and>
    chain_ok toy_crypto [1] 1 [] rs \<and> length rs = 2"
  using audit_log_is_a_chain [of toy_crypto "[1]" "[audit_event ''t1'' ''master'' ''join'' ''/api/join'' ''POST'' ''n1'' ''ok'' [],
       audit_event ''t2'' ''n1'' ''auth_fail'' ''/api/x'' ''GET'' [] ''denied'' []]"]
  by (auto simp: toy_crypto_def plain_audit_event dest!: map_eq_imp_length_eq)

theorem verified_log_is_fixed_by_its_last_hash_witness:
  "let r = [(''seq'', JInt 1), (''prev_hash'', JStr []), (''mac'', JStr ''m'')]
   in chain_ok toy_crypto [1] 1 [] [r] \<and> map dget [r] = map dget [rev r]"
proof -
  let ?r = "[(''seq'', JInt 1), (''prev_hash'', JStr []), (''mac'', JStr ''m'')]"
  have ok: "chain_ok toy_crypto [1] 1 [] [?r]" "chain_ok toy_crypto [1] 1 [] [rev ?r]" "length [?r] = length [rev ?r]"
    "last_hash toy_crypto [] [?r] = last_hash toy_crypto [] [rev ?r]"
    by (simp_all add: link_ok_def verify_mac_def toy_crypto_def)
  have "dget ?r = dget (rev ?r)" by (rule ext) simp
  then have "no_collision toy_crypto ([?r] @ [rev ?r])" by (rule no_collision_two)
  from verified_log_is_fixed_by_its_last_hash [OF ok this] ok(1) show ?thesis unfolding Let_def by blast
qed

end
