(* ===== verification/RateLimit.thy ===== *)
theory RateLimit
  imports PyText
begin

text \<open>
  The rate limit of the agent's HTTP server (\<open>InMemoryRateLimiter\<close> and \<open>RateLimitMiddleware\<close> in
  \<open>server/agent_server.py\<close>): per key the times of the accepted requests, cut to the window at every request of
  the key, with a cleanup from time to time.  The limiter is shown to be a sliding window over the history of
  accepted requests.
\<close>

subsection \<open>The limiter\<close>

definition MAX_IP_ENTRIES :: nat where "MAX_IP_ENTRIES = 10000"
definition CLEANUP_INTERVAL :: nat where "CLEANUP_INTERVAL = 100"
definition TIME_CLEANUP_INTERVAL :: real where "TIME_CLEANUP_INTERVAL = 60"

record limiter =
  rl_max :: int
  rl_window :: real
  rl_counts :: "(string, time list) dict"
  rl_calls :: nat
  rl_last_cleanup :: time

definition limiter_init :: "int \<Rightarrow> real \<Rightarrow> time \<Rightarrow> limiter" where
  "limiter_init m w now = \<lparr>rl_max = m, rl_window = w, rl_counts = [], rl_calls = 0, rl_last_cleanup = now\<rparr>"

definition stale_entry :: "time \<Rightarrow> time list \<Rightarrow> bool" where
  "stale_entry cutoff v \<longleftrightarrow> v = [] \<or> last v < cutoff"

definition evict_keys :: "(string, time list) dict \<Rightarrow> string list" where
  "evict_keys d =
     (let sorted_keys = sort_key (\<lambda>k. case dget_or d k [] of [] \<Rightarrow> 0 | v \<Rightarrow> last v) (dkeys d)
      in take (length d - MAX_IP_ENTRIES) sorted_keys)"

definition cleanup_stale :: "time \<Rightarrow> limiter \<Rightarrow> limiter" where
  "cleanup_stale now s =
     (let live = filter (\<lambda>(_, v). \<not> stale_entry (now - rl_window s) v) (rl_counts s)
      in s\<lparr>rl_counts := if length live > MAX_IP_ENTRIES then filter (\<lambda>(k, _). k \<notin> set (evict_keys live)) live else live\<rparr>)"

definition is_allowed :: "time \<Rightarrow> string \<Rightarrow> limiter \<Rightarrow> limiter \<times> bool" where
  "is_allowed now key s =
     (let recent = filter (\<lambda>t. t > now - rl_window s) (dget_or (rl_counts s) key [])
      in if int (length recent) \<ge> rl_max s then (s\<lparr>rl_counts := dset (rl_counts s) key recent\<rparr>, False)
         else let s1 = s\<lparr>rl_counts := dset (rl_counts s) key (recent @ [now]), rl_calls := Suc (rl_calls s)\<rparr>;
                  s2 = (if rl_calls s1 mod CLEANUP_INTERVAL = 0 then cleanup_stale now s1 else s1);
                  s3 = (if now - rl_last_cleanup s2 \<ge> TIME_CLEANUP_INTERVAL
                        then (cleanup_stale now s2)\<lparr>rl_last_cleanup := now\<rparr> else s2)
              in (s3, True))"

subsection \<open>The middleware\<close>

definition RATE_EXEMPT_PATHS :: "string list" where
  "RATE_EXEMPT_PATHS = [''/api/health'', ''/docs'', ''/openapi.json'', ''/redoc'', ''/'', ''/favicon.ico'']"

definition client_ip :: "(string \<times> string) list \<Rightarrow> string option \<Rightarrow> string" where
  "client_ip headers peer =
     (let ip = (case find (\<lambda>(nm, _). nm = ''x-forwarded-for'') headers of
                  None \<Rightarrow> ''unknown''
                | Some (_, v) \<Rightarrow> py_strip (takeWhile (\<lambda>c. c \<noteq> CHR '','') v))
      in if ip = ''unknown'' then (case peer of Some p \<Rightarrow> p | None \<Rightarrow> ip) else ip)"

text \<open>The middleware: whether the request goes on to the application.\<close>

definition rate_limit_passes ::
  "time \<Rightarrow> bool \<Rightarrow> string \<Rightarrow> (string \<times> string) list \<Rightarrow> string option \<Rightarrow> limiter \<Rightarrow> limiter \<times> bool" where
  "rate_limit_passes now http path headers peer s =
     (if \<not> http then (s, True)
      else if path \<in> set RATE_EXEMPT_PATHS then (s, True)
      else is_allowed now (client_ip headers peer) s)"

lemma forwarded_header_names_the_client:
  "''x-forwarded-for'' \<notin> fst ` set hs \<Longrightarrow> py_strip (takeWhile (\<lambda>c. c \<noteq> CHR '','') v) \<noteq> ''unknown'' \<Longrightarrow>
     client_ip (hs @ (''x-forwarded-for'', v) # hs') peer = py_strip (takeWhile (\<lambda>c. c \<noteq> CHR '','') v)"
  by (induction hs) (auto simp: client_ip_def)

subsection \<open>The sliding window\<close>

text \<open>The specification keeps every accepted request and counts those of the key in the window.\<close>

definition times_of :: "string \<Rightarrow> (string \<times> time) list \<Rightarrow> time list" where
  "times_of key h = map snd (filter (\<lambda>(k, _). k = key) h)"

definition window_allows :: "int \<Rightarrow> real \<Rightarrow> time \<Rightarrow> string \<Rightarrow> (string \<times> time) list \<Rightarrow> bool" where
  "window_allows m w now key h \<longleftrightarrow> int (length (filter (\<lambda>t. t > now - w) (times_of key h))) < m"

fun window_run :: "int \<Rightarrow> real \<Rightarrow> (string \<times> time) list \<Rightarrow> (string \<times> time) list \<Rightarrow> bool list" where
  "window_run m w h [] = []"
| "window_run m w h ((key, now) # rs) =
     (if window_allows m w now key h then True # window_run m w (h @ [(key, now)]) rs else False # window_run m w h rs)"

fun limiter_run :: "limiter \<Rightarrow> (string \<times> time) list \<Rightarrow> bool list" where
  "limiter_run s [] = []"
| "limiter_run s ((key, now) # rs) = (case is_allowed now key s of (s', b) \<Rightarrow> b # limiter_run s' rs)"

definition times_ok :: "time \<Rightarrow> time list \<Rightarrow> bool" where
  "times_ok now v \<longleftrightarrow> sorted v \<and> (\<forall>t \<in> set v. t \<le> now)"

definition counts_ok :: "time \<Rightarrow> string set \<Rightarrow> (string, time list) dict \<Rightarrow> bool" where
  "counts_ok now ks d \<longleftrightarrow> dwf d \<and> set (dkeys d) \<subseteq> ks \<and> (\<forall>k v. dget d k = Some v \<longrightarrow> times_ok now v)"

definition in_window :: "real \<Rightarrow> time \<Rightarrow> time list \<Rightarrow> time list" where
  "in_window w now v = filter (\<lambda>t. t > now - w) v"

definition window_rel :: "time \<Rightarrow> (string \<times> time) list \<Rightarrow> limiter \<Rightarrow> bool" where
  "window_rel now h s \<longleftrightarrow>
     (\<forall>k. in_window (rl_window s) now (dget_or (rl_counts s) k []) = in_window (rl_window s) now (times_of k h))"

lemma times_ok_later: "times_ok now v \<Longrightarrow> now \<le> later \<Longrightarrow> times_ok later v"
  unfolding times_ok_def by (meson order_trans)

lemma counts_ok_later: "counts_ok now ks d \<Longrightarrow> now \<le> later \<Longrightarrow> counts_ok later ks d"
  unfolding counts_ok_def using times_ok_later by blast

lemma in_window_later: "now \<le> later \<Longrightarrow> in_window w later (in_window w now v) = in_window w later v"
  unfolding in_window_def by (induction v) auto

lemma in_window_twice [simp]: "in_window w now (in_window w now v) = in_window w now v"
  by (simp add: in_window_def)

lemma window_rel_later: "window_rel now h s \<Longrightarrow> now \<le> later \<Longrightarrow> window_rel later h s"
  unfolding window_rel_def using in_window_later by metis

lemma dget_filter_entries:
  assumes "dwf d"
  shows "dget (filter P d) k = (case dget d k of Some v \<Rightarrow> if P (k, v) then Some v else None | None \<Rightarrow> None)"
proof (cases "dget d k")
  case None
  have "dget (filter P d) k = None" using None unfolding dget_None_iff by force
  then show ?thesis using None by simp
next
  case (Some v)
  show ?thesis
  proof (cases "P (k, v)")
    case True
    then have "(k, v) \<in> set (filter P d)" using dget_SomeD [OF Some] by simp
    then have "dget (filter P d) k = Some v" unfolding dget_dwf_iff [OF dwf_filter [OF assms]] .
    then show ?thesis using Some True by simp
  next
    case False
    have "dget (filter P d) k \<noteq> Some b" for b
    proof
      assume b: "dget (filter P d) k = Some b"
      from dget_SomeD [OF b] have "(k, b) \<in> set d" "P (k, b)" by simp_all
      then show False using False Some assms by (metis dget_dwf_iff option.inject)
    qed
    then show ?thesis using Some False by (simp del: not_None_eq) (metis not_None_eq)
  qed
qed

lemma stale_window: "times_ok now v \<Longrightarrow> stale_entry (now - w) v \<Longrightarrow> in_window w now v = []"
proof -
  assume v: "times_ok now v" "stale_entry (now - w) v"
  show "in_window w now v = []"
  proof (cases v rule: rev_cases)
    case (snoc u x)
    then have "\<forall>t \<in> set v. t \<le> x" "x < now - w" using v by (auto simp: times_ok_def stale_entry_def sorted_append)
    then show ?thesis by (fastforce simp: in_window_def filter_empty_conv)
  qed (simp add: in_window_def)
qed

lemma few_keys: "counts_ok now ks d \<Longrightarrow> finite ks \<Longrightarrow> card ks \<le> n \<Longrightarrow> length d \<le> n"
proof -
  assume d: "counts_ok now ks d" "finite ks" "card ks \<le> n"
  have "distinct (dkeys d)" using d(1) by (simp add: counts_ok_def dwf_def)
  from distinct_card [OF this] have "length d = card (set (dkeys d))" by (simp only: length_map)
  also have "\<dots> \<le> card ks" using d by (intro card_mono) (auto simp: counts_ok_def)
  finally show "length d \<le> n" using d(3) by simp
qed

lemma cleanup_few:
  assumes "counts_ok now ks (rl_counts s)" "finite ks" "card ks \<le> MAX_IP_ENTRIES"
  shows "cleanup_stale now s = s\<lparr>rl_counts := filter (\<lambda>(_, v). \<not> stale_entry (now - rl_window s) v) (rl_counts s)\<rparr>"
proof -
  have "length (filter (\<lambda>(_, v). \<not> stale_entry (now - rl_window s) v) (rl_counts s)) \<le> MAX_IP_ENTRIES"
    using few_keys [OF assms] length_filter_le le_trans by blast
  then show ?thesis by (simp add: cleanup_stale_def Let_def)
qed

lemma cleanup_keeps_window:
  assumes "counts_ok now ks (rl_counts s)" "finite ks" "card ks \<le> MAX_IP_ENTRIES"
  shows "counts_ok now ks (rl_counts (cleanup_stale now s))" "window_rel now h (cleanup_stale now s) \<longleftrightarrow> window_rel now h s"
proof -
  let ?d = "rl_counts s" and ?d' = "filter (\<lambda>(_, v). \<not> stale_entry (now - rl_window s) v) (rl_counts s)"
  have wf: "dwf ?d" using assms(1) by (simp add: counts_ok_def)
  have get: "dget ?d' k = (case dget ?d k of Some v \<Rightarrow> if stale_entry (now - rl_window s) v then None else Some v | None \<Rightarrow> None)" for k
    by (simp add: dget_filter_entries [OF wf] split: option.split)
  have "dwf ?d'" by (rule dwf_filter [OF wf])
  moreover have "set (dkeys ?d') \<subseteq> ks" using assms(1) unfolding counts_ok_def by auto
  moreover have "times_ok now v" if "dget ?d' k = Some v" for k v
    using that assms(1) unfolding counts_ok_def get by (auto split: option.splits if_splits)
  ultimately show "counts_ok now ks (rl_counts (cleanup_stale now s))"
    unfolding cleanup_few [OF assms] by (simp add: counts_ok_def)
  have "in_window (rl_window s) now (dget_or ?d' k []) = in_window (rl_window s) now (dget_or ?d k [])" for k
    using stale_window assms(1) unfolding dget_or_def get counts_ok_def by (auto split: option.splits simp: in_window_def)
  then show "window_rel now h (cleanup_stale now s) \<longleftrightarrow> window_rel now h s"
    unfolding cleanup_few [OF assms] by (simp add: window_rel_def)
qed

lemma times_of_append: "times_of k (h @ [(key, now)]) = (if k = key then times_of k h @ [now] else times_of k h)"
  by (simp add: times_of_def)

lemma is_allowed_window:
  assumes rel: "window_rel now h s" and ok: "counts_ok now ks (rl_counts s)" and key: "key \<in> ks"
    and few: "finite ks" "card ks \<le> MAX_IP_ENTRIES" and w: "0 < rl_window s"
  shows "snd (is_allowed now key s) = window_allows (rl_max s) (rl_window s) now key h"
    "window_rel now (if snd (is_allowed now key s) then h @ [(key, now)] else h) (fst (is_allowed now key s))"
    "counts_ok now ks (rl_counts (fst (is_allowed now key s)))"
    "rl_max (fst (is_allowed now key s)) = rl_max s" "rl_window (fst (is_allowed now key s)) = rl_window s"
proof -
  let ?recent = "in_window (rl_window s) now (dget_or (rl_counts s) key [])"
  have recent: "?recent = in_window (rl_window s) now (times_of key h)" using rel by (simp add: window_rel_def)
  have told: "times_ok now (dget_or (rl_counts s) key [])"
    using ok by (auto simp: counts_ok_def dget_or_def times_ok_def split: option.split)
  then have rok: "times_ok now ?recent" "times_ok now (?recent @ [now])"
    by (auto simp: times_ok_def in_window_def sorted_append sorted_filter [of "\<lambda>x. x", simplified])
  have put: "counts_ok now ks (dset (rl_counts s) key v)" if "times_ok now v" for v
    using ok key that unfolding counts_ok_def dkeys_dset by (auto split: if_splits)
  have idem: "in_window (rl_window s) now ?recent = ?recent" by (simp add: in_window_def)
  have now: "in_window (rl_window s) now [now] = [now]" using w by (simp add: in_window_def)
  have app: "in_window u t (x @ y) = in_window u t x @ in_window u t y" for u t x y by (simp add: in_window_def)
  let ?refused = "s\<lparr>rl_counts := dset (rl_counts s) key ?recent\<rparr>"
  let ?s1 = "s\<lparr>rl_counts := dset (rl_counts s) key (?recent @ [now]), rl_calls := Suc (rl_calls s)\<rparr>"
  have refused: "window_rel now h ?refused"
    using rel idem by (auto simp: window_rel_def dget_or_def)
  have s1: "window_rel now (h @ [(key, now)]) ?s1" "counts_ok now ks (rl_counts ?s1)"
    using rel put [OF rok(2)] by (auto simp: window_rel_def dget_or_def times_of_append app now idem recent)
  define tidy where "tidy c x = (if c then cleanup_stale now x else x)" for c x
  have tidy: "window_rel now g (tidy c x) \<longleftrightarrow> window_rel now g x" "counts_ok now ks (rl_counts (tidy c x))"
    "rl_max (tidy c x) = rl_max x" "rl_window (tidy c x) = rl_window x"
    if "counts_ok now ks (rl_counts x)" for c x g
    using cleanup_keeps_window [OF that few] that by (simp_all add: tidy_def cleanup_stale_def Let_def)
  have result: "is_allowed now key s =
    (if int (length ?recent) \<ge> rl_max s then (?refused, False)
     else (let s2 = tidy (rl_calls ?s1 mod CLEANUP_INTERVAL = 0) ?s1;
               c = (now - rl_last_cleanup s2 \<ge> TIME_CLEANUP_INTERVAL)
           in (if c then (tidy c s2)\<lparr>rl_last_cleanup := now\<rparr> else tidy c s2, True)))"
    by (simp add: is_allowed_def in_window_def tidy_def Let_def)
  have stamp: "window_rel now g (x\<lparr>rl_last_cleanup := t\<rparr>) = window_rel now g x" for g x t by (simp add: window_rel_def)
  show "snd (is_allowed now key s) = window_allows (rl_max s) (rl_window s) now key h"
    by (auto simp: result window_allows_def recent Let_def) (simp_all add: in_window_def)
  show "window_rel now (if snd (is_allowed now key s) then h @ [(key, now)] else h) (fst (is_allowed now key s))"
    "counts_ok now ks (rl_counts (fst (is_allowed now key s)))"
    "rl_max (fst (is_allowed now key s)) = rl_max s" "rl_window (fst (is_allowed now key s)) = rl_window s"
    using refused s1 put [OF rok(1)] tidy
    by (simp_all add: result Let_def stamp)
qed

lemma limiter_runs_window:
  "window_rel now h s \<Longrightarrow> counts_ok now ks (rl_counts s) \<Longrightarrow> finite ks \<Longrightarrow> card ks \<le> MAX_IP_ENTRIES \<Longrightarrow> 0 < rl_window s \<Longrightarrow>
     fst ` set rs \<subseteq> ks \<Longrightarrow> sorted (now # map snd rs) \<Longrightarrow> limiter_run s rs = window_run (rl_max s) (rl_window s) h rs"
proof (induction rs arbitrary: now h s)
  case Nil
  then show ?case by simp
next
  case (Cons r rs)
  obtain key t where r: "r = (key, t)" by (cases r)
  have t: "now \<le> t" "sorted (t # map snd rs)" "key \<in> ks" "fst ` set rs \<subseteq> ks" using Cons.prems by (auto simp: r)
  note step = is_allowed_window [OF window_rel_later [OF Cons.prems(1) t(1)] counts_ok_later [OF Cons.prems(2) t(1)] t(3) Cons.prems(3-5)]
  obtain s' b where call: "is_allowed t key s = (s', b)" by fastforce
  show ?case
    using Cons.IH [OF step(2,3) Cons.prems(3,4) _ t(4,2)] step Cons.prems(5) by (simp add: r call)
qed

subsection \<open>The bound of the window\<close>

text \<open>The requests a run accepts, with those before it.\<close>

fun accepted :: "(string \<times> time) list \<Rightarrow> bool list \<Rightarrow> (string \<times> time) list" where
  "accepted (r # rs) (b # bs) = (if b then r # accepted rs bs else accepted rs bs)"
| "accepted _ _ = []"

definition window_bounded :: "int \<Rightarrow> real \<Rightarrow> (string \<times> time) list \<Rightarrow> bool" where
  "window_bounded m w h \<longleftrightarrow> (\<forall>key t. int (length (filter (\<lambda>x. t - w < x \<and> x \<le> t) (times_of key h))) \<le> m)"

lemma length_filter_subset: "(\<And>x. x \<in> set xs \<Longrightarrow> P x \<Longrightarrow> Q x) \<Longrightarrow> length (filter P xs) \<le> length (filter Q xs)"
  by (induction xs) auto

lemma window_step_bounded:
  assumes "window_bounded m w h" "window_allows m w now key h" "\<forall>(k, t) \<in> set h. t \<le> now"
  shows "window_bounded m w (h @ [(key, now)])"
  unfolding window_bounded_def
proof (intro allI)
  fix k t
  let ?in = "\<lambda>x. t - w < x \<and> x \<le> t"
  have old: "int (length (filter ?in (times_of k h))) \<le> m" using assms(1) by (simp add: window_bounded_def)
  show "int (length (filter ?in (times_of k (h @ [(key, now)])))) \<le> m"
  proof (cases "k = key \<and> ?in now")
    case True
    have "\<forall>x \<in> set (times_of key h). x \<le> now" using assms(3) by (auto simp: times_of_def)
    then have "length (filter ?in (times_of key h)) \<le> length (filter (\<lambda>x. x > now - w) (times_of key h))"
      using True by (intro length_filter_subset) auto
    then show ?thesis using True assms(2) by (simp add: times_of_append window_allows_def)
  next
    case False
    then show ?thesis using old by (auto simp: times_of_append)
  qed
qed

lemma window_run_bounded:
  "window_bounded m w h \<Longrightarrow> \<forall>(k, t) \<in> set h. t \<le> now \<Longrightarrow> sorted (now # map snd rs) \<Longrightarrow>
     window_bounded m w (h @ accepted rs (window_run m w h rs))"
proof (induction rs arbitrary: now h)
  case Nil
  then show ?case by simp
next
  case (Cons r rs)
  obtain key t where r: "r = (key, t)" by (cases r)
  have t: "now \<le> t" "sorted (t # map snd rs)" using Cons.prems(3) by (auto simp: r)
  have before: "\<forall>(k, u) \<in> set h. u \<le> t" using Cons.prems(2) t(1) by force
  show ?case
  proof (cases "window_allows m w t key h")
    case True
    have "window_bounded m w (h @ [(key, t)])" using window_step_bounded [OF Cons.prems(1) True before] .
    moreover have "\<forall>(k, u) \<in> set (h @ [(key, t)]). u \<le> t" using before by auto
    ultimately show ?thesis using Cons.IH [of "h @ [(key, t)]" t] t(2) True by (simp add: r)
  next
    case False
    then show ?thesis using Cons.IH [OF Cons.prems(1) before t(2)] by (simp add: r)
  qed
qed

subsection \<open>The claims\<close>

lemma init_rel: "window_rel now [] (limiter_init m w now)" "counts_ok now ks (rl_counts (limiter_init m w now))"
  by (simp_all add: window_rel_def counts_ok_def limiter_init_def times_of_def dget_or_def)

text \<open>C35: The limiter decides every request as a sliding window over all accepted requests does: cutting lists and
  dropping stale keys change nothing while there are at most ten thousand keys and the clock does not go
  back.\<close>

theorem limiter_is_sliding_window:
  assumes "0 < w" "card (fst ` set rs) \<le> MAX_IP_ENTRIES" "sorted (now # map snd rs)"
  shows "limiter_run (limiter_init m w now) rs = window_run m w [] rs"
  using limiter_runs_window [where ks = "fst ` set rs" and s = "limiter_init m w now" and rs = rs, OF init_rel] assms by (simp add: limiter_init_def)

text \<open>Of one key the limiter accepts in no window more than its maximum.\<close>

theorem accepted_requests_bounded:
  assumes "0 < w" "0 \<le> m" "card (fst ` set rs) \<le> MAX_IP_ENTRIES" "sorted (now # map snd rs)"
  shows "window_bounded m w (accepted rs (limiter_run (limiter_init m w now) rs))"
proof -
  have "window_bounded m w []" using assms(2) by (simp add: window_bounded_def times_of_def)
  from window_run_bounded [OF this _ assms(4)] show ?thesis
    using limiter_runs_window [where ks = "fst ` set rs" and s = "limiter_init m w now" and rs = rs, OF init_rel] assms by (simp add: limiter_init_def)
qed

theorem limiter_is_sliding_window_witness:
  "limiter_run (limiter_init 2 60 0) [(''a'', 1), (''a'', 2), (''b'', 2), (''a'', 3), (''a'', 70)] =
     window_run 2 60 [] [(''a'', 1), (''a'', 2), (''b'', 2), (''a'', 3), (''a'', 70)]"
  by (rule limiter_is_sliding_window) (simp_all add: MAX_IP_ENTRIES_def card_insert_if)

theorem accepted_requests_bounded_witness:
  "window_bounded 2 60 (accepted [(''a'', 1), (''a'', 2), (''b'', 2), (''a'', 3), (''a'', 70)]
     (limiter_run (limiter_init 2 60 0) [(''a'', 1), (''a'', 2), (''b'', 2), (''a'', 3), (''a'', 70)]))"
  by (rule accepted_requests_bounded) (simp_all add: MAX_IP_ENTRIES_def card_insert_if)

end
