(* ===== verification/NodeAdmission.thy ===== *)
theory NodeAdmission
  imports SlotLedger HttpAuth Sandbox
begin

text \<open>
  The admission of nodes: the approval table (\<open>security/node_approval.py\<close>), the join requests
  (\<open>ManualJoinManager\<close> in \<open>discovery/manual_join.py\<close>) and the routes of the master that use them
  (\<open>server/master_server.py\<close>): join, register in both versions, approve, reject.  A route is a function from the
  state to the state and a status code or success.  The addresses of the standard library and regular
  expressions are parameters; the text of answers is left out.
\<close>

subsection \<open>The approval table\<close>

datatype approval_status = AP_PENDING | AP_APPROVED | AP_REJECTED

text \<open>The body of a registration.\<close>

record register_request =
  nr_node_id :: string
  nr_hostname :: string
  nr_ip :: string
  nr_port :: int
  nr_arch :: string
  nr_total_memory :: real
  nr_available_memory :: real
  nr_cpu_cores :: int
  nr_gpu_cores :: int
  nr_device_model :: string
  nr_uma_size :: real
  nr_mlx_version :: string
  nr_protocol_version :: string
  nr_tags :: "string list"
  nr_active_tasks :: int
  nr_max_tasks :: int
  nr_network_rtt :: real
  nr_supervisor :: bool
  nr_drivers :: "string list"
  nr_resident :: bool

text \<open>The metadata of a request are fields of the registration it came from; a join request has none.\<close>

record approval_request =
  aq_node_id :: string
  aq_hostname :: string
  aq_ip :: string
  aq_port :: int
  aq_secret_hash :: string
  aq_requested_at :: time
  aq_status :: approval_status
  aq_approved_by :: string
  aq_approved_at :: time
  aq_reject_reason :: string
  aq_metadata :: "register_request option"

record approvals =
  ap_pending :: "(string, approval_request) dict"
  ap_approved :: "(string, approval_request) dict"
  ap_rejected :: "(string, approval_request) dict"
  ap_patterns :: "string list"
  ap_max_pending :: nat
  ap_ttl :: real

definition approvals_init :: "string list \<Rightarrow> approvals" where
  "approvals_init patterns =
     \<lparr>ap_pending = [], ap_approved = [], ap_rejected = [], ap_patterns = patterns, ap_max_pending = 100, ap_ttl = 3600\<rparr>"

text \<open>Whether a text is an address, the network a text names, and the full match of a regular expression, which
  may be malformed.\<close>

record ip_env =
  ie_ip :: "string \<Rightarrow> bool"
  ie_net :: "string \<Rightarrow> (string \<Rightarrow> bool) option"
  ie_match :: "string \<Rightarrow> string \<Rightarrow> bool option"

definition star_regex :: "string \<Rightarrow> string" where
  "star_regex p = concat (map (\<lambda>c. if c = CHR ''*'' then ''.*'' else [c]) p)"

text \<open>The checks on a pattern that is no network, or for an address that is none.\<close>

definition text_pattern :: "ip_env \<Rightarrow> string \<Rightarrow> string \<Rightarrow> string \<Rightarrow> bool option" where
  "text_pattern env hostname ip p =
     (if contains p hostname then Some True
      else if CHR ''*'' \<in> set p \<and> ie_ip env ip then ie_match env (star_regex p) ip
      else Some (contains p ip))"

fun check_auto_approve :: "ip_env \<Rightarrow> string \<Rightarrow> string \<Rightarrow> string list \<Rightarrow> bool option" where
  "check_auto_approve env hostname ip [] = Some False"
| "check_auto_approve env hostname ip (p # ps) =
     (case (if ie_ip env ip then ie_net env p else None) of
        Some net \<Rightarrow> if net ip then Some True else check_auto_approve env hostname ip ps
      | None \<Rightarrow> (case text_pattern env hostname ip p of
                    None \<Rightarrow> None
                  | Some True \<Rightarrow> Some True
                  | Some False \<Rightarrow> check_auto_approve env hostname ip ps))"

definition cleanup_expired_pending :: "time \<Rightarrow> approvals \<Rightarrow> approvals" where
  "cleanup_expired_pending now ap =
     ap\<lparr>ap_pending := filter (\<lambda>(_, rq). \<not> now - aq_requested_at rq > ap_ttl ap) (ap_pending ap)\<rparr>"

definition request_join ::
  "ip_env \<Rightarrow> time \<Rightarrow> string \<Rightarrow> string \<Rightarrow> string \<Rightarrow> int \<Rightarrow> register_request option \<Rightarrow> approvals
   \<Rightarrow> approvals \<times> approval_request option" where
  "request_join env now nid hostname ip port meta ap =
     (case dget (ap_approved ap) nid of
        Some rq \<Rightarrow> (ap, Some rq)
      | None \<Rightarrow>
          (case dget (ap_rejected ap) nid of
             Some rq \<Rightarrow> (ap, Some rq)
           | None \<Rightarrow>
               (let rq = \<lparr>aq_node_id = nid, aq_hostname = hostname, aq_ip = ip, aq_port = port, aq_secret_hash = [],
                          aq_requested_at = now, aq_status = AP_PENDING, aq_approved_by = [], aq_approved_at = 0,
                          aq_reject_reason = [], aq_metadata = meta\<rparr>
                in case check_auto_approve env hostname ip (ap_patterns ap) of
                     None \<Rightarrow> (ap, None)
                   | Some True \<Rightarrow>
                       (let rq1 = rq\<lparr>aq_status := AP_APPROVED, aq_approved_by := ''auto'', aq_approved_at := now\<rparr>
                        in (ap\<lparr>ap_approved := dset (ap_approved ap) nid rq1\<rparr>, Some rq1))
                   | Some False \<Rightarrow>
                       (let ap1 = ap\<lparr>ap_pending := dset (ap_pending ap) nid rq\<rparr>
                        in (if length (ap_pending ap1) > ap_max_pending ap1 then cleanup_expired_pending now ap1 else ap1,
                            Some rq)))))"

definition approve :: "time \<Rightarrow> string \<Rightarrow> string \<Rightarrow> approvals \<Rightarrow> approvals \<times> bool" where
  "approve now nid by_whom ap =
     (case dget (ap_pending ap) nid of
        None \<Rightarrow> (ap, False)
      | Some rq \<Rightarrow>
          (ap\<lparr>ap_pending := dpop (ap_pending ap) nid,
              ap_approved := dset (ap_approved ap) nid
                (rq\<lparr>aq_status := AP_APPROVED, aq_approved_by := by_whom, aq_approved_at := now\<rparr>)\<rparr>, True))"

definition reject :: "string \<Rightarrow> string \<Rightarrow> approvals \<Rightarrow> approvals \<times> bool" where
  "reject nid reason ap =
     (case dget (ap_pending ap) nid of
        None \<Rightarrow> (ap, False)
      | Some rq \<Rightarrow>
          (ap\<lparr>ap_pending := dpop (ap_pending ap) nid,
              ap_rejected := dset (ap_rejected ap) nid (rq\<lparr>aq_status := AP_REJECTED, aq_reject_reason := reason\<rparr>)\<rparr>, True))"

definition revoke_approval :: "string \<Rightarrow> string \<Rightarrow> approvals \<Rightarrow> approvals \<times> bool" where
  "revoke_approval reason nid ap =
     (case dget (ap_approved ap) nid of
        None \<Rightarrow> (ap, False)
      | Some rq \<Rightarrow>
          (ap\<lparr>ap_approved := dpop (ap_approved ap) nid,
              ap_rejected := dset (ap_rejected ap) nid (rq\<lparr>aq_status := AP_REJECTED, aq_reject_reason := reason\<rparr>)\<rparr>, True))"

definition is_approved :: "string \<Rightarrow> approvals \<Rightarrow> bool" where
  "is_approved nid ap \<longleftrightarrow> dget (ap_approved ap) nid \<noteq> None"

subsection \<open>Join requests\<close>

record join_request =
  jq_node_id :: string
  jq_hostname :: string
  jq_ip :: string
  jq_port :: int
  jq_secret :: string

record join_manager =
  jm_secret :: string
  jm_auto :: bool
  jm_history :: "(join_request \<times> time \<times> bool) list"

definition MAX_JOIN_HISTORY :: nat where "MAX_JOIN_HISTORY = 500"

text \<open>The result is a refusal or whether the node is approved.\<close>

definition handle_join_request :: "time \<Rightarrow> join_request \<Rightarrow> join_manager \<Rightarrow> join_manager \<times> (py_error + bool)" where
  "handle_join_request now rq jm =
     (if jq_node_id rq = [] then (jm, Inl (ValueError ''node_id''))
      else if jm_secret jm \<noteq> [] \<and> jq_secret rq \<noteq> jm_secret jm then (jm, Inl (ValueError ''cluster_secret''))
      else let h = jm_history jm @ [(rq, now, jm_auto jm)];
               h1 = (if length h > MAX_JOIN_HISTORY then drop (length h - MAX_JOIN_HISTORY) h else h)
           in (jm\<lparr>jm_history := h1\<rparr>, Inr (jm_auto jm)))"

subsection \<open>The version of the protocol\<close>

fun parse_segments :: "string list \<Rightarrow> nat list" where
  "parse_segments [] = []"
| "parse_segments (seg # segs) =
     (let s = py_strip seg in if s \<noteq> [] \<and> list_all is_num s then dec_value s # parse_segments segs else [])"

definition parse_version :: "string \<Rightarrow> nat list" where
  "parse_version v = parse_segments (split_on (CHR ''.'') v)"

fun tuple_less :: "nat list \<Rightarrow> nat list \<Rightarrow> bool" where
  "tuple_less xs [] = False"
| "tuple_less [] (y # ys) = True"
| "tuple_less (x # xs) (y # ys) = (x < y \<or> (x = y \<and> tuple_less xs ys))"

definition MIN_COMPAT_PROTOCOL_VERSION :: string where
  "MIN_COMPAT_PROTOCOL_VERSION = ''0.8.0''"

definition check_protocol_compat :: "string \<Rightarrow> bool" where
  "check_protocol_compat v =
     (if v = [] then True
      else if parse_version v = [] then True
      else \<not> tuple_less (parse_version v) (parse_version MIN_COMPAT_PROTOCOL_VERSION))"

subsection \<open>The routes\<close>

record admission_state =
  ad_master :: master
  ad_pm :: permission_manager
  ad_approval :: "approvals option"
  ad_join :: "join_manager option"
  ad_audit :: "(string \<times> string \<times> string \<times> string \<times> string) list"

text \<open>An entry of the audit log: actor, action, path, node and result.  Who calls: the role of a user token, and the actor the audit log names.\<close>

record caller =
  ca_role :: "user_role option"
  ca_actor :: string

record route_env =
  ro_now :: time
  ro_ip :: ip_env
  ro_registerable :: "string \<Rightarrow> bool"
  ro_caller :: caller

type_synonym call_result = "admission_state \<times> (nat + unit)"

definition log_audit :: "string \<Rightarrow> string \<Rightarrow> string \<Rightarrow> string \<Rightarrow> string \<Rightarrow> admission_state \<Rightarrow> admission_state" where
  "log_audit actor action path node result s = s\<lparr>ad_audit := ad_audit s @ [(actor, action, path, node, result)]\<rparr>"

text \<open>\<open>_enforce_user_rbac\<close>: the rest of the route runs when the user layer does not object.\<close>

definition enforce_user_rbac :: "route_env \<Rightarrow> string \<Rightarrow> string \<Rightarrow> (admission_state \<Rightarrow> call_result) \<Rightarrow> admission_state \<Rightarrow> call_result" where
  "enforce_user_rbac env path meth rest s =
     (case ca_role (ro_caller env) of
        None \<Rightarrow> rest s
      | Some role \<Rightarrow>
          if check_user_path_access role path meth then rest s
          else (log_audit (ca_actor (ro_caller env)) ''permission_deny'' path [] ''denied'' s, Inl 403))"

definition add_node :: "route_env \<Rightarrow> node_info \<Rightarrow> admission_state \<Rightarrow> admission_state \<times> bool" where
  "add_node env info s =
     (case register_and_drain (ro_registerable env) (ro_now env) info (ad_master s) of (c, ok) \<Rightarrow> (s\<lparr>ad_master := c\<rparr>, ok))"

definition bare_node :: "time \<Rightarrow> string \<Rightarrow> string \<Rightarrow> string \<Rightarrow> int \<Rightarrow> node_info" where
  "bare_node now nid hostname ip port =
     \<lparr>nd_id = nid, nd_hostname = hostname, nd_ip_address = ip, nd_port = port, nd_arch = [], total_memory_gb = 0,
      available_memory_gb = 0, cpu_cores = 0, mlx_version = [], gpu_cores = 0, device_model = [], uma_size_gb = 0,
      nd_role = ''worker'', nd_status = ONLINE, nd_last_heartbeat = now, nd_tags = [], active_tasks = 0, max_tasks = 4,
      network_rtt_ms = 0, gpu_memory_used_gb = 0, gpu_memory_total_gb = 0, nd_draining = False, supervisor_available = False,
      nd_drivers = [], nd_resident = False\<rparr>"

definition with_hardware :: "register_request \<Rightarrow> node_info \<Rightarrow> node_info" where
  "with_hardware r n =
     n\<lparr>nd_arch := nr_arch r, total_memory_gb := nr_total_memory r, available_memory_gb := nr_available_memory r,
       cpu_cores := nr_cpu_cores r, gpu_cores := nr_gpu_cores r, device_model := nr_device_model r, uma_size_gb := nr_uma_size r,
       mlx_version := nr_mlx_version r, nd_tags := nr_tags r, max_tasks := nr_max_tasks r\<rparr>"

definition requested_node :: "time \<Rightarrow> register_request \<Rightarrow> node_info" where
  "requested_node now r =
     (with_hardware r (bare_node now (nr_node_id r) (nr_hostname r) (nr_ip r) (nr_port r)))
       \<lparr>active_tasks := nr_active_tasks r, network_rtt_ms := nr_network_rtt r, supervisor_available := nr_supervisor r,
        nd_drivers := nr_drivers r, nd_resident := nr_resident r\<rparr>"

definition approved_node :: "time \<Rightarrow> string \<Rightarrow> approval_request \<Rightarrow> node_info" where
  "approved_node now nid rq =
     (let n = bare_node now nid (aq_hostname rq) (aq_ip rq) (aq_port rq)
      in case aq_metadata rq of None \<Rightarrow> n | Some r \<Rightarrow> with_hardware r n)"

text \<open>\<open>/api/join\<close>.  The manager is made at the first request with \<open>getattr(master, "_cluster_secret", "")\<close>, an
  attribute no master has.\<close>

definition manual_join :: "route_env \<Rightarrow> join_request \<Rightarrow> admission_state \<Rightarrow> call_result" where
  "manual_join env rq =
     enforce_user_rbac env ''/api/join'' ''POST'' (\<lambda>s.
       let jm = (case ad_join s of Some jm \<Rightarrow> jm | None \<Rightarrow> \<lparr>jm_secret = [], jm_auto = False, jm_history = []\<rparr>)
       in case handle_join_request (ro_now env) rq jm of
            (jm1, Inl _) \<Rightarrow> (s\<lparr>ad_join := Some jm1\<rparr>, Inl 400)
          | (jm1, Inr auto) \<Rightarrow>
              (let s1 = s\<lparr>ad_join := Some jm1\<rparr>; nid = jq_node_id rq
               in if \<not> is_safe_path_segment nid then (s1, Inl 400)
                  else case ad_approval s1 of
                    None \<Rightarrow>
                      if auto
                      then (case add_node env (bare_node (ro_now env) nid (jq_hostname rq) (jq_ip rq) (jq_port rq)) s1 of
                              (s2, ok) \<Rightarrow> if ok then (s2, Inr ()) else (s2, Inl 403))
                      else (s1, Inr ())
                  | Some ap \<Rightarrow>
                      (case request_join (ro_ip env) (ro_now env) nid (jq_hostname rq) (jq_ip rq) (jq_port rq) None ap of
                         (ap1, None) \<Rightarrow> (s1\<lparr>ad_approval := Some ap1\<rparr>, Inl 500)
                       | (ap1, Some _) \<Rightarrow> (s1\<lparr>ad_approval := Some ap1\<rparr>, Inr ()))))"

text \<open>The part both registration routes share: the gate of the approval table, then the table of nodes.\<close>

definition gated_register :: "route_env \<Rightarrow> string \<Rightarrow> register_request \<Rightarrow> admission_state \<Rightarrow> call_result" where
  "gated_register env path r s0 =
     (let nid = nr_node_id r;
          (s, gate) = (case ad_approval s0 of
             None \<Rightarrow> (s0, Inr ())
           | Some ap \<Rightarrow>
               (case request_join (ro_ip env) (ro_now env) nid (nr_hostname r) (nr_ip r) (nr_port r) (Some r) ap of
                  (ap1, None) \<Rightarrow> (s0\<lparr>ad_approval := Some ap1\<rparr>, Inl 500)
                | (ap1, Some rq) \<Rightarrow>
                    if aq_status rq \<noteq> AP_APPROVED
                    then (log_audit nid ''register'' path nid ''denied'' (s0\<lparr>ad_approval := Some ap1\<rparr>), Inl 403)
                    else (s0\<lparr>ad_approval := Some ap1\<rparr>, Inr ())))
      in case gate of
           Inl code \<Rightarrow> (s, Inl code)
         | Inr _ \<Rightarrow>
             (case add_node env (requested_node (ro_now env) r) s of
                (s1, ok) \<Rightarrow>
                  if ok
                  then (log_audit nid ''register'' path nid ''ok''
                          (s1\<lparr>ad_pm := assign_role (ro_now env) nid WORKER ''register'' (ad_pm s1)\<rparr>), Inr ())
                  else (log_audit nid ''register'' path nid ''denied'' s1, Inl 403)))"

definition register_route :: "route_env \<Rightarrow> register_request \<Rightarrow> admission_state \<Rightarrow> call_result" where
  "register_route env r =
     enforce_user_rbac env ''/api/nodes/register'' ''POST'' (\<lambda>s.
       if \<not> is_safe_path_segment (nr_node_id r) then (s, Inl 400)
       else if \<not> check_protocol_compat (nr_protocol_version r) then (s, Inl 400)
       else if get_role (nr_node_id r) (ad_pm s) \<noteq> None \<and>
               \<not> check_path_access (nr_node_id r) ''/api/nodes/register'' ''POST'' (ad_pm s)
       then (log_audit (nr_node_id r) ''permission_deny'' ''/api/nodes/register'' (nr_node_id r) ''denied'' s, Inl 403)
       else gated_register env ''/api/nodes/register'' r s)"

definition v1_register_route :: "route_env \<Rightarrow> register_request \<Rightarrow> admission_state \<Rightarrow> call_result" where
  "v1_register_route env r =
     enforce_user_rbac env ''/api/v1/nodes/register'' ''POST'' (\<lambda>s.
       if \<not> is_safe_path_segment (nr_node_id r) then (s, Inl 400)
       else if \<not> check_protocol_compat (nr_protocol_version r) then (s, Inl 400)
       else gated_register env ''/api/v1/nodes/register'' r s)"

definition approve_route :: "route_env \<Rightarrow> string \<Rightarrow> string \<Rightarrow> admission_state \<Rightarrow> call_result" where
  "approve_route env nid by_whom =
     enforce_user_rbac env ''/api/nodes/approve'' ''POST'' (\<lambda>s.
       case ad_approval s of
         None \<Rightarrow> (s, Inl 400)
       | Some ap \<Rightarrow>
           if nid = [] then (s, Inl 400)
           else case approve (ro_now env) nid by_whom ap of
                  (ap1, False) \<Rightarrow> (s\<lparr>ad_approval := Some ap1\<rparr>, Inl 404)
                | (ap1, True) \<Rightarrow>
                    (let s1 = log_audit by_whom ''approve'' ''/api/nodes/approve'' nid ''ok'' (s\<lparr>ad_approval := Some ap1\<rparr>)
                     in case dget (ap_approved ap1) nid of
                          None \<Rightarrow> (s1, Inr ())
                        | Some rq \<Rightarrow>
                            if dget (rg_nodes (ms_reg (ad_master s1))) nid \<noteq> None then (s1, Inr ())
                            else (case add_node env (approved_node (ro_now env) nid rq) s1 of
                                    (s2, ok) \<Rightarrow> if ok then (s2, Inr ()) else (s2, Inl 403))))"

definition reject_route :: "route_env \<Rightarrow> string \<Rightarrow> string \<Rightarrow> admission_state \<Rightarrow> call_result" where
  "reject_route env nid reason =
     enforce_user_rbac env ''/api/nodes/reject'' ''POST'' (\<lambda>s.
       case ad_approval s of
         None \<Rightarrow> (s, Inl 400)
       | Some ap \<Rightarrow>
           if nid = [] then (s, Inl 400)
           else case reject nid reason ap of
                  (ap1, False) \<Rightarrow> (s\<lparr>ad_approval := Some ap1\<rparr>, Inl 404)
                | (ap1, True) \<Rightarrow> (log_audit ''master'' ''reject'' ''/api/nodes/reject'' nid ''ok'' (s\<lparr>ad_approval := Some ap1\<rparr>), Inr ()))"

definition list_pending :: "admission_state \<Rightarrow> (string \<times> string \<times> string \<times> int \<times> time) list" where
  "list_pending s =
     (case ad_approval s of
        None \<Rightarrow> []
      | Some ap \<Rightarrow> map (\<lambda>rq. (aq_node_id rq, aq_hostname rq, aq_ip rq, aq_port rq, aq_requested_at rq)) (dvals (ap_pending ap)))"

subsection \<open>Which nodes a registration adds\<close>

definition reg_keys :: "registry \<Rightarrow> string set" where
  "reg_keys rg = set (dkeys (rg_nodes rg))"

definition node_keys :: "master \<Rightarrow> string set" where
  "node_keys c = reg_keys (ms_reg c)"

lemma node_keys_update [simp]:
  "node_keys (c\<lparr>ms_reg := rg\<rparr>) = reg_keys rg" "node_keys (c\<lparr>ms_td := td\<rparr>) = node_keys c" "node_keys (on_td f c) = node_keys c"
  by (simp_all add: node_keys_def on_td_def)

lemma reg_keys_same: "rg_nodes rg = rg_nodes rg' \<Longrightarrow> reg_keys rg = reg_keys rg'"
  by (simp add: reg_keys_def)

lemma reg_keys_dset [simp]: "reg_keys (rg\<lparr>rg_nodes := dset (rg_nodes rg) k v\<rparr>) = insert k (reg_keys rg)"
  unfolding reg_keys_def by (cases rg) (simp only: registry.simps dkeys_dset)

lemma reg_keys_upd [simp]: "reg_keys (upd_node nid f rg) = reg_keys rg"
proof (cases "dget (rg_nodes rg) nid")
  case (Some n)
  then have "nid \<in> reg_keys rg" using dget_None_iff [of "rg_nodes rg" nid] by (simp add: reg_keys_def)
  then show ?thesis using Some by (auto simp: upd_node_def)
qed (simp add: upd_node_def)

lemma reg_keys_take [simp]: "reg_keys (take_slot nid rg) = reg_keys rg"
  by (simp add: take_slot_def)

lemma reg_keys_takes [simp]: "reg_keys (fold take_slot ids rg) = reg_keys rg"
  by (induction ids arbitrary: rg) simp_all

lemma node_keys_enqueue [simp]: "node_keys (fst (enqueue f r c)) = node_keys c"
  by (simp add: enqueue_def split: prod.split)

lemma node_keys_local_force: "local_force now required r c = Some c1 \<Longrightarrow> node_keys c1 = node_keys c"
  by (auto simp: local_force_def Let_def node_keys_def split: if_splits option.splits)

lemma keys_chosen: "chosen_nodes now required nodes r c = (rg1, chosen) \<Longrightarrow> reg_keys rg1 = node_keys c"
proof -
  assume "chosen_nodes now required nodes r c = (rg1, chosen)"
  then have "rg_nodes rg1 = rg_nodes (ms_reg c)"
    by (auto simp: chosen_nodes_def Let_def dest: select_free_nodes_spec(1) split: if_splits prod.splits)
  then show ?thesis unfolding node_keys_def by (rule reg_keys_same)
qed

lemma node_keys_commit [simp]: "node_keys (fst (commit_assign now required nodes r c)) = node_keys c"
proof -
  obtain rg1 chosen where ch: "chosen_nodes now required nodes r c = (rg1, chosen)" by fastforce
  have "node_keys (start_on now ids r c1) = node_keys c1" for ids c1
    by (simp add: start_on_def node_keys_def Let_def)
  then show ?thesis
    using keys_chosen [OF ch] by (simp add: commit_assign_def ch Let_def)
qed

lemma keys_select_for: "select_for now required t c = (rg1, nodes) \<Longrightarrow> reg_keys rg1 = node_keys c"
proof -
  assume "select_for now required t c = (rg1, nodes)"
  then have "rg_nodes rg1 = rg_nodes (ms_reg c)" by (auto simp: select_for_def Let_def split: if_splits)
  then show ?thesis unfolding node_keys_def by (rule reg_keys_same)
qed

lemma node_keys_assign [simp]: "node_keys (fst (assign_task now r c)) = node_keys c"
proof -
  obtain rg1 nodes where sel: "select_for now (estimate_memory (tk_model_name (the_task r c))) (the_task r c) c = (rg1, nodes)"
    by fastforce
  show ?thesis
    using keys_select_for [OF sel]
    by (simp add: assign_task_def sel Let_def node_keys_local_force split: option.split)
qed

lemma node_keys_drain [simp]: "node_keys (drain_pending now c) = node_keys c"
proof -
  have one: "node_keys (drain_one now r d) = node_keys d" for r d
  proof -
    obtain d1 ok where d1: "assign_task now r d = (d1, ok)" by fastforce
    then have "node_keys d1 = node_keys d" using node_keys_assign [of now r d] by simp
    then show ?thesis by (simp add: drain_one_def d1)
  qed
  have "node_keys (fold (drain_one now) q d) = node_keys d" for q d
    by (induction q arbitrary: d) (simp_all add: one)
  then show ?thesis by (simp add: drain_pending_def)
qed

lemma keys_register: "reg_keys (fst (register_node ok now info rg)) \<subseteq> insert (nd_id info) (reg_keys rg)"
proof -
  have ban: "reg_keys (fst (is_node_banned_locked now nid rg)) = reg_keys rg" for nid
    by (rule reg_keys_same) (simp add: is_node_banned_locked_def split: option.split)
  have nid: "nd_id (merge_registration now old info) = nd_id info" for old
    by (simp add: merge_registration_def split: option.split)
  have sync: "reg_keys (sync_node_metrics now i g) = reg_keys g" for i g
    by (rule reg_keys_same) (simp add: sync_node_metrics_def Let_def)
  obtain rg1 banned where b: "is_node_banned_locked now (nd_id info) rg = (rg1, banned)" by fastforce
  show ?thesis using ban [of "nd_id info"] by (auto simp: register_node_def Let_def b sync nid)
qed

lemma node_keys_add: "node_keys (ad_master (fst (add_node env info s))) \<subseteq> insert (nd_id info) (node_keys (ad_master s))"
proof -
  obtain rg ok where reg: "register_node (ro_registerable env) (ro_now env) info (ms_reg (ad_master s)) = (rg, ok)" by fastforce
  then have "reg_keys rg \<subseteq> insert (nd_id info) (node_keys (ad_master s))"
    using keys_register [of "ro_registerable env" "ro_now env" info "ms_reg (ad_master s)"] by (simp add: node_keys_def)
  then show ?thesis by (simp add: add_node_def register_and_drain_def reg Let_def)
qed

lemma add_node_frame:
  "ad_approval (fst (add_node env info s)) = ad_approval s" "ad_join (fst (add_node env info s)) = ad_join s"
  "ad_pm (fst (add_node env info s)) = ad_pm s"
  by (simp_all add: add_node_def split: prod.split)

subsection \<open>What the gate keeps\<close>

definition let_in :: "ip_env \<Rightarrow> approvals \<Rightarrow> (string \<times> string \<times> string \<times> string \<times> string) list \<Rightarrow> string \<Rightarrow> approval_request \<Rightarrow> bool" where
  "let_in ipe ap lg nid rq \<longleftrightarrow>
     aq_status rq = AP_APPROVED \<and>
     (check_auto_approve ipe (aq_hostname rq) (aq_ip rq) (ap_patterns ap) = Some True \<or>
      (\<exists>who. (who, ''approve'', ''/api/nodes/approve'', nid, ''ok'') \<in> set lg))"

definition gate_ok :: "ip_env \<Rightarrow> approvals \<Rightarrow> (string \<times> string \<times> string \<times> string \<times> string) list \<Rightarrow> bool" where
  "gate_ok ipe ap lg \<longleftrightarrow>
     (\<forall>nid rq. dget (ap_approved ap) nid = Some rq \<longrightarrow> let_in ipe ap lg nid rq) \<and>
     (\<forall>nid rq. dget (ap_rejected ap) nid = Some rq \<longrightarrow> aq_status rq = AP_REJECTED)"

lemma gate_okD: "gate_ok ipe ap lg \<Longrightarrow> dget (ap_approved ap) nid = Some rq \<Longrightarrow> let_in ipe ap lg nid rq"
  unfolding gate_ok_def by blast

lemma let_in_mono: "let_in ipe ap lg nid rq \<Longrightarrow> ap_patterns ap' = ap_patterns ap \<Longrightarrow> set lg \<subseteq> set lg' \<Longrightarrow> let_in ipe ap' lg' nid rq"
  unfolding let_in_def by auto

lemma gate_ok_mono:
  assumes "gate_ok ipe ap lg" "ap_patterns ap' = ap_patterns ap" "set lg \<subseteq> set lg'"
    "\<And>nid rq. dget (ap_approved ap') nid = Some rq \<Longrightarrow> dget (ap_approved ap) nid = Some rq \<or> let_in ipe ap' lg' nid rq"
    "\<And>nid rq. dget (ap_rejected ap') nid = Some rq \<Longrightarrow> dget (ap_rejected ap) nid = Some rq \<or> aq_status rq = AP_REJECTED"
  shows "gate_ok ipe ap' lg'"
  unfolding gate_ok_def
proof (intro conjI allI impI)
  fix nid rq assume "dget (ap_approved ap') nid = Some rq"
  then show "let_in ipe ap' lg' nid rq" using assms(4) gate_okD [OF assms(1)] let_in_mono [OF _ assms(2,3)] by blast
next
  fix nid rq assume "dget (ap_rejected ap') nid = Some rq"
  then show "aq_status rq = AP_REJECTED" using assms(5) assms(1) unfolding gate_ok_def by blast
qed

lemma request_join_gate:
  assumes ok: "gate_ok ipe ap lg" and req: "request_join ipe now nid hostname ip port meta ap = (ap1, res)"
  shows "gate_ok ipe ap1 lg" "\<And>rq. res = Some rq \<Longrightarrow> aq_status rq = AP_APPROVED \<Longrightarrow> dget (ap_approved ap1) nid \<noteq> None"
    "\<And>k. dget (ap_approved ap) k \<noteq> None \<Longrightarrow> dget (ap_approved ap1) k \<noteq> None"
proof -
  have tidy: "ap_approved (cleanup_expired_pending now a) = ap_approved a" "ap_rejected (cleanup_expired_pending now a) = ap_rejected a"
    "ap_patterns (cleanup_expired_pending now a) = ap_patterns a" for a
    by (simp_all add: cleanup_expired_pending_def)
  have cases: "ap1 = ap \<or> (ap_approved ap1 = ap_approved ap \<and> ap_rejected ap1 = ap_rejected ap \<and> ap_patterns ap1 = ap_patterns ap) \<or>
      (\<exists>rq. ap1 = ap\<lparr>ap_approved := dset (ap_approved ap) nid rq\<rparr> \<and> let_in ipe ap lg nid rq)"
    using req by (auto simp: request_join_def Let_def tidy let_in_def split: option.splits bool.splits if_splits)
  have "gate_ok ipe (ap\<lparr>ap_approved := dset (ap_approved ap) nid rq\<rparr>) lg" if "let_in ipe ap lg nid rq" for rq
  proof -
    have "let_in ipe (ap\<lparr>ap_approved := dset (ap_approved ap) nid rq\<rparr>) lg nid rq" using that by (simp add: let_in_def)
    then show ?thesis by (intro gate_ok_mono [OF ok]) (auto split: if_splits)
  qed
  moreover have "gate_ok ipe ap1 lg" if "ap_approved ap1 = ap_approved ap" "ap_rejected ap1 = ap_rejected ap" "ap_patterns ap1 = ap_patterns ap"
    using that by (intro gate_ok_mono [OF ok]) simp_all
  ultimately show "gate_ok ipe ap1 lg" using cases ok by blast
  show "dget (ap_approved ap1) k \<noteq> None" if "dget (ap_approved ap) k \<noteq> None" for k using cases that by auto
  show "dget (ap_approved ap1) nid \<noteq> None" if "res = Some rq" "aq_status rq = AP_APPROVED" for rq
  proof (cases "dget (ap_approved ap) nid")
    case None
    have "dget (ap_rejected ap) nid = None"
    proof (rule ccontr)
      assume "dget (ap_rejected ap) nid \<noteq> None"
      then obtain r where r: "dget (ap_rejected ap) nid = Some r" by blast
      then have "aq_status r = AP_REJECTED" using ok unfolding gate_ok_def by blast
      then show False using req that None r by (simp add: request_join_def)
    qed
    then show ?thesis using req that None
      by (auto simp: request_join_def Let_def split: option.splits bool.splits)
  qed (use cases in auto)
qed

lemma approve_gate:
  assumes ok: "gate_ok ipe ap lg" and app: "approve now nid who ap = (ap1, True)"
  shows "gate_ok ipe ap1 (lg @ [(who, ''approve'', ''/api/nodes/approve'', nid, ''ok'')])"
    "\<And>k. dget (ap_approved ap) k \<noteq> None \<Longrightarrow> dget (ap_approved ap1) k \<noteq> None"
    "dget (ap_approved ap1) nid \<noteq> None"
proof -
  obtain rq where rq: "ap1 = ap\<lparr>ap_pending := dpop (ap_pending ap) nid, ap_approved := dset (ap_approved ap) nid rq\<rparr>"
    "aq_status rq = AP_APPROVED"
    using app by (auto simp: approve_def split: option.splits)
  show "gate_ok ipe ap1 (lg @ [(who, ''approve'', ''/api/nodes/approve'', nid, ''ok'')])"
    by (rule gate_ok_mono [OF ok]) (auto simp: rq let_in_def split: if_splits)
  show "dget (ap_approved ap1) k \<noteq> None" if "dget (ap_approved ap) k \<noteq> None" for k using that by (simp add: rq)
  show "dget (ap_approved ap1) nid \<noteq> None" by (simp add: rq)
qed

lemma reject_gate:
  assumes ok: "gate_ok ipe ap lg" and rej: "reject nid reason ap = (ap1, b)"
  shows "gate_ok ipe ap1 lg" "ap_approved ap1 = ap_approved ap"
proof -
  have "ap1 = ap \<or> (\<exists>rq. ap1 = ap\<lparr>ap_pending := dpop (ap_pending ap) nid, ap_rejected := dset (ap_rejected ap) nid rq\<rparr> \<and> aq_status rq = AP_REJECTED)"
    using rej by (auto simp: reject_def split: option.splits)
  then show "gate_ok ipe ap1 lg" "ap_approved ap1 = ap_approved ap"
    using ok by (auto intro!: gate_ok_mono [OF ok] split: if_splits)
qed

subsection \<open>Sequences of calls\<close>

definition admitted :: "string \<Rightarrow> admission_state \<Rightarrow> bool" where
  "admitted nid s \<longleftrightarrow> (case ad_approval s of None \<Rightarrow> False | Some ap \<Rightarrow> is_approved nid ap)"

definition adm_ok :: "ip_env \<Rightarrow> admission_state \<Rightarrow> bool" where
  "adm_ok ipe s \<longleftrightarrow>
     (\<exists>ap. ad_approval s = Some ap \<and> gate_ok ipe ap (ad_audit s)) \<and> (\<forall>nid \<in> node_keys (ad_master s). admitted nid s)"

lemma gate_ok_log: "gate_ok ipe ap lg \<Longrightarrow> gate_ok ipe ap (lg @ es)"
  by (rule gate_ok_mono) auto

lemma adm_ok_log: "adm_ok ipe s \<Longrightarrow> adm_ok ipe (log_audit actor action path node result s)"
  unfolding adm_ok_def admitted_def log_audit_def by (auto simp: gate_ok_log)

lemma adm_ok_join: "adm_ok ipe s \<Longrightarrow> adm_ok ipe (s\<lparr>ad_join := j\<rparr>)"
  unfolding adm_ok_def admitted_def by simp

lemma adm_ok_pm: "adm_ok ipe s \<Longrightarrow> adm_ok ipe (s\<lparr>ad_pm := j\<rparr>)"
  unfolding adm_ok_def admitted_def by simp

lemma adm_ok_approval:
  "adm_ok ipe s \<Longrightarrow> ad_approval s = Some ap \<Longrightarrow> gate_ok ipe ap1 (ad_audit s) \<Longrightarrow>
     (\<And>k. dget (ap_approved ap) k \<noteq> None \<Longrightarrow> dget (ap_approved ap1) k \<noteq> None) \<Longrightarrow> adm_ok ipe (s\<lparr>ad_approval := Some ap1\<rparr>)"
  unfolding adm_ok_def admitted_def is_approved_def by auto

lemma adm_ok_add:
  assumes "adm_ok ipe s" "admitted (nd_id info) s"
  shows "adm_ok ipe (fst (add_node env info s))"
proof -
  have "ad_audit (fst (add_node env info s)) = ad_audit s" by (simp add: add_node_def split: prod.split)
  then show ?thesis
    using assms node_keys_add [of env info s] by (auto simp: adm_ok_def admitted_def add_node_frame)
qed

lemma enforced_ok:
  assumes "adm_ok ipe s" "adm_ok ipe s \<Longrightarrow> adm_ok ipe (fst (rest s))"
  shows "adm_ok ipe (fst (enforce_user_rbac env path meth rest s))"
  using assms by (auto simp: enforce_user_rbac_def adm_ok_log split: option.split)

lemma node_ids [simp]:
  "nd_id (bare_node now nid h ip port) = nid" "nd_id (requested_node now r) = nr_node_id r" "nd_id (approved_node now nid rq) = nid"
  by (simp_all add: bare_node_def requested_node_def with_hardware_def approved_node_def Let_def split: option.split)

lemma request_join_adm:
  assumes "adm_ok ipe s" "ad_approval s = Some ap" "request_join ipe now nid hostname ip port meta ap = (ap1, res)"
  shows "adm_ok ipe (s\<lparr>ad_approval := Some ap1\<rparr>)"
    "res = Some rq \<Longrightarrow> aq_status rq = AP_APPROVED \<Longrightarrow> admitted nid (s\<lparr>ad_approval := Some ap1\<rparr>)"
proof -
  have ok: "gate_ok ipe ap (ad_audit s)" using assms(1,2) by (auto simp: adm_ok_def)
  note gate = request_join_gate [OF ok assms(3)]
  show "adm_ok ipe (s\<lparr>ad_approval := Some ap1\<rparr>)" using adm_ok_approval [OF assms(1,2) gate(1)] gate(3) by blast
  show "admitted nid (s\<lparr>ad_approval := Some ap1\<rparr>)" if "res = Some rq" "aq_status rq = AP_APPROVED"
    using gate(2) [OF that] by (simp add: admitted_def is_approved_def)
qed

lemma manual_join_ok:
  assumes "adm_ok ipe s" "ro_ip env = ipe"
  shows "adm_ok ipe (fst (manual_join env rq s))"
  unfolding manual_join_def
proof (rule enforced_ok [OF assms(1)])
  assume ok: "adm_ok ipe s"
  obtain ap where ap: "ad_approval s = Some ap" using ok by (auto simp: adm_ok_def)
  obtain ap1 res where req: "request_join ipe (ro_now env) (jq_node_id rq) (jq_hostname rq) (jq_ip rq) (jq_port rq) None ap = (ap1, res)"
    by fastforce
  have "adm_ok ipe (s\<lparr>ad_join := j, ad_approval := Some ap1\<rparr>)" for j
    using request_join_adm(1) [OF adm_ok_join [OF ok] _ req] ap by simp
  then show "adm_ok ipe (fst (let jm = (case ad_join s of Some jm \<Rightarrow> jm | None \<Rightarrow> \<lparr>jm_secret = [], jm_auto = False, jm_history = []\<rparr>)
       in case handle_join_request (ro_now env) rq jm of
            (jm1, Inl _) \<Rightarrow> (s\<lparr>ad_join := Some jm1\<rparr>, Inl 400)
          | (jm1, Inr auto) \<Rightarrow>
              (let s1 = s\<lparr>ad_join := Some jm1\<rparr>; nid = jq_node_id rq
               in if \<not> is_safe_path_segment nid then (s1, Inl 400)
                  else case ad_approval s1 of
                    None \<Rightarrow>
                      if auto
                      then (case add_node env (bare_node (ro_now env) nid (jq_hostname rq) (jq_ip rq) (jq_port rq)) s1 of
                              (s2, ok) \<Rightarrow> if ok then (s2, Inr ()) else (s2, Inl 403))
                      else (s1, Inr ())
                  | Some ap \<Rightarrow>
                      (case request_join (ro_ip env) (ro_now env) nid (jq_hostname rq) (jq_ip rq) (jq_port rq) None ap of
                         (ap1, None) \<Rightarrow> (s1\<lparr>ad_approval := Some ap1\<rparr>, Inl 500)
                       | (ap1, Some _) \<Rightarrow> (s1\<lparr>ad_approval := Some ap1\<rparr>, Inr ())))))"
    using adm_ok_join [OF ok] by (auto simp: Let_def ap assms(2) req split: prod.split sum.split option.split)
qed

lemma gated_register_ok:
  assumes ok: "adm_ok ipe s" and ipe: "ro_ip env = ipe"
  shows "adm_ok ipe (fst (gated_register env path r s))"
proof -
  obtain ap where ap: "ad_approval s = Some ap" using ok by (auto simp: adm_ok_def)
  obtain ap1 res where req: "request_join ipe (ro_now env) (nr_node_id r) (nr_hostname r) (nr_ip r) (nr_port r) (Some r) ap = (ap1, res)"
    by fastforce
  let ?s = "s\<lparr>ad_approval := Some ap1\<rparr>"
  note gate = request_join_adm [OF ok ap req]
  obtain s1 added where add: "add_node env (requested_node (ro_now env) r) ?s = (s1, added)" by fastforce
  have "adm_ok ipe s1" if "res = Some rq" "aq_status rq = AP_APPROVED" for rq
    using adm_ok_add [OF gate(1), of "requested_node (ro_now env) r" env] gate(2) [OF that] by (simp add: add)
  then show ?thesis
    using gate(1) by (auto simp: gated_register_def ap ipe req add Let_def adm_ok_log adm_ok_pm split: option.split)
qed

lemma register_routes_ok:
  assumes "adm_ok ipe s" "ro_ip env = ipe"
  shows "adm_ok ipe (fst (register_route env r s))" "adm_ok ipe (fst (v1_register_route env r s))"
  unfolding register_route_def v1_register_route_def
  by (rule enforced_ok [OF assms(1)]; use gated_register_ok [OF _ assms(2)] adm_ok_log in \<open>simp\<close>)+

lemma approve_route_ok:
  assumes "adm_ok ipe s"
  shows "adm_ok ipe (fst (approve_route env nid who s))"
  unfolding approve_route_def
proof (rule enforced_ok [OF assms])
  assume ok: "adm_ok ipe s"
  obtain ap where ap: "ad_approval s = Some ap" "gate_ok ipe ap (ad_audit s)" using ok by (auto simp: adm_ok_def)
  obtain ap1 b where app: "approve (ro_now env) nid who ap = (ap1, b)" by fastforce
  let ?s = "log_audit who ''approve'' ''/api/nodes/approve'' nid ''ok'' (s\<lparr>ad_approval := Some ap1\<rparr>)"
  have yes: "adm_ok ipe ?s" "admitted nid ?s" if "b"
    using ok approve_gate [OF ap(2) app [unfolded that eq_True [THEN iffD2, OF that]]] ap(1)
    by (auto simp: adm_ok_def admitted_def is_approved_def log_audit_def)
  have no: "adm_ok ipe (s\<lparr>ad_approval := Some ap1\<rparr>)" if "\<not> b"
    using adm_ok_approval [OF ok ap] app that by (auto simp: approve_def split: option.splits)
  have added: "adm_ok ipe s2" if "b" "add_node env (approved_node (ro_now env) nid rq) ?s = (s2, ok2)" for rq s2 ok2
    using adm_ok_add [OF yes(1), of "approved_node (ro_now env) nid rq" env] yes(2) that by simp
  show "adm_ok ipe (fst (case ad_approval s of None \<Rightarrow> (s, Inl 400)
       | Some ap \<Rightarrow>
           if nid = [] then (s, Inl 400)
           else case approve (ro_now env) nid who ap of
                  (ap1, False) \<Rightarrow> (s\<lparr>ad_approval := Some ap1\<rparr>, Inl 404)
                | (ap1, True) \<Rightarrow>
                    (let s1 = log_audit who ''approve'' ''/api/nodes/approve'' nid ''ok'' (s\<lparr>ad_approval := Some ap1\<rparr>)
                     in case dget (ap_approved ap1) nid of
                          None \<Rightarrow> (s1, Inr ())
                        | Some rq \<Rightarrow>
                            if dget (rg_nodes (ms_reg (ad_master s1))) nid \<noteq> None then (s1, Inr ())
                            else (case add_node env (approved_node (ro_now env) nid rq) s1 of
                                    (s2, ok) \<Rightarrow> if ok then (s2, Inr ()) else (s2, Inl 403)))))"
    using ok yes no added ap(1)
    by (cases b) (auto simp: app Let_def split: option.split prod.split)
qed

lemma reject_route_ok:
  assumes "adm_ok ipe s"
  shows "adm_ok ipe (fst (reject_route env nid reason s))"
  unfolding reject_route_def
proof (rule enforced_ok [OF assms])
  assume ok: "adm_ok ipe s"
  obtain ap where ap: "ad_approval s = Some ap" "gate_ok ipe ap (ad_audit s)" using ok by (auto simp: adm_ok_def)
  obtain ap1 b where rej: "reject nid reason ap = (ap1, b)" by fastforce
  have "adm_ok ipe (s\<lparr>ad_approval := Some ap1\<rparr>)"
    using adm_ok_approval [OF ok ap(1)] reject_gate [OF ap(2) rej] by simp
  then show "adm_ok ipe (fst (case ad_approval s of None \<Rightarrow> (s, Inl 400)
       | Some ap \<Rightarrow>
           if nid = [] then (s, Inl 400)
           else case reject nid reason ap of
                  (ap1, False) \<Rightarrow> (s\<lparr>ad_approval := Some ap1\<rparr>, Inl 404)
                | (ap1, True) \<Rightarrow> (log_audit ''master'' ''reject'' ''/api/nodes/reject'' nid ''ok'' (s\<lparr>ad_approval := Some ap1\<rparr>), Inr ())))"
    using ok by (auto simp: ap(1) rej adm_ok_log split: bool.split)
qed

text \<open>The routes, with callers, clocks and addresses of their own, and whatever else the master does without adding
  a node.\<close>

inductive admission_step :: "ip_env \<Rightarrow> admission_state \<Rightarrow> admission_state \<Rightarrow> bool" for ipe where
  join: "ro_ip env = ipe \<Longrightarrow> admission_step ipe s (fst (manual_join env rq s))"
| register: "ro_ip env = ipe \<Longrightarrow> admission_step ipe s (fst (register_route env r s))"
| v1_register: "ro_ip env = ipe \<Longrightarrow> admission_step ipe s (fst (v1_register_route env r s))"
| approve: "ro_ip env = ipe \<Longrightarrow> admission_step ipe s (fst (approve_route env nid who s))"
| reject: "ro_ip env = ipe \<Longrightarrow> admission_step ipe s (fst (reject_route env nid reason s))"
| other: "node_keys c \<subseteq> node_keys (ad_master s) \<Longrightarrow> admission_step ipe s (s\<lparr>ad_master := c\<rparr>)"

lemma admission_step_ok: "admission_step ipe s s' \<Longrightarrow> adm_ok ipe s \<Longrightarrow> adm_ok ipe s'"
proof (induction rule: admission_step.induct)
  case (other c s)
  then show ?case by (auto simp: adm_ok_def admitted_def)
qed (simp_all add: manual_join_ok register_routes_ok approve_route_ok reject_route_ok)

lemma admission_run_ok: "(admission_step ipe)\<^sup>*\<^sup>* s s' \<Longrightarrow> adm_ok ipe s \<Longrightarrow> adm_ok ipe s'"
  by (induction rule: rtranclp_induct) (auto intro: admission_step_ok)

definition admission_init :: "string list \<Rightarrow> master \<Rightarrow> permission_manager \<Rightarrow> admission_state" where
  "admission_init patterns c pm =
     \<lparr>ad_master = c, ad_pm = pm, ad_approval = Some (approvals_init patterns), ad_join = None, ad_audit = []\<rparr>"

lemma admission_init_ok: "node_keys c = {} \<Longrightarrow> adm_ok ipe (admission_init patterns c pm)"
  by (simp add: adm_ok_def admission_init_def gate_ok_def approvals_init_def)

subsection \<open>Rejection\<close>

definition barred :: "string \<Rightarrow> admission_state \<Rightarrow> bool" where
  "barred nid s \<longleftrightarrow>
     (\<exists>ap. ad_approval s = Some ap \<and> dget (ap_rejected ap) nid \<noteq> None \<and> dget (ap_approved ap) nid = None \<and>
           dget (ap_pending ap) nid = None)"

text \<open>How a step changes the approval table.\<close>

inductive approvals_step :: "approvals \<Rightarrow> approvals \<Rightarrow> bool" where
  "approvals_step ap ap"
| "approvals_step ap (fst (request_join ipe now nid hostname ip port meta ap))"
| "approvals_step ap (fst (approve now nid who ap))"
| "approvals_step ap (fst (reject nid reason ap))"

definition approvals_move :: "admission_state \<Rightarrow> admission_state \<Rightarrow> bool" where
  "approvals_move s s' \<longleftrightarrow> (\<forall>ap. ad_approval s = Some ap \<longrightarrow> (\<exists>ap1. ad_approval s' = Some ap1 \<and> approvals_step ap ap1))"

lemma approvals_moveI: "(\<And>ap. ad_approval s = Some ap \<Longrightarrow> \<exists>ap1. ad_approval s' = Some ap1 \<and> approvals_step ap ap1) \<Longrightarrow> approvals_move s s'"
  by (simp add: approvals_move_def)

lemma log_audit_approval [simp]: "ad_approval (log_audit actor action path node result s) = ad_approval s"
  by (simp add: log_audit_def)

lemma enforced_move:
  assumes "approvals_move s (fst (rest s))"
  shows "approvals_move s (fst (enforce_user_rbac env path meth rest s))"
  using assms approvals_step.intros(1) by (auto simp: enforce_user_rbac_def approvals_move_def split: option.split)

lemma add_node_approval: "add_node env info s = (s', b) \<Longrightarrow> ad_approval s' = ad_approval s"
  using add_node_frame(1) [of env info s] by simp

lemma gated_register_move: "approvals_move s (fst (gated_register env path r s))"
proof (rule approvals_moveI)
  fix ap assume ap: "ad_approval s = Some ap"
  let ?call = "request_join (ro_ip env) (ro_now env) (nr_node_id r) (nr_hostname r) (nr_ip r) (nr_port r) (Some r) ap"
  obtain ap1 res where req: "?call = (ap1, res)" by fastforce
  have "approvals_step ap ap1" using approvals_step.intros(2) [of ap] req by (metis fst_conv)
  moreover have "ad_approval (fst (gated_register env path r s)) = Some ap1"
    by (auto simp: gated_register_def ap req Let_def dest!: add_node_approval split: option.split prod.split)
  ultimately show "\<exists>ap1. ad_approval (fst (gated_register env path r s)) = Some ap1 \<and> approvals_step ap ap1" by blast
qed

lemma stay_move: "ad_approval s' = ad_approval s \<Longrightarrow> approvals_move s s'"
  using approvals_step.intros(1) by (auto simp: approvals_move_def)

lemma admission_step_move: "admission_step ipe s s' \<Longrightarrow> approvals_move s s'"
proof (induction rule: admission_step.induct)
  case (join env s rq)
  show ?case unfolding manual_join_def
  proof (rule enforced_move, rule approvals_moveI, goal_cases)
    case (1 ap)
    let ?call = "request_join (ro_ip env) (ro_now env) (jq_node_id rq) (jq_hostname rq) (jq_ip rq) (jq_port rq) None ap"
    obtain ap1 res where req: "?call = (ap1, res)" by fastforce
    have "approvals_step ap ap1" "approvals_step ap ap"
      using approvals_step.intros(1,2) [of ap] req by (metis fst_conv)+
    then show ?case by (auto simp: Let_def 1 req split: prod.split sum.split option.split)
  qed
next
  case (register env s r)
  show ?case unfolding register_route_def by (rule enforced_move) (simp add: gated_register_move stay_move)
next
  case (v1_register env s r)
  show ?case unfolding v1_register_route_def by (rule enforced_move) (simp add: gated_register_move stay_move)
next
  case (approve env s nid who)
  show ?case unfolding approve_route_def
  proof (rule enforced_move, rule approvals_moveI, goal_cases)
    case (1 ap)
    obtain ap1 b where app: "NodeAdmission.approve (ro_now env) nid who ap = (ap1, b)" by fastforce
    have "approvals_step ap ap1" "approvals_step ap ap"
      using approvals_step.intros(1,3) [of ap] app by (metis fst_conv)+
    then show ?case
      by (cases b) (auto simp: Let_def 1 app dest!: add_node_approval split: option.split prod.split)
  qed
next
  case (reject env s nid reason)
  show ?case unfolding reject_route_def
  proof (rule enforced_move, rule approvals_moveI, goal_cases)
    case (1 ap)
    obtain ap1 b where rej: "NodeAdmission.reject nid reason ap = (ap1, b)" by fastforce
    have "approvals_step ap ap1" "approvals_step ap ap"
      using approvals_step.intros(1,4) [of ap] rej by (metis fst_conv)+
    then show ?case by (cases b) (auto simp: 1 rej)
  qed
qed (simp add: stay_move)

lemma barred_step: "approvals_step ap ap1 \<Longrightarrow> dget (ap_rejected ap) nid \<noteq> None \<and> dget (ap_approved ap) nid = None \<and> dget (ap_pending ap) nid = None
    \<Longrightarrow> dget (ap_rejected ap1) nid \<noteq> None \<and> dget (ap_approved ap1) nid = None \<and> dget (ap_pending ap1) nid = None"
proof (induction rule: approvals_step.induct)
  case (2 ap ipe now k hostname ip port meta)
  have tidy: "dget d nid = None \<Longrightarrow> dget (filter P d) nid = None" for d :: "(string, approval_request) dict" and P
    unfolding dget_None_iff by auto
  show ?case
    using 2 by (auto simp: request_join_def Let_def cleanup_expired_pending_def tidy split: option.split bool.split)
next
  case (3 ap now k who)
  then show ?case by (auto simp: approve_def split: option.split)
next
  case (4 ap k reason)
  then show ?case by (auto simp: reject_def split: option.split)
qed

lemma barred_run: "(admission_step ipe)\<^sup>*\<^sup>* s s' \<Longrightarrow> barred nid s \<Longrightarrow> barred nid s'"
proof (induction rule: rtranclp_induct)
  case (step s1 s2)
  then show ?case using admission_step_move [OF step.hyps(2)] barred_step unfolding barred_def approvals_move_def by metis
qed simp

lemma barred_out: "adm_ok ipe s \<Longrightarrow> barred nid s \<Longrightarrow> nid \<notin> node_keys (ad_master s)"
  by (auto simp: adm_ok_def barred_def admitted_def is_approved_def)

subsection \<open>Gaps of the gate\<close>

text \<open>A node that has registered is a worker, and workers have no right to register: the first route refuses its
  second registration.\<close>

lemma registered_node_cannot_register_again:
  "ca_role (ro_caller env) = None \<Longrightarrow> is_safe_path_segment (nr_node_id r) \<Longrightarrow> check_protocol_compat (nr_protocol_version r) \<Longrightarrow>
     get_role (nr_node_id r) (ad_pm s) = Some WORKER \<Longrightarrow> snd (register_route env r s) = Inl 403"
  by (auto simp: register_route_def enforce_user_rbac_def check_path_access_def node_exempt_paths_def PATH_PERMISSION_MAP_def
      has_permission_def get_role_def)

text \<open>An address that cannot be parsed is let in when it contains the text of a pattern, also of a network; an
  approval is for the id, from whatever host the next request comes; a node let in while an older request of
  its id waits can be rejected and stays approved; the limit of waiting requests does not limit them.\<close>

lemma unparsable_address_is_let_in:
  "\<not> ie_ip env ip \<Longrightarrow> contains p ip \<Longrightarrow> check_auto_approve env hostname ip (p # ps) = Some True"
  by (auto simp: text_pattern_def)

lemma approval_is_not_bound_to_a_host:
  "dget (ap_approved ap) nid = Some rq \<Longrightarrow> request_join env now nid hostname ip port meta ap = (ap, Some rq)"
  by (simp add: request_join_def)

lemma rejected_and_still_approved:
  assumes "dget (ap_approved ap) nid = None" "dget (ap_rejected ap) nid = None" "dget (ap_pending ap) nid = Some old"
    "check_auto_approve env hostname ip (ap_patterns ap) = Some True"
    "fst (request_join env now nid hostname ip port meta ap) = ap1"
  shows "snd (reject nid reason ap1) \<and> is_approved nid (fst (reject nid reason ap1)) \<and> dget (ap_rejected (fst (reject nid reason ap1))) nid \<noteq> None"
  using assms(1-4) assms(5) [symmetric] by (simp add: request_join_def Let_def reject_def is_approved_def)

lemma update_entry: "(k', v') \<in> set (dset d k v) \<Longrightarrow> (k', v') \<in> set d \<or> v' = v"
  by (induction d) (auto split: if_splits)

lemma pending_is_not_limited:
  assumes "dget (ap_approved ap) nid = None" "dget (ap_rejected ap) nid = None" "0 \<le> ap_ttl ap"
    "check_auto_approve env hostname ip (ap_patterns ap) = Some False" "\<forall>(k, rq) \<in> set (ap_pending ap). now - aq_requested_at rq \<le> ap_ttl ap"
  shows "\<exists>rq. ap_pending (fst (request_join env now nid hostname ip port meta ap)) = dset (ap_pending ap) nid rq"
proof -
  have keep: "filter (\<lambda>(_, rq). \<not> now - aq_requested_at rq > ap_ttl ap) (dset (ap_pending ap) nid new) = dset (ap_pending ap) nid new"
    if "now - aq_requested_at new \<le> ap_ttl ap" for new
    using assms(5) that by (intro filter_True) (fastforce dest: update_entry)
  show ?thesis
    using assms keep by (auto simp: request_join_def Let_def cleanup_expired_pending_def)
qed

lemma join_secret_is_not_asked:
  "ad_join s = None \<Longrightarrow> snd (manual_join env (rq\<lparr>jq_secret := x\<rparr>) s) = snd (manual_join env rq s)"
  by (simp add: manual_join_def enforce_user_rbac_def handle_join_request_def Let_def split: option.split prod.split)

subsection \<open>The claims\<close>


text \<open>A node whose request is rejected, without having been approved before, never gets into the table, whatever
  calls follow.\<close>

theorem rejected_node_stays_out:
  assumes "(admission_step ipe)\<^sup>*\<^sup>* (admission_init patterns c pm) s" "node_keys c = {}" "ro_ip env = ipe"
    "\<not> admitted nid s" "reject_route env nid reason s = (s1, Inr ())" "(admission_step ipe)\<^sup>*\<^sup>* s1 s2"
  shows "nid \<notin> node_keys (ad_master s2)"
proof -
  have s: "adm_ok ipe s" using admission_run_ok [OF assms(1) admission_init_ok [OF assms(2)]] .
  have "adm_ok ipe s1" using reject_route_ok [OF s, of env nid reason] assms(5) by simp
  then have s2: "adm_ok ipe s2" using admission_run_ok [OF assms(6)] by blast
  have "barred nid s1"
    using assms(4,5) by (auto simp: reject_route_def enforce_user_rbac_def reject_def barred_def admitted_def is_approved_def
        log_audit_def split: option.splits if_splits prod.splits bool.splits)
  then show ?thesis using barred_out [OF s2] barred_run [OF assms(6)] by blast
qed

text \<open>For the examples: a network whose addresses start with \<open>10.\<close> is trusted.\<close>

definition lan :: ip_env where
  "lan = \<lparr>ie_ip = \<lambda>_. True, ie_net = \<lambda>p. if p = ''10.0.0.0/8'' then Some (prefix ''10.'') else None, ie_match = \<lambda>_ _. Some False\<rparr>"

definition lan_call :: route_env where
  "lan_call = \<lparr>ro_now = 50, ro_ip = lan, ro_registerable = \<lambda>_. True, ro_caller = \<lparr>ca_role = None, ca_actor = []\<rparr>\<rparr>"

definition empty_master :: master where
  "empty_master = \<lparr>ms_reg = registry_init 15, ms_td = tasks_init [] True True, ms_ha = ha_single, ms_shard_roles = None\<rparr>"

definition lan_request :: "string \<Rightarrow> register_request" where
  "lan_request ip =
     \<lparr>nr_node_id = ''n1'', nr_hostname = ''h'', nr_ip = ip, nr_port = 1, nr_arch = [], nr_total_memory = 8,
      nr_available_memory = 8, nr_cpu_cores = 1, nr_gpu_cores = 1, nr_device_model = [], nr_uma_size = 8, nr_mlx_version = [],
      nr_protocol_version = [], nr_tags = [], nr_active_tasks = 0, nr_max_tasks = 4, nr_network_rtt = 0, nr_supervisor = False,
      nr_drivers = [], nr_resident = False\<rparr>"

lemma empty_master_keys: "node_keys empty_master = {}"
  by (simp add: node_keys_def reg_keys_def empty_master_def registry_init_def)

lemma lan_call_ip: "ro_ip lan_call = lan"
  by (simp add: lan_call_def)

lemma n1_safe: "is_safe_path_segment ''n1''"
  by code_simp

lemma registration_adds:
  assumes "dget (rg_banned rg) (nd_id info) = None" "ok (nd_ip_address info)"
  shows "\<exists>rg1. register_node ok now info rg = (rg1, True) \<and> nd_id info \<in> reg_keys rg1"
proof -
  have ban: "is_node_banned_locked now (nd_id info) rg = (rg, False)" using assms(1) by (simp add: is_node_banned_locked_def)
  have nid: "nd_id (merge_registration now old info) = nd_id info" for old
    by (simp add: merge_registration_def split: option.split)
  have sync: "reg_keys (sync_node_metrics now i g) = reg_keys g" for i g
    by (rule reg_keys_same) (simp add: sync_node_metrics_def Let_def)
  show ?thesis using assms(2) by (simp add: register_node_def ban Let_def nid sync)
qed

lemma lan_node_registers:
  "''n1'' \<in> node_keys (ad_master (fst (v1_register_route lan_call (lan_request ''10.1.1.1'') (admission_init [''10.0.0.0/8''] empty_master []))))"
proof -
  let ?s = "admission_init [''10.0.0.0/8''] empty_master []" and ?r = "lan_request ''10.1.1.1''"
  obtain rg where rg: "register_node (\<lambda>_. True) 50 (requested_node 50 ?r) (ms_reg empty_master) = (rg, True)" "''n1'' \<in> reg_keys rg"
    using registration_adds [of "ms_reg empty_master" "requested_node 50 ?r" "\<lambda>_. True" 50]
    by (auto simp: empty_master_def registry_init_def lan_request_def)
  have "check_auto_approve lan ''h'' ''10.1.1.1'' [''10.0.0.0/8''] = Some True" by (simp add: lan_def)
  then show ?thesis
    using rg n1_safe
    by (simp add: v1_register_route_def enforce_user_rbac_def lan_call_def check_protocol_compat_def gated_register_def
        admission_init_def approvals_init_def request_join_def add_node_def register_and_drain_def Let_def lan_request_def log_audit_def)
qed


theorem rejected_node_stays_out_witness:
  "let s = fst (v1_register_route lan_call (lan_request ''192.168.1.1'') (admission_init [''10.0.0.0/8''] empty_master []));
       s1 = fst (reject_route lan_call ''n1'' ''no'' s)
   in ''n1'' \<notin> node_keys (ad_master (fst (v1_register_route lan_call (lan_request ''10.1.1.1'') s1)))"
proof -
  let ?init = "admission_init [''10.0.0.0/8''] empty_master []"
  let ?s = "fst (v1_register_route lan_call (lan_request ''192.168.1.1'') ?init)"
  have s: "(admission_step lan)\<^sup>*\<^sup>* ?init ?s"
    by (intro r_into_rtranclp admission_step.v1_register lan_call_ip)
  have auto: "check_auto_approve lan ''h'' ''192.168.1.1'' [''10.0.0.0/8''] = Some False" by (simp add: lan_def)
  have out: "\<not> admitted ''n1'' ?s" "snd (reject_route lan_call ''n1'' ''no'' ?s) = Inr ()"
    using n1_safe auto
    by (simp_all add: v1_register_route_def enforce_user_rbac_def lan_call_def check_protocol_compat_def gated_register_def reject_def
        admission_init_def approvals_init_def request_join_def Let_def lan_request_def log_audit_def admitted_def is_approved_def reject_route_def)
  obtain s1 where s1: "reject_route lan_call ''n1'' ''no'' ?s = (s1, Inr ())" using out(2) by (metis prod.collapse)
  have "(admission_step lan)\<^sup>*\<^sup>* s1 (fst (v1_register_route lan_call (lan_request ''10.1.1.1'') s1))"
    by (intro r_into_rtranclp admission_step.v1_register lan_call_ip)
  from rejected_node_stays_out [OF s empty_master_keys lan_call_ip out(1) s1 this] show ?thesis by (simp add: Let_def s1)
qed

end
