(* ===== verification/ClusterSync.thy ===== *)
theory ClusterSync
  imports FmpCodec Paths
begin

text \<open>
  Synchronisation of model files between nodes (\<open>master/cluster_sync.py\<close>): manifests of model directories, the
  difference of two manifests, the download of what differs, the queue of synchronisations and the detector
  of partitions.  The disk is a map from normalised paths to bytes with a time, and the list of
  directories; links are not modelled.  SHA-256, the answers of the peer, the clock and the refusals of the
  disk are parameters.  What comes from a peer is JSON of any type and is kept as it is until it is used.
\<close>

subsection \<open>Paths from a peer\<close>

definition safe_rel_path :: "string \<Rightarrow> py_error + string" where
  "safe_rel_path rel =
     (if rel = [] \<or> CHR 0x00 \<in> set rel then Inl (ValueError ''path'')
      else if starts_with rel ''/'' \<or> CHR '':'' \<in> set (hd (split_slash rel)) then Inl (ValueError ''path'')
      else let norm = normpath rel
           in if starts_with norm ''..'' \<or> contains ''/..'' norm \<or> norm = ''..'' then Inl (ValueError ''traversal'')
              else if list_all is_safe_path_segment (split_slash norm) then Inr norm else Inl (ValueError ''segment''))"

text \<open>A value that is not a text raises in the first checks.\<close>

definition safe_rel_value :: "json \<Rightarrow> py_error + string" where
  "safe_rel_value v = (case v of JStr s \<Rightarrow> safe_rel_path s | _ \<Rightarrow> Inl (TypeErrorPy ''path''))"

subsection \<open>Manifests\<close>

record file_item =
  fi_path :: json
  fi_size :: json
  fi_sha :: json
  fi_modified :: json

record model_manifest =
  mm_name :: json
  mm_id :: json
  mm_files :: "file_item list"
  mm_total :: json
  mm_created :: json

definition file_item_dict :: "file_item \<Rightarrow> json" where
  "file_item_dict f =
     JObj [(''path'', fi_path f), (''size'', fi_size f), (''sha256'', fi_sha f), (''modified_at'', fi_modified f)]"

definition manifest_to_dict :: "model_manifest \<Rightarrow> json" where
  "manifest_to_dict m =
     JObj [(''model_name'', mm_name m), (''model_id'', mm_id m), (''total_size'', mm_total m), (''created_at'', mm_created m),
           (''files'', JList (map file_item_dict (mm_files m)))]"

text \<open>\<open>FileEntry(**f)\<close>: unknown names and a missing path raise.\<close>

definition file_item_from :: "json \<Rightarrow> py_error + file_item" where
  "file_item_from v =
     (case v of
        JObj d \<Rightarrow>
          if \<not> list_all (\<lambda>k. k \<in> {''path'', ''size'', ''sha256'', ''modified_at''}) (dkeys d) \<or> dget d ''path'' = None
          then Inl (TypeErrorPy ''FileEntry'')
          else Inr \<lparr>fi_path = jget d ''path'' JNull, fi_size = jget d ''size'' (JInt 0), fi_sha = jget d ''sha256'' (JStr []),
                    fi_modified = jget d ''modified_at'' (JReal 0)\<rparr>
      | _ \<Rightarrow> Inl (TypeErrorPy ''FileEntry''))"

fun file_items_from :: "json list \<Rightarrow> py_error + file_item list" where
  "file_items_from [] = Inr []"
| "file_items_from (v # vs) =
     and_then (file_item_from v) (\<lambda>f. and_then (file_items_from vs) (\<lambda>fs. Inr (f # fs)))"

definition manifest_from_dict :: "json \<Rightarrow> py_error + model_manifest" where
  "manifest_from_dict v =
     (case v of
        JObj d \<Rightarrow>
          (case iterated (jget d ''files'' (JList [])) of
             None \<Rightarrow> Inl (TypeErrorPy ''files'')
           | Some vs \<Rightarrow>
               and_then (file_items_from vs) (\<lambda>fs.
                 Inr \<lparr>mm_name = jget d ''model_name'' (JStr []), mm_id = jget d ''model_id'' (JStr []), mm_files = fs,
                      mm_total = jget d ''total_size'' (JInt 0), mm_created = jget d ''created_at'' (JReal 0)\<rparr>))
      | _ \<Rightarrow> Inl (TypeErrorPy ''manifest''))"

lemma file_item_round_trip: "file_item_from (file_item_dict f) = Inr f"
  by (simp add: file_item_from_def file_item_dict_def jget_def)

lemma file_items_round_trip: "file_items_from (map file_item_dict fs) = Inr fs"
  by (induction fs) (simp_all add: file_item_round_trip)

interpretation manifest_wire: wire_format manifest_to_dict "\<lambda>d. value_of (manifest_from_dict d)" "\<lambda>m. m"
  by unfold_locales (simp add: manifest_from_dict_def manifest_to_dict_def jget_def iterated_def file_items_round_trip)

subsection \<open>The disk\<close>

record disk =
  dk_files :: "(string, byte list \<times> time) dict"
  dk_dirs :: "string list"

text \<open>The directory of a normalised path, and the directories on the way to one, itself included.\<close>

definition parent :: "string \<Rightarrow> string" where
  "parent p = join_with (CHR ''/'') (butlast (split_slash p))"

definition dir_chain :: "string \<Rightarrow> string list" where
  "dir_chain d = map (\<lambda>k. join_with (CHR ''/'') (take (Suc k) (split_slash d))) [0..<length (split_slash d)]"

text \<open>\<open>os.makedirs(d, exist_ok=True)\<close> raises when a file is in the way.\<close>

definition make_dirs :: "string list \<Rightarrow> disk \<Rightarrow> disk" where
  "make_dirs ds dk = dk\<lparr>dk_dirs := fold sadd ds (dk_dirs dk)\<rparr>"

definition blocked :: "string \<Rightarrow> disk \<Rightarrow> bool" where
  "blocked d dk \<longleftrightarrow> list_ex (\<lambda>a. dget (dk_files dk) a \<noteq> None) (dir_chain d)"

text \<open>What the system does with a write: it works, making the directories stops after some, the file is
  not opened, or the write stops after some bytes.\<close>

datatype disk_answer = DiskOk | NoDir nat | NoOpen | WriteStops nat

definition store_file :: "disk_answer \<Rightarrow> time \<Rightarrow> string \<Rightarrow> byte list \<Rightarrow> disk \<Rightarrow> disk \<times> bool" where
  "store_file ans now dest content dk =
     (let d = parent dest
      in if blocked d dk then (dk, False)
         else case ans of
                NoDir k \<Rightarrow> (make_dirs (take k (dir_chain d)) dk, False)
              | _ \<Rightarrow>
                  let dk1 = make_dirs (dir_chain d) dk
                  in if dest \<in> set (dk_dirs dk1) \<or> ans = NoOpen then (dk1, False)
                     else case ans of
                            WriteStops n \<Rightarrow> (dk1\<lparr>dk_files := dset (dk_files dk1) dest (take n content, now)\<rparr>, False)
                          | _ \<Rightarrow> (dk1\<lparr>dk_files := dset (dk_files dk1) dest (content, now)\<rparr>, True))"

subsection \<open>Scanning a model directory\<close>

record peer_env =
  pe_net :: net_env
  pe_int :: "int \<Rightarrow> string"
  pe_get :: "string \<Rightarrow> string \<Rightarrow> (nat \<times> byte list) option"
  pe_disk :: "string \<Rightarrow> disk_answer"
  pe_sha :: "byte list \<Rightarrow> string"
  pe_readable :: "string \<Rightarrow> bool"
  pe_stat :: "string \<Rightarrow> bool"
  pe_now :: time

definition compute_file_sha256 :: "peer_env \<Rightarrow> disk \<Rightarrow> string \<Rightarrow> string" where
  "compute_file_sha256 pe dk p =
     (case dget (dk_files dk) p of Some (bs, _) \<Rightarrow> (if pe_readable pe p then pe_sha pe bs else []) | None \<Rightarrow> [])"

text \<open>The relative path of a file below a directory; \<open>os.walk\<close> visits the files in the order of the map.\<close>

definition rel_below :: "string \<Rightarrow> string \<Rightarrow> string option" where
  "rel_below d p =
     (let pre = (if d \<noteq> [] \<and> last d = CHR ''/'' then d else d @ ''/'')
      in if starts_with p pre then Some (drop (length pre) p) else None)"

definition scanned :: "string \<Rightarrow> byte list \<Rightarrow> time \<Rightarrow> string \<Rightarrow> file_item" where
  "scanned rel bs t sha = \<lparr>fi_path = JStr rel, fi_size = JInt (int (length bs)), fi_sha = JStr sha, fi_modified = JReal t\<rparr>"

lemma scanned_fields [simp]: "fi_path (scanned rel bs t h) = JStr rel" "fi_sha (scanned rel bs t h) = JStr h"
  by (simp_all add: scanned_def)

definition scan_file :: "peer_env \<Rightarrow> disk \<Rightarrow> string \<Rightarrow> string \<times> byte list \<times> time \<Rightarrow> file_item option" where
  "scan_file pe dk d x =
     (case x of (p, bs, t) \<Rightarrow>
        (case rel_below d p of
           None \<Rightarrow> None
         | Some rel \<Rightarrow>
             if pe_stat pe p
             then Some (scanned rel bs t (compute_file_sha256 pe dk p))
             else None))"

definition item_size :: "file_item \<Rightarrow> int" where
  "item_size f = (case fi_size f of JInt n \<Rightarrow> n | _ \<Rightarrow> 0)"

definition build_manifest :: "peer_env \<Rightarrow> string \<Rightarrow> string \<Rightarrow> string \<Rightarrow> disk \<Rightarrow> model_manifest" where
  "build_manifest pe name dir model_id dk =
     (if normpath dir \<notin> set (dk_dirs dk)
      then \<lparr>mm_name = JStr name, mm_id = JStr model_id, mm_files = [], mm_total = JInt 0, mm_created = JReal 0\<rparr>
      else let fs = List.map_filter (scan_file pe dk (normpath dir)) (dk_files dk)
           in \<lparr>mm_name = JStr name, mm_id = JStr model_id, mm_files = fs,
               mm_total = JInt (sum_list (map item_size fs)), mm_created = JReal (pe_now pe)\<rparr>)"

subsection \<open>The difference of two manifests\<close>

definition hashable :: "json \<Rightarrow> bool" where
  "hashable v = (case v of JList _ \<Rightarrow> False | JObj _ \<Rightarrow> False | _ \<Rightarrow> True)"

definition path_map :: "model_manifest \<Rightarrow> (json, file_item) dict" where
  "path_map m = fold (\<lambda>f d. dset d (fi_path f) f) (mm_files m) []"

definition deleted_item :: "json \<Rightarrow> file_item" where
  "deleted_item p = \<lparr>fi_path = p, fi_size = JInt 0, fi_sha = JStr ''__deleted__'', fi_modified = JReal 0\<rparr>"

definition differs :: "(json, file_item) dict \<Rightarrow> file_item \<Rightarrow> bool" where
  "differs here f = (case dget here (fi_path f) of None \<Rightarrow> True | Some l \<Rightarrow> fi_sha l \<noteq> fi_sha f)"

definition compute_sync_diff :: "model_manifest \<Rightarrow> model_manifest \<Rightarrow> py_error + file_item list" where
  "compute_sync_diff here there =
     (if \<not> list_all (\<lambda>f. hashable (fi_path f)) (mm_files here @ mm_files there) then Inl (TypeErrorPy ''unhashable'')
      else let l = path_map here; r = path_map there
           in Inr (filter (differs l) (dvals r) @ map deleted_item (filter (\<lambda>p. p \<notin> set (dkeys r)) (dkeys l))))"

subsection \<open>Downloading what differs\<close>

definition fetch_file :: "peer_env \<Rightarrow> string \<Rightarrow> string \<Rightarrow> string \<Rightarrow> int \<Rightarrow> file_item \<Rightarrow> disk \<Rightarrow> disk \<times> bool" where
  "fetch_file pe cache name host port f dk =
     (if \<not> is_safe_peer_host (pe_net pe) host then (dk, False)
      else case safe_rel_value (fi_path f) of
        Inl _ \<Rightarrow> (dk, False)
      | Inr rel \<Rightarrow>
          if \<not> is_safe_path_segment name then (dk, False)
          else case build_safe_url (pe_net pe) (pe_int pe) ''http'' host port (''/api/models/'' @ name @ ''/files'') of
            Inl _ \<Rightarrow> (dk, False)
          | Inr url \<Rightarrow>
              (case pe_get pe url rel of
                 None \<Rightarrow> (dk, False)
               | Some (_, content) \<Rightarrow>
                   let dir = os_join cache name; dest = normpath (os_join dir rel)
                   in if \<not> starts_with dest (normpath dir @ ''/'') \<and> dest \<noteq> normpath dir then (dk, False)
                      else store_file (pe_disk pe dest) (pe_now pe) dest content dk))"

fun fetch_files :: "peer_env \<Rightarrow> string \<Rightarrow> string \<Rightarrow> string \<Rightarrow> int \<Rightarrow> file_item list \<Rightarrow> disk \<Rightarrow> disk \<times> nat" where
  "fetch_files pe cache name host port [] dk = (dk, 0)"
| "fetch_files pe cache name host port (f # fs) dk =
     (if fi_sha f = JStr ''__deleted__'' then fetch_files pe cache name host port fs dk
      else let (dk1, ok) = fetch_file pe cache name host port f dk;
               (dk2, n) = fetch_files pe cache name host port fs dk1
           in (dk2, if ok then Suc n else n))"

datatype sync_report = UpToDate | Synced nat nat

definition incremental_sync ::
  "peer_env \<Rightarrow> string \<Rightarrow> string \<Rightarrow> model_manifest \<Rightarrow> string \<Rightarrow> int \<Rightarrow> disk \<Rightarrow> disk \<times> (py_error + sync_report)" where
  "incremental_sync pe cache name there host port dk =
     (case compute_sync_diff (build_manifest pe name (os_join cache name) [] dk) there of
        Inl e \<Rightarrow> (dk, Inl e)
      | Inr diff \<Rightarrow>
          if diff = [] then (dk, Inr UpToDate)
          else let (dk1, n) = fetch_files pe cache name host port diff dk in (dk1, Inr (Synced n (length diff))))"

subsection \<open>The detector of partitions\<close>

datatype partition_state = PConnected | PPartial | PPartitioned

fun partition_value :: "partition_state \<Rightarrow> string" where
  "partition_value PConnected = ''connected''"
| "partition_value PPartial = ''partial''"
| "partition_value PPartitioned = ''partitioned''"

datatype pd_event = OnPartition "string list" | OnReconnect

record detector =
  pd_node :: string
  pd_timeout :: real
  pd_beats :: "(string, time) dict"
  pd_state :: partition_state
  pd_degraded :: bool
  pd_running :: bool
  pd_on_partition :: bool
  pd_on_reconnect :: bool

definition detector_init :: "string \<Rightarrow> real \<Rightarrow> detector" where
  "detector_init nid timeout =
     \<lparr>pd_node = nid, pd_timeout = timeout, pd_beats = [], pd_state = PConnected, pd_degraded = False, pd_running = False,
      pd_on_partition = False, pd_on_reconnect = False\<rparr>"

definition register_callbacks :: "bool \<Rightarrow> bool \<Rightarrow> detector \<Rightarrow> detector" where
  "register_callbacks part reconn pd = pd\<lparr>pd_on_partition := part, pd_on_reconnect := reconn\<rparr>"

definition reconnected :: "detector \<Rightarrow> detector \<times> pd_event list" where
  "reconnected pd =
     (pd\<lparr>pd_degraded := False, pd_state := PConnected\<rparr>, if pd_on_reconnect pd then [OnReconnect] else [])"

definition detector_heartbeat :: "time \<Rightarrow> string \<Rightarrow> detector \<Rightarrow> detector \<times> pd_event list" where
  "detector_heartbeat now nid pd =
     (let pd1 = pd\<lparr>pd_beats := dset (pd_beats pd) nid now\<rparr>
      in if pd_degraded pd1 then reconnected pd1 else (pd1, []))"

definition silent_nodes :: "time \<Rightarrow> detector \<Rightarrow> string list" where
  "silent_nodes now pd = map fst (filter (\<lambda>(_, t). now - t > pd_timeout pd) (pd_beats pd))"

definition check_partition :: "time \<Rightarrow> detector \<Rightarrow> detector \<times> pd_event list" where
  "check_partition now pd =
     (let gone = silent_nodes now pd
      in if gone \<noteq> [] \<and> \<not> pd_degraded pd
         then (pd\<lparr>pd_degraded := True, pd_state := PPartitioned\<rparr>, if pd_on_partition pd then [OnPartition gone] else [])
         else if gone = [] \<and> pd_degraded pd then reconnected pd
         else (pd, []))"

definition detector_start :: "detector \<Rightarrow> detector" where
  "detector_start pd = (if pd_running pd then pd else pd\<lparr>pd_running := True\<rparr>)"

definition detector_stop :: "detector \<Rightarrow> detector" where
  "detector_stop pd = pd\<lparr>pd_running := False\<rparr>"

text \<open>Rounding to decimals: to the nearest, in the middle to the even one.\<close>

definition round_half_even :: "nat \<Rightarrow> real \<Rightarrow> real" where
  "round_half_even n x =
     (let y = x * 10 ^ n; f = \<lfloor>y\<rfloor>; r = y - of_int f
      in of_int (if r < 1 / 2 \<or> (r = 1 / 2 \<and> even f) then f else f + 1) / 10 ^ n)"

definition get_status :: "time \<Rightarrow> detector \<Rightarrow> json" where
  "get_status now pd =
     JObj [(''node_id'', JStr (pd_node pd)), (''partition_state'', JStr (partition_value (pd_state pd))),
           (''is_degraded'', JBool (pd_degraded pd)),
           (''nodes'', JObj (map (\<lambda>(nid, t). (nid, JObj
              [(''last_heartbeat_ago'', JReal (round_half_even 1 (now - t))),
               (''status'', JStr (if now - t > pd_timeout pd then ''disconnected'' else ''connected''))])) (pd_beats pd)))]"

subsection \<open>The manager\<close>

record sync_manager =
  sm_cache :: string
  sm_shared :: string
  sm_node :: string
  sm_detector :: detector
  sm_queue :: "(string \<times> string \<times> int) list"
  sm_running :: bool

definition sync_manager_init :: "string \<Rightarrow> string \<Rightarrow> string \<Rightarrow> string \<Rightarrow> sync_manager" where
  "sync_manager_init home cache shared nid =
     \<lparr>sm_cache = str_or cache (home @ ''/.fusion-mlx/models''), sm_shared = shared, sm_node = nid,
      sm_detector = detector_init nid 30, sm_queue = [], sm_running = False\<rparr>"

definition sync_start :: "sync_manager \<Rightarrow> sync_manager" where
  "sync_start sm = sm\<lparr>sm_running := True, sm_detector := detector_start (sm_detector sm)\<rparr>"

definition sync_stop :: "sync_manager \<Rightarrow> sync_manager" where
  "sync_stop sm = sm\<lparr>sm_running := False, sm_detector := detector_stop (sm_detector sm)\<rparr>"

definition get_manifest :: "peer_env \<Rightarrow> string \<Rightarrow> sync_manager \<Rightarrow> disk \<Rightarrow> model_manifest" where
  "get_manifest pe name sm dk = build_manifest pe name (os_join (sm_cache sm) name) [] dk"

definition trigger_sync :: "string \<Rightarrow> string \<Rightarrow> int \<Rightarrow> sync_manager \<Rightarrow> sync_manager" where
  "trigger_sync name host port sm = sm\<lparr>sm_queue := sm_queue sm @ [(name, host, port)]\<rparr>"

text \<open>One round of \<open>_sync_loop\<close>; \<open>answer\<close> is the JSON the peer returns for its manifest.  Every error ends the
  round and nothing else.\<close>

definition sync_round :: "peer_env \<Rightarrow> (string \<Rightarrow> json option) \<Rightarrow> sync_manager \<Rightarrow> disk \<Rightarrow> sync_manager \<times> disk" where
  "sync_round pe answer sm dk =
     (if \<not> sm_running sm then (sm, dk)
      else case sm_queue sm of
        [] \<Rightarrow> (sm, dk)
      | (name, host, port) # q \<Rightarrow>
          (let sm1 = sm\<lparr>sm_queue := q\<rparr>
           in if \<not> is_safe_peer_host (pe_net pe) host \<or> \<not> is_safe_path_segment name then (sm1, dk)
              else case build_safe_url (pe_net pe) (pe_int pe) ''http'' host port (''/api/models/'' @ name @ ''/manifest'') of
                Inl _ \<Rightarrow> (sm1, dk)
              | Inr url \<Rightarrow>
                  (case answer url of
                     None \<Rightarrow> (sm1, dk)
                   | Some v \<Rightarrow>
                       (case manifest_from_dict v of
                          Inl _ \<Rightarrow> (sm1, dk)
                        | Inr there \<Rightarrow> (sm1, fst (incremental_sync pe (sm_cache sm) name there host port dk))))))"

subsection \<open>Load reports\<close>

record node_load_report =
  nl_node :: string
  nl_gpu_used :: real
  nl_gpu_total :: real
  nl_ram_used :: real
  nl_ram_total :: real
  nl_disk_used :: real
  nl_disk_total :: real
  nl_cpu :: real
  nl_active :: int
  nl_max :: int
  nl_reported :: time

definition load_report_dict :: "node_load_report \<Rightarrow> json" where
  "load_report_dict r =
     JObj [(''node_id'', JStr (nl_node r)), (''gpu_memory_used_gb'', JReal (nl_gpu_used r)),
           (''gpu_memory_total_gb'', JReal (nl_gpu_total r)), (''ram_used_gb'', JReal (nl_ram_used r)),
           (''ram_total_gb'', JReal (nl_ram_total r)), (''disk_used_gb'', JReal (nl_disk_used r)),
           (''disk_total_gb'', JReal (nl_disk_total r)), (''cpu_percent'', JReal (nl_cpu r)),
           (''active_tasks'', JInt (nl_active r)), (''max_tasks'', JInt (nl_max r)), (''reported_at'', JReal (nl_reported r))]"

text \<open>What the sensors read: bytes of memory and disk (used, present), the CPU, and the memory of the inference
  server in gigabytes (present, active) when it answers; no reading at all without the sensor library.\<close>

record sensors =
  se_ram :: "nat \<times> nat"
  se_disk :: "nat \<times> nat"
  se_cpu :: real
  se_mlx :: "(real \<times> real) option"

definition in_gb :: "nat \<Rightarrow> real" where
  "in_gb n = round_half_even 2 (real n / 1024 ^ 3)"

definition collect_load_report :: "time \<Rightarrow> sensors option \<Rightarrow> sync_manager \<Rightarrow> node_load_report" where
  "collect_load_report now reading sm =
     (case reading of
        None \<Rightarrow> \<lparr>nl_node = sm_node sm, nl_gpu_used = 0, nl_gpu_total = 0, nl_ram_used = 0, nl_ram_total = 0, nl_disk_used = 0,
                 nl_disk_total = 0, nl_cpu = 0, nl_active = 0, nl_max = 0, nl_reported = now\<rparr>
      | Some se \<Rightarrow>
          \<lparr>nl_node = sm_node sm, nl_gpu_used = (case se_mlx se of Some (_, a) \<Rightarrow> a | None \<Rightarrow> 0),
           nl_gpu_total = (case se_mlx se of Some (t, _) \<Rightarrow> t | None \<Rightarrow> 0),
           nl_ram_used = in_gb (fst (se_ram se)), nl_ram_total = in_gb (snd (se_ram se)),
           nl_disk_used = in_gb (fst (se_disk se)), nl_disk_total = in_gb (snd (se_disk se)), nl_cpu = se_cpu se,
           nl_active = 0, nl_max = 0, nl_reported = now\<rparr>)"

subsection \<open>The checks of a path\<close>

lemma safe_rel_path_sound: "safe_rel_path p = Inr n \<Longrightarrow> safe_rel n"
  by (auto simp: safe_rel_path_def safe_rel_def Let_def split: if_splits)

lemma safe_rel_path_safe: "safe_rel p \<Longrightarrow> safe_rel_path p = Inr p"
  using safe_rel_normal [of p] by (simp add: safe_rel_path_def safe_rel_def Let_def)

subsection \<open>Where files are written\<close>

lemma files_make_dirs [simp]: "dk_files (make_dirs ds dk) = dk_files dk"
  by (simp add: make_dirs_def)

lemma store_file_files:
  assumes "store_file ans now dest content dk = (dk', ok)"
  shows "(dk_files dk' = dk_files dk \<and> \<not> ok) \<or>
         (\<exists>c. dk_files dk' = dset (dk_files dk) dest (c, now) \<and> prefix c content \<and> (ok \<longrightarrow> c = content))"
  using assms by (auto simp: store_file_def Let_def take_is_prefix split: if_splits disk_answer.splits)

lemma model_dir_comps: "is_safe_path_segment name \<Longrightarrow> norm_comps (os_join cache name) \<noteq> []"
proof -
  assume n: "is_safe_path_segment name"
  then have split: "split_slash name = [name]" using safe_segment_facts(3) split_no_slash by blast
  then have s: "safe_rel name" using n by (simp add: safe_rel_def)
  show ?thesis
  proof (cases "cache = []")
    case True
    then show ?thesis
      using s safe_rel_parts [OF s, of name] split norm_safe [of "[name]"]
      by (simp add: os_join_def norm_comps_def safe_rel_not_rooted)
  next
    case False
    then show ?thesis using norm_comps_join [OF s False] split by simp
  qed
qed

lemma fetch_file_files:
  assumes "fetch_file pe cache name host port f dk = (dk', ok)"
  shows "(dk_files dk' = dk_files dk \<and> \<not> ok) \<or>
         (\<exists>url rel st content c. is_safe_path_segment name \<and> safe_rel rel \<and> pe_get pe url rel = Some (st, content) \<and> prefix c content \<and>
            dk_files dk' = dset (dk_files dk) (normpath (os_join cache name) @ ''/'' @ rel) (c, pe_now pe))"
proof (cases "dk_files dk' = dk_files dk \<and> \<not> ok")
  case False
  then obtain rel url st content where *: "safe_rel_value (fi_path f) = Inr rel" "is_safe_path_segment name"
      "pe_get pe url rel = Some (st, content)"
      "store_file (pe_disk pe (normpath (os_join (os_join cache name) rel))) (pe_now pe) (normpath (os_join (os_join cache name) rel))
         content dk = (dk', ok)"
    using assms by (auto simp: fetch_file_def Let_def split: if_splits sum.splits option.splits)
  have rel: "safe_rel rel" using *(1) by (auto simp: safe_rel_value_def safe_rel_path_sound split: json.splits)
  note dest = normpath_join [OF rel model_dir_comps [OF *(2), of cache]]
  show ?thesis using store_file_files [OF *(4)] False *(2,3) rel unfolding dest by blast
qed simp

definition from_peer :: "peer_env \<Rightarrow> string \<Rightarrow> string \<Rightarrow> disk \<Rightarrow> bool" where
  "from_peer pe cache p dk \<longleftrightarrow>
     (\<exists>name rel url st content c. is_safe_path_segment name \<and> safe_rel rel \<and> p = normpath (os_join cache name) @ ''/'' @ rel \<and>
        pe_get pe url rel = Some (st, content) \<and> prefix c content \<and> dget (dk_files dk) p = Some (c, pe_now pe))"

lemma fetch_file_change:
  assumes "fetch_file pe cache name host port f dk = (dk', ok)"
  shows "dget (dk_files dk') p = dget (dk_files dk) p \<or> from_peer pe cache p dk'"
  using fetch_file_files [OF assms]
proof
  assume "\<exists>url rel st content c. is_safe_path_segment name \<and> safe_rel rel \<and> pe_get pe url rel = Some (st, content) \<and> prefix c content \<and>
      dk_files dk' = dset (dk_files dk) (normpath (os_join cache name) @ ''/'' @ rel) (c, pe_now pe)"
  then obtain url rel st content c where *: "is_safe_path_segment name" "safe_rel rel" "pe_get pe url rel = Some (st, content)"
      "prefix c content" "dk_files dk' = dset (dk_files dk) (normpath (os_join cache name) @ ''/'' @ rel) (c, pe_now pe)"
    by blast
  show ?thesis
  proof (cases "p = normpath (os_join cache name) @ ''/'' @ rel")
    case True
    then show ?thesis using * unfolding from_peer_def by (intro disjI2 exI [of _ name] exI [of _ rel] exI [of _ url]) auto
  qed (simp add: *(5))
qed simp

lemma from_peer_kept: "from_peer pe cache p dk \<Longrightarrow> dget (dk_files dk') p = dget (dk_files dk) p \<Longrightarrow> from_peer pe cache p dk'"
  by (simp add: from_peer_def)

lemma fetch_files_change: "dget (dk_files (fst (fetch_files pe cache name host port fs dk))) p = dget (dk_files dk) p \<or>
    from_peer pe cache p (fst (fetch_files pe cache name host port fs dk))"
proof (induction fs arbitrary: dk)
  case (Cons f fs)
  obtain dk1 ok where r: "fetch_file pe cache name host port f dk = (dk1, ok)" by (cases "fetch_file pe cache name host port f dk")
  show ?case
    using Cons.IH [of dk] Cons.IH [of dk1] fetch_file_change [OF r, of p] from_peer_kept [of pe cache p dk1]
    by (auto simp: r case_prod_unfold Let_def)
qed simp

lemma sync_round_change: "sm_cache (fst (sync_round pe answer sm dk)) = sm_cache sm \<and>
    (dget (dk_files (snd (sync_round pe answer sm dk))) p = dget (dk_files dk) p \<or>
     from_peer pe (sm_cache sm) p (snd (sync_round pe answer sm dk)))"
proof -
  have "dget (dk_files (fst (incremental_sync pe cache name there host port dk))) p = dget (dk_files dk) p \<or>
      from_peer pe cache p (fst (incremental_sync pe cache name there host port dk))" for cache name there host port
    using fetch_files_change
    by (auto simp: incremental_sync_def Let_def case_prod_unfold split: sum.splits)
  then show ?thesis
    by (auto simp: sync_round_def Let_def split: list.splits sum.splits option.splits)
qed

datatype sync_op =
    STrigger string string int
  | SRound peer_env "string \<Rightarrow> json option"
  | SStart
  | SStop

fun sync_step :: "sync_op \<Rightarrow> sync_manager \<times> disk \<Rightarrow> sync_manager \<times> disk" where
  "sync_step (STrigger name host port) (sm, dk) = (trigger_sync name host port sm, dk)"
| "sync_step (SRound pe answer) (sm, dk) = sync_round pe answer sm dk"
| "sync_step SStart (sm, dk) = (sync_start sm, dk)"
| "sync_step SStop (sm, dk) = (sync_stop sm, dk)"

fun sync_run :: "sync_op list \<Rightarrow> sync_manager \<times> disk \<Rightarrow> sync_manager \<times> disk" where
  "sync_run [] s = s"
| "sync_run (op # ops) s = sync_run ops (sync_step op s)"


subsection \<open>A synchronisation brings the peer's files\<close>

lemma split_parts: "w \<in> set (split_slash s) \<Longrightarrow> CHR ''/'' \<notin> set w"
proof (induction s arbitrary: w)
  case (Cons c s)
  then show ?case by (cases "split_slash s") (auto split: if_splits)
qed simp

text \<open>The directories on the way to a file are the paths before one of its slashes.\<close>

lemma dir_chain_parent:
  assumes "CHR ''/'' \<in> set p"
  shows "a \<in> set (dir_chain (parent p)) \<longleftrightarrow> starts_with p (a @ ''/'')"
proof -
  obtain x y where "p = x @ CHR ''/'' # y" using assms by (meson split_list)
  then have ps: "split_slash p = split_slash x @ split_slash y" by (simp only: split_slash_append)
  define bs where "bs = butlast (split_slash p)"
  have bs: "bs \<noteq> []" "split_slash p = bs @ [last (split_slash p)]" using ps by (auto simp: bs_def butlast_append)
  have parent: "split_slash (parent p) = bs"
    using split_join [of bs] bs split_parts unfolding parent_def bs_def by (metis in_set_butlastD list_all_iff)
  show ?thesis
  proof
    assume "a \<in> set (dir_chain (parent p))"
    then obtain k where k: "k < length bs" "a = join_with (CHR ''/'') (take (Suc k) bs)" by (auto simp: dir_chain_def parent)
    have "p = join_with (CHR ''/'') (take (Suc k) (split_slash p) @ drop (Suc k) (split_slash p))" by (simp add: join_split)
    moreover have "take (Suc k) (split_slash p) = take (Suc k) bs" using k(1) bs(2) by (metis Suc_leI take_append diff_is_0_eq take0 append_Nil2)
    moreover have "drop (Suc k) (split_slash p) \<noteq> []" using k(1) bs(2) by (metis drop_eq_Nil length_append_singleton Suc_le_mono not_le)
    ultimately show "starts_with p (a @ ''/'')" using k bs(1) join_append [of "take (Suc k) bs"] by (auto simp: prefix_def)
  next
    assume "starts_with p (a @ ''/'')"
    then obtain y where "p = a @ CHR ''/'' # y" by (auto simp: prefix_def)
    then have s: "split_slash p = split_slash a @ split_slash y" by (simp only: split_slash_append)
    then have b: "bs = split_slash a @ butlast (split_slash y)" by (simp add: bs_def butlast_append)
    show "a \<in> set (dir_chain (parent p))"
      unfolding dir_chain_def parent set_map
    proof (rule image_eqI)
      show "a = join_with (CHR ''/'') (take (Suc (length (split_slash a) - 1)) bs)" by (simp add: b join_split)
      show "length (split_slash a) - 1 \<in> set [0..<length bs]" using split_slash_not_Nil [of a] by (cases "split_slash a") (auto simp: b)
    qed
  qed
qed

text \<open>A place where a file can be stored: not a directory, and no file on the way.\<close>

definition free_place :: "disk \<Rightarrow> string \<Rightarrow> bool" where
  "free_place dk p \<longleftrightarrow>
     CHR ''/'' \<in> set p \<and> p \<notin> set (dk_dirs dk) \<and> (\<forall>a. starts_with p (a @ ''/'') \<longrightarrow> dget (dk_files dk) a = None)"

lemma set_fold_sadd: "set (fold sadd xs ys) = set xs \<union> set ys"
  by (induction xs arbitrary: ys) auto

lemma store_file_free:
  assumes "free_place dk p"
  obtains dk' where "store_file DiskOk now p content dk = (dk', True)" "dk_files dk' = dset (dk_files dk) p (content, now)"
    "set (dk_dirs dk') = set (dk_dirs dk) \<union> {a. starts_with p (a @ ''/'')}"
proof -
  have p: "CHR ''/'' \<in> set p" using assms by (simp add: free_place_def)
  have "\<not> blocked (parent p) dk" using assms by (auto simp: blocked_def list_ex_iff dir_chain_parent [OF p] free_place_def)
  moreover have dirs: "set (dk_dirs (make_dirs (dir_chain (parent p)) dk)) = set (dk_dirs dk) \<union> {a. starts_with p (a @ ''/'')}"
    by (auto simp: make_dirs_def set_fold_sadd dir_chain_parent [OF p])
  moreover have "p \<notin> set (dk_dirs (make_dirs (dir_chain (parent p)) dk))"
    using assms unfolding dirs by (auto simp: free_place_def prefix_def)
  ultimately have "store_file DiskOk now p content dk =
      ((make_dirs (dir_chain (parent p)) dk)\<lparr>dk_files := dset (dk_files dk) p (content, now)\<rparr>, True)"
    by (simp add: store_file_def Let_def)
  then show ?thesis by (rule that) (simp_all add: dirs)
qed

lemma free_place_stored:
  assumes "free_place dk q" and "\<not> starts_with p (q @ ''/'')" and "\<not> starts_with q (p @ ''/'')"
    and "dk_files dk' = dset (dk_files dk) p v" and "set (dk_dirs dk') = set (dk_dirs dk) \<union> {a. starts_with p (a @ ''/'')}"
  shows "free_place dk' q"
  using assms by (auto simp: free_place_def)

text \<open>What the peer serves: every entry of its manifest has a path of safe names and, at that path, contents with
  the hash of the entry.\<close>

definition served :: "peer_env \<Rightarrow> string \<Rightarrow> file_item \<Rightarrow> bool" where
  "served pe url f \<longleftrightarrow>
     (\<exists>rel st bs. fi_path f = JStr rel \<and> safe_rel rel \<and> pe_get pe url rel = Some (st, bs) \<and>
        fi_sha f = JStr (pe_sha pe bs) \<and> pe_sha pe bs \<noteq> ''__deleted__'')"

definition item_rel :: "file_item \<Rightarrow> string" where
  "item_rel f = (case fi_path f of JStr r \<Rightarrow> r | _ \<Rightarrow> [])"

definition files_url :: "peer_env \<Rightarrow> string \<Rightarrow> string \<Rightarrow> int \<Rightarrow> string" where
  "files_url pe name host port = ''http://'' @ host @ '':'' @ pe_int pe port @ ''/api/models/'' @ name @ ''/files''"

definition place :: "string \<Rightarrow> string \<Rightarrow> file_item \<Rightarrow> string" where
  "place cache name f = normpath (os_join cache name) @ ''/'' @ item_rel f"

text \<open>No two entries for one place, none below another, and the disk has room for all of them.\<close>

definition storable :: "string \<Rightarrow> string \<Rightarrow> file_item list \<Rightarrow> disk \<Rightarrow> bool" where
  "storable cache name fs dk \<longleftrightarrow>
     distinct (map fi_path fs) \<and>
     (\<forall>f \<in> set fs. \<forall>g \<in> set fs. \<not> starts_with (item_rel f) (item_rel g @ ''/'')) \<and>
     (\<forall>f \<in> set fs. free_place dk (place cache name f))"

definition reaches :: "peer_env \<Rightarrow> string \<Rightarrow> string \<Rightarrow> bool" where
  "reaches pe host name \<longleftrightarrow> is_safe_peer_host (pe_net pe) host \<and> is_safe_path_segment name \<and> nl \<notin> set name \<and> pe_disk pe = (\<lambda>_. DiskOk)"

lemma api_url_ok:
  assumes "is_safe_path_segment name" and "nl \<notin> set name"
  shows "url_path_ok (''/api/models/'' @ name @ ''/files'')"
proof -
  have "re_class segment_char name" using assms by (auto simp: is_safe_path_segment_def split: if_splits)
  moreover have "\<not> segment_char nl" by (simp add: segment_char_def is_alnum_def is_alpha_def is_num_def)
  ultimately have "list_all segment_char name" using assms(2) by (auto simp: re_class_iff)
  moreover have "segment_char c \<Longrightarrow> url_path_char c" for c by (auto simp: segment_char_def url_path_char_def)
  ultimately have n: "list_all url_path_char name" by (auto simp: list_all_iff)
  have "list_all url_path_char (''api/models/'' @ name @ ''/files'')"
    using n by (simp add: url_path_char_def is_alnum_def is_alpha_def is_num_def)
  moreover have "\<not> url_path_char nl" by (simp add: url_path_char_def is_alnum_def is_alpha_def is_num_def)
  ultimately show ?thesis by (auto simp: url_path_ok_def re_class_iff)
qed

lemma fetch_file_served:
  assumes "reaches pe host name" and "served pe (files_url pe name host port) f" and "free_place dk (place cache name f)"
  obtains bs dk' where "fetch_file pe cache name host port f dk = (dk', True)"
    "dk_files dk' = dset (dk_files dk) (place cache name f) (bs, pe_now pe)" "fi_sha f = JStr (pe_sha pe bs)"
    "set (dk_dirs dk') = set (dk_dirs dk) \<union> {a. starts_with (place cache name f) (a @ ''/'')}"
proof -
  from assms(2) obtain rel st bs where f: "fi_path f = JStr rel" "safe_rel rel"
      "pe_get pe (files_url pe name host port) rel = Some (st, bs)" "fi_sha f = JStr (pe_sha pe bs)"
    by (auto simp: served_def)
  have r: "is_safe_peer_host (pe_net pe) host" "is_safe_path_segment name" "nl \<notin> set name" "pe_disk pe = (\<lambda>_. DiskOk)"
    using assms(1) by (auto simp: reaches_def)
  have url: "build_safe_url (pe_net pe) (pe_int pe) ''http'' host port (''/api/models/'' @ name @ ''/files'') = Inr (files_url pe name host port)"
    using api_url_ok [OF r(2,3)] r(1) by (simp add: build_safe_url_def files_url_def)
  have pl: "place cache name f = normpath (os_join cache name) @ ''/'' @ rel" by (simp add: place_def item_rel_def f(1))
  obtain dk' where dk': "store_file DiskOk (pe_now pe) (place cache name f) bs dk = (dk', True)"
      "dk_files dk' = dset (dk_files dk) (place cache name f) (bs, pe_now pe)"
      "set (dk_dirs dk') = set (dk_dirs dk) \<union> {a. starts_with (place cache name f) (a @ ''/'')}"
    by (rule store_file_free [OF assms(3)])
  have "fetch_file pe cache name host port f dk = (dk', True)"
    using dk'(1) normpath_join [OF f(2) model_dir_comps [OF r(2), of cache]]
    unfolding fetch_file_def url by (simp add: r f safe_rel_value_def safe_rel_path_safe Let_def pl)
  then show ?thesis using dk'(2) f(4) dk'(3) by (rule that)
qed

text \<open>All entries of a list are stored, and nothing else changes.\<close>

definition holds :: "peer_env \<Rightarrow> string \<Rightarrow> string \<Rightarrow> disk \<Rightarrow> file_item \<Rightarrow> bool" where
  "holds pe cache name dk f \<longleftrightarrow>
     (\<exists>bs t. dget (dk_files dk) (place cache name f) = Some (bs, t) \<and> fi_sha f = JStr (pe_sha pe bs))"

lemma place_inj: "fi_path f = JStr a \<Longrightarrow> fi_path g = JStr b \<Longrightarrow> place cache name f = place cache name g \<longleftrightarrow> a = b"
  by (simp add: place_def item_rel_def)

lemma place_below: "starts_with (place cache name f) (place cache name g @ ''/'') = starts_with (item_rel f) (item_rel g @ ''/'')"
  by (simp add: place_def)

lemma fetch_files_served:
  assumes "reaches pe host name"
  shows "list_all (served pe (files_url pe name host port)) fs \<Longrightarrow> storable cache name fs dk \<Longrightarrow> dwf (dk_files dk) \<Longrightarrow>
    fetch_files pe cache name host port fs dk = (dk', n) \<Longrightarrow>
      n = length fs \<and> list_all (holds pe cache name dk') fs \<and> dwf (dk_files dk') \<and>
      (\<forall>p. p \<notin> place cache name ` set fs \<longrightarrow> dget (dk_files dk') p = dget (dk_files dk) p) \<and>
      set (dk_dirs dk) \<subseteq> set (dk_dirs dk') \<and> (fs \<noteq> [] \<longrightarrow> normpath (os_join cache name) \<in> set (dk_dirs dk'))"
proof (induction fs arbitrary: dk n)
  case (Cons f fs)
  then have f: "served pe (files_url pe name host port) f" "free_place dk (place cache name f)" by (auto simp: storable_def)
  from fetch_file_served [OF assms f] obtain bs dk1 where s: "fetch_file pe cache name host port f dk = (dk1, True)"
      "dk_files dk1 = dset (dk_files dk) (place cache name f) (bs, pe_now pe)" "fi_sha f = JStr (pe_sha pe bs)"
      "set (dk_dirs dk1) = set (dk_dirs dk) \<union> {a. starts_with (place cache name f) (a @ ''/'')}" .
  obtain rel where rel: "fi_path f = JStr rel" using f(1) by (auto simp: served_def)
  have other: "place cache name f \<notin> place cache name ` set fs"
  proof
    assume "place cache name f \<in> place cache name ` set fs"
    then obtain g where g: "g \<in> set fs" "place cache name f = place cache name g" by auto
    then obtain r where "fi_path g = JStr r" using Cons.prems(1) by (auto simp: list_all_iff served_def)
    then show False using place_inj [OF rel] g Cons.prems(2) rel by (auto simp: storable_def image_iff)
  qed
  have "free_place dk1 (place cache name g)" if "g \<in> set fs" for g
    using that Cons.prems(2) by (intro free_place_stored [OF _ _ _ s(2,4)]) (auto simp: storable_def place_below)
  then have "storable cache name fs dk1" using Cons.prems(2) by (auto simp: storable_def)
  moreover obtain n1 where r: "fetch_files pe cache name host port fs dk1 = (dk', n1)" "n = Suc n1"
    using Cons.prems(4) s(1,3) f(1) by (auto simp: served_def split: prod.splits if_splits)
  moreover have "dwf (dk_files dk1)" using Cons.prems(3) s(2) by simp
  ultimately have IH: "n1 = length fs \<and> list_all (holds pe cache name dk') fs \<and> dwf (dk_files dk') \<and>
      (\<forall>p. p \<notin> place cache name ` set fs \<longrightarrow> dget (dk_files dk') p = dget (dk_files dk1) p) \<and>
      set (dk_dirs dk1) \<subseteq> set (dk_dirs dk')"
    using Cons.IH [of dk1 n1] Cons.prems(1) by simp
  have "dget (dk_files dk') (place cache name f) = Some (bs, pe_now pe)" using IH other s(2) by simp
  then have "holds pe cache name dk' f" using s(3) by (auto simp: holds_def)
  moreover have "normpath (os_join cache name) \<in> set (dk_dirs dk1)" using s(4) by (auto simp: place_def)
  ultimately show ?case using IH r(2) s(2,4) by auto
qed simp

lemma path_map_distinct:
  assumes "distinct (map fi_path (mm_files m))"
  shows "path_map m = map (\<lambda>f. (fi_path f, f)) (mm_files m)"
proof -
  have fresh: "k \<notin> set (dkeys d) \<Longrightarrow> dset d k v = d @ [(k, v)]" for k :: json and v :: file_item and d
    by (induction d) auto
  have "distinct (map fi_path fs) \<Longrightarrow> fold (\<lambda>f d. dset d (fi_path f) f) fs [] = map (\<lambda>f. (fi_path f, f)) fs" for fs :: "file_item list"
  proof (induction fs rule: rev_induct)
    case (snoc f fs)
    then show ?case using fresh [of "fi_path f" "map (\<lambda>f. (fi_path f, f)) fs" f] by (simp add: comp_def)
  qed simp
  then show ?thesis using assms by (simp add: path_map_def)
qed

lemma path_map_hit:
  "distinct (map fi_path (mm_files m)) \<Longrightarrow> dget (path_map m) k = Some f \<longleftrightarrow> f \<in> set (mm_files m) \<and> fi_path f = k"
  by (auto simp: path_map_distinct map_of_eq_Some_iff comp_def)

lemma normpath_last:
  assumes "norm_comps a \<noteq> []"
  shows "normpath a \<noteq> [] \<and> last (normpath a) \<noteq> CHR ''/''"
proof -
  have plain: "w \<noteq> [] \<and> CHR ''/'' \<notin> set w" if "w \<in> set (norm_comps a)" for w
  proof -
    have "x \<in> set (fold (norm_step b) ws acc) \<Longrightarrow> x \<in> set acc \<or> x \<in> set ws" for x b ws acc
    proof (induction ws arbitrary: acc)
      case (Cons v ws)
      then show ?case using norm_step_set [of x b v acc] by (auto dest: Cons.IH)
    qed simp
    then have "w \<in> set (split_slash a)" using that by (fastforce simp: norm_comps_def)
    then show ?thesis using norm_comps_plain [OF that] split_parts by blast
  qed
  have "ws \<noteq> [] \<Longrightarrow> (\<And>w. w \<in> set ws \<Longrightarrow> w \<noteq> [] \<and> CHR ''/'' \<notin> set w) \<Longrightarrow>
      join_with (CHR ''/'') ws \<noteq> [] \<and> last (join_with (CHR ''/'') ws) \<noteq> CHR ''/''" for ws
  proof (induction ws)
    case (Cons w ws)
    then show ?case by (cases ws) (auto dest: last_in_set)
  qed simp
  from this [OF assms plain] show ?thesis
    using assms by (auto simp: normpath_def Let_def norm_comps_def norm_step_def)
qed

text \<open>The manifest of a directory has one entry for every file below it, with its hash.\<close>

lemma manifest_files:
  assumes "is_safe_path_segment name" and "pe_stat pe = (\<lambda>_. True)" and "pe_readable pe = (\<lambda>_. True)" and "dwf (dk_files dk)"
    and "normpath (os_join cache name) \<in> set (dk_dirs dk)"
  defines "m \<equiv> build_manifest pe name (os_join cache name) [] dk"
  shows "f \<in> set (mm_files m) \<longleftrightarrow>
      (\<exists>rel bs t. dget (dk_files dk) (normpath (os_join cache name) @ ''/'' @ rel) = Some (bs, t) \<and>
         f = scanned rel bs t (pe_sha pe bs))"
    and "distinct (map fi_path (mm_files m))"
proof -
  define d where "d = normpath (os_join cache name)"
  have rel: "rel_below d p = Some r \<longleftrightarrow> p = d @ ''/'' @ r" for p r
    using normpath_last [OF model_dir_comps [OF assms(1)], of cache] by (auto simp: rel_below_def Let_def prefix_def d_def)
  have files: "mm_files m = List.map_filter (scan_file pe dk d) (dk_files dk)"
    using assms(5) by (simp add: m_def build_manifest_def Let_def d_def)
  have scan: "scan_file pe dk d (p, bs, t) = Some f \<longleftrightarrow>
      (\<exists>r. p = d @ ''/'' @ r \<and> f = scanned r bs t (pe_sha pe bs))"
    if "(p, bs, t) \<in> set (dk_files dk)" for p bs t f
  proof -
    have "dget (dk_files dk) p = Some (bs, t)" using that dget_dwf_iff [OF assms(4)] by blast
    then have "scan_file pe dk d (p, bs, t) = Some f \<longleftrightarrow> (\<exists>r. rel_below d p = Some r \<and>
        f = scanned r bs t (pe_sha pe bs))"
      using assms(2,3) by (auto simp: scan_file_def compute_file_sha256_def split: option.splits)
    then show ?thesis by (simp only: rel)
  qed
  show "f \<in> set (mm_files m) \<longleftrightarrow>
      (\<exists>rel bs t. dget (dk_files dk) (normpath (os_join cache name) @ ''/'' @ rel) = Some (bs, t) \<and>
         f = scanned rel bs t (pe_sha pe bs))"
  proof -
    have "f \<in> set (mm_files m) \<longleftrightarrow> (\<exists>p bs t. (p, bs, t) \<in> set (dk_files dk) \<and> scan_file pe dk d (p, bs, t) = Some f)"
      unfolding files List.map_filter_def by (force simp: image_iff)
    then show ?thesis unfolding dget_dwf_iff [OF assms(4)] d_def [symmetric] using scan by blast
  qed
  have "distinct (map fi_path (List.map_filter (scan_file pe dk d) xs))"
    if "set xs \<subseteq> set (dk_files dk)" "distinct (map fst xs)" for xs
    using that
  proof (induction xs)
    case (Cons x xs)
    obtain p bs t where x: "x = (p, bs, t)" by (cases x)
    show ?case
    proof (cases "scan_file pe dk d x")
      case (Some g)
      then obtain r where r: "p = d @ ''/'' @ r" "fi_path g = JStr r" using scan [of p bs t g] Cons.prems(1) x by auto
      have "fi_path h \<noteq> JStr r" if h: "h \<in> set (List.map_filter (scan_file pe dk d) xs)" for h
      proof -
        from h obtain q cs u where q: "(q, cs, u) \<in> set xs" "scan_file pe dk d (q, cs, u) = Some h"
          by (auto simp: List.map_filter_def)
        then have "q \<noteq> p" using Cons.prems(2) x by (force simp: image_iff)
        moreover have "(q, cs, u) \<in> set (dk_files dk)" using q(1) Cons.prems(1) by auto
        ultimately show ?thesis using scan [of q cs u h] q(2) r(1) by auto
      qed
      then have "fi_path g \<notin> fi_path ` set (List.map_filter (scan_file pe dk d) xs)" using r(2) by (metis imageE)
      then show ?thesis using Cons Some by (simp add: List.map_filter_simps)
    qed (use Cons in \<open>auto simp: List.map_filter_simps\<close>)
  qed (simp add: List.map_filter_def)
  then show "distinct (map fi_path (mm_files m))" using assms(4) by (simp add: files dwf_def)
qed

lemma differs_iff:
  assumes "is_safe_path_segment name" and "pe_stat pe = (\<lambda>_. True)" and "pe_readable pe = (\<lambda>_. True)" and "dwf (dk_files dk)"
    and "fi_path f = JStr rel"
  shows "differs (path_map (build_manifest pe name (os_join cache name) [] dk)) f \<longleftrightarrow>
      \<not> (normpath (os_join cache name) \<in> set (dk_dirs dk) \<and> holds pe cache name dk f)"
proof (cases "normpath (os_join cache name) \<in> set (dk_dirs dk)")
  case True
  define mf where "mf = build_manifest pe name (os_join cache name) [] dk"
  note m = manifest_files [OF assms(1-4) True, folded mf_def]
  have "holds pe cache name dk f \<longleftrightarrow> (\<exists>g. dget (path_map mf) (JStr rel) = Some g \<and> fi_sha g = fi_sha f)"
    unfolding path_map_hit [OF m(2)] m(1) by (fastforce simp: holds_def place_def item_rel_def assms(5))
  then show ?thesis using True assms(5) by (auto simp: differs_def mf_def [symmetric] split: option.splits)
next
  case False
  then show ?thesis by (simp add: differs_def build_manifest_def path_map_def)
qed

lemma fetch_files_skip: "fetch_files pe cache name host port (fs @ map deleted_item ps) dk = fetch_files pe cache name host port fs dk"
proof (induction fs arbitrary: dk)
  case Nil
  show ?case by (induction ps) (simp_all add: deleted_item_def)
qed (simp add: case_prod_unfold)

text \<open>When the manifest is served, only deletions are left to differ once everything is stored.\<close>

lemma served_path: "served pe url f \<Longrightarrow> \<exists>rel. fi_path f = JStr rel"
  by (auto simp: served_def)

lemma diff_of_served:
  assumes "is_safe_path_segment name" and "pe_stat pe = (\<lambda>_. True)" and "pe_readable pe = (\<lambda>_. True)" and "dwf (dk_files dk)"
    and "list_all (served pe url) (mm_files there)" and "distinct (map fi_path (mm_files there))"
  obtains gone where "compute_sync_diff (build_manifest pe name (os_join cache name) [] dk) there =
    Inr (filter (\<lambda>f. \<not> (normpath (os_join cache name) \<in> set (dk_dirs dk) \<and> holds pe cache name dk f)) (mm_files there) @ map deleted_item gone)"
proof -
  define here where "here = build_manifest pe name (os_join cache name) [] dk"
  have "list_all (\<lambda>f. hashable (fi_path f)) (mm_files here)"
  proof (cases "normpath (os_join cache name) \<in> set (dk_dirs dk)")
    case True
    then show ?thesis using manifest_files(1) [OF assms(1-4) True] by (auto simp: list_all_iff here_def hashable_def)
  qed (simp add: here_def build_manifest_def)
  moreover have "list_all (\<lambda>f. hashable (fi_path f)) (mm_files there)"
    using assms(5) served_path by (fastforce simp: list_all_iff hashable_def)
  moreover have "filter (differs (path_map here)) (dvals (path_map there)) =
      filter (\<lambda>f. \<not> (normpath (os_join cache name) \<in> set (dk_dirs dk) \<and> holds pe cache name dk f)) (mm_files there)"
  proof -
    have "differs (path_map here) f \<longleftrightarrow> \<not> (normpath (os_join cache name) \<in> set (dk_dirs dk) \<and> holds pe cache name dk f)"
      if "f \<in> set (mm_files there)" for f
      using differs_iff [OF assms(1-4)] served_path assms(5) that unfolding here_def list_all_iff by metis
    then show ?thesis by (simp add: path_map_distinct [OF assms(6)] comp_def cong: filter_cong)
  qed
  ultimately show ?thesis by (intro that) (simp add: compute_sync_diff_def Let_def here_def)
qed


definition demo_peer :: peer_env where
  "demo_peer =
     \<lparr>pe_net = demo_env, pe_int = (\<lambda>_. ''80''), pe_get = (\<lambda>url rel. if rel = ''w'' then Some (200, [1]) else Some (404, [9])),
      pe_disk = (\<lambda>_. DiskOk), pe_sha = bytes_hex, pe_readable = (\<lambda>_. True), pe_stat = (\<lambda>_. True), pe_now = 5\<rparr>"

definition demo_disk :: disk where
  "demo_disk = \<lparr>dk_files = [(''/c/m/w'', ([2], 1)), (''/c/m/gone'', ([3], 1))], dk_dirs = [''/c'', ''/c/m'']\<rparr>"

definition demo_there :: "string \<Rightarrow> model_manifest" where
  "demo_there p =
     \<lparr>mm_name = JStr ''m'', mm_id = JStr [], mm_files = [\<lparr>fi_path = JStr p, fi_size = JInt 1, fi_sha = JStr (bytes_hex [1]), fi_modified = JReal 0\<rparr>],
      mm_total = JInt 1, mm_created = JReal 0\<rparr>"

lemma demo_reaches: "reaches demo_peer ''node-1'' ''m''"
proof -
  have "is_safe_peer_host demo_env ''node-1'' \<and> is_safe_path_segment ''m'' \<and> nl \<notin> set ''m''" by code_simp
  then show ?thesis by (simp add: reaches_def demo_peer_def)
qed

lemma demo_place: "normpath (os_join ''/c'' ''m'') = ''/c/m''"
  by (simp add: os_join_def normpath_def norm_comps_def norm_step_def)


text \<open>The status of an answer and the hash of what was received are not looked at: a page of an error is stored
  as the file and counted as synchronised.\<close>

lemma error_page_is_stored:
  "let (dk', r) = incremental_sync demo_peer ''/c'' ''m'' (demo_there ''x'') ''node-1'' 80 demo_disk
   in dget (dk_files dk') ''/c/m/x'' = Some ([9], 5) \<and> r = Inr (Synced 1 3)"
  by code_simp

text \<open>What the manifest of the peer no longer names stays on the disk and in every later difference.\<close>

lemma deleted_files_stay:
  "let (dk', _) = incremental_sync demo_peer ''/c'' ''m'' (demo_there ''w'') ''node-1'' 80 demo_disk
   in dget (dk_files dk') ''/c/m/gone'' = Some ([3], 1) \<and>
      snd (incremental_sync demo_peer ''/c'' ''m'' (demo_there ''w'') ''node-1'' 80 dk') = Inr (Synced 0 1)"
  by code_simp

subsection \<open>Partitions\<close>

datatype pd_op = Beat time string | Check time | PdStart | PdStop

fun pd_step :: "pd_op \<Rightarrow> detector \<Rightarrow> detector \<times> pd_event list" where
  "pd_step (Beat now nid) pd = detector_heartbeat now nid pd"
| "pd_step (Check now) pd = check_partition now pd"
| "pd_step PdStart pd = (detector_start pd, [])"
| "pd_step PdStop pd = (detector_stop pd, [])"

fun pd_run :: "pd_op list \<Rightarrow> detector \<Rightarrow> detector \<times> pd_event list" where
  "pd_run [] pd = (pd, [])"
| "pd_run (op # ops) pd =
     (let (pd1, es) = pd_step op pd; (pd2, fs) = pd_run ops pd1 in (pd2, es @ fs))"

text \<open>Callbacks in turn, beginning with a partition; the result is whether the last was one.\<close>

fun in_turn :: "bool \<Rightarrow> pd_event list \<Rightarrow> bool option" where
  "in_turn d [] = Some d"
| "in_turn d (OnPartition ns # es) = (if d \<or> ns = [] then None else in_turn True es)"
| "in_turn d (OnReconnect # es) = (if d then in_turn False es else None)"

lemma in_turn_append: "in_turn d (es @ fs) = (case in_turn d es of None \<Rightarrow> None | Some d' \<Rightarrow> in_turn d' fs)"
  by (induction d es rule: in_turn.induct) simp_all

lemma pd_step_in_turn:
  assumes "pd_step op pd = (pd', es)" and "pd_on_partition pd" and "pd_on_reconnect pd"
    and "pd_state pd = (if pd_degraded pd then PPartitioned else PConnected)"
  shows "in_turn (pd_degraded pd) es = Some (pd_degraded pd') \<and> pd_on_partition pd' \<and> pd_on_reconnect pd' \<and>
         pd_state pd' = (if pd_degraded pd' then PPartitioned else PConnected)"
  using assms
  by (cases op) (auto simp: detector_heartbeat_def check_partition_def reconnected_def detector_start_def detector_stop_def Let_def
      split: if_splits)

text \<open>Whatever heartbeats and checks a detector sees, its callbacks come in turn, a partition with at least one
  silent node first, and it is degraded exactly between a partition and the next reconnection; the state
  that stands for a part of the nodes is never entered.\<close>

theorem partition_callbacks_in_turn:
  "let (pd, es) = pd_run ops (register_callbacks True True (detector_init nid timeout))
   in in_turn False es = Some (pd_degraded pd) \<and> pd_state pd = (if pd_degraded pd then PPartitioned else PConnected)"
proof -
  have "in_turn (pd_degraded pd) es = Some (pd_degraded pd') \<and> pd_state pd' = (if pd_degraded pd' then PPartitioned else PConnected)"
    if "pd_run ops pd = (pd', es)" "pd_on_partition pd" "pd_on_reconnect pd"
      "pd_state pd = (if pd_degraded pd then PPartitioned else PConnected)" for pd pd' es
    using that
  proof (induction ops arbitrary: pd es)
    case (Cons op ops)
    obtain pd1 es1 where s: "pd_step op pd = (pd1, es1)" by (cases "pd_step op pd")
    obtain es2 where r: "pd_run ops pd1 = (pd', es2)" "es = es1 @ es2" using Cons.prems(1) s by (auto split: prod.splits)
    show ?case using pd_step_in_turn [OF s Cons.prems(2-4)] Cons.IH [OF r(1)] r(2) by (simp add: in_turn_append)
  qed simp
  from this [of "register_callbacks True True (detector_init nid timeout)"] show ?thesis
    by (auto simp: register_callbacks_def detector_init_def)
qed

text \<open>The heartbeat of any node ends the degraded state, also while another node is still silent.\<close>

lemma one_heartbeat_hides_a_partition:
  "let pd0 = register_callbacks True True (detector_init ''n'' 30);
       (pd, es) = pd_run [Beat 0 ''a'', Beat 0 ''b'', Check 40, Beat 41 ''a''] pd0
   in es = [OnPartition [''a'', ''b''], OnReconnect] \<and> pd_state pd = PConnected \<and> silent_nodes 41 pd = [''b'']"
  by (simp add: register_callbacks_def detector_init_def detector_heartbeat_def check_partition_def silent_nodes_def reconnected_def)

end
