(* ===== verification/Checkpoints.thy ===== *)
theory Checkpoints
  imports FmpCodec Paths
begin

text \<open>
  Checkpoints of tasks (\<open>storage/checkpoint.py\<close>): the table in memory, one file for every checkpoint below the
  directory of its task, the search for the latest, and the clean-up.  A file is the JSON value it holds, or
  \<open>None\<close> when its text is not JSON; directories are listed in the order of the map.  Identifiers are taken as
  they are, so paths are texts; the properties are about identifiers that are plain names.
\<close>

subsection \<open>The manager\<close>

record ck_entry =
  ck_id :: string
  ck_task :: string
  ck_node :: string
  ck_step :: int
  ck_state :: "(string, json) dict"
  ck_created :: real
  ck_size :: nat
  ck_meta :: "(string, json) dict"

record ck_manager =
  cm_dir :: string
  cm_max :: int
  cm_ttl :: real
  cm_entries :: "(string, ck_entry) dict"

record ck_disk =
  cd_files :: "(string, json option) dict"
  cd_dirs :: "string list"

definition ck_init :: "string \<Rightarrow> string \<Rightarrow> int \<Rightarrow> real \<Rightarrow> ck_manager" where
  "ck_init home dir mx ttl = \<lparr>cm_dir = str_or dir (home @ ''/.fusion/checkpoints''), cm_max = mx, cm_ttl = ttl, cm_entries = []\<rparr>"

definition task_dir :: "ck_manager \<Rightarrow> string \<Rightarrow> string" where
  "task_dir m t = os_join (cm_dir m) t"

definition ck_file :: "ck_manager \<Rightarrow> string \<Rightarrow> string \<Rightarrow> string" where
  "ck_file m t i = os_join (task_dir m t) (i @ ''.json'')"

definition ck_json :: "ck_entry \<Rightarrow> json" where
  "ck_json e =
     JObj [(''checkpoint_id'', JStr (ck_id e)), (''task_id'', JStr (ck_task e)), (''node_id'', JStr (ck_node e)),
           (''step'', JInt (ck_step e)), (''state_data'', JObj (ck_state e)), (''created_at'', JReal (ck_created e)),
           (''metadata'', JObj (ck_meta e))]"

definition ck_parse :: "json \<Rightarrow> py_error + ck_entry" where
  "ck_parse v =
     (case v of
        JObj d \<Rightarrow>
          and_then (need as_text d ''checkpoint_id'') (\<lambda>i. and_then (need as_text d ''task_id'') (\<lambda>t.
          and_then (need as_text d ''node_id'') (\<lambda>n. and_then (need as_int d ''step'') (\<lambda>s.
          and_then (want as_obj d ''state_data'' []) (\<lambda>st. and_then (want as_real d ''created_at'' 0) (\<lambda>c.
          and_then (want as_obj d ''metadata'' []) (\<lambda>me.
            Inr \<lparr>ck_id = i, ck_task = t, ck_node = n, ck_step = s, ck_state = st, ck_created = c, ck_size = 0, ck_meta = me\<rparr>)))))))
      | _ \<Rightarrow> Inl (TypeErrorPy ''checkpoint''))"

definition stored :: "ck_entry \<Rightarrow> ck_entry" where
  "stored e = e\<lparr>ck_size := 0\<rparr>"

lemma ck_parse_json: "ck_parse (ck_json e) = Inr (stored e)"
  by (simp add: ck_parse_def ck_json_def stored_def field_simps_fmp)

interpretation checkpoint_wire: wire_format ck_json "\<lambda>v. value_of (ck_parse v)" stored
  by unfold_locales (simp add: ck_parse_json)

text \<open>\<open>works\<close> says which files the system unlinks.\<close>

definition ck_delete :: "(string \<Rightarrow> bool) \<Rightarrow> string \<Rightarrow> ck_manager \<times> ck_disk \<Rightarrow> (ck_manager \<times> ck_disk) \<times> bool" where
  "ck_delete works i s =
     (case s of (m, dk) \<Rightarrow>
        (case dget (cm_entries m) i of
           None \<Rightarrow> (s, False)
         | Some e \<Rightarrow>
             (let m1 = m\<lparr>cm_entries := dpop (cm_entries m) i\<rparr>; p = ck_file m (ck_task e) i
              in if dget (cd_files dk) p = None then ((m1, dk), True)
                 else if works p then ((m1, dk\<lparr>cd_files := dpop (cd_files dk) p\<rparr>), True)
                 else ((m1, dk), False))))"

definition ck_cleanup :: "(string \<Rightarrow> bool) \<Rightarrow> ck_manager \<times> ck_disk \<Rightarrow> ck_manager \<times> ck_disk" where
  "ck_cleanup works s =
     (let es = cm_entries (fst s); mx = cm_max (fst s)
      in if int (length es) \<le> mx then s
         else fold (\<lambda>e s. fst (ck_delete works (ck_id e) s))
                (take (nat (int (length es) - mx)) (sort_key ck_created (dvals es))) s)"

text \<open>How far a save gets: the directory cannot be made, the file cannot be opened, the text breaks off after the file
  was truncated, or all is written.  What a broken write leaves is the beginning of the text of an object, which is
  not JSON.\<close>

datatype ck_write = NoDirectory | NotOpened | CutOff | Written

text \<open>\<open>size_of\<close> is the length of the encoded text of a value.\<close>

definition ck_save ::
  "real \<Rightarrow> ck_write \<Rightarrow> (string \<Rightarrow> bool) \<Rightarrow> (json \<Rightarrow> nat) \<Rightarrow> ck_entry \<Rightarrow> ck_manager \<times> ck_disk \<Rightarrow> (ck_manager \<times> ck_disk) \<times> bool" where
  "ck_save now wr works size_of e s =
     (case s of (m, dk) \<Rightarrow>
        let e1 = e\<lparr>ck_created := (if ck_created e = 0 then now else ck_created e)\<rparr>;
            v = ck_json e1; p = ck_file m (ck_task e1) (ck_id e1);
            made = dk\<lparr>cd_dirs := sadd (task_dir m (ck_task e1)) (cd_dirs dk)\<rparr>
        in case wr of
             NoDirectory \<Rightarrow> (s, False)
           | NotOpened \<Rightarrow> ((m, made), False)
           | CutOff \<Rightarrow> ((m, made\<lparr>cd_files := dset (cd_files dk) p None\<rparr>), False)
           | Written \<Rightarrow>
               (let e2 = e1\<lparr>ck_size := size_of v\<rparr>
                in (ck_cleanup works (m\<lparr>cm_entries := dset (cm_entries m) (ck_id e2) e2\<rparr>,
                                      made\<lparr>cd_files := dset (cd_files dk) p (Some v)\<rparr>), True)))"

definition load_from_file :: "json option \<Rightarrow> ck_manager \<Rightarrow> ck_manager \<times> ck_entry option" where
  "load_from_file c m =
     (case c of
        None \<Rightarrow> (m, None)
      | Some v \<Rightarrow>
          (case ck_parse v of
             Inl _ \<Rightarrow> (m, None)
           | Inr e \<Rightarrow> (m\<lparr>cm_entries := dset (cm_entries m) (ck_id e) e\<rparr>, Some e)))"

text \<open>\<open>load\<close>: the table first, then the directories; a missing base directory raises.\<close>

definition ck_load :: "string \<Rightarrow> bool \<Rightarrow> ck_disk \<Rightarrow> ck_manager \<Rightarrow> py_error + (ck_manager \<times> ck_entry option)" where
  "ck_load i base dk m =
     (case dget (cm_entries m) i of
        Some e \<Rightarrow> Inr (m, Some e)
      | None \<Rightarrow>
          if \<not> base then Inl (RuntimeError ''FileNotFoundError'')
          else case find (\<lambda>d. dget (cd_files dk) (os_join d (i @ ''.json'')) \<noteq> None) (cd_dirs dk) of
                 None \<Rightarrow> Inr (m, None)
               | Some d \<Rightarrow> Inr (load_from_file (the (dget (cd_files dk) (os_join d (i @ ''.json'')))) m))"

text \<open>\<open>task_dir.glob("*.json")\<close>.\<close>

definition json_in :: "string \<Rightarrow> string \<Rightarrow> bool" where
  "json_in d p \<longleftrightarrow> starts_with p (os_join d []) \<and> (let n = drop (length (os_join d [])) p in CHR ''/'' \<notin> set n \<and> suffix ''.json'' n)"

fun load_files :: "json option list \<Rightarrow> ck_manager \<Rightarrow> ck_manager \<times> ck_entry list" where
  "load_files [] m = (m, [])"
| "load_files (c # cs) m =
     (let (m1, r) = load_from_file c m; (m2, es) = load_files cs m1
      in (m2, case r of None \<Rightarrow> es | Some e \<Rightarrow> e # es))"

definition load_latest :: "string \<Rightarrow> ck_disk \<Rightarrow> ck_manager \<Rightarrow> ck_manager \<times> ck_entry option" where
  "load_latest t dk m =
     (if task_dir m t \<notin> set (cd_dirs dk)
      then (m, first_min (\<lambda>e. - ck_step e) (filter (\<lambda>e. ck_task e = t) (dvals (cm_entries m))))
      else let (m1, es) = load_files (map snd (filter (\<lambda>(p, _). json_in (task_dir m t) p) (cd_files dk))) m
           in (m1, first_min (\<lambda>e. - ck_step e) es))"

definition list_by_task :: "string \<Rightarrow> ck_manager \<Rightarrow> ck_entry list" where
  "list_by_task t m = sort_key ck_step (filter (\<lambda>e. ck_task e = t) (dvals (cm_entries m)))"

definition ck_stats :: "ck_manager \<Rightarrow> nat \<times> nat \<times> nat" where
  "ck_stats m =
     (length (cm_entries m), sum_list (map ck_size (dvals (cm_entries m))),
      length (remdups (map ck_task (dvals (cm_entries m)))))"

subsection \<open>The table stays within its bound\<close>

lemma delete_entries: "cm_entries (fst (fst (ck_delete works i s))) = dpop (cm_entries (fst s)) i"
  by (auto simp: ck_delete_def case_prod_unfold Let_def dget_None_iff split: option.splits)

definition own_keys :: "(string, ck_entry) dict \<Rightarrow> bool" where
  "own_keys d \<longleftrightarrow> dwf d \<and> (\<forall>i e. dget d i = Some e \<longrightarrow> ck_id e = i)"

lemma own_keys_dset: "own_keys d \<Longrightarrow> own_keys (dset d (ck_id e) e)"
  by (auto simp: own_keys_def)

lemma own_keys_dpop: "own_keys d \<Longrightarrow> own_keys (dpop d i)"
  by (auto simp: own_keys_def split: if_splits)

lemma cleanup_entries:
  assumes "own_keys (cm_entries (fst s))" and "0 \<le> cm_max (fst s)"
  shows "int (length (cm_entries (fst (ck_cleanup works s)))) \<le> cm_max (fst s)"
proof -
  let ?es = "cm_entries (fst s)"
  define del where "del = take (nat (int (length ?es) - cm_max (fst s))) (sort_key ck_created (dvals ?es))"
  have popped: "cm_entries (fst (fold (\<lambda>e s. fst (ck_delete works (ck_id e) s)) xs s)) = fold (\<lambda>e d. dpop d (ck_id e)) xs (cm_entries (fst s))"
    for xs s by (induction xs arbitrary: s) (simp_all add: delete_entries)
  have len: "length (fold (\<lambda>e d. dpop d (ck_id e)) xs d) + length xs = length d"
    if "distinct (map ck_id xs)" "ck_id ` set xs \<subseteq> set (dkeys d)" "dwf d" for xs and d :: "(string, ck_entry) dict"
    using that
  proof (induction xs arbitrary: d)
    case (Cons x xs)
    then have "ck_id ` set xs \<subseteq> set (dkeys (dpop d (ck_id x)))" unfolding dkeys_dpop by (auto simp: image_iff)
    moreover have "ck_id x \<in> set (dkeys d)" using Cons.prems by simp
    moreover have "0 < length d" using calculation(2) by auto
    ultimately show ?case using Cons.IH [of "dpop d (ck_id x)"] Cons.prems length_dpop [of d "ck_id x"] by simp
  qed simp
  have ids: "map ck_id (dvals ?es) = dkeys ?es"
    using assms(1) by (auto simp: own_keys_def dget_dwf_iff)
  have "mset (map ck_id (sort_key ck_created (dvals ?es))) = mset (map ck_id (dvals ?es))"
    by (simp only: mset_map mset_sort)
  then have "mset (map ck_id (sort_key ck_created (dvals ?es))) = mset (dkeys ?es)" unfolding ids .
  from mset_eq_imp_distinct_iff [OF this]
  have all: "distinct (map ck_id (sort_key ck_created (dvals ?es)))" using assms(1) by (simp add: own_keys_def dwf_def)
  have keys: "ck_id ` set (dvals ?es) = set (dkeys ?es)" unfolding ids [symmetric] list.set_map ..
  have "distinct (map ck_id del)" using all by (simp add: del_def take_map [symmetric])
  moreover have "ck_id ` set del \<subseteq> set (dkeys ?es)" unfolding keys [symmetric] using set_take_subset [of _ "sort_key ck_created (dvals ?es)"] by (fastforce simp: del_def)
  ultimately have "length (fold (\<lambda>e d. dpop d (ck_id e)) del ?es) + length del = length ?es"
    using assms(1) by (intro len) (simp_all add: own_keys_def)
  then show ?thesis using assms(2) by (auto simp: ck_cleanup_def Let_def popped del_def)
qed

subsection \<open>What is in the table is on the disk\<close>

definition plain_id :: "string \<Rightarrow> bool" where
  "plain_id i \<longleftrightarrow> i \<noteq> [] \<and> CHR ''/'' \<notin> set i"

lemma plain_join: "plain_id t \<Longrightarrow> os_join d t = os_join d [] @ t"
  by (cases t) (auto simp: os_join_def plain_id_def)

lemma plain_dir: "plain_id t \<Longrightarrow> os_join (os_join d t) [] = (os_join d [] @ t) @ ''/''"
proof -
  assume t: "plain_id t"
  then have "last t \<noteq> CHR ''/''" by (metis last_in_set plain_id_def)
  then show ?thesis using t plain_join [OF t, of d] by (simp add: os_join_def [of "_ @ _"] plain_id_def)
qed

lemma ck_file_plain: "plain_id t \<Longrightarrow> ck_file m t i = os_join (cm_dir m) [] @ t @ ''/'' @ i @ ''.json''" if "plain_id i"
proof -
  assume t: "plain_id t"
  have "plain_id (i @ ''.json'')" using that by (simp add: plain_id_def)
  then show ?thesis using plain_join [of "i @ ''.json''" "task_dir m t"] plain_dir [OF t] by (simp add: ck_file_def task_dir_def)
qed

lemma ck_file_inj:
  assumes "plain_id t" "plain_id i" "plain_id t'" "plain_id i'" and "ck_file m t i = ck_file m t' i'"
  shows "t = t' \<and> i = i'"
proof -
  have "(os_join (cm_dir m) [] @ t) @ CHR ''/'' # (i @ ''.json'') = (os_join (cm_dir m) [] @ t') @ CHR ''/'' # (i' @ ''.json'')"
    using assms by (simp add: ck_file_plain)
  from after_last [OF _ _ this] show ?thesis using assms(2,4) by (auto simp: plain_id_def)
qed

lemma json_in_file:
  assumes "plain_id t" "plain_id i" "plain_id t'"
  shows "json_in (task_dir m t') (ck_file m t i) \<longleftrightarrow> t = t'"
proof -
  have d: "os_join (task_dir m t') [] = (os_join (cm_dir m) [] @ t') @ ''/''"
    using plain_dir [OF assms(3)] by (simp add: task_dir_def)
  have f: "ck_file m t i = (os_join (cm_dir m) [] @ t) @ CHR ''/'' # (i @ ''.json'')"
    using assms by (simp add: ck_file_plain)
  show ?thesis
  proof
    assume j: "json_in (task_dir m t') (ck_file m t i)"
    then obtain n where n: "ck_file m t i = (os_join (cm_dir m) [] @ t') @ CHR ''/'' # n" "CHR ''/'' \<notin> set n"
      by (auto simp: json_in_def d prefix_def)
    from after_last [OF _ n(2), of "i @ ''.json''"] n(1) f show "t = t'" using assms(2) by (simp add: plain_id_def)
  next
    assume "t = t'"
    then show "json_in (task_dir m t') (ck_file m t i)" using f assms(2) by (simp add: json_in_def d plain_id_def suffix_def)
  qed
qed

text \<open>Every file is the file of a checkpoint or broke off, and every checkpoint of the table has its file.\<close>

definition filed :: "ck_manager \<Rightarrow> ck_disk \<Rightarrow> bool" where
  "filed m dk \<longleftrightarrow>
     dwf (cd_files dk) \<and>
     (\<forall>p c. dget (cd_files dk) p = Some c \<longrightarrow>
        (\<exists>e. plain_id (ck_task e) \<and> plain_id (ck_id e) \<and> p = ck_file m (ck_task e) (ck_id e) \<and> c \<in> {None, Some (ck_json e)} \<and>
           task_dir m (ck_task e) \<in> set (cd_dirs dk)))"

lemma filedD:
  "filed m dk \<Longrightarrow> dget (cd_files dk) p = Some c \<Longrightarrow>
    \<exists>e :: ck_entry. plain_id (ck_task e) \<and> plain_id (ck_id e) \<and> p = ck_file m (ck_task e) (ck_id e) \<and> c \<in> {None, Some (ck_json e)} \<and>
      task_dir m (ck_task e) \<in> set (cd_dirs dk)"
  unfolding filed_def by blast

definition tabled :: "ck_manager \<Rightarrow> ck_disk \<Rightarrow> bool" where
  "tabled m dk \<longleftrightarrow>
     own_keys (cm_entries m) \<and>
     (\<forall>i e. dget (cm_entries m) i = Some e \<longrightarrow>
        plain_id (ck_task e) \<and> plain_id i \<and>
        dget (cd_files dk) (ck_file m (ck_task e) i) \<in> {Some None, Some (Some (ck_json e))})"

lemma ck_file_dir: "cm_dir m' = cm_dir m \<Longrightarrow> ck_file m' = ck_file m \<and> task_dir m' = task_dir m"
  by (auto simp: ck_file_def task_dir_def fun_eq_iff)

lemma delete_keeps:
  assumes "filed m dk" and "tabled m dk" and "ck_delete works i (m, dk) = ((m', dk'), r)"
  shows "filed m' dk' \<and> tabled m' dk' \<and> cm_dir m' = cm_dir m"
proof (cases "dget (cm_entries m) i")
  case None
  then show ?thesis using assms by (simp add: ck_delete_def)
next
  case (Some e)
  define m1 where "m1 = m\<lparr>cm_entries := dpop (cm_entries m) i\<rparr>"
  have same: "ck_file m1 = ck_file m" "task_dir m1 = task_dir m" using ck_file_dir [of m1 m] by (auto simp: m1_def)
  have e: "plain_id (ck_task e)" "plain_id i" using assms(2) Some by (auto simp: tabled_def)
  have own: "own_keys (cm_entries m1)" using assms(2) by (simp add: tabled_def own_keys_dpop m1_def)
  have stays: "filed m1 dk" using assms(1) by (simp add: filed_def same)
  have r: "m' = m1" "dk' = dk \<or> dk' = dk\<lparr>cd_files := dpop (cd_files dk) (ck_file m (ck_task e) i)\<rparr>"
    using assms(3) Some by (auto simp: ck_delete_def Let_def m1_def split: if_splits)
  have "filed m1 (dk\<lparr>cd_files := dpop (cd_files dk) (ck_file m (ck_task e) i)\<rparr>)"
    using stays unfolding filed_def by (auto simp: same)
  then have "filed m' dk'" using r stays by auto
  moreover have other: "ck_file m (ck_task e') j \<noteq> ck_file m (ck_task e) i"
    if "j \<noteq> i" "dget (cm_entries m) j = Some e'" for j e'
    using that ck_file_inj [of "ck_task e'" j "ck_task e" i m] e assms(2) by (auto simp: tabled_def)
  have "plain_id (ck_task x) \<and> plain_id j \<and> dget (cd_files dk') (ck_file m (ck_task x) j) \<in> {Some None, Some (Some (ck_json x))}"
    if "dget (cm_entries m1) j = Some x" for j x
  proof -
    have j: "j \<noteq> i" "dget (cm_entries m) j = Some x" using that by (simp_all add: m1_def split: if_splits)
    have "dget (cd_files dk') (ck_file m (ck_task x) j) = dget (cd_files dk) (ck_file m (ck_task x) j)"
      using r(2) other [OF j] by auto
    then show ?thesis using assms(2) j(2) by (simp add: tabled_def)
  qed
  then have "tabled m' dk'" using own unfolding tabled_def r(1) same by blast
  ultimately show ?thesis by (simp add: r(1) m1_def)
qed

lemma cleanup_keeps:
  assumes "filed m dk" and "tabled m dk" and "ck_cleanup works (m, dk) = (m', dk')"
  shows "filed m' dk' \<and> tabled m' dk' \<and> cm_dir m' = cm_dir m"
proof -
  have step: "case fold (\<lambda>e s. fst (ck_delete works (ck_id e) s)) xs (m, dk) of (m', dk') \<Rightarrow>
      filed m' dk' \<and> tabled m' dk' \<and> cm_dir m' = cm_dir m" if "filed m dk" "tabled m dk" for xs m dk
    using that
  proof (induction xs arbitrary: m dk)
    case (Cons x xs)
    obtain m1 dk1 r where d: "ck_delete works (ck_id x) (m, dk) = ((m1, dk1), r)" by (metis surj_pair)
    then show ?case using delete_keeps [OF Cons.prems d] Cons.IH [of m1 dk1] by auto
  qed simp
  show ?thesis
  proof (cases "int (length (cm_entries m)) \<le> cm_max m")
    case True
    then show ?thesis using assms by (simp add: ck_cleanup_def)
  next
    case False
    then show ?thesis
      using assms(3) step [OF assms(1,2), of "take (nat (int (length (cm_entries m)) - cm_max m)) (sort_key ck_created (dvals (cm_entries m)))"]
      by (simp add: ck_cleanup_def Let_def)
  qed
qed

text \<open>A file put in place for a checkpoint, whole or broken off.\<close>

lemma filed_put:
  assumes "filed m dk" and "plain_id (ck_task e)" "plain_id (ck_id e)" and "c \<in> {None, Some (ck_json e)}"
  shows "filed m \<lparr>cd_files = dset (cd_files dk) (ck_file m (ck_task e) (ck_id e)) c,
                  cd_dirs = sadd (task_dir m (ck_task e)) (cd_dirs dk)\<rparr>"
  using assms unfolding filed_def by (auto split: if_splits; blast)

lemma tabled_others:
  assumes "tabled m dk" and "plain_id t" "plain_id i" and "dget (cm_entries m) j = Some x" and "(ck_task x, j) \<noteq> (t, i)"
  shows "dget (dset (cd_files dk) (ck_file m t i) c) (ck_file m (ck_task x) j) \<in> {Some None, Some (Some (ck_json x))}"
proof -
  have p: "plain_id (ck_task x)" "plain_id j" using assms(1,4) by (auto simp: tabled_def)
  then have "ck_file m (ck_task x) j \<noteq> ck_file m t i" using ck_file_inj [OF p assms(2,3)] assms(5) by blast
  then show ?thesis using assms(1,4) by (auto simp: tabled_def)
qed

lemma save_keeps:
  assumes "filed m dk" and "tabled m dk" and "ck_save now wr works size_of e (m, dk) = ((m', dk'), r)"
    and "plain_id (ck_task e)" and "plain_id (ck_id e)"
  shows "filed m' dk' \<and> tabled m' dk' \<and> cm_dir m' = cm_dir m"
proof -
  define e1 where "e1 = e\<lparr>ck_created := (if ck_created e = 0 then now else ck_created e)\<rparr>"
  have p: "plain_id (ck_task e1)" "plain_id (ck_id e1)" using assms(4,5) by (simp_all add: e1_def)
  let ?dk = "\<lambda>c. \<lparr>cd_files = dset (cd_files dk) (ck_file m (ck_task e1) (ck_id e1)) c,
                  cd_dirs = sadd (task_dir m (ck_task e1)) (cd_dirs dk)\<rparr>"
  show ?thesis
  proof (cases wr)
    case NoDirectory
    then show ?thesis using assms by (simp add: ck_save_def Let_def)
  next
    case NotOpened
    then have "m' = m" "dk' = dk\<lparr>cd_dirs := sadd (task_dir m (ck_task e1)) (cd_dirs dk)\<rparr>"
      using assms(3) by (auto simp: ck_save_def Let_def e1_def)
    then show ?thesis using assms(1,2) by (auto simp: filed_def tabled_def; blast)
  next
    case CutOff
    then have r: "m' = m" "dk' = ?dk None" using assms(3) by (cases dk; auto simp: ck_save_def Let_def e1_def)+
    have "dget (cd_files dk') (ck_file m (ck_task x) j) \<in> {Some None, Some (Some (ck_json x))}"
      if "dget (cm_entries m) j = Some x" for j x
      using tabled_others [OF assms(2) p that, of None] by (cases "(ck_task x, j) = (ck_task e1, ck_id e1)") (auto simp: r)
    then have "tabled m' dk'" using assms(2) unfolding tabled_def r(1) by blast
    then show ?thesis using filed_put [OF assms(1) p, of None] by (simp add: r)
  next
    case Written
    define e2 where "e2 = e1\<lparr>ck_size := size_of (ck_json e1)\<rparr>"
    define m1 where "m1 = m\<lparr>cm_entries := dset (cm_entries m) (ck_id e2) e2\<rparr>"
    have c: "ck_cleanup works (m1, ?dk (Some (ck_json e1))) = (m', dk')"
      using assms(3) Written by (cases dk) (simp add: ck_save_def Let_def e2_def e1_def m1_def)
    have same: "ck_file m1 = ck_file m" "task_dir m1 = task_dir m" using ck_file_dir [of m1 m] by (auto simp: m1_def)
    have e: "ck_json e2 = ck_json e1" "ck_task e2 = ck_task e1" "ck_id e2 = ck_id e1" by (simp_all add: e2_def ck_json_def)
    have "filed m1 (?dk (Some (ck_json e1)))" using filed_put [OF assms(1) p, of "Some (ck_json e1)"] by (simp add: filed_def same)
    moreover have "plain_id (ck_task x) \<and> plain_id j \<and>
        dget (cd_files (?dk (Some (ck_json e1)))) (ck_file m (ck_task x) j) \<in> {Some None, Some (Some (ck_json x))}"
      if x: "dget (cm_entries m1) j = Some x" for j x
    proof (cases "j = ck_id e1")
      case True
      then show ?thesis using x e p by (auto simp: m1_def)
    next
      case False
      then have o: "dget (cm_entries m) j = Some x" using x e(3) by (simp add: m1_def)
      then show ?thesis using tabled_others [OF assms(2) p o] False assms(2) by (auto simp: tabled_def)
    qed
    then have "tabled m1 (?dk (Some (ck_json e1)))"
      unfolding tabled_def same using assms(2) by (simp add: m1_def tabled_def own_keys_dset)
    ultimately show ?thesis using cleanup_keeps [OF _ _ c] by (simp add: m1_def)
  qed
qed

lemma load_file_keeps:
  assumes "filed m dk" and "tabled m dk" and "dget (cd_files dk) p = Some c" and "load_from_file c m = (m', r)"
  shows "filed m' dk \<and> tabled m' dk \<and> cm_dir m' = cm_dir m \<and> c = map_option ck_json r \<and>
         (\<forall>e. r = Some e \<longrightarrow> p = ck_file m (ck_task e) (ck_id e) \<and> plain_id (ck_task e) \<and> plain_id (ck_id e))"
proof -
  obtain e :: ck_entry where e: "plain_id (ck_task e)" "plain_id (ck_id e)" "p = ck_file m (ck_task e) (ck_id e)"
      "c \<in> {None, Some (ck_json e)}"
    using filedD [OF assms(1,3)] by blast
  show ?thesis
  proof (cases c)
    case None
    then show ?thesis using assms by (simp add: load_from_file_def)
  next
    case (Some v)
    then have c: "c = Some (ck_json e)" using e(4) by simp
    have r: "r = Some (stored e)" "m' = m\<lparr>cm_entries := dset (cm_entries m) (ck_id e) (stored e)\<rparr>"
      using assms(4) c by (auto simp: load_from_file_def ck_parse_json stored_def)
    have same: "ck_file m' = ck_file m" "task_dir m' = task_dir m" using ck_file_dir [of m' m] r(2) by auto
    have s: "ck_json (stored e) = ck_json e" "ck_task (stored e) = ck_task e" "ck_id (stored e) = ck_id e"
      by (simp_all add: ck_json_def stored_def)
    have "own_keys (cm_entries m')" using assms(2) own_keys_dset [of "cm_entries m" "stored e"] r(2) s(3) by (simp add: tabled_def)
    then have "tabled m' dk"
      using assms(2,3) e c s unfolding tabled_def same by (auto simp: r(2) split: if_splits)
    moreover have "filed m' dk" using assms(1) by (simp add: filed_def same)
    ultimately show ?thesis using r e c s by auto
  qed
qed

subsection \<open>Restarting from the latest checkpoint\<close>

datatype ck_op =
    OpSave real ck_write "string \<Rightarrow> bool" "json \<Rightarrow> nat" ck_entry
  | OpDelete "string \<Rightarrow> bool" string
  | OpLoad string bool
  | OpLatest string

fun ck_exec :: "ck_op \<Rightarrow> ck_manager \<times> ck_disk \<Rightarrow> ck_manager \<times> ck_disk" where
  "ck_exec (OpSave now writes works size_of e) s = fst (ck_save now writes works size_of e s)"
| "ck_exec (OpDelete works i) s = fst (ck_delete works i s)"
| "ck_exec (OpLoad i base) (m, dk) = (case ck_load i base dk m of Inl _ \<Rightarrow> (m, dk) | Inr (m1, _) \<Rightarrow> (m1, dk))"
| "ck_exec (OpLatest t) (m, dk) = (fst (load_latest t dk m), dk)"

fun plain_ck_op :: "ck_op \<Rightarrow> bool" where
  "plain_ck_op (OpSave now writes works size_of e) = (plain_id (ck_task e) \<and> plain_id (ck_id e))"
| "plain_ck_op (OpLatest t) = plain_id t"
| "plain_ck_op _ = True"

lemma load_files_keeps:
  assumes "filed m dk" and "tabled m dk" and "\<And>c. c \<in> set cs \<Longrightarrow> \<exists>p. dget (cd_files dk) p = Some c" and "load_files cs m = (m', es)"
  shows "filed m' dk \<and> tabled m' dk \<and> cm_dir m' = cm_dir m \<and>
         map (\<lambda>e. Some (ck_json e)) es = filter (\<lambda>c. c \<noteq> None) cs"
  using assms
proof (induction cs arbitrary: m es)
  case (Cons c cs)
  obtain p where p: "dget (cd_files dk) p = Some c" using Cons.prems(3) by auto
  obtain m1 r where l: "load_from_file c m = (m1, r)" by (cases "load_from_file c m")
  note k = load_file_keeps [OF Cons.prems(1,2) p l]
  obtain es1 where es: "load_files cs m1 = (m', es1)" "es = (case r of None \<Rightarrow> es1 | Some e \<Rightarrow> e # es1)"
    using Cons.prems(4) l by (auto split: prod.splits)
  show ?case using Cons.IH [OF _ _ _ es(1)] k Cons.prems(3) es(2) by (cases r) auto
qed simp

lemma latest_files:
  assumes "filed m dk" and "tabled m dk" and "plain_id t"
    and "load_files (map snd (filter (\<lambda>(p, _). json_in (task_dir m t) p) (cd_files dk))) m = (m', es)"
  shows "filed m' dk \<and> tabled m' dk \<and> cm_dir m' = cm_dir m \<and>
         (\<forall>e \<in> set es. ck_task e = t \<and> dget (cd_files dk) (ck_file m t (ck_id e)) = Some (Some (ck_json e))) \<and>
         (\<forall>i v. plain_id i \<longrightarrow> dget (cd_files dk) (ck_file m t i) = Some (Some v) \<longrightarrow> (\<exists>e \<in> set es. v = ck_json e))"
proof -
  let ?cs = "map snd (filter (\<lambda>(p, _). json_in (task_dir m t) p) (cd_files dk))"
  have wf: "dwf (cd_files dk)" using assms(1) by (simp add: filed_def)
  have mem: "c \<in> set ?cs \<longleftrightarrow> (\<exists>p. dget (cd_files dk) p = Some c \<and> json_in (task_dir m t) p)" for c
    unfolding dget_dwf_iff [OF wf] by force
  have k: "filed m' dk \<and> tabled m' dk \<and> cm_dir m' = cm_dir m \<and> map (\<lambda>e. Some (ck_json e)) es = filter (\<lambda>c. c \<noteq> None) ?cs"
    using load_files_keeps [OF assms(1,2) _ assms(4)] mem by blast
  then have "(\<lambda>e. Some (ck_json e)) ` set es = {c \<in> set ?cs. c \<noteq> None}" by (metis list.set_map set_filter)
  then have got: "Some v \<in> set ?cs \<longleftrightarrow> (\<exists>e \<in> set es. v = ck_json e)" for v by (simp add: set_eq_iff image_iff) blast
  have "ck_task e = t \<and> dget (cd_files dk) (ck_file m t (ck_id e)) = Some (Some (ck_json e))" if "e \<in> set es" for e
  proof -
    have "Some (ck_json e) \<in> set ?cs" using got that by blast
    then obtain p where p: "dget (cd_files dk) p = Some (Some (ck_json e))" "json_in (task_dir m t) p" using mem by blast
    then obtain x :: ck_entry where x: "plain_id (ck_task x)" "plain_id (ck_id x)" "p = ck_file m (ck_task x) (ck_id x)" "ck_json e = ck_json x"
      using filedD [OF assms(1) p(1)] by auto
    then have "ck_task x = t" using p(2) json_in_file [OF x(1,2) assms(3), of m] by simp
    moreover have "ck_task e = ck_task x" "ck_id e = ck_id x" using x(4) by (simp_all add: ck_json_def)
    ultimately show ?thesis using p(1) x(3) by simp
  qed
  moreover have "\<exists>e \<in> set es. v = ck_json e" if "plain_id i" "dget (cd_files dk) (ck_file m t i) = Some (Some v)" for i v
    using got [of v] mem [of "Some v"] that json_in_file [OF assms(3) that(1) assms(3), of m] by blast
  ultimately show ?thesis using k by blast
qed

lemma ck_load_cases:
  obtains (missing) x where "ck_load i base dk m = Inl x"
  | (same) r where "ck_load i base dk m = Inr (m, r)"
  | (found) p c where "dget (cd_files dk) p = Some c" "ck_load i base dk m = Inr (load_from_file c m)"
proof (cases "dget (cm_entries m) i")
  case None
  let ?P = "\<lambda>d. dget (cd_files dk) (os_join d (i @ ''.json'')) \<noteq> None"
  show ?thesis
  proof (cases "if base then find ?P (cd_dirs dk) else None")
    case (Some d)
    then have b: base "find ?P (cd_dirs dk) = Some d" by (auto split: if_splits)
    then have "?P d" by (auto simp: find_Some_iff)
    then obtain c where c: "dget (cd_files dk) (os_join d (i @ ''.json'')) = Some c" by blast
    have "ck_load i base dk m = Inr (load_from_file c m)" unfolding ck_load_def None b(2) by (simp add: b(1) c)
    with c show ?thesis by (rule found)
  next
    case none: None
    show ?thesis
    proof (cases base)
      case True
      then have "find ?P (cd_dirs dk) = None" using none by simp
      then have "ck_load i base dk m = Inr (m, None)" unfolding ck_load_def None by (simp add: True)
      then show ?thesis by (rule same)
    next
      case False
      then have "ck_load i base dk m = Inl (RuntimeError ''FileNotFoundError'')" by (simp add: ck_load_def None)
      then show ?thesis by (rule missing)
    qed
  qed
next
  case (Some e)
  then have "ck_load i base dk m = Inr (m, Some e)" by (simp add: ck_load_def)
  then show ?thesis by (rule same)
qed

lemma exec_keeps:
  assumes "filed m dk" and "tabled m dk" and "plain_ck_op op" and "ck_exec op (m, dk) = (m', dk')"
  shows "filed m' dk' \<and> tabled m' dk' \<and> cm_dir m' = cm_dir m"
proof (cases op)
  case (OpSave now writes works size_of e)
  obtain r where "ck_save now writes works size_of e (m, dk) = ((m', dk'), r)" using assms(4) OpSave by (metis ck_exec.simps(1) prod.collapse)
  then show ?thesis using save_keeps [OF assms(1,2)] assms(3) OpSave by simp
next
  case (OpDelete works i)
  obtain r where "ck_delete works i (m, dk) = ((m', dk'), r)" using assms(4) OpDelete by (metis ck_exec.simps(2) prod.collapse)
  then show ?thesis by (rule delete_keeps [OF assms(1,2)])
next
  case (OpLoad i base)
  show ?thesis
  proof (cases rule: ck_load_cases [of i base dk m])
    case (found p c)
    obtain m1 r where l: "load_from_file c m = (m1, r)" by (metis surj_pair)
    then have "m' = m1" "dk' = dk" using assms(4) OpLoad found(2) by simp_all
    then show ?thesis using load_file_keeps [OF assms(1,2) found(1) l] by blast
  qed (use assms OpLoad in auto)
next
  case (OpLatest t)
  obtain m1 es where l: "load_files (map snd (filter (\<lambda>(p, _). json_in (task_dir m t) p) (cd_files dk))) m = (m1, es)"
    by (metis surj_pair)
  show ?thesis using assms OpLatest latest_files [OF assms(1,2) _ l] l by (auto simp: load_latest_def split: if_splits)
qed

definition no_files :: ck_disk where
  "no_files = \<lparr>cd_files = [], cd_dirs = []\<rparr>"


definition demo_ck :: "string \<Rightarrow> string \<Rightarrow> int \<Rightarrow> real \<Rightarrow> ck_entry" where
  "demo_ck i t n c =
     \<lparr>ck_id = i, ck_task = t, ck_node = ''n'', ck_step = n, ck_state = [], ck_created = c, ck_size = 0, ck_meta = []\<rparr>"

definition demo_save :: "ck_entry \<Rightarrow> ck_op" where
  "demo_save e = OpSave 9 Written (\<lambda>_. True) (\<lambda>_. 1) e"

definition demo_cut :: "ck_entry \<Rightarrow> ck_op" where
  "demo_cut e = OpSave 9 CutOff (\<lambda>_. True) (\<lambda>_. 1) e"

definition demo_ck_run :: "ck_op list" where
  "demo_ck_run = [demo_save (demo_ck ''a'' ''t'' 1 5), demo_save (demo_ck ''b'' ''t'' 2 6), demo_cut (demo_ck ''c'' ''t'' 3 7)]"


text \<open>A save writes into the file of the checkpoint it replaces: when it breaks off, the checkpoint stays in the table
  and is lost to a new manager.\<close>

lemma broken_save_loses_the_old:
  "let (m, dk) = fold ck_exec [demo_save (demo_ck ''a'' ''t'' 1 5), demo_cut (demo_ck ''a'' ''t'' 2 6)] (ck_init [] ''/d'' 9 0, no_files)
   in map ck_step (list_by_task ''t'' m) = [1] \<and> snd (load_latest ''t'' dk (ck_init [] ''/d'' 9 0)) = None"
  by code_simp

text \<open>After a save the table is within its bound; loads from the disk do not clean up.\<close>

lemma save_within_bound:
  assumes "tabled m dk" and "0 \<le> cm_max m" and "ck_save now Written works size_of e (m, dk) = ((m', dk'), r)"
  shows "int (length (cm_entries m')) \<le> cm_max m"
proof -
  define e2 where "e2 = (let e1 = e\<lparr>ck_created := (if ck_created e = 0 then now else ck_created e)\<rparr> in e1\<lparr>ck_size := size_of (ck_json e1)\<rparr>)"
  have own: "own_keys (dset (cm_entries m) (ck_id e2) e2)" using assms(1) by (simp add: tabled_def own_keys_dset)
  obtain dk1 where "ck_cleanup works (m\<lparr>cm_entries := dset (cm_entries m) (ck_id e2) e2\<rparr>, dk1) = (m', dk')"
    using assms(3) by (auto simp: ck_save_def Let_def e2_def)
  then show ?thesis
    using cleanup_entries [of "(m\<lparr>cm_entries := dset (cm_entries m) (ck_id e2) e2\<rparr>, dk1)" works] own assms(2) by simp
qed

lemma loads_pass_the_bound:
  "let (m, dk) = fold ck_exec [demo_save (demo_ck ''a'' ''t'' 1 5), demo_save (demo_ck ''b'' ''t'' 2 6)] (ck_init [] ''/d'' 9 0, no_files);
       (m', _) = load_latest ''t'' dk (ck_init [] ''/d'' 1 0)
   in cm_max m' = 1 \<and> length (cm_entries m') = 2"
  by code_simp

text \<open>A save into a full table may remove what it just wrote and still answer that it was saved.\<close>

lemma save_may_evict_itself:
  "let s = fst (ck_save 9 Written (\<lambda>_. True) (\<lambda>_. 1) (demo_ck ''a'' ''t'' 1 5) (ck_init [] ''/d'' 1 0, no_files));
       ((m, dk), saved) = ck_save 9 Written (\<lambda>_. True) (\<lambda>_. 1) (demo_ck ''b'' ''t'' 2 3) s
   in saved \<and> dget (cm_entries m) ''b'' = None \<and> length (cd_files dk) = 1"
  by code_simp

text \<open>The table is keyed by the identifier alone: the same identifier for another task hides the first, and
  deleting it leaves the first file.\<close>

lemma same_id_of_two_tasks:
  "let s = fold ck_exec [demo_save (demo_ck ''a'' ''t'' 1 5), demo_save (demo_ck ''a'' ''u'' 7 6)] (ck_init [] ''/d'' 9 0, no_files);
       ((m, dk), deleted) = ck_delete (\<lambda>_. True) ''a'' s
   in list_by_task ''t'' (fst s) = [] \<and> deleted \<and> cm_entries m = [] \<and> length (cd_files dk) = 1"
  by code_simp

end
