(* ===== verification/SessionStore.thy ===== *)
theory SessionStore
  imports Checkpoints
begin

text \<open>
  The shared sessions of agents on the master (\<open>storage/session_store.py\<close>): one JSON file for every session below
  a directory, written through a temporary file and a rename, so a write happens or does not.  A file is the
  JSON value it holds, or \<open>None\<close> when its text is not JSON; the order of the map is that of the directory.
\<close>

subsection \<open>The store\<close>

record session_store =
  ss_base :: string
  ss_files :: "(string, json option) dict"

definition resolve_store_dir :: "string \<Rightarrow> string \<Rightarrow> string \<Rightarrow> string" where
  "resolve_store_dir home env configured =
     str_or (str_or (py_strip configured) (py_strip env)) (home @ ''/.fusion/multi-node/session-store'')"

definition ss_init :: "string \<Rightarrow> string \<Rightarrow> string \<Rightarrow> session_store" where
  "ss_init home env base_dir = \<lparr>ss_base = resolve_store_dir home env base_dir, ss_files = []\<rparr>"

definition session_id_ok :: "string \<Rightarrow> bool" where
  "session_id_ok i \<longleftrightarrow>
     \<not> (i = [] \<or> CHR ''/'' \<in> set i \<or> CHR 0x5C \<in> set i \<or> contains ''..'' i \<or> i = ''.'' \<or> i = ''..'')"

definition session_path :: "string \<Rightarrow> session_store \<Rightarrow> py_error + string" where
  "session_path i ss = (if session_id_ok i then Inr (os_join (ss_base ss) (i @ ''.json'')) else Inl (ValueError i))"

definition read_session :: "string \<Rightarrow> session_store \<Rightarrow> json option" where
  "read_session i ss =
     (case session_path i ss of
        Inl _ \<Rightarrow> None
      | Inr p \<Rightarrow> (case dget (ss_files ss) p of Some (Some v) \<Rightarrow> Some v | _ \<Rightarrow> None))"

text \<open>\<open>a or b\<close> on values, and whether \<open>len\<close> works on one.\<close>

definition value_or :: "json \<Rightarrow> json \<Rightarrow> json" where
  "value_or a b = (if truthy a then a else b)"

definition has_len :: "json \<Rightarrow> bool" where
  "has_len v = (case v of JStr _ \<Rightarrow> True | JList _ \<Rightarrow> True | JObj _ \<Rightarrow> True | _ \<Rightarrow> False)"

text \<open>What \<open>put_session\<close> stores: the session with its identifier as text and the time of the update as a number.\<close>

definition put_payload :: "py_conv \<Rightarrow> real \<Rightarrow> (string, json) dict \<Rightarrow> string \<times> (string, json) dict option" where
  "put_payload pc now d =
     (let i = to_str pc (value_or (jget d ''id'' (JStr [])) (JStr []))
      in (i, map_option (\<lambda>u. dset (dset d ''id'' (JStr i)) ''updated_at'' (JReal (if u = 0 then now else u)))
               (to_float pc (value_or (jget (dset d ''id'' (JStr i)) ''updated_at'' JNull) (JReal 0)))))"

text \<open>The count of the messages for the log comes after the rename.\<close>

definition put_session ::
  "py_conv \<Rightarrow> real \<Rightarrow> bool \<Rightarrow> (string, json) dict \<Rightarrow> session_store \<Rightarrow> session_store \<times> (py_error + (string, json) dict)" where
  "put_session pc now writes d ss =
     (case put_payload pc now d of (i, p) \<Rightarrow>
        (case session_path i ss of
           Inl e \<Rightarrow> (ss, Inl e)
         | Inr path \<Rightarrow>
             (case p of
                None \<Rightarrow> (ss, Inl (ValueError ''updated_at''))
              | Some payload \<Rightarrow>
                  if \<not> writes then (ss, Inl (RuntimeError ''OSError''))
                  else (ss\<lparr>ss_files := dset (ss_files ss) path (Some (JObj payload))\<rparr>,
                        if has_len (value_or (jget payload ''messages'' JNull) (JList [])) then Inr payload
                        else Inl (TypeErrorPy ''len'')))))"

definition delete_session :: "string \<Rightarrow> session_store \<Rightarrow> session_store \<times> bool" where
  "delete_session i ss =
     (case session_path i ss of
        Inl _ \<Rightarrow> (ss, False)
      | Inr p \<Rightarrow> if dget (ss_files ss) p = None then (ss, False) else (ss\<lparr>ss_files := dpop (ss_files ss) p\<rparr>, True))"

fun hex_digits :: "nat \<Rightarrow> string" where
  "hex_digits n = (if n < 16 then [hex_digit n] else hex_digits (n div 16) @ [hex_digit (n mod 16)])"

declare hex_digits.simps [simp del]

text \<open>The session that \<open>fork_session\<close> puts; a parent or metadata that is not an object raises.\<close>

definition forked :: "py_conv \<Rightarrow> real \<Rightarrow> string \<Rightarrow> string \<Rightarrow> json \<Rightarrow> (string, json) dict option" where
  "forked pc now i title parent =
     (case parent of
        JObj d \<Rightarrow>
          (case value_or (jget d ''metadata'' JNull) (JObj []) of
             JObj m \<Rightarrow>
               Some (dset (dset (dset d ''id'' (JStr (''chat-'' @ hex_digits (nat \<lfloor>now * 1000\<rfloor>))))
                       ''title'' (JStr (str_or title (to_str pc (jget d ''title'' (JStr ''session'')) @ '' (fork)''))))
                     ''metadata'' (JObj (dset m ''forked_from'' (JStr i))))
           | _ \<Rightarrow> None)
      | _ \<Rightarrow> None)"

definition fork_session ::
  "py_conv \<Rightarrow> real \<Rightarrow> bool \<Rightarrow> string \<Rightarrow> string \<Rightarrow> session_store \<Rightarrow> session_store \<times> (py_error + (string, json) dict option)" where
  "fork_session pc now writes i title ss =
     (case read_session i ss of
        None \<Rightarrow> (ss, Inr None)
      | Some parent \<Rightarrow>
          (case forked pc now i title parent of
             None \<Rightarrow> (ss, Inl (TypeErrorPy ''fork''))
           | Some d \<Rightarrow> (case put_session pc now writes d ss of
                          (ss1, Inl e) \<Rightarrow> (ss1, Inl e) | (ss1, Inr p) \<Rightarrow> (ss1, Inr (Some p)))))"

text \<open>\<open>session_listing\<close>: files that are not JSON are passed over, a value that is not an object raises, and so does
  a time that is not a number.\<close>

fun session_rows :: "json option list \<Rightarrow> py_error + (string, json) dict list" where
  "session_rows [] = Inr []"
| "session_rows (None # cs) = session_rows cs"
| "session_rows (Some (JObj d) # cs) = and_then (session_rows cs) (\<lambda>rows. Inr (dpop d ''messages'' # rows))"
| "session_rows (Some _ # cs) = Inl (TypeErrorPy ''pop'')"

definition updated_at :: "py_conv \<Rightarrow> (string, json) dict \<Rightarrow> real option" where
  "updated_at pc d = to_float pc (value_or (jget d ''updated_at'' (JInt 0)) (JInt 0))"

definition session_listing :: "py_conv \<Rightarrow> int \<Rightarrow> session_store \<Rightarrow> py_error + (string, json) dict list" where
  "session_listing pc limit ss =
     and_then (session_rows (map snd (filter (\<lambda>(p, _). json_in (ss_base ss) p) (ss_files ss)))) (\<lambda>rows.
       if list_ex (\<lambda>d. updated_at pc d = None) rows then Inl (ValueError ''updated_at'')
       else Inr (take (nat limit) (sort_desc (\<lambda>d. the (updated_at pc d)) rows)))"

subsection \<open>The store is a map\<close>

datatype session_op =
    SsPut real bool "(string, json) dict"
  | SsDelete string
  | SsFork real bool string string

fun session_exec :: "py_conv \<Rightarrow> session_op \<Rightarrow> session_store \<Rightarrow> session_store" where
  "session_exec pc (SsPut now writes d) ss = fst (put_session pc now writes d ss)"
| "session_exec pc (SsDelete i) ss = fst (delete_session i ss)"
| "session_exec pc (SsFork now writes i title) ss = fst (fork_session pc now writes i title ss)"

text \<open>The same operations on a map from identifiers to sessions.\<close>

definition map_put :: "py_conv \<Rightarrow> real \<Rightarrow> bool \<Rightarrow> (string, json) dict \<Rightarrow> (string \<rightharpoonup> json) \<Rightarrow> (string \<rightharpoonup> json)" where
  "map_put pc now writes d m =
     (case put_payload pc now d of
        (i, Some p) \<Rightarrow> if session_id_ok i \<and> writes then m(i \<mapsto> JObj p) else m
      | _ \<Rightarrow> m)"

fun map_exec :: "py_conv \<Rightarrow> session_op \<Rightarrow> (string \<rightharpoonup> json) \<Rightarrow> (string \<rightharpoonup> json)" where
  "map_exec pc (SsPut now writes d) m = map_put pc now writes d m"
| "map_exec pc (SsDelete i) m = m(i := None)"
| "map_exec pc (SsFork now writes i title) m =
     (case m i of
        None \<Rightarrow> m
      | Some parent \<Rightarrow> (case forked pc now i title parent of None \<Rightarrow> m | Some d \<Rightarrow> map_put pc now writes d m))"

lemma ok_plain: "session_id_ok i \<Longrightarrow> plain_id i"
  by (simp add: session_id_ok_def plain_id_def)

lemma session_path_eq: "session_id_ok i \<Longrightarrow> session_path i ss = Inr (os_join (ss_base ss) [] @ i @ ''.json'')"
  using plain_join [of "i @ ''.json''" "ss_base ss"] by (auto simp: session_path_def plain_id_def dest: ok_plain)

lemma read_session_eq:
  "read_session i ss =
     (if session_id_ok i then (case dget (ss_files ss) (os_join (ss_base ss) [] @ i @ ''.json'') of Some (Some v) \<Rightarrow> Some v | _ \<Rightarrow> None) else None)"
  by (simp add: read_session_def session_path_eq) (simp add: session_path_def)

lemma fork_put:
  "fst (fork_session pc now writes i title ss) =
     (case read_session i ss of
        None \<Rightarrow> ss
      | Some parent \<Rightarrow>
          (case forked pc now i title parent of None \<Rightarrow> ss | Some d \<Rightarrow> fst (put_session pc now writes d ss)))"
  by (auto simp: fork_session_def split: option.split prod.split sum.split)

lemma put_refines: "(\<lambda>j. read_session j (fst (put_session pc now writes d ss))) = map_put pc now writes d (\<lambda>j. read_session j ss)"
proof -
  obtain i p where ip: "put_payload pc now d = (i, p)" by (metis surj_pair)
  show ?thesis
  proof (cases "session_id_ok i")
    case True
    then show ?thesis
      by (auto simp: put_session_def map_put_def ip session_path_eq read_session_eq fun_eq_iff split: option.split)
  next
    case False
    then show ?thesis by (auto simp: put_session_def map_put_def ip session_path_def split: option.split)
  qed
qed

text \<open>C39: The file store is a map from session identifiers to sessions: after any sequence of puts, deletions and
  forks, with any writes failing, reading gives for every identifier, well formed or not, what the same
  operations on a map give.\<close>

theorem session_store_refines_map:
  "(\<lambda>i. read_session i (fold (session_exec pc) ops (ss_init home env base))) = fold (map_exec pc) ops Map.empty"
proof -
  have step: "(\<lambda>j. read_session j (session_exec pc op ss)) = map_exec pc op (\<lambda>j. read_session j ss)" for op ss
  proof (cases op)
    case (SsDelete i)
    show ?thesis
    proof (cases "session_id_ok i")
      case True
      then show ?thesis using SsDelete by (auto simp: delete_session_def session_path_eq read_session_eq fun_eq_iff)
    next
      case False
      then show ?thesis using SsDelete by (auto simp: delete_session_def session_path_def read_session_eq fun_eq_iff)
    qed
  next
    case (SsFork now writes i title)
    then show ?thesis using put_refines by (auto simp: fork_put split: option.split)
  qed (simp add: put_refines)
  have "(\<lambda>j. read_session j (fold (session_exec pc) ops ss)) = fold (map_exec pc) ops (\<lambda>j. read_session j ss)" for ss
    by (induction ops arbitrary: ss) (simp_all add: step)
  moreover have "(\<lambda>j. read_session j (ss_init home env base)) = Map.empty"
    by (auto simp: read_session_eq ss_init_def fun_eq_iff)
  ultimately show ?thesis by simp
qed

text \<open>Listing what the store itself wrote never fails; the rows come newest first, without messages.\<close>

definition listable :: "py_conv \<Rightarrow> json option \<Rightarrow> bool" where
  "listable pc c \<longleftrightarrow> (\<exists>d. c = Some (JObj d) \<and> updated_at pc d \<noteq> None)"

lemma updated_at_dpop [simp]: "updated_at pc (dpop d ''messages'') = updated_at pc d"
  by (simp add: updated_at_def jget_def)

lemma session_rows_listable:
  "list_all (listable pc) cs \<Longrightarrow> \<exists>rows. session_rows cs = Inr rows \<and> list_all (\<lambda>d. updated_at pc d \<noteq> None \<and> dget d ''messages'' = None) rows"
proof (induction cs)
  case (Cons c cs)
  then obtain d where "c = Some (JObj d)" "updated_at pc d \<noteq> None" by (auto simp: listable_def)
  then show ?case using Cons by auto
qed simp

lemma put_listable:
  assumes "list_all (listable pc) (dvals (ss_files ss))"
  shows "list_all (listable pc) (dvals (ss_files (fst (put_session pc now writes d ss))))"
proof -
  have new: "listable pc (Some (JObj p))" if "put_payload pc now d = (i, Some p)" for i p
    using that by (auto simp: put_payload_def Let_def listable_def updated_at_def jget_def value_or_def to_float_def truthy_def)
  have "list_all (listable pc) (dvals (dset fs k c))" if "list_all (listable pc) (dvals fs)" "listable pc c" for fs k c
    using that by (induction fs) auto
  then show ?thesis using assms new
    by (auto simp: put_session_def split: prod.split sum.split option.split)
qed

theorem listing_own_sessions:
  "\<exists>rows. session_listing pc limit (fold (session_exec pc) ops (ss_init home env base)) = Inr rows \<and>
     length rows \<le> nat limit \<and> sorted (map (\<lambda>d. - the (updated_at pc d)) rows) \<and> list_all (\<lambda>d. dget d ''messages'' = None) rows"
proof -
  have step: "list_all (listable pc) (dvals (ss_files (session_exec pc op ss)))" if "list_all (listable pc) (dvals (ss_files ss))" for op ss
  proof (cases op)
    case (SsDelete i)
    then show ?thesis using that
      by (auto simp: delete_session_def list_all_iff AList.delete_eq split: sum.split)
  next
    case (SsFork now writes i title)
    then show ?thesis using that put_listable [OF that] by (auto simp: fork_put split: option.split)
  qed (simp add: put_listable that)
  have "list_all (listable pc) (dvals (ss_files (fold (session_exec pc) ops ss)))" if "list_all (listable pc) (dvals (ss_files ss))" for ss
    using that by (induction ops arbitrary: ss) (simp_all add: step)
  from this [of "ss_init home env base"] have "list_all (listable pc) (dvals (ss_files (fold (session_exec pc) ops (ss_init home env base))))"
    by (simp add: ss_init_def)
  then have "list_all (listable pc) (map snd (filter (\<lambda>(p, _). json_in b p) (ss_files (fold (session_exec pc) ops (ss_init home env base)))))" for b
    by (auto simp: list_all_iff)
  from session_rows_listable [OF this] obtain rows where rows:
      "session_rows (map snd (filter (\<lambda>(p, _). json_in (ss_base (fold (session_exec pc) ops (ss_init home env base))) p)
         (ss_files (fold (session_exec pc) ops (ss_init home env base))))) = Inr rows"
      "list_all (\<lambda>d. updated_at pc d \<noteq> None \<and> dget d ''messages'' = None) rows" by blast
  let ?f = "\<lambda>d. the (updated_at pc d)"
  have "session_listing pc limit (fold (session_exec pc) ops (ss_init home env base)) = Inr (take (nat limit) (sort_desc ?f rows))"
    using rows by (auto simp: session_listing_def list_ex_iff list_all_iff)
  moreover have "sorted (map (\<lambda>d. - ?f d) (take (nat limit) (sort_desc ?f rows)))"
    using sorted_sort_desc [of ?f rows] by (simp add: take_map [symmetric] sorted_wrt_take)
  moreover have "list_all (\<lambda>d. dget d ''messages'' = None) (take (nat limit) (sort_desc ?f rows))"
    using rows(2) set_take_subset [of "nat limit" "sort_desc ?f rows"] by (auto simp: list_all_iff)
  ultimately show ?thesis by simp
qed

subsection \<open>Where it fails\<close>

definition demo_pc :: py_conv where
  "demo_pc = \<lparr>pc_float = (\<lambda>_. None), pc_int = (\<lambda>_. None), pc_str = (\<lambda>_. ''?'')\<rparr>"

text \<open>A file that holds JSON but no object makes every listing fail.\<close>

lemma foreign_file_breaks_listing:
  "session_listing pc 5 \<lparr>ss_base = ''/s'', ss_files = [(''/s/x.json'', Some (JList []))]\<rparr> = Inl (TypeErrorPy ''pop'')"
  by (simp add: session_listing_def json_in_def os_join_def suffix_def Let_def)

text \<open>Two forks in one millisecond have one identifier: the second replaces the first.\<close>

lemma forks_in_one_millisecond:
  assumes "\<lfloor>now * 1000\<rfloor> = \<lfloor>now' * 1000\<rfloor>" and "forked pc now i title p = Some d" and "forked pc now' j title' q = Some d'"
  shows "dget d ''id'' = dget d' ''id''"
  using assms by (auto simp: forked_def split: json.splits option.splits)

text \<open>Messages that are a number: the session is stored, and the caller gets an error.\<close>

lemma stored_with_error:
  "let (ss, r) = put_session demo_pc 1 True [(''id'', JStr ''a''), (''messages'', JInt 3)] (ss_init [] ''/s'' [])
   in r = Inl (TypeErrorPy ''len'') \<and> read_session ''a'' ss \<noteq> None"
  by code_simp

end
