(* ===== verification/HaStart.thy ===== *)
theory HaStart
  imports HaClaims
begin

text \<open>
  The start of a master with high availability (\<open>master/cluster_master.py\<close>): what \<open>start\<close> does with the
  configuration, \<open>setup_election\<close>, the callbacks between the election and the master, and the requests masters send
  each other for votes and heartbeats.  \<open>MasterElection\<close> calls the functions its constructor was given;
  \<open>setup_election\<close> gives it those for requests only and assigns \<open>on_elected\<close> and \<open>on_demoted\<close>, attributes nothing
  reads, afterwards.
\<close>

subsection \<open>The configuration\<close>

text \<open>A peer is a bare name or an object, here with the defaults of its missing fields filled in.\<close>

datatype ha_peer =
  PeerName string
| PeerSpec (hp_id: string) (hp_priority: int) (hp_hostname: string) (hp_ip: string) (hp_port: int)

record ha_config =
  hc_enabled :: bool
  hc_mode :: string
  hc_node_id :: string
  hc_priority :: int
  hc_peers :: "ha_peer list"

text \<open>\<open>peer == ha_config["node_id"]\<close> holds for no object.\<close>

definition peer_specs :: "ha_config \<Rightarrow> ha_peer list" where
  "peer_specs cf =
     map (\<lambda>p. case p of PeerName k \<Rightarrow> PeerSpec k 0 [] [] 0 | _ \<Rightarrow> p)
       (filter (\<lambda>p. p \<noteq> PeerName (hc_node_id cf)) (hc_peers cf))"

definition peer_candidate :: "time \<Rightarrow> ha_peer \<Rightarrow> election_candidate" where
  "peer_candidate now p =
     (case p of
        PeerName k \<Rightarrow> \<lparr>ec_node_id = k, ec_priority = 0, ec_hostname = [], ec_ip_address = [], ec_port = 0, ec_term = 0,
                       ec_voted_for = [], ec_last_heartbeat = now\<rparr>
      | PeerSpec k prio hostname ip port \<Rightarrow>
          \<lparr>ec_node_id = k, ec_priority = prio, ec_hostname = hostname, ec_ip_address = ip, ec_port = port, ec_term = 0,
           ec_voted_for = [], ec_last_heartbeat = now\<rparr>)"

text \<open>The election is made without \<open>on_elected\<close> and \<open>on_demoted\<close> and with a file for its state.\<close>

definition setup_election ::
  "time \<Rightarrow> real \<Rightarrow> election_file option \<Rightarrow> bool \<Rightarrow> string \<Rightarrow> int \<Rightarrow> ha_peer list \<Rightarrow> ha_state \<Rightarrow> ha_state" where
  "setup_election now rnd stored writes nid prio peers h =
     h\<lparr>ha_election := Some (fold (\<lambda>p. add_known_node (Inr (peer_candidate now p))) peers
                              (election_init nid prio [] False False True True True stored writes now rnd))\<rparr>"

definition aa_peers :: "ha_config \<Rightarrow> aa_peer list" where
  "aa_peers cf =
     map (\<lambda>p. case p of PeerName k \<Rightarrow> \<lparr>ap_node_id = k, ap_ip = [], ap_port = 0\<rparr>
                      | PeerSpec k _ _ ip port \<Rightarrow> \<lparr>ap_node_id = k, ap_ip = ip, ap_port = port\<rparr>)
       (filter (\<lambda>p. case p of PeerName k \<Rightarrow> k \<noteq> hc_node_id cf | PeerSpec k _ _ _ _ \<Rightarrow> k \<noteq> hc_node_id cf) (hc_peers cf))"

text \<open>The part of \<open>start\<close> on the configuration; the second component are the peers of the active-active mode.\<close>

definition start_ha ::
  "time \<Rightarrow> real \<Rightarrow> election_file option \<Rightarrow> bool \<Rightarrow> ha_config \<Rightarrow> ha_state \<Rightarrow> ha_state \<times> aa_peer list" where
  "start_ha now rnd stored writes cf h =
     (if hc_enabled cf \<and> hc_node_id cf \<noteq> [] \<and> hc_peers cf \<noteq> []
      then (setup_election now rnd stored writes (hc_node_id cf) (hc_priority cf) (peer_specs cf) h, [])
      else if hc_mode cf = ''active-active'' \<and> hc_node_id cf \<noteq> []
      then (h\<lparr>ha_node_id := hc_node_id cf, ha_active_active := True\<rparr>, aa_peers cf)
      else (h, []))"

subsection \<open>Requests between masters\<close>

definition no_vote :: "string \<Rightarrow> vote_response" where
  "no_vote peer = \<lparr>vp_term = 0, vp_vote_granted = False, vp_voter_id = peer\<rparr>"

text \<open>\<open>_send_vote_request_cb\<close>: an answer is a status with the body, when it can be read, or nothing when the
  request raised.  \<open>build_safe_url\<close> stands before the \<open>try\<close>; the election takes what it raises as a failed request.\<close>

definition send_vote_request ::
  "net_env \<Rightarrow> (int \<Rightarrow> string) \<Rightarrow> string \<Rightarrow> (string \<Rightarrow> vote_request \<Rightarrow> (nat \<times> vote_response option) option) \<Rightarrow> election
     \<Rightarrow> vote_request \<Rightarrow> string \<Rightarrow> vote_response option" where
  "send_vote_request env shows scheme post e rq peer =
     (case get_candidate peer e of
        None \<Rightarrow> Some (no_vote peer)
      | Some cd \<Rightarrow>
          if ec_ip_address cd = [] \<or> ec_port cd = 0 \<or> \<not> is_safe_peer_host env (ec_ip_address cd) then Some (no_vote peer)
          else case build_safe_url env shows scheme (ec_ip_address cd) (ec_port cd) ''/api/ha/vote'' of
                 Inl _ \<Rightarrow> None
               | Inr url \<Rightarrow> (case post url rq of
                              Some (st, Some r) \<Rightarrow> Some (if st \<noteq> 200 then no_vote peer else r)
                            | _ \<Rightarrow> Some (no_vote peer)))"

text \<open>\<open>_send_heartbeat_cb\<close>: the request it makes.\<close>

definition heartbeat_request ::
  "net_env \<Rightarrow> (int \<Rightarrow> string) \<Rightarrow> string \<Rightarrow> election \<Rightarrow> string \<Rightarrow> (string \<times> string \<times> int) option" where
  "heartbeat_request env shows scheme e peer =
     (case get_candidate peer e of
        None \<Rightarrow> None
      | Some cd \<Rightarrow>
          if ec_ip_address cd = [] \<or> ec_port cd = 0 \<or> \<not> is_safe_peer_host env (ec_ip_address cd) then None
          else case build_safe_url env shows scheme (ec_ip_address cd) (ec_port cd) ''/api/ha/heartbeat'' of
                 Inl _ \<Rightarrow> None | Inr url \<Rightarrow> Some (url, el_node_id e, current_term e))"

subsection \<open>The election and the master\<close>

definition run_call :: "election_call \<Rightarrow> ha_state \<Rightarrow> ha_state" where
  "run_call k h = (case k of OnElected _ \<Rightarrow> on_elected_leader h | OnDemoted \<Rightarrow> on_demoted_from_leader h)"

text \<open>One handler of the election, then the callbacks it made.\<close>

definition on_election :: "(election \<Rightarrow> election) \<Rightarrow> ha_state \<Rightarrow> ha_state" where
  "on_election f h =
     (case ha_election h of
        None \<Rightarrow> h
      | Some e \<Rightarrow> fold run_call (drop (length (el_calls e)) (el_calls (f e))) (h\<lparr>ha_election := Some (f e)\<rparr>))"

definition master_vote_request :: "time \<Rightarrow> real \<Rightarrow> vote_request \<Rightarrow> ha_state \<Rightarrow> ha_state \<times> vote_response" where
  "master_vote_request now rnd rq h =
     (case ha_election h of
        None \<Rightarrow> (h, no_vote [])
      | Some e \<Rightarrow> (on_election (\<lambda>e. fst (handle_vote_request now rnd rq e)) h, snd (handle_vote_request now rnd rq e)))"

definition master_heartbeat :: "time \<Rightarrow> real \<Rightarrow> string \<Rightarrow> int \<Rightarrow> ha_state \<Rightarrow> ha_state" where
  "master_heartbeat now rnd lid term = on_election (receive_heartbeat now rnd lid term)"

text \<open>One pass of the loop of the election; \<open>ask\<close> answers its requests for votes.\<close>

definition election_pass ::
  "time \<Rightarrow> real \<Rightarrow> (vote_request \<Rightarrow> string \<Rightarrow> vote_response option) \<Rightarrow> election \<Rightarrow> election" where
  "election_pass now rnd ask e =
     (case election_tick now e of (e1, elect, _) \<Rightarrow> if elect then start_election rnd ask e1 else e1)"

datatype ha_event =
  Pass time real "vote_request \<Rightarrow> string \<Rightarrow> vote_response option"
| Voted time real vote_request
| Beat time real string int

definition ha_step :: "ha_event \<Rightarrow> ha_state \<Rightarrow> ha_state" where
  "ha_step ev h =
     (case ev of
        Pass now rnd ask \<Rightarrow> on_election (election_pass now rnd ask) h
      | Voted now rnd rq \<Rightarrow> fst (master_vote_request now rnd rq h)
      | Beat now rnd lid term \<Rightarrow> master_heartbeat now rnd lid term h)"

subsection \<open>Handlers and callbacks\<close>

text \<open>The callbacks a handler makes are appended, and they are there only when the constructor was given them.\<close>

definition calls_ok :: "election \<Rightarrow> election \<Rightarrow> bool" where
  "calls_ok e e' \<longleftrightarrow>
     has_on_elected e' = has_on_elected e \<and> has_on_demoted e' = has_on_demoted e \<and>
     (\<not> has_on_elected e \<and> \<not> has_on_demoted e \<longrightarrow> el_calls e' = el_calls e)"

named_theorems quiet_hooks \<open>what a handler does to the callbacks\<close>

lemma calls_ok_refl [quiet_hooks]: "calls_ok e e"
  by (simp add: calls_ok_def)

lemma calls_ok_trans [trans]: "calls_ok e e1 \<Longrightarrow> calls_ok e1 e2 \<Longrightarrow> calls_ok e e2"
  by (auto simp: calls_ok_def)

lemma calls_ok_handlers [quiet_hooks]:
  "calls_ok e (persist_state e)" "calls_ok e (become_leader e)" "calls_ok e (become_follower e)"
  "calls_ok e (handle_vote_response r e)" "calls_ok e (fst (handle_vote_request now rnd rq e))"
  "calls_ok e (receive_heartbeat now rnd lid term e)" "calls_ok e (fst (start_election_begin rnd e))"
  "calls_ok e (finish_election m e)" "calls_ok e (fst (election_tick now e))"
  by (auto simp: calls_ok_def election_defs election_tick_def split: election_state.split)

lemma calls_ok_start: "calls_ok e (start_election rnd ask e)"
proof -
  obtain e1 rq peers m where b: "start_election_begin rnd e = (e1, rq, peers, m)" by (metis prod_cases4)
  have step: "calls_ok e (if has_send_vote x then (case ask rq p of None \<Rightarrow> x | Some r \<Rightarrow> handle_vote_response r x) else x)"
    if "calls_ok e x" for p x
    using that calls_ok_trans [OF that calls_ok_handlers(4)] by (auto split: option.split)
  have "calls_ok e (fold (\<lambda>p e. if has_send_vote e
      then (case ask rq p of None \<Rightarrow> e | Some r \<Rightarrow> handle_vote_response r e) else e) peers e1)"
    if "calls_ok e e1" for e1 using that step by (induction peers arbitrary: e1) simp_all
  moreover have "calls_ok e e1" using calls_ok_handlers(7) [of e rnd] b by simp
  ultimately show ?thesis unfolding start_election_def b by (simp add: calls_ok_trans [OF _ calls_ok_handlers(8)])
qed

lemma calls_ok_pass [quiet_hooks]: "calls_ok e (election_pass now rnd ask e)"
proof -
  obtain e1 elect bc where t: "election_tick now e = (e1, elect, bc)" by (metis prod_cases3)
  then have "calls_ok e e1" using calls_ok_handlers(9) [of e now] by simp
  then show ?thesis by (simp add: election_pass_def t calls_ok_trans [OF _ calls_ok_start])
qed

text \<open>What the scheduler reads of a master whose election has no callbacks.\<close>

definition deaf :: "ha_state \<Rightarrow> bool" where
  "deaf h \<longleftrightarrow> (\<exists>e. ha_election h = Some e \<and> \<not> has_on_elected e \<and> \<not> has_on_demoted e)"

lemma deaf_on_election:
  assumes "deaf h" and "\<And>e. calls_ok e (f e)"
  shows "deaf (on_election f h) \<and> ha_is_leader (on_election f h) = ha_is_leader h \<and>
    ha_fencing (on_election f h) = ha_fencing h"
proof -
  obtain e where e: "ha_election h = Some e" "\<not> has_on_elected e" "\<not> has_on_demoted e"
    using assms(1) by (auto simp: deaf_def)
  moreover have "calls_ok e (f e)" by (rule assms(2))
  ultimately show ?thesis by (simp add: on_election_def deaf_def calls_ok_def)
qed

lemma deaf_step:
  assumes "deaf h"
  shows "deaf (ha_step ev h) \<and> ha_is_leader (ha_step ev h) = ha_is_leader h \<and> ha_fencing (ha_step ev h) = ha_fencing h"
  using deaf_on_election [OF assms] assms
  by (cases ev) (auto simp: ha_step_def master_vote_request_def master_heartbeat_def quiet_hooks split: option.split)

lemma deaf_run:
  "deaf h \<Longrightarrow> deaf (fold ha_step evs h) \<and> ha_is_leader (fold ha_step evs h) = ha_is_leader h \<and>
    ha_fencing (fold ha_step evs h) = ha_fencing h"
proof (induction evs arbitrary: h)
  case (Cons ev evs)
  then show ?case using deaf_step [OF Cons.prems, of ev] by simp
qed simp

lemma deaf_setup: "deaf (setup_election now rnd stored writes nid prio peers h)"
proof -
  have "has_on_elected (fold (\<lambda>p. add_known_node (Inr (peer_candidate now p))) peers e) = has_on_elected e \<and>
    has_on_demoted (fold (\<lambda>p. add_known_node (Inr (peer_candidate now p))) peers e) = has_on_demoted e" for e
    by (induction peers arbitrary: e) (simp_all add: add_known_node_def)
  then show ?thesis
    by (simp add: setup_election_def deaf_def election_init_def load_state_def Let_def split: option.split)
qed

text \<open>C20: The outcome of the election never reaches the scheduler.  A master started with high availability takes
  itself for the leader and sends the fencing token 0 forever, whatever votes, heartbeats and elections follow: no
  guard for standby masters refuses an assignment, and its view of the members is reported as that of a leader.\<close>

theorem election_never_reaches_scheduler:
  assumes "hc_enabled cf" and "hc_node_id cf \<noteq> []" and "hc_peers cf \<noteq> []"
    and "h = fold ha_step evs (fst (start_ha now rnd stored writes cf ha_single))"
  shows "ha_election h \<noteq> None \<and> ha_is_leader h \<and> ha_fencing h = 0 \<and> membership_view t h = (True, False) \<and>
    (\<forall>c r. ms_ha c = h \<longrightarrow> \<not> assign_refused r c)"
proof -
  let ?h0 = "fst (start_ha now rnd stored writes cf ha_single)"
  have "?h0 = setup_election now rnd stored writes (hc_node_id cf) (hc_priority cf) (peer_specs cf) ha_single"
    using assms(1-3) by (simp add: start_ha_def)
  then have "deaf ?h0 \<and> ha_is_leader ?h0 \<and> ha_fencing ?h0 = 0"
    using deaf_setup [of now rnd stored writes "hc_node_id cf" "hc_priority cf" "peer_specs cf" ha_single]
    by (simp add: setup_election_def) (simp add: ha_single_def)
  then have d: "deaf h \<and> ha_is_leader h \<and> ha_fencing h = 0" using deaf_run [of ?h0 evs] assms(4) by simp
  moreover have aa: "ha_active_active (on_election f x) = ha_active_active x" for f x
  proof -
    have "ha_active_active (fold run_call ks y) = ha_active_active y" for ks y
      by (induction ks arbitrary: y)
         (auto simp: run_call_def on_elected_leader_def on_demoted_from_leader_def Let_def split: election_call.split option.split)
    then show ?thesis by (simp add: on_election_def split: option.split)
  qed
  have "ha_active_active (ha_step ev x) = ha_active_active x" for ev x
    by (simp add: ha_step_def master_vote_request_def master_heartbeat_def aa split: ha_event.split option.split)
  then have "ha_active_active (fold ha_step evs x) = ha_active_active x" for x by (induction evs arbitrary: x) simp_all
  then have "\<not> ha_active_active h"
    using assms by (simp add: start_ha_def setup_election_def ha_single_def)
  with d show ?thesis
    by (auto simp: deaf_def membership_view_def assign_refused_def Let_def split: option.split)
qed

definition demo_config :: ha_config where
  "demo_config = \<lparr>hc_enabled = True, hc_mode = [], hc_node_id = ''m1'', hc_priority = 0,
     hc_peers = [PeerSpec ''m1'' 0 [] ''10.0.0.1'' 8000, PeerSpec ''m2'' 0 [] ''10.0.0.2'' 8000]\<rparr>"

text \<open>A follower of \<open>m2\<close> that still takes itself for the leader.\<close>

lemma election_never_reaches_scheduler_witness:
  "let h = fold ha_step [Beat 1 0 ''m2'' 7] (fst (start_ha 0 0 None True demo_config ha_single))
   in ha_is_leader h \<and> ha_fencing h = 0 \<and> (case ha_election h of None \<Rightarrow> False | Some e \<Rightarrow> leader_id e = Some ''m2'')"
proof -
  have cf: "hc_enabled demo_config" "hc_node_id demo_config \<noteq> []" "hc_peers demo_config \<noteq> []"
    by (simp_all add: demo_config_def)
  have "case ha_election (fold ha_step [Beat 1 0 ''m2'' 7] (fst (start_ha 0 0 None True demo_config ha_single))) of
      None \<Rightarrow> False | Some e \<Rightarrow> leader_id e = Some ''m2''"
    by (simp add: ha_step_def master_heartbeat_def on_election_def start_ha_def setup_election_def demo_config_def
        peer_specs_def add_known_node_def election_init_def load_state_def ha_single_def receive_heartbeat_def
        persist_state_def save_state_snapshot_def Let_def)
  then show ?thesis
    using election_never_reaches_scheduler [OF cf refl, where evs = "[Beat 1 0 ''m2'' 7]" and now = 0 and rnd = 0 and stored = None
      and writes = True]
    by (simp add: Let_def)
qed

subsection \<open>With the callbacks given to the constructor\<close>

definition leads_after :: "election_call list \<Rightarrow> bool \<Rightarrow> bool" where
  "leads_after ks b = fold (\<lambda>k _. case k of OnElected _ \<Rightarrow> True | OnDemoted \<Rightarrow> False) ks b"

lemma leads_after_simps [simp]:
  "leads_after [] b = b" "leads_after (ks @ ks') b = leads_after ks' (leads_after ks b)"
  "leads_after [OnElected n] b" "\<not> leads_after [OnDemoted] b"
  by (simp_all add: leads_after_def)

definition hooked :: "election \<Rightarrow> bool" where
  "hooked e \<longleftrightarrow> has_on_elected e \<and> has_on_demoted e"

lemma hooked_persist [simp]: "hooked (persist_state e) = hooked e"
  by (simp add: hooked_def persist_state_def save_state_snapshot_def)

definition tells :: "election \<Rightarrow> election \<Rightarrow> bool" where
  "tells e e' \<longleftrightarrow>
     (hooked e \<longrightarrow> hooked e' \<and> (\<exists>ks. el_calls e' = el_calls e @ ks \<and> leads_after ks (el_state e = LEADER) = (el_state e' = LEADER)))"

lemma tells_trans:
  assumes "tells e e1" and "tells e1 e2"
  shows "tells e e2"
  unfolding tells_def
proof
  assume h: "hooked e"
  obtain ks where ks: "el_calls e1 = el_calls e @ ks" "leads_after ks (el_state e = LEADER) = (el_state e1 = LEADER)" "hooked e1"
    using assms(1) h by (auto simp: tells_def)
  obtain ks' where ks': "el_calls e2 = el_calls e1 @ ks'" "leads_after ks' (el_state e1 = LEADER) = (el_state e2 = LEADER)" "hooked e2"
    using assms(2) ks(3) by (auto simp: tells_def)
  have "leads_after (ks @ ks') (el_state e = LEADER) = (el_state e2 = LEADER)" using ks(2) ks'(2) by simp
  then show "hooked e2 \<and> (\<exists>ks. el_calls e2 = el_calls e @ ks \<and> leads_after ks (el_state e = LEADER) = (el_state e2 = LEADER))"
    using ks(1) ks'(1,3) by auto
qed

lemma tells_quiet: "hooked e' = hooked e \<Longrightarrow> el_calls e' = el_calls e \<Longrightarrow> (el_state e' = LEADER) = (el_state e = LEADER) \<Longrightarrow> tells e e'"
  unfolding tells_def by (metis append_Nil2 leads_after_simps(1))

lemma tells_leader: "tells e (become_leader e)"
  unfolding tells_def hooked_def
  by (auto simp: become_leader_def Let_def persist_state_def save_state_snapshot_def)

lemma tells_follower: "tells e (become_follower e)"
  unfolding tells_def hooked_def
  by (cases "el_state e = LEADER") (auto simp: become_follower_def Let_def)

lemma tells_response: "tells e (handle_vote_response r e)"
proof -
  have "tells e (vote_response_raise_term r e)"
    by (rule tells_quiet) (simp_all add: vote_response_raise_term_def persist_state_def save_state_snapshot_def hooked_def)
  moreover have "tells e (e\<lparr>votes_received := vs\<rparr>)" for vs by (rule tells_quiet) (simp_all add: hooked_def)
  moreover have "tells e e" by (rule tells_quiet) simp_all
  ultimately show ?thesis
    using tells_trans [OF _ tells_leader] tells_trans [OF _ tells_follower] by (simp add: handle_vote_response_def Let_def)
qed

lemma tells_request: "tells e (fst (handle_vote_request now rnd rq e))"
proof -
  let ?f = "become_follower (e\<lparr>current_term := vr_term rq\<rparr>)"
  have "tells e (e\<lparr>current_term := vr_term rq\<rparr>)" by (rule tells_quiet) (simp_all add: hooked_def)
  then have f: "tells e ?f" by (rule tells_trans) (rule tells_follower)
  let ?x = "if vr_term rq > current_term e then ?f else e"
  have p: "tells y (persist_state y)" for y by (rule tells_quiet) simp_all
  have "tells e e" by (rule tells_quiet) simp_all
  with f have x: "tells e ?x" by simp
  have "tells y (y\<lparr>voted_for := v, last_heartbeat := t, election_timeout := o'\<rparr>)" for y v t o'
    by (rule tells_quiet) (simp_all add: hooked_def)
  note x' = tells_trans [OF x this]
  show ?thesis
    using x x' tells_trans [OF x p] tells_trans [OF x' p] by (simp only: handle_vote_request_def Let_def fst_conv split: if_split) blast
qed

lemma tells_heartbeat: "tells e (receive_heartbeat now rnd lid term e)"
proof -
  let ?e = "e\<lparr>current_term := term, leader_id := Some lid, last_heartbeat := now, election_timeout := random_timeout rnd e\<rparr>"
  have "tells e ?e" by (rule tells_quiet) (simp_all add: hooked_def)
  then have f: "tells e (become_follower ?e)" "tells e ?e" using tells_trans [OF _ tells_follower] by simp_all
  have p: "tells x (persist_state x)" for x
    by (rule tells_quiet) (simp_all add: hooked_def persist_state_def save_state_snapshot_def)
  have "tells e e" by (rule tells_quiet) simp_all
  then show ?thesis using tells_trans [OF f(1) p] tells_trans [OF f(2) p] by (simp add: receive_heartbeat_def Let_def)
qed

lemma tells_start: "el_state e \<noteq> LEADER \<Longrightarrow> tells e (start_election rnd ask e)"
proof -
  assume f: "el_state e \<noteq> LEADER"
  obtain e1 rq peers m where b: "start_election_begin rnd e = (e1, rq, peers, m)" by (metis prod_cases4)
  have "tells e e1"
  proof (rule tells_quiet)
    show "hooked e1 = hooked e" "el_calls e1 = el_calls e" "(el_state e1 = LEADER) = (el_state e = LEADER)"
      using b f by (auto simp: start_election_begin_def Let_def) (simp_all add: hooked_def)
  qed
  have step: "tells e (if has_send_vote x then (case ask rq p of None \<Rightarrow> x | Some r \<Rightarrow> handle_vote_response r x) else x)"
    if "tells e x" for p x
    using that tells_trans [OF that tells_response] by (auto split: option.split)
  have "tells e (fold (\<lambda>p e. if has_send_vote e
      then (case ask rq p of None \<Rightarrow> e | Some r \<Rightarrow> handle_vote_response r e) else e) peers e1)"
    if "tells e e1" for e1 using that step by (induction peers arbitrary: e1) simp_all
  then have "tells e (fold (\<lambda>p e. if has_send_vote e
      then (case ask rq p of None \<Rightarrow> e | Some r \<Rightarrow> handle_vote_response r e) else e) peers e1)" using \<open>tells e e1\<close> .
  then show ?thesis
    using tells_trans [OF _ tells_leader] unfolding start_election_def b by (simp add: finish_election_def)
qed

lemma tells_pass: "tells e (election_pass now rnd ask e)"
proof (cases "el_state e")
  case LEADER
  then show ?thesis by (intro tells_quiet) (simp_all add: election_pass_def election_tick_def Let_def hooked_def)
next
  case FOLLOWER
  moreover have "tells e e" by (rule tells_quiet) simp_all
  ultimately show ?thesis using tells_start [of e rnd ask] by (simp add: election_pass_def election_tick_def)
next
  case CANDIDATE
  moreover have "tells e e" by (rule tells_quiet) simp_all
  ultimately show ?thesis by (simp add: election_pass_def election_tick_def)
qed

text \<open>The master believes what its election decided.\<close>

definition in_step :: "ha_state \<Rightarrow> bool" where
  "in_step h \<longleftrightarrow> (\<exists>e. ha_election h = Some e \<and> hooked e \<and> ha_is_leader h = (el_state e = LEADER))"

lemma run_calls:
  "ha_is_leader (fold run_call ks h) = leads_after ks (ha_is_leader h) \<and> ha_election (fold run_call ks h) = ha_election h"
  by (induction ks arbitrary: h)
     (auto simp: leads_after_def run_call_def on_elected_leader_def on_demoted_from_leader_def Let_def
        split: election_call.split option.split)

lemma in_step_on_election:
  assumes "in_step h" and "\<And>e. tells e (f e)"
  shows "in_step (on_election f h)"
proof -
  obtain e where e: "ha_election h = Some e" "hooked e" "ha_is_leader h = (el_state e = LEADER)"
    using assms(1) by (auto simp: in_step_def)
  then show ?thesis
    using assms(2) [of e] run_calls by (auto simp: on_election_def in_step_def tells_def)
qed

theorem callbacks_keep_step: "in_step h \<Longrightarrow> in_step (fold ha_step evs h)"
proof (induction evs arbitrary: h)
  case (Cons ev evs)
  have "in_step (ha_step ev h)"
    using in_step_on_election [OF Cons.prems] Cons.prems
    by (cases ev) (auto simp: ha_step_def master_vote_request_def master_heartbeat_def tells_pass tells_request tells_heartbeat
        split: option.split)
  then show ?case using Cons.IH by simp
qed simp

text \<open>A master that lists itself as an object among its peers is one of its own peers: with two other
  masters it needs all three votes.\<close>

lemma own_entry_raises_the_majority:
  "let el = (\<lambda>p. the (ha_election (fst (start_ha 0 0 None True (demo_config\<lparr>hc_peers := [p, PeerName ''m2'', PeerName ''m3'']\<rparr>) ha_single))))
   in majority (el (PeerName ''m1'')) = 2 \<and> majority (el (PeerSpec ''m1'' 0 [] ''10.0.0.1'' 8000)) = 3"
  by (simp add: start_ha_def setup_election_def demo_config_def peer_specs_def peer_candidate_def add_known_node_def
      election_init_def load_state_def majority_def sadd_def Let_def)

end
