(* ===== verification/MasterRoutes.thy ===== *)
theory MasterRoutes
  imports SlotClaims HaStart NodeAdmission SessionStore
begin

text \<open>
  The routes of the master (\<open>server/master_server.py\<close>) over the components behind them: tasks, nodes, chat,
  sessions, key-value caches, rule epochs, confirmations and the election.  A route is a function from the state of
  the server to its new state and a status code or an answer.  The checks a route makes are combinators that run the
  rest of the route: the role of the user, the rights of the master's own identity, the token of the leader.  What is
  read from outside, the clock, the headers, the random part of an identifier, the quota of a tenant, the answers of
  agents, is a field of the call or an argument.
\<close>

subsection \<open>The server and a call\<close>

record server =
  srv_adm :: admission_state
  srv_services :: services
  srv_sessions :: session_store
  srv_pipeline :: bool

text \<open>Headers are as they came; \<open>cl_uuid\<close> is the random part of a new identifier and \<open>cl_quota\<close> the answer of the
  identity service.\<close>

record call =
  cl_now :: time
  cl_caller :: caller
  cl_target :: string
  cl_run :: string
  cl_idem :: string
  cl_token :: string
  cl_uuid :: string
  cl_quota :: "string \<Rightarrow> int option"
  cl_net :: net_env
  cl_hmac :: "string \<Rightarrow> string \<Rightarrow> string"
  cl_shows :: "int \<Rightarrow> string"
  cl_secret :: string
  cl_enforce :: string

type_synonym 'a server_reply = "server \<times> (nat + 'a)"

definition srv_master :: "server \<Rightarrow> master" where
  "srv_master s = ad_master (srv_adm s)"

definition put_master :: "master \<Rightarrow> server \<Rightarrow> server" where
  "put_master c s = s\<lparr>srv_adm := (srv_adm s)\<lparr>ad_master := c\<rparr>\<rparr>"

definition put_registry :: "registry \<Rightarrow> server \<Rightarrow> server" where
  "put_registry rg s = put_master ((srv_master s)\<lparr>ms_reg := rg\<rparr>) s"

definition srv_log :: "string \<Rightarrow> string \<Rightarrow> string \<Rightarrow> string \<Rightarrow> string \<Rightarrow> server \<Rightarrow> server" where
  "srv_log actor action path node result s = s\<lparr>srv_adm := log_audit actor action path node result (srv_adm s)\<rparr>"

subsection \<open>The checks of a route\<close>

text \<open>\<open>_enforce_user_rbac\<close>: the rest of the route gets the user of a user token, or nothing for the token of the
  cluster.\<close>

definition for_user :: "call \<Rightarrow> string \<Rightarrow> string \<Rightarrow> (string \<Rightarrow> server \<Rightarrow> 'a server_reply) \<Rightarrow> server \<Rightarrow> 'a server_reply" where
  "for_user ca path meth rest s =
     (case ca_role (cl_caller ca) of
        None \<Rightarrow> rest [] s
      | Some role \<Rightarrow>
          if check_user_path_access role path meth then rest (ca_actor (cl_caller ca)) s
          else (srv_log (ca_actor (cl_caller ca)) ''permission_deny'' path [] ''denied'' s, Inl 403))"

text \<open>\<open>_check_permission("master", path, method)\<close>; some routes log the refusal, under a path.\<close>

definition as_master :: "string \<Rightarrow> string \<Rightarrow> string option \<Rightarrow> (server \<Rightarrow> 'a server_reply) \<Rightarrow> server \<Rightarrow> 'a server_reply" where
  "as_master path meth logged rest s =
     (if check_path_access ''master'' path meth (ad_pm (srv_adm s)) then rest s
      else ((case logged of None \<Rightarrow> s | Some p \<Rightarrow> srv_log ''master'' ''permission_deny'' p [] ''denied'' s), Inl 403))"

definition check_leader_token :: "call \<Rightarrow> string \<Rightarrow> (server \<Rightarrow> 'a server_reply) \<Rightarrow> server \<Rightarrow> 'a server_reply" where
  "check_leader_token ca path rest s =
     (let h = ms_ha (srv_master s); presented = py_strip (cl_token ca)
      in if \<not> leader_token_enforce (cl_enforce ca) h then rest s
         else if presented = [] then rest s
         else if presented \<noteq> leader_token (cl_hmac ca) (cl_shows ca) (cl_secret ca) h
         then (srv_log (str_or (ca_actor (cl_caller ca)) ''unknown'') ''leader_token_reject'' path [] ''denied'' s, Inl 409)
         else rest s)"

definition standby :: "server \<Rightarrow> bool" where
  "standby s \<longleftrightarrow> ha_election (ms_ha (srv_master s)) \<noteq> None \<and> \<not> ha_is_leader (ms_ha (srv_master s))"

definition leader_unknown :: "server \<Rightarrow> bool" where
  "leader_unknown s \<longleftrightarrow>
     (case ha_election (ms_ha (srv_master s)) of
        None \<Rightarrow> False | Some e \<Rightarrow> \<not> ha_is_leader (ms_ha (srv_master s)) \<and> \<not> leader_known e)"

text \<open>\<open>_resolve_sandbox_headers\<close>: the node a task is bound to and the identifier of its run.\<close>

definition resolve_sandbox_headers :: "call \<Rightarrow> string list \<Rightarrow> parallel_mode \<Rightarrow> server \<Rightarrow> nat + string \<times> string" where
  "resolve_sandbox_headers ca exclude mode s =
     (let target = py_strip (cl_target ca); run = py_strip (cl_run ca); rg = ms_reg (srv_master s)
      in if target = [] \<and> run = [] then Inr ([], [])
         else if run \<noteq> [] \<and> \<not> is_safe_path_segment run then Inl 400
         else if target = [] then Inr ([], run)
         else if \<not> is_safe_path_segment target then Inl 400
         else if mode = PIPELINE then Inl 400
         else if target \<in> set exclude then Inl 400
         else case dget (rg_nodes rg) target of
                None \<Rightarrow> Inl 404
              | Some n \<Rightarrow>
                  if nd_status n \<noteq> ONLINE then Inl 409
                  else if nd_draining n then Inl 409
                  else if is_node_banned (cl_now ca) target rg then Inl 409
                  else Inr (target, run))"

text \<open>\<open>_resolve_tenant_quota\<close>.\<close>

definition resolve_tenant_quota :: "call \<Rightarrow> string \<Rightarrow> server \<Rightarrow> server" where
  "resolve_tenant_quota ca user s =
     (if user = [] then s
      else case cl_quota ca user of
             None \<Rightarrow> s
           | Some q \<Rightarrow> put_master (on_td (set_tenant_quota user q) (srv_master s)) s)"

subsection \<open>Submitting a task\<close>

record submit_request =
  su_name :: string
  su_mode :: string
  su_model_name :: string
  su_model_id :: "string option"
  su_timeout :: time
  su_user :: string
  su_capability :: string
  su_preferred :: string
  su_exclude :: "string list"
  su_priority :: int
  su_type :: string
  su_prompt :: string
  su_messages :: "json list"
  su_max_tokens :: int
  su_temperature :: real
  su_tier :: string
  su_batch :: string

definition request_mode :: "submit_request \<Rightarrow> parallel_mode" where
  "request_mode rq = (if su_mode rq = ''pipeline'' then PIPELINE else DATA)"

definition aa_task_prefix :: "ha_state \<Rightarrow> string" where
  "aa_task_prefix h = (if ha_active_active h then ha_node_id h else [])"

definition aa_owner :: "ha_state \<Rightarrow> string" where
  "aa_owner h = (if ha_active_active h then ha_node_id h else [])"

definition new_task_id :: "call \<Rightarrow> ha_state \<Rightarrow> string" where
  "new_task_id ca h =
     (if aa_task_prefix h \<noteq> [] then aa_task_prefix h @ ''-task_'' @ cl_uuid ca else ''task_'' @ cl_uuid ca)"

definition submitted_task :: "call \<Rightarrow> string \<Rightarrow> string \<Rightarrow> submit_request \<Rightarrow> ha_state \<Rightarrow> cluster_task" where
  "submitted_task ca user pinned rq h =
     \<lparr>tk_id = new_task_id ca h, tk_name = su_name rq, tk_mode = request_mode rq, tk_model_name = su_model_name rq,
      tk_model_id = su_model_id rq, tk_shards = [], tk_assigned = [], tk_status = PENDING, tk_created = cl_now ca,
      tk_started = 0, tk_completed = 0, tk_timeout = su_timeout rq, tk_error = [], tk_user = user,
      tk_capability = su_capability rq, tk_preferred = (if pinned \<noteq> [] then pinned else su_preferred rq),
      tk_exclude = su_exclude rq, tk_owner = aa_owner h, tk_pinned = pinned, tk_batch = su_batch rq, tk_tier = su_tier rq,
      tk_priority = su_priority rq, tk_degraded_from = [], tk_degradation_count = 0, tk_max_degradations = 2,
      tk_sub_tasks = [], tk_cancel_reason = [], tk_type = su_type rq,
      tk_params = [(''prompt'', JStr (su_prompt rq)), (''messages'', JList (su_messages rq)),
                   (''max_tokens'', JInt (su_max_tokens rq)), (''temperature'', JReal (su_temperature rq))],
      tk_result = [], tk_retry_count = 0, tk_next_retry_at = 0, tk_prev_outputs = []\<rparr>"

text \<open>The look-up of the idempotency key: the task a former submission started, when it is still in the table.\<close>

definition idempotent_task :: "call \<Rightarrow> server \<Rightarrow> server \<times> cluster_task option" where
  "idempotent_task ca s =
     (let key = py_strip (cl_idem ca); td = ms_td (srv_master s)
      in if key = [] then (s, None)
         else case try_idempotency (cl_now ca) key td (srv_services s) of
                (sv, None) \<Rightarrow> (s\<lparr>srv_services := sv\<rparr>, None)
              | (sv, Some tid) \<Rightarrow> (s\<lparr>srv_services := sv\<rparr>, get_task tid td))"

text \<open>The assignment of the new task, and what is recorded once it succeeded.  The answer says whether the task
  waits in the queue.\<close>

definition record_submission :: "call \<Rightarrow> string \<Rightarrow> string \<Rightarrow> server \<Rightarrow> server \<times> bool" where
  "record_submission ca run tid s =
     (let sv = (if py_strip (cl_idem ca) \<noteq> [] then register_idempotency (cl_now ca) (py_strip (cl_idem ca)) tid (srv_services s)
                else srv_services s)
      in if run = [] then (s\<lparr>srv_services := sv\<rparr>, True)
         else case register_run_id run tid sv of
                Inl _ \<Rightarrow> (s\<lparr>srv_services := sv\<rparr>, False)
              | Inr sv1 \<Rightarrow> (s\<lparr>srv_services := sv1\<rparr>, True))"

definition start_submitted :: "call \<Rightarrow> string \<Rightarrow> cluster_task \<Rightarrow> server \<Rightarrow> (bool \<times> cluster_task) server_reply" where
  "start_submitted ca run t s =
     (let r = fresh_ref (ms_td (srv_master s));
          (c, ok) = assign_task (cl_now ca) r (on_td (\<lambda>td. td\<lparr>td_obj := (td_obj td)(r := t)\<rparr>) (srv_master s));
          s1 = put_master c s
      in if \<not> ok then (s1, Inl 503)
         else case record_submission ca run (tk_id t) s1 of
                (s2, False) \<Rightarrow> (s2, Inl 500)
              | (s2, True) \<Rightarrow>
                  (let t1 = the_task r c
                   in (s2, Inr (tk_status t1 = PENDING \<and> tk_id t1 \<in> set (queue_ids (ms_td c)), t1))))"

definition submit_body :: "string \<Rightarrow> call \<Rightarrow> submit_request \<Rightarrow> string \<Rightarrow> server \<Rightarrow> (bool \<times> cluster_task) server_reply" where
  "submit_body path ca rq actor s =
     (if request_mode rq = PIPELINE \<and> \<not> srv_pipeline s then (s, Inl 400)
      else
        let user = str_or actor (su_user rq); s1 = resolve_tenant_quota ca user s
        in case resolve_sandbox_headers ca (su_exclude rq) (request_mode rq) s1 of
             Inl code \<Rightarrow> (s1, Inl code)
           | Inr (pinned, run) \<Rightarrow>
               (let t = submitted_task ca user pinned rq (ms_ha (srv_master s1));
                    s2 = srv_log (str_or user ''unknown'') ''task_submit'' path [] ''ok'' s1
                in case idempotent_task ca s2 of
                     (s3, Some old) \<Rightarrow> (s3, Inr (False, old))
                   | (s3, None) \<Rightarrow> start_submitted ca run t s3))"

definition submit_task :: "call \<Rightarrow> submit_request \<Rightarrow> server \<Rightarrow> (bool \<times> cluster_task) server_reply" where
  "submit_task ca rq =
     for_user ca ''/api/tasks/submit'' ''POST'' (\<lambda>actor.
       as_master ''/api/tasks/submit'' ''POST'' (Some ''/api/tasks/submit'') (\<lambda>s.
         if standby s then (s, Inl 503)
         else if leader_unknown s then (s, Inl 503)
         else check_leader_token ca ''/api/tasks/submit'' (submit_body ''/api/tasks/submit'' ca rq actor) s))"

definition v1_submit_task :: "call \<Rightarrow> submit_request \<Rightarrow> server \<Rightarrow> (bool \<times> cluster_task) server_reply" where
  "v1_submit_task ca rq =
     for_user ca ''/api/tasks/submit'' ''POST'' (\<lambda>actor.
       as_master ''/api/tasks/submit'' ''POST'' (Some ''/api/v1/tasks/submit'') (\<lambda>s.
         if standby s then (s, Inl 503)
         else check_leader_token ca ''/api/v1/tasks/submit'' (submit_body ''/api/v1/tasks/submit'' ca rq actor) s))"

definition run_lookup :: "call \<Rightarrow> string \<Rightarrow> server \<Rightarrow> cluster_task server_reply" where
  "run_lookup ca run =
     for_user ca ''/api/v1/runs'' ''GET'' (\<lambda>_ s.
       if \<not> is_safe_path_segment run then (s, Inl 400)
       else case get_task_by_run_id run (srv_services s) (ms_td (srv_master s)) of
              None \<Rightarrow> (s, Inl 404) | Some t \<Rightarrow> (s, Inr t))"

text \<open>The path of this check holds the identifier as it came.\<close>

definition get_task_route :: "call \<Rightarrow> string \<Rightarrow> server \<Rightarrow> cluster_task server_reply" where
  "get_task_route ca tid =
     for_user ca (''/api/tasks/'' @ tid) ''GET'' (\<lambda>_ s.
       (s, case get_task tid (ms_td (srv_master s)) of None \<Rightarrow> Inl 404 | Some t \<Rightarrow> Inr t))"

subsection \<open>Cancelling, degrading and migrating\<close>

text \<open>The nodes of the task and of its sub-tasks, read before the cancellation.\<close>

definition affected_nodes :: "cluster_task \<Rightarrow> tasks \<Rightarrow> string list" where
  "affected_nodes t td =
     tk_assigned t @ concat (map (\<lambda>sid. case get_task sid td of None \<Rightarrow> [] | Some sub \<Rightarrow> tk_assigned sub) (tk_sub_tasks t))"

text \<open>\<open>list(dict.fromkeys(xs))\<close>.\<close>

fun py_unique :: "'a list \<Rightarrow> 'a list" where
  "py_unique [] = []"
| "py_unique (x # xs) = x # filter (\<lambda>y. y \<noteq> x) (py_unique xs)"

text \<open>\<open>_notify\<close> for the nodes still in the table: the answer of an agent is a status, or nothing when the request
  raised.\<close>

definition notified_nodes :: "net_env \<Rightarrow> (int \<Rightarrow> string) \<Rightarrow> string \<Rightarrow> (string \<Rightarrow> nat option) \<Rightarrow> string list \<Rightarrow> registry \<Rightarrow> string list" where
  "notified_nodes env shows scheme answer nids rg =
     filter (\<lambda>nid. case dget (rg_nodes rg) nid of
                     None \<Rightarrow> False
                   | Some n \<Rightarrow>
                       is_safe_peer_host env (nd_ip_address n) \<and>
                       (case build_safe_url env shows scheme (nd_ip_address n) (nd_port n) ''/api/tasks/cancel'' of
                          Inl _ \<Rightarrow> False | Inr _ \<Rightarrow> answer nid = Some 200)) nids"

definition cancel_route ::
  "call \<Rightarrow> string \<Rightarrow> (string \<Rightarrow> nat option) \<Rightarrow> string \<Rightarrow> string \<Rightarrow> server \<Rightarrow> (string list) server_reply" where
  "cancel_route ca scheme answer tid reason =
     for_user ca ''/api/tasks/cancel'' ''POST'' (\<lambda>actor.
       as_master ''/api/tasks/cancel'' ''POST'' (Some ''/api/tasks/cancel'')
         (check_leader_token ca (''/api/tasks/'' @ tid @ ''/cancel'') (\<lambda>s.
           case get_task tid (ms_td (srv_master s)) of
             None \<Rightarrow> (s, Inl 404)
           | Some t \<Rightarrow>
               (let affected = affected_nodes t (ms_td (srv_master s));
                    (c, ok) = cancel_task (cl_now ca) tid reason True (srv_master s); s1 = put_master c s
                in if \<not> ok then (s1, Inl 400)
                   else (srv_log (str_or actor ''master'') ''task_cancel'' ''/api/tasks/cancel'' [] ''ok'' s1,
                         Inr (notified_nodes (cl_net ca) (cl_shows ca) scheme answer (py_unique affected) (ms_reg c)))))))"

definition degrade_route :: "call \<Rightarrow> string \<Rightarrow> server \<Rightarrow> unit server_reply" where
  "degrade_route ca tid =
     for_user ca ''/api/tasks/degrade'' ''POST'' (\<lambda>_ s.
       let (c, ok) = degrade_task (cl_now ca) tid (srv_master s) in (put_master c s, if ok then Inr () else Inl 400))"

definition v1_degrade_task :: "call \<Rightarrow> string \<Rightarrow> server \<Rightarrow> unit server_reply" where
  "v1_degrade_task = degrade_route"

definition migrate_with :: "string \<Rightarrow> call \<Rightarrow> string \<Rightarrow> server \<Rightarrow> unit server_reply" where
  "migrate_with path ca tid =
     for_user ca ''/api/tasks/migrate'' ''POST'' (\<lambda>actor.
       as_master ''/api/tasks/migrate'' ''POST'' None (\<lambda>s.
         let (c, ok) = migrate_task (cl_now ca) tid (srv_master s); s1 = put_master c s
         in if ok then (srv_log (str_or actor ''master'') ''task_migrate'' path [] ''ok'' s1, Inr ()) else (s1, Inl 500)))"

definition migrate_route :: "call \<Rightarrow> string \<Rightarrow> server \<Rightarrow> unit server_reply" where
  "migrate_route = migrate_with ''/api/tasks/migrate''"

definition v1_migrate_task :: "call \<Rightarrow> string \<Rightarrow> server \<Rightarrow> unit server_reply" where
  "v1_migrate_task = migrate_with ''/api/v1/tasks/migrate''"

subsection \<open>Nodes\<close>

definition heartbeat_route ::
  "call \<Rightarrow> string \<Rightarrow> real option \<Rightarrow> real option \<Rightarrow> int option \<Rightarrow> bool option \<Rightarrow> server \<Rightarrow> unit server_reply" where
  "heartbeat_route ca nid tot avail active spv =
     for_user ca ''/api/nodes/heartbeat'' ''POST'' (\<lambda>_ s.
       let (rg, ok) = update_heartbeat (cl_now ca) nid tot avail active spv (ms_reg (srv_master s))
       in (put_registry rg s, if ok then Inr () else Inl 404))"

definition fault_route :: "call \<Rightarrow> string \<Rightarrow> server \<Rightarrow> unit server_reply" where
  "fault_route ca nid s =
     (let (rg, ok) = report_fault (cl_now ca) nid (ms_reg (srv_master s))
      in (put_registry rg s, if ok then Inr () else Inl 404))"

definition load_route ::
  "call \<Rightarrow> string \<Rightarrow> load_metrics \<Rightarrow> real option \<Rightarrow> real option \<Rightarrow> bool option \<Rightarrow> server \<Rightarrow> unit server_reply" where
  "load_route ca nid m used tot spv s =
     (put_registry (update_node_load (cl_now ca) nid m used tot spv (ms_reg (srv_master s))) s, Inr ())"

definition drain_route :: "call \<Rightarrow> string \<Rightarrow> server \<Rightarrow> unit server_reply" where
  "drain_route ca nid =
     for_user ca ''/api/nodes/drain'' ''POST'' (\<lambda>_.
       as_master ''/api/nodes/drain'' ''POST'' (Some ''/api/nodes/drain'') (\<lambda>s.
         let (rg, ok) = set_node_draining nid True (ms_reg (srv_master s)); s1 = put_registry rg s
         in if ok then (srv_log ''master'' ''node_drain'' (''/api/nodes/'' @ nid @ ''/drain'') nid ''ok'' s1, Inr ())
            else (s1, Inl 404)))"

definition undrain_route :: "call \<Rightarrow> string \<Rightarrow> server \<Rightarrow> unit server_reply" where
  "undrain_route ca nid =
     for_user ca ''/api/nodes/drain'' ''POST'' (\<lambda>_ s.
       let (rg, ok) = set_node_draining nid False (ms_reg (srv_master s)); s1 = put_registry rg s
       in if ok then (srv_log ''master'' ''node_undrain'' (''/api/nodes/'' @ nid @ ''/undrain'') nid ''ok'' s1, Inr ())
          else (s1, Inl 404))"

definition drain_status_route :: "time \<Rightarrow> string \<Rightarrow> server \<Rightarrow> (bool \<times> nat \<times> bool \<times> bool) server_reply" where
  "drain_status_route threshold nid s =
     (s, case drain_status threshold nid (srv_master s) of None \<Rightarrow> Inl 404 | Some st \<Rightarrow> Inr st)"

definition unregister_route :: "call \<Rightarrow> string \<Rightarrow> server \<Rightarrow> unit server_reply" where
  "unregister_route ca nid =
     as_master ''/api/nodes/'' ''DELETE'' None (\<lambda>s.
       (put_registry (unregister_node (cl_now ca) nid [] (ms_reg (srv_master s))) s, Inr ()))"

definition v1_unregister_node :: "call \<Rightarrow> string \<Rightarrow> server \<Rightarrow> unit server_reply" where
  "v1_unregister_node = unregister_route"

text \<open>The request forwarded to the supervisor of a node; it is logged before it is made.\<close>

definition FORWARDED_OPS :: "string list" where
  "FORWARDED_OPS = [''status'', ''drain'', ''rollout'', ''shutdown'', ''backup'']"

definition node_supervisor_op :: "call \<Rightarrow> string \<Rightarrow> string \<Rightarrow> string \<Rightarrow> server \<Rightarrow> string server_reply" where
  "node_supervisor_op ca scheme nid op =
     for_user ca ''/api/nodes/supervisor'' ''POST'' (\<lambda>_ s.
       if op \<notin> set FORWARDED_OPS then (s, Inl 400)
       else case dget (rg_nodes (ms_reg (srv_master s))) nid of
              None \<Rightarrow> (s, Inl 404)
            | Some n \<Rightarrow>
                if \<not> is_safe_peer_host (cl_net ca) (nd_ip_address n) then (s, Inl 503)
                else case build_safe_url (cl_net ca) (cl_shows ca) scheme (nd_ip_address n) (nd_port n) (''/api/supervisor/'' @ op) of
                       Inl _ \<Rightarrow> (s, Inl 500)
                     | Inr url \<Rightarrow>
                         (srv_log ''master'' ''supervisor_op'' (''/api/nodes/'' @ nid @ ''/supervisor/'' @ op) nid ''ok'' s, Inr url))"

definition node_supervisor_status :: "call \<Rightarrow> string \<Rightarrow> string \<Rightarrow> server \<Rightarrow> string server_reply" where
  "node_supervisor_status ca scheme nid =
     for_user ca ''/api/nodes/supervisor'' ''GET'' (\<lambda>_ s.
       case dget (rg_nodes (ms_reg (srv_master s))) nid of
         None \<Rightarrow> (s, Inl 404)
       | Some n \<Rightarrow>
           if \<not> is_safe_peer_host (cl_net ca) (nd_ip_address n) then (s, Inl 503)
           else case build_safe_url (cl_net ca) (cl_shows ca) scheme (nd_ip_address n) (nd_port n) ''/api/supervisor/status'' of
                  Inl _ \<Rightarrow> (s, Inl 500) | Inr url \<Rightarrow> (s, Inr url))"

subsection \<open>The chat proxy\<close>

text \<open>The answer of the agent: a status with the body when it is JSON, or nothing when the request raised.\<close>

type_synonym agent_answer = "(nat \<times> json option) option"

datatype chat_reply = Relayed string | Completion json

definition on_services :: "(services \<Rightarrow> services) \<Rightarrow> server \<Rightarrow> server" where
  "on_services f s = s\<lparr>srv_services := f (srv_services s)\<rparr>"

definition free_chat_slot :: "string \<Rightarrow> server \<Rightarrow> server" where
  "free_chat_slot user s =
     (if user = [] then s else on_services (release_chat_slot user (ms_td (srv_master s))) s)"

definition chat_request :: select_request where
  "chat_request =
     \<lparr>sq_mode = DATA, sq_memory = 0, sq_count = 1, sq_capability = [], sq_preferred = [], sq_exclude = [],
      sq_tier = ''general'', sq_shard_roles = [], sq_pinned = []\<rparr>"

text \<open>The body of the \<open>try\<close>: the status code an exception is answered with, or the reply.\<close>

definition chat_forward :: "call \<Rightarrow> string \<Rightarrow> bool \<Rightarrow> (string \<Rightarrow> agent_answer) \<Rightarrow> string \<Rightarrow> server \<Rightarrow> chat_reply server_reply" where
  "chat_forward ca scheme streams post actor s =
     (case select_nodes (cl_now ca) chat_request (ms_reg (srv_master s)) of
        [] \<Rightarrow> (s, Inl 503)
      | n # _ \<Rightarrow>
          if \<not> is_safe_peer_host (cl_net ca) (nd_ip_address n) then (s, Inl 503)
          else case build_safe_url (cl_net ca) (cl_shows ca) scheme (nd_ip_address n) (nd_port n) ''/api/v1/chat/completions'' of
                 Inl _ \<Rightarrow> (s, Inl 502)
               | Inr url \<Rightarrow>
                   (let s1 = srv_log (str_or actor ''master'') ''chat'' ''/v1/chat/completions'' (nd_id n) ''ok'' s
                    in if streams then (s1, Inr (Relayed url))
                       else case post url of
                              None \<Rightarrow> (s1, Inl 502)
                            | Some (st, body) \<Rightarrow>
                                if st = 429 then (s1, Inl 429)
                                else if st \<noteq> 200 then (s1, Inl 502)
                                else (case body of None \<Rightarrow> (s1, Inl 502) | Some j \<Rightarrow> (s1, Inr (Completion j)))))"

text \<open>The \<open>finally\<close>: a streamed reply keeps the slot until \<open>free_chat_slot\<close> at the end of the stream.\<close>

definition chat_completions_proxy ::
  "call \<Rightarrow> string \<Rightarrow> bool \<Rightarrow> (string \<Rightarrow> agent_answer) \<Rightarrow> server \<Rightarrow> chat_reply server_reply" where
  "chat_completions_proxy ca scheme streams post =
     for_user ca ''/v1/chat/completions'' ''POST'' (\<lambda>actor s.
       let (sv, got) = (if actor = [] then (srv_services s, True)
                        else acquire_chat_slot actor (ms_td (srv_master s)) (srv_services s));
           s1 = s\<lparr>srv_services := sv\<rparr>
       in if \<not> got then (srv_log actor ''chat_quota_exceeded'' ''/v1/chat/completions'' [] ''denied'' s1, Inl 429)
          else (case chat_forward ca scheme streams post actor s1 of
                  (s2, Inr (Relayed url)) \<Rightarrow> (s2, Inr (Relayed url))
                | (s2, res) \<Rightarrow> (free_chat_slot actor s2, res)))"

subsection \<open>Sessions and the session store\<close>

definition sessions_register ::
  "call \<Rightarrow> string \<Rightarrow> string \<Rightarrow> string \<Rightarrow> string \<Rightarrow> (string, json) dict \<Rightarrow> server \<Rightarrow> cluster_session server_reply" where
  "sessions_register ca sid origin host owner meta =
     for_user ca ''/api/sessions'' ''POST'' (\<lambda>actor s.
       if sid = [] then (s, Inl 400)
       else if origin \<noteq> [] \<and> \<not> is_safe_path_segment origin then (s, Inl 400)
       else if host \<noteq> [] \<and> \<not> is_safe_path_segment host then (s, Inl 400)
       else case register_session (cl_now ca) sid origin host (str_or actor owner) meta (srv_services s) of
              Inl _ \<Rightarrow> (s, Inl 500)
            | Inr (sv, ses) \<Rightarrow>
                (srv_log (str_or actor sid) ''session_register'' ''/api/sessions'' [] ''ok'' (s\<lparr>srv_services := sv\<rparr>), Inr ses))"

definition sessions_list :: "call \<Rightarrow> server \<Rightarrow> (cluster_session list) server_reply" where
  "sessions_list ca = for_user ca ''/api/sessions'' ''GET'' (\<lambda>_ s. (s, Inr (list_sessions (srv_services s))))"

definition sessions_get :: "call \<Rightarrow> string \<Rightarrow> server \<Rightarrow> cluster_session server_reply" where
  "sessions_get ca sid =
     for_user ca ''/api/sessions'' ''GET'' (\<lambda>_ s.
       if \<not> is_safe_path_segment sid then (s, Inl 400)
       else (s, case get_session sid (srv_services s) of None \<Rightarrow> Inl 404 | Some ses \<Rightarrow> Inr ses))"

definition sessions_handoff :: "call \<Rightarrow> string \<Rightarrow> string \<Rightarrow> server \<Rightarrow> cluster_session server_reply" where
  "sessions_handoff ca sid target =
     for_user ca ''/api/sessions'' ''POST'' (\<lambda>actor s.
       if \<not> is_safe_path_segment sid then (s, Inl 400)
       else if \<not> is_safe_path_segment target then (s, Inl 400)
       else case handoff_session (cl_now ca) sid target (ms_reg (srv_master s)) (srv_services s) of
              Inl (KeyError _) \<Rightarrow> (s, Inl 404)
            | Inl _ \<Rightarrow> (s, Inl 400)
            | Inr (sv, ses) \<Rightarrow>
                (srv_log (str_or actor sid) ''session_handoff'' ''/api/sessions/handoff'' [] ''ok'' (s\<lparr>srv_services := sv\<rparr>), Inr ses))"

definition sessions_close :: "call \<Rightarrow> string \<Rightarrow> server \<Rightarrow> cluster_session server_reply" where
  "sessions_close ca sid =
     for_user ca ''/api/sessions'' ''DELETE'' (\<lambda>actor s.
       if \<not> is_safe_path_segment sid then (s, Inl 400)
       else case close_session (cl_now ca) sid (srv_services s) of
              Inl _ \<Rightarrow> (s, Inl 404)
            | Inr (sv, ses) \<Rightarrow>
                (srv_log (str_or actor sid) ''session_close'' ''/api/sessions'' [] ''ok'' (s\<lparr>srv_services := sv\<rparr>), Inr ses))"

text \<open>An exception of the store is answered with 500.\<close>

definition store_list :: "call \<Rightarrow> py_conv \<Rightarrow> int \<Rightarrow> server \<Rightarrow> ((string, json) dict list) server_reply" where
  "store_list ca pc limit =
     for_user ca ''/api/v1/session-store'' ''GET'' (\<lambda>_ s.
       (s, case session_listing pc limit (srv_sessions s) of Inl _ \<Rightarrow> Inl 500 | Inr rows \<Rightarrow> Inr rows))"

definition store_get :: "call \<Rightarrow> string \<Rightarrow> server \<Rightarrow> json server_reply" where
  "store_get ca sid =
     for_user ca ''/api/v1/session-store'' ''GET'' (\<lambda>_ s.
       if \<not> is_safe_path_segment sid then (s, Inl 400)
       else (s, case read_session sid (srv_sessions s) of None \<Rightarrow> Inl 404 | Some j \<Rightarrow> Inr j))"

definition store_put :: "call \<Rightarrow> py_conv \<Rightarrow> bool \<Rightarrow> string \<Rightarrow> (string, json) dict \<Rightarrow> server \<Rightarrow> (string, json) dict server_reply" where
  "store_put ca pc writes sid d =
     for_user ca ''/api/v1/session-store'' ''PUT'' (\<lambda>actor s.
       if \<not> is_safe_path_segment sid then (s, Inl 400)
       else if to_str pc (value_or (jget d ''id'' (JStr [])) (JStr [])) \<noteq> sid then (s, Inl 400)
       else case put_session pc (cl_now ca) writes d (srv_sessions s) of
              (ss, Inl _) \<Rightarrow> (s\<lparr>srv_sessions := ss\<rparr>, Inl 500)
            | (ss, Inr row) \<Rightarrow>
                (srv_log (str_or actor sid) ''session_store_put'' ''/api/v1/session-store'' [] ''ok'' (s\<lparr>srv_sessions := ss\<rparr>),
                 Inr row))"

definition store_delete :: "call \<Rightarrow> string \<Rightarrow> server \<Rightarrow> unit server_reply" where
  "store_delete ca sid =
     for_user ca ''/api/v1/session-store'' ''DELETE'' (\<lambda>actor s.
       if \<not> is_safe_path_segment sid then (s, Inl 400)
       else case delete_session sid (srv_sessions s) of
              (ss, False) \<Rightarrow> (s\<lparr>srv_sessions := ss\<rparr>, Inl 404)
            | (ss, True) \<Rightarrow>
                (srv_log (str_or actor sid) ''session_store_delete'' ''/api/v1/session-store'' [] ''ok'' (s\<lparr>srv_sessions := ss\<rparr>),
                 Inr ()))"

definition store_fork :: "call \<Rightarrow> py_conv \<Rightarrow> bool \<Rightarrow> string \<Rightarrow> server \<Rightarrow> (string, json) dict server_reply" where
  "store_fork ca pc writes sid =
     for_user ca ''/api/v1/session-store'' ''POST'' (\<lambda>actor s.
       if \<not> is_safe_path_segment sid then (s, Inl 400)
       else case fork_session pc (cl_now ca) writes sid [] (srv_sessions s) of
              (ss, Inl _) \<Rightarrow> (s\<lparr>srv_sessions := ss\<rparr>, Inl 500)
            | (ss, Inr None) \<Rightarrow> (s\<lparr>srv_sessions := ss\<rparr>, Inl 404)
            | (ss, Inr (Some d)) \<Rightarrow>
                (srv_log (str_or actor sid) ''session_store_fork'' ''/api/v1/session-store'' [] ''ok'' (s\<lparr>srv_sessions := ss\<rparr>), Inr d))"

subsection \<open>Caches, rule epochs, confirmations and the election\<close>

definition kv_register :: "call \<Rightarrow> string \<Rightarrow> string \<Rightarrow> string \<Rightarrow> real \<Rightarrow> time \<Rightarrow> server \<Rightarrow> unit server_reply" where
  "kv_register ca cid model nid mb ttl =
     for_user ca ''/api/kv/register'' ''POST'' (\<lambda>_ s.
       (on_services (register_kv_cache \<lparr>kv_id = cid, kv_model = model, kv_node = nid, kv_created = cl_now ca,
           kv_size_mb = mb, kv_ttl = ttl, kv_access = 0\<rparr>) s, Inr ()))"

definition kv_find :: "call \<Rightarrow> string \<Rightarrow> server \<Rightarrow> kv_entry server_reply" where
  "kv_find ca model =
     for_user ca ''/api/kv/find'' ''GET'' (\<lambda>_ s.
       case find_kv_cache (cl_now ca) model (ms_reg (srv_master s)) (srv_services s) of
         (sv, None) \<Rightarrow> (s\<lparr>srv_services := sv\<rparr>, Inl 404) | (sv, Some e) \<Rightarrow> (s\<lparr>srv_services := sv\<rparr>, Inr e))"

definition rules_epoch :: "call \<Rightarrow> server \<Rightarrow> int server_reply" where
  "rules_epoch ca = for_user ca ''/api/v1/rules/epoch'' ''GET'' (\<lambda>_ s. (s, Inr (sv_epoch (srv_services s))))"

text \<open>These entries of the log have no path.\<close>

definition rules_advance :: "call \<Rightarrow> server \<Rightarrow> int server_reply" where
  "rules_advance ca =
     for_user ca ''/api/v1/rules/epoch/advance'' ''POST'' (\<lambda>_ s.
       case advance_rule_epoch (cl_now ca) (ms_ha (srv_master s)) (srv_services s) of
         Inl _ \<Rightarrow> (srv_log (ca_actor (cl_caller ca)) ''rule_epoch_advance'' [] [] ''error'' s, Inl 409)
       | Inr (sv, e) \<Rightarrow> (srv_log (ca_actor (cl_caller ca)) ''rule_epoch_advance'' [] [] ''ok'' (s\<lparr>srv_services := sv\<rparr>), Inr e))"

definition rules_receive :: "call \<Rightarrow> int \<Rightarrow> server \<Rightarrow> int server_reply" where
  "rules_receive ca epoch =
     for_user ca ''/api/rules/epoch'' ''POST'' (\<lambda>_ s.
       case receive_rule_epoch (cl_now ca) epoch (srv_services s) of
         (sv, False, e) \<Rightarrow> (s\<lparr>srv_services := sv\<rparr>, Inl 409) | (sv, True, e) \<Rightarrow> (s\<lparr>srv_services := sv\<rparr>, Inr e))"

definition confirm_relay ::
  "call \<Rightarrow> ((string, json) dict \<Rightarrow> string \<Rightarrow> bool) \<Rightarrow> string \<Rightarrow> string \<Rightarrow> string \<Rightarrow> int \<Rightarrow> string \<Rightarrow> string \<Rightarrow> server \<Rightarrow> unit server_reply" where
  "confirm_relay ca mac_ok cid nid action epoch ts mac =
     for_user ca ''/api/confirm'' ''POST'' (\<lambda>_ s.
       case receive_confirm mac_ok (cl_now ca) cid nid action epoch ts mac (srv_services s) of
         (sv, False) \<Rightarrow> (srv_log nid ''confirm_relay_fail'' [] [] ''denied'' (s\<lparr>srv_services := sv\<rparr>), Inl 401)
       | (sv, True) \<Rightarrow> (s\<lparr>srv_services := sv\<rparr>, Inr ()))"

definition confirms_list :: "call \<Rightarrow> int option \<Rightarrow> server \<Rightarrow> ((string, json) dict list) server_reply" where
  "confirms_list ca epoch = for_user ca ''/api/v1/confirms'' ''GET'' (\<lambda>_ s. (s, Inr (get_confirms epoch (srv_services s))))"

definition put_ha :: "ha_state \<Rightarrow> server \<Rightarrow> server" where
  "put_ha h s = put_master ((srv_master s)\<lparr>ms_ha := h\<rparr>) s"

definition ha_vote :: "call \<Rightarrow> real \<Rightarrow> vote_request \<Rightarrow> server \<Rightarrow> vote_response server_reply" where
  "ha_vote ca rnd rq =
     for_user ca ''/api/ha/vote'' ''POST'' (\<lambda>_ s.
       case master_vote_request (cl_now ca) rnd rq (ms_ha (srv_master s)) of (h, resp) \<Rightarrow> (put_ha h s, Inr resp))"

definition ha_heartbeat :: "call \<Rightarrow> real \<Rightarrow> string \<Rightarrow> int \<Rightarrow> server \<Rightarrow> unit server_reply" where
  "ha_heartbeat ca rnd lid term =
     for_user ca ''/api/ha/heartbeat'' ''POST'' (\<lambda>_ s.
       if lid = [] then (s, Inl 400)
       else (put_ha (master_heartbeat (cl_now ca) rnd lid term (ms_ha (srv_master s))) s, Inr ()))"

definition ha_sync_tasks :: "call \<Rightarrow> cluster_task option list \<Rightarrow> server \<Rightarrow> nat server_reply" where
  "ha_sync_tasks ca ds =
     for_user ca ''/api/ha/sync-tasks'' ''POST'' (\<lambda>_ s.
       let (td, merged) = receive_synced_tasks (cl_now ca) (ms_ha (srv_master s)) ds (ms_td (srv_master s))
       in (put_master ((srv_master s)\<lparr>ms_td := td\<rparr>) s, Inr merged))"

definition ha_sync_state :: "call \<Rightarrow> py_conv \<Rightarrow> sync_state \<Rightarrow> server \<Rightarrow> (nat \<times> nat \<times> nat) server_reply" where
  "ha_sync_state ca pc body =
     for_user ca ''/api/ha/sync-state'' ''POST'' (\<lambda>_ s.
       let c = srv_master s;
           ((rg, sv, h), counts) = ha_sync_state_route pc (cl_now ca) body (ms_reg c, srv_services s, ms_ha c)
       in (put_master (c\<lparr>ms_reg := rg, ms_ha := h\<rparr>) (s\<lparr>srv_services := sv\<rparr>), Inr counts))"

subsection \<open>All calls\<close>

datatype api_call =
  SubmitTask submit_request
| SubmitTaskV1 submit_request
| LookUpRun string
| CancelTask string "string \<Rightarrow> nat option" string string
| DegradeTask string
| MigrateTask string
| MigrateTaskV1 string
| NodeHeartbeat string "real option" "real option" "int option" "bool option"
| NodeFault string
| NodeLoad string load_metrics "real option" "real option" "bool option"
| DrainNode string
| UndrainNode string
| DrainStatus time string
| UnregisterNode string
| SupervisorOp string string string
| SupervisorStatus string string
| Chat string bool "string \<Rightarrow> agent_answer"
| RegisterSession string string string string "(string, json) dict"
| ListSessions
| GetSession string
| HandoffSession string string
| CloseSession string
| StoreList py_conv int
| StoreGet string
| StorePut py_conv bool string "(string, json) dict"
| StoreDelete string
| StoreFork py_conv bool string
| KvRegister string string string real time
| KvFind string
| GetEpoch
| AdvanceEpoch
| ReceiveEpoch int
| Confirm "(string, json) dict \<Rightarrow> string \<Rightarrow> bool" string string string int string string
| ListConfirms "int option"
| HaVote real vote_request
| HaHeartbeat real string int
| HaSyncTasks "cluster_task option list"
| HaSyncState py_conv sync_state

fun api_step :: "call \<Rightarrow> api_call \<Rightarrow> server \<Rightarrow> server" where
  "api_step ca (SubmitTask rq) s = fst (submit_task ca rq s)"
| "api_step ca (SubmitTaskV1 rq) s = fst (v1_submit_task ca rq s)"
| "api_step ca (LookUpRun run) s = fst (run_lookup ca run s)"
| "api_step ca (CancelTask scheme answer tid reason) s = fst (cancel_route ca scheme answer tid reason s)"
| "api_step ca (DegradeTask tid) s = fst (degrade_route ca tid s)"
| "api_step ca (MigrateTask tid) s = fst (migrate_route ca tid s)"
| "api_step ca (MigrateTaskV1 tid) s = fst (v1_migrate_task ca tid s)"
| "api_step ca (NodeHeartbeat nid tot avail active spv) s = fst (heartbeat_route ca nid tot avail active spv s)"
| "api_step ca (NodeFault nid) s = fst (fault_route ca nid s)"
| "api_step ca (NodeLoad nid m used tot spv) s = fst (load_route ca nid m used tot spv s)"
| "api_step ca (DrainNode nid) s = fst (drain_route ca nid s)"
| "api_step ca (UndrainNode nid) s = fst (undrain_route ca nid s)"
| "api_step ca (DrainStatus threshold nid) s = fst (drain_status_route threshold nid s)"
| "api_step ca (UnregisterNode nid) s = fst (unregister_route ca nid s)"
| "api_step ca (SupervisorOp scheme nid op) s = fst (node_supervisor_op ca scheme nid op s)"
| "api_step ca (SupervisorStatus scheme nid) s = fst (node_supervisor_status ca scheme nid s)"
| "api_step ca (Chat scheme streams post) s = fst (chat_completions_proxy ca scheme streams post s)"
| "api_step ca (RegisterSession sid origin host owner meta) s = fst (sessions_register ca sid origin host owner meta s)"
| "api_step ca ListSessions s = fst (sessions_list ca s)"
| "api_step ca (GetSession sid) s = fst (sessions_get ca sid s)"
| "api_step ca (HandoffSession sid target) s = fst (sessions_handoff ca sid target s)"
| "api_step ca (CloseSession sid) s = fst (sessions_close ca sid s)"
| "api_step ca (StoreList pc limit) s = fst (store_list ca pc limit s)"
| "api_step ca (StoreGet sid) s = fst (store_get ca sid s)"
| "api_step ca (StorePut pc writes sid d) s = fst (store_put ca pc writes sid d s)"
| "api_step ca (StoreDelete sid) s = fst (store_delete ca sid s)"
| "api_step ca (StoreFork pc writes sid) s = fst (store_fork ca pc writes sid s)"
| "api_step ca (KvRegister cid model nid mb ttl) s = fst (kv_register ca cid model nid mb ttl s)"
| "api_step ca (KvFind model) s = fst (kv_find ca model s)"
| "api_step ca GetEpoch s = fst (rules_epoch ca s)"
| "api_step ca AdvanceEpoch s = fst (rules_advance ca s)"
| "api_step ca (ReceiveEpoch e) s = fst (rules_receive ca e s)"
| "api_step ca (Confirm mac_ok cid nid action epoch ts mac) s = fst (confirm_relay ca mac_ok cid nid action epoch ts mac s)"
| "api_step ca (ListConfirms epoch) s = fst (confirms_list ca epoch s)"
| "api_step ca (HaVote rnd rq) s = fst (ha_vote ca rnd rq s)"
| "api_step ca (HaHeartbeat rnd lid term) s = fst (ha_heartbeat ca rnd lid term s)"
| "api_step ca (HaSyncTasks ds) s = fst (ha_sync_tasks ca ds s)"
| "api_step ca (HaSyncState pc body) s = fst (ha_sync_state ca pc body s)"

end
