(* ===== verification/TestBatches.thy ===== *)
theory TestBatches
  imports RouteClaims Sharding
begin

text \<open>
  The routes for batches of tests (\<open>server/master_server.py\<close>): a batch is submitted as one task per job, under an
  idempotency key of its own, and its state and report are read off the tasks.  The identifiers drawn for the jobs are
  an argument by position.
\<close>

record batch_server =
  bs_server :: server
  bs_batches :: "(string, test_batch) dict"

record job_request =
  jr_id :: string
  jr_command :: "string list"
  jr_cwd :: string
  jr_env :: "(string, string) dict"
  jr_timeout :: int
  jr_driver :: string
  jr_preferred :: string
  jr_exclude :: "string list"

record batch_request =
  br_jobs :: "job_request list"
  br_user :: string
  br_priority :: int
  br_tier :: string

text \<open>\<open>TaskStatus.value\<close>.\<close>

fun status_value :: "task_status \<Rightarrow> string" where
  "status_value PENDING = ''pending''"
| "status_value RUNNING = ''running''"
| "status_value COMPLETED = ''completed''"
| "status_value FAILED = ''failed''"
| "status_value CANCELLED = ''cancelled''"
| "status_value TIMEOUT = ''timeout''"
| "status_value MIGRATED = ''migrated''"
| "status_value PARTIAL = ''partial''"

subsection \<open>Submitting\<close>

definition prefixed :: "ha_state \<Rightarrow> string \<Rightarrow> string" where
  "prefixed h x = (if aa_task_prefix h \<noteq> [] then aa_task_prefix h @ ''-'' @ x else x)"

text \<open>\<open>uids i\<close> are the two random parts drawn for job \<open>i\<close>: of its identifier and of its task's.\<close>

definition job_id_of :: "call \<Rightarrow> (nat \<Rightarrow> string \<times> string) \<Rightarrow> nat \<Rightarrow> job_request \<Rightarrow> string" where
  "job_id_of ca uids i j = (if jr_id j \<noteq> [] then jr_id j else ''job_'' @ cl_shows ca (int i) @ ''_'' @ fst (uids i))"

definition job_task :: "call \<Rightarrow> string \<Rightarrow> string \<Rightarrow> string \<Rightarrow> string \<Rightarrow> batch_request \<Rightarrow> job_request \<Rightarrow> ha_state \<Rightarrow> cluster_task" where
  "job_task ca user jid tid bid rq j h =
     \<lparr>tk_id = tid, tk_name = ''test-batch:'' @ jid, tk_mode = DATA, tk_model_name = [], tk_model_id = None, tk_shards = [],
      tk_assigned = [], tk_status = PENDING, tk_created = cl_now ca, tk_started = 0, tk_completed = 0,
      tk_timeout = real_of_int (jr_timeout j), tk_error = [], tk_user = user, tk_capability = jr_driver j,
      tk_preferred = jr_preferred j, tk_exclude = jr_exclude j, tk_owner = aa_owner h, tk_pinned = [], tk_batch = bid,
      tk_tier = br_tier rq, tk_priority = br_priority rq, tk_degraded_from = [], tk_degradation_count = 0,
      tk_max_degradations = 2, tk_sub_tasks = [], tk_cancel_reason = [], tk_type = ''test'',
      tk_params = [(''command'', JList (map JStr (jr_command j))), (''cwd'', JStr (jr_cwd j)),
                   (''env'', JObj (map (\<lambda>(k, v). (k, JStr v)) (jr_env j))), (''timeout'', JInt (jr_timeout j))],
      tk_result = [], tk_retry_count = 0, tk_next_retry_at = 0, tk_prev_outputs = []\<rparr>"

text \<open>What the answer says of a job: its identifier, its task, its node and its state.\<close>

type_synonym assignment = "string \<times> string \<times> string \<times> string"

definition first_node :: "cluster_task \<Rightarrow> string" where
  "first_node t = (case tk_assigned t of [] \<Rightarrow> [] | n # _ \<Rightarrow> n)"

text \<open>The loop over the jobs: the master, the jobs and assignments so far, and whether one was assigned or queued.
  A job without a command ends the request where it stands.\<close>

fun assign_jobs ::
  "call \<Rightarrow> (nat \<Rightarrow> string \<times> string) \<Rightarrow> string \<Rightarrow> string \<Rightarrow> batch_request \<Rightarrow> nat \<Rightarrow> job_request list \<Rightarrow> master
     \<Rightarrow> master \<times> (nat + test_job list \<times> assignment list \<times> bool)" where
  "assign_jobs ca uids user bid rq i [] c = (c, Inr ([], [], False))"
| "assign_jobs ca uids user bid rq i (j # js) c =
     (if jr_command j = [] then (c, Inl 400)
      else
        let jid = job_id_of ca uids i j;
            tid = prefixed (ms_ha c) (''tjob_'' @ snd (uids i));
            r = fresh_ref (ms_td c);
            (c1, ok) = assign_task (cl_now ca) r (with_task r (job_task ca user jid tid bid rq j (ms_ha c)) c);
            t = the_task r c1;
            waits = (tk_status t = PENDING \<and> tk_id t \<in> set (queue_ids (ms_td c1)));
            state = (if waits then ''pending'' else status_value (tk_status t));
            meta = \<lparr>tj_id = JStr jid, tj_task = JStr tid, tj_driver = JStr (jr_driver j), tj_created = JReal (cl_now ca), tj_node = JStr []\<rparr>
        in case assign_jobs ca uids user bid rq (Suc i) js c1 of
             (c2, Inl code) \<Rightarrow> (c2, Inl code)
           | (c2, Inr (metas, outs, any)) \<Rightarrow> (c2, Inr (meta # metas, (jid, tid, first_node t, state) # outs, ok \<or> waits \<or> any)))"

definition on_server :: "'a server_reply \<Rightarrow> batch_server \<Rightarrow> batch_server \<times> (nat + 'a)" where
  "on_server r b = (b\<lparr>bs_server := fst r\<rparr>, snd r)"

definition register_test_batch :: "string \<Rightarrow> test_batch \<Rightarrow> batch_server \<Rightarrow> batch_server" where
  "register_test_batch bid tb b = b\<lparr>bs_batches := dset (bs_batches b) bid tb\<rparr>"

text \<open>The body of \<open>_build_test_batch\<close> after the checks.\<close>

definition build_batch ::
  "call \<Rightarrow> (nat \<Rightarrow> string \<times> string) \<Rightarrow> batch_request \<Rightarrow> string \<Rightarrow> batch_server \<Rightarrow> batch_server \<times> (nat + string \<times> assignment list)"
  where
  "build_batch ca uids rq actor b =
     (let user = str_or actor (br_user rq);
          s = resolve_tenant_quota ca user (bs_server b);
          h = ms_ha (srv_master s);
          bid = prefixed h (''batch_'' @ cl_uuid ca)
      in case assign_jobs ca uids user bid rq 0 (br_jobs rq) (srv_master s) of
           (c, Inl code) \<Rightarrow> (b\<lparr>bs_server := put_master c s\<rparr>, Inl code)
         | (c, Inr (metas, outs, any)) \<Rightarrow>
             (let tb = \<lparr>tb_id = JStr bid, tb_created = JReal (cl_now ca), tb_owner = JStr (aa_owner h), tb_jobs = metas,
                        tb_status = JStr ''pending''\<rparr>;
                  s1 = srv_log (str_or user ''unknown'') ''test_batch_submit'' ''/api/test/batches'' [] ''ok'' (put_master c s);
                  b1 = register_test_batch bid tb (b\<lparr>bs_server := s1\<rparr>)
              in if any then (b1, Inr (bid, outs)) else (b1, Inl 503)))"

definition batch_for_user ::
  "call \<Rightarrow> string \<Rightarrow> string \<Rightarrow> (string \<Rightarrow> batch_server \<Rightarrow> batch_server \<times> (nat + 'a)) \<Rightarrow> batch_server \<Rightarrow> batch_server \<times> (nat + 'a)" where
  "batch_for_user ca path meth rest b =
     (case ca_role (cl_caller ca) of
        None \<Rightarrow> rest [] b
      | Some role \<Rightarrow>
          if check_user_path_access role path meth then rest (ca_actor (cl_caller ca)) b
          else (b\<lparr>bs_server := srv_log (ca_actor (cl_caller ca)) ''permission_deny'' path [] ''denied'' (bs_server b)\<rparr>, Inl 403))"

definition batch_as_master ::
  "string \<Rightarrow> string \<Rightarrow> string \<Rightarrow> (batch_server \<Rightarrow> batch_server \<times> (nat + 'a)) \<Rightarrow> batch_server \<Rightarrow> batch_server \<times> (nat + 'a)" where
  "batch_as_master path meth logged rest b =
     (if check_path_access ''master'' path meth (ad_pm (srv_adm (bs_server b))) then rest b
      else (b\<lparr>bs_server := srv_log ''master'' ''permission_deny'' logged [] ''denied'' (bs_server b)\<rparr>, Inl 403))"

definition build_test_batch ::
  "call \<Rightarrow> (nat \<Rightarrow> string \<times> string) \<Rightarrow> batch_request \<Rightarrow> batch_server \<Rightarrow> batch_server \<times> (nat + string \<times> assignment list)" where
  "build_test_batch ca uids rq =
     batch_for_user ca ''/api/test/batches'' ''POST'' (\<lambda>actor.
       batch_as_master ''/api/tasks/submit'' ''POST'' ''/api/test/batches'' (\<lambda>b.
         if standby (bs_server b) then (b, Inl 503) else build_batch ca uids rq actor b))"

definition on_batch_services :: "(services \<Rightarrow> services) \<Rightarrow> batch_server \<Rightarrow> batch_server" where
  "on_batch_services f b = b\<lparr>bs_server := on_services f (bs_server b)\<rparr>"

text \<open>The look-up of the key comes before every check.  A batch that is found is answered with all jobs pending.\<close>

definition known_batch :: "call \<Rightarrow> batch_server \<Rightarrow> batch_server \<times> (string \<times> test_batch) option" where
  "known_batch ca b =
     (let key = py_strip (cl_idem ca); s = bs_server b
      in if key = [] then (b, None)
         else case try_idempotency (cl_now ca) key (ms_td (srv_master s)) (srv_services s) of
                (sv, None) \<Rightarrow> (on_batch_services (\<lambda>_. sv) b, None)
              | (sv, Some bid) \<Rightarrow>
                  (on_batch_services (\<lambda>_. sv) b, map_option (Pair bid) (dget (bs_batches b) bid)))"

definition submit_test_batch ::
  "call \<Rightarrow> (nat \<Rightarrow> string \<times> string) \<Rightarrow> batch_request \<Rightarrow> batch_server
     \<Rightarrow> batch_server \<times> (nat + string \<times> (json \<times> json \<times> json \<times> string) list)" where
  "submit_test_batch ca uids rq b =
     (case known_batch ca b of
        (b1, Some (bid, tb)) \<Rightarrow> (b1, Inr (bid, map (\<lambda>j. (tj_id j, tj_task j, tj_node j, ''pending'')) (tb_jobs tb)))
      | (b1, None) \<Rightarrow>
          (case build_test_batch ca uids rq b1 of
             (b2, Inl code) \<Rightarrow> (b2, Inl code)
           | (b2, Inr (bid, outs)) \<Rightarrow>
               (let key = py_strip (cl_idem ca)
                in (if key = [] then b2 else on_batch_services (register_idempotency (cl_now ca) key bid) b2,
                    Inr (bid, map (\<lambda>(jid, tid, nid, st). (JStr jid, JStr tid, JStr nid, st)) outs)))))"

subsection \<open>State and report\<close>

text \<open>The table of tasks as a map of their texts; the identifiers of a batch made here are texts.\<close>

definition task_of :: "json \<Rightarrow> batch_server \<Rightarrow> cluster_task option" where
  "task_of j b = (case j of JStr tid \<Rightarrow> get_task tid (ms_td (srv_master (bs_server b))) | _ \<Rightarrow> None)"

definition state_of :: "test_job \<Rightarrow> batch_server \<Rightarrow> string" where
  "state_of j b = (case task_of (tj_task j) b of None \<Rightarrow> ''pending'' | Some t \<Rightarrow> status_value (tk_status t))"

definition node_of :: "test_job \<Rightarrow> batch_server \<Rightarrow> json" where
  "node_of j b =
     (case task_of (tj_task j) b of
        None \<Rightarrow> tj_node j | Some t \<Rightarrow> (case tk_assigned t of [] \<Rightarrow> tj_node j | n # _ \<Rightarrow> JStr n))"

definition batch_status :: "test_batch \<Rightarrow> batch_server \<Rightarrow> json" where
  "batch_status tb b = derive_status (\<lambda>j. map_option (\<lambda>t. status_value (tk_status t)) (task_of j b)) tb"

definition get_test_batch ::
  "string \<Rightarrow> batch_server \<Rightarrow> batch_server \<times> (nat + json \<times> (json \<times> json \<times> json \<times> string) list)" where
  "get_test_batch bid =
     batch_as_master ''/api/tasks'' ''GET'' ''/api/test/batches'' (\<lambda>b.
       case dget (bs_batches b) bid of
         None \<Rightarrow> (b, Inl 404)
       | Some tb \<Rightarrow> (b, Inr (batch_status tb b, map (\<lambda>j. (tj_id j, tj_task j, node_of j b, state_of j b)) (tb_jobs tb))))"

text \<open>The exit code: of the first output of the result, or of the result.\<close>

definition exit_code_of :: "cluster_task \<Rightarrow> json" where
  "exit_code_of t =
     (case value_or (jget (tk_result t) ''outputs'' JNull) (JList []) of
        JList (JObj d # _) \<Rightarrow> jget d ''exit_code'' JNull
      | _ \<Rightarrow> jget (tk_result t) ''exit_code'' JNull)"

definition job_exit :: "test_job \<Rightarrow> batch_server \<Rightarrow> json" where
  "job_exit j b = (case task_of (tj_task j) b of None \<Rightarrow> JNull | Some t \<Rightarrow> exit_code_of t)"

datatype job_outcome = Passed | Failed | Running | Waiting

definition job_outcome_of :: "test_job \<Rightarrow> batch_server \<Rightarrow> job_outcome" where
  "job_outcome_of j b =
     (let st = state_of j b
      in if st = ''completed'' \<and> (job_exit j b = JInt 0 \<or> job_exit j b = JReal 0 \<or> job_exit j b = JBool False) then Passed
         else if st \<in> {''failed'', ''timeout'', ''cancelled''} then Failed
         else if st = ''running'' then Running else Waiting)"

text \<open>The summary: total, passed, failed, running, pending.\<close>

definition batch_summary :: "test_batch \<Rightarrow> batch_server \<Rightarrow> nat \<times> nat \<times> nat \<times> nat \<times> nat" where
  "batch_summary tb b =
     (let k = (\<lambda>v. count_if (\<lambda>j. job_outcome_of j b = v) (tb_jobs tb))
      in (length (tb_jobs tb), k Passed, k Failed, k Running, k Waiting))"

definition get_test_batch_report ::
  "string \<Rightarrow> batch_server
     \<Rightarrow> batch_server \<times> (nat + json \<times> (nat \<times> nat \<times> nat \<times> nat \<times> nat) \<times> (json \<times> json \<times> json \<times> string \<times> json) list)" where
  "get_test_batch_report bid =
     batch_as_master ''/api/tasks'' ''GET'' ''/api/test/batches/report'' (\<lambda>b.
       case dget (bs_batches b) bid of
         None \<Rightarrow> (b, Inl 404)
       | Some tb \<Rightarrow>
           (b, Inr (batch_status tb b, batch_summary tb b,
                    map (\<lambda>j. (tj_id j, tj_task j, node_of j b, state_of j b, job_exit j b)) (tb_jobs tb))))"

subsection \<open>Accounts and reports\<close>

lemma accounts_jobs:
  "accounts_ok c \<Longrightarrow> accounts_ok (fst (assign_jobs ca uids user bid rq i js c))"
proof (induction js arbitrary: i c)
  case (Cons j js)
  let ?t = "job_task ca user (job_id_of ca uids i j) (prefixed (ms_ha c) (''tjob_'' @ snd (uids i))) bid rq j (ms_ha c)"
  let ?r = "fresh_ref (ms_td c)"
  have "accounts_ok (with_task ?r ?t c)"
    using Cons.prems sched_inv_with_fresh [OF _ refl] serving_ha [of "with_task ?r ?t c" c] by (simp add: accounts_ok_def)
  then have "accounts_ok (fst (assign_task (cl_now ca) ?r (with_task ?r ?t c)))" by (rule accounts_assign)
  from Cons.IH [OF this, of "Suc i"] show ?case
    using Cons.prems by (simp add: split_beta Let_def split: sum.split)
qed simp

text \<open>The counters of the nodes stay those of the running tasks when batches are submitted too.\<close>

theorem batches_keep_accounts:
  assumes "accounts_ok (srv_master (bs_server b))"
  shows "accounts_ok (srv_master (bs_server (fst (submit_test_batch ca uids rq b))))"
proof -
  have build: "accounts_ok (srv_master (bs_server (fst (build_batch ca uids rq actor x))))" if "accounts_ok (srv_master (bs_server x))" for actor x
  proof -
    let ?s = "resolve_tenant_quota ca (str_or actor (br_user rq)) (bs_server x)"
    obtain c r where a: "assign_jobs ca uids (str_or actor (br_user rq)) (prefixed (ms_ha (srv_master ?s)) (''batch_'' @ cl_uuid ca)) rq 0
        (br_jobs rq) (srv_master ?s) = (c, r)" by fastforce
    have "accounts_ok (srv_master ?s)" using accounts_same_tables [OF same_tables_quota that] .
    from accounts_jobs [OF this] have "accounts_ok c" using a by (metis fst_conv)
    then show ?thesis unfolding build_batch_def Let_def a by (auto simp: register_test_batch_def split: sum.split)
  qed
  have guarded: "accounts_ok (srv_master (bs_server (fst (build_test_batch ca uids rq x))))" if "accounts_ok (srv_master (bs_server x))" for x
    using build [OF that] that
    by (simp add: build_test_batch_def batch_for_user_def batch_as_master_def split: option.split)
  obtain b1 found where k: "known_batch ca b = (b1, found)" by fastforce
  then have "srv_master (bs_server b1) = srv_master (bs_server b)"
    by (auto simp: known_batch_def on_batch_services_def Let_def split: if_splits prod.splits option.splits)
  then have "accounts_ok (srv_master (bs_server b1))" using assms by simp
  moreover obtain b2 r where "build_test_batch ca uids rq b1 = (b2, r)" by fastforce
  ultimately show ?thesis
    using guarded [of b1]
    by (auto simp: submit_test_batch_def k on_batch_services_def Let_def split: option.split sum.split)
qed

text \<open>Every job of a batch is counted once in its report.\<close>

lemma report_counts_every_job:
  "batch_summary tb b = (n, p, f, r, w) \<Longrightarrow> n = p + f + r + w"
proof -
  have "length js = count_if (\<lambda>j. job_outcome_of j b = Passed) js + count_if (\<lambda>j. job_outcome_of j b = Failed) js +
      count_if (\<lambda>j. job_outcome_of j b = Running) js + count_if (\<lambda>j. job_outcome_of j b = Waiting) js" for js
  proof (induction js)
    case (Cons j js)
    then show ?case by (cases "job_outcome_of j b") simp_all
  qed simp
  then show "batch_summary tb b = (n, p, f, r, w) \<Longrightarrow> n = p + f + r + w"
    by (auto simp: batch_summary_def Let_def)
qed

text \<open>A job without a command ends the request after the jobs before it were assigned, and no batch is registered:
  those tasks run, and nothing reports them.\<close>

lemma jobs_before_a_bad_one:
  "\<lbrakk>jr_command bad = []; \<forall>j \<in> set js. jr_command j \<noteq> []\<rbrakk>
    \<Longrightarrow> assign_jobs ca uids user bid rq i (js @ bad # ks) c = (fst (assign_jobs ca uids user bid rq i js c), Inl 400)"
proof (induction js arbitrary: i c)
  case (Cons j js)
  then show ?case by (simp add: split_beta Let_def split: sum.split)
qed simp

theorem bad_job_orphans_the_jobs_before:
  assumes "jr_command bad = []" "\<forall>j \<in> set js. jr_command j \<noteq> []" "br_jobs rq = js @ bad # ks"
  shows "\<exists>user bid. build_batch ca uids rq actor b =
      (b\<lparr>bs_server := put_master (fst (assign_jobs ca uids user bid rq 0 js (srv_master (resolve_tenant_quota ca user (bs_server b)))))
          (resolve_tenant_quota ca user (bs_server b))\<rparr>, Inl 400)"
  using jobs_before_a_bad_one [OF assms(1,2)]
  by (intro exI [of _ "str_or actor (br_user rq)"]
      exI [of _ "prefixed (ms_ha (srv_master (resolve_tenant_quota ca (str_or actor (br_user rq)) (bs_server b)))) (''batch_'' @ cl_uuid ca)"])
    (unfold build_batch_def Let_def assms(3), simp)

end
