(* ===== verification/UserRoutes.thy ===== *)
theory UserRoutes
  imports HttpAuth NodeAdmission
begin

text \<open>
  The routes for users and their tokens (\<open>server/master_server.py\<close>) behind the authentication of requests: who a
  request is taken for (\<open>_resolve_actor\<close> and \<open>_user_token_role\<close> on what \<open>BearerAuthMiddleware\<close> wrote to the scope), the
  guard of the routes, and the calls of the store.  The log entries leave the text of their details out.
\<close>

subsection \<open>Who calls\<close>

definition node_id_header :: "http_request \<Rightarrow> string" where
  "node_id_header rq = (case find (\<lambda>(n, v). n = ''x-node-id'') (rq_headers rq) of None \<Rightarrow> [] | Some (_, v) \<Rightarrow> v)"

text \<open>\<open>_resolve_actor\<close>; \<open>show\<close> is the text of a claim that is not one.\<close>

definition resolve_actor :: "(json \<Rightarrow> string) \<Rightarrow> http_request \<Rightarrow> identity option \<Rightarrow> string" where
  "resolve_actor shows rq who =
     (case who of
        Some (UserId uid _) \<Rightarrow> str_or uid (node_id_header rq)
      | Some (JwtId tid _ _) \<Rightarrow> if truthy tid then shows tid else node_id_header rq
      | _ \<Rightarrow> node_id_header rq)"

text \<open>\<open>_user_token_role\<close>: a role that is none of the three is taken for no role.\<close>

definition user_token_role :: "identity option \<Rightarrow> user_role option" where
  "user_token_role who =
     (case who of
        Some (UserId _ role) \<Rightarrow> Some role
      | Some (JwtId _ (JStr r) _) \<Rightarrow> role_of_value r
      | _ \<Rightarrow> None)"

definition caller_of :: "(json \<Rightarrow> string) \<Rightarrow> http_request \<Rightarrow> identity option \<Rightarrow> caller" where
  "caller_of shows rq who = \<lparr>ca_role = user_token_role who, ca_actor = resolve_actor shows rq who\<rparr>"

subsection \<open>The routes\<close>

text \<open>The store, when there is one, and the log: actor, action, method and result.\<close>

record user_server =
  uv_users :: "user_store option"
  uv_audit :: "(string \<times> string \<times> string \<times> string) list"

type_synonym 'a user_reply = "user_server \<times> (nat + 'a)"

definition uv_log :: "string \<Rightarrow> string \<Rightarrow> string \<Rightarrow> string \<Rightarrow> user_server \<Rightarrow> user_server" where
  "uv_log actor action meth result s = s\<lparr>uv_audit := uv_audit s @ [(actor, action, meth, result)]\<rparr>"

text \<open>\<open>_enforce_user_rbac\<close> for \<open>/api/v1/users\<close>.\<close>

definition users_rbac :: "caller \<Rightarrow> string \<Rightarrow> (string \<Rightarrow> user_server \<Rightarrow> 'a user_reply) \<Rightarrow> user_server \<Rightarrow> 'a user_reply" where
  "users_rbac cl meth rest s =
     (case ca_role cl of
        None \<Rightarrow> rest [] s
      | Some role \<Rightarrow>
          if check_user_path_access role ''/api/v1/users'' meth then rest (ca_actor cl) s
          else (uv_log (ca_actor cl) ''permission_deny'' meth ''denied'' s, Inl 403))"

text \<open>\<open>_require_user_store\<close>; the rest of the route gets the administrator and the store.\<close>

definition require_user_store ::
  "caller \<Rightarrow> (string \<Rightarrow> user_store \<Rightarrow> user_server \<Rightarrow> 'a user_reply) \<Rightarrow> user_server \<Rightarrow> 'a user_reply" where
  "require_user_store cl rest s =
     (case uv_users s of
        None \<Rightarrow> (s, Inl 503)
      | Some us \<Rightarrow>
          users_rbac cl ''POST'' (\<lambda>actor s.
            if actor = [] then (uv_log [] ''permission_deny'' ''POST'' ''denied'' s, Inl 403) else rest actor us s) s)"

text \<open>What the store draws when it makes a user or a token.\<close>

record drawn =
  dr_now :: time
  dr_salt :: "byte list"
  dr_secret :: string
  dr_tid :: string

definition create_user_route ::
  "(string \<Rightarrow> byte list \<Rightarrow> string) \<Rightarrow> drawn \<Rightarrow> caller \<Rightarrow> string \<Rightarrow> string \<Rightarrow> string \<Rightarrow> user_server \<Rightarrow> (string \<times> user_role) user_reply"
  where
  "create_user_route scrypt dr cl uid role_text password =
     require_user_store cl (\<lambda>admin us s.
       case role_of_value role_text of
         None \<Rightarrow> (s, Inl 400)
       | Some role \<Rightarrow>
           (case create_user scrypt (dr_now dr) (dr_salt dr) (dr_secret dr) uid role password us of
              Inl _ \<Rightarrow> (s, Inl 400)
            | Inr (us1, _) \<Rightarrow> (uv_log admin ''user_create'' ''POST'' ''ok'' (s\<lparr>uv_users := Some us1\<rparr>), Inr (uid, role))))"

definition list_users_route :: "caller \<Rightarrow> user_server \<Rightarrow> ((string \<times> user_role \<times> time \<times> nat) list) user_reply" where
  "list_users_route cl s =
     (case uv_users s of
        None \<Rightarrow> (s, Inl 503)
      | Some us \<Rightarrow> users_rbac cl ''GET'' (\<lambda>_ s. (s, Inr (list_users us))) s)"

text \<open>The answer has neither hashes nor salts.\<close>

definition get_user_route ::
  "caller \<Rightarrow> string \<Rightarrow> user_server \<Rightarrow> (string \<times> user_role \<times> time \<times> (string \<times> string \<times> time) list) user_reply" where
  "get_user_route cl uid s =
     (case uv_users s of
        None \<Rightarrow> (s, Inl 503)
      | Some us \<Rightarrow>
          users_rbac cl ''GET'' (\<lambda>_ s.
            if \<not> is_safe_path_segment uid then (s, Inl 400)
            else case dget (us_users us) uid of
                   None \<Rightarrow> (s, Inl 404)
                 | Some u \<Rightarrow>
                     (s, Inr (ur_id u, ur_role u, ur_created u, map (\<lambda>t. (ut_tid t, ut_label t, ut_created t)) (ur_tokens u)))) s)"

definition delete_user_route :: "caller \<Rightarrow> string \<Rightarrow> user_server \<Rightarrow> unit user_reply" where
  "delete_user_route cl uid =
     require_user_store cl (\<lambda>admin us s.
       if \<not> is_safe_path_segment uid then (s, Inl 400)
       else if uid = admin then (s, Inl 400)
       else case delete_user uid us of
              (us1, False) \<Rightarrow> (s\<lparr>uv_users := Some us1\<rparr>, Inl 404)
            | (us1, True) \<Rightarrow> (uv_log admin ''user_delete'' ''DELETE'' ''ok'' (s\<lparr>uv_users := Some us1\<rparr>), Inr ()))"

definition update_user_role_route :: "caller \<Rightarrow> string \<Rightarrow> string \<Rightarrow> user_server \<Rightarrow> user_role user_reply" where
  "update_user_role_route cl uid role_text =
     require_user_store cl (\<lambda>admin us s.
       case role_of_value role_text of
         None \<Rightarrow> (s, Inl 400)
       | Some role \<Rightarrow>
           (case set_role uid role us of
              (us1, False) \<Rightarrow> (s\<lparr>uv_users := Some us1\<rparr>, Inl 404)
            | (us1, True) \<Rightarrow> (uv_log admin ''user_role_update'' ''PUT'' ''ok'' (s\<lparr>uv_users := Some us1\<rparr>), Inr role)))"

text \<open>The token is in the answer and not in the log.\<close>

definition issue_user_token_route ::
  "(string \<Rightarrow> byte list \<Rightarrow> string) \<Rightarrow> drawn \<Rightarrow> caller \<Rightarrow> string \<Rightarrow> string \<Rightarrow> user_server \<Rightarrow> string user_reply" where
  "issue_user_token_route scrypt dr cl uid label =
     require_user_store cl (\<lambda>admin us s.
       if \<not> is_safe_path_segment uid then (s, Inl 400)
       else case issue_token scrypt (dr_now dr) (dr_tid dr) (dr_secret dr) (dr_salt dr) uid label us of
              Inl _ \<Rightarrow> (s, Inl 404)
            | Inr (us1, token) \<Rightarrow> (uv_log admin ''token_issue'' ''POST'' ''ok'' (s\<lparr>uv_users := Some us1\<rparr>), Inr token))"

definition revoke_user_token_route :: "caller \<Rightarrow> string \<Rightarrow> string \<Rightarrow> user_server \<Rightarrow> unit user_reply" where
  "revoke_user_token_route cl uid tid =
     require_user_store cl (\<lambda>admin us s.
       case revoke_token uid tid us of
         (us1, False) \<Rightarrow> (s\<lparr>uv_users := Some us1\<rparr>, Inl 404)
       | (us1, True) \<Rightarrow> (uv_log admin ''token_revoke'' ''DELETE'' ''ok'' (s\<lparr>uv_users := Some us1\<rparr>), Inr ()))"

definition rotate_user_token_route ::
  "(string \<Rightarrow> byte list \<Rightarrow> string) \<Rightarrow> drawn \<Rightarrow> caller \<Rightarrow> string \<Rightarrow> string \<Rightarrow> user_server \<Rightarrow> string user_reply" where
  "rotate_user_token_route scrypt dr cl uid label =
     require_user_store cl (\<lambda>admin us s.
       if \<not> is_safe_path_segment uid then (s, Inl 400)
       else case rotate_user_token scrypt (dr_now dr) (dr_tid dr) (dr_secret dr) (dr_salt dr) uid label us of
              Inl _ \<Rightarrow> (s, Inl 404)
            | Inr (us1, token) \<Rightarrow> (uv_log admin ''token_rotate'' ''POST'' ''ok'' (s\<lparr>uv_users := Some us1\<rparr>), Inr token))"

subsection \<open>Requests\<close>

datatype user_call =
  CreateUser string string string
| ListUsers
| GetUser string
| DeleteUser string
| SetRole string string
| IssueToken string string
| RevokeToken string string
| RotateToken string string

definition user_call_step ::
  "(string \<Rightarrow> byte list \<Rightarrow> string) \<Rightarrow> drawn \<Rightarrow> caller \<Rightarrow> user_call \<Rightarrow> user_server \<Rightarrow> user_server" where
  "user_call_step scrypt dr cl call s =
     (case call of
        CreateUser uid role password \<Rightarrow> fst (create_user_route scrypt dr cl uid role password s)
      | ListUsers \<Rightarrow> fst (list_users_route cl s)
      | GetUser uid \<Rightarrow> fst (get_user_route cl uid s)
      | DeleteUser uid \<Rightarrow> fst (delete_user_route cl uid s)
      | SetRole uid role \<Rightarrow> fst (update_user_role_route cl uid role s)
      | IssueToken uid label \<Rightarrow> fst (issue_user_token_route scrypt dr cl uid label s)
      | RevokeToken uid tid \<Rightarrow> fst (revoke_user_token_route cl uid tid s)
      | RotateToken uid label \<Rightarrow> fst (rotate_user_token_route scrypt dr cl uid label s))"

text \<open>A request: the middleware, which reads the store of the server, then the route.\<close>

definition serve_user_request ::
  "(string \<Rightarrow> byte list \<Rightarrow> string) \<Rightarrow> (json \<Rightarrow> string) \<Rightarrow> auth_config \<Rightarrow> drawn \<Rightarrow> http_request \<Rightarrow> user_call \<Rightarrow> user_server \<Rightarrow> user_server"
  where
  "serve_user_request scrypt shows cfg dr rq call s =
     (case auth_call scrypt (cfg\<lparr>ac_users := uv_users s\<rparr>) rq of
        Unauthorized _ \<Rightarrow> s
      | Raised _ \<Rightarrow> s
      | Forward who \<Rightarrow> user_call_step scrypt dr (caller_of shows rq who) call s)"

subsection \<open>Only administrators change users\<close>

lemma manage_only_admin: "check_user_path_access role ''/api/v1/users'' ''POST'' \<longleftrightarrow> role = ADMIN"
  by (cases role) (simp_all, code_simp+)

lemma require_user_store_same:
  assumes "ca_role cl \<noteq> Some ADMIN \<or> ca_actor cl = []"
  shows "uv_users (fst (require_user_store cl rest s)) = uv_users s"
  using assms by (auto simp: require_user_store_def users_rbac_def uv_log_def manage_only_admin split: option.split)

lemma step_needs_admin:
  assumes "uv_users (user_call_step scrypt dr cl call s) \<noteq> uv_users s"
  shows "ca_role cl = Some ADMIN \<and> ca_actor cl \<noteq> []"
proof (rule ccontr)
  assume "\<not> (ca_role cl = Some ADMIN \<and> ca_actor cl \<noteq> [])"
  then have "ca_role cl \<noteq> Some ADMIN \<or> ca_actor cl = []" by blast
  note same = require_user_store_same [OF this]
  have "uv_users (user_call_step scrypt dr cl call s) = uv_users s"
    by (cases call)
       (simp_all add: user_call_step_def create_user_route_def delete_user_route_def update_user_role_route_def
          issue_user_token_route_def revoke_user_token_route_def rotate_user_token_route_def list_users_route_def
          get_user_route_def users_rbac_def uv_log_def same split: option.split)
  with assms show False by simp
qed

text \<open>The token a request presents.\<close>

definition bearer_token :: "http_request \<Rightarrow> string" where
  "bearer_token rq = drop 7 (auth_header rq)"

text \<open>C15: The users change only for an administrator: a request after which the store differs carried the token of a
  user the store has as an administrator, or a JWT whose verified claims name the role of one.  The token of the
  cluster, with which nodes and masters do everything else, is not enough.\<close>

theorem only_admins_change_users:
  assumes "uv_users (serve_user_request scrypt shows cfg dr rq call s) \<noteq> uv_users s"
    and "rq_type rq = ''http''" and "rq_path rq \<notin> set EXEMPT_PATHS" and "uv_users s = Some us"
  shows "(\<exists>uid u. validate scrypt (bearer_token rq) us = Some (uid, ADMIN) \<and> dget (us_users us) uid = Some u \<and> ur_role u = ADMIN) \<or>
    (\<exists>verify d. ac_jwt cfg = Some verify \<and> verify (bearer_token rq) = JwtClaims d \<and> jget d ''role'' (JStr ''user'') = JStr ''admin'')"
proof -
  let ?a = "auth_call scrypt (cfg\<lparr>ac_users := uv_users s\<rparr>) rq"
  obtain who where who: "?a = Forward who" and ch: "uv_users (user_call_step scrypt dr (caller_of shows rq who) call s) \<noteq> uv_users s"
    using assms(1) by (cases ?a) (auto simp: serve_user_request_def)
  have role: "user_token_role who = Some ADMIN" using step_needs_admin [OF ch] by (simp add: caller_of_def)
  consider (user) uid where "who = Some (UserId uid ADMIN)" | (jwt) tid q where "who = Some (JwtId tid (JStr ''admin'') q)"
    using role by (auto simp: user_token_role_def role_of_value_def split: option.splits identity.splits json.splits if_splits)
  then show ?thesis
  proof cases
    case user
    then have "validate scrypt (bearer_token rq) us = Some (uid, ADMIN)"
      using who assms(2-4) by (auto simp: auth_call_def Let_def bearer_token_def cluster_passes split: if_splits option.splits jwt_result.splits)
    moreover from this have "\<exists>u. dget (us_users us) uid = Some u \<and> ur_role u = ADMIN"
      by (auto simp: validate_def split: if_splits option.splits)
    ultimately show ?thesis by blast
  next
    case jwt
    then show ?thesis
      using who assms(2-4) by (auto simp: auth_call_def Let_def bearer_token_def cluster_passes split: if_splits option.splits jwt_result.splits)
  qed
qed

definition admin_users :: user_store where
  "admin_users =
     (case create_user demo_scrypt 10 [1] ''x'' ''ann'' ADMIN ''pw'' \<lparr>us_users = [], us_file = None\<rparr> of
        Inl _ \<Rightarrow> \<lparr>us_users = [], us_file = None\<rparr>
      | Inr (s, _) \<Rightarrow> (case issue_token demo_scrypt 11 ''t1'' ''abc'' [7] ''ann'' [] s of Inr (s1, _) \<Rightarrow> s1 | Inl _ \<Rightarrow> s))"

definition admin_server :: user_server where
  "admin_server = \<lparr>uv_users = Some admin_users, uv_audit = []\<rparr>"

definition admin_request :: http_request where
  "admin_request = \<lparr>rq_type = ''http'', rq_path = ''/api/v1/users'', rq_headers = [(''authorization'', ''Bearer fmu_ann_abc'')]\<rparr>"

definition demo_drawn :: drawn where
  "demo_drawn = \<lparr>dr_now = 20, dr_salt = [9], dr_secret = ''s'', dr_tid = ''t2''\<rparr>"

lemma only_admins_change_users_witness:
  "\<exists>uid u. validate demo_scrypt (bearer_token admin_request) admin_users = Some (uid, ADMIN) \<and>
     dget (us_users admin_users) uid = Some u \<and> ur_role u = ADMIN"
proof -
  let ?s = "serve_user_request demo_scrypt (\<lambda>_. []) (auth_init ''c'' [] None None) demo_drawn admin_request (CreateUser ''bob'' ''user'' []) admin_server"
  have "uv_users ?s \<noteq> uv_users admin_server" by code_simp
  moreover have "rq_type admin_request = ''http''" "rq_path admin_request \<notin> set EXEMPT_PATHS" "uv_users admin_server = Some admin_users"
    by (simp_all add: admin_request_def EXEMPT_PATHS_def admin_server_def)
  moreover have "ac_jwt (auth_init ''c'' [] None None) = None" by (simp add: auth_init_def Let_def)
  ultimately show ?thesis using only_admins_change_users by fastforce
qed

text \<open>An administrator cannot delete itself but can give up its role, also as the last one; nobody can manage users
  then, and \<open>bootstrap_admin\<close> does nothing while there are users.\<close>

lemma last_admin_steps_down:
  "let cl = \<lparr>ca_role = Some ADMIN, ca_actor = ''ann''\<rparr>;
       s = user_call_step demo_scrypt demo_drawn cl (SetRole ''ann'' ''viewer'') admin_server
   in user_call_step demo_scrypt demo_drawn cl (DeleteUser ''ann'') admin_server = admin_server \<and>
      (case uv_users s of None \<Rightarrow> False | Some us \<Rightarrow> list_all (\<lambda>(_, u). ur_role u \<noteq> ADMIN) (us_users us) \<and>
         bootstrap_admin demo_scrypt 0 [] [] [] [] [] ''eve'' [] us = Inr (us, []))"
  by code_simp

text \<open>A JWT whose role is none of the three is taken for a request of the cluster: no route checks what its user may
  do, not even those a viewer is refused.\<close>

lemma unknown_role_is_unchecked:
  assumes "role_of_value r = None"
  shows "enforce_user_rbac (env\<lparr>ro_caller := caller_of shows rq (Some (JwtId tid (JStr r) quota))\<rparr>) path meth rest s = rest s"
  using assms by (simp add: enforce_user_rbac_def caller_of_def user_token_role_def)

end
