(* ===== verification/Spec2Isabelle.thy ===== *)
theory Spec2Isabelle
  imports CircuitBreaker ElectionSafety SlotClaims HaClaims DispatchClaims AgentClaims FmpProto FmpLink KvStore ShardReplication Schedules Sharding AuditChain RateLimit NodeAdmission ClusterSync SessionStore HaStart RouteClaims TestBatches UserRoutes
begin

text \<open>
  \<^bold>\<open>fusion-multi-nodes: masters, agents and the protocol between them.\<close>

  A cluster of this program has several masters, of which the elected leader places tasks on worker
  nodes.  Each worker runs an agent that checks what it is asked to do and passes it to a local inference
  server; masters, agents and their peers speak HTTP and, between nodes, the binary protocol FMP.  This
  library models the Python code under \<open>src/fusion_multi_node/\<close>.  Every theory opens with the part of the
  code it holds; this text says how the parts fit together and how to read the models.

  \<^bold>\<open>Reading the models.\<close>
  \<^item> A class is a \<open>record\<close> of its attributes, a method a function from the record to the record and the
    result, in the order of the code.  Attributes that are only logged or timed are left out.
  \<^item> A Python dictionary keeps its insertion order, so it is an association list (\<open>Prelude\<close>: \<open>dget\<close>, \<open>dset\<close>,
    \<open>dpop\<close>); a JSON value is the type \<open>json\<close>; \<open>float\<close> is \<open>real\<close>, \<open>int\<close> is \<open>int\<close>, bytes are \<open>8 word list\<close>, text is
    \<open>string\<close> restricted to ASCII where a method of \<open>str\<close> matters (\<open>PyText\<close>).
  \<^item> An exception that leaves an operation is a value: \<open>Inl\<close> of the error, or a constructor of the
    operation's own result type.  An exception that the code catches is the branch the handler takes.
  \<^item> The clock, random tokens, hashes, ciphers, the file system, DNS and the network are arguments.  What a
    property needs of them is a premise of the property with the documented law, and its witness gives a
    function that satisfies it.
  \<^item> A coroutine is split at an \<open>await\<close> wherever another operation can change what it goes on to read: an
    election's vote response, the commit of an assignment, a dispatch, a fire of a schedule, an execution
    on the agent.  Properties then speak of arbitrary sequences of the parts.
  \<^item> Loops of the code recurse on the list they read or on a measure; no definition needs fuel.  Background loops
    (\<open>while self._running: sleep; work\<close>) are modelled by one round each, and properties speak of any number of
    rounds.

  \<^bold>\<open>Theories and sources.\<close>
  \<^item> \<open>Prelude\<close>, \<open>PyText\<close>: dictionaries, exceptions, stable sorting, text and bytes, and the interfaces
    \<open>join_log\<close> (a value only raised by what it is offered), \<open>max_register\<close>, \<open>wire_format\<close> (what is decoded is
    what was encoded, up to a normal form).  Each is interpreted where a component provides it.
  \<^item> \<open>Election\<close>, \<open>ElectionSafety\<close> (\<open>master/election.py\<close>): one manager with its term file; a cluster of managers
    with a network that loses, repeats and reorders messages.  A term has at most one leader, a leader has
    a majority, a vote binds across restarts, an uncontested election ends.
  \<^item> \<open>LoadRouter\<close> (\<open>master/load_metrics.py\<close>), \<open>ModelSize\<close>, \<open>NodeRegistry\<close>, \<open>TaskStore\<close>, \<open>Scheduling\<close>, \<open>SlotLedger\<close>
    (\<open>master/cluster_master.py\<close>): load scores; sizes in model names; the node table with faults, bans and
    drains; the task table, queue, retries and file; assignment and every handler that starts or ends a
    run.  \<open>SlotClaims\<close> takes all of these handlers as one step relation: the slot counter of a node equals its
    running tasks, stays under the node's limit, and draining loses no task.
  \<^item> \<open>Dispatch\<close>, \<open>DispatchClaims\<close> (\<open>master/cluster_master.py\<close>): requests to agents, data parallel and pipelined;
    a dispatch ends its run and a resumed pipeline computes what an uninterrupted one does.
  \<^item> \<open>MasterServices\<close>, \<open>HaSync\<close>, \<open>HaClaims\<close> (\<open>master/cluster_master.py\<close>, \<open>server/master_server.py\<close>): chat slots,
    sessions, idempotency keys; the state a leader pushes to standbys and how they merge it.
  \<^item> \<open>Permission\<close>, \<open>UserStore\<close>, \<open>HttpAuth\<close> (\<open>security/permission.py\<close>, \<open>security/user_store.py\<close>, \<open>utils/auth.py\<close>): roles,
    tokens and the middleware in front of every route; the checks on hosts, URLs and path segments.
  \<^item> \<open>NodeAdmission\<close> (\<open>security/node_approval.py\<close>, \<open>discovery/manual_join.py\<close>, \<open>server/master_server.py\<close>): approval table,
    join requests and the routes in front of the node table.
  \<^item> \<open>Sandbox\<close>, \<open>NodeAgent\<close>, \<open>AgentClaims\<close>, \<open>RateLimit\<close> (\<open>security/sandbox.py\<close>, \<open>agent/\<close>, \<open>server/agent_server.py\<close>): what an
    agent lets through, how it runs and cancels tasks, how often it may be asked.
  \<^item> \<open>Schedules\<close> (\<open>agent/scheduling.py\<close>): resident agents' schedules, their runs and file.
  \<^item> \<open>FmpCodec\<close>, \<open>FmpProto\<close>, \<open>FmpLink\<close>, \<open>CircuitBreaker\<close> (\<open>protocol/\<close>): messages and their bytes, both versions of
    the protocol, the stream reader, connections and router, the breaker of a peer.
  \<^item> \<open>KvStore\<close>, \<open>StorageVolume\<close>, \<open>ShardReplication\<close> (\<open>storage/\<close>): expiring entries, volumes with limits, replicas of
    model shards and the receiver of a pushed shard.
  \<^item> \<open>Sharding\<close> (\<open>master/task_sharding.py\<close>, \<open>master/task_spec.py\<close>, \<open>master/test_batch.py\<close>): splitting a task and
    merging its answers.
  \<^item> \<open>AuditChain\<close> (\<open>security/audit_log.py\<close>, \<open>security/cluster_key.py\<close>): the chained log and the message codes.

  \<^bold>\<open>How components meet.\<close>  The handlers of \<open>SlotLedger\<close> change the node table of \<open>NodeRegistry\<close> and the task
  table of \<open>TaskStore\<close> in one step, as the code does under its locks; \<open>Dispatch\<close> runs between two of those
  steps.  \<open>HaClaims\<close> sends what one master holds through the dictionaries of \<open>HaSync\<close> into another master and
  goes on with the scheduler of \<open>SlotLedger\<close> there.  \<open>AgentClaims\<close> takes the request \<open>Dispatch\<close> builds through
  the route of the agent to the request of the inference server.  \<open>NodeAdmission\<close> puts the routes in front of
  the registration of \<open>NodeRegistry\<close>.  \<open>FmpLink\<close> cuts the frames of \<open>FmpCodec\<close> into chunks, \<open>ShardReplication\<close> and
  \<open>KvStore\<close> answer messages of it.

  \<^bold>\<open>Not modelled.\<close>  Operating system and hardware (resource limits, sandbox profiles, probes of memory and GPU),
  TLS and key exchange, mDNS, tensors and their compression (\<open>distributed_mlx/\<close>), rendering of metrics, the command
  line, the checks of documents in the continuous integration, the routes that only unpack a request, call one modelled
  operation and pack its answer, and everything that is not Python.  Rounding of floats and the finer points of Unicode are not
  modelled either; no property depends on them except through the laws its premises name.
\<close>

end
